(* ===== verification/Felicia_Prelude.thy ===== *)
theory Felicia_Prelude
  imports Main "HOL-Library.Word" "HOL-Library.Char_ord" "HOL-Library.List_Lexorder"
begin

text \<open>
  The prelude of the development: machine integer types, the ordered association lists that
  model \<open>base::flat_map\<close> (a sorted vector of key/value pairs), list searches that model
  \<open>std::find_if\<close> and \<open>std::remove_if\<close>, and two interfaces the components share: the laws of
  an ordered map (\<open>ordered_map\<close>) and the invariant rule of a transition system
  (\<open>inductive_invariant\<close>).
\<close>

named_theorems inv_intros
named_theorems fm_simps

section \<open>Machine integers and strings\<close>

type_synonym u8 = "8 word"
type_synonym u16 = "16 word"
type_synonym u32 = "32 word"
type_synonym u64 = "64 word"

text \<open>A \<open>%s\<close> between single quotes in a \<open>StringPrintf\<close> format.\<close>

definition quoted :: "string \<Rightarrow> string" where
  "quoted s = [CHR 0x27] @ s @ [CHR 0x27]"

section \<open>base::flat_map\<close>

text \<open>
  A \<open>flat_map\<close> keeps its entries in a vector sorted by key without duplicates; iteration is in
  key order.  \<open>fm_erase\<close> removes the entry of a key (the iterator form of \<open>erase\<close> is only called
  with the result of \<open>find\<close>); erasing \<open>end()\<close> is undefined in C++ and each caller of the model
  writes that case out.
\<close>

type_synonym ('k, 'v) flat_map = "('k \<times> 'v) list"

primrec fm_find :: "('k, 'v) flat_map \<Rightarrow> 'k \<Rightarrow> 'v option" where
  "fm_find [] k = None"
| "fm_find (p # m) k = (if fst p = k then Some (snd p) else fm_find m k)"

fun fm_insert_or_assign :: "'k::linorder \<Rightarrow> 'v \<Rightarrow> ('k, 'v) flat_map \<Rightarrow> ('k, 'v) flat_map" where
  "fm_insert_or_assign k v [] = [(k, v)]"
| "fm_insert_or_assign k v ((k', v') # m) =
     (if k < k' then (k, v) # (k', v') # m
      else if k = k' then (k, v) # m
      else (k', v') # fm_insert_or_assign k v m)"

primrec fm_erase :: "'k \<Rightarrow> ('k, 'v) flat_map \<Rightarrow> ('k, 'v) flat_map" where
  "fm_erase k [] = []"
| "fm_erase k (p # m) = (if fst p = k then m else p # fm_erase k m)"

definition fm_ok :: "('k::linorder, 'v) flat_map \<Rightarrow> bool" where
  "fm_ok m \<longleftrightarrow> sorted_wrt (<) (map fst m)"

lemma option_eqI: "(\<And>x. a = Some x \<longleftrightarrow> b = Some x) \<Longrightarrow> a = b"
  by (cases a; cases b) auto

lemma fm_ok_Nil [simp]: "fm_ok []"
  by (simp add: fm_ok_def)

lemma fm_ok_Cons [simp]:
  "fm_ok (p # m) \<longleftrightarrow> (\<forall>q \<in> set m. fst p < fst q) \<and> fm_ok m"
  by (simp add: fm_ok_def)

lemma fm_find_None_iff: "fm_find m k = None \<longleftrightarrow> k \<notin> fst ` set m"
  by (induction m) auto

lemma fm_find_mem: "fm_find m k = Some v \<Longrightarrow> (k, v) \<in> set m"
  by (induction m) (auto split: if_splits)

lemma fm_find_iff: "fm_ok m \<Longrightarrow> fm_find m k = Some v \<longleftrightarrow> (k, v) \<in> set m"
  by (induction m) force+

lemma fm_insert_set:
  "fm_ok m \<Longrightarrow> set (fm_insert_or_assign k v m) = insert (k, v) {p \<in> set m. fst p \<noteq> k}"
  by (induction k v m rule: fm_insert_or_assign.induct) (force split: if_splits)+

lemma fm_insert_subset: "set (fm_insert_or_assign k v m) \<subseteq> insert (k, v) (set m)"
  by (induction k v m rule: fm_insert_or_assign.induct) auto

lemma fm_insert_ok [inv_intros]: "fm_ok m \<Longrightarrow> fm_ok (fm_insert_or_assign k v m)"
proof (induction k v m rule: fm_insert_or_assign.induct)
  case (2 k v k' v' m)
  then show ?case by (auto simp: fm_insert_set split: if_splits)
qed simp

lemma fm_insert_find:
  "fm_ok m \<Longrightarrow> fm_find (fm_insert_or_assign k v m) = (fm_find m)(k \<mapsto> v)"
proof
  fix j
  assume ok: "fm_ok m"
  then have "fm_find (fm_insert_or_assign k v m) j = Some x \<longleftrightarrow> ((fm_find m)(k \<mapsto> v)) j = Some x" for x
    by (auto simp: fm_find_iff fm_insert_ok fm_insert_set)
  then show "fm_find (fm_insert_or_assign k v m) j = ((fm_find m)(k \<mapsto> v)) j"
    by (rule option_eqI)
qed

lemma fm_erase_set: "fm_ok m \<Longrightarrow> set (fm_erase k m) = {p \<in> set m. fst p \<noteq> k}"
  by (induction m) auto

lemma fm_erase_ok [inv_intros]: "fm_ok m \<Longrightarrow> fm_ok (fm_erase k m)"
  by (induction m) (auto simp: fm_erase_set)

lemma fm_erase_find: "fm_ok m \<Longrightarrow> fm_find (fm_erase k m) = (fm_find m)(k := None)"
proof
  fix j
  assume ok: "fm_ok m"
  then have "fm_find (fm_erase k m) j = Some x \<longleftrightarrow> ((fm_find m)(k := None)) j = Some x" for x
    by (auto simp: fm_find_iff fm_erase_ok fm_erase_set)
  then show "fm_find (fm_erase k m) j = ((fm_find m)(k := None)) j"
    by (rule option_eqI)
qed

section \<open>The interface of an ordered map\<close>

text \<open>
  What the clients of \<open>flat_map\<close> rely on.  The laws are those of a finite map with entries
  listed once and in key order.
\<close>

locale ordered_map =
  fixes empty :: "'m"
    and find :: "'m \<Rightarrow> 'k::linorder \<Rightarrow> 'v option"
    and assign :: "'k \<Rightarrow> 'v \<Rightarrow> 'm \<Rightarrow> 'm"
    and erase :: "'k \<Rightarrow> 'm \<Rightarrow> 'm"
    and entries :: "'m \<Rightarrow> ('k \<times> 'v) list"
    and ok :: "'m \<Rightarrow> bool"
  assumes ok_empty: "ok empty"
    and ok_assign: "ok m \<Longrightarrow> ok (assign k v m)"
    and ok_erase: "ok m \<Longrightarrow> ok (erase k m)"
    and find_empty: "find empty k = None"
    and find_assign: "ok m \<Longrightarrow> find (assign k v m) = (find m)(k \<mapsto> v)"
    and find_erase: "ok m \<Longrightarrow> find (erase k m) = (find m)(k := None)"
    and entries_find: "ok m \<Longrightarrow> (k, v) \<in> set (entries m) \<longleftrightarrow> find m k = Some v"
    and entries_sorted: "ok m \<Longrightarrow> sorted_wrt (<) (map fst (entries m))"
begin

lemma entries_distinct: "ok m \<Longrightarrow> distinct (map fst (entries m))"
  using entries_sorted strict_sorted_iff by blast

lemma entries_assign:
  "ok m \<Longrightarrow> set (entries (assign k v m)) = insert (k, v) {p \<in> set (entries m). fst p \<noteq> k}"
  by (auto simp: entries_find ok_assign find_assign split: if_splits)

lemma entries_erase: "ok m \<Longrightarrow> set (entries (erase k m)) = {p \<in> set (entries m). fst p \<noteq> k}"
  by (auto simp: entries_find ok_erase find_erase split: if_splits)

lemma erase_assign_fresh:
  "ok m \<Longrightarrow> find m k = None \<Longrightarrow> find (erase k (assign k v m)) = find m"
  by (auto simp: ok_assign find_assign find_erase)

end

interpretation fm: ordered_map "[]" fm_find fm_insert_or_assign fm_erase "\<lambda>m. m" fm_ok
  by unfold_locales
    (simp_all add: fm_insert_ok fm_erase_ok fm_insert_find fm_erase_find fm_find_iff,
     simp add: fm_ok_def)

lemmas fm_laws [fm_simps] =
  fm.ok_assign fm.ok_erase fm.find_assign fm.find_erase fm.entries_assign fm.entries_erase

text \<open>Erasing what was inserted under a fresh key gives the same vector back.\<close>

lemma fm_erase_insert_fresh:
  "fm_find m k = None \<Longrightarrow> fm_erase k (fm_insert_or_assign k v m) = m"
  by (induction k v m rule: fm_insert_or_assign.induct) (auto split: if_splits)

text \<open>Where in the vector an assignment, an insertion and an erase happen.\<close>

lemma fm_assign_split:
  "fm_ok m \<Longrightarrow> fm_find m k = Some v \<Longrightarrow>
     \<exists>us vs. m = us @ (k, v) # vs \<and> k \<notin> fst ` set (us @ vs) \<and> fm_erase k m = us @ vs \<and>
       (\<forall>w. fm_insert_or_assign k w m = us @ (k, w) # vs)"
proof (induction m)
  case (Cons p m)
  obtain k' v' where p: "p = (k', v')" by (cases p)
  show ?case
  proof (cases "k' = k")
    case True
    with Cons.prems p show ?thesis by (intro exI [of _ "[]"] exI [of _ m]) auto
  next
    case False
    with Cons.prems p have "fm_find m k = Some v" "fm_ok m" by auto
    with Cons.IH obtain us vs where ih: "m = us @ (k, v) # vs" "k \<notin> fst ` set (us @ vs)"
      "fm_erase k m = us @ vs" "\<forall>w. fm_insert_or_assign k w m = us @ (k, w) # vs"
      by blast
    have "k' < k" using Cons.prems(1) p ih(1) by auto
    with False p ih show ?thesis by (intro exI [of _ "p # us"] exI [of _ vs]) auto
  qed
qed simp

lemma fm_insert_split:
  "fm_find m k = None \<Longrightarrow>
     \<exists>us vs. m = us @ vs \<and> fm_insert_or_assign k v m = us @ (k, v) # vs"
proof (induction m)
  case (Cons p m)
  obtain k' v' where p: "p = (k', v')" by (cases p)
  show ?case
  proof (cases "k < k'")
    case True
    with p show ?thesis by (intro exI [of _ "[]"] exI [of _ "p # m"]) auto
  next
    case False
    with Cons.prems p have "fm_find m k = None" "k \<noteq> k'" by (auto split: if_splits)
    with Cons.IH obtain us vs where "m = us @ vs" "fm_insert_or_assign k v m = us @ (k, v) # vs"
      by blast
    with False \<open>k \<noteq> k'\<close> p show ?thesis by (intro exI [of _ "p # us"] exI [of _ vs]) auto
  qed
qed auto

section \<open>std::find_if and std::remove_if over vectors\<close>

text \<open>\<open>map_first p f xs\<close> updates in place the element \<open>std::find_if\<close> would return.\<close>

primrec map_first :: "('a \<Rightarrow> bool) \<Rightarrow> ('a \<Rightarrow> 'a) \<Rightarrow> 'a list \<Rightarrow> 'a list" where
  "map_first p f [] = []"
| "map_first p f (x # xs) = (if p x then f x # xs else x # map_first p f xs)"

lemma length_map_first [simp]: "length (map_first p f xs) = length xs"
  by (induction xs) auto

lemma map_first_map:
  "(\<And>x. x \<in> set xs \<Longrightarrow> p x \<Longrightarrow> g (f x) = g x) \<Longrightarrow> map g (map_first p f xs) = map g xs"
  by (induction xs) auto

lemma set_map_first_subset: "set (map_first p f xs) \<subseteq> set xs \<union> f ` {x \<in> set xs. p x}"
  by (induction xs) auto

lemma map_first_none: "(\<And>x. x \<in> set xs \<Longrightarrow> \<not> p x) \<Longrightarrow> map_first p f xs = xs"
  by (induction xs) auto

lemma find_Some_mem: "List.find p xs = Some x \<Longrightarrow> x \<in> set xs \<and> p x"
  by (metis find_Some_iff nth_mem)

lemma map_first_find:
  "List.find p xs = Some x \<Longrightarrow>
     \<exists>us vs. xs = us @ x # vs \<and> (\<forall>u \<in> set us. \<not> p u) \<and> map_first p f xs = us @ f x # vs"
proof (induction xs)
  case (Cons y ys)
  show ?case
  proof (cases "p y")
    case True
    with Cons.prems show ?thesis by (intro exI [of _ "[]"] exI [of _ ys]) auto
  next
    case False
    with Cons obtain us vs where "ys = us @ x # vs" "\<forall>u \<in> set us. \<not> p u"
      "map_first p f ys = us @ f x # vs" by auto
    with False show ?thesis by (intro exI [of _ "y # us"] exI [of _ vs]) auto
  qed
qed simp

section \<open>Transition systems\<close>

inductive reachable :: "('s \<Rightarrow> bool) \<Rightarrow> ('s \<Rightarrow> 's \<Rightarrow> bool) \<Rightarrow> 's \<Rightarrow> bool"
  for init :: "'s \<Rightarrow> bool" and step :: "'s \<Rightarrow> 's \<Rightarrow> bool" where
  start: "init s \<Longrightarrow> reachable init step s"
| move: "reachable init step s \<Longrightarrow> step s t \<Longrightarrow> reachable init step t"

locale inductive_invariant =
  fixes init :: "'s \<Rightarrow> bool"
    and step :: "'s \<Rightarrow> 's \<Rightarrow> bool"
    and inv :: "'s \<Rightarrow> bool"
  assumes inv_init: "init s \<Longrightarrow> inv s"
    and inv_step: "inv s \<Longrightarrow> step s t \<Longrightarrow> inv t"
begin

lemma inv_reachable: "reachable init step s \<Longrightarrow> inv s"
  by (induction rule: reachable.induct) (blast intro: inv_init inv_step)+

lemma inv_steps: "step\<^sup>*\<^sup>* s t \<Longrightarrow> inv s \<Longrightarrow> inv t"
  by (induction rule: rtranclp_induct) (blast intro: inv_step)+

end

end
