(* ===== verification/Felicia_Status.thy ===== *)
theory Felicia_Status
  imports Felicia_Prelude
begin

text \<open>
  \<open>felicia::Status\<close> (\<open>core/lib/error/status.h\<close>, \<open>status.cc\<close>) and the constructors of error
  statuses of \<open>core/lib/error/errors.h\<close> and \<open>core/message/message_io_error.cc\<close>.  A status is an error code with a
  message; \<open>OK\<close> is code 0.
\<close>

section \<open>Error codes\<close>

datatype error_code =
    OK | CANCELLED | UNKNOWN | INVALID_ARGUMENT | DEADLINE_EXCEEDED | NOT_FOUND
  | ALREADY_EXISTS | PERMISSION_DENIED | RESOURCE_EXHAUSTED | FAILED_PRECONDITION | ABORTED
  | OUT_OF_RANGE | UNIMPLEMENTED | INTERNAL | UNAVAILABLE | DATA_LOSS | UNAUTHENTICATED
  | NETWORK_ERROR

section \<open>Status\<close>

record status =
  error_code :: error_code
  error_message :: string

definition Status_OK :: status where
  "Status_OK = \<lparr>error_code = OK, error_message = []\<rparr>"

definition Status_ok :: "status \<Rightarrow> bool" where
  "Status_ok s \<longleftrightarrow> error_code s = OK"

definition Status_eq :: "status \<Rightarrow> status \<Rightarrow> bool" where
  "Status_eq s t \<longleftrightarrow> error_code s = error_code t \<and> error_message s = error_message t"

text \<open>
  \<open>internal::LogOrCallback\<close>: a null callback logs a failed status, any other callback is run.
\<close>

datatype log_or_callback = Logged status | Ran nat status | Silent

definition LogOrCallback :: "nat option \<Rightarrow> status \<Rightarrow> log_or_callback" where
  "LogOrCallback callback s =
     (case callback of
        None \<Rightarrow> (if \<not> Status_ok s then Logged s else Silent)
      | Some cb \<Rightarrow> Ran cb s)"

section \<open>Error constructors\<close>

text \<open>\<open>DECLARE_ERROR(FUNC, CONST)\<close> gives \<open>errors::FUNC(message)\<close> and \<open>errors::IsFUNC(status)\<close>.\<close>

definition make_error :: "error_code \<Rightarrow> string \<Rightarrow> status" where
  "make_error c msg = \<lparr>error_code = c, error_message = msg\<rparr>"

definition is_error :: "error_code \<Rightarrow> status \<Rightarrow> bool" where
  "is_error c s \<longleftrightarrow> error_code s = c"

abbreviation "InvalidArgument \<equiv> make_error INVALID_ARGUMENT"
abbreviation "NotFound \<equiv> make_error NOT_FOUND"
abbreviation "AlreadyExists \<equiv> make_error ALREADY_EXISTS"
abbreviation "OutOfRange \<equiv> make_error OUT_OF_RANGE"
abbreviation "Unavailable \<equiv> make_error UNAVAILABLE"
abbreviation "Aborted \<equiv> make_error ABORTED"
abbreviation "Unknown \<equiv> make_error UNKNOWN"
abbreviation "NetworkError \<equiv> make_error NETWORK_ERROR"

lemma Status_ok_OK [simp]: "Status_ok Status_OK"
  by (simp add: Status_ok_def Status_OK_def)

lemma Status_ok_make_error [simp]: "Status_ok (make_error c m) \<longleftrightarrow> c = OK"
  by (simp add: Status_ok_def make_error_def)

lemma is_error_make_error [simp]: "is_error c (make_error c' m) \<longleftrightarrow> c' = c"
  by (auto simp: is_error_def make_error_def)

lemma error_code_make_error [simp]: "error_code (make_error c m) = c"
  by (simp add: make_error_def)

lemma make_error_inject [simp]: "make_error c m = make_error c' m' \<longleftrightarrow> c = c' \<and> m = m'"
  by (simp add: make_error_def)

lemma make_error_neq_OK [simp]: "c \<noteq> OK \<Longrightarrow> make_error c m \<noteq> Status_OK"
  by (simp add: make_error_def Status_OK_def)

lemma Status_eq_iff: "Status_eq s t \<longleftrightarrow> s = t"
  by (cases s; cases t) (simp add: Status_eq_def)

section \<open>Message I/O errors\<close>

datatype message_io_error =
    IO_OK | ERR_FAILED_TO_SERIALIZE | ERR_NOT_ENOUGH_BUFFER | ERR_CORRUPTED_HEADER
  | ERR_FAILED_TO_PARSE | ERR_WS_PROTOCOL_ERROR

fun MessageIOErrorToString :: "message_io_error \<Rightarrow> string" where
  "MessageIOErrorToString IO_OK = ''OK''"
| "MessageIOErrorToString ERR_FAILED_TO_SERIALIZE = ''Failed to serialize''"
| "MessageIOErrorToString ERR_NOT_ENOUGH_BUFFER = ''Not enough buffer''"
| "MessageIOErrorToString ERR_CORRUPTED_HEADER = ''Corrupted header''"
| "MessageIOErrorToString ERR_FAILED_TO_PARSE = ''Failed to parse''"
| "MessageIOErrorToString ERR_WS_PROTOCOL_ERROR = ''Websocket protocol error''"

lemma MessageIOErrorToString_inj: "inj MessageIOErrorToString"
  by (rule injI) (case_tac x; case_tac y; simp)

end
