(* ===== verification/Felicia_Messages.thy ===== *)
theory Felicia_Messages
  imports Felicia_Status
begin

text \<open>
  The protobuf messages of \<open>core/protobuf/channel.proto\<close> and \<open>master_data.proto\<close> that the master
  and the channels exchange, as records.  A singular sub-message is an \<open>option\<close>: \<open>has_x()\<close> is
  \<open>x \<noteq> None\<close>, and the C++ accessor \<open>x()\<close> gives the default instance when the field is unset
  (\<open>get_default\<close>).  Enums of proto3 are open, so \<open>channel_type\<close> keeps unknown values.
\<close>

section \<open>channel.proto\<close>

datatype channel_type =
    CHANNEL_TYPE_NONE | CHANNEL_TYPE_SHM | CHANNEL_TYPE_UDS | CHANNEL_TYPE_UDP
  | CHANNEL_TYPE_TCP | CHANNEL_TYPE_WS | CHANNEL_TYPE_UNRECOGNIZED int

record ip_endpoint =
  ip :: string
  port :: u32

record uds_endpoint =
  socket_path :: string
  use_abstract_namespace :: bool

record fd_pair =
  fd :: int
  readonly_fd :: int

datatype shm_mode = SHM_MODE_READ_ONLY | SHM_MODE_WRITABLE | SHM_MODE_UNSAFE

record unguessable_token =
  high :: u64
  low :: u64

record broker_endpoint =
  broker_uds_endpoint :: "uds_endpoint option"
  service_name :: string

record shm_endpoint =
  shm_fd_pair :: "fd_pair option"
  mode :: shm_mode
  shm_size :: u64
  guid :: "unguessable_token option"
  shm_broker_endpoint :: "broker_endpoint option"

record channel_def =
  cd_type :: channel_type
  cd_ip_endpoint :: "ip_endpoint option"
  cd_uds_endpoint :: "uds_endpoint option"
  cd_shm_endpoint :: "shm_endpoint option"

record channel_source =
  channel_defs :: "channel_def list"

definition get_default :: "'a \<Rightarrow> 'a option \<Rightarrow> 'a" where
  "get_default d x = (case x of None \<Rightarrow> d | Some v \<Rightarrow> v)"

lemma get_default_simps [simp]: "get_default d None = d" "get_default d (Some v) = v"
  by (simp_all add: get_default_def)

definition default_ip_endpoint :: ip_endpoint where
  "default_ip_endpoint = \<lparr>ip = [], port = 0\<rparr>"

definition default_uds_endpoint :: uds_endpoint where
  "default_uds_endpoint = \<lparr>socket_path = [], use_abstract_namespace = False\<rparr>"

definition default_fd_pair :: fd_pair where
  "default_fd_pair = \<lparr>fd = 0, readonly_fd = 0\<rparr>"

definition default_token :: unguessable_token where
  "default_token = \<lparr>high = 0, low = 0\<rparr>"

definition default_shm_endpoint :: shm_endpoint where
  "default_shm_endpoint = \<lparr>shm_fd_pair = None, mode = SHM_MODE_READ_ONLY, shm_size = 0,
     guid = None, shm_broker_endpoint = None\<rparr>"

definition default_channel_def :: channel_def where
  "default_channel_def = \<lparr>cd_type = CHANNEL_TYPE_NONE, cd_ip_endpoint = None,
     cd_uds_endpoint = None, cd_shm_endpoint = None\<rparr>"

abbreviation "ip_of c \<equiv> get_default default_ip_endpoint (cd_ip_endpoint c)"
abbreviation "uds_of c \<equiv> get_default default_uds_endpoint (cd_uds_endpoint c)"
abbreviation "shm_of c \<equiv> get_default default_shm_endpoint (cd_shm_endpoint c)"
abbreviation "guid_of s \<equiv> get_default default_token (guid s)"
abbreviation "fds_of s \<equiv> get_default default_fd_pair (shm_fd_pair s)"

section \<open>master_data.proto\<close>

record node_info =
  ni_name :: string
  ni_client_id :: u32
  ni_watcher :: bool

record client_info =
  ci_id :: u32
  heart_beat_signaller_source :: channel_source
  master_notification_watcher_source :: channel_source
  heart_beat_duration :: u32

datatype reg_status = REGISTERED | UNREGISTERED

datatype impl_type = PROTOBUF | ROS

record topic_info =
  ti_topic :: string
  ti_type_name :: string
  ti_impl_type :: impl_type
  topic_source :: channel_source
  ti_status :: reg_status
  ti_ros_node_name :: string

record service_info =
  si_service :: string
  si_type_name :: string
  service_source :: channel_source
  si_status :: reg_status
  si_ros_node_name :: string

datatype master_notification = TopicNotification topic_info | ServiceNotification service_info

record client_filter =
  cf_all :: bool
  cf_id :: u32

record node_filter =
  nf_all :: bool
  nf_publishing_topic :: string
  nf_subscribing_topic :: string
  nf_requesting_service :: string
  nf_serving_service :: string
  nf_name :: string
  nf_watcher :: bool

record topic_filter =
  tf_all :: bool
  tf_topic :: string

record service_filter =
  sf_all :: bool
  sf_service :: string

definition empty_node_filter :: node_filter where
  "empty_node_filter = \<lparr>nf_all = False, nf_publishing_topic = [], nf_subscribing_topic = [],
     nf_requesting_service = [], nf_serving_service = [], nf_name = [], nf_watcher = False\<rparr>"

definition all_topics :: topic_filter where
  "all_topics = \<lparr>tf_all = True, tf_topic = []\<rparr>"

definition all_services :: service_filter where
  "all_services = \<lparr>sf_all = True, sf_service = []\<rparr>"

abbreviation "unregistered_topic t \<equiv> t\<lparr>ti_status := UNREGISTERED\<rparr>"
abbreviation "unregistered_service t \<equiv> t\<lparr>si_status := UNREGISTERED\<rparr>"

end
