(* ===== verification/Felicia_ChannelDef.thy ===== *)
theory Felicia_ChannelDef
  imports Felicia_Messages
begin

text \<open>
  The free functions of \<open>core/channel/channel.cc\<close> on channel definitions and sources
  (validity, equality, \<open>ToNetAddressList\<close>, \<open>AllChannelTypes\<close>), \<open>core/channel/socket/uds_endpoint.cc\<close>, and the
  ROS name prefixes of \<open>core/message/ros_protocol.h\<close> over \<open>core/lib/strings/str_util.cc\<close>.  The build modelled is
  Linux (\<open>OS_POSIX\<close>, \<open>OS_LINUX\<close>).  The address parser and the host resolver
  (\<open>net::IPAddress\<close>, \<open>HostResolver\<close>, \<open>net::ErrorToString\<close>) are parameters, the record \<open>net_env\<close>.
\<close>

unbundle bit_operations_syntax

section \<open>String prefixes\<close>

definition StartsWith :: "string \<Rightarrow> string \<Rightarrow> bool" where
  "StartsWith s expected \<longleftrightarrow> take (length expected) s = expected"

definition EndsWith :: "string \<Rightarrow> string \<Rightarrow> bool" where
  "EndsWith s expected \<longleftrightarrow>
     length expected \<le> length s \<and> drop (length s - length expected) s = expected"

text \<open>\<open>ConsumePrefix\<close> and \<open>ConsumeSuffix\<close> return the piece they leave in their argument.\<close>

definition ConsumePrefix :: "string \<Rightarrow> string \<Rightarrow> bool \<times> string" where
  "ConsumePrefix s expected =
     (if StartsWith s expected then (True, drop (length expected) s) else (False, s))"

definition ConsumeSuffix :: "string \<Rightarrow> string \<Rightarrow> bool \<times> string" where
  "ConsumeSuffix s expected =
     (if EndsWith s expected then (True, take (length s - length expected) s) else (False, s))"

definition BoolToString :: "bool \<Rightarrow> string" where
  "BoolToString b = (if b then ''true'' else ''false'')"

definition kRosProtocol :: string where "kRosProtocol = ''ros://''"

text \<open>\<open>Some out\<close> when the call returns true, \<open>None\<close> when it returns false and leaves \<open>out\<close>.\<close>

definition ConsumeRosProtocol :: "string \<Rightarrow> string option" where
  "ConsumeRosProtocol text =
     (let (ret, t) = ConsumePrefix text kRosProtocol in if ret then Some t else None)"

definition AttachRosProtocol :: "string \<Rightarrow> string" where
  "AttachRosProtocol text = kRosProtocol @ text"

definition IsUsingRosProtocol :: "string \<Rightarrow> bool" where
  "IsUsingRosProtocol text \<longleftrightarrow> StartsWith text kRosProtocol"

section \<open>Addresses\<close>

type_synonym ip_address = "u8 list"
type_synonym net_endpoint = "ip_address \<times> u16"

record net_env =
  AssignFromIPLiteral :: "string \<Rightarrow> ip_address option"
  ResolveHost :: "string \<Rightarrow> int \<times> net_endpoint list"
  ErrorToString :: "int \<Rightarrow> string"

definition net_OK :: int where "net_OK = 0"

definition ToNetAddressList ::
    "net_env \<Rightarrow> channel_def \<Rightarrow> net_endpoint list \<Rightarrow> status \<times> net_endpoint list" where
  "ToNetAddressList env channel_def addrlist =
     (if cd_ip_endpoint channel_def = None
      then (InvalidArgument ''channel_def doesn't contain an IPEndPoint.'', addrlist)
      else let host_or_ip = ip (ip_of channel_def);
               p = ucast (port (ip_of channel_def)) :: u16 in
        case AssignFromIPLiteral env host_or_ip of
          Some a \<Rightarrow> (Status_OK, [(a, p)])
        | None \<Rightarrow>
            (let (rv, resolved) = ResolveHost env host_or_ip;
                 addrlist' = addrlist @ map (\<lambda>e. (fst e, p)) resolved in
             if rv \<noteq> net_OK then (NetworkError (ErrorToString env rv), addrlist')
             else (Status_OK, addrlist')))"

text \<open>
  \<open>UDSEndPoint::ToSockAddrStorage\<close>.  A fresh \<open>SockaddrStorage\<close> has the length of a
  \<open>sockaddr_storage\<close>, 128 bytes, of which \<open>sun_path\<close> starts at 2.  The result is the contents of
  the zeroed \<open>sun_path\<close> up to the address length the call sets.  In the Linux build the abstract
  branch returns before its \<open>memcpy\<close>.
\<close>

definition sockaddr_storage_size :: nat where "sockaddr_storage_size = 128"

definition offsetof_sun_path :: nat where "offsetof_sun_path = 2"

definition ToSockAddrStorage :: "uds_endpoint \<Rightarrow> char list option" where
  "ToSockAddrStorage e =
     (if socket_path e = [] then None
      else let path_max = sockaddr_storage_size - offsetof_sun_path;
               path_size = length (socket_path e) + 1 in
        if path_size > path_max then None
        else if \<not> use_abstract_namespace e then Some (socket_path e @ [CHR 0x00])
        else Some (replicate path_size (CHR 0x00)))"

definition ToNetUDSEndPoint_endpoint :: "uds_endpoint \<Rightarrow> status" where
  "ToNetUDSEndPoint_endpoint e =
     (case ToSockAddrStorage e of
        None \<Rightarrow> InvalidArgument ''Failed to convert to SockAddrStorage.''
      | Some _ \<Rightarrow> Status_OK)"

definition ToNetUDSEndPoint :: "channel_def \<Rightarrow> status" where
  "ToNetUDSEndPoint channel_def =
     (if cd_uds_endpoint channel_def = None
      then InvalidArgument ''channel_def doesn't contain a UDSEndPoint.''
      else ToNetUDSEndPoint_endpoint (uds_of channel_def))"

section \<open>Validity\<close>

definition IsValidChannelDef :: "net_env \<Rightarrow> channel_def \<Rightarrow> bool" where
  "IsValidChannelDef env channel_def =
     (let type = cd_type channel_def in
      if type = CHANNEL_TYPE_TCP \<or> type = CHANNEL_TYPE_UDP \<or> type = CHANNEL_TYPE_WS
      then Status_ok (fst (ToNetAddressList env channel_def []))
      else if type = CHANNEL_TYPE_UDS then Status_ok (ToNetUDSEndPoint channel_def)
      else if type = CHANNEL_TYPE_SHM then True
      else False)"

primrec all_valid_loop :: "net_env \<Rightarrow> channel_def list \<Rightarrow> bool" where
  "all_valid_loop env [] = True"
| "all_valid_loop env (d # ds) =
     (if \<not> IsValidChannelDef env d then False else all_valid_loop env ds)"

definition IsValidChannelSource :: "net_env \<Rightarrow> channel_source \<Rightarrow> bool" where
  "IsValidChannelSource env src =
     (if length (channel_defs src) = 0 then False else all_valid_loop env (channel_defs src))"

section \<open>Equality\<close>

definition IsSameChannelDef :: "channel_def \<Rightarrow> channel_def \<Rightarrow> bool" where
  "IsSameChannelDef c c2 =
     (if cd_type c \<noteq> cd_type c2 then False
      else let type = cd_type c in
        if type = CHANNEL_TYPE_TCP \<or> type = CHANNEL_TYPE_UDP \<or> type = CHANNEL_TYPE_WS
        then ip (ip_of c) = ip (ip_of c2) \<and> port (ip_of c) = port (ip_of c2)
        else if type = CHANNEL_TYPE_UDS
        then socket_path (uds_of c) = socket_path (uds_of c2) \<and>
             use_abstract_namespace (uds_of c) = use_abstract_namespace (uds_of c2)
        else if type = CHANNEL_TYPE_SHM
        then (let s = shm_of c; s2 = shm_of c2 in
              if mode s = mode s2 \<and> shm_size s \<noteq> 0 \<and> shm_size s2 \<noteq> 0 \<and>
                 high (guid_of s) = high (guid_of s2) \<and> low (guid_of s) = low (guid_of s2)
              then fd (fds_of s) = fd (fds_of s2) \<and>
                   readonly_fd (fds_of s) = readonly_fd (fds_of s2)
              else False)
        else False)"

fun same_defs_loop :: "channel_def list \<Rightarrow> channel_def list \<Rightarrow> bool" where
  "same_defs_loop (d # ds) (e # es) =
     (if \<not> IsSameChannelDef d e then False else same_defs_loop ds es)"
| "same_defs_loop _ _ = True"

definition IsSameChannelSource :: "channel_source \<Rightarrow> channel_source \<Rightarrow> bool" where
  "IsSameChannelSource c c2 =
     (if length (channel_defs c) \<noteq> length (channel_defs c2) then False
      else same_defs_loop (channel_defs c) (channel_defs c2))"

text \<open>
  \<open>AllChannelTypes\<close>: the loop doubles \<open>i\<close> while it is below \<open>ChannelDef_Type_Type_ARRAYSIZE\<close>, the
  largest enum value (16) plus one.
\<close>

definition Type_ARRAYSIZE :: nat where "Type_ARRAYSIZE = 17"

function all_types_loop :: "nat \<Rightarrow> nat \<Rightarrow> nat" where
  "all_types_loop i acc =
     (if 0 < i \<and> i < Type_ARRAYSIZE then all_types_loop (push_bit 1 i) (acc OR i) else acc)"
  by pat_completeness auto
termination
  by (relation "measure (\<lambda>(i, acc). Type_ARRAYSIZE - i)") auto

declare all_types_loop.simps [simp del]

definition AllChannelTypes :: nat where
  "AllChannelTypes = all_types_loop 1 0"

fun channel_type_value :: "channel_type \<Rightarrow> int" where
  "channel_type_value CHANNEL_TYPE_NONE = 0"
| "channel_type_value CHANNEL_TYPE_SHM = 1"
| "channel_type_value CHANNEL_TYPE_UDS = 2"
| "channel_type_value CHANNEL_TYPE_UDP = 4"
| "channel_type_value CHANNEL_TYPE_TCP = 8"
| "channel_type_value CHANNEL_TYPE_WS = 16"
| "channel_type_value (CHANNEL_TYPE_UNRECOGNIZED n) = n"

section \<open>Lemmas\<close>

lemma StartsWith_iff: "StartsWith s p \<longleftrightarrow> (\<exists>t. s = p @ t)"
  by (auto simp: StartsWith_def) (metis append_take_drop_id)

lemma ConsumeRosProtocol_iff: "ConsumeRosProtocol s = Some t \<longleftrightarrow> s = kRosProtocol @ t"
  by (auto simp: ConsumeRosProtocol_def ConsumePrefix_def StartsWith_iff split: if_splits)

lemma ConsumeRosProtocol_None: "ConsumeRosProtocol s = None \<longleftrightarrow> \<not> IsUsingRosProtocol s"
  by (auto simp: ConsumeRosProtocol_def ConsumePrefix_def IsUsingRosProtocol_def split: if_splits)

lemma EndsWith_iff: "EndsWith s p \<longleftrightarrow> (\<exists>t. s = t @ p)"
  by (auto simp: EndsWith_def) (metis append_take_drop_id)

lemma all_valid_loop_iff: "all_valid_loop env ds \<longleftrightarrow> (\<forall>d \<in> set ds. IsValidChannelDef env d)"
  by (induction ds) auto

lemma IsValidChannelSource_iff:
  "IsValidChannelSource env src \<longleftrightarrow>
     channel_defs src \<noteq> [] \<and> (\<forall>d \<in> set (channel_defs src). IsValidChannelDef env d)"
  by (simp add: IsValidChannelSource_def all_valid_loop_iff)

lemma same_defs_loop_iff:
  "length ds = length es \<Longrightarrow> same_defs_loop ds es \<longleftrightarrow> list_all2 IsSameChannelDef ds es"
  by (induction ds es rule: list_induct2) auto

lemma IsSameChannelDef_sym: "IsSameChannelDef c d \<Longrightarrow> IsSameChannelDef d c"
  by (auto simp: IsSameChannelDef_def Let_def split: if_splits)

lemma IsSameChannelDef_trans:
  "IsSameChannelDef c d \<Longrightarrow> IsSameChannelDef d e \<Longrightarrow> IsSameChannelDef c e"
  by (auto simp: IsSameChannelDef_def Let_def split: if_splits)

lemma IsSameChannelSource_iff:
  "IsSameChannelSource c d \<longleftrightarrow> list_all2 IsSameChannelDef (channel_defs c) (channel_defs d)"
  by (auto simp: IsSameChannelSource_def same_defs_loop_iff dest: list_all2_lengthD)

lemma AllChannelTypes_eq: "AllChannelTypes = 31"
  by (simp add: AllChannelTypes_def all_types_loop.simps Type_ARRAYSIZE_def)

end
