(* ===== verification/Felicia_Generator.thy ===== *)
theory Felicia_Generator
  imports Felicia_Status
begin

text \<open>
  \<open>Generator<T, Traits>\<close> of \<open>core/util/uuid/generator.h\<close>: a pool of values in use and a bounded
  retry loop that draws random values until one is free.  The random source
  (\<open>Traits::Generate\<close>, built on \<open>base::RandGenerator\<close>) is the argument \<open>draw\<close>: \<open>draw n\<close> is the
  value of the \<open>n\<close>-th call, counted from 1.
\<close>

section \<open>The generator\<close>

record 'a generator =
  pool :: "('a, bool) flat_map"

definition kMaximumTrial :: nat where
  "kMaximumTrial = 1000"

definition Generator_In :: "'a generator \<Rightarrow> 'a \<Rightarrow> bool" where
  "Generator_In g v \<longleftrightarrow> fm_find (pool g) v \<noteq> None"

definition Generator_Add :: "'a::linorder \<Rightarrow> 'a generator \<Rightarrow> 'a generator" where
  "Generator_Add v g = g\<lparr>pool := fm_insert_or_assign v True (pool g)\<rparr>"

text \<open>
  \<open>Remove\<close> erases the iterator \<open>find\<close> returns; for a value that is not in the pool that iterator
  is \<open>end()\<close> and erasing it is undefined, which is the result \<open>None\<close>.
\<close>

definition Generator_Remove :: "'a \<Rightarrow> 'a generator \<Rightarrow> 'a generator option" where
  "Generator_Remove v g =
     (if Generator_In g v then Some (g\<lparr>pool := fm_erase v (pool g)\<rparr>) else None)"

definition Generator_Return :: "'a \<Rightarrow> 'a generator \<Rightarrow> 'a generator option" where
  "Generator_Return = Generator_Remove"

text \<open>
  The \<open>do ... while\<close> loop: \<open>trial\<close> counts the draws made before this iteration.  The result is
  the last value drawn and the number of draws.
\<close>

function generate_loop :: "(nat \<Rightarrow> 'a) \<Rightarrow> 'a generator \<Rightarrow> nat \<Rightarrow> 'a \<times> nat" where
  "generate_loop draw g trial =
     (let value = draw (Suc trial); trial' = Suc trial in
      if Generator_In g value \<and> trial' < kMaximumTrial then generate_loop draw g trial'
      else (value, trial'))"
  by pat_completeness auto
termination
  by (relation "measure (\<lambda>(draw, g, trial). kMaximumTrial - trial)") auto

declare generate_loop.simps [simp del]

definition Generator_Generate ::
    "'a \<Rightarrow> (nat \<Rightarrow> 'a) \<Rightarrow> 'a::linorder generator \<Rightarrow> 'a \<times> 'a generator" where
  "Generator_Generate InvalidValue draw g =
     (let (value, trial) = generate_loop draw g 0 in
      if trial = kMaximumTrial then (InvalidValue, g)
      else (value, Generator_Add value g))"

section \<open>Correctness\<close>

definition Generator_ok :: "'a::linorder generator \<Rightarrow> bool" where
  "Generator_ok g \<longleftrightarrow> fm_ok (pool g)"

definition values_in_use :: "'a generator \<Rightarrow> 'a set" where
  "values_in_use g = fst ` set (pool g)"

lemma Generator_In_iff: "Generator_In g v \<longleftrightarrow> v \<in> values_in_use g"
  by (simp add: Generator_In_def values_in_use_def fm_find_None_iff)

lemma Generator_Add_ok [inv_intros]: "Generator_ok g \<Longrightarrow> Generator_ok (Generator_Add v g)"
  by (simp add: Generator_ok_def Generator_Add_def fm_insert_ok)

lemma values_Add [simp]:
  "Generator_ok g \<Longrightarrow> values_in_use (Generator_Add v g) = insert v (values_in_use g)"
  by (force simp: Generator_ok_def Generator_Add_def values_in_use_def fm_insert_set image_iff)

lemma Generator_Return_Some:
  assumes "Generator_ok g"
  shows "Generator_Return v g = Some g' \<longleftrightarrow>
           v \<in> values_in_use g \<and> g' = g\<lparr>pool := fm_erase v (pool g)\<rparr>"
  by (auto simp: Generator_Return_def Generator_Remove_def Generator_In_iff)

lemma Generator_Return_ok:
  assumes "Generator_ok g" "Generator_Return v g = Some g'"
  shows "Generator_ok g'" and "values_in_use g' = values_in_use g - {v}"
proof -
  have g': "g' = g\<lparr>pool := fm_erase v (pool g)\<rparr>"
    using assms by (simp add: Generator_Return_Some)
  show "Generator_ok g'"
    using assms(1) by (simp add: g' Generator_ok_def fm_erase_ok)
  show "values_in_use g' = values_in_use g - {v}"
    using assms(1) by (force simp: g' Generator_ok_def values_in_use_def fm_erase_set)
qed

text \<open>
  The loop makes \<open>n\<close> draws, of which all but the last were taken; it makes fewer than
  \<open>kMaximumTrial\<close> of them only when the last one is free.
\<close>

definition stops_at :: "(nat \<Rightarrow> 'a) \<Rightarrow> 'a generator \<Rightarrow> nat \<Rightarrow> 'a \<Rightarrow> nat \<Rightarrow> bool" where
  "stops_at draw g trial v n \<longleftrightarrow>
     trial < n \<and> n \<le> kMaximumTrial \<and> v = draw n \<and>
     (\<forall>i. trial < i \<and> i < n \<longrightarrow> draw i \<in> values_in_use g) \<and>
     (n < kMaximumTrial \<longrightarrow> v \<notin> values_in_use g)"

lemma generate_loop_stops:
  "trial < kMaximumTrial \<Longrightarrow> generate_loop draw g trial = (v, n) \<Longrightarrow> stops_at draw g trial v n"
proof (induction draw g trial rule: generate_loop.induct)
  case (1 draw g trial)
  show ?case
  proof (cases "Generator_In g (draw (Suc trial)) \<and> Suc trial < kMaximumTrial")
    case True
    with "1.prems" have "generate_loop draw g (Suc trial) = (v, n)"
      by (simp add: generate_loop.simps [of draw g trial] Let_def)
    with True "1.IH" have "stops_at draw g (Suc trial) v n" by simp
    moreover have "draw (Suc trial) \<in> values_in_use g" using True by (simp add: Generator_In_iff)
    ultimately show ?thesis by (simp add: stops_at_def) (metis Suc_lessI Suc_lessD)
  next
    case False
    with "1.prems" have "v = draw (Suc trial)" "n = Suc trial"
      by (auto simp: generate_loop.simps [of draw g trial] Let_def)
    with False "1.prems"(1) show ?thesis by (auto simp: stops_at_def Generator_In_iff)
  qed
qed

lemma generate_loop_total: "\<exists>v n. generate_loop draw g 0 = (v, n) \<and> stops_at draw g 0 v n"
  by (metis generate_loop_stops kMaximumTrial_def surj_pair zero_less_numeral)

text \<open>
  A successful call returns a value that was free and is now in use; a failed call leaves the
  pool alone.  The call fails exactly when the first 999 draws are all taken.
\<close>

lemma Generator_Generate_cases:
  assumes "Generator_ok g"
  obtains (fail) "Generator_Generate iv draw g = (iv, g)"
      and "\<forall>i. 0 < i \<and> i < kMaximumTrial \<longrightarrow> draw i \<in> values_in_use g"
  | (fresh) v n where "Generator_Generate iv draw g = (v, Generator_Add v g)"
      and "v = draw n" "0 < n" "n < kMaximumTrial" "v \<notin> values_in_use g"
      and "\<forall>i. 0 < i \<and> i < n \<longrightarrow> draw i \<in> values_in_use g"
proof -
  obtain v n where loop: "generate_loop draw g 0 = (v, n)" and st: "stops_at draw g 0 v n"
    using generate_loop_total [of draw g] by blast
  show thesis
  proof (cases "n = kMaximumTrial")
    case True
    with loop st show thesis
      by (intro fail) (auto simp: Generator_Generate_def stops_at_def)
  next
    case False
    with loop st show thesis
      by (intro fresh [of v n]) (auto simp: Generator_Generate_def stops_at_def)
  qed
qed

text \<open>
  \<open>Generator::Generate\<close> hands out only values that are not in use: it either returns the
  first free value among its first 999 draws and records it in the pool, or, when those draws
  are all taken, returns the invalid value and leaves the pool unchanged.
\<close>

theorem Generator_Generate_correct:
  assumes "Generator_ok g"
  shows "((\<forall>i \<in> {0<..<kMaximumTrial}. draw i \<in> values_in_use g) \<longrightarrow>
            Generator_Generate iv draw g = (iv, g)) \<and>
         (\<forall>n \<in> {0<..<kMaximumTrial}. draw n \<notin> values_in_use g \<and>
            (\<forall>i \<in> {0<..<n}. draw i \<in> values_in_use g) \<longrightarrow>
            Generator_Generate iv draw g = (draw n, Generator_Add (draw n) g) \<and>
            Generator_ok (Generator_Add (draw n) g))"
  using assms
proof (cases rule: Generator_Generate_cases [where iv = iv and draw = draw])
  case fail
  then show ?thesis by auto
next
  case (fresh v m)
  then have m: "m \<in> {0<..<kMaximumTrial}" "draw m \<notin> values_in_use g"
    and ok: "Generator_ok (Generator_Add (draw m) g)"
    using assms by (simp_all add: Generator_Add_ok)
  have "n = m" if "n \<in> {0<..<kMaximumTrial}" "draw n \<notin> values_in_use g"
      "\<forall>i \<in> {0<..<n}. draw i \<in> values_in_use g" for n
    using that fresh(3,6) m by (metis greaterThanLessThan_iff linorder_neqE_nat)
  with fresh(1,2) m ok show ?thesis by (metis (no_types, lifting))
qed

theorem Generator_Generate_correct_witness:
  "Generator_Generate 0 (\<lambda>i. if i < 3 then 7 else 9) \<lparr>pool = [(7 :: nat, True)]\<rparr> =
     (9, \<lparr>pool = [(7, True), (9, True)]\<rparr>)"
proof -
  let ?g = "\<lparr>pool = [(7 :: nat, True)]\<rparr>"
  let ?draw = "\<lambda>i :: nat. if i < 3 then 7 else 9 :: nat"
  have "Generator_ok ?g" by (simp add: Generator_ok_def)
  from Generator_Generate_correct [OF this, of ?draw 0]
  have "3 \<in> {0<..<kMaximumTrial} \<and> ?draw 3 \<notin> values_in_use ?g \<and>
      (\<forall>i \<in> {0<..<3}. ?draw i \<in> values_in_use ?g) \<longrightarrow>
      Generator_Generate 0 ?draw ?g = (?draw 3, Generator_Add (?draw 3) ?g)" by blast
  then show ?thesis by (simp add: Generator_Add_def kMaximumTrial_def values_in_use_def)
qed

end
