(* ===== verification/Felicia_Node.thy ===== *)
theory Felicia_Node
  imports Felicia_ChannelDef Felicia_Generator
begin

text \<open>
  \<open>felicia::Node\<close> of \<open>core/master/node.h\<close> and \<open>node.cc\<close>: the master's record of one node, the
  topics it publishes and subscribes to and the services it serves and requests.  The static
  name generator of the C++ file is the argument \<open>names\<close> of \<open>NewNode\<close>; the destructor's return of
  the name is part of the operations that destroy nodes (theories \<open>Felicia_Client\<close> and
  \<open>Felicia_Master\<close>).
\<close>

section \<open>Data\<close>

record node =
  node_info :: node_info
  topic_info_map :: "(string, topic_info) flat_map"
  service_info_map :: "(string, service_info) flat_map"
  subscribing_topics :: "string list"
  requesting_services :: "string list"

abbreviation "name n \<equiv> ni_name (node_info n)"

definition new_Node :: "node_info \<Rightarrow> node" where
  "new_Node info = \<lparr>node_info = info, topic_info_map = [], service_info_map = [],
     subscribing_topics = [], requesting_services = []\<rparr>"

section \<open>Names\<close>

text \<open>
  \<open>RandNameTraits\<close>: a name of \<open>kNameLength\<close> characters drawn from \<open>alphadigit\<close>.  \<open>rand len i\<close> is
  the result of the \<open>i\<close>-th call of \<open>base::RandGenerator(len)\<close>, which is documented to lie in
  \<open>[0, len)\<close>.
\<close>

definition alphadigit :: string where
  "alphadigit = ''abcdefghijklmnopqrstuvwxyzABCDEFGHIJKLMNOPQRSTUVWXYZ0123456789''"

definition kNameLength :: nat where "kNameLength = 12"

definition RandName_Generate :: "(nat \<Rightarrow> nat \<Rightarrow> nat) \<Rightarrow> string" where
  "RandName_Generate rand =
     (let len = length alphadigit in map (\<lambda>i. alphadigit ! rand len i) [0..<kNameLength])"

definition RandName_InvalidValue :: string where "RandName_InvalidValue = []"

text \<open>\<open>NewNode\<close>: \<open>None\<close> is the null pointer.  The generator is updated when a name is taken.\<close>

definition NewNode ::
    "(nat \<Rightarrow> string) \<Rightarrow> string generator \<Rightarrow> node_info \<Rightarrow> node option \<times> string generator" where
  "NewNode draw names info =
     (if ni_name info \<noteq> [] then
        (if Generator_In names (ni_name info) then (None, names)
         else (Some (new_Node info), Generator_Add (ni_name info) names))
      else
        let (nm, names') = Generator_Generate RandName_InvalidValue draw names in
        if length nm = 0 then (None, names')
        else (Some (new_Node (info\<lparr>ni_name := nm\<rparr>)), names'))"

section \<open>Topics\<close>

definition RegisterPublishingTopic :: "topic_info \<Rightarrow> node \<Rightarrow> node" where
  "RegisterPublishingTopic t n =
     n\<lparr>topic_info_map := fm_insert_or_assign (ti_topic t) t (topic_info_map n)\<rparr>"

definition RegisterSubscribingTopic :: "string \<Rightarrow> node \<Rightarrow> node" where
  "RegisterSubscribingTopic t n = n\<lparr>subscribing_topics := subscribing_topics n @ [t]\<rparr>"

text \<open>Erasing the entry of an absent topic erases \<open>end()\<close>, which is undefined: \<open>None\<close>.\<close>

definition UnregisterPublishingTopic :: "string \<Rightarrow> node \<Rightarrow> node option" where
  "UnregisterPublishingTopic t n =
     (case fm_find (topic_info_map n) t of
        None \<Rightarrow> None
      | Some _ \<Rightarrow> Some (n\<lparr>topic_info_map := fm_erase t (topic_info_map n)\<rparr>))"

definition UnregisterSubscribingTopic :: "string \<Rightarrow> node \<Rightarrow> node" where
  "UnregisterSubscribingTopic t n =
     n\<lparr>subscribing_topics := filter (\<lambda>x. x \<noteq> t) (subscribing_topics n)\<rparr>"

definition IsPublishingTopic :: "node \<Rightarrow> string \<Rightarrow> bool" where
  "IsPublishingTopic n t \<longleftrightarrow> fm_find (topic_info_map n) t \<noteq> None"

definition IsSubsribingTopic :: "node \<Rightarrow> string \<Rightarrow> bool" where
  "IsSubsribingTopic n t \<longleftrightarrow> List.find (\<lambda>x. x = t) (subscribing_topics n) \<noteq> None"

definition GetTopicInfo :: "node \<Rightarrow> string \<Rightarrow> topic_info option" where
  "GetTopicInfo n t = fm_find (topic_info_map n) t"

definition AllPublishingTopicInfos :: "node \<Rightarrow> topic_info list" where
  "AllPublishingTopicInfos n = map snd (topic_info_map n)"

definition AllSubscribingTopics :: "node \<Rightarrow> string list" where
  "AllSubscribingTopics n = subscribing_topics n"

section \<open>Services\<close>

definition RegisterRequestingService :: "string \<Rightarrow> node \<Rightarrow> node" where
  "RegisterRequestingService s n = n\<lparr>requesting_services := requesting_services n @ [s]\<rparr>"

definition RegisterServingService :: "service_info \<Rightarrow> node \<Rightarrow> node" where
  "RegisterServingService s n =
     n\<lparr>service_info_map := fm_insert_or_assign (si_service s) s (service_info_map n)\<rparr>"

definition UnregisterRequestingService :: "string \<Rightarrow> node \<Rightarrow> node" where
  "UnregisterRequestingService s n =
     n\<lparr>requesting_services := filter (\<lambda>x. x \<noteq> s) (requesting_services n)\<rparr>"

definition UnregisterServingService :: "string \<Rightarrow> node \<Rightarrow> node option" where
  "UnregisterServingService s n =
     (case fm_find (service_info_map n) s of
        None \<Rightarrow> None
      | Some _ \<Rightarrow> Some (n\<lparr>service_info_map := fm_erase s (service_info_map n)\<rparr>))"

definition IsRequestingService :: "node \<Rightarrow> string \<Rightarrow> bool" where
  "IsRequestingService n s \<longleftrightarrow> List.find (\<lambda>x. x = s) (requesting_services n) \<noteq> None"

definition IsServingService :: "node \<Rightarrow> string \<Rightarrow> bool" where
  "IsServingService n s \<longleftrightarrow> fm_find (service_info_map n) s \<noteq> None"

definition GetServiceInfo :: "node \<Rightarrow> string \<Rightarrow> service_info option" where
  "GetServiceInfo n s = fm_find (service_info_map n) s"

definition AllRequestingServices :: "node \<Rightarrow> string list" where
  "AllRequestingServices n = requesting_services n"

definition AllServingServiceInfos :: "node \<Rightarrow> service_info list" where
  "AllServingServiceInfos n = map snd (service_info_map n)"

definition NodeNameChecker :: "node_info \<Rightarrow> node \<Rightarrow> bool" where
  "NodeNameChecker info n \<longleftrightarrow> name n = ni_name info"

section \<open>Well-formed nodes\<close>

text \<open>
  The two maps are sorted vectors keyed by the name of the entry, and a topic is subscribed to
  and a service requested at most once.
\<close>

definition node_ok :: "node \<Rightarrow> bool" where
  "node_ok n \<longleftrightarrow>
     fm_ok (topic_info_map n) \<and> (\<forall>(k, t) \<in> set (topic_info_map n). ti_topic t = k) \<and>
     fm_ok (service_info_map n) \<and> (\<forall>(k, s) \<in> set (service_info_map n). si_service s = k) \<and>
     distinct (subscribing_topics n) \<and> distinct (requesting_services n)"

lemma IsSubsribingTopic_iff: "IsSubsribingTopic n t \<longleftrightarrow> t \<in> set (subscribing_topics n)"
  by (auto simp: IsSubsribingTopic_def find_None_iff)

lemma IsRequestingService_iff: "IsRequestingService n s \<longleftrightarrow> s \<in> set (requesting_services n)"
  by (auto simp: IsRequestingService_def find_None_iff)

lemma IsPublishingTopic_iff: "IsPublishingTopic n t \<longleftrightarrow> t \<in> fst ` set (topic_info_map n)"
  by (simp add: IsPublishingTopic_def fm_find_None_iff)

lemma IsServingService_iff: "IsServingService n s \<longleftrightarrow> s \<in> fst ` set (service_info_map n)"
  by (simp add: IsServingService_def fm_find_None_iff)

lemma new_Node_ok [simp, inv_intros]: "node_ok (new_Node info)"
  by (simp add: node_ok_def new_Node_def)

lemma RegisterPublishingTopic_ok [inv_intros]:
  "node_ok n \<Longrightarrow> node_ok (RegisterPublishingTopic t n)"
  by (auto simp: node_ok_def RegisterPublishingTopic_def fm_simps)

lemma RegisterServingService_ok [inv_intros]:
  "node_ok n \<Longrightarrow> node_ok (RegisterServingService s n)"
  by (auto simp: node_ok_def RegisterServingService_def fm_simps)

lemma RegisterSubscribingTopic_ok [inv_intros]:
  "node_ok n \<Longrightarrow> \<not> IsSubsribingTopic n t \<Longrightarrow> node_ok (RegisterSubscribingTopic t n)"
  by (auto simp: node_ok_def RegisterSubscribingTopic_def IsSubsribingTopic_iff)

lemma RegisterRequestingService_ok [inv_intros]:
  "node_ok n \<Longrightarrow> \<not> IsRequestingService n s \<Longrightarrow> node_ok (RegisterRequestingService s n)"
  by (auto simp: node_ok_def RegisterRequestingService_def IsRequestingService_iff)

lemma UnregisterPublishingTopic_ok [inv_intros]:
  "node_ok n \<Longrightarrow> UnregisterPublishingTopic t n = Some n' \<Longrightarrow> node_ok n'"
  by (auto simp: node_ok_def UnregisterPublishingTopic_def fm_simps split: option.splits)

lemma UnregisterServingService_ok [inv_intros]:
  "node_ok n \<Longrightarrow> UnregisterServingService s n = Some n' \<Longrightarrow> node_ok n'"
  by (auto simp: node_ok_def UnregisterServingService_def fm_simps split: option.splits)

lemma UnregisterSubscribingTopic_ok [inv_intros]:
  "node_ok n \<Longrightarrow> node_ok (UnregisterSubscribingTopic t n)"
  by (auto simp: node_ok_def UnregisterSubscribingTopic_def)

lemma UnregisterRequestingService_ok [inv_intros]:
  "node_ok n \<Longrightarrow> node_ok (UnregisterRequestingService s n)"
  by (auto simp: node_ok_def UnregisterRequestingService_def)

lemmas node_op_defs =
  RegisterPublishingTopic_def RegisterServingService_def RegisterSubscribingTopic_def
  RegisterRequestingService_def UnregisterSubscribingTopic_def UnregisterRequestingService_def

text \<open>What each registration changes and what it leaves alone.\<close>

lemma node_info_ops [simp]:
  "node_info (RegisterPublishingTopic t n) = node_info n"
  "node_info (RegisterServingService s n) = node_info n"
  "node_info (RegisterSubscribingTopic a n) = node_info n"
  "node_info (RegisterRequestingService a n) = node_info n"
  "node_info (UnregisterSubscribingTopic a n) = node_info n"
  "node_info (UnregisterRequestingService a n) = node_info n"
  "node_info (new_Node info) = info"
  by (simp_all add: node_op_defs new_Node_def)

lemma topic_map_ops [simp]:
  "topic_info_map (RegisterServingService s n) = topic_info_map n"
  "topic_info_map (RegisterSubscribingTopic a n) = topic_info_map n"
  "topic_info_map (RegisterRequestingService a n) = topic_info_map n"
  "topic_info_map (UnregisterSubscribingTopic a n) = topic_info_map n"
  "topic_info_map (UnregisterRequestingService a n) = topic_info_map n"
  "topic_info_map (new_Node info) = []"
  by (simp_all add: node_op_defs new_Node_def)

lemma service_map_ops [simp]:
  "service_info_map (RegisterPublishingTopic t n) = service_info_map n"
  "service_info_map (RegisterSubscribingTopic a n) = service_info_map n"
  "service_info_map (RegisterRequestingService a n) = service_info_map n"
  "service_info_map (UnregisterSubscribingTopic a n) = service_info_map n"
  "service_info_map (UnregisterRequestingService a n) = service_info_map n"
  "service_info_map (new_Node info) = []"
  by (simp_all add: node_op_defs new_Node_def)

lemma IsPublishingTopic_Register:
  "node_ok n \<Longrightarrow>
     IsPublishingTopic (RegisterPublishingTopic t n) x \<longleftrightarrow> x = ti_topic t \<or> IsPublishingTopic n x"
  by (auto simp: IsPublishingTopic_def RegisterPublishingTopic_def node_ok_def fm_simps)

lemma IsServingService_Register:
  "node_ok n \<Longrightarrow>
     IsServingService (RegisterServingService s n) x \<longleftrightarrow> x = si_service s \<or> IsServingService n x"
  by (auto simp: IsServingService_def RegisterServingService_def node_ok_def fm_simps)

lemma UnregisterPublishingTopic_Some:
  "UnregisterPublishingTopic t n = Some n' \<longleftrightarrow>
     IsPublishingTopic n t \<and> n' = n\<lparr>topic_info_map := fm_erase t (topic_info_map n)\<rparr>"
  by (auto simp: UnregisterPublishingTopic_def IsPublishingTopic_def split: option.splits)

lemma UnregisterServingService_Some:
  "UnregisterServingService s n = Some n' \<longleftrightarrow>
     IsServingService n s \<and> n' = n\<lparr>service_info_map := fm_erase s (service_info_map n)\<rparr>"
  by (auto simp: UnregisterServingService_def IsServingService_def split: option.splits)

section \<open>NewNode\<close>

lemma NewNode_fresh:
  assumes ok: "Generator_ok names" and new: "NewNode draw names info = (Some n, names')"
  shows "name n \<noteq> []" and "name n \<notin> values_in_use names"
    and "names' = Generator_Add (name n) names"
    and "node_info n = info\<lparr>ni_name := name n\<rparr>" and "n = new_Node (node_info n)"
proof -
  have "name n \<noteq> [] \<and> name n \<notin> values_in_use names \<and> names' = Generator_Add (name n) names \<and>
    node_info n = info\<lparr>ni_name := name n\<rparr> \<and> n = new_Node (node_info n)"
  proof (cases "ni_name info = []")
    case False
    with new show ?thesis
      by (auto simp: NewNode_def Generator_In_iff split: if_splits)
  next
    case True
    with ok new show ?thesis
      by (cases rule: Generator_Generate_cases
            [where iv = RandName_InvalidValue and draw = draw])
        (auto simp: NewNode_def RandName_InvalidValue_def split: if_splits)
  qed
  then show "name n \<noteq> []" and "name n \<notin> values_in_use names"
    and "names' = Generator_Add (name n) names"
    and "node_info n = info\<lparr>ni_name := name n\<rparr>" and "n = new_Node (node_info n)"
    by simp_all
qed

lemma NewNode_None:
  assumes ok: "Generator_ok names" and new: "NewNode draw names info = (None, names')"
    and draws: "\<And>i. draw i \<noteq> []"
  shows "names' = names"
proof (cases "ni_name info = []")
  case False
  with new show ?thesis by (auto simp: NewNode_def split: if_splits)
next
  case True
  with ok new draws show ?thesis
    by (cases rule: Generator_Generate_cases
          [where iv = RandName_InvalidValue and draw = draw])
      (auto simp: NewNode_def RandName_InvalidValue_def split: if_splits)
qed

lemma NewNode_name_taken:
  "ni_name info \<noteq> [] \<Longrightarrow>
     fst (NewNode draw names info) = None \<longleftrightarrow> ni_name info \<in> values_in_use names"
  by (auto simp: NewNode_def Generator_In_iff)

lemma RandName_Generate_nonempty: "length (RandName_Generate rand) = kNameLength"
  by (simp add: RandName_Generate_def)

lemma RandName_Generate_alphadigit:
  assumes "\<And>len i. 0 < len \<Longrightarrow> rand len i < len"
  shows "set (RandName_Generate rand) \<subseteq> set alphadigit"
proof
  fix c
  assume "c \<in> set (RandName_Generate rand)"
  then obtain i where "c = alphadigit ! rand (length alphadigit) i"
    by (auto simp: RandName_Generate_def)
  moreover have "rand (length alphadigit) i < length alphadigit"
    using assms by (simp add: alphadigit_def)
  ultimately show "c \<in> set alphadigit" using nth_mem by blast
qed

end
