(* ===== verification/Felicia_Client.thy ===== *)
theory Felicia_Client
  imports Felicia_Node
begin

text \<open>
  \<open>felicia::Client\<close> of \<open>core/master/client.h\<close> and \<open>client.cc\<close>: one connected client, its nodes in
  registration order, and the searches the master runs over them.  The static id generator is
  the argument \<open>ids\<close>.  A \<open>WeakPtr<Node>\<close> returned by a search is used within the same task, in
  which no node dies, so the model returns the node itself.
\<close>

section \<open>Data\<close>

record client =
  client_info :: client_info
  nodes :: "node list"

definition RandUint32_InvalidValue :: u32 where
  "RandUint32_InvalidValue = - 1"

definition NewClient ::
    "(nat \<Rightarrow> u32) \<Rightarrow> u32 generator \<Rightarrow> client_info \<Rightarrow> client option \<times> u32 generator" where
  "NewClient draw ids info =
     (let (id, ids') = Generator_Generate RandUint32_InvalidValue draw ids in
      if id = RandUint32_InvalidValue then (None, ids')
      else (Some \<lparr>client_info = info\<lparr>ci_id := id\<rparr>, nodes = []\<rparr>, ids'))"

section \<open>Destruction\<close>

text \<open>
  Destroying nodes returns their names to the generator; \<open>~Client\<close> returns the id first and then
  destroys the nodes.  \<open>None\<close> is the undefined erase of a value that is not in the pool.
\<close>

primrec destroy_nodes :: "node list \<Rightarrow> string generator \<Rightarrow> string generator option" where
  "destroy_nodes [] names = Some names"
| "destroy_nodes (n # ns) names =
     (case Generator_Return (name n) names of
        None \<Rightarrow> None
      | Some names' \<Rightarrow> destroy_nodes ns names')"

definition destroy_client ::
    "client \<Rightarrow> u32 generator \<Rightarrow> string generator \<Rightarrow> (u32 generator \<times> string generator) option" where
  "destroy_client c ids names =
     (case Generator_Return (ci_id (client_info c)) ids of
        None \<Rightarrow> None
      | Some ids' \<Rightarrow>
          (case destroy_nodes (nodes c) names of
             None \<Rightarrow> None
           | Some names' \<Rightarrow> Some (ids', names')))"

section \<open>Nodes of a client\<close>

definition Client_AddNode :: "node \<Rightarrow> client \<Rightarrow> client" where
  "Client_AddNode n c = c\<lparr>nodes := nodes c @ [n]\<rparr>"

definition Client_RemoveNode ::
    "node_info \<Rightarrow> client \<Rightarrow> string generator \<Rightarrow> (client \<times> string generator) option" where
  "Client_RemoveNode info c names =
     (case destroy_nodes (filter (NodeNameChecker info) (nodes c)) names of
        None \<Rightarrow> None
      | Some names' \<Rightarrow>
          Some (c\<lparr>nodes := filter (\<lambda>n. \<not> NodeNameChecker info n) (nodes c)\<rparr>, names'))"

definition Client_HasNode :: "client \<Rightarrow> node_info \<Rightarrow> bool" where
  "Client_HasNode c info \<longleftrightarrow> List.find (NodeNameChecker info) (nodes c) \<noteq> None"

definition Client_FindNode :: "client \<Rightarrow> node_info \<Rightarrow> node option" where
  "Client_FindNode c info = List.find (NodeNameChecker info) (nodes c)"

text \<open>A mutation through the pointer \<open>FindNode\<close> returned.\<close>

definition Client_UpdateNode :: "node_info \<Rightarrow> (node \<Rightarrow> node) \<Rightarrow> client \<Rightarrow> client" where
  "Client_UpdateNode info f c = c\<lparr>nodes := map_first (NodeNameChecker info) f (nodes c)\<rparr>"

section \<open>Searches\<close>

text \<open>A loop over \<open>nodes_\<close> that pushes the first match and breaks.\<close>

definition first_match :: "('a \<Rightarrow> bool) \<Rightarrow> 'a list \<Rightarrow> 'a list" where
  "first_match p xs = (case List.find p xs of None \<Rightarrow> [] | Some x \<Rightarrow> [x])"

definition Client_FindNodes :: "client \<Rightarrow> node_filter \<Rightarrow> node list" where
  "Client_FindNodes c f =
     (if nf_all f then nodes c
      else if nf_publishing_topic f \<noteq> [] then
        first_match (\<lambda>n. IsPublishingTopic n (nf_publishing_topic f)) (nodes c)
      else if nf_subscribing_topic f \<noteq> [] then
        filter (\<lambda>n. IsSubsribingTopic n (nf_subscribing_topic f)) (nodes c)
      else if nf_requesting_service f \<noteq> [] then
        filter (\<lambda>n. IsRequestingService n (nf_requesting_service f)) (nodes c)
      else if nf_serving_service f \<noteq> [] then
        filter (\<lambda>n. IsServingService n (nf_serving_service f)) (nodes c)
      else if nf_name f \<noteq> [] then filter (\<lambda>n. name n = nf_name f) (nodes c)
      else if nf_watcher f then first_match (\<lambda>n. ni_watcher (node_info n)) (nodes c)
      else [])"

definition Client_FindTopicInfos :: "client \<Rightarrow> topic_filter \<Rightarrow> topic_info list" where
  "Client_FindTopicInfos c f =
     (if tf_all f then concat (map AllPublishingTopicInfos (nodes c))
      else if tf_topic f \<noteq> [] then
        (case List.find (\<lambda>n. IsPublishingTopic n (tf_topic f)) (nodes c) of
           None \<Rightarrow> []
         | Some n \<Rightarrow> (case GetTopicInfo n (tf_topic f) of None \<Rightarrow> [] | Some t \<Rightarrow> [t]))
      else [])"

definition Client_FindServiceInfos :: "client \<Rightarrow> service_filter \<Rightarrow> service_info list" where
  "Client_FindServiceInfos c f =
     (if sf_all f then concat (map AllServingServiceInfos (nodes c))
      else if sf_service f \<noteq> [] then
        (case List.find (\<lambda>n. IsServingService n (sf_service f)) (nodes c) of
           None \<Rightarrow> []
         | Some n \<Rightarrow> (case GetServiceInfo n (sf_service f) of None \<Rightarrow> [] | Some s \<Rightarrow> [s]))
      else [])"

definition Client_FindAllSubscribingTopics :: "client \<Rightarrow> string list" where
  "Client_FindAllSubscribingTopics c = concat (map AllSubscribingTopics (nodes c))"

definition Client_FindAllRequestingServices :: "client \<Rightarrow> string list" where
  "Client_FindAllRequestingServices c = concat (map AllRequestingServices (nodes c))"

section \<open>Lemmas\<close>

lemma in_first_match: "x \<in> set (first_match p xs) \<Longrightarrow> x \<in> set xs \<and> p x"
  by (cases "List.find p xs") (auto simp: first_match_def dest: find_Some_mem)

lemma first_match_Nil_iff: "first_match p xs = [] \<longleftrightarrow> (\<forall>x \<in> set xs. \<not> p x)"
  by (induction xs) (auto simp: first_match_def)

lemma first_match_eq_filter:
  "(\<And>us x vs y ws. xs = us @ x # vs @ y # ws \<Longrightarrow> \<not> (p x \<and> p y)) \<Longrightarrow> first_match p xs = filter p xs"
proof (induction xs)
  case (Cons x xs)
  show ?case
  proof (cases "p x")
    case True
    have "\<not> p y" if "y \<in> set xs" for y
      using Cons.prems [of "[]" x] True that by (metis append_Nil split_list)
    then show ?thesis using True by (simp add: first_match_def)
  next
    case False
    have "first_match p xs = filter p xs"
      by (rule Cons.IH) (use Cons.prems in \<open>metis append_Cons\<close>)
    with False show ?thesis by (simp add: first_match_def)
  qed
qed (simp add: first_match_def)

lemma NewClient_fresh:
  assumes ok: "Generator_ok ids" and new: "NewClient draw ids info = (Some c, ids')"
    and range: "\<And>i. draw i \<noteq> RandUint32_InvalidValue"
  shows "ci_id (client_info c) \<notin> values_in_use ids"
    and "ids' = Generator_Add (ci_id (client_info c)) ids"
    and "client_info c = info\<lparr>ci_id := ci_id (client_info c)\<rparr>" and "nodes c = []"
proof -
  have "ci_id (client_info c) \<notin> values_in_use ids \<and>
      ids' = Generator_Add (ci_id (client_info c)) ids \<and>
      client_info c = info\<lparr>ci_id := ci_id (client_info c)\<rparr> \<and> nodes c = []"
    using ok new range
    by (cases rule: Generator_Generate_cases
          [where iv = RandUint32_InvalidValue and draw = draw])
      (auto simp: NewClient_def split: if_splits)
  then show "ci_id (client_info c) \<notin> values_in_use ids"
    and "ids' = Generator_Add (ci_id (client_info c)) ids"
    and "client_info c = info\<lparr>ci_id := ci_id (client_info c)\<rparr>" and "nodes c = []"
    by simp_all
qed

lemma NewClient_None:
  assumes ok: "Generator_ok ids" and new: "NewClient draw ids info = (None, ids')"
    and range: "\<And>i. draw i \<noteq> RandUint32_InvalidValue"
  shows "ids' = ids"
  using ok new range
  by (cases rule: Generator_Generate_cases
        [where iv = RandUint32_InvalidValue and draw = draw])
    (auto simp: NewClient_def split: if_splits)

text \<open>Destroying nodes with distinct names in use is defined and frees exactly those names.\<close>

lemma destroy_nodes_Some:
  assumes "Generator_ok names" "distinct (map name ns)" "name ` set ns \<subseteq> values_in_use names"
  obtains names' where "destroy_nodes ns names = Some names'" "Generator_ok names'"
    "values_in_use names' = values_in_use names - name ` set ns"
  using assms
proof (induction ns arbitrary: names thesis)
  case Nil
  then show ?case by simp
next
  case (Cons n ns)
  let ?g = "names\<lparr>pool := fm_erase (name n) (pool names)\<rparr>"
  have ret: "Generator_Return (name n) names = Some ?g"
    using Cons.prems by (simp add: Generator_Return_Some)
  note g = Generator_Return_ok [OF Cons.prems(2) ret]
  obtain names' where "destroy_nodes ns ?g = Some names'" "Generator_ok names'"
    "values_in_use names' = values_in_use ?g - name ` set ns"
    using Cons.IH [of ?g] Cons.prems(3,4) g by (auto simp: subset_iff)
  then show ?case using Cons.prems(1) ret g(2) by auto
qed

lemma Client_HasNode_iff: "Client_HasNode c info \<longleftrightarrow> (\<exists>n \<in> set (nodes c). name n = ni_name info)"
  by (auto simp: Client_HasNode_def find_None_iff NodeNameChecker_def)

lemma Client_FindNode_Some:
  "Client_FindNode c info = Some n \<Longrightarrow> n \<in> set (nodes c) \<and> name n = ni_name info"
  by (auto simp: Client_FindNode_def NodeNameChecker_def dest: find_Some_mem)

lemma Client_FindNode_None:
  "Client_FindNode c info = None \<longleftrightarrow> \<not> Client_HasNode c info"
  by (simp add: Client_FindNode_def Client_HasNode_def)

lemma client_info_ops [simp]:
  "client_info (Client_AddNode n c) = client_info c"
  "client_info (Client_UpdateNode info f c) = client_info c"
  by (simp_all add: Client_AddNode_def Client_UpdateNode_def)

lemma nodes_AddNode [simp]: "nodes (Client_AddNode n c) = nodes c @ [n]"
  by (simp add: Client_AddNode_def)

lemma set_Client_FindNodes: "set (Client_FindNodes c f) \<subseteq> set (nodes c)"
  by (auto simp: Client_FindNodes_def dest: in_first_match split: if_splits)

end
