(* ===== verification/Felicia_MasterErrors.thy ===== *)
theory Felicia_MasterErrors
  imports Felicia_Messages
begin

text \<open>
  The statuses of \<open>core/master/errors.h\<close>.  \<open>debug_string\<close> is \<open>ChannelSource::DebugString\<close> of the
  protobuf runtime.
\<close>

definition ChannelSourceNotValid ::
    "(channel_source \<Rightarrow> string) \<Rightarrow> string \<Rightarrow> channel_source \<Rightarrow> status" where
  "ChannelSourceNotValid debug_string nm src =
     InvalidArgument (''Invalid channel source '' @ nm @ '': '' @ debug_string src @ ''.'')"

definition FailedToRegisterClient :: status where
  "FailedToRegisterClient = OutOfRange ''Failed to register client.''"

definition ClientNotRegistered :: status where
  "ClientNotRegistered = NotFound ''Client isn't registered yet.''"

definition NodeNotRegistered :: "node_info \<Rightarrow> status" where
  "NodeNotRegistered info =
     NotFound (''Node '' @ quoted (ni_name info) @ '' isn't registered yet.'')"

definition NodeAlreadyRegistered :: "node_info \<Rightarrow> status" where
  "NodeAlreadyRegistered info =
     AlreadyExists (''Node '' @ quoted (ni_name info) @ '' is already registered.'')"

definition WatcherNodeAlreadyRegistered :: status where
  "WatcherNodeAlreadyRegistered = AlreadyExists ''Watcher node already exists.''"

definition TopicAlreadyPublishingOnNode :: "node_info \<Rightarrow> topic_info \<Rightarrow> status" where
  "TopicAlreadyPublishingOnNode info t =
     AlreadyExists (''Node '' @ quoted (ni_name info) @ '' is already publish service '' @
       quoted (ti_topic t) @ ''.'')"

definition FailedToPublishTopic :: "topic_info \<Rightarrow> status" where
  "FailedToPublishTopic t = Unknown (''Failed to publish topic '' @ quoted (ti_topic t) @ ''.'')"

definition TopicNotPublishingOnNode :: "node_info \<Rightarrow> string \<Rightarrow> status" where
  "TopicNotPublishingOnNode info t =
     NotFound (''Node '' @ quoted (ni_name info) @ '' isn't publishing topic '' @ quoted t @ ''.'')"

definition FailedToUnpublishTopic :: "string \<Rightarrow> status" where
  "FailedToUnpublishTopic t = Unknown (''Failed to unpublish topic '' @ quoted t @ ''.'')"

definition TopicAlreadySubscribingOnNode :: "node_info \<Rightarrow> string \<Rightarrow> status" where
  "TopicAlreadySubscribingOnNode info t =
     AlreadyExists (''Node '' @ quoted (ni_name info) @ '' is already subscribing topic '' @
       quoted t @ ''.'')"

definition FailedToSubscribeTopic :: "string \<Rightarrow> status" where
  "FailedToSubscribeTopic t = Unknown (''Failed to subscribe topic '' @ quoted t @ ''.'')"

definition TopicNotSubscribingOnNode :: "node_info \<Rightarrow> string \<Rightarrow> status" where
  "TopicNotSubscribingOnNode info t =
     NotFound (''Node '' @ quoted (ni_name info) @ '' isn't subscribing topic '' @ quoted t @ ''.'')"

definition FailedToUnsubscribeTopic :: "string \<Rightarrow> status" where
  "FailedToUnsubscribeTopic t = Unknown (''Failed to unsubscribe topic '' @ quoted t @ ''.'')"

definition ServiceAlreadyRequestingOnNode :: "node_info \<Rightarrow> string \<Rightarrow> status" where
  "ServiceAlreadyRequestingOnNode info s =
     AlreadyExists (''Node '' @ quoted (ni_name info) @ '' is already requesting service '' @
       quoted s @ ''.'')"

definition FailedToRegisterServiceClient :: "string \<Rightarrow> status" where
  "FailedToRegisterServiceClient s =
     Unknown (''Failed to register service client '' @ quoted s @ ''.'')"

definition ServiceNotRequestingOnNode :: "node_info \<Rightarrow> string \<Rightarrow> status" where
  "ServiceNotRequestingOnNode info s =
     AlreadyExists (''Node '' @ quoted (ni_name info) @ '' isn't requesting service '' @
       quoted s @ ''.'')"

definition FailedToUnregisterServiceClient :: "string \<Rightarrow> status" where
  "FailedToUnregisterServiceClient s =
     Unknown (''Failed to unregister service client '' @ quoted s @ ''.'')"

definition ServiceAlreadyServingOnNode :: "node_info \<Rightarrow> service_info \<Rightarrow> status" where
  "ServiceAlreadyServingOnNode info s =
     AlreadyExists (''Node '' @ quoted (ni_name info) @ '' is already serving service '' @
       quoted (si_service s) @ ''.'')"

definition FailedToRegisterServiceServer :: "service_info \<Rightarrow> status" where
  "FailedToRegisterServiceServer s =
     Unknown (''Failed to register service server '' @ quoted (si_service s) @ ''.'')"

definition ServiceNotServingOnNode :: "node_info \<Rightarrow> string \<Rightarrow> status" where
  "ServiceNotServingOnNode info s =
     AlreadyExists (''Node '' @ quoted (ni_name info) @ '' isn't serving service '' @
       quoted s @ ''.'')"

definition FailedToUnregisterServiceServer :: "string \<Rightarrow> status" where
  "FailedToUnregisterServiceServer s =
     Unknown (''Failed to unregister service server '' @ quoted s @ ''.'')"

lemmas master_error_defs =
  ChannelSourceNotValid_def FailedToRegisterClient_def ClientNotRegistered_def
  NodeNotRegistered_def NodeAlreadyRegistered_def WatcherNodeAlreadyRegistered_def
  TopicAlreadyPublishingOnNode_def FailedToPublishTopic_def TopicNotPublishingOnNode_def
  FailedToUnpublishTopic_def TopicAlreadySubscribingOnNode_def FailedToSubscribeTopic_def
  TopicNotSubscribingOnNode_def FailedToUnsubscribeTopic_def ServiceAlreadyRequestingOnNode_def
  FailedToRegisterServiceClient_def ServiceNotRequestingOnNode_def
  FailedToUnregisterServiceClient_def ServiceAlreadyServingOnNode_def
  FailedToRegisterServiceServer_def ServiceNotServingOnNode_def
  FailedToUnregisterServiceServer_def

end
