(* ===== verification/Felicia_Master.thy ===== *)
theory Felicia_Master
  imports Felicia_Client Felicia_MasterErrors
begin

text \<open>
  The state of \<open>felicia::Master\<close> (\<open>core/master/master.h\<close>, \<open>master.cc\<close>) with its searches, the
  operations on its client map and the notifications it sends.

  \<open>client_map\<close> is \<open>client_map_\<close>; \<open>tasks\<close> is the FIFO queue of the master thread's task runner;
  \<open>ids\<close> and \<open>names\<close> are the static generators of \<open>client.cc\<close> and \<open>node.cc\<close>; \<open>listeners\<close> are the
  heart beat listeners alive, by the client they watch; \<open>effects\<close> is the log of what the master
  did to the outside in order; \<open>undef\<close> records that a step reached undefined behaviour of the
  C++ code (a null or end iterator used, an element out of range read).  A completion callback
  is identified by a number.
\<close>

section \<open>State\<close>

datatype response =
    RegisterClientResponse u32
  | ListClientsResponse "client_info list"
  | RegisterNodeResponse node_info
  | ListNodesResponse "node_info list" "string list" "string list"
  | ListTopicsResponse "topic_info list"
  | ListServicesResponse "service_info list"

datatype ros_request =
    RosRegisterPublisher string string
  | RosRegisterSubscriber string string
  | RosUnregisterPublisher string
  | RosUnregisterSubscriber string
  | RosRegisterService string string
  | RosUnregisterService string string
  | RosLookupService string
  | RosRequestTopic string u32 string

datatype effect =
    Reply nat status
  | Result nat response
  | Connect channel_def master_notification
  | SendNotification master_notification
  | RosCall ros_request

datatype task =
    TRegisterClient client nat
  | TRegisterNode node nat
  | TUnregisterNode node_info nat
  | TListNodes node_filter nat
  | TPublishTopic node_info topic_info nat
  | TUnpublishTopic node_info string nat
  | TSubscribeTopic node_info string string nat
  | TUnsubscribeTopic node_info string nat
  | TRegisterServiceClient node_info string nat
  | TUnregisterServiceClient node_info string nat
  | TRegisterServiceServer node_info service_info nat
  | TUnregisterServiceServer node_info string nat
  | TNotifyAllSubscribers topic_info

record master =
  client_map :: "(u32, client) flat_map"
  check_heart_beat :: bool
  tasks :: "task list"
  ids :: "u32 generator"
  names :: "string generator"
  listeners :: "client_info list"
  connecting :: "master_notification list"
  next_callback :: nat
  effects :: "effect list"
  undef :: bool

definition new_Master :: "bool \<Rightarrow> master" where
  "new_Master check = \<lparr>client_map = [], check_heart_beat = check, tasks = [],
     ids = \<lparr>pool = []\<rparr>, names = \<lparr>pool = []\<rparr>, listeners = [], connecting = [],
     next_callback = 0, effects = [], undef = False\<rparr>"

definition emit :: "effect \<Rightarrow> master \<Rightarrow> master" where
  "emit e m = m\<lparr>effects := effects m @ [e]\<rparr>"

definition PostTask :: "task \<Rightarrow> master \<Rightarrow> master" where
  "PostTask t m = m\<lparr>tasks := tasks m @ [t]\<rparr>"

definition undefined_behaviour :: "master \<Rightarrow> master" where
  "undefined_behaviour m = m\<lparr>undef := True\<rparr>"

section \<open>Searches\<close>

definition Master_FindNode :: "master \<Rightarrow> node_info \<Rightarrow> node option" where
  "Master_FindNode m info =
     (case fm_find (client_map m) (ni_client_id info) of
        None \<Rightarrow> None
      | Some c \<Rightarrow> Client_FindNode c info)"

text \<open>A change of the node behind the pointer \<open>FindNode\<close> returned.\<close>

definition Master_UpdateNode :: "node_info \<Rightarrow> (node \<Rightarrow> node) \<Rightarrow> master \<Rightarrow> master" where
  "Master_UpdateNode info f m =
     (case fm_find (client_map m) (ni_client_id info) of
        None \<Rightarrow> m
      | Some c \<Rightarrow>
          m\<lparr>client_map :=
              fm_insert_or_assign (ni_client_id info) (Client_UpdateNode info f c) (client_map m)\<rparr>)"

primrec find_nodes_until :: "node_filter \<Rightarrow> (u32, client) flat_map \<Rightarrow> node list" where
  "find_nodes_until f [] = []"
| "find_nodes_until f (e # es) =
     (let tmp_nodes = Client_FindNodes (snd e) f in
      if length tmp_nodes > 0 then tmp_nodes else find_nodes_until f es)"

primrec find_nodes_all :: "node_filter \<Rightarrow> (u32, client) flat_map \<Rightarrow> node list" where
  "find_nodes_all f [] = []"
| "find_nodes_all f (e # es) = Client_FindNodes (snd e) f @ find_nodes_all f es"

definition Master_FindNodes :: "master \<Rightarrow> node_filter \<Rightarrow> node list" where
  "Master_FindNodes m f =
     (if nf_publishing_topic f \<noteq> [] \<or> nf_serving_service f \<noteq> []
      then find_nodes_until f (client_map m)
      else find_nodes_all f (client_map m))"

text \<open>
  \<open>FindTopicInfos\<close> and \<open>FindServiceInfos\<close> insert the entries of each client in front of those
  found before; with a name in the filter they return at the first client that has any.
\<close>

primrec infos_until :: "(client \<Rightarrow> 'i list) \<Rightarrow> (u32, client) flat_map \<Rightarrow> 'i list \<Rightarrow> 'i list" where
  "infos_until get [] acc = acc"
| "infos_until get (e # es) acc =
     (let acc' = get (snd e) @ acc in
      if length acc' > 0 then acc' else infos_until get es acc')"

primrec infos_all :: "(client \<Rightarrow> 'i list) \<Rightarrow> (u32, client) flat_map \<Rightarrow> 'i list \<Rightarrow> 'i list" where
  "infos_all get [] acc = acc"
| "infos_all get (e # es) acc = infos_all get es (get (snd e) @ acc)"

definition Master_FindTopicInfos :: "master \<Rightarrow> topic_filter \<Rightarrow> topic_info list" where
  "Master_FindTopicInfos m f =
     (if tf_topic f \<noteq> []
      then infos_until (\<lambda>c. Client_FindTopicInfos c f) (client_map m) []
      else infos_all (\<lambda>c. Client_FindTopicInfos c f) (client_map m) [])"

definition Master_FindServiceInfos :: "master \<Rightarrow> service_filter \<Rightarrow> service_info list" where
  "Master_FindServiceInfos m f =
     (if sf_service f \<noteq> []
      then infos_until (\<lambda>c. Client_FindServiceInfos c f) (client_map m) []
      else infos_all (\<lambda>c. Client_FindServiceInfos c f) (client_map m) [])"

definition CheckIfClientExists :: "master \<Rightarrow> u32 \<Rightarrow> bool" where
  "CheckIfClientExists m cid \<longleftrightarrow> fm_find (client_map m) cid \<noteq> None"

definition CheckIfNodeExists :: "master \<Rightarrow> node_info \<Rightarrow> bool" where
  "CheckIfNodeExists m info =
     (case fm_find (client_map m) (ni_client_id info) of
        None \<Rightarrow> False
      | Some c \<Rightarrow> Client_HasNode c info)"

section \<open>Notifications\<close>

text \<open>What the code checks of a source before it connects to its first channel.\<close>

fun one_tcp :: "channel_def list \<Rightarrow> bool" where
  "one_tcp [d] \<longleftrightarrow> cd_type d = CHANNEL_TYPE_TCP"
| "one_tcp _ \<longleftrightarrow> False"

text \<open>
  \<open>DoNotifyClient\<close> connects to the watcher channel of the client of a node; a client that is
  gone is skipped.  That the source of the client is exactly one TCP channel is checked by the code
  only; \<open>RegisterClient\<close> accepts every valid source.
\<close>

definition DoNotifyClient :: "node_info \<Rightarrow> master_notification \<Rightarrow> master \<Rightarrow> master" where
  "DoNotifyClient info note m =
     (case fm_find (client_map m) (ni_client_id info) of
        None \<Rightarrow> m
      | Some c \<Rightarrow>
          let ds = channel_defs (master_notification_watcher_source (client_info c)) in
          if one_tcp ds then emit (Connect (hd ds) note) (m\<lparr>connecting := connecting m @ [note]\<rparr>)
          else undefined_behaviour m)"

definition OnConnetToMasterNotificationWatcher ::
    "master_notification \<Rightarrow> status \<Rightarrow> master \<Rightarrow> master" where
  "OnConnetToMasterNotificationWatcher note s m =
     (let m' = m\<lparr>connecting := remove1 note (connecting m)\<rparr> in
      if Status_ok s then emit (SendNotification note) m' else m')"

definition NotifySubscriber :: "string \<Rightarrow> node_info \<Rightarrow> master \<Rightarrow> master" where
  "NotifySubscriber topic subscribing_node_info m =
     (case Master_FindNodes m (empty_node_filter\<lparr>nf_publishing_topic := topic\<rparr>) of
        [] \<Rightarrow> m
      | publishing_node # _ \<Rightarrow>
          (case GetTopicInfo publishing_node topic of
             None \<Rightarrow> undefined_behaviour m
           | Some t \<Rightarrow> DoNotifyClient subscribing_node_info (TopicNotification t) m))"

definition topic_audience :: "master \<Rightarrow> string \<Rightarrow> node list" where
  "topic_audience m topic =
     Master_FindNodes m (empty_node_filter\<lparr>nf_subscribing_topic := topic\<rparr>) @
     Master_FindNodes m (empty_node_filter\<lparr>nf_watcher := True\<rparr>)"

definition NotifyAllSubscribers :: "topic_info \<Rightarrow> master \<Rightarrow> master" where
  "NotifyAllSubscribers t m =
     fold (\<lambda>n. DoNotifyClient (node_info n) (TopicNotification t)) (topic_audience m (ti_topic t)) m"

definition NotifyAllSubscribers_all :: "topic_info list \<Rightarrow> master \<Rightarrow> master" where
  "NotifyAllSubscribers_all ts m = fold NotifyAllSubscribers ts m"

definition NotifyServiceClient :: "string \<Rightarrow> node_info \<Rightarrow> master \<Rightarrow> master" where
  "NotifyServiceClient service client_node_info m =
     (case Master_FindNodes m (empty_node_filter\<lparr>nf_serving_service := service\<rparr>) of
        [] \<Rightarrow> m
      | server_node # _ \<Rightarrow>
          (case GetServiceInfo server_node service of
             None \<Rightarrow> undefined_behaviour m
           | Some s \<Rightarrow> DoNotifyClient client_node_info (ServiceNotification s) m))"

definition NotifyAllServiceClients :: "service_info \<Rightarrow> master \<Rightarrow> master" where
  "NotifyAllServiceClients s m =
     fold (\<lambda>n. DoNotifyClient (node_info n) (ServiceNotification s))
       (Master_FindNodes m (empty_node_filter\<lparr>nf_requesting_service := si_service s\<rparr>)) m"

definition NotifyAllServiceClients_all :: "service_info list \<Rightarrow> master \<Rightarrow> master" where
  "NotifyAllServiceClients_all ss m = fold NotifyAllServiceClients ss m"

definition NotifyWatcher :: "master \<Rightarrow> master" where
  "NotifyWatcher m =
     (let watcher_nodes = Master_FindNodes m (empty_node_filter\<lparr>nf_watcher := True\<rparr>);
          topic_infos = Master_FindTopicInfos m all_topics in
      case watcher_nodes of
        [] \<Rightarrow> m
      | w # _ \<Rightarrow> fold (\<lambda>t. DoNotifyClient (node_info w) (TopicNotification t)) topic_infos m)"

end
