(* ===== verification/Felicia_RosMasterProxy.thy ===== *)
theory Felicia_RosMasterProxy
  imports Felicia_Master
begin

text \<open>
  \<open>felicia::RosMasterProxy\<close> (\<open>core/master/ros_master_proxy.cc\<close>): the calls that mirror ROS topics
  and services at a ROS master.  The ROS libraries are not part of the repository; what they
  answer is the record \<open>ros_env\<close>, and every answer may depend on the log of earlier effects:
  \<open>ros_execute\<close> is the boolean of \<open>ros::master::execute\<close>, \<open>publisher_uris\<close> the payload of a
  successful \<open>registerSubscriber\<close>, \<open>service_uri\<close> that of \<open>lookupService\<close>, and \<open>request_topic\<close> the
  answer of a publisher to \<open>requestTopic\<close>.
\<close>

datatype topic_answer =
    ExecuteFailed
  | InvalidResponse
  | NoProtocol
  | Protocol string string int

record ros_env =
  this_node_name :: string
  server_uri :: string
  ros_execute :: "effect list \<Rightarrow> ros_request \<Rightarrow> bool"
  publisher_uris :: "effect list \<Rightarrow> string \<Rightarrow> string list"
  service_uri :: "effect list \<Rightarrow> string \<Rightarrow> string"
  request_topic :: "effect list \<Rightarrow> string \<Rightarrow> u32 \<Rightarrow> string \<Rightarrow> topic_answer"
  splitURI :: "string \<Rightarrow> (string \<times> u32) option"

section \<open>Calls\<close>

definition FailedToExecute :: "string \<Rightarrow> status" where
  "FailedToExecute method = Unavailable (''Failed to execute '' @ method @ ''.'')"

text \<open>\<open>Execute\<close>: the call is logged; the status tells whether the ROS master accepted it.\<close>

definition Execute :: "ros_env \<Rightarrow> string \<Rightarrow> ros_request \<Rightarrow> master \<Rightarrow> status \<times> master" where
  "Execute env method req m =
     ((if ros_execute env (effects m) req then Status_OK else FailedToExecute method),
      emit (RosCall req) m)"

fun digit_string :: "nat \<Rightarrow> string" where
  "digit_string n =
     (if n < 10 then [char_of (48 + n)] else digit_string (n div 10) @ [char_of (48 + n mod 10)])"

declare digit_string.simps [simp del]

definition kRosRpcProtocol :: string where "kRosRpcProtocol = ''rosrpc://''"

definition AttachRosRpcProtocol :: "string \<Rightarrow> u16 \<Rightarrow> string" where
  "AttachRosRpcProtocol host p = kRosRpcProtocol @ host @ '':'' @ digit_string (unat p)"

definition RegisterPublisher :: "ros_env \<Rightarrow> string \<Rightarrow> string \<Rightarrow> master \<Rightarrow> status \<times> master" where
  "RegisterPublisher env topic topic_type =
     Execute env ''registerPublisher'' (RosRegisterPublisher topic topic_type)"

definition UnregisterPublisher :: "ros_env \<Rightarrow> string \<Rightarrow> master \<Rightarrow> status \<times> master" where
  "UnregisterPublisher env topic =
     Execute env ''unregisterPublisher'' (RosUnregisterPublisher topic)"

definition UnregisterSubscriber :: "ros_env \<Rightarrow> string \<Rightarrow> master \<Rightarrow> status \<times> master" where
  "UnregisterSubscriber env topic =
     Execute env ''unregisterSubscriber'' (RosUnregisterSubscriber topic)"

definition RegisterService :: "ros_env \<Rightarrow> string \<Rightarrow> ip_endpoint \<Rightarrow> master \<Rightarrow> status \<times> master" where
  "RegisterService env service e =
     Execute env ''registerService''
       (RosRegisterService service (AttachRosRpcProtocol (ip e) (ucast (port e))))"

definition UnregisterService :: "ros_env \<Rightarrow> string \<Rightarrow> ip_endpoint \<Rightarrow> master \<Rightarrow> status \<times> master" where
  "UnregisterService env service e =
     Execute env ''unregisterService''
       (RosUnregisterService service (AttachRosRpcProtocol (ip e) (ucast (port e))))"

definition LookupService ::
    "ros_env \<Rightarrow> string \<Rightarrow> master \<Rightarrow> (status \<times> ip_endpoint) \<times> master" where
  "LookupService env service m =
     (let log = effects m; (s, m') = Execute env ''lookupService'' (RosLookupService service) m in
      if \<not> Status_ok s then ((s, default_ip_endpoint), m')
      else let srv_uri = service_uri env log service in
        case splitURI env srv_uri of
          None \<Rightarrow> ((InvalidArgument (''Invalid ros rpc URI: '' @ srv_uri @ ''.''),
                    default_ip_endpoint), m')
        | Some (host, p) \<Rightarrow>
            ((Status_OK, \<lparr>ip = host, port = ucast (ucast p :: u16)\<rparr>), m'))"

section \<open>Publisher updates\<close>

definition ros_topic_info :: "string \<Rightarrow> topic_info" where
  "ros_topic_info topic = \<lparr>ti_topic = AttachRosProtocol topic, ti_type_name = [],
     ti_impl_type = PROTOBUF, topic_source = \<lparr>channel_defs = []\<rparr>, ti_status = REGISTERED,
     ti_ros_node_name = []\<rparr>"

definition RequestTopic :: "ros_env \<Rightarrow> string \<Rightarrow> string \<Rightarrow> master \<Rightarrow> status \<times> master" where
  "RequestTopic env pub_uri topic m =
     (case splitURI env pub_uri of
        None \<Rightarrow> (InvalidArgument (''Invalid XMLRPC URI: '' @ pub_uri @ ''.''), m)
      | Some (peer_host, peer_port) \<Rightarrow>
          let m' = emit (RosCall (RosRequestTopic peer_host peer_port topic)) m in
          case request_topic env (effects m) peer_host peer_port topic of
            ExecuteFailed \<Rightarrow> (FailedToExecute ''requestTopic'', m')
          | InvalidResponse \<Rightarrow>
              (InvalidArgument (''Invalid response for method: '' @ ''requestTopic'' @ ''.''), m')
          | NoProtocol \<Rightarrow>
              (Aborted (''No available protocol for topic: '' @ topic @ ''.''), m')
          | Protocol protocol pub_host pub_port \<Rightarrow>
              if protocol = ''TCPROS'' then
                (let d = default_channel_def\<lparr>cd_type := CHANNEL_TYPE_TCP,
                           cd_ip_endpoint := Some \<lparr>ip = pub_host, port = word_of_int pub_port\<rparr>\<rparr>;
                     t = (ros_topic_info topic)\<lparr>topic_source := \<lparr>channel_defs = [d]\<rparr>,
                           ti_ros_node_name := this_node_name env\<rparr> in
                 (Status_OK, NotifyAllSubscribers t m'))
              else if protocol = ''UDPROS'' then
                (make_error UNIMPLEMENTED
                   (''Not Implemented for UDPROS for topic: '' @ topic @ ''.''), m')
              else (Aborted (''Unknown protocol '' @ protocol @ '' for topic: '' @ topic @ ''.''), m'))"

text \<open>The loop over the publishers stops at the first that answers.\<close>

primrec request_loop :: "ros_env \<Rightarrow> string \<Rightarrow> string list \<Rightarrow> master \<Rightarrow> status \<times> master" where
  "request_loop env topic [] m = (Status_OK, m)"
| "request_loop env topic (u # us) m =
     (let (s, m') = RequestTopic env u topic m in
      if Status_ok s then (s, m') else request_loop env topic us m')"

definition PubUpdate :: "ros_env \<Rightarrow> string \<Rightarrow> string list \<Rightarrow> master \<Rightarrow> status \<times> master" where
  "PubUpdate env topic pub_uris m =
     (if length pub_uris = 0 then
        (Status_OK, NotifyAllSubscribers (unregistered_topic (ros_topic_info topic)) m)
      else request_loop env topic pub_uris m)"

definition RegisterSubscriber ::
    "ros_env \<Rightarrow> string \<Rightarrow> string \<Rightarrow> master \<Rightarrow> status \<times> master" where
  "RegisterSubscriber env topic topic_type m =
     (let log = effects m;
          (s, m') = Execute env ''registerSubscriber'' (RosRegisterSubscriber topic topic_type) m in
      if \<not> Status_ok s then (s, m')
      else PubUpdate env topic (filter (\<lambda>u. u \<noteq> server_uri env) (publisher_uris env log topic)) m')"

text \<open>
  \<open>RequestTopicCallback\<close>: a ROS subscriber asks for the address of a topic; the answer is the
  first TCP channel of the first topic the master finds, provided TCPROS is offered.
\<close>

primrec first_tcp :: "channel_def list \<Rightarrow> channel_def option" where
  "first_tcp [] = None"
| "first_tcp (d # ds) = (if cd_type d = CHANNEL_TYPE_TCP then Some d else first_tcp ds)"

primrec RequestTopicCallback_loop ::
    "master \<Rightarrow> string \<Rightarrow> string list \<Rightarrow> (string \<times> int) option" where
  "RequestTopicCallback_loop m topic [] = None"
| "RequestTopicCallback_loop m topic (protocol # protocols) =
     (if protocol = ''TCPROS'' then
        (case Master_FindTopicInfos m \<lparr>tf_all = False, tf_topic = AttachRosProtocol topic\<rparr> of
           [] \<Rightarrow> RequestTopicCallback_loop m topic protocols
         | t # _ \<Rightarrow>
             (case first_tcp (channel_defs (topic_source t)) of
                None \<Rightarrow> None
              | Some d \<Rightarrow> Some (ip (ip_of d), int (unat (port (ip_of d))))))
      else RequestTopicCallback_loop m topic protocols)"

definition RequestTopicCallback ::
    "master \<Rightarrow> string \<Rightarrow> string list \<Rightarrow> string + (string \<times> int)" where
  "RequestTopicCallback m topic protocols =
     (case RequestTopicCallback_loop m topic protocols of
        None \<Rightarrow> Inl (''No available protocol for topic: '' @ topic @ ''.'')
      | Some a \<Rightarrow> Inr a)"

end
