(* ===== verification/Felicia_MasterOps.thy ===== *)
theory Felicia_MasterOps
  imports Felicia_RosMasterProxy
begin

text \<open>
  The operations of \<open>felicia::Master\<close> that change its state: adding and removing clients and
  nodes, the \<open>Do...\<close> tasks that run on the master thread, and the RPC methods that check a
  request and post the task.  \<open>HAS_ROS\<close> is a build flag; both builds are modelled by the field
  \<open>has_ros\<close> of the environment.
\<close>

record master_env =
  net :: net_env
  ros :: ros_env
  has_ros :: bool
  debug_string :: "channel_source \<Rightarrow> string"

text \<open>The name a ROS build strips the ROS prefix from; a build without ROS never looks.\<close>

definition ros_name :: "master_env \<Rightarrow> string \<Rightarrow> string option" where
  "ros_name env text = (if has_ros env then ConsumeRosProtocol text else None)"

section \<open>Clients and nodes\<close>

definition AddClient :: "u32 \<Rightarrow> client \<Rightarrow> master \<Rightarrow> master" where
  "AddClient cid c m =
     (let m' = m\<lparr>client_map := fm_insert_or_assign cid c (client_map m)\<rparr> in
      case fm_find (client_map m) cid of
        None \<Rightarrow> m'
      | Some old \<Rightarrow>
          (case destroy_client old (ids m) (names m) of
             None \<Rightarrow> undefined_behaviour m'
           | Some (ids', names') \<Rightarrow> m'\<lparr>ids := ids', names := names'\<rparr>))"

text \<open>Where the service map entry has no channel, \<open>channel_defs(0)\<close> is undefined.\<close>

definition ros_unregister_service :: "ros_env \<Rightarrow> string \<Rightarrow> service_info \<Rightarrow> master \<Rightarrow> master" where
  "ros_unregister_service env service s m =
     (case channel_defs (service_source s) of
        [] \<Rightarrow> undefined_behaviour m
      | d # _ \<Rightarrow> snd (UnregisterService env service (ip_of d) m))"

definition UnregisterRosTopicsAndServices ::
    "master_env \<Rightarrow> topic_info list \<Rightarrow> string list \<Rightarrow> service_info list \<Rightarrow> master \<Rightarrow> master" where
  "UnregisterRosTopicsAndServices env pubs subs srvs m =
     (let m1 = fold (\<lambda>t m. case ros_name env (ti_topic t) of
                 None \<Rightarrow> m | Some r \<Rightarrow> snd (UnregisterPublisher (ros env) r m)) pubs m;
          m2 = fold (\<lambda>t m. case ros_name env t of
                 None \<Rightarrow> m | Some r \<Rightarrow> snd (UnregisterSubscriber (ros env) r m)) subs m1 in
      fold (\<lambda>s m. case ros_name env (si_service s) of
              None \<Rightarrow> m | Some r \<Rightarrow> ros_unregister_service (ros env) r s m) srvs m2)"

text \<open>The part \<open>RemoveClient\<close> and \<open>RemoveNode\<close> share: what is told after the removal.\<close>

definition announce_removed ::
    "master_env \<Rightarrow> topic_info list \<Rightarrow> string list \<Rightarrow> service_info list \<Rightarrow> master \<Rightarrow> master" where
  "announce_removed env pubs subs srvs m =
     (let pubs' = map (\<lambda>t. unregistered_topic t) pubs;
          srvs' = map (\<lambda>s. unregistered_service s) srvs;
          m1 = NotifyAllSubscribers_all pubs' m;
          m2 = NotifyAllServiceClients_all srvs' m1 in
      if has_ros env then UnregisterRosTopicsAndServices env pubs' subs srvs' m2 else m2)"

definition RemoveClient :: "master_env \<Rightarrow> client_info \<Rightarrow> master \<Rightarrow> master" where
  "RemoveClient env info m =
     (case fm_find (client_map m) (ci_id info) of
        None \<Rightarrow> undefined_behaviour m
      | Some c \<Rightarrow>
          (case destroy_client c (ids m) (names m) of
             None \<Rightarrow> undefined_behaviour m
           | Some (ids', names') \<Rightarrow>
               announce_removed env (Client_FindTopicInfos c all_topics)
                 (Client_FindAllSubscribingTopics c) (Client_FindServiceInfos c all_services)
                 (m\<lparr>client_map := fm_erase (ci_id info) (client_map m),
                    ids := ids', names := names'\<rparr>)))"

text \<open>\<open>AddNode\<close>: a node whose client is gone is destroyed when the call returns.\<close>

definition AddNode :: "node \<Rightarrow> master \<Rightarrow> master" where
  "AddNode n m =
     (let id = ni_client_id (node_info n) in
      case fm_find (client_map m) id of
        Some c \<Rightarrow> m\<lparr>client_map := fm_insert_or_assign id (Client_AddNode n c) (client_map m)\<rparr>
      | None \<Rightarrow>
          (case destroy_nodes [n] (names m) of
             None \<Rightarrow> undefined_behaviour m
           | Some names' \<Rightarrow> m\<lparr>names := names'\<rparr>))"

definition RemoveNode :: "master_env \<Rightarrow> node_info \<Rightarrow> master \<Rightarrow> master" where
  "RemoveNode env info m =
     (let id = ni_client_id info in
      case fm_find (client_map m) id of
        None \<Rightarrow> announce_removed env [] [] [] m
      | Some c \<Rightarrow>
          (case Client_RemoveNode info c (names m) of
             None \<Rightarrow> undefined_behaviour m
           | Some (c', names') \<Rightarrow>
               let m' = m\<lparr>client_map := fm_insert_or_assign id c' (client_map m), names := names'\<rparr> in
               case Client_FindNode c info of
                 None \<Rightarrow> announce_removed env [] [] [] m'
               | Some n \<Rightarrow>
                   announce_removed env (AllPublishingTopicInfos n) (AllSubscribingTopics n)
                     (AllServingServiceInfos n) m'))"

text \<open>The listener starts at once; \<open>StartCheckHeartBeat\<close> checks that the source of the signaller is one TCP channel.\<close>

definition DoCheckHeartBeat :: "client_info \<Rightarrow> master \<Rightarrow> master" where
  "DoCheckHeartBeat info m =
     (if \<not> check_heart_beat m then m
      else let m' = m\<lparr>listeners := listeners m @ [info]\<rparr> in
        if one_tcp (channel_defs (heart_beat_signaller_source info)) then m' else undefined_behaviour m')"

section \<open>Tasks of the master thread\<close>

definition DoRegisterClient :: "client \<Rightarrow> nat \<Rightarrow> master \<Rightarrow> master" where
  "DoRegisterClient c callback m =
     DoCheckHeartBeat (client_info c)
       (emit (Reply callback Status_OK) (AddClient (ci_id (client_info c)) c m))"

definition DoRegisterNode :: "node \<Rightarrow> nat \<Rightarrow> master \<Rightarrow> master" where
  "DoRegisterNode n callback m =
     (let is_watcher = ni_watcher (node_info n);
          m' = emit (Reply callback Status_OK) (AddNode n m) in
      if is_watcher then NotifyWatcher m' else m')"

definition DoUnregisterNode :: "master_env \<Rightarrow> node_info \<Rightarrow> nat \<Rightarrow> master \<Rightarrow> master" where
  "DoUnregisterNode env info callback m =
     emit (Reply callback Status_OK) (RemoveNode env info m)"

definition DoListNodes :: "node_filter \<Rightarrow> nat \<Rightarrow> master \<Rightarrow> master" where
  "DoListNodes f callback m =
     (let found = Master_FindNodes m f;
          res = (if nf_name f \<noteq> [] then
                   (case found of
                      [] \<Rightarrow> ListNodesResponse [] [] []
                    | n # _ \<Rightarrow> ListNodesResponse [] (map ti_topic (AllPublishingTopicInfos n))
                                (AllSubscribingTopics n))
                 else ListNodesResponse (map node_info found) [] []) in
      emit (Reply callback Status_OK) (emit (Result callback res) m))"

definition has_tcp_channel :: "topic_info \<Rightarrow> bool" where
  "has_tcp_channel t \<longleftrightarrow>
     List.find (\<lambda>d. cd_type d = CHANNEL_TYPE_TCP) (channel_defs (topic_source t)) \<noteq> None"

definition run_callback :: "nat \<Rightarrow> status \<times> master \<Rightarrow> master" where
  "run_callback callback sm = emit (Reply callback (fst sm)) (snd sm)"

definition DoPublishTopic ::
    "master_env \<Rightarrow> node_info \<Rightarrow> topic_info \<Rightarrow> nat \<Rightarrow> master \<Rightarrow> master" where
  "DoPublishTopic env info t callback m =
     (if length (Master_FindNodes m (empty_node_filter\<lparr>nf_publishing_topic := ti_topic t\<rparr>)) > 0
      then emit (Reply callback (TopicAlreadyPublishingOnNode info t)) m
      else case Master_FindNode m info of
        None \<Rightarrow> emit (Reply callback (FailedToPublishTopic t)) m
      | Some _ \<Rightarrow>
          let m' = Master_UpdateNode info (RegisterPublishingTopic t) m in
          (case ros_name env (ti_topic t) of
             Some ros_topic \<Rightarrow>
               if \<not> has_tcp_channel t then
                 emit (Reply callback
                   (Aborted ''You should set CHANNEL_TYPE_TCP on to publish ROS topic.'')) m'
               else run_callback callback
                      (RegisterPublisher (ros env) ros_topic (ti_type_name t) m')
           | None \<Rightarrow> NotifyAllSubscribers t (emit (Reply callback Status_OK) m')))"

definition DoUnpublishTopic ::
    "master_env \<Rightarrow> node_info \<Rightarrow> string \<Rightarrow> nat \<Rightarrow> master \<Rightarrow> master" where
  "DoUnpublishTopic env info topic callback m =
     (case Master_FindNode m info of
        None \<Rightarrow> emit (Reply callback (FailedToUnpublishTopic topic)) m
      | Some n \<Rightarrow>
          if \<not> IsPublishingTopic n topic
          then emit (Reply callback (TopicNotPublishingOnNode info topic)) m
          else (case (GetTopicInfo n topic, UnregisterPublishingTopic topic n) of
            (Some t, Some n') \<Rightarrow>
              let m' = Master_UpdateNode info (\<lambda>_. n') m in
              (case ros_name env (ti_topic t) of
                 Some ros_topic \<Rightarrow>
                   run_callback callback (UnregisterPublisher (ros env) ros_topic m')
               | None \<Rightarrow>
                   NotifyAllSubscribers (unregistered_topic t)
                     (emit (Reply callback Status_OK) m'))
          | _ \<Rightarrow> undefined_behaviour m))"

definition DoSubscribeTopic ::
    "master_env \<Rightarrow> node_info \<Rightarrow> string \<Rightarrow> string \<Rightarrow> nat \<Rightarrow> master \<Rightarrow> master" where
  "DoSubscribeTopic env info topic topic_type callback m =
     (case Master_FindNode m info of
        None \<Rightarrow> emit (Reply callback (FailedToSubscribeTopic topic)) m
      | Some n \<Rightarrow>
          if IsSubsribingTopic n topic
          then emit (Reply callback (TopicAlreadySubscribingOnNode info topic)) m
          else let m' = Master_UpdateNode info (RegisterSubscribingTopic topic) m in
            (case ros_name env topic of
               Some ros_topic \<Rightarrow>
                 run_callback callback (RegisterSubscriber (ros env) ros_topic topic_type m')
             | None \<Rightarrow> NotifySubscriber topic info (emit (Reply callback Status_OK) m')))"

definition DoUnsubscribeTopic ::
    "master_env \<Rightarrow> node_info \<Rightarrow> string \<Rightarrow> nat \<Rightarrow> master \<Rightarrow> master" where
  "DoUnsubscribeTopic env info topic callback m =
     (case Master_FindNode m info of
        None \<Rightarrow> emit (Reply callback (FailedToUnsubscribeTopic topic)) m
      | Some n \<Rightarrow>
          if IsSubsribingTopic n topic
          then let m' = Master_UpdateNode info (UnregisterSubscribingTopic topic) m in
            (case ros_name env topic of
               Some ros_topic \<Rightarrow>
                 run_callback callback (UnregisterSubscriber (ros env) ros_topic m')
             | None \<Rightarrow> emit (Reply callback Status_OK) m')
          else emit (Reply callback (TopicNotSubscribingOnNode info topic)) m)"

definition ros_service_info :: "string \<Rightarrow> ip_endpoint \<Rightarrow> service_info" where
  "ros_service_info service e = \<lparr>si_service = service, si_type_name = [],
     service_source = \<lparr>channel_defs =
       [default_channel_def\<lparr>cd_type := CHANNEL_TYPE_TCP, cd_ip_endpoint := Some e\<rparr>]\<rparr>,
     si_status = REGISTERED, si_ros_node_name = []\<rparr>"

definition DoRegisterServiceClient ::
    "master_env \<Rightarrow> node_info \<Rightarrow> string \<Rightarrow> nat \<Rightarrow> master \<Rightarrow> master" where
  "DoRegisterServiceClient env info service callback m =
     (case Master_FindNode m info of
        None \<Rightarrow> emit (Reply callback (FailedToRegisterServiceClient service)) m
      | Some n \<Rightarrow>
          if IsRequestingService n service
          then emit (Reply callback (ServiceAlreadyRequestingOnNode info service)) m
          else let m' = Master_UpdateNode info (RegisterRequestingService service) m in
            (case ros_name env service of
               Some ros_service \<Rightarrow>
                 (let ((s, e), m2) = LookupService (ros env) ros_service m';
                      m3 = emit (Reply callback s) m2 in
                  if Status_ok s
                  then DoNotifyClient info (ServiceNotification (ros_service_info service e)) m3
                  else m3)
             | None \<Rightarrow> NotifyServiceClient service info (emit (Reply callback Status_OK) m')))"

definition DoUnregisterServiceClient ::
    "node_info \<Rightarrow> string \<Rightarrow> nat \<Rightarrow> master \<Rightarrow> master" where
  "DoUnregisterServiceClient info service callback m =
     (case Master_FindNode m info of
        None \<Rightarrow> emit (Reply callback (FailedToUnregisterServiceClient service)) m
      | Some n \<Rightarrow>
          if IsRequestingService n service
          then emit (Reply callback Status_OK)
                 (Master_UpdateNode info (UnregisterRequestingService service) m)
          else emit (Reply callback (ServiceNotRequestingOnNode info service)) m)"

definition DoRegisterServiceServer ::
    "master_env \<Rightarrow> node_info \<Rightarrow> service_info \<Rightarrow> nat \<Rightarrow> master \<Rightarrow> master" where
  "DoRegisterServiceServer env info s callback m =
     (if length (Master_FindNodes m (empty_node_filter\<lparr>nf_serving_service := si_service s\<rparr>)) > 0
      then emit (Reply callback (ServiceAlreadyServingOnNode info s)) m
      else case Master_FindNode m info of
        None \<Rightarrow> emit (Reply callback (FailedToRegisterServiceServer s)) m
      | Some _ \<Rightarrow>
          let m' = Master_UpdateNode info (RegisterServingService s) m in
          (case ros_name env (si_service s) of
             Some ros_service \<Rightarrow>
               (case channel_defs (service_source s) of
                  [] \<Rightarrow> undefined_behaviour m'
                | d # _ \<Rightarrow>
                    run_callback callback (RegisterService (ros env) ros_service (ip_of d) m'))
           | None \<Rightarrow> NotifyAllServiceClients s (emit (Reply callback Status_OK) m')))"

definition DoUnregisterServiceServer ::
    "master_env \<Rightarrow> node_info \<Rightarrow> string \<Rightarrow> nat \<Rightarrow> master \<Rightarrow> master" where
  "DoUnregisterServiceServer env info service callback m =
     (case Master_FindNode m info of
        None \<Rightarrow> emit (Reply callback (FailedToUnregisterServiceServer service)) m
      | Some n \<Rightarrow>
          if \<not> IsServingService n service
          then emit (Reply callback (ServiceNotServingOnNode info service)) m
          else (case (GetServiceInfo n service, UnregisterServingService service n) of
            (Some s, Some n') \<Rightarrow>
              let m' = Master_UpdateNode info (\<lambda>_. n') m in
              (case ros_name env (si_service s) of
                 Some ros_service \<Rightarrow>
                   (case channel_defs (service_source s) of
                      [] \<Rightarrow> undefined_behaviour m'
                    | d # _ \<Rightarrow>
                        run_callback callback
                          (UnregisterService (ros env) ros_service (ip_of d) m'))
               | None \<Rightarrow>
                   NotifyAllServiceClients (unregistered_service s)
                     (emit (Reply callback Status_OK) m'))
          | _ \<Rightarrow> undefined_behaviour m))"

fun run_task :: "master_env \<Rightarrow> task \<Rightarrow> master \<Rightarrow> master" where
  "run_task env (TRegisterClient c cb) = DoRegisterClient c cb"
| "run_task env (TRegisterNode n cb) = DoRegisterNode n cb"
| "run_task env (TUnregisterNode info cb) = DoUnregisterNode env info cb"
| "run_task env (TListNodes f cb) = DoListNodes f cb"
| "run_task env (TPublishTopic info t cb) = DoPublishTopic env info t cb"
| "run_task env (TUnpublishTopic info t cb) = DoUnpublishTopic env info t cb"
| "run_task env (TSubscribeTopic info t ty cb) = DoSubscribeTopic env info t ty cb"
| "run_task env (TUnsubscribeTopic info t cb) = DoUnsubscribeTopic env info t cb"
| "run_task env (TRegisterServiceClient info s cb) = DoRegisterServiceClient env info s cb"
| "run_task env (TUnregisterServiceClient info s cb) = DoUnregisterServiceClient info s cb"
| "run_task env (TRegisterServiceServer info s cb) = DoRegisterServiceServer env info s cb"
| "run_task env (TUnregisterServiceServer info s cb) = DoUnregisterServiceServer env info s cb"
| "run_task env (TNotifyAllSubscribers t) = NotifyAllSubscribers t"

section \<open>RPC methods\<close>

text \<open>\<open>CHECK_CLIENT_EXISTS\<close> and \<open>CHECK_NODE_EXISTS\<close>: the status of the early return, if any.\<close>

definition CHECK_NODE_EXISTS :: "master \<Rightarrow> node_info \<Rightarrow> status option" where
  "CHECK_NODE_EXISTS m info =
     (if \<not> CheckIfClientExists m (ni_client_id info) then Some ClientNotRegistered
      else if \<not> CheckIfNodeExists m info then Some (NodeNotRegistered info)
      else None)"

definition with_node_check :: "node_info \<Rightarrow> nat \<Rightarrow> (master \<Rightarrow> master) \<Rightarrow> master \<Rightarrow> master" where
  "with_node_check info callback body m =
     (case CHECK_NODE_EXISTS m info of
        Some s \<Rightarrow> emit (Reply callback s) m
      | None \<Rightarrow> body m)"

definition Master_RegisterClient ::
    "master_env \<Rightarrow> (nat \<Rightarrow> u32) \<Rightarrow> client_info \<Rightarrow> nat \<Rightarrow> master \<Rightarrow> master" where
  "Master_RegisterClient env draw info callback m =
     (if check_heart_beat m \<and> \<not> IsValidChannelSource (net env) (heart_beat_signaller_source info)
      then emit (Reply callback (ChannelSourceNotValid (debug_string env) ''heart beat signaller''
             (heart_beat_signaller_source info))) m
      else if \<not> IsValidChannelSource (net env) (master_notification_watcher_source info)
      then emit (Reply callback (ChannelSourceNotValid (debug_string env)
             ''master_notification_watcher'' (master_notification_watcher_source info))) m
      else let (c, ids') = NewClient draw (ids m) info; m' = m\<lparr>ids := ids'\<rparr> in
        case c of
          None \<Rightarrow> undefined_behaviour (emit (Reply callback FailedToRegisterClient) m')
        | Some c \<Rightarrow>
            PostTask (TRegisterClient c callback)
              (emit (Result callback (RegisterClientResponse (ci_id (client_info c)))) m'))"

definition Master_ListClients :: "client_filter \<Rightarrow> nat \<Rightarrow> master \<Rightarrow> master" where
  "Master_ListClients f callback m =
     (let infos = map (client_info \<circ> snd) (client_map m);
          res = (if cf_all f then infos else first_match (\<lambda>i. ci_id i = cf_id f) infos) in
      emit (Reply callback Status_OK) (emit (Result callback (ListClientsResponse res)) m))"

definition Master_RegisterNode :: "(nat \<Rightarrow> string) \<Rightarrow> node_info \<Rightarrow> nat \<Rightarrow> master \<Rightarrow> master" where
  "Master_RegisterNode draw info callback m =
     (if \<not> CheckIfClientExists m (ni_client_id info)
      then emit (Reply callback ClientNotRegistered) m
      else if ni_watcher info \<and>
              length (Master_FindNodes m (empty_node_filter\<lparr>nf_watcher := True\<rparr>)) \<noteq> 0
      then emit (Reply callback WatcherNodeAlreadyRegistered) m
      else let (n, names') = NewNode draw (names m) info; m' = m\<lparr>names := names'\<rparr> in
        case n of
          None \<Rightarrow> emit (Reply callback (NodeAlreadyRegistered info)) m'
        | Some n \<Rightarrow>
            PostTask (TRegisterNode n callback)
              (emit (Result callback (RegisterNodeResponse (node_info n))) m'))"

definition Master_UnregisterNode :: "node_info \<Rightarrow> nat \<Rightarrow> master \<Rightarrow> master" where
  "Master_UnregisterNode info callback =
     with_node_check info callback (PostTask (TUnregisterNode info callback))"

definition Master_ListNodes :: "node_filter \<Rightarrow> nat \<Rightarrow> master \<Rightarrow> master" where
  "Master_ListNodes f callback = PostTask (TListNodes f callback)"

definition Master_PublishTopic ::
    "master_env \<Rightarrow> node_info \<Rightarrow> topic_info \<Rightarrow> nat \<Rightarrow> master \<Rightarrow> master" where
  "Master_PublishTopic env info t callback =
     with_node_check info callback
       (\<lambda>m. if \<not> IsValidChannelSource (net env) (topic_source t)
            then emit (Reply callback (ChannelSourceNotValid (debug_string env) ''topic source''
                   (topic_source t))) m
            else PostTask (TPublishTopic info t callback) m)"

definition Master_UnpublishTopic :: "node_info \<Rightarrow> string \<Rightarrow> nat \<Rightarrow> master \<Rightarrow> master" where
  "Master_UnpublishTopic info topic callback =
     with_node_check info callback (PostTask (TUnpublishTopic info topic callback))"

definition Master_SubscribeTopic ::
    "node_info \<Rightarrow> string \<Rightarrow> string \<Rightarrow> nat \<Rightarrow> master \<Rightarrow> master" where
  "Master_SubscribeTopic info topic topic_type callback =
     with_node_check info callback (PostTask (TSubscribeTopic info topic topic_type callback))"

definition Master_UnsubscribeTopic :: "node_info \<Rightarrow> string \<Rightarrow> nat \<Rightarrow> master \<Rightarrow> master" where
  "Master_UnsubscribeTopic info topic callback =
     with_node_check info callback (PostTask (TUnsubscribeTopic info topic callback))"

definition Master_ListTopics :: "topic_filter \<Rightarrow> nat \<Rightarrow> master \<Rightarrow> master" where
  "Master_ListTopics f callback m =
     emit (Reply callback Status_OK)
       (emit (Result callback (ListTopicsResponse (Master_FindTopicInfos m f))) m)"

definition Master_RegisterServiceClient :: "node_info \<Rightarrow> string \<Rightarrow> nat \<Rightarrow> master \<Rightarrow> master" where
  "Master_RegisterServiceClient info service callback =
     with_node_check info callback (PostTask (TRegisterServiceClient info service callback))"

definition Master_UnregisterServiceClient :: "node_info \<Rightarrow> string \<Rightarrow> nat \<Rightarrow> master \<Rightarrow> master" where
  "Master_UnregisterServiceClient info service callback =
     with_node_check info callback (PostTask (TUnregisterServiceClient info service callback))"

definition Master_RegisterServiceServer ::
    "master_env \<Rightarrow> node_info \<Rightarrow> service_info \<Rightarrow> nat \<Rightarrow> master \<Rightarrow> master" where
  "Master_RegisterServiceServer env info s callback =
     with_node_check info callback
       (\<lambda>m. if \<not> IsValidChannelSource (net env) (service_source s)
            then emit (Reply callback (ChannelSourceNotValid (debug_string env) ''service source''
                   (service_source s))) m
            else PostTask (TRegisterServiceServer info s callback) m)"

definition Master_UnregisterServiceServer :: "node_info \<Rightarrow> string \<Rightarrow> nat \<Rightarrow> master \<Rightarrow> master" where
  "Master_UnregisterServiceServer info service callback =
     with_node_check info callback (PostTask (TUnregisterServiceServer info service callback))"

definition Master_ListServices :: "service_filter \<Rightarrow> nat \<Rightarrow> master \<Rightarrow> master" where
  "Master_ListServices f callback m =
     emit (Reply callback Status_OK)
       (emit (Result callback (ListServicesResponse (Master_FindServiceInfos m f))) m)"

text \<open>
  \<open>PubUpdateCallback\<close> runs on the XML-RPC thread, where \<open>NotifyAllSubscribers\<close> posts itself to the
  master thread; the ROS answers it fetches are those of \<open>PubUpdate\<close>.  The notification with no
  publisher left is the one that needs no answer.
\<close>

definition NotifyAllSubscribers_posted :: "topic_info \<Rightarrow> master \<Rightarrow> master" where
  "NotifyAllSubscribers_posted t = PostTask (TNotifyAllSubscribers t)"

end
