(* ===== verification/Felicia_MasterInv.thy ===== *)
theory Felicia_MasterInv
  imports Felicia_MasterOps "HOL-Library.Multiset"
begin

text \<open>
  The invariant of the master's registry and the lemmas that carry it over the operations of
  \<open>Felicia_MasterOps\<close>: client ids and node names are unique, and in use in the generators, also
  those of clients and nodes whose registration task is still queued; every non-empty topic has
  at most one publisher and every non-empty service at most one server; every heart beat
  listener watches a client that exists.
\<close>

section \<open>Views of the state\<close>

definition all_nodes :: "master \<Rightarrow> node list" where
  "all_nodes m = concat (map (nodes \<circ> snd) (client_map m))"

fun task_nodes :: "task \<Rightarrow> node list" where
  "task_nodes (TRegisterNode n cb) = [n]"
| "task_nodes _ = []"

fun task_clients :: "task \<Rightarrow> client list" where
  "task_clients (TRegisterClient c cb) = [c]"
| "task_clients _ = []"

fun task_callbacks :: "task \<Rightarrow> nat list" where
  "task_callbacks (TRegisterClient c cb) = [cb]"
| "task_callbacks (TRegisterNode n cb) = [cb]"
| "task_callbacks (TUnregisterNode info cb) = [cb]"
| "task_callbacks (TListNodes f cb) = [cb]"
| "task_callbacks (TPublishTopic info t cb) = [cb]"
| "task_callbacks (TUnpublishTopic info t cb) = [cb]"
| "task_callbacks (TSubscribeTopic info t ty cb) = [cb]"
| "task_callbacks (TUnsubscribeTopic info t cb) = [cb]"
| "task_callbacks (TRegisterServiceClient info s cb) = [cb]"
| "task_callbacks (TUnregisterServiceClient info s cb) = [cb]"
| "task_callbacks (TRegisterServiceServer info s cb) = [cb]"
| "task_callbacks (TUnregisterServiceServer info s cb) = [cb]"
| "task_callbacks (TNotifyAllSubscribers t) = []"

definition pending_nodes :: "master \<Rightarrow> node list" where
  "pending_nodes m = concat (map task_nodes (tasks m))"

definition pending_clients :: "master \<Rightarrow> client list" where
  "pending_clients m = concat (map task_clients (tasks m))"

definition pending_callbacks :: "master \<Rightarrow> nat list" where
  "pending_callbacks m = concat (map task_callbacks (tasks m))"

fun reply_of :: "effect \<Rightarrow> nat list" where
  "reply_of (Reply cb s) = [cb]"
| "reply_of _ = []"

definition replies :: "master \<Rightarrow> nat list" where
  "replies m = concat (map reply_of (effects m))"

abbreviation "client_id c \<equiv> ci_id (client_info c)"
abbreviation "watcher_channels c \<equiv> channel_defs (master_notification_watcher_source (client_info c))"

definition client_tcp :: "client \<Rightarrow> bool" where
  "client_tcp c \<longleftrightarrow> one_tcp (watcher_channels c) \<and> one_tcp (channel_defs (heart_beat_signaller_source (client_info c)))"

section \<open>The invariant\<close>

definition services_reachable :: "node \<Rightarrow> bool" where
  "services_reachable n \<longleftrightarrow>
     (\<forall>(k, s) \<in> set (service_info_map n). channel_defs (service_source s) \<noteq> [])"

definition client_entry_ok :: "u32 \<times> client \<Rightarrow> bool" where
  "client_entry_ok e \<longleftrightarrow>
     client_id (snd e) = fst e \<and> watcher_channels (snd e) \<noteq> [] \<and>
     (\<forall>n \<in> set (nodes (snd e)).
        node_ok n \<and> services_reachable n \<and> ni_client_id (node_info n) = fst e)"

definition clients_ok :: "master \<Rightarrow> bool" where
  "clients_ok m \<longleftrightarrow> fm_ok (client_map m) \<and> (\<forall>e \<in> set (client_map m). client_entry_ok e)"

definition ids_ok :: "master \<Rightarrow> bool" where
  "ids_ok m \<longleftrightarrow>
     Generator_ok (ids m) \<and>
     distinct (map fst (client_map m) @ map client_id (pending_clients m)) \<and>
     set (map fst (client_map m) @ map client_id (pending_clients m)) \<subseteq> values_in_use (ids m) \<and>
     (\<forall>c \<in> set (pending_clients m). nodes c = [] \<and> watcher_channels c \<noteq> [])"

definition names_ok :: "master \<Rightarrow> bool" where
  "names_ok m \<longleftrightarrow>
     Generator_ok (names m) \<and>
     distinct (map name (all_nodes m @ pending_nodes m)) \<and>
     set (map name (all_nodes m @ pending_nodes m)) \<subseteq> values_in_use (names m) \<and>
     (\<forall>n \<in> set (pending_nodes m). n = new_Node (node_info n))"

definition single_publisher :: "master \<Rightarrow> bool" where
  "single_publisher m \<longleftrightarrow>
     (\<forall>t. t \<noteq> [] \<longrightarrow> length (filter (\<lambda>n. IsPublishingTopic n t) (all_nodes m)) \<le> 1)"

definition single_server :: "master \<Rightarrow> bool" where
  "single_server m \<longleftrightarrow>
     (\<forall>s. s \<noteq> [] \<longrightarrow> length (filter (\<lambda>n. IsServingService n s) (all_nodes m)) \<le> 1)"

definition listeners_ok :: "master \<Rightarrow> bool" where
  "listeners_ok m \<longleftrightarrow>
     distinct (map ci_id (listeners m)) \<and> ci_id ` set (listeners m) \<subseteq> fst ` set (client_map m)"

fun task_ok :: "task \<Rightarrow> bool" where
  "task_ok (TRegisterServiceServer info s cb) \<longleftrightarrow> channel_defs (service_source s) \<noteq> []"
| "task_ok _ \<longleftrightarrow> True"

definition registry_ok :: "master \<Rightarrow> bool" where
  "registry_ok m \<longleftrightarrow>
     clients_ok m \<and> ids_ok m \<and> names_ok m \<and> single_publisher m \<and> single_server m \<and>
     listeners_ok m \<and> (\<forall>t \<in> set (tasks m). task_ok t)"

definition callbacks_ok :: "master \<Rightarrow> bool" where
  "callbacks_ok m \<longleftrightarrow> mset (replies m @ pending_callbacks m) = mset [0..<next_callback m]"

section \<open>Steps that leave the registry alone\<close>

text \<open>Every client that is registered can be notified.\<close>

definition watchers_ok :: "master \<Rightarrow> bool" where
  "watchers_ok m \<longleftrightarrow> (\<forall>e \<in> set (client_map m). one_tcp (watcher_channels (snd e)))"

definition quiet :: "master \<Rightarrow> master \<Rightarrow> bool" where
  "quiet m m' \<longleftrightarrow>
     client_map m' = client_map m \<and> check_heart_beat m' = check_heart_beat m \<and>
     tasks m' = tasks m \<and> ids m' = ids m \<and> names m' = names m \<and> listeners m' = listeners m \<and>
     next_callback m' = next_callback m \<and> replies m' = replies m \<and>
     set (effects m) \<subseteq> set (effects m') \<and>
     (watchers_ok m \<longrightarrow> undef m' = undef m)"

lemma quiet_refl [simp, intro]: "quiet m m"
  by (simp add: quiet_def)

lemma quiet_trans: "quiet a b \<Longrightarrow> quiet b c \<Longrightarrow> quiet a c"
  by (auto simp: quiet_def watchers_ok_def)

lemma quiet_fold: "(\<And>x m. x \<in> set xs \<Longrightarrow> quiet m (f x m)) \<Longrightarrow> quiet m (fold f xs m)"
proof (induction xs arbitrary: m)
  case (Cons x xs)
  have "quiet m (f x m)" by (simp add: Cons.prems)
  moreover have "quiet (f x m) (fold f xs (f x m))" by (rule Cons.IH) (simp add: Cons.prems)
  ultimately show ?case by (simp add: quiet_trans)
qed simp

lemma quiet_emit: "reply_of e = [] \<Longrightarrow> quiet m (emit e m)"
  by (simp add: quiet_def emit_def replies_def watchers_ok_def subset_insertI)

lemma quiet_DoNotifyClient [intro]: "quiet m (DoNotifyClient info note m)"
proof (cases "fm_find (client_map m) (ni_client_id info)")
  case (Some c)
  then have "(ni_client_id info, c) \<in> set (client_map m)" by (rule fm_find_mem)
  then have "watchers_ok m \<longrightarrow> one_tcp (watcher_channels c)" by (force simp: watchers_ok_def)
  with Some show ?thesis
    by (auto simp: quiet_def DoNotifyClient_def emit_def replies_def undefined_behaviour_def Let_def)
qed (simp add: DoNotifyClient_def)

lemma quiet_NotifyAllSubscribers [intro]: "quiet m (NotifyAllSubscribers t m)"
  by (auto simp: NotifyAllSubscribers_def intro: quiet_fold)

lemma quiet_NotifyAllSubscribers_all [intro]: "quiet m (NotifyAllSubscribers_all ts m)"
  by (auto simp: NotifyAllSubscribers_all_def intro: quiet_fold)

lemma quiet_NotifyAllServiceClients [intro]: "quiet m (NotifyAllServiceClients s m)"
  by (auto simp: NotifyAllServiceClients_def intro: quiet_fold)

lemma quiet_NotifyAllServiceClients_all [intro]: "quiet m (NotifyAllServiceClients_all ss m)"
  by (auto simp: NotifyAllServiceClients_all_def intro: quiet_fold)

lemma quiet_NotifyWatcher [intro]: "quiet m (NotifyWatcher m)"
  by (auto simp: NotifyWatcher_def Let_def intro: quiet_fold split: list.splits)

lemma in_find_nodes_until:
  "n \<in> set (find_nodes_until f es) \<Longrightarrow> \<exists>e \<in> set es. n \<in> set (Client_FindNodes (snd e) f)"
  by (induction es) (auto simp: Let_def split: if_splits)

lemma in_find_nodes_all:
  "n \<in> set (find_nodes_all f es) \<longleftrightarrow> (\<exists>e \<in> set es. n \<in> set (Client_FindNodes (snd e) f))"
  by (induction es) auto

lemma in_all_nodes:
  "n \<in> set (all_nodes m) \<longleftrightarrow> (\<exists>e \<in> set (client_map m). n \<in> set (nodes (snd e)))"
  by (auto simp: all_nodes_def)

lemma find_publishing_mem:
  assumes "n \<in> set (Master_FindNodes m (empty_node_filter\<lparr>nf_publishing_topic := t\<rparr>))"
  shows "n \<in> set (all_nodes m)" and "IsPublishingTopic n t"
  using assms
  by (auto simp: Master_FindNodes_def Client_FindNodes_def empty_node_filter_def in_all_nodes
        in_find_nodes_all dest!: in_find_nodes_until in_first_match split: if_splits) force

lemma find_serving_mem:
  assumes "n \<in> set (Master_FindNodes m (empty_node_filter\<lparr>nf_serving_service := s\<rparr>))"
  shows "n \<in> set (all_nodes m)" and "IsServingService n s"
  using assms
  by (auto simp: Master_FindNodes_def Client_FindNodes_def empty_node_filter_def in_all_nodes
        in_find_nodes_all dest!: in_find_nodes_until split: if_splits) force

lemma quiet_NotifySubscriber [intro]: "quiet m (NotifySubscriber topic info m)"
proof (cases "Master_FindNodes m (empty_node_filter\<lparr>nf_publishing_topic := topic\<rparr>)")
  case (Cons n ns)
  then have "IsPublishingTopic n topic" by (intro find_publishing_mem(2) [of n m]) simp
  with Cons show ?thesis
    by (auto simp: NotifySubscriber_def GetTopicInfo_def IsPublishingTopic_def)
qed (simp add: NotifySubscriber_def)

lemma quiet_NotifyServiceClient [intro]: "quiet m (NotifyServiceClient service info m)"
proof (cases "Master_FindNodes m (empty_node_filter\<lparr>nf_serving_service := service\<rparr>)")
  case (Cons n ns)
  then have "IsServingService n service" by (intro find_serving_mem(2) [of n m]) simp
  with Cons show ?thesis
    by (auto simp: NotifyServiceClient_def GetServiceInfo_def IsServingService_def)
qed (simp add: NotifyServiceClient_def)

lemma quiet_Execute [intro]: "quiet m (snd (Execute env method req m))"
  by (simp add: Execute_def quiet_emit)

lemma quiet_ros_calls [intro]:
  "quiet m (snd (RegisterPublisher env a b m))" "quiet m (snd (UnregisterPublisher env a m))"
  "quiet m (snd (UnregisterSubscriber env a m))" "quiet m (snd (RegisterService env a e m))"
  "quiet m (snd (UnregisterService env a e m))"
  by (auto simp: RegisterPublisher_def UnregisterPublisher_def UnregisterSubscriber_def
        RegisterService_def UnregisterService_def)

lemma quiet_RequestTopic [intro]: "quiet m (snd (RequestTopic env u topic m))"
proof -
  have "quiet m (emit (RosCall r) m)" for r by (simp add: quiet_emit)
  then show ?thesis
    by (auto simp: RequestTopic_def Let_def intro: quiet_trans [OF _ quiet_NotifyAllSubscribers]
          split: option.splits topic_answer.splits)
qed

lemma quiet_request_loop [intro]: "quiet m (snd (request_loop env topic us m))"
proof (induction us arbitrary: m)
  case (Cons u us)
  have "quiet m (snd (RequestTopic env u topic m))" by blast
  with Cons show ?case by (auto simp: split_def Let_def intro: quiet_trans)
qed simp

lemma quiet_PubUpdate [intro]: "quiet m (snd (PubUpdate env topic us m))"
  by (auto simp: PubUpdate_def)

lemma quiet_RegisterSubscriber [intro]: "quiet m (snd (RegisterSubscriber env topic ty m))"
  by (auto simp: RegisterSubscriber_def split_def Let_def intro: quiet_trans [OF quiet_Execute])

lemma quiet_LookupService [intro]: "quiet m (snd (LookupService env service m))"
  by (auto simp: LookupService_def split_def Let_def split: option.splits)

text \<open>After a removal the announcements leave the registry alone.\<close>

lemma quiet_ros_unregister_service:
  "channel_defs (service_source s) \<noteq> [] \<Longrightarrow> quiet m (ros_unregister_service env r s m)"
  by (auto simp: ros_unregister_service_def split: list.splits)

lemma quiet_UnregisterRos:
  assumes "\<And>s. s \<in> set srvs \<Longrightarrow> channel_defs (service_source s) \<noteq> []"
  shows "quiet m (UnregisterRosTopicsAndServices env pubs subs srvs m)"
  unfolding UnregisterRosTopicsAndServices_def Let_def using assms
  by (intro quiet_trans [OF quiet_trans [OF quiet_fold quiet_fold] quiet_fold])
    (auto intro: quiet_ros_unregister_service split: option.splits)

lemma quiet_announce_removed:
  assumes "\<And>s. s \<in> set srvs \<Longrightarrow> channel_defs (service_source s) \<noteq> []"
  shows "quiet m (announce_removed env pubs subs srvs m)"
proof -
  have notified: "quiet m (NotifyAllServiceClients_all ss (NotifyAllSubscribers_all ts m))" for ss ts
    by (rule quiet_trans [OF quiet_NotifyAllSubscribers_all quiet_NotifyAllServiceClients_all])
  show ?thesis
    unfolding announce_removed_def Let_def using assms
    by (auto intro!: notified quiet_trans [OF notified quiet_UnregisterRos])
qed

lemma quiet_registry: "quiet m m' \<Longrightarrow> registry_ok m \<Longrightarrow> registry_ok m'"
  by (simp add: quiet_def registry_ok_def clients_ok_def ids_ok_def names_ok_def
      single_publisher_def single_server_def listeners_ok_def all_nodes_def pending_nodes_def
      pending_clients_def)

lemma quiet_callbacks: "quiet m m' \<Longrightarrow> callbacks_ok m \<Longrightarrow> callbacks_ok m'"
  by (simp add: quiet_def callbacks_ok_def pending_callbacks_def)

section \<open>Frame lemmas\<close>

lemmas registry_defs =
  registry_ok_def clients_ok_def ids_ok_def names_ok_def single_publisher_def single_server_def
  listeners_ok_def all_nodes_def pending_nodes_def pending_clients_def

lemma registry_frame [simp]:
  "registry_ok (emit e m) = registry_ok m"
  "registry_ok (m\<lparr>next_callback := k\<rparr>) = registry_ok m"
  "registry_ok (m\<lparr>connecting := ns\<rparr>) = registry_ok m"
  by (simp_all add: registry_defs emit_def)

lemma all_nodes_frame [simp]:
  "all_nodes (emit e m) = all_nodes m" "all_nodes (m\<lparr>tasks := ts\<rparr>) = all_nodes m"
  by (simp_all add: all_nodes_def emit_def)

lemma field_frame [simp]:
  "client_map (emit e m) = client_map m" "tasks (emit e m) = tasks m" "ids (emit e m) = ids m"
  "names (emit e m) = names m" "listeners (emit e m) = listeners m"
  "check_heart_beat (emit e m) = check_heart_beat m" "undef (emit e m) = undef m"
  "next_callback (emit e m) = next_callback m"
  by (simp_all add: emit_def)

lemma Master_FindNode_frame [simp]:
  "Master_FindNode (m\<lparr>tasks := ts\<rparr>) info = Master_FindNode m info"
  by (simp add: Master_FindNode_def)

text \<open>The registry depends on the queue only through the clients and nodes that wait in it.\<close>

lemma shrink_tail:
  assumes "set zs \<subseteq> set ys" "distinct (map f zs)"
    and "distinct (xs @ map f ys)" "set (xs @ map f ys) \<subseteq> A" "\<forall>y \<in> set ys. P y"
  shows "distinct (xs @ map f zs)" and "set (xs @ map f zs) \<subseteq> A" and "\<forall>z \<in> set zs. P z"
  using assms by (simp_all, blast+)

lemma registry_retask:
  assumes reg: "registry_ok m" and ok: "\<forall>t \<in> set ts. task_ok t"
    and clients: "set (concat (map task_clients ts)) \<subseteq> set (pending_clients m)"
      "distinct (map client_id (concat (map task_clients ts)))"
    and nodes: "set (concat (map task_nodes ts)) \<subseteq> set (pending_nodes m)"
      "distinct (map name (concat (map task_nodes ts)))"
  shows "registry_ok (m\<lparr>tasks := ts\<rparr>)"
proof -
  let ?m = "m\<lparr>tasks := ts\<rparr>"
  have pending: "pending_clients ?m = concat (map task_clients ts)"
    "pending_nodes ?m = concat (map task_nodes ts)"
    by (simp_all add: pending_clients_def pending_nodes_def)
  have ids: "distinct (map fst (client_map m) @ map client_id (pending_clients m))"
      "set (map fst (client_map m) @ map client_id (pending_clients m)) \<subseteq> values_in_use (ids m)"
      "\<forall>c \<in> set (pending_clients m). nodes c = [] \<and> watcher_channels c \<noteq> []"
    using reg unfolding registry_ok_def ids_ok_def by blast+
  have names: "distinct (map name (all_nodes m) @ map name (pending_nodes m))"
      "set (map name (all_nodes m) @ map name (pending_nodes m)) \<subseteq> values_in_use (names m)"
      "\<forall>n \<in> set (pending_nodes m). n = new_Node (node_info n)"
    using reg unfolding registry_ok_def names_ok_def map_append by blast+
  have "ids_ok ?m"
    using reg shrink_tail [OF clients ids] by (simp add: registry_ok_def ids_ok_def pending)
  moreover have "names_ok ?m"
    using reg shrink_tail [OF nodes names] by (simp add: registry_ok_def names_ok_def pending)
  moreover note reg ok
  ultimately show ?thesis
    by (simp add: registry_ok_def clients_ok_def single_publisher_def single_server_def
        listeners_ok_def)
qed

lemma registry_pop: "registry_ok m \<Longrightarrow> tasks m = t # ts \<Longrightarrow> registry_ok (m\<lparr>tasks := ts\<rparr>)"
  by (rule registry_retask)
    (simp_all add: registry_ok_def ids_ok_def names_ok_def pending_clients_def pending_nodes_def)

lemma registry_post:
  "registry_ok m \<Longrightarrow> task_ok t \<Longrightarrow> task_nodes t = [] \<Longrightarrow> task_clients t = [] \<Longrightarrow>
     registry_ok (PostTask t m)"
  unfolding PostTask_def
  by (rule registry_retask)
    (auto simp: registry_ok_def ids_ok_def names_ok_def pending_clients_def pending_nodes_def)

section \<open>Changing one node\<close>

lemma Master_FindNode_mem:
  assumes "Master_FindNode m info = Some n"
  shows "n \<in> set (all_nodes m)" and "name n = ni_name info"
  using assms fm_find_mem
  by (force simp: Master_FindNode_def in_all_nodes dest: Client_FindNode_Some split: option.splits)+

lemma Master_UpdateNode_split:
  assumes ok: "fm_ok (client_map m)" and find: "Master_FindNode m info = Some n"
  obtains us c ns ms vs where
    "client_map m = us @ (ni_client_id info, c) # vs" "nodes c = ns @ n # ms"
    "client_map (Master_UpdateNode info f m) =
       us @ (ni_client_id info, c\<lparr>nodes := ns @ f n # ms\<rparr>) # vs"
proof -
  obtain c where c: "fm_find (client_map m) (ni_client_id info) = Some c"
    and n: "List.find (NodeNameChecker info) (nodes c) = Some n"
    using find by (auto simp: Master_FindNode_def Client_FindNode_def split: option.splits)
  obtain us vs where split: "client_map m = us @ (ni_client_id info, c) # vs"
    "\<And>w. fm_insert_or_assign (ni_client_id info) w (client_map m) =
       us @ (ni_client_id info, w) # vs"
    using fm_assign_split [OF ok c] by blast
  obtain ns ms where "nodes c = ns @ n # ms"
    "map_first (NodeNameChecker info) f (nodes c) = ns @ f n # ms"
    using map_first_find [OF n, of f] by blast
  with that split c show thesis
    by (auto simp: Master_UpdateNode_def Client_UpdateNode_def)
qed

lemma Master_UpdateNode_frame [simp]:
  "tasks (Master_UpdateNode info f m) = tasks m"
  "ids (Master_UpdateNode info f m) = ids m"
  "names (Master_UpdateNode info f m) = names m"
  "listeners (Master_UpdateNode info f m) = listeners m"
  "effects (Master_UpdateNode info f m) = effects m"
  "undef (Master_UpdateNode info f m) = undef m"
  "next_callback (Master_UpdateNode info f m) = next_callback m"
  "check_heart_beat (Master_UpdateNode info f m) = check_heart_beat m"
  by (auto simp: Master_UpdateNode_def split: option.splits)

lemma all_nodes_UpdateNode:
  assumes "fm_ok (client_map m)" "Master_FindNode m info = Some n"
  obtains us vs where "all_nodes m = us @ n # vs"
    "all_nodes (Master_UpdateNode info f m) = us @ f n # vs"
proof -
  obtain us c ns ms vs where "client_map m = us @ (ni_client_id info, c) # vs"
    "nodes c = ns @ n # ms"
    "client_map (Master_UpdateNode info f m) =
       us @ (ni_client_id info, c\<lparr>nodes := ns @ f n # ms\<rparr>) # vs"
    using Master_UpdateNode_split [OF assms] by metis
  then show thesis
    by (intro that [of "concat (map (nodes \<circ> snd) us) @ ns" "ms @ concat (map (nodes \<circ> snd) vs)"])
      (auto simp: all_nodes_def)
qed

lemma single_replace:
  "length (filter P (us @ x # vs)) \<le> 1 \<Longrightarrow>
   (P y \<Longrightarrow> P x \<or> (\<forall>z \<in> set (us @ x # vs). \<not> P z)) \<Longrightarrow> length (filter P (us @ y # vs)) \<le> 1"
  by (auto split: if_splits simp: filter_empty_conv)

lemma UpdateNode_clients_ok:
  assumes ok: "clients_ok m" and find: "Master_FindNode m info = Some n"
    and new: "node_ok (f n)" "services_reachable (f n)" "node_info (f n) = node_info n"
  shows "clients_ok (Master_UpdateNode info f m)"
proof -
  obtain us c ns ms vs where split: "client_map m = us @ (ni_client_id info, c) # vs"
    "nodes c = ns @ n # ms"
    "client_map (Master_UpdateNode info f m) =
       us @ (ni_client_id info, c\<lparr>nodes := ns @ f n # ms\<rparr>) # vs"
    using Master_UpdateNode_split [OF _ find] ok by (metis clients_ok_def)
  with ok new show ?thesis
    by (simp add: clients_ok_def client_entry_ok_def fm_ok_def)
qed

lemma UpdateNode_registry:
  assumes reg: "registry_ok m" and find: "Master_FindNode m info = Some n"
    and new: "node_ok (f n)" "services_reachable (f n)" "node_info (f n) = node_info n"
    and pub: "\<And>t. t \<noteq> [] \<Longrightarrow> IsPublishingTopic (f n) t \<Longrightarrow>
        IsPublishingTopic n t \<or> (\<forall>x \<in> set (all_nodes m). \<not> IsPublishingTopic x t)"
    and srv: "\<And>s. s \<noteq> [] \<Longrightarrow> IsServingService (f n) s \<Longrightarrow>
        IsServingService n s \<or> (\<forall>x \<in> set (all_nodes m). \<not> IsServingService x s)"
  shows "registry_ok (Master_UpdateNode info f m)"
proof -
  let ?m = "Master_UpdateNode info f m"
  have ok: "clients_ok m" and fm: "fm_ok (client_map m)"
    using reg by (auto simp: registry_ok_def clients_ok_def)
  obtain us vs where nodes: "all_nodes m = us @ n # vs" "all_nodes ?m = us @ f n # vs"
    using all_nodes_UpdateNode [OF fm find] by metis
  have keys: "map fst (client_map ?m) = map fst (client_map m)"
    using Master_UpdateNode_split [OF fm find, of f] by (metis (no_types, lifting) fst_conv list.simps(9) map_append)
  then have keyset: "fst ` set (client_map ?m) = fst ` set (client_map m)"
    by (metis list.set_map)
  have "clients_ok ?m" using ok find new by (rule UpdateNode_clients_ok)
  moreover have "ids_ok ?m" using reg by (simp add: registry_ok_def ids_ok_def keys keyset pending_clients_def)
  moreover have "names_ok ?m"
    using reg new(3) by (simp add: registry_ok_def names_ok_def nodes pending_nodes_def)
  moreover have "single_publisher ?m"
    using reg pub nodes unfolding registry_ok_def single_publisher_def by (metis single_replace)
  moreover have "single_server ?m"
    using reg srv nodes unfolding registry_ok_def single_server_def by (metis single_replace)
  ultimately show ?thesis using reg by (simp add: registry_ok_def listeners_ok_def keyset)
qed

end
