(* ===== verification/Felicia_MasterTasks.thy ===== *)
theory Felicia_MasterTasks
  imports Felicia_MasterInv
begin

text \<open>
  Every task of the master thread keeps the registry well formed, answers its caller exactly
  once and, while every client can be notified, runs into no undefined behaviour.
\<close>

section \<open>Searches decide\<close>

lemma find_nodes_until_Nil:
  "find_nodes_until f es = [] \<longleftrightarrow> (\<forall>e \<in> set es. Client_FindNodes (snd e) f = [])"
  by (induction es) (auto simp: Let_def)

lemma find_publishing_Nil:
  assumes "t \<noteq> []"
  shows "Master_FindNodes m (empty_node_filter\<lparr>nf_publishing_topic := t\<rparr>) = [] \<longleftrightarrow>
           (\<forall>n \<in> set (all_nodes m). \<not> IsPublishingTopic n t)"
  using assms
  by (auto simp: Master_FindNodes_def find_nodes_until_Nil Client_FindNodes_def
      empty_node_filter_def first_match_Nil_iff in_all_nodes) (metis in_all_nodes snd_conv)

lemma find_serving_Nil:
  assumes "s \<noteq> []"
  shows "Master_FindNodes m (empty_node_filter\<lparr>nf_serving_service := s\<rparr>) = [] \<longleftrightarrow>
           (\<forall>n \<in> set (all_nodes m). \<not> IsServingService n s)"
  using assms
  by (auto simp: Master_FindNodes_def find_nodes_until_Nil Client_FindNodes_def
      empty_node_filter_def filter_empty_conv in_all_nodes) (metis in_all_nodes snd_conv)

section \<open>Settling a task\<close>

text \<open>
  The flag says that a client that is added can be notified; as long as all clients can be, nothing
  is undefined.
\<close>

definition answered :: "bool \<Rightarrow> nat list \<Rightarrow> master \<Rightarrow> master \<Rightarrow> bool" where
  "answered tcp cbs m m' \<longleftrightarrow>
     mset (replies m') = mset (replies m) + mset cbs \<and> tasks m' = tasks m \<and>
     next_callback m' = next_callback m \<and> check_heart_beat m' = check_heart_beat m \<and>
     set (effects m) \<subseteq> set (effects m') \<and> (tcp \<and> watchers_ok m \<longrightarrow> watchers_ok m' \<and> undef m' = undef m)"

definition settles :: "bool \<Rightarrow> nat list \<Rightarrow> master \<Rightarrow> master \<Rightarrow> bool" where
  "settles tcp cbs m m' \<longleftrightarrow> registry_ok m' \<and> answered tcp cbs m m'"

lemma watchers_ok_cong: "client_map m' = client_map m \<Longrightarrow> watchers_ok m' = watchers_ok m"
  by (simp add: watchers_ok_def)

lemma watchers_ok_fields [simp]:
  "watchers_ok (emit e m) = watchers_ok m" "watchers_ok (m\<lparr>tasks := ts\<rparr>) = watchers_ok m"
  "watchers_ok (m\<lparr>names := ns\<rparr>) = watchers_ok m" "watchers_ok (m\<lparr>ids := gs\<rparr>) = watchers_ok m"
  "watchers_ok (m\<lparr>listeners := ls\<rparr>) = watchers_ok m"
  "watchers_ok (m\<lparr>effects := es\<rparr>) = watchers_ok m"
  by (simp_all add: watchers_ok_def emit_def)

lemma settles_refl: "registry_ok m \<Longrightarrow> settles tcp [] m m"
  by (simp add: settles_def answered_def)

lemma settles_trans: "settles tcp a m1 m2 \<Longrightarrow> settles tcp b m2 m3 \<Longrightarrow> settles tcp (a @ b) m1 m3"
  by (auto simp: settles_def answered_def)

lemma settles_quiet: "settles tcp cbs m m1 \<Longrightarrow> quiet m1 m2 \<Longrightarrow> settles tcp cbs m m2"
  using quiet_registry [of m1 m2] watchers_ok_cong [of m2 m1]
  by (auto simp: settles_def answered_def quiet_def)

lemma settles_reply: "settles tcp [] m m1 \<Longrightarrow> settles tcp [cb] m (emit (Reply cb s) m1)"
  unfolding settles_def
  by (rule conjI, simp) (auto simp: answered_def emit_def replies_def)

lemma settles_result: "settles tcp cbs m m1 \<Longrightarrow> settles tcp cbs m (emit (Result cb r) m1)"
  by (erule settles_quiet) (simp add: quiet_emit)

lemma settles_run_callback:
  "settles tcp [] m m1 \<Longrightarrow> quiet m1 (snd sm) \<Longrightarrow> settles tcp [cb] m (run_callback cb sm)"
  unfolding run_callback_def by (rule settles_reply, erule settles_quiet)

lemma settles_error: "registry_ok m \<Longrightarrow> settles tcp [cb] m (emit (Reply cb s) m)"
  by (intro settles_reply settles_refl)

lemma watchers_ok_insert:
  assumes "watchers_ok m" "one_tcp (watcher_channels c)"
  shows "watchers_ok (m\<lparr>client_map := fm_insert_or_assign k c (client_map m)\<rparr>)"
  using assms fm_insert_subset [of k c "client_map m"] by (auto simp: watchers_ok_def)

lemma watchers_ok_update: "watchers_ok m \<Longrightarrow> watchers_ok (Master_UpdateNode info f m)"
proof (cases "fm_find (client_map m) (ni_client_id info)")
  case (Some c)
  moreover assume ok: "watchers_ok m"
  ultimately have "one_tcp (watcher_channels c)" by (force simp: watchers_ok_def dest: fm_find_mem)
  with Some ok show ?thesis by (simp add: Master_UpdateNode_def Client_UpdateNode_def watchers_ok_insert)
qed (simp add: Master_UpdateNode_def)

lemma settles_update:
  assumes "registry_ok m" and "Master_FindNode m info = Some n"
    and "node_ok (f n)" "services_reachable (f n)" "node_info (f n) = node_info n"
    and "\<And>t. t \<noteq> [] \<Longrightarrow> IsPublishingTopic (f n) t \<Longrightarrow>
        IsPublishingTopic n t \<or> (\<forall>x \<in> set (all_nodes m). \<not> IsPublishingTopic x t)"
    and "\<And>s. s \<noteq> [] \<Longrightarrow> IsServingService (f n) s \<Longrightarrow>
        IsServingService n s \<or> (\<forall>x \<in> set (all_nodes m). \<not> IsServingService x s)"
  shows "settles tcp [] m (Master_UpdateNode info f m)"
proof -
  have "registry_ok (Master_UpdateNode info f m)" using assms by (rule UpdateNode_registry)
  then show ?thesis using watchers_ok_update [of m info f] by (simp add: settles_def answered_def replies_def)
qed

lemmas settles_calls =
  settles_reply
  settles_run_callback [OF _ quiet_ros_calls(1)] settles_run_callback [OF _ quiet_ros_calls(2)]
  settles_run_callback [OF _ quiet_ros_calls(3)] settles_run_callback [OF _ quiet_ros_calls(4)]
  settles_run_callback [OF _ quiet_ros_calls(5)] settles_run_callback [OF _ quiet_RegisterSubscriber]
  settles_quiet [OF _ quiet_NotifyAllSubscribers] settles_quiet [OF _ quiet_NotifySubscriber]
  settles_quiet [OF _ quiet_NotifyAllServiceClients] settles_quiet [OF _ quiet_NotifyServiceClient]
  settles_quiet [OF _ quiet_DoNotifyClient] settles_quiet [OF _ quiet_LookupService]

lemma registry_node:
  assumes "registry_ok m" "n \<in> set (all_nodes m)"
  shows "node_ok n" and "services_reachable n"
  using assms by (auto simp: registry_ok_def clients_ok_def client_entry_ok_def in_all_nodes)

lemma registry_found:
  assumes "registry_ok m" "Master_FindNode m info = Some n"
  shows "node_ok n" and "services_reachable n"
  using assms registry_node Master_FindNode_mem(1) by blast+

section \<open>Topics\<close>

lemma IsServing_ops [simp]:
  "IsServingService (RegisterPublishingTopic t n) s = IsServingService n s"
  "IsServingService (RegisterSubscribingTopic a n) s = IsServingService n s"
  "IsServingService (RegisterRequestingService a n) s = IsServingService n s"
  "IsServingService (UnregisterSubscribingTopic a n) s = IsServingService n s"
  "IsServingService (UnregisterRequestingService a n) s = IsServingService n s"
  "IsServingService (new_Node info) s = False"
  by (simp_all add: IsServingService_def)

lemma IsPublishing_ops [simp]:
  "IsPublishingTopic (RegisterServingService v n) t = IsPublishingTopic n t"
  "IsPublishingTopic (RegisterSubscribingTopic a n) t = IsPublishingTopic n t"
  "IsPublishingTopic (RegisterRequestingService a n) t = IsPublishingTopic n t"
  "IsPublishingTopic (UnregisterSubscribingTopic a n) t = IsPublishingTopic n t"
  "IsPublishingTopic (UnregisterRequestingService a n) t = IsPublishingTopic n t"
  "IsPublishingTopic (new_Node info) t = False"
  by (simp_all add: IsPublishingTopic_def)

lemma services_reachable_ops [simp]:
  "services_reachable (RegisterPublishingTopic t n) = services_reachable n"
  "services_reachable (RegisterSubscribingTopic a n) = services_reachable n"
  "services_reachable (RegisterRequestingService a n) = services_reachable n"
  "services_reachable (UnregisterSubscribingTopic a n) = services_reachable n"
  "services_reachable (UnregisterRequestingService a n) = services_reachable n"
  "services_reachable (new_Node info)"
  by (simp_all add: services_reachable_def)

lemma settles_RegisterPublishingTopic:
  assumes reg: "registry_ok m" and find: "Master_FindNode m info = Some n"
    and free: "Master_FindNodes m (empty_node_filter\<lparr>nf_publishing_topic := ti_topic t\<rparr>) = []"
  shows "settles tcp [] m (Master_UpdateNode info (RegisterPublishingTopic t) m)"
  using registry_found [OF reg find] find_publishing_Nil [of "ti_topic t" m] free
  by (intro settles_update [OF reg find])
    (auto simp: RegisterPublishingTopic_ok IsPublishingTopic_Register)

lemma settles_DoPublishTopic:
  assumes reg: "registry_ok m"
  shows "settles tcp [cb] m (DoPublishTopic env info t cb m)"
  using settles_RegisterPublishingTopic [OF reg] settles_error [OF reg]
  by (auto simp: DoPublishTopic_def Let_def split: option.splits
      intro!: settles_calls)

lemma settles_UnregisterPublishingTopic:
  assumes reg: "registry_ok m" and find: "Master_FindNode m info = Some n"
    and un: "UnregisterPublishingTopic topic n = Some n'"
  shows "settles tcp [] m (Master_UpdateNode info (\<lambda>_. n') m)"
  using registry_found [OF reg find] un UnregisterPublishingTopic_ok [of n topic n']
  by (intro settles_update [OF reg find])
    (auto simp: UnregisterPublishingTopic_Some services_reachable_def IsPublishingTopic_def
      IsServingService_def node_ok_def fm_simps split: if_splits)

lemma settles_DoUnpublishTopic:
  assumes reg: "registry_ok m"
  shows "settles tcp [cb] m (DoUnpublishTopic env info topic cb m)"
proof (cases "Master_FindNode m info")
  case (Some n)
  show ?thesis
  proof (cases "IsPublishingTopic n topic")
    case True
    then obtain t n' where t: "GetTopicInfo n topic = Some t"
      and un: "UnregisterPublishingTopic topic n = Some n'"
      by (auto simp: GetTopicInfo_def UnregisterPublishingTopic_Some IsPublishingTopic_def)
    from True Some t un settles_UnregisterPublishingTopic [OF reg Some un] show ?thesis
      by (auto simp: DoUnpublishTopic_def Let_def split: option.splits
          intro!: settles_calls)
  qed (simp add: DoUnpublishTopic_def Some settles_error reg)
qed (simp add: DoUnpublishTopic_def settles_error reg)

lemma settles_DoSubscribeTopic:
  assumes reg: "registry_ok m"
  shows "settles tcp [cb] m (DoSubscribeTopic env info topic ty cb m)"
proof (cases "Master_FindNode m info")
  case (Some n)
  have "settles tcp [] m (Master_UpdateNode info (RegisterSubscribingTopic topic) m)"
    if "\<not> IsSubsribingTopic n topic"
    using registry_found [OF reg Some] that
    by (intro settles_update [OF reg Some]) (auto simp: RegisterSubscribingTopic_ok)
  then show ?thesis
    by (auto simp: DoSubscribeTopic_def Some Let_def settles_error reg split: option.splits
        intro!: settles_calls)
qed (simp add: DoSubscribeTopic_def settles_error reg)

lemma settles_DoUnsubscribeTopic:
  assumes reg: "registry_ok m"
  shows "settles tcp [cb] m (DoUnsubscribeTopic env info topic cb m)"
proof (cases "Master_FindNode m info")
  case (Some n)
  have "settles tcp [] m (Master_UpdateNode info (UnregisterSubscribingTopic topic) m)"
    using registry_found [OF reg Some]
    by (intro settles_update [OF reg Some]) (auto simp: UnregisterSubscribingTopic_ok)
  then show ?thesis
    by (auto simp: DoUnsubscribeTopic_def Some Let_def settles_error reg split: option.splits
        intro!: settles_calls)
qed (simp add: DoUnsubscribeTopic_def settles_error reg)

section \<open>Services\<close>

lemma settles_DoRegisterServiceClient:
  assumes reg: "registry_ok m"
  shows "settles tcp [cb] m (DoRegisterServiceClient env info service cb m)"
proof (cases "Master_FindNode m info")
  case (Some n)
  have "settles tcp [] m (Master_UpdateNode info (RegisterRequestingService service) m)"
    if "\<not> IsRequestingService n service"
    using registry_found [OF reg Some] that
    by (intro settles_update [OF reg Some]) (auto simp: RegisterRequestingService_ok)
  then show ?thesis
    by (auto simp: DoRegisterServiceClient_def Some Let_def split_def settles_error reg
        split: option.splits intro!: settles_calls)
qed (simp add: DoRegisterServiceClient_def settles_error reg)

lemma settles_DoUnregisterServiceClient:
  assumes reg: "registry_ok m"
  shows "settles tcp [cb] m (DoUnregisterServiceClient info service cb m)"
proof (cases "Master_FindNode m info")
  case (Some n)
  have "settles tcp [] m (Master_UpdateNode info (UnregisterRequestingService service) m)"
    using registry_found [OF reg Some]
    by (intro settles_update [OF reg Some]) (auto simp: UnregisterRequestingService_ok)
  then show ?thesis
    by (auto simp: DoUnregisterServiceClient_def Some settles_error reg intro!: settles_calls)
qed (simp add: DoUnregisterServiceClient_def settles_error reg)

lemma services_reachable_Register:
  "node_ok n \<Longrightarrow> services_reachable n \<Longrightarrow> channel_defs (service_source s) \<noteq> [] \<Longrightarrow>
     services_reachable (RegisterServingService s n)"
  by (auto simp: services_reachable_def RegisterServingService_def node_ok_def fm_simps)

lemma settles_RegisterServingService:
  assumes reg: "registry_ok m" and find: "Master_FindNode m info = Some n"
    and free: "Master_FindNodes m (empty_node_filter\<lparr>nf_serving_service := si_service s\<rparr>) = []"
    and chan: "channel_defs (service_source s) \<noteq> []"
  shows "settles tcp [] m (Master_UpdateNode info (RegisterServingService s) m)"
  using registry_found [OF reg find] find_serving_Nil [of "si_service s" m] free chan
  by (intro settles_update [OF reg find])
    (auto simp: RegisterServingService_ok services_reachable_Register IsServingService_Register)

lemma settles_DoRegisterServiceServer:
  assumes reg: "registry_ok m" and chan: "channel_defs (service_source s) \<noteq> []"
  shows "settles tcp [cb] m (DoRegisterServiceServer env info s cb m)"
  using settles_RegisterServingService [OF reg _ _ chan] settles_error [OF reg] chan
  by (auto simp: DoRegisterServiceServer_def Let_def split: option.splits list.splits
      intro!: settles_calls)

lemma settles_UnregisterServingService:
  assumes reg: "registry_ok m" and find: "Master_FindNode m info = Some n"
    and un: "UnregisterServingService service n = Some n'"
  shows "settles tcp [] m (Master_UpdateNode info (\<lambda>_. n') m)"
  using registry_found [OF reg find] un UnregisterServingService_ok [of n service n']
  by (intro settles_update [OF reg find])
    (auto simp: UnregisterServingService_Some services_reachable_def IsPublishingTopic_def
      IsServingService_def node_ok_def fm_simps split: if_splits)

lemma settles_DoUnregisterServiceServer:
  assumes reg: "registry_ok m"
  shows "settles tcp [cb] m (DoUnregisterServiceServer env info service cb m)"
proof (cases "Master_FindNode m info")
  case (Some n)
  show ?thesis
  proof (cases "IsServingService n service")
    case True
    then obtain s n' where s: "GetServiceInfo n service = Some s"
      and un: "UnregisterServingService service n = Some n'"
      by (auto simp: GetServiceInfo_def UnregisterServingService_Some IsServingService_def)
    have "channel_defs (service_source s) \<noteq> []"
      using registry_found(2) [OF reg Some] s
      by (auto simp: services_reachable_def GetServiceInfo_def dest: fm_find_mem)
    with True Some s un settles_UnregisterServingService [OF reg Some un] show ?thesis
      by (auto simp: DoUnregisterServiceServer_def Let_def split: option.splits list.splits
          intro!: settles_calls)
  qed (simp add: DoUnregisterServiceServer_def Some settles_error reg)
qed (simp add: DoUnregisterServiceServer_def settles_error reg)

lemma settles_DoListNodes: "registry_ok m \<Longrightarrow> settles tcp [cb] m (DoListNodes f cb m)"
  unfolding DoListNodes_def Let_def by (intro settles_reply settles_result settles_refl)

section \<open>Clients\<close>

text \<open>The client of the task at the head of the queue is fresh for the registry.\<close>

lemma pending_client_fresh:
  assumes reg: "registry_ok m" and tasks: "tasks m = TRegisterClient c cb # ts"
  shows "fm_find (client_map m) (client_id c) = None"
    and "registry_ok (m\<lparr>tasks := ts, client_map := fm_insert_or_assign (client_id c) c (client_map m)\<rparr>)"
proof -
  have ids: "ids_ok m" using reg by (simp add: registry_ok_def)
  obtain cs where pend: "pending_clients m = c # cs" "concat (map task_clients ts) = cs"
    by (simp add: pending_clients_def tasks)
  show fresh: "fm_find (client_map m) (client_id c) = None"
    using ids pend by (auto simp: ids_ok_def fm_find_None_iff)
  let ?m = "m\<lparr>tasks := ts, client_map := fm_insert_or_assign (client_id c) c (client_map m)\<rparr>"
  obtain us vs where map: "client_map m = us @ vs" "client_map ?m = us @ (client_id c, c) # vs"
    using fm_insert_split [OF fresh, of c] by auto
  have empty: "nodes c = []" "watcher_channels c \<noteq> []" using ids pend by (auto simp: ids_ok_def)
  have cs: "pending_clients (m\<lparr>tasks := ts, client_map := cm\<rparr>) = cs" for cm
    by (simp add: pending_clients_def pend(2))
  have nodes: "all_nodes ?m = all_nodes m"
    using map empty by (simp add: all_nodes_def)
  have pop: "registry_ok (m\<lparr>tasks := ts\<rparr>)" using reg tasks by (rule registry_pop)
  have "fm_ok (client_map ?m)"
    using reg by (simp add: registry_ok_def clients_ok_def fm_insert_ok)
  then have "clients_ok ?m"
    using reg map empty by (auto simp: registry_ok_def clients_ok_def client_entry_ok_def)
  moreover have "ids_ok ?m"
    using ids map pend(1) cs by (auto simp: ids_ok_def)
  moreover have "names_ok ?m"
    using pop nodes by (simp add: registry_ok_def names_ok_def pending_nodes_def)
  moreover have "listeners_ok ?m"
    using reg map by (auto simp: registry_ok_def listeners_ok_def)
  ultimately show "registry_ok ?m"
    using reg nodes tasks by (simp add: registry_ok_def single_publisher_def single_server_def)
qed

lemma settles_DoRegisterClient:
  assumes reg: "registry_ok m" and tasks: "tasks m = TRegisterClient c cb # ts"
    and can: "tcp \<Longrightarrow> client_tcp c"
  shows "settles tcp [cb] (m\<lparr>tasks := ts\<rparr>) (DoRegisterClient c cb (m\<lparr>tasks := ts\<rparr>))"
proof -
  let ?m0 = "m\<lparr>tasks := ts\<rparr>"
  let ?m1 = "m\<lparr>tasks := ts, client_map := fm_insert_or_assign (client_id c) c (client_map m)\<rparr>"
  note fresh = pending_client_fresh [OF reg tasks]
  have add: "AddClient (client_id c) c ?m0 = ?m1" using fresh(1) by (simp add: AddClient_def)
  have "settles tcp [] ?m0 ?m1"
    using fresh(2) can watchers_ok_insert [of ?m0 c "client_id c"] client_tcp_def [of c] by (simp add: settles_def answered_def replies_def)
  then have one: "settles tcp [cb] ?m0 (emit (Reply cb Status_OK) ?m1)" by (rule settles_reply)
  have fm: "fm_ok (client_map m)" using reg by (simp add: registry_ok_def clients_ok_def)
  have "client_id c \<notin> ci_id ` set (listeners m)"
    using reg fresh(1) by (auto simp: registry_ok_def listeners_ok_def fm_find_None_iff)
  then have "listeners_ok (DoRegisterClient c cb ?m0)"
    using reg fm
    by (auto simp: registry_ok_def listeners_ok_def DoRegisterClient_def DoCheckHeartBeat_def add undefined_behaviour_def Let_def
        fm_insert_set image_iff) force+
  with one can show ?thesis
    by (auto simp: DoRegisterClient_def DoCheckHeartBeat_def add settles_def answered_def client_tcp_def
        undefined_behaviour_def Let_def
        registry_ok_def clients_ok_def ids_ok_def names_ok_def single_publisher_def
        single_server_def all_nodes_def pending_nodes_def pending_clients_def replies_def)
qed

section \<open>Nodes\<close>

lemma pending_node_fresh:
  assumes reg: "registry_ok m" and tasks: "tasks m = TRegisterNode n cb # ts"
  shows "n = new_Node (node_info n)" and "name n \<in> values_in_use (names m)"
    and "name n \<notin> name ` set (all_nodes m) \<union> name ` set (concat (map task_nodes ts))"
    and "distinct (map name (all_nodes m @ concat (map task_nodes ts)))"
proof -
  have "names_ok m" "pending_nodes m = n # concat (map task_nodes ts)"
    using reg by (simp_all add: registry_ok_def pending_nodes_def tasks)
  then show "n = new_Node (node_info n)" and "name n \<in> values_in_use (names m)"
    and "name n \<notin> name ` set (all_nodes m) \<union> name ` set (concat (map task_nodes ts))"
    and "distinct (map name (all_nodes m @ concat (map task_nodes ts)))"
    by (simp_all add: names_ok_def)
qed

lemma settles_AddNode_gone:
  assumes reg: "registry_ok m" and tasks: "tasks m = TRegisterNode n cb # ts"
    and gone: "fm_find (client_map m) (ni_client_id (node_info n)) = None"
  shows "settles tcp [] (m\<lparr>tasks := ts\<rparr>) (AddNode n (m\<lparr>tasks := ts\<rparr>))"
proof -
  note fresh = pending_node_fresh [OF reg tasks]
  have "Generator_ok (names m)" using reg by (simp add: registry_ok_def names_ok_def)
  then obtain names' where d: "destroy_nodes [n] (names m) = Some names'" "Generator_ok names'"
    "values_in_use names' = values_in_use (names m) - {name n}"
    using destroy_nodes_Some [of "names m" "[n]"] fresh(2) by auto
  have pop: "registry_ok (m\<lparr>tasks := ts\<rparr>)" using reg tasks by (rule registry_pop)
  then have "set (map name (all_nodes m @ concat (map task_nodes ts))) \<subseteq> values_in_use (names m)"
    by (simp add: registry_ok_def names_ok_def pending_nodes_def)
  then have "set (map name (all_nodes m @ concat (map task_nodes ts))) \<subseteq> values_in_use names'"
    using fresh(3) unfolding d(3) set_map set_append image_Un by blast
  then have "registry_ok (m\<lparr>tasks := ts, names := names'\<rparr>)"
    using pop d(2)
    by (simp add: registry_ok_def names_ok_def pending_nodes_def clients_ok_def ids_ok_def
        all_nodes_def pending_clients_def single_publisher_def single_server_def listeners_ok_def)
  then show ?thesis
    using gone d(1) by (simp add: AddNode_def Let_def settles_def answered_def replies_def
        del: destroy_nodes.simps)
qed

lemma single_insert: "length (filter P (us @ vs)) \<le> 1 \<Longrightarrow> \<not> P x \<Longrightarrow> length (filter P (us @ x # vs)) \<le> 1"
  by simp

lemma settles_AddNode:
  assumes reg: "registry_ok m" and tasks: "tasks m = TRegisterNode n cb # ts"
  shows "settles tcp [] (m\<lparr>tasks := ts\<rparr>) (AddNode n (m\<lparr>tasks := ts\<rparr>))"
proof (cases "fm_find (client_map m) (ni_client_id (node_info n))")
  case None
  with reg tasks show ?thesis by (rule settles_AddNode_gone)
next
  case (Some c)
  let ?k = "ni_client_id (node_info n)"
  let ?m0 = "m\<lparr>tasks := ts\<rparr>"
  let ?m1 = "AddNode n ?m0"
  note fresh = pending_node_fresh [OF reg tasks]
  have new: "node_ok n" "services_reachable n" "\<And>t. \<not> IsPublishingTopic n t"
      "\<And>s. \<not> IsServingService n s"
    using fresh(1) new_Node_ok services_reachable_ops(6) IsPublishing_ops(6) IsServing_ops(6)
    by metis+
  have pop: "registry_ok ?m0" using reg tasks by (rule registry_pop)
  then have fm: "fm_ok (client_map m)" by (simp add: registry_ok_def clients_ok_def)
  obtain us vs where map: "client_map m = us @ (?k, c) # vs"
      "\<And>w. fm_insert_or_assign ?k w (client_map m) = us @ (?k, w) # vs"
    using fm_assign_split [OF fm Some] by blast
  have cm: "client_map ?m1 = us @ (?k, Client_AddNode n c) # vs"
    and frame: "tasks ?m1 = ts" "ids ?m1 = ids m" "names ?m1 = names m"
      "listeners ?m1 = listeners m" "answered tcp [] ?m0 ?m1"
    using Some map
    by (simp_all add: AddNode_def Let_def answered_def replies_def watchers_ok_def Client_AddNode_def)
  obtain as bs where nodes: "all_nodes m = as @ bs" "all_nodes ?m1 = as @ n # bs"
    using cm map(1)
    by (simp add: all_nodes_def) (metis append.assoc)
  have "clients_ok ?m1"
    using pop map(1) cm new
    by (simp add: registry_ok_def clients_ok_def client_entry_ok_def fm_ok_def)
  moreover have "ids_ok ?m1"
    using pop map(1) cm frame by (simp add: registry_ok_def ids_ok_def pending_clients_def)
  moreover have "names_ok ?m1"
    using pop fresh nodes frame
    by (simp add: registry_ok_def names_ok_def pending_nodes_def) blast
  moreover have "single_publisher ?m1" "single_server ?m1"
    using pop nodes new(3,4)
    by (auto simp: registry_ok_def single_publisher_def single_server_def)
  moreover have "listeners_ok ?m1"
    using pop cm map(1) frame by (simp add: registry_ok_def listeners_ok_def)
  ultimately show ?thesis
    using pop frame by (simp add: settles_def registry_ok_def)
qed

lemma settles_DoRegisterNode:
  assumes "registry_ok m" "tasks m = TRegisterNode n cb # ts"
  shows "settles tcp [cb] (m\<lparr>tasks := ts\<rparr>) (DoRegisterNode n cb (m\<lparr>tasks := ts\<rparr>))"
  using settles_AddNode [OF assms]
  by (auto simp: DoRegisterNode_def Let_def
      intro!: settles_reply settles_quiet [OF _ quiet_NotifyWatcher])

text \<open>Removing nodes of the registry and returning their names.\<close>

lemma shrink_keys:
  assumes "A \<inter> P = {}" "A' \<subseteq> A" "A \<union> P \<subseteq> U" "U - (A - A') \<subseteq> U'"
  shows "A' \<union> P \<subseteq> U'" and "A' \<inter> P = {}"
  using assms by blast+

lemma shrink_names:
  "U - G \<subseteq> U' \<Longrightarrow> A \<inter> (G \<union> P) = {} \<Longrightarrow> G \<inter> P = {} \<Longrightarrow> A \<subseteq> U \<Longrightarrow> P \<subseteq> U \<Longrightarrow> A \<subseteq> U' \<and> P \<subseteq> U' \<and> A \<inter> P = {}"
  by blast

lemma mset_sub_distinct: "mset xs \<subseteq># mset ys \<Longrightarrow> distinct ys \<Longrightarrow> distinct xs"
  by (metis distinct_append ex_mset mset_append mset_eq_imp_distinct_iff mset_subset_eq_exists_conv)

lemma registry_shrink:
  assumes reg: "registry_ok m" and fm: "fm_ok (client_map m')"
    and entries: "\<forall>e \<in> set (client_map m'). client_entry_ok e"
    and keys: "fst ` set (client_map m') \<subseteq> fst ` set (client_map m)"
    and ids: "Generator_ok (ids m')"
      "values_in_use (ids m) - (fst ` set (client_map m) - fst ` set (client_map m')) \<subseteq> values_in_use (ids m')"
    and nodes: "mset (all_nodes m) = mset (all_nodes m') + mset gone"
    and names: "Generator_ok (names m')" "values_in_use (names m) - name ` set gone \<subseteq> values_in_use (names m')"
    and tasks: "tasks m' = tasks m"
    and listeners: "listeners_ok m'"
  shows "registry_ok m'"
proof -
  have pend: "pending_clients m' = pending_clients m" "pending_nodes m' = pending_nodes m"
    using tasks by (simp_all add: pending_clients_def pending_nodes_def)
  have ids_m: "ids_ok m" and names_m: "names_ok m" using reg by (simp_all add: registry_ok_def)
  have "distinct (map fst (client_map m'))"
    using fm unfolding fm_ok_def by (simp add: strict_sorted_iff)
  moreover have "set (map fst (client_map m') @ map client_id (pending_clients m)) \<subseteq>
        values_in_use (ids m')"
    "set (map fst (client_map m')) \<inter> set (map client_id (pending_clients m)) = {}"
    using shrink_keys [OF _ keys _ ids(2), of "client_id ` set (pending_clients m)"] ids_m
    by (simp_all add: ids_ok_def)
  ultimately have "ids_ok m'"
    using ids_m ids(1) by (simp add: ids_ok_def pend)
  moreover have "names_ok m'"
  proof -
    have "mset (map name (all_nodes m)) = mset (map name (all_nodes m' @ gone))"
      using nodes by (metis mset_append mset_map)
    then have d: "distinct (map name (all_nodes m) @ map name (pending_nodes m)) \<longleftrightarrow>
        distinct (map name (all_nodes m' @ gone) @ map name (pending_nodes m))"
      and s: "set (map name (all_nodes m)) = set (map name (all_nodes m' @ gone))"
      using mset_eq_imp_distinct_iff mset_eq_setD by (metis mset_append)+
    show ?thesis
      using names_m names(1) d s
        shrink_names [OF names(2), of "name ` set (all_nodes m')" "name ` set (pending_nodes m)"]
      by (simp add: names_ok_def pend)
  qed
  moreover have "length (filter P (all_nodes m')) \<le> length (filter P (all_nodes m))" for P
  proof -
    have "mset (filter P (all_nodes m)) = mset (filter P (all_nodes m')) + mset (filter P gone)"
      using nodes by (metis filter_append mset_append mset_filter)
    then show ?thesis by (metis le_add1 size_mset size_union)
  qed
  then have "single_publisher m'" "single_server m'"
    using reg by (auto simp: registry_ok_def single_publisher_def single_server_def
        intro: order_trans)
  ultimately show ?thesis
    using reg fm entries listeners tasks by (simp add: registry_ok_def clients_ok_def)
qed

lemma concat_nodes_reachable:
  assumes "registry_ok m" "fm_find (client_map m) k = Some c" "s \<in> set (AllServingServiceInfos n)"
    "n \<in> set (nodes c)"
  shows "channel_defs (service_source s) \<noteq> []"
proof -
  have "n \<in> set (all_nodes m)" using assms(2,4) fm_find_mem by (force simp: in_all_nodes)
  then have "services_reachable n" using assms(1) registry_node by blast
  with assms(3) show ?thesis by (auto simp: services_reachable_def AllServingServiceInfos_def)
qed

lemma destroy_registered:
  assumes reg: "registry_ok m" and sub: "mset ns \<subseteq># mset (all_nodes m)"
  obtains names' where "destroy_nodes ns (names m) = Some names'" "Generator_ok names'"
    "values_in_use names' = values_in_use (names m) - name ` set ns"
proof (rule destroy_nodes_Some [of "names m" ns])
  have names: "names_ok m" using reg by (simp add: registry_ok_def)
  then show "Generator_ok (names m)" by (simp add: names_ok_def)
  have "mset (map name ns) \<subseteq># mset (map name (all_nodes m))"
    using sub by (metis image_mset_subseteq_mono mset_map)
  moreover have "distinct (map name (all_nodes m))" using names by (simp add: names_ok_def)
  ultimately show "distinct (map name ns)" by (metis mset_sub_distinct)
  show "name ` set ns \<subseteq> values_in_use (names m)"
  proof -
    have "name ` set (all_nodes m) \<subseteq> values_in_use (names m)"
      using names by (simp add: names_ok_def)
    moreover have "set ns \<subseteq> set (all_nodes m)" using set_mset_mono [OF sub] by simp
    ultimately show ?thesis by blast
  qed
qed

lemma settles_RemoveClient:
  assumes reg: "registry_ok m" and find: "fm_find (client_map m) (ci_id info) = Some c"
    and unwatched: "ci_id info \<notin> ci_id ` set (listeners m)"
  shows "settles tcp [] m (RemoveClient env info m)"
    and "client_map (RemoveClient env info m) = fm_erase (ci_id info) (client_map m)"
proof -
  have fm: "fm_ok (client_map m)" and entries: "\<forall>e \<in> set (client_map m). client_entry_ok e"
    using reg by (simp_all add: registry_ok_def clients_ok_def)
  obtain us vs where split: "client_map m = us @ (ci_id info, c) # vs"
      "ci_id info \<notin> fst ` set (us @ vs)" "fm_erase (ci_id info) (client_map m) = us @ vs"
    using fm_assign_split [OF fm find] by blast
  then have cid: "client_id c = ci_id info" using entries by (simp add: client_entry_ok_def)
  have in_use: "ci_id info \<in> values_in_use (ids m)" and gen: "Generator_ok (ids m)"
    using reg split(1) by (simp_all add: registry_ok_def ids_ok_def)
  obtain ids' where ids': "Generator_Return (ci_id info) (ids m) = Some ids'"
    using gen in_use by (simp add: Generator_Return_Some)
  note ids_ok' = Generator_Return_ok [OF gen ids']
  have all: "all_nodes m = concat (map (nodes \<circ> snd) us) @ nodes c @ concat (map (nodes \<circ> snd) vs)"
    by (simp add: all_nodes_def split(1))
  obtain names' where names': "destroy_nodes (nodes c) (names m) = Some names'"
      "Generator_ok names'" "values_in_use names' = values_in_use (names m) - name ` set (nodes c)"
    by (rule destroy_registered [OF reg, of "nodes c"]) (auto simp: all)
  let ?m1 = "m\<lparr>client_map := us @ vs, ids := ids', names := names'\<rparr>"
  have "registry_ok ?m1"
  proof (rule registry_shrink [OF reg, where gone = "nodes c"])
    show "fm_ok (client_map ?m1)" using fm_erase_ok [OF fm, of "ci_id info"] split(3) by simp
    show "listeners_ok ?m1"
      using reg unwatched split(1) by (simp add: registry_ok_def listeners_ok_def subset_insert)
    have "fst ` set (client_map m) - fst ` set (us @ vs) = {ci_id info}"
      using split(2) by (simp add: split(1) insert_Diff_if)
    then show "values_in_use (ids m) - (fst ` set (client_map m) - fst ` set (client_map ?m1))
        \<subseteq> values_in_use (ids ?m1)"
      using ids_ok'(2) by simp
    show "mset (all_nodes m) = mset (all_nodes ?m1) + mset (nodes c)"
      by (simp add: all all_nodes_def [of ?m1])
  qed (use entries split(1) ids_ok'(1) names' in auto)
  then have "settles tcp [] m ?m1" by (simp add: settles_def answered_def replies_def watchers_ok_def split(1))
  moreover have "RemoveClient env info m =
      announce_removed env (Client_FindTopicInfos c all_topics)
        (Client_FindAllSubscribingTopics c) (Client_FindServiceInfos c all_services) ?m1"
    by (simp add: RemoveClient_def find destroy_client_def cid ids' names'(1) split(3))
  moreover have "quiet ?m1 (announce_removed env (Client_FindTopicInfos c all_topics)
        (Client_FindAllSubscribingTopics c) (Client_FindServiceInfos c all_services) ?m1)"
    using concat_nodes_reachable [OF reg find]
    by (intro quiet_announce_removed) (auto simp: Client_FindServiceInfos_def all_services_def)
  ultimately show "settles tcp [] m (RemoveClient env info m)"
    and "client_map (RemoveClient env info m) = fm_erase (ci_id info) (client_map m)"
    using split(3) by (simp_all add: settles_quiet quiet_def)
qed

lemma settles_RemoveNode_found:
  assumes reg: "registry_ok m"
    and Some: "fm_find (client_map m) (ni_client_id info) = Some c"
  shows "settles tcp [] m (RemoveNode env info m)"
    and "client_map (RemoveNode env info m) = fm_insert_or_assign (ni_client_id info)
      (c\<lparr>nodes := filter (\<lambda>n. \<not> NodeNameChecker info n) (nodes c)\<rparr>) (client_map m)"
proof -
  let ?k = "ni_client_id info"
  let ?gone = "filter (NodeNameChecker info) (nodes c)"
  let ?c' = "c\<lparr>nodes := filter (\<lambda>n. \<not> NodeNameChecker info n) (nodes c)\<rparr>"
  have fm: "fm_ok (client_map m)" and entries: "\<forall>e \<in> set (client_map m). client_entry_ok e"
    using reg by (simp_all add: registry_ok_def clients_ok_def)
  obtain us vs where split: "client_map m = us @ (?k, c) # vs"
      "fm_insert_or_assign ?k ?c' (client_map m) = us @ (?k, ?c') # vs"
    using fm_assign_split [OF fm Some] by blast
  have all: "all_nodes m = concat (map (nodes \<circ> snd) us) @ nodes c @ concat (map (nodes \<circ> snd) vs)"
    by (simp add: all_nodes_def split(1))
  have sub: "mset ?gone \<subseteq># mset (all_nodes m)"
    unfolding all mset_append
    by (metis mset_filter multiset_filter_subset subset_mset.add_increasing
        subset_mset.add_increasing2 subset_mset.zero_le)
  obtain names' where names': "destroy_nodes ?gone (names m) = Some names'" "Generator_ok names'"
      "values_in_use names' = values_in_use (names m) - name ` set ?gone"
    by (rule destroy_registered [OF reg sub])
  let ?m1 = "m\<lparr>client_map := us @ (?k, ?c') # vs, names := names'\<rparr>"
  have "registry_ok ?m1"
  proof (rule registry_shrink [OF reg, where gone = ?gone])
    show "fm_ok (client_map ?m1)" using fm split(1) by (simp add: fm_ok_def)
    show "\<forall>e \<in> set (client_map ?m1). client_entry_ok e"
      using entries split(1) by (auto simp: client_entry_ok_def)
    show "mset (all_nodes m) = mset (all_nodes ?m1) + mset ?gone"
      using multiset_partition [of "mset (nodes c)" "NodeNameChecker info"]
      by (simp add: all all_nodes_def [of ?m1] union_ac)
    show "listeners_ok ?m1" using reg split(1) by (simp add: registry_ok_def listeners_ok_def)
  qed (use reg split(1) names' in \<open>auto simp: registry_ok_def ids_ok_def\<close>)
  then have base: "settles tcp [] m ?m1" by (simp add: settles_def answered_def replies_def watchers_ok_def split(1))
  have "s \<in> set (AllServingServiceInfos n) \<Longrightarrow> channel_defs (service_source s) \<noteq> []"
    if "Client_FindNode c info = Some n" for n s
    using concat_nodes_reachable [OF reg Some] Client_FindNode_Some [OF that] by blast
  then have "quiet ?m1 (RemoveNode env info m)"
    by (auto simp: RemoveNode_def Let_def Some Client_RemoveNode_def names'(1) split(2)
        split: option.splits intro!: quiet_announce_removed)
  with base split(2) show "settles tcp [] m (RemoveNode env info m)"
    and "client_map (RemoveNode env info m) = fm_insert_or_assign ?k ?c' (client_map m)"
    by (simp_all add: settles_quiet quiet_def)
qed

lemma settles_RemoveNode_gone:
  assumes reg: "registry_ok m" and None: "fm_find (client_map m) (ni_client_id info) = None"
  shows "settles tcp [] m (RemoveNode env info m)"
    and "client_map (RemoveNode env info m) = client_map m"
proof -
  have "quiet m (RemoveNode env info m)"
    using None by (auto simp: RemoveNode_def Let_def intro!: quiet_announce_removed)
  with settles_refl [OF reg, of tcp] show "settles tcp [] m (RemoveNode env info m)"
    and "client_map (RemoveNode env info m) = client_map m"
    by (simp_all add: settles_quiet quiet_def)
qed

lemma settles_RemoveNode: "registry_ok m \<Longrightarrow> settles tcp [] m (RemoveNode env info m)"
  by (cases "fm_find (client_map m) (ni_client_id info)")
    (simp_all add: settles_RemoveNode_gone settles_RemoveNode_found)


lemma settles_DoUnregisterNode: "registry_ok m \<Longrightarrow> settles tcp [cb] m (DoUnregisterNode env info cb m)"
  unfolding DoUnregisterNode_def by (intro settles_reply settles_RemoveNode)

section \<open>All tasks\<close>

lemma settles_run_task:
  assumes reg: "registry_ok m" and tasks: "tasks m = t # ts"
    and can: "\<And>c. tcp \<Longrightarrow> c \<in> set (task_clients t) \<Longrightarrow> client_tcp c"
  shows "settles tcp (task_callbacks t) (m\<lparr>tasks := ts\<rparr>) (run_task env t (m\<lparr>tasks := ts\<rparr>))"
proof -
  have pop: "registry_ok (m\<lparr>tasks := ts\<rparr>)" using reg tasks by (rule registry_pop)
  have "task_ok t" using reg tasks by (simp add: registry_ok_def)
  with pop tasks can show ?thesis
    by (cases t)
      (auto intro: settles_DoRegisterClient [OF reg] settles_DoRegisterNode [OF reg]
        settles_DoUnregisterNode settles_DoListNodes settles_DoPublishTopic
        settles_DoUnpublishTopic settles_DoSubscribeTopic settles_DoUnsubscribeTopic
        settles_DoRegisterServiceClient settles_DoUnregisterServiceClient
        settles_DoRegisterServiceServer settles_DoUnregisterServiceServer
        settles_quiet [OF settles_refl])
qed

end
