(* ===== verification/Felicia_MasterMachine.thy ===== *)
theory Felicia_MasterMachine
  imports Felicia_MasterTasks
begin

text \<open>
  The master as a state machine: an RPC arrives, the next task of the master thread runs, a
  heart beat listener gives its client up, a connection to a notification watcher is made, the
  ROS master reports an update.  An RPC method only reads the registry before it posts its task
  to the end of the queue, so one step for the whole method is the same as its check and its
  post interleaved with tasks already queued.
\<close>

section \<open>Requests\<close>

datatype request =
    RegisterClient client_info
  | ListClients client_filter
  | RegisterNode node_info
  | UnregisterNode node_info
  | ListNodes node_filter
  | PublishTopic node_info topic_info
  | UnpublishTopic node_info string
  | SubscribeTopic node_info string string
  | UnsubscribeTopic node_info string
  | ListTopics topic_filter
  | RegisterServiceClient node_info string
  | UnregisterServiceClient node_info string
  | RegisterServiceServer node_info service_info
  | UnregisterServiceServer node_info string
  | ListServices service_filter

fun handle ::
    "master_env \<Rightarrow> (nat \<Rightarrow> u32) \<Rightarrow> (nat \<Rightarrow> string) \<Rightarrow> request \<Rightarrow> nat \<Rightarrow> master \<Rightarrow> master" where
  "handle env draw_id draw_name (RegisterClient info) cb = Master_RegisterClient env draw_id info cb"
| "handle env draw_id draw_name (ListClients f) cb = Master_ListClients f cb"
| "handle env draw_id draw_name (RegisterNode info) cb = Master_RegisterNode draw_name info cb"
| "handle env draw_id draw_name (UnregisterNode info) cb = Master_UnregisterNode info cb"
| "handle env draw_id draw_name (ListNodes f) cb = Master_ListNodes f cb"
| "handle env draw_id draw_name (PublishTopic info t) cb = Master_PublishTopic env info t cb"
| "handle env draw_id draw_name (UnpublishTopic info t) cb = Master_UnpublishTopic info t cb"
| "handle env draw_id draw_name (SubscribeTopic info t ty) cb = Master_SubscribeTopic info t ty cb"
| "handle env draw_id draw_name (UnsubscribeTopic info t) cb = Master_UnsubscribeTopic info t cb"
| "handle env draw_id draw_name (ListTopics f) cb = Master_ListTopics f cb"
| "handle env draw_id draw_name (RegisterServiceClient info s) cb =
     Master_RegisterServiceClient info s cb"
| "handle env draw_id draw_name (UnregisterServiceClient info s) cb =
     Master_UnregisterServiceClient info s cb"
| "handle env draw_id draw_name (RegisterServiceServer info s) cb =
     Master_RegisterServiceServer env info s cb"
| "handle env draw_id draw_name (UnregisterServiceServer info s) cb =
     Master_UnregisterServiceServer info s cb"
| "handle env draw_id draw_name (ListServices f) cb = Master_ListServices f cb"

text \<open>A call takes the next callback number, so that its answers can be counted.\<close>

definition receive_call ::
    "master_env \<Rightarrow> (nat \<Rightarrow> u32) \<Rightarrow> (nat \<Rightarrow> string) \<Rightarrow> request \<Rightarrow> master \<Rightarrow> master" where
  "receive_call env draw_id draw_name rq m =
     handle env draw_id draw_name rq (next_callback m) (m\<lparr>next_callback := Suc (next_callback m)\<rparr>)"

definition run_next :: "master_env \<Rightarrow> master \<Rightarrow> master" where
  "run_next env m =
     (case tasks m of [] \<Rightarrow> m | t # ts \<Rightarrow> run_task env t (m\<lparr>tasks := ts\<rparr>))"

definition listener_lost :: "master_env \<Rightarrow> client_info \<Rightarrow> master \<Rightarrow> master" where
  "listener_lost env info m =
     RemoveClient env info (m\<lparr>listeners := remove1 info (listeners m)\<rparr>)"

text \<open>\<open>RandUint32::Generate\<close> draws below the invalid value and names are never empty.\<close>

definition draws_in_range :: "(nat \<Rightarrow> u32) \<Rightarrow> (nat \<Rightarrow> string) \<Rightarrow> bool" where
  "draws_in_range draw_id draw_name \<longleftrightarrow>
     (\<forall>i. draw_id i \<noteq> RandUint32_InvalidValue) \<and> (\<forall>i. draw_name i \<noteq> [])"

inductive master_step :: "master_env \<Rightarrow> master \<Rightarrow> master \<Rightarrow> bool" for env :: master_env where
  call: "draws_in_range draw_id draw_name \<Longrightarrow>
    master_step env m (receive_call env draw_id draw_name rq m)"
| run: "tasks m \<noteq> [] \<Longrightarrow> master_step env m (run_next env m)"
| lost: "info \<in> set (listeners m) \<Longrightarrow> master_step env m (listener_lost env info m)"
| connected: "note \<in> set (connecting m) \<Longrightarrow>
    master_step env m (OnConnetToMasterNotificationWatcher note s m)"
| ros_update: "has_ros env \<Longrightarrow> master_step env m (NotifyAllSubscribers_posted t m)"

definition master_init :: "master \<Rightarrow> bool" where
  "master_init m \<longleftrightarrow> (\<exists>check. m = new_Master check)"

section \<open>RPC methods\<close>

text \<open>What a method does to its caller: it has answered or it has queued a task that will.\<close>

definition takes :: "nat \<Rightarrow> master \<Rightarrow> master \<Rightarrow> bool" where
  "takes cb m m' \<longleftrightarrow>
     mset (replies m' @ pending_callbacks m') = add_mset cb (mset (replies m @ pending_callbacks m)) \<and>
     next_callback m' = next_callback m \<and> set (effects m) \<subseteq> set (effects m') \<and>
     (undef m' \<longrightarrow> undef m \<or> Reply cb FailedToRegisterClient \<in> set (effects m'))"

definition admits :: "nat \<Rightarrow> master \<Rightarrow> master \<Rightarrow> bool" where
  "admits cb m m' \<longleftrightarrow> registry_ok m' \<and> takes cb m m'"

lemma admits_reply: "registry_ok m \<Longrightarrow> admits cb m (emit (Reply cb s) m)"
  unfolding admits_def
  by (rule conjI, simp) (auto simp: takes_def emit_def replies_def pending_callbacks_def)

lemma admits_result: "registry_ok m \<Longrightarrow> admits cb m (emit (Reply cb s) (emit (Result cb r) m))"
  unfolding admits_def
  by (rule conjI, simp) (auto simp: takes_def emit_def replies_def pending_callbacks_def)

lemma admits_post:
  assumes "registry_ok m" "task_ok t" "task_nodes t = []" "task_clients t = []"
    "task_callbacks t = [cb]"
  shows "admits cb m (PostTask t m)"
  using registry_post [OF assms(1-4)] assms(5)
  by (simp add: admits_def takes_def PostTask_def replies_def pending_callbacks_def)

lemma admits_with_node_check:
  "registry_ok m \<Longrightarrow> admits cb m (body m) \<Longrightarrow> admits cb m (with_node_check info cb body m)"
  by (auto simp: with_node_check_def admits_reply split: option.splits)

text \<open>Posting the registration of a fresh client or node keeps the registry well formed.\<close>

lemma PostTask_emit: "PostTask t (emit e m) = emit e (PostTask t m)"
  by (simp add: PostTask_def emit_def)

lemma registry_post_client:
  assumes reg: "registry_ok m" and new: "NewClient draw (ids m) info = (Some c, ids')"
    and draws: "\<And>i. draw i \<noteq> RandUint32_InvalidValue"
    and watch: "channel_defs (master_notification_watcher_source info) \<noteq> []"
  shows "registry_ok (PostTask (TRegisterClient c cb) (m\<lparr>ids := ids'\<rparr>))"
proof -
  let ?m1 = "PostTask (TRegisterClient c cb) (m\<lparr>ids := ids'\<rparr>)"
  have ids: "ids_ok m" and gen: "Generator_ok (ids m)"
    using reg by (simp_all add: registry_ok_def ids_ok_def)
  note fresh = NewClient_fresh [OF gen new draws]
  have "watcher_channels c = channel_defs (master_notification_watcher_source info)"
    by (subst fresh(3)) simp
  then have c: "watcher_channels c \<noteq> []" "nodes c = []" using watch fresh(4) by simp_all
  have pend: "pending_clients ?m1 = pending_clients m @ [c]" "pending_nodes ?m1 = pending_nodes m"
      "client_map ?m1 = client_map m" "ids ?m1 = Generator_Add (client_id c) (ids m)"
    using fresh(2) by (simp_all add: PostTask_def pending_clients_def pending_nodes_def)
  have taken: "set (map fst (client_map m) @ map client_id (pending_clients m)) \<subseteq> values_in_use (ids m)"
    using ids by (simp add: ids_ok_def)
  then have "client_id c \<notin> set (map fst (client_map m) @ map client_id (pending_clients m))"
    using fresh(1) by blast
  then have "ids_ok ?m1"
    using ids gen c taken unfolding ids_ok_def pend
    by (simp add: Generator_Add_ok subset_insertI2)
  moreover have "names_ok ?m1"
    using reg by (simp add: registry_ok_def names_ok_def all_nodes_def pend) (simp add: PostTask_def)
  ultimately show ?thesis
    using reg by (simp add: registry_ok_def clients_ok_def single_publisher_def single_server_def
        listeners_ok_def all_nodes_def PostTask_def)
qed

lemma admits_RegisterClient:
  assumes reg: "registry_ok m" and draws: "\<And>i. draw i \<noteq> RandUint32_InvalidValue"
  shows "admits cb m (Master_RegisterClient env draw info cb m)"
proof -
  obtain c ids' where new: "NewClient draw (ids m) info = (c, ids')" by fastforce
  have gen: "Generator_ok (ids m)" using reg by (simp add: registry_ok_def ids_ok_def)
  have none: "admits cb m (undefined_behaviour (emit (Reply cb FailedToRegisterClient) (m\<lparr>ids := ids'\<rparr>)))"
    if "c = None"
  proof -
    have ids': "m\<lparr>ids := ids'\<rparr> = m" using NewClient_None [OF gen] new that draws by fastforce
    have "registry_ok (undefined_behaviour (emit (Reply cb FailedToRegisterClient) m))"
      using reg by (simp add: undefined_behaviour_def emit_def registry_defs)
    then show ?thesis unfolding ids' admits_def
      by (auto simp: takes_def undefined_behaviour_def emit_def replies_def pending_callbacks_def)
  qed
  have some: "admits cb m (PostTask (TRegisterClient c' cb) (emit (Result cb r) (m\<lparr>ids := ids'\<rparr>)))"
    if "c = Some c'" "IsValidChannelSource (net env) (master_notification_watcher_source info)" for c' r
    using registry_post_client [OF reg, of draw info c' ids' cb] new that draws
    unfolding admits_def PostTask_emit
    by (auto simp: IsValidChannelSource_iff takes_def PostTask_def emit_def replies_def
        pending_callbacks_def registry_defs)
  show ?thesis
    using none some by (auto simp: Master_RegisterClient_def new Let_def admits_reply reg
        split: option.splits)
qed

lemma registry_post_node:
  assumes reg: "registry_ok m" and new: "NewNode draw (names m) info = (Some n, names')"
  shows "registry_ok (PostTask (TRegisterNode n cb) (m\<lparr>names := names'\<rparr>))"
proof -
  let ?m1 = "PostTask (TRegisterNode n cb) (m\<lparr>names := names'\<rparr>)"
  have names: "names_ok m" and gen: "Generator_ok (names m)"
    using reg by (simp_all add: registry_ok_def names_ok_def)
  note fresh = NewNode_fresh [OF gen new]
  have pend: "pending_nodes ?m1 = pending_nodes m @ [n]" "pending_clients ?m1 = pending_clients m"
      "all_nodes ?m1 = all_nodes m" "names ?m1 = Generator_Add (name n) (names m)"
    using fresh(3)
    by (simp_all add: PostTask_def pending_clients_def pending_nodes_def all_nodes_def)
  have taken: "set (map name (all_nodes m @ pending_nodes m)) \<subseteq> values_in_use (names m)"
    using names by (simp add: names_ok_def)
  then have "name n \<notin> set (map name (all_nodes m @ pending_nodes m))"
    using fresh(2) by blast
  then have "names_ok ?m1"
    using names gen fresh(5) taken unfolding names_ok_def pend
    by (simp add: Generator_Add_ok subset_insertI2)
  moreover have "ids_ok ?m1"
    using reg by (simp add: registry_ok_def ids_ok_def pend) (simp add: PostTask_def)
  ultimately show ?thesis
    using reg by (simp add: registry_ok_def clients_ok_def single_publisher_def single_server_def
        listeners_ok_def all_nodes_def PostTask_def)
qed

lemma admits_RegisterNode:
  assumes reg: "registry_ok m" and draws: "\<And>i. draw i \<noteq> []"
  shows "admits cb m (Master_RegisterNode draw info cb m)"
proof -
  obtain n names' where new: "NewNode draw (names m) info = (n, names')" by fastforce
  have gen: "Generator_ok (names m)" using reg by (simp add: registry_ok_def names_ok_def)
  have none: "m\<lparr>names := names'\<rparr> = m" if "n = None"
    using NewNode_None [OF gen] new that draws by fastforce
  have some: "admits cb m (PostTask (TRegisterNode n' cb) (emit (Result cb r) (m\<lparr>names := names'\<rparr>)))"
    if "n = Some n'" for n' r
    using registry_post_node [OF reg, of draw info n' names' cb] new that
    unfolding admits_def PostTask_emit
    by (auto simp: takes_def PostTask_def emit_def replies_def pending_callbacks_def registry_defs)
  show ?thesis
    using none some
    by (auto simp: Master_RegisterNode_def new Let_def admits_reply reg split: option.splits)
qed

lemmas queued_call_defs =
  Master_ListClients_def Master_UnregisterNode_def Master_ListNodes_def Master_PublishTopic_def
  Master_UnpublishTopic_def Master_SubscribeTopic_def Master_UnsubscribeTopic_def
  Master_ListTopics_def Master_RegisterServiceClient_def Master_UnregisterServiceClient_def
  Master_RegisterServiceServer_def Master_UnregisterServiceServer_def Master_ListServices_def

lemma admits_handle:
  assumes reg: "registry_ok m" and draws: "draws_in_range draw_id draw_name"
  shows "admits cb m (handle env draw_id draw_name rq cb m)"
  using admits_post [OF reg] admits_reply [OF reg] admits_result [OF reg]
  by (cases rq)
    (auto simp: draws [unfolded draws_in_range_def] reg IsValidChannelSource_iff Let_def
      queued_call_defs
      intro!: admits_RegisterClient admits_RegisterNode admits_with_node_check)

section \<open>The invariant of the machine\<close>

definition master_inv :: "master \<Rightarrow> bool" where
  "master_inv m \<longleftrightarrow> registry_ok m \<and> callbacks_ok m"

lemma master_inv_init: "master_inv (new_Master check)"
  by (simp add: master_inv_def new_Master_def registry_defs callbacks_ok_def
      replies_def pending_callbacks_def Generator_ok_def)

lemma master_inv_receive_call:
  assumes ok: "master_inv m" and draws: "draws_in_range draw_id draw_name"
  shows "master_inv (receive_call env draw_id draw_name rq m)"
proof -
  let ?m0 = "m\<lparr>next_callback := Suc (next_callback m)\<rparr>"
  have "admits (next_callback m) ?m0 (receive_call env draw_id draw_name rq m)"
    unfolding receive_call_def using ok draws by (simp add: admits_handle master_inv_def)
  then show ?thesis
    using ok by (auto simp: master_inv_def admits_def takes_def callbacks_ok_def
        replies_def pending_callbacks_def)
qed

lemma master_inv_settles:
  assumes settles: "settles tcp cbs m0 m'" and reg: "callbacks_ok m"
    and same: "effects m0 = effects m" "next_callback m0 = next_callback m"
    and queue: "pending_callbacks m = cbs @ pending_callbacks m0"
  shows "master_inv m'"
proof -
  have a: "registry_ok m'" "answered tcp cbs m0 m'" using settles by (simp_all add: settles_def)
  then have "mset (replies m' @ pending_callbacks m') = mset (replies m @ pending_callbacks m)"
    using same queue by (simp add: answered_def replies_def pending_callbacks_def)
  with a reg same show ?thesis
    by (auto simp: master_inv_def callbacks_ok_def answered_def)
qed

lemma master_inv_run_next: "master_inv m \<Longrightarrow> tasks m \<noteq> [] \<Longrightarrow> master_inv (run_next env m)"
  by (cases "tasks m")
    (auto simp: run_next_def master_inv_def [of m] pending_callbacks_def
      intro!: master_inv_settles [OF settles_run_task [where tcp = False]])

lemma remove1_unwatched:
  "distinct (map f xs) \<Longrightarrow> x \<in> set xs \<Longrightarrow> f x \<notin> f ` set (remove1 x xs)"
  by (induction xs) (auto, metis image_eqI)

lemma listener_registered:
  assumes ok: "master_inv m" and info: "info \<in> set (listeners m)"
  shows "registry_ok (m\<lparr>listeners := remove1 info (listeners m)\<rparr>)"
    and "ci_id info \<notin> ci_id ` set (listeners (m\<lparr>listeners := remove1 info (listeners m)\<rparr>))"
    and "\<exists>c. fm_find (client_map m) (ci_id info) = Some c"
proof -
  let ?m0 = "m\<lparr>listeners := remove1 info (listeners m)\<rparr>"
  have reg: "registry_ok m" and dist: "distinct (map ci_id (listeners m))"
    using ok by (simp_all add: master_inv_def registry_ok_def listeners_ok_def)
  show "ci_id info \<notin> ci_id ` set (listeners ?m0)"
    using remove1_unwatched [OF dist info] by simp
  have "ci_id ` set (remove1 info (listeners m)) \<subseteq> ci_id ` set (listeners m)"
    using set_remove1_subset by (rule image_mono)
  then have "listeners_ok ?m0"
    using reg dist by (simp add: registry_ok_def listeners_ok_def distinct_map inj_on_def)
      (meson order_trans notin_set_remove1)
  with reg show "registry_ok ?m0"
    by (simp add: registry_ok_def clients_ok_def ids_ok_def names_ok_def single_publisher_def
        single_server_def all_nodes_def pending_nodes_def pending_clients_def)
  show "\<exists>c. fm_find (client_map m) (ci_id info) = Some c"
    using reg info
    by (cases "fm_find (client_map m) (ci_id info)")
      (auto simp: registry_ok_def listeners_ok_def fm_find_None_iff)
qed

lemma master_inv_listener_lost:
  assumes ok: "master_inv m" and info: "info \<in> set (listeners m)"
  shows "master_inv (listener_lost env info m)"
proof -
  let ?m0 = "m\<lparr>listeners := remove1 info (listeners m)\<rparr>"
  note lost = listener_registered [OF assms]
  obtain c where "fm_find (client_map ?m0) (ci_id info) = Some c" using lost(3) by auto
  then have "settles False [] ?m0 (listener_lost env info m)"
    unfolding listener_lost_def using lost(1,2) by (intro settles_RemoveClient(1))
  then show ?thesis
    using ok by (intro master_inv_settles [of False "[]" ?m0])
      (auto simp: master_inv_def pending_callbacks_def)
qed

lemma master_inv_connected:
  assumes "master_inv m"
  shows "master_inv (OnConnetToMasterNotificationWatcher note s m)"
  using assms
  by (auto simp: OnConnetToMasterNotificationWatcher_def Let_def master_inv_def emit_def
      callbacks_ok_def replies_def pending_callbacks_def registry_defs)

lemma master_inv_posted:
  assumes "master_inv m"
  shows "master_inv (NotifyAllSubscribers_posted t m)"
proof -
  have "registry_ok (NotifyAllSubscribers_posted t m)"
    using assms by (simp add: NotifyAllSubscribers_posted_def registry_post master_inv_def)
  with assms show ?thesis
    by (simp add: NotifyAllSubscribers_posted_def PostTask_def master_inv_def callbacks_ok_def
        replies_def pending_callbacks_def)
qed

interpretation master: inductive_invariant master_init "master_step env" master_inv
  for env
proof
  show "master_inv m" if "master_init m" for m
    using that master_inv_init by (auto simp: master_init_def)
  show "master_inv m'" if "master_inv m" "master_step env m m'" for m m'
    using that(2,1)
    by cases (simp_all add: master_inv_receive_call master_inv_run_next master_inv_listener_lost
        master_inv_connected master_inv_posted)
qed

abbreviation master_reachable :: "master_env \<Rightarrow> master \<Rightarrow> bool" where
  "master_reachable env \<equiv> reachable master_init (master_step env)"

section \<open>Clients that can be notified\<close>

text \<open>
  The master whose clients all register a heart beat signaller and a notification watcher on exactly
  one channel each, over TCP, as the clients of this program do: the other steps are those of the
  machine.
\<close>

fun tcp_request :: "request \<Rightarrow> bool" where
  "tcp_request (RegisterClient info) \<longleftrightarrow> one_tcp (channel_defs (master_notification_watcher_source info)) \<and>
     one_tcp (channel_defs (heart_beat_signaller_source info))"
| "tcp_request _ \<longleftrightarrow> True"

inductive tcp_step :: "master_env \<Rightarrow> master \<Rightarrow> master \<Rightarrow> bool" for env :: master_env where
  tcp_call: "draws_in_range draw_id draw_name \<Longrightarrow> tcp_request rq \<Longrightarrow>
    tcp_step env m (receive_call env draw_id draw_name rq m)"
| tcp_run: "tasks m \<noteq> [] \<Longrightarrow> tcp_step env m (run_next env m)"
| tcp_lost: "info \<in> set (listeners m) \<Longrightarrow> tcp_step env m (listener_lost env info m)"
| tcp_connected: "note \<in> set (connecting m) \<Longrightarrow>
    tcp_step env m (OnConnetToMasterNotificationWatcher note s m)"
| tcp_update: "has_ros env \<Longrightarrow> tcp_step env m (NotifyAllSubscribers_posted t m)"

lemma tcp_step_master: "tcp_step env m m' \<Longrightarrow> master_step env m m'"
  by (cases rule: tcp_step.cases) (auto intro: master_step.intros)

abbreviation tcp_reachable :: "master_env \<Rightarrow> master \<Rightarrow> bool" where
  "tcp_reachable env \<equiv> reachable master_init (tcp_step env)"

text \<open>Undefined behaviour can then only follow the answer of a failed client registration.\<close>

definition defined_ok :: "master \<Rightarrow> bool" where
  "defined_ok m \<longleftrightarrow> (undef m \<longrightarrow> (\<exists>cb. Reply cb FailedToRegisterClient \<in> set (effects m)))"

definition tcp_inv :: "master \<Rightarrow> bool" where
  "tcp_inv m \<longleftrightarrow> master_inv m \<and> defined_ok m \<and> watchers_ok m \<and>
     (\<forall>c \<in> set (pending_clients m). client_tcp c)"

lemma handle_client_map: "client_map (handle env draw_id draw_name rq cb m) = client_map m"
  by (cases rq)
    (auto simp: Master_RegisterClient_def Master_RegisterNode_def with_node_check_def Let_def PostTask_def
      undefined_behaviour_def emit_def
      queued_call_defs
      split: option.splits prod.splits)

lemma NewClient_tcp:
  "NewClient draw gen info = (Some c, gen') \<Longrightarrow> tcp_request (RegisterClient info) \<Longrightarrow> client_tcp c"
  by (auto simp: client_tcp_def NewClient_def Let_def split: prod.splits if_splits)

lemma handle_pending:
  "tcp_request rq \<Longrightarrow> c \<in> set (pending_clients (handle env draw_id draw_name rq cb m)) \<Longrightarrow>
     c \<in> set (pending_clients m) \<or> client_tcp c"
  by (cases rq)
    (auto simp: Master_RegisterClient_def Master_RegisterNode_def with_node_check_def Let_def PostTask_def
      undefined_behaviour_def emit_def pending_clients_def
      queued_call_defs
      dest: NewClient_tcp split: option.splits prod.splits if_splits)

lemma tcp_inv_call:
  assumes ok: "tcp_inv m" and draws: "draws_in_range draw_id draw_name" and rq: "tcp_request rq"
  shows "tcp_inv (receive_call env draw_id draw_name rq m)"
proof -
  let ?start = "m\<lparr>next_callback := Suc (next_callback m)\<rparr>" and ?m = "receive_call env draw_id draw_name rq m"
  have "takes (next_callback m) ?start ?m"
    unfolding receive_call_def using ok draws admits_handle [of ?start] by (simp add: admits_def tcp_inv_def master_inv_def)
  then have "defined_ok ?m" using ok by (auto simp: takes_def defined_ok_def tcp_inv_def)
  moreover have "watchers_ok ?m"
    using ok by (simp add: tcp_inv_def watchers_ok_def receive_call_def handle_client_map)
  moreover have "pending_clients ?start = pending_clients m" by (simp add: pending_clients_def)
  then have "client_tcp c" if "c \<in> set (pending_clients ?m)" for c
    using handle_pending [OF rq that [unfolded receive_call_def]] ok by (auto simp: tcp_inv_def)
  ultimately show ?thesis
    using master_inv_receive_call [OF _ draws] ok by (simp add: tcp_inv_def)
qed

lemma tcp_inv_settles:
  assumes "settles True cbs m0 m'" and ok: "tcp_inv m" and m': "master_inv m'"
    and same: "effects m0 = effects m" "undef m0 = undef m" "client_map m0 = client_map m"
      "set (pending_clients m0) \<subseteq> set (pending_clients m)"
  shows "tcp_inv m'"
proof -
  have a: "watchers_ok m0 \<longrightarrow> watchers_ok m' \<and> undef m' = undef m0" "set (effects m0) \<subseteq> set (effects m')" "tasks m' = tasks m0"
    using assms(1) by (simp_all add: settles_def answered_def)
  have "watchers_ok m0" using ok watchers_ok_cong [OF same(3)] by (simp add: tcp_inv_def)
  moreover have "pending_clients m' = pending_clients m0" using a(3) by (simp add: pending_clients_def)
  ultimately show ?thesis using a(1,2) ok m' same by (auto simp: tcp_inv_def defined_ok_def)
qed

lemma tcp_inv_run:
  assumes ok: "tcp_inv m" and "tasks m \<noteq> []"
  shows "tcp_inv (run_next env m)"
proof -
  obtain t ts where t: "tasks m = t # ts" using assms(2) by (cases "tasks m") auto
  have inv: "master_inv m" using ok by (simp add: tcp_inv_def)
  then have reg: "registry_ok m" by (simp add: master_inv_def)
  have "client_tcp c" if "c \<in> set (task_clients t)" for c
    using ok t that by (simp add: tcp_inv_def pending_clients_def)
  from settles_run_task [OF reg t this, where tcp = True and env = env]
  have "settles True (task_callbacks t) (m\<lparr>tasks := ts\<rparr>) (run_next env m)" by (simp add: run_next_def t)
  then show ?thesis
    using ok master_inv_run_next [OF inv assms(2)] by (rule tcp_inv_settles) (simp_all add: pending_clients_def t)
qed

lemma tcp_inv_lost:
  assumes ok: "tcp_inv m" and info: "info \<in> set (listeners m)"
  shows "tcp_inv (listener_lost env info m)"
proof -
  let ?m0 = "m\<lparr>listeners := remove1 info (listeners m)\<rparr>"
  have inv: "master_inv m" using ok by (simp add: tcp_inv_def)
  note lost = listener_registered [OF inv info]
  obtain c where "fm_find (client_map ?m0) (ci_id info) = Some c" using lost(3) by auto
  then have "settles True [] ?m0 (listener_lost env info m)"
    unfolding listener_lost_def using lost(1,2) by (intro settles_RemoveClient(1))
  then show ?thesis
    using ok master_inv_listener_lost [OF inv info] by (rule tcp_inv_settles) (simp_all add: pending_clients_def)
qed

interpretation tcp_master: inductive_invariant master_init "tcp_step env" tcp_inv
  for env
proof
  show "tcp_inv m" if "master_init m" for m
    using that master_inv_init
    by (auto simp: master_init_def tcp_inv_def defined_ok_def watchers_ok_def pending_clients_def new_Master_def)
  show "tcp_inv m'" if ok: "tcp_inv m" and "tcp_step env m m'" for m m'
    using that(2)
  proof cases
    case (tcp_connected n s)
    then show ?thesis
      using ok master_inv_connected
      by (auto simp: tcp_inv_def OnConnetToMasterNotificationWatcher_def Let_def emit_def defined_ok_def
          watchers_ok_def pending_clients_def)
  next
    case (tcp_update t)
    then show ?thesis
      using ok master_inv_posted
      by (auto simp: tcp_inv_def NotifyAllSubscribers_posted_def PostTask_def defined_ok_def watchers_ok_def
          pending_clients_def)
  qed (use ok tcp_inv_call tcp_inv_run tcp_inv_lost in simp_all)
qed

end
