(* ===== verification/Felicia_MasterSpec.thy ===== *)
theory Felicia_MasterSpec
  imports Felicia_MasterMachine
begin

text \<open>
  What the master promises, without its data structures: the set of connected clients and the
  nodes by client id and name.  Every task of the master thread, and the loss of a client,
  refines an operation on this view (in a build without ROS, where the status of an answer does
  not depend on the ROS master).
\<close>

section \<open>The view\<close>

record master_view =
  mv_clients :: "u32 set"
  mv_nodes :: "u32 \<times> string \<Rightarrow> node option"

definition view :: "master \<Rightarrow> master_view" where
  "view m = \<lparr>mv_clients = fst ` set (client_map m),
     mv_nodes = (\<lambda>(k, x). Master_FindNode m \<lparr>ni_name = x, ni_client_id = k, ni_watcher = False\<rparr>)\<rparr>"

abbreviation node_key :: "node_info \<Rightarrow> u32 \<times> string" where
  "node_key info \<equiv> (ni_client_id info, ni_name info)"

definition put_node :: "node_info \<Rightarrow> node \<Rightarrow> master_view \<Rightarrow> master_view" where
  "put_node info n v = v\<lparr>mv_nodes := (mv_nodes v)(node_key info \<mapsto> n)\<rparr>"

definition drop_node :: "node_info \<Rightarrow> master_view \<Rightarrow> master_view" where
  "drop_node info v = v\<lparr>mv_nodes := (mv_nodes v)(node_key info := None)\<rparr>"

definition on_node ::
    "node_info \<Rightarrow> status \<Rightarrow> (node \<Rightarrow> status + node) \<Rightarrow> master_view \<Rightarrow> status \<times> master_view" where
  "on_node info missing f v =
     (case mv_nodes v (node_key info) of
        None \<Rightarrow> (missing, v)
      | Some n \<Rightarrow>
          (case f n of Inl s \<Rightarrow> (s, v) | Inr n' \<Rightarrow> (Status_OK, put_node info n' v)))"

definition guard_node :: "bool \<Rightarrow> status \<Rightarrow> node \<Rightarrow> status + node" where
  "guard_node ok s n' = (if ok then Inr n' else Inl s)"

section \<open>The specification\<close>

definition without_client :: "u32 \<Rightarrow> master_view \<Rightarrow> master_view" where
  "without_client k v = \<lparr>mv_clients = mv_clients v - {k},
     mv_nodes = (\<lambda>q. if fst q = k then None else mv_nodes v q)\<rparr>"

fun task_spec :: "task \<Rightarrow> master_view \<Rightarrow> status \<times> master_view" where
  "task_spec (TRegisterClient c cb) v =
     (Status_OK, v\<lparr>mv_clients := insert (client_id c) (mv_clients v)\<rparr>)"
| "task_spec (TRegisterNode n cb) v =
     (Status_OK, if ni_client_id (node_info n) \<in> mv_clients v then put_node (node_info n) n v else v)"
| "task_spec (TUnregisterNode info cb) v = (Status_OK, drop_node info v)"
| "task_spec (TListNodes f cb) v = (Status_OK, v)"
| "task_spec (TPublishTopic info t cb) v =
     (if ti_topic t \<noteq> [] \<and> (\<exists>n \<in> ran (mv_nodes v). IsPublishingTopic n (ti_topic t))
      then (TopicAlreadyPublishingOnNode info t, v)
      else on_node info (FailedToPublishTopic t)
             (\<lambda>n. Inr (RegisterPublishingTopic t n)) v)"
| "task_spec (TUnpublishTopic info x cb) v =
     on_node info (FailedToUnpublishTopic x)
       (\<lambda>n. guard_node (IsPublishingTopic n x) (TopicNotPublishingOnNode info x)
              (n\<lparr>topic_info_map := fm_erase x (topic_info_map n)\<rparr>)) v"
| "task_spec (TSubscribeTopic info x ty cb) v =
     on_node info (FailedToSubscribeTopic x)
       (\<lambda>n. guard_node (x \<notin> set (subscribing_topics n)) (TopicAlreadySubscribingOnNode info x)
              (n\<lparr>subscribing_topics := subscribing_topics n @ [x]\<rparr>)) v"
| "task_spec (TUnsubscribeTopic info x cb) v =
     on_node info (FailedToUnsubscribeTopic x)
       (\<lambda>n. guard_node (x \<in> set (subscribing_topics n)) (TopicNotSubscribingOnNode info x)
              (n\<lparr>subscribing_topics := remove1 x (subscribing_topics n)\<rparr>)) v"
| "task_spec (TRegisterServiceClient info x cb) v =
     on_node info (FailedToRegisterServiceClient x)
       (\<lambda>n. guard_node (x \<notin> set (requesting_services n)) (ServiceAlreadyRequestingOnNode info x)
              (n\<lparr>requesting_services := requesting_services n @ [x]\<rparr>)) v"
| "task_spec (TUnregisterServiceClient info x cb) v =
     on_node info (FailedToUnregisterServiceClient x)
       (\<lambda>n. guard_node (x \<in> set (requesting_services n)) (ServiceNotRequestingOnNode info x)
              (n\<lparr>requesting_services := remove1 x (requesting_services n)\<rparr>)) v"
| "task_spec (TRegisterServiceServer info s cb) v =
     (if si_service s \<noteq> [] \<and> (\<exists>n \<in> ran (mv_nodes v). IsServingService n (si_service s))
      then (ServiceAlreadyServingOnNode info s, v)
      else on_node info (FailedToRegisterServiceServer s)
             (\<lambda>n. Inr (RegisterServingService s n)) v)"
| "task_spec (TUnregisterServiceServer info x cb) v =
     on_node info (FailedToUnregisterServiceServer x)
       (\<lambda>n. guard_node (IsServingService n x) (ServiceNotServingOnNode info x)
              (n\<lparr>service_info_map := fm_erase x (service_info_map n)\<rparr>)) v"
| "task_spec (TNotifyAllSubscribers t) v = (Status_OK, v)"

section \<open>The view of a well-formed registry\<close>

lemma Master_FindNode_view: "Master_FindNode m info = mv_nodes (view m) (node_key info)"
  by (auto simp: view_def Master_FindNode_def Client_FindNode_def NodeNameChecker_def [abs_def]
      split: option.splits)

lemma distinct_name_eq:
  "distinct (map name ns) \<Longrightarrow> a \<in> set ns \<Longrightarrow> b \<in> set ns \<Longrightarrow> name a = name b \<Longrightarrow> a = b"
  by (meson distinct_map inj_onD)

lemma view_nodes_iff:
  assumes reg: "registry_ok m"
  shows "mv_nodes (view m) (k, x) = Some n \<longleftrightarrow>
           n \<in> set (all_nodes m) \<and> ni_client_id (node_info n) = k \<and> name n = x"
    (is "?l \<longleftrightarrow> ?r")
proof
  have fm: "fm_ok (client_map m)" and entries: "\<forall>e \<in> set (client_map m). client_entry_ok e"
    and dist: "distinct (map name (all_nodes m))"
    using reg by (simp_all add: registry_ok_def clients_ok_def names_ok_def)
  {
    assume ?l
    then obtain c where c: "(k, c) \<in> set (client_map m)" "n \<in> set (nodes c)" "name n = x"
      by (auto simp: view_def Master_FindNode_def dest!: fm_find_mem Client_FindNode_Some
          split: option.splits)
    moreover have "client_entry_ok (k, c)" using entries c(1) by blast
    ultimately show ?r by (auto simp: in_all_nodes client_entry_ok_def intro!: bexI [of _ "(k, c)"])
  next
    assume r: ?r
    then obtain k' c where c: "(k', c) \<in> set (client_map m)" "n \<in> set (nodes c)"
      by (auto simp: in_all_nodes)
    have "client_entry_ok (k', c)" using entries c(1) by blast
    with r c(2) have "k' = k" by (auto simp: client_entry_ok_def)
    with c fm have find: "fm_find (client_map m) k = Some c" by (simp add: fm_find_iff)
    let ?info = "\<lparr>ni_name = x, ni_client_id = k, ni_watcher = False\<rparr>"
    have "Client_HasNode c ?info" using r c(2) by (auto simp: Client_HasNode_iff)
    then obtain n' where n': "Client_FindNode c ?info = Some n'"
      using Client_FindNode_None by fastforce
    then have "n' \<in> set (nodes c)" "name n' = x" by (auto dest!: Client_FindNode_Some)
    moreover from this c(1) have "n' \<in> set (all_nodes m)" by (force simp: in_all_nodes)
    ultimately have "n' = n" using distinct_name_eq [OF dist, of n' n] r by simp
    with find n' show ?l by (simp add: view_def Master_FindNode_def)
  }
qed

lemma ran_view: "registry_ok m \<Longrightarrow> ran (mv_nodes (view m)) = set (all_nodes m)"
  by (force simp: ran_def view_nodes_iff)

lemma view_quiet: "quiet m m' \<Longrightarrow> view m' = view m"
  by (simp add: quiet_def view_def Master_FindNode_def)

lemma view_emit [simp]: "view (emit e m) = view m"
  by (simp add: view_def Master_FindNode_def)

lemma view_tasks [simp]: "view (m\<lparr>tasks := ts\<rparr>) = view m"
  by (simp add: view_def)

lemma view_update:
  assumes reg: "registry_ok m" "registry_ok (Master_UpdateNode info f m)"
    and find: "Master_FindNode m info = Some n" and same: "node_info (f n) = node_info n"
  shows "view (Master_UpdateNode info f m) = put_node info (f n) (view m)"
proof (rule master_view.equality)
  have fm: "fm_ok (client_map m)" using reg(1) by (simp add: registry_ok_def clients_ok_def)
  obtain us vs where nodes: "all_nodes m = us @ n # vs"
      "all_nodes (Master_UpdateNode info f m) = us @ f n # vs"
    using all_nodes_UpdateNode [OF fm find] by blast
  have dist: "distinct (map name (us @ n # vs))"
    using reg(1) unfolding registry_ok_def names_ok_def nodes(1) [symmetric] by simp
  then have others: "name u \<noteq> name n" if "u \<in> set us \<or> u \<in> set vs" for u
    using that by (auto simp: image_iff)
  have key: "node_key info = node_key (node_info n)"
    using find view_nodes_iff [OF reg(1)] by (simp add: Master_FindNode_view)
  have "mv_nodes (view (Master_UpdateNode info f m)) (k, x) =
      mv_nodes (put_node info (f n) (view m)) (k, x)" for k x
    using others key same
    by (intro option_eqI)
      (auto simp: view_nodes_iff [OF reg(1)] view_nodes_iff [OF reg(2)] nodes put_node_def)
  then show "mv_nodes (view (Master_UpdateNode info f m)) = mv_nodes (put_node info (f n) (view m))"
    by auto
  obtain us' c ns ms vs' where "client_map m = us' @ (ni_client_id info, c) # vs'"
    "client_map (Master_UpdateNode info f m) =
       us' @ (ni_client_id info, c\<lparr>nodes := ns @ f n # ms\<rparr>) # vs'"
    using Master_UpdateNode_split [OF fm find] by metis
  then show "mv_clients (view (Master_UpdateNode info f m)) = mv_clients (put_node info (f n) (view m))"
    by (simp add: view_def put_node_def)
qed simp

section \<open>Tasks refine the specification\<close>

definition performs :: "nat list \<Rightarrow> master \<Rightarrow> status \<times> master_view \<Rightarrow> bool" where
  "performs cbs m' r \<longleftrightarrow>
     view m' = snd r \<and> (\<forall>cb \<in> set cbs. Reply cb (fst r) \<in> set (effects m'))"

lemma performs_reply: "view m = v \<Longrightarrow> performs [cb] (emit (Reply cb s) m) (s, v)"
  by (simp add: performs_def) (simp add: emit_def)

lemma performs_quiet: "performs cbs m r \<Longrightarrow> quiet m m' \<Longrightarrow> performs cbs m' r"
  using view_quiet [of m m'] unfolding performs_def quiet_def by auto

lemma performs_on_node:
  assumes "mv_nodes v (node_key info) = None \<Longrightarrow> performs cbs m (missing, v)"
    and "\<And>n s. mv_nodes v (node_key info) = Some n \<Longrightarrow> f n = Inl s \<Longrightarrow> performs cbs m (s, v)"
    and "\<And>n n'. mv_nodes v (node_key info) = Some n \<Longrightarrow> f n = Inr n' \<Longrightarrow>
      performs cbs m (Status_OK, put_node info n' v)"
  shows "performs cbs m (on_node info missing f v)"
  using assms by (auto simp: on_node_def split: option.splits sum.splits)

lemma view_settled:
  assumes "registry_ok m" "Master_FindNode m info = Some n"
    and "settles tcp [] m (Master_UpdateNode info f m)" "node_info (f n) = node_info n"
  shows "view (Master_UpdateNode info f m) = put_node info (f n) (view m)"
  using assms by (intro view_update) (simp_all add: settles_def)

text \<open>A change of the subscriptions or requests of a node.\<close>

lemma view_plain_update:
  assumes reg: "registry_ok m" and find: "Master_FindNode m info = Some n"
    and ok: "node_ok n \<Longrightarrow> node_ok (f n)" and same: "node_info (f n) = node_info n"
      "topic_info_map (f n) = topic_info_map n" "service_info_map (f n) = service_info_map n"
  shows "view (Master_UpdateNode info f m) = put_node info (f n) (view m)"
proof -
  have "settles tcp [] m (Master_UpdateNode info f m)"
    using registry_found [OF reg find] ok same
    by (intro settles_update [OF reg find])
      (auto simp: services_reachable_def IsPublishingTopic_def IsServingService_def)
  with reg find show ?thesis using same(1) by (rule view_settled)
qed

lemma no_ros [simp]: "\<not> has_ros env \<Longrightarrow> ros_name env x = None"
  by (simp add: ros_name_def)

lemma find_nodes_empty_filter: "Master_FindNodes m empty_node_filter = []"
proof -
  have "find_nodes_all empty_node_filter es = []" for es
    by (induction es) (simp_all add: Client_FindNodes_def empty_node_filter_def)
  then show ?thesis by (simp add: Master_FindNodes_def) (simp add: empty_node_filter_def)
qed

lemma find_publishing_view:
  "registry_ok m \<Longrightarrow> Master_FindNodes m (empty_node_filter\<lparr>nf_publishing_topic := x\<rparr>) = [] \<longleftrightarrow>
     \<not> (x \<noteq> [] \<and> (\<exists>n \<in> ran (mv_nodes (view m)). IsPublishingTopic n x))"
  using find_nodes_empty_filter [of m]
  by (cases "x = []") (auto simp: ran_view find_publishing_Nil, simp add: empty_node_filter_def)

lemma find_serving_view:
  "registry_ok m \<Longrightarrow> Master_FindNodes m (empty_node_filter\<lparr>nf_serving_service := x\<rparr>) = [] \<longleftrightarrow>
     \<not> (x \<noteq> [] \<and> (\<exists>n \<in> ran (mv_nodes (view m)). IsServingService n x))"
  using find_nodes_empty_filter [of m]
  by (cases "x = []") (auto simp: ran_view find_serving_Nil, simp add: empty_node_filter_def)

lemmas performs_calls =
  performs_reply performs_quiet [OF _ quiet_NotifyAllSubscribers]
  performs_quiet [OF _ quiet_NotifySubscriber] performs_quiet [OF _ quiet_NotifyAllServiceClients]
  performs_quiet [OF _ quiet_NotifyServiceClient] performs_quiet [OF _ quiet_NotifyWatcher]

lemma performs_DoPublishTopic:
  assumes reg: "registry_ok m" and ros: "\<not> has_ros env"
  shows "performs [cb] (DoPublishTopic env info t cb m) (task_spec (TPublishTopic info t cb) (view m))"
proof (cases "Master_FindNodes m (empty_node_filter\<lparr>nf_publishing_topic := ti_topic t\<rparr>)")
  case Nil
  have "view (Master_UpdateNode info (RegisterPublishingTopic t) m) =
      put_node info (RegisterPublishingTopic t n) (view m)" if "Master_FindNode m info = Some n" for n
    using view_settled [OF reg that settles_RegisterPublishingTopic [OF reg that Nil]] by simp
  then show ?thesis
    using Nil find_publishing_view [OF reg, of "ti_topic t"]
    by (auto simp: DoPublishTopic_def ros Let_def Master_FindNode_view split: option.splits
        intro!: performs_on_node performs_calls)
next
  case (Cons n ns)
  then show ?thesis
    using find_publishing_view [OF reg, of "ti_topic t"]
    by (auto simp: DoPublishTopic_def intro!: performs_reply)
qed

lemma performs_DoUnpublishTopic:
  assumes reg: "registry_ok m" and ros: "\<not> has_ros env"
  shows "performs [cb] (DoUnpublishTopic env info x cb m) (task_spec (TUnpublishTopic info x cb) (view m))"
proof (cases "Master_FindNode m info")
  case (Some n)
  show ?thesis
  proof (cases "IsPublishingTopic n x")
    case True
    let ?n' = "n\<lparr>topic_info_map := fm_erase x (topic_info_map n)\<rparr>"
    have un: "UnregisterPublishingTopic x n = Some ?n'" using True
      by (simp add: UnregisterPublishingTopic_Some)
    obtain t where t: "GetTopicInfo n x = Some t"
      using True by (auto simp: GetTopicInfo_def IsPublishingTopic_def)
    have "view (Master_UpdateNode info (\<lambda>_. ?n') m) = put_node info ?n' (view m)"
      using view_settled [OF reg Some settles_UnregisterPublishingTopic [OF reg Some un]] by simp
    with Some True un t show ?thesis
      by (auto simp: DoUnpublishTopic_def ros Let_def guard_node_def on_node_def
          Master_FindNode_view intro!: performs_calls)
  qed (use Some in \<open>auto simp: DoUnpublishTopic_def guard_node_def on_node_def
      Master_FindNode_view intro!: performs_reply\<close>)
qed (auto simp: DoUnpublishTopic_def on_node_def Master_FindNode_view intro!: performs_reply)

lemma remove_all_distinct: "distinct xs \<Longrightarrow> filter (\<lambda>y. y \<noteq> x) xs = remove1 x xs"
  by (induction xs) (auto simp: filter_id_conv)

lemma performs_DoSubscribeTopic:
  assumes reg: "registry_ok m" and ros: "\<not> has_ros env"
  shows "performs [cb] (DoSubscribeTopic env info x ty cb m)
    (task_spec (TSubscribeTopic info x ty cb) (view m))"
proof -
  have "view (Master_UpdateNode info (RegisterSubscribingTopic x) m) =
      put_node info (n\<lparr>subscribing_topics := subscribing_topics n @ [x]\<rparr>) (view m)"
    if "Master_FindNode m info = Some n" "x \<notin> set (subscribing_topics n)" for n
    using view_plain_update [OF reg that(1), of "RegisterSubscribingTopic x"] that(2)
      RegisterSubscribingTopic_ok [of n x]
    by (simp add: IsSubsribingTopic_iff RegisterSubscribingTopic_def)
  then show ?thesis
    by (auto simp: DoSubscribeTopic_def ros Let_def Master_FindNode_view guard_node_def
        IsSubsribingTopic_iff split: option.splits if_splits intro!: performs_on_node performs_calls)
qed

lemma performs_DoUnsubscribeTopic:
  assumes reg: "registry_ok m" and ros: "\<not> has_ros env"
  shows "performs [cb] (DoUnsubscribeTopic env info x cb m)
    (task_spec (TUnsubscribeTopic info x cb) (view m))"
proof -
  have "view (Master_UpdateNode info (UnregisterSubscribingTopic x) m) =
      put_node info (n\<lparr>subscribing_topics := remove1 x (subscribing_topics n)\<rparr>) (view m)"
    if "Master_FindNode m info = Some n" for n
    using view_plain_update [OF reg that, of "UnregisterSubscribingTopic x"]
      UnregisterSubscribingTopic_ok [of n x] registry_found(1) [OF reg that]
    by (simp add: UnregisterSubscribingTopic_def node_ok_def remove_all_distinct)
  then show ?thesis
    by (auto simp: DoUnsubscribeTopic_def ros Let_def Master_FindNode_view guard_node_def
        IsSubsribingTopic_iff split: option.splits if_splits intro!: performs_on_node performs_calls)
qed

lemma performs_DoRegisterServiceClient:
  assumes reg: "registry_ok m" and ros: "\<not> has_ros env"
  shows "performs [cb] (DoRegisterServiceClient env info x cb m)
    (task_spec (TRegisterServiceClient info x cb) (view m))"
proof -
  have "view (Master_UpdateNode info (RegisterRequestingService x) m) =
      put_node info (n\<lparr>requesting_services := requesting_services n @ [x]\<rparr>) (view m)"
    if "Master_FindNode m info = Some n" "x \<notin> set (requesting_services n)" for n
    using view_plain_update [OF reg that(1), of "RegisterRequestingService x"] that(2)
      RegisterRequestingService_ok [of n x]
    by (simp add: IsRequestingService_iff RegisterRequestingService_def)
  then show ?thesis
    by (auto simp: DoRegisterServiceClient_def ros Let_def Master_FindNode_view guard_node_def
        IsRequestingService_iff split: option.splits if_splits intro!: performs_on_node performs_calls)
qed

lemma performs_DoUnregisterServiceClient:
  assumes reg: "registry_ok m"
  shows "performs [cb] (DoUnregisterServiceClient info x cb m)
    (task_spec (TUnregisterServiceClient info x cb) (view m))"
proof -
  have "view (Master_UpdateNode info (UnregisterRequestingService x) m) =
      put_node info (n\<lparr>requesting_services := remove1 x (requesting_services n)\<rparr>) (view m)"
    if "Master_FindNode m info = Some n" for n
    using view_plain_update [OF reg that, of "UnregisterRequestingService x"]
      UnregisterRequestingService_ok [of n x] registry_found(1) [OF reg that]
    by (simp add: UnregisterRequestingService_def node_ok_def remove_all_distinct)
  then show ?thesis
    by (auto simp: DoUnregisterServiceClient_def Master_FindNode_view guard_node_def
        IsRequestingService_iff split: option.splits if_splits intro!: performs_on_node performs_calls)
qed

lemma performs_DoRegisterServiceServer:
  assumes reg: "registry_ok m" and ros: "\<not> has_ros env" and chan: "channel_defs (service_source s) \<noteq> []"
  shows "performs [cb] (DoRegisterServiceServer env info s cb m)
    (task_spec (TRegisterServiceServer info s cb) (view m))"
proof (cases "Master_FindNodes m (empty_node_filter\<lparr>nf_serving_service := si_service s\<rparr>)")
  case Nil
  have "view (Master_UpdateNode info (RegisterServingService s) m) =
      put_node info (RegisterServingService s n) (view m)" if "Master_FindNode m info = Some n" for n
    using view_settled [OF reg that settles_RegisterServingService [OF reg that Nil chan]] by simp
  then show ?thesis
    using Nil find_serving_view [OF reg, of "si_service s"]
    by (auto simp: DoRegisterServiceServer_def ros Let_def Master_FindNode_view split: option.splits
        intro!: performs_on_node performs_calls)
next
  case (Cons n ns)
  then show ?thesis
    using find_serving_view [OF reg, of "si_service s"]
    by (auto simp: DoRegisterServiceServer_def intro!: performs_reply)
qed

lemma performs_DoUnregisterServiceServer:
  assumes reg: "registry_ok m" and ros: "\<not> has_ros env"
  shows "performs [cb] (DoUnregisterServiceServer env info x cb m)
    (task_spec (TUnregisterServiceServer info x cb) (view m))"
proof (cases "Master_FindNode m info")
  case (Some n)
  show ?thesis
  proof (cases "IsServingService n x")
    case True
    let ?n' = "n\<lparr>service_info_map := fm_erase x (service_info_map n)\<rparr>"
    have un: "UnregisterServingService x n = Some ?n'" using True
      by (simp add: UnregisterServingService_Some)
    obtain s where s: "GetServiceInfo n x = Some s"
      using True by (auto simp: GetServiceInfo_def IsServingService_def)
    have "view (Master_UpdateNode info (\<lambda>_. ?n') m) = put_node info ?n' (view m)"
      using view_settled [OF reg Some settles_UnregisterServingService [OF reg Some un]] by simp
    with Some True un s show ?thesis
      by (auto simp: DoUnregisterServiceServer_def ros Let_def guard_node_def on_node_def
          Master_FindNode_view intro!: performs_calls)
  qed (use Some in \<open>auto simp: DoUnregisterServiceServer_def guard_node_def on_node_def
      Master_FindNode_view intro!: performs_reply\<close>)
qed (auto simp: DoUnregisterServiceServer_def on_node_def Master_FindNode_view intro!: performs_reply)

text \<open>Two states have related views when their clients and the sets of their nodes are related.\<close>

lemma view_eqI:
  assumes "registry_ok m'" and "fst ` set (client_map m') = mv_clients v"
    and "\<And>k x n. mv_nodes v (k, x) = Some n \<longleftrightarrow>
      n \<in> set (all_nodes m') \<and> ni_client_id (node_info n) = k \<and> name n = x"
  shows "view m' = v"
proof (rule master_view.equality)
  have "mv_nodes (view m') (k, x) = mv_nodes v (k, x)" for k x
    by (rule option_eqI) (simp add: view_nodes_iff [OF assms(1)] assms(3))
  then show "mv_nodes (view m') = mv_nodes v" by auto
qed (simp_all add: view_def assms(2))

lemma mv_clients_view: "mv_clients (view m) = fst ` set (client_map m)"
  by (simp add: view_def)

lemma registry_fm: "registry_ok m \<Longrightarrow> fm_ok (client_map m)"
  by (simp add: registry_ok_def clients_ok_def)

lemma registry_owner:
  assumes "registry_ok m" "(k, c) \<in> set (client_map m)" "n \<in> set (nodes c)"
  shows "ni_client_id (node_info n) = k"
  using assms by (force simp: registry_ok_def clients_ok_def client_entry_ok_def)

lemma performs_DoRegisterClient:
  assumes reg: "registry_ok m" and tasks: "tasks m = TRegisterClient c cb # ts"
  shows "performs [cb] (DoRegisterClient c cb (m\<lparr>tasks := ts\<rparr>))
    (task_spec (TRegisterClient c cb) (view m))"
proof -
  let ?m = "DoRegisterClient c cb (m\<lparr>tasks := ts\<rparr>)"
  note fresh = pending_client_fresh [OF reg tasks]
  have cm: "client_map ?m = fm_insert_or_assign (client_id c) c (client_map m)"
    and eff: "effects ?m = effects m @ [Reply cb Status_OK]"
    using fresh(1)
    by (simp_all add: DoRegisterClient_def DoCheckHeartBeat_def AddClient_def emit_def undefined_behaviour_def Let_def)
  have reg': "registry_ok ?m" using settles_DoRegisterClient [OF reg tasks] by (simp add: settles_def)
  have set: "set (client_map ?m) = insert (client_id c, c) (set (client_map m))"
    using fresh(1) by (auto simp: cm fm_insert_set [OF registry_fm [OF reg]] fm_find_None_iff image_iff)
  have "nodes c = []"
    using reg tasks by (simp add: registry_ok_def ids_ok_def pending_clients_def)
  then have "set (all_nodes ?m) = set (all_nodes m)" by (auto simp: in_all_nodes set)
  then have "view ?m = snd (task_spec (TRegisterClient c cb) (view m))"
    by (intro view_eqI [OF reg']) (simp_all add: set mv_clients_view view_nodes_iff [OF reg])
  then show ?thesis by (simp add: performs_def eff)
qed

lemma AddNode_nodes:
  assumes reg: "registry_ok m" and find: "fm_find (client_map m) (ni_client_id (node_info n)) = Some c"
    and cm: "client_map m' = fm_insert_or_assign (ni_client_id (node_info n)) (Client_AddNode n c) (client_map m)"
  shows "set (all_nodes m') = insert n (set (all_nodes m))"
    and "fst ` set (client_map m') = fst ` set (client_map m)"
proof -
  obtain us vs where "client_map m = us @ (ni_client_id (node_info n), c) # vs"
      "client_map m' = us @ (ni_client_id (node_info n), Client_AddNode n c) # vs"
    using fm_assign_split [OF registry_fm [OF reg] find] cm by metis
  then show "set (all_nodes m') = insert n (set (all_nodes m))"
    and "fst ` set (client_map m') = fst ` set (client_map m)"
    by (auto simp: all_nodes_def)
qed

lemma performs_DoRegisterNode:
  assumes reg: "registry_ok m" and tasks: "tasks m = TRegisterNode n cb # ts"
  shows "performs [cb] (DoRegisterNode n cb (m\<lparr>tasks := ts\<rparr>))
    (task_spec (TRegisterNode n cb) (view m))"
proof -
  let ?m = "AddNode n (m\<lparr>tasks := ts\<rparr>)"
  have reg': "registry_ok ?m" using settles_AddNode [OF reg tasks] by (simp add: settles_def)
  have "view ?m = snd (task_spec (TRegisterNode n cb) (view m))"
  proof (cases "fm_find (client_map m) (ni_client_id (node_info n))")
    case None
    then have "ni_client_id (node_info n) \<notin> mv_clients (view m)"
      by (simp add: fm_find_None_iff mv_clients_view)
    moreover have "client_map ?m = client_map m"
      using None by (simp add: AddNode_def Let_def undefined_behaviour_def split: option.splits)
    ultimately show ?thesis by (simp add: view_def Master_FindNode_def)
  next
    case (Some c)
    then have "client_map ?m =
        fm_insert_or_assign (ni_client_id (node_info n)) (Client_AddNode n c) (client_map m)"
      by (simp add: AddNode_def Let_def)
    note nodes = AddNode_nodes [OF reg Some this]
    have "ni_client_id (node_info n) \<in> mv_clients (view m)"
      using fm_find_mem [OF Some] by (force simp: mv_clients_view)
    moreover have "name x \<noteq> name n" if "x \<in> set (all_nodes m)" for x
      using pending_node_fresh(3) [OF reg tasks] that by (metis UnI1 image_eqI)
    ultimately show ?thesis
      by (intro view_eqI [OF reg'])
        (auto simp: nodes mv_clients_view put_node_def view_nodes_iff [OF reg])
  qed
  then show ?thesis
    by (auto simp: DoRegisterNode_def Let_def intro!: performs_calls)
qed

lemma RemoveNode_nodes:
  assumes reg: "registry_ok m" and find: "fm_find (client_map m) (ni_client_id info) = Some c"
    and cm: "client_map m' = fm_insert_or_assign (ni_client_id info)
      (c\<lparr>nodes := filter (\<lambda>n. \<not> NodeNameChecker info n) (nodes c)\<rparr>) (client_map m)"
  shows "set (all_nodes m') = {n \<in> set (all_nodes m). node_key (node_info n) \<noteq> node_key info}"
    and "fst ` set (client_map m') = fst ` set (client_map m)"
proof -
  let ?k = "ni_client_id info"
  obtain us vs where split: "client_map m = us @ (?k, c) # vs" "?k \<notin> fst ` set (us @ vs)"
      "client_map m' =
         us @ (?k, c\<lparr>nodes := filter (\<lambda>n. \<not> NodeNameChecker info n) (nodes c)\<rparr>) # vs"
    using fm_assign_split [OF registry_fm [OF reg] find] cm by metis
  have own: "ni_client_id (node_info n) = k" if "(k, d) \<in> set (us @ (?k, c) # vs)" "n \<in> set (nodes d)" for k d n
    using registry_owner [OF reg] that by (simp add: split(1))
  have "ni_client_id (node_info n) \<noteq> ?k" if "(k, d) \<in> set (us @ vs)" "n \<in> set (nodes d)" for k d n
    using own [of k d n] that split(2) by force
  moreover have "ni_client_id (node_info n) = ?k" if "n \<in> set (nodes c)" for n
    using own [of ?k c n] that by simp
  ultimately show "set (all_nodes m') = {n \<in> set (all_nodes m). node_key (node_info n) \<noteq> node_key info}"
    by (auto simp: all_nodes_def split NodeNameChecker_def) blast+
  show "fst ` set (client_map m') = fst ` set (client_map m)" by (simp add: split)
qed

lemma view_RemoveNode:
  assumes reg: "registry_ok m"
  shows "view (RemoveNode env info m) = drop_node info (view m)"
proof (cases "fm_find (client_map m) (ni_client_id info)")
  case None
  then have "Master_FindNode m info = None" by (simp add: Master_FindNode_def)
  then have "mv_nodes (view m) (node_key info) = None" by (simp add: Master_FindNode_view)
  then have "drop_node info (view m) = view m" by (simp add: drop_node_def fun_upd_idem)
  then show ?thesis
    using settles_RemoveNode_gone(2) [OF reg None] by (simp add: view_def Master_FindNode_def)
next
  case (Some c)
  note nodes = RemoveNode_nodes [OF reg Some settles_RemoveNode_found(2) [OF reg Some]]
  have "registry_ok (RemoveNode env info m)"
    using settles_RemoveNode [OF reg] by (simp add: settles_def)
  then show ?thesis
    by (rule view_eqI) (auto simp: nodes mv_clients_view drop_node_def view_nodes_iff [OF reg])
qed

lemma view_RemoveClient:
  assumes reg: "registry_ok m" and find: "fm_find (client_map m) (ci_id info) = Some c"
    and unwatched: "ci_id info \<notin> ci_id ` set (listeners m)"
  shows "view (RemoveClient env info m) = without_client (ci_id info) (view m)"
proof -
  let ?m = "RemoveClient env info m"
  note remove = settles_RemoveClient [OF reg find unwatched, where env = env]
  have set: "set (client_map ?m) = {p \<in> set (client_map m). fst p \<noteq> ci_id info}"
    by (simp add: remove(2) fm_erase_set [OF registry_fm [OF reg]])
  have "registry_ok ?m" using remove(1) by (simp add: settles_def)
  moreover have "fst ` set (client_map ?m) = mv_clients (without_client (ci_id info) (view m))"
    by (auto simp: set without_client_def mv_clients_view)
  moreover have "set (all_nodes ?m) =
      {n \<in> set (all_nodes m). ni_client_id (node_info n) \<noteq> ci_id info}"
    using registry_owner [OF reg] by (force simp: in_all_nodes set)
  ultimately show ?thesis
    by (intro view_eqI) (auto simp: without_client_def view_nodes_iff [OF reg])
qed

lemma performs_DoUnregisterNode:
  assumes "registry_ok m"
  shows "performs [cb] (DoUnregisterNode env info cb m) (task_spec (TUnregisterNode info cb) (view m))"
  by (auto simp: DoUnregisterNode_def view_RemoveNode [OF assms] intro!: performs_reply)

lemma performs_run_task:
  assumes reg: "registry_ok m" and tasks: "tasks m = t # ts" and ros: "\<not> has_ros env"
  shows "performs (task_callbacks t) (run_task env t (m\<lparr>tasks := ts\<rparr>)) (task_spec t (view m))"
proof -
  let ?m = "m\<lparr>tasks := ts\<rparr>"
  have pop: "registry_ok ?m" using reg tasks by (rule registry_pop)
  have "task_ok t" using reg tasks by (simp add: registry_ok_def)
  moreover have "performs [] (NotifyAllSubscribers x ?m) (s, view ?m)" for x s
    by (rule performs_quiet [OF _ quiet_NotifyAllSubscribers]) (simp add: performs_def)
  moreover have "performs [cb] (DoListNodes f cb ?m) (Status_OK, view ?m)" for f cb
    unfolding DoListNodes_def Let_def by (rule performs_reply) simp
  ultimately show ?thesis
    using performs_DoPublishTopic [OF pop ros] performs_DoUnpublishTopic [OF pop ros]
      performs_DoSubscribeTopic [OF pop ros] performs_DoUnsubscribeTopic [OF pop ros]
      performs_DoRegisterServiceClient [OF pop ros] performs_DoUnregisterServiceClient [OF pop]
      performs_DoRegisterServiceServer [OF pop ros] performs_DoUnregisterServiceServer [OF pop ros]
      performs_DoUnregisterNode [OF pop] performs_DoRegisterClient [OF reg]
      performs_DoRegisterNode [OF reg] tasks
    by (cases t) (simp_all only: view_tasks run_task.simps task_callbacks.simps task_spec.simps task_ok.simps)
qed

text \<open>An RPC method by itself changes neither clients nor nodes.\<close>

lemma view_fields [simp]:
  "view (PostTask t m) = view m" "view (m\<lparr>ids := g\<rparr>) = view m" "view (m\<lparr>names := h\<rparr>) = view m"
  "view (undefined_behaviour m) = view m" "view (m\<lparr>next_callback := k\<rparr>) = view m"
  "view (m\<lparr>listeners := l\<rparr>) = view m"
  by (simp_all add: view_def Master_FindNode_def PostTask_def undefined_behaviour_def)

lemma view_with_node_check: "view (body m) = view m \<Longrightarrow> view (with_node_check info cb body m) = view m"
  by (simp add: with_node_check_def split: option.splits)

lemma view_receive_call: "view (receive_call env draw_id draw_name rq m) = view m"
  unfolding receive_call_def
  by (cases rq)
    (simp_all add: view_with_node_check Let_def split_def Master_RegisterClient_def
      Master_RegisterNode_def Master_ListClients_def Master_UnregisterNode_def Master_ListNodes_def
      Master_PublishTopic_def Master_UnpublishTopic_def Master_SubscribeTopic_def
      Master_UnsubscribeTopic_def Master_ListTopics_def Master_RegisterServiceClient_def
      Master_UnregisterServiceClient_def Master_RegisterServiceServer_def
      Master_UnregisterServiceServer_def Master_ListServices_def split: option.splits)

end
