(* ===== verification/Felicia_MasterProps.thy ===== *)
theory Felicia_MasterProps
  imports Felicia_MasterSpec
begin

text \<open>
  The properties of the master: what holds in every reachable state, what each operation does
  to the registry and to its callers, and a concrete environment and run for the witnesses.
\<close>

section \<open>A concrete run\<close>

definition demo_env :: master_env where
  "demo_env = \<lparr>net = \<lparr>AssignFromIPLiteral = (\<lambda>_. Some [127, 0, 0, 1]), ResolveHost = (\<lambda>_. (0, [])),
       ErrorToString = (\<lambda>_. [])\<rparr>,
     ros = \<lparr>this_node_name = ''/felicia'', server_uri = ''http://localhost'',
       ros_execute = (\<lambda>_ _. True), publisher_uris = (\<lambda>_ _. []), service_uri = (\<lambda>_ _. []),
       request_topic = (\<lambda>_ _ _ _. ExecuteFailed), splitURI = (\<lambda>_. None)\<rparr>,
     has_ros = False, debug_string = (\<lambda>_. [])\<rparr>"

definition demo_source :: "u32 \<Rightarrow> channel_source" where
  "demo_source p = \<lparr>channel_defs = [default_channel_def\<lparr>cd_type := CHANNEL_TYPE_TCP,
     cd_ip_endpoint := Some \<lparr>ip = ''127.0.0.1'', port = p\<rparr>\<rparr>]\<rparr>"

definition demo_client :: "u32 \<Rightarrow> client_info" where
  "demo_client p = \<lparr>ci_id = 0, heart_beat_signaller_source = demo_source p,
     master_notification_watcher_source = demo_source (p + 1), heart_beat_duration = 0\<rparr>"

definition demo_node :: "string \<Rightarrow> u32 \<Rightarrow> bool \<Rightarrow> node_info" where
  "demo_node n c w = \<lparr>ni_name = n, ni_client_id = c, ni_watcher = w\<rparr>"

definition demo_topic :: "string \<Rightarrow> topic_info" where
  "demo_topic t = \<lparr>ti_topic = t, ti_type_name = ''T'', ti_impl_type = PROTOBUF,
     topic_source = demo_source 9000, ti_status = REGISTERED, ti_ros_node_name = []\<rparr>"

definition demo_call :: "request \<Rightarrow> master \<Rightarrow> master" where
  "demo_call = receive_call demo_env (\<lambda>i. if i = 1 then 1 else 2) (\<lambda>_. ''x'')"

text \<open>A call and the task it posts.\<close>

definition demo_rpc :: "request \<Rightarrow> master \<Rightarrow> master" where
  "demo_rpc rq m = run_next demo_env (demo_call rq m)"

definition demo_master :: master where
  "demo_master = fold demo_rpc
     [RegisterClient (demo_client 1000), RegisterNode (demo_node ''talker'' 1 False),
      RegisterClient (demo_client 2000), RegisterNode (demo_node ''listener'' 2 False),
      SubscribeTopic (demo_node ''listener'' 2 False) ''chatter'' ''T'',
      PublishTopic (demo_node ''talker'' 1 False) (demo_topic ''chatter'')]
     (new_Master True)"

lemma demo_draws: "draws_in_range (\<lambda>i. if i = 1 then 1 else 2) (\<lambda>_. ''x'')"
  by (simp add: draws_in_range_def RandUint32_InvalidValue_def)

lemma demo_call_reachable:
  "master_reachable demo_env m \<Longrightarrow> master_reachable demo_env (demo_call rq m)"
  unfolding demo_call_def by (erule reachable.move) (rule master_step.call [OF demo_draws])

lemma run_next_reachable:
  "master_reachable env m \<Longrightarrow> master_reachable env (run_next env m)"
  by (cases "tasks m = []") (simp add: run_next_def, blast intro: reachable.move master_step.run)

lemma demo_rpcs_reachable:
  "master_reachable demo_env m \<Longrightarrow> master_reachable demo_env (fold demo_rpc rqs m)"
  by (induction rqs arbitrary: m)
    (auto simp: demo_rpc_def intro: run_next_reachable demo_call_reachable)

lemma new_Master_reachable: "master_reachable env (new_Master check)"
  by (rule reachable.start) (auto simp: master_init_def)

lemma demo_reachable: "master_reachable demo_env demo_master"
  unfolding demo_master_def by (intro demo_rpcs_reachable new_Master_reachable)

section \<open>Every reachable state\<close>

lemmas master_inv_facts = master.inv_reachable [unfolded master_inv_def]

text \<open>
  C1.  Whatever calls arrive, tasks run, listeners die and ROS updates come in, and in whatever
  order: no two clients of the registry have the same id, each entry is filed under the id its
  client carries, no two nodes have the same name, every node is filed under the client it
  names, and all these ids and names are marked as used in the generators that hand them out.
\<close>

theorem master_ids_and_names_unique:
  assumes "master_reachable env m"
  shows "distinct (map fst (client_map m)) \<and>
    (\<forall>(k, c) \<in> set (client_map m). ci_id (client_info c) = k \<and> k \<in> values_in_use (ids m) \<and>
       (\<forall>n \<in> set (nodes c). ni_client_id (node_info n) = k)) \<and>
    distinct (map name (all_nodes m)) \<and> name ` set (all_nodes m) \<subseteq> values_in_use (names m)"
proof -
  have reg: "registry_ok m" using master_inv_facts [OF assms] by simp
  then have "\<forall>e \<in> set (client_map m). client_entry_ok e"
    "fst ` set (client_map m) \<subseteq> values_in_use (ids m)"
    by (simp_all add: registry_ok_def clients_ok_def ids_ok_def)
  then have "\<forall>(k, c) \<in> set (client_map m). ci_id (client_info c) = k \<and> k \<in> values_in_use (ids m) \<and>
       (\<forall>n \<in> set (nodes c). ni_client_id (node_info n) = k)"
    by (force simp: client_entry_ok_def)
  with reg show ?thesis by (simp add: registry_ok_def ids_ok_def names_ok_def)
qed

theorem master_ids_and_names_unique_witness:
  "distinct (map fst (client_map demo_master)) \<and> map fst (client_map demo_master) = [1, 2] \<and>
   distinct (map name (all_nodes demo_master)) \<and>
   map name (all_nodes demo_master) = [''talker'', ''listener'']"
proof -
  have "map fst (client_map demo_master) = [1, 2]"
    "map name (all_nodes demo_master) = [''talker'', ''listener'']" by code_simp+
  then show ?thesis using master_ids_and_names_unique [OF demo_reachable] by blast
qed

text \<open>
  C2.  In every reachable state a topic with a non-empty name has at most one publishing node
  and a service with a non-empty name at most one serving node, in the whole registry.
\<close>

theorem master_single_publisher_and_server:
  assumes "master_reachable env m" and "x \<noteq> []"
  shows "length (filter (\<lambda>n. IsPublishingTopic n x) (all_nodes m)) \<le> 1 \<and>
         length (filter (\<lambda>n. IsServingService n x) (all_nodes m)) \<le> 1"
  using master_inv_facts [OF assms(1)] assms(2)
  by (simp add: registry_ok_def single_publisher_def single_server_def)

theorem master_single_publisher_and_server_witness:
  "filter (\<lambda>n. IsPublishingTopic n ''chatter'') (all_nodes demo_master) \<noteq> [] \<and>
   length (filter (\<lambda>n. IsPublishingTopic n ''chatter'') (all_nodes demo_master)) \<le> 1"
proof -
  have "filter (\<lambda>n. IsPublishingTopic n ''chatter'') (all_nodes demo_master) \<noteq> []" by code_simp
  then show ?thesis using master_single_publisher_and_server [OF demo_reachable, of "''chatter''"] by simp
qed

text \<open>
  C3.  No call is answered twice and none is lost: in every reachable state each call received so
  far either has been answered, once, or waits in the queue in exactly one task.
\<close>

theorem master_calls_answered_once:
  assumes "master_reachable env m"
  shows "(\<forall>cb. count (mset (replies m)) cb + count (mset (pending_callbacks m)) cb =
            (if cb < next_callback m then 1 else 0))"
proof
  fix cb
  have "mset (replies m @ pending_callbacks m) = mset [0..<next_callback m]"
    using master_inv_facts [OF assms] by (simp add: callbacks_ok_def)
  then have "count (mset (replies m)) cb + count (mset (pending_callbacks m)) cb =
      count (mset [0..<next_callback m]) cb"
    by (metis count_union mset_append)
  also have "\<dots> = (if cb < next_callback m then 1 else 0)"
    by (simp add: distinct_count_atmost_1 [THEN iffD1] del: mset_upt)
  finally show "count (mset (replies m)) cb + count (mset (pending_callbacks m)) cb =
      (if cb < next_callback m then 1 else 0)" .
qed

theorem master_calls_answered_once_witness:
  "count (mset (replies demo_master)) 5 = 1 \<and> pending_callbacks demo_master = []"
proof -
  have "pending_callbacks demo_master = []" "next_callback demo_master = 6" by code_simp+
  then show ?thesis using master_calls_answered_once [OF demo_reachable] by simp
qed

lemma tasks_run_next:
  assumes "master_inv m"
  shows "tasks (run_next env m) = tl (tasks m) \<and> next_callback (run_next env m) = next_callback m"
proof (cases "tasks m")
  case (Cons t ts)
  have "registry_ok m" using assms by (simp add: master_inv_def)
  from settles_run_task [OF this Cons, where tcp = False] Cons show ?thesis
    by (simp add: run_next_def settles_def answered_def)
qed (simp add: run_next_def)

lemma master_drain:
  "master_reachable env m \<Longrightarrow> tasks ((run_next env ^^ k) m) = drop k (tasks m) \<and>
     next_callback ((run_next env ^^ k) m) = next_callback m \<and>
     master_reachable env ((run_next env ^^ k) m)"
proof (induction k)
  case (Suc k)
  then show ?case
    using tasks_run_next [OF master.inv_reachable, of env "(run_next env ^^ k) m" env]
      run_next_reachable [of env "(run_next env ^^ k) m"]
    by (simp add: drop_Suc tl_drop)
qed simp

text \<open>
  C16.  The queue drains: from every reachable state, running the tasks that are queued empties
  the queue and leaves every call that was ever received answered exactly once.
\<close>

theorem master_queue_drains:
  assumes "master_reachable env m"
  shows "tasks ((run_next env ^^ length (tasks m)) m) = [] \<and>
         mset (replies ((run_next env ^^ length (tasks m)) m)) = mset [0..<next_callback m]"
proof -
  let ?m = "(run_next env ^^ length (tasks m)) m"
  have drained: "tasks ?m = []" "next_callback ?m = next_callback m" "master_reachable env ?m"
    using master_drain [OF assms, of "length (tasks m)"] by simp_all
  then have "callbacks_ok ?m" using master_inv_facts by blast
  with drained(1,2) show ?thesis by (simp add: callbacks_ok_def pending_callbacks_def)
qed

definition demo_queue :: master where
  "demo_queue = demo_call (UnregisterNode (demo_node ''talker'' 1 False))
     (demo_call (UnpublishTopic (demo_node ''talker'' 1 False) ''chatter'') demo_master)"

theorem master_queue_drains_witness:
  "length (tasks demo_queue) = 2 \<and>
   mset (replies ((run_next demo_env ^^ 2) demo_queue)) = mset [0..<8]"
proof -
  have "length (tasks demo_queue) = 2" "next_callback demo_queue = 8" by code_simp+
  moreover have "master_reachable demo_env demo_queue"
    unfolding demo_queue_def by (intro demo_call_reachable demo_reachable)
  ultimately show ?thesis using master_queue_drains [of demo_env demo_queue] by simp
qed

text \<open>
  C17.  As long as every client registers a heart beat signaller and a notification watcher on exactly
  one channel each, over TCP, which the code checks only when it connects to them, the master runs into undefined behaviour (an iterator
  or a pointer that is not valid, an element of an empty list, a check that fails) only after a
  client registration that failed because the id generator ran out of trials; every other path of
  every operation is defined.
\<close>

theorem master_undefined_only_after_failed_registration:
  assumes "tcp_reachable env m" and "\<And>cb. Reply cb FailedToRegisterClient \<notin> set (effects m)"
  shows "\<not> undef m"
  using tcp_master.inv_reachable [OF assms(1)] assms(2) by (auto simp: tcp_inv_def defined_ok_def)

lemma demo_no_failure: "Reply cb FailedToRegisterClient \<notin> set (effects demo_master)"
proof -
  have "list_all (\<lambda>e. case e of Reply cb s \<Rightarrow> s \<noteq> FailedToRegisterClient | _ \<Rightarrow> True)
      (effects demo_master)" by code_simp
  then show ?thesis by (auto simp: list_all_iff)
qed

lemma demo_rpcs_tcp:
  "\<forall>rq \<in> set rqs. tcp_request rq \<Longrightarrow> tcp_reachable demo_env m \<Longrightarrow> tcp_reachable demo_env (fold demo_rpc rqs m)"
proof (induction rqs arbitrary: m)
  case (Cons rq rqs)
  have call: "tcp_reachable demo_env (demo_call rq m)"
    unfolding demo_call_def using Cons.prems
    by (intro reachable.move [OF Cons.prems(2)] tcp_step.tcp_call [OF demo_draws]) simp
  then have "tcp_reachable demo_env (demo_rpc rq m)"
    by (cases "tasks (demo_call rq m) = []") (simp add: demo_rpc_def run_next_def, auto simp: demo_rpc_def intro: reachable.move tcp_step.tcp_run)
  with Cons show ?case by simp
qed simp

lemma demo_tcp_reachable: "tcp_reachable demo_env demo_master"
  unfolding demo_master_def
proof (rule demo_rpcs_tcp)
  show "tcp_reachable demo_env (new_Master True)" by (rule reachable.start) (auto simp: master_init_def)
qed (simp add: demo_client_def demo_source_def)

theorem master_undefined_only_after_failed_registration_witness: "\<not> undef demo_master"
  using master_undefined_only_after_failed_registration [OF demo_tcp_reachable demo_no_failure] .

text \<open>
  The condition is needed: a client may register a watcher on two channels, and the first
  notification for it breaks the check.
\<close>

definition demo_two_channels :: master where
  "demo_two_channels = fold demo_rpc
     [RegisterClient ((demo_client 1000)\<lparr>master_notification_watcher_source :=
        \<lparr>channel_defs = channel_defs (demo_source 1001) @ channel_defs (demo_source 1002)\<rparr>\<rparr>),
      RegisterNode (demo_node ''talker'' 1 False),
      SubscribeTopic (demo_node ''talker'' 1 False) ''chatter'' ''T'',
      PublishTopic (demo_node ''talker'' 1 False) (demo_topic ''chatter'')]
     (new_Master True)"

theorem watcher_on_two_channels_is_undefined:
  "master_reachable demo_env demo_two_channels \<and> undef demo_two_channels \<and>
   list_all (\<lambda>e. case e of Reply cb s \<Rightarrow> s = Status_OK | _ \<Rightarrow> True) (effects demo_two_channels)"
proof (intro conjI)
  show "master_reachable demo_env demo_two_channels"
    unfolding demo_two_channels_def by (intro demo_rpcs_reachable new_Master_reachable)
qed code_simp+

section \<open>Refinement of the specification\<close>

text \<open>
  C4.  In a build without ROS every task of the master thread does to the clients and nodes
  exactly what its specification says, and its caller gets the status of the specification;
  this covers registering and unregistering clients, nodes, publishers, subscribers, service
  clients and servers, with all their refusals.
\<close>

theorem master_task_refines:
  assumes "master_reachable env m" and "tasks m = t # ts" and "\<not> has_ros env"
  shows "view (run_next env m) = snd (task_spec t (view m)) \<and>
    (\<forall>cb \<in> set (task_callbacks t).
       Reply cb (fst (task_spec t (view m))) \<in> set (effects (run_next env m)))"
proof -
  have "registry_ok m" using master_inv_facts [OF assms(1)] by simp
  from performs_run_task [OF this assms(2,3)] show ?thesis
    by (simp add: run_next_def assms(2) performs_def)
qed

definition demo_republish :: master where
  "demo_republish = demo_call (PublishTopic (demo_node ''listener'' 2 False) (demo_topic ''chatter'')) demo_master"

theorem master_task_refines_witness:
  "view (run_next demo_env demo_republish) = view demo_republish \<and>
   Reply 6 (TopicAlreadyPublishingOnNode (demo_node ''listener'' 2 False) (demo_topic ''chatter''))
     \<in> set (effects (run_next demo_env demo_republish))"
proof -
  let ?t = "TPublishTopic (demo_node ''listener'' 2 False) (demo_topic ''chatter'') 6"
  have reach: "master_reachable demo_env demo_republish"
    unfolding demo_republish_def by (intro demo_call_reachable demo_reachable)
  have tasks: "tasks demo_republish = [?t]" by code_simp
  have "mv_nodes (view demo_republish) (1, ''talker'') =
      Some (hd (all_nodes demo_republish))" "IsPublishingTopic (hd (all_nodes demo_republish)) ''chatter''"
    by code_simp+
  then have "\<exists>n \<in> ran (mv_nodes (view demo_republish)). IsPublishingTopic n ''chatter''"
    by (meson ranI)
  then show ?thesis
    using master_task_refines [OF reach tasks] by (simp add: demo_topic_def demo_env_def)
qed

text \<open>
  C18.  When the heart beat of a client is lost, exactly that client and its nodes leave the
  registry (whatever the build); and an RPC method by itself changes neither clients nor nodes.
\<close>

theorem master_lost_client_refines:
  assumes "master_reachable env m" and "info \<in> set (listeners m)"
  shows "view (listener_lost env info m) = without_client (ci_id info) (view m) \<and>
         view (receive_call env draw_id draw_name rq m) = view m"
proof -
  let ?m = "m\<lparr>listeners := remove1 info (listeners m)\<rparr>"
  have ok: "master_inv m" using assms(1) by (rule master.inv_reachable)
  note lost = listener_registered [OF ok assms(2)]
  obtain c where "fm_find (client_map ?m) (ci_id info) = Some c" using lost(3) by auto
  from view_RemoveClient [OF lost(1) this lost(2)] show ?thesis
    by (simp add: listener_lost_def view_receive_call)
qed

theorem master_lost_client_refines_witness:
  "mv_clients (view (listener_lost demo_env (hd (listeners demo_master)) demo_master)) = {2}"
proof -
  have l: "hd (listeners demo_master) \<in> set (listeners demo_master)"
    "ci_id (hd (listeners demo_master)) = 1" by code_simp+
  have "map fst (client_map demo_master) = [1, 2]" by code_simp
  then have "mv_clients (view demo_master) = {1, 2}"
    by (metis list.set_map list.simps(15) mv_clients_view set_empty2 list.set(1))
  then show ?thesis
    using master_lost_client_refines [OF demo_reachable l(1)] l(2) by (auto simp: without_client_def)
qed

section \<open>Searches\<close>

lemma first_match_filter: "length (filter p xs) \<le> 1 \<Longrightarrow> first_match p xs = filter p xs"
  by (induction xs) (auto simp: first_match_def split: if_splits)

lemma find_until_filter:
  assumes "\<And>c. Client_FindNodes c f = first_match p (nodes c) \<or> Client_FindNodes c f = filter p (nodes c)"
    and "length (filter p (concat (map (nodes \<circ> snd) es))) \<le> 1"
  shows "find_nodes_until f es = filter p (concat (map (nodes \<circ> snd) es))"
  using assms(2)
proof (induction es)
  case (Cons e es)
  have one: "length (filter p (nodes (snd e))) \<le> 1" using Cons.prems by simp
  have tmp: "Client_FindNodes (snd e) f = filter p (nodes (snd e))"
    using assms(1) [of "snd e"] first_match_filter [OF one] by auto
  show ?case
  proof (cases "filter p (nodes (snd e)) = []")
    case False
    then have "length (filter p (nodes (snd e))) \<ge> 1" by (cases "filter p (nodes (snd e))") auto
    then have "filter p (concat (map (nodes \<circ> snd) es)) = []"
      using Cons.prems
      by (cases "filter p (concat (map (nodes \<circ> snd) es))") (simp_all add: comp_def)
    with tmp False show ?thesis by (simp add: Let_def comp_def)
  qed (use Cons tmp in \<open>simp add: Let_def comp_def\<close>)
qed simp

text \<open>
  The searches for the publisher of a topic and for the server of a service stop at the
  first client with a match and, inside a client, at the first node; in every reachable state
  they return all matching nodes of the whole registry nevertheless.
\<close>

theorem master_early_exit_search_complete:
  assumes "master_reachable env m" and "x \<noteq> []"
  shows "Master_FindNodes m (empty_node_filter\<lparr>nf_publishing_topic := x\<rparr>) =
           filter (\<lambda>n. IsPublishingTopic n x) (all_nodes m) \<and>
         Master_FindNodes m (empty_node_filter\<lparr>nf_serving_service := x\<rparr>) =
           filter (\<lambda>n. IsServingService n x) (all_nodes m)"
proof -
  have "registry_ok m" using master_inv_facts [OF assms(1)] by simp
  then have one: "length (filter (\<lambda>n. IsPublishingTopic n x) (all_nodes m)) \<le> 1"
      "length (filter (\<lambda>n. IsServingService n x) (all_nodes m)) \<le> 1"
    using assms(2) by (simp_all add: registry_ok_def single_publisher_def single_server_def)
  show ?thesis
    using find_until_filter [of "empty_node_filter\<lparr>nf_publishing_topic := x\<rparr>"
        "\<lambda>n. IsPublishingTopic n x" "client_map m"]
      find_until_filter [of "empty_node_filter\<lparr>nf_serving_service := x\<rparr>"
        "\<lambda>n. IsServingService n x" "client_map m"] one assms(2)
    by (simp add: Master_FindNodes_def Client_FindNodes_def empty_node_filter_def all_nodes_def)
qed

theorem master_early_exit_search_complete_witness:
  "Master_FindNodes demo_master (empty_node_filter\<lparr>nf_publishing_topic := ''chatter''\<rparr>) =
     filter (\<lambda>n. IsPublishingTopic n ''chatter'') (all_nodes demo_master) \<and>
   length (filter (\<lambda>n. IsPublishingTopic n ''chatter'') (all_nodes demo_master)) = 1"
proof -
  have "length (filter (\<lambda>n. IsPublishingTopic n ''chatter'') (all_nodes demo_master)) = 1"
    by code_simp
  then show ?thesis
    using master_early_exit_search_complete [OF demo_reachable, of "''chatter''"] by simp
qed

section \<open>Notifications\<close>

definition watcher_channel :: "master \<Rightarrow> node \<Rightarrow> channel_def" where
  "watcher_channel m n =
     hd (watcher_channels (the (fm_find (client_map m) (ni_client_id (node_info n)))))"

lemma DoNotifyClient_registered:
  assumes reg: "registry_ok m" and n: "n \<in> set (all_nodes m)" and tcp: "watchers_ok m"
  shows "effects (DoNotifyClient (node_info n) note m) =
           effects m @ [Connect (watcher_channel m n) note]"
proof -
  obtain k c where c: "(k, c) \<in> set (client_map m)" "n \<in> set (nodes c)"
    using n by (auto simp: in_all_nodes)
  then have k: "ni_client_id (node_info n) = k" using registry_owner [OF reg] by blast
  have find: "fm_find (client_map m) k = Some c"
    using c(1) registry_fm [OF reg] by (simp add: fm_find_iff)
  have "one_tcp (watcher_channels c)" using tcp c(1) by (force simp: watchers_ok_def)
  then obtain d where "watcher_channels c = [d]" "cd_type d = CHANNEL_TYPE_TCP"
    by (cases "watcher_channels c" rule: one_tcp.cases) simp_all
  with find k show ?thesis by (simp add: DoNotifyClient_def watcher_channel_def Let_def) (simp add: emit_def)
qed

lemma notify_nodes_effects:
  assumes "registry_ok m" and "set ns \<subseteq> set (all_nodes m)" and "watchers_ok m"
  shows "effects (fold (\<lambda>n. DoNotifyClient (node_info n) note) ns m) =
           effects m @ map (\<lambda>n. Connect (watcher_channel m n) note) ns"
  using assms
proof (induction ns arbitrary: m)
  case (Cons n ns)
  let ?m = "DoNotifyClient (node_info n) note m"
  have q: "quiet m ?m" by (rule quiet_DoNotifyClient)
  then have map: "client_map ?m = client_map m" by (simp add: quiet_def)
  then have same: "all_nodes ?m = all_nodes m" "watcher_channel ?m = watcher_channel m"
    by (simp_all add: all_nodes_def watcher_channel_def fun_eq_iff)
  have "registry_ok ?m" using q Cons.prems(1) by (rule quiet_registry)
  then show ?case
    using Cons.IH [of ?m] Cons.prems DoNotifyClient_registered [of m n] same watchers_ok_cong [OF map] by simp
qed simp

definition first_watchers :: "master \<Rightarrow> node list" where
  "first_watchers m =
     concat (map (\<lambda>e. first_match (\<lambda>n. ni_watcher (node_info n)) (nodes (snd e))) (client_map m))"

lemma find_nodes_all_concat: "find_nodes_all f es = concat (map (\<lambda>e. Client_FindNodes (snd e) f) es)"
  by (induction es) simp_all

lemma topic_audience_eq:
  "x \<noteq> [] \<Longrightarrow> topic_audience m x =
     filter (\<lambda>n. IsSubsribingTopic n x) (all_nodes m) @ first_watchers m"
  by (simp add: topic_audience_def Master_FindNodes_def find_nodes_all_concat Client_FindNodes_def
      empty_node_filter_def all_nodes_def first_watchers_def filter_concat comp_def)

text \<open>
  C40.  Announcing a topic with a non-empty name, when the watcher of every registered client is on
  one TCP channel, connects to the notification watcher of the client of every node that subscribes
  to the topic, of any client, once per node and in registry order, then to that of the client of
  the first watcher node of each client, and to nobody else.
\<close>

theorem master_notifies_exactly_subscribers:
  assumes "master_reachable env m" and "ti_topic t \<noteq> []"
    and "\<forall>(k, c) \<in> set (client_map m). one_tcp (watcher_channels c)"
  shows "effects (NotifyAllSubscribers t m) = effects m @
    map (\<lambda>n. Connect (watcher_channel m n) (TopicNotification t))
      (filter (\<lambda>n. IsSubsribingTopic n (ti_topic t)) (all_nodes m) @ first_watchers m)"
proof -
  have reg: "registry_ok m" using master_inv_facts [OF assms(1)] by simp
  have tcp: "watchers_ok m" using assms(3) by (auto simp: watchers_ok_def)
  have "set (first_watchers m) \<subseteq> set (all_nodes m)"
    by (auto simp: first_watchers_def in_all_nodes dest!: in_first_match) force
  then have "set (topic_audience m (ti_topic t)) \<subseteq> set (all_nodes m)"
    using assms(2) by (auto simp: topic_audience_eq)
  from notify_nodes_effects [OF reg this tcp] show ?thesis
    using assms(2) by (simp add: NotifyAllSubscribers_def topic_audience_eq)
qed

theorem master_notifies_exactly_subscribers_witness:
  "map (watcher_channel demo_master) (filter (\<lambda>n. IsSubsribingTopic n ''chatter'') (all_nodes demo_master)) =
     channel_defs (demo_source 2001) \<and>
   effects (NotifyAllSubscribers (demo_topic ''chatter'') demo_master) = effects demo_master @
     [Connect (hd (channel_defs (demo_source 2001))) (TopicNotification (demo_topic ''chatter''))]"
proof -
  have w: "first_watchers demo_master = []"
    "map (watcher_channel demo_master) (filter (\<lambda>n. IsSubsribingTopic n ''chatter'') (all_nodes demo_master)) =
       channel_defs (demo_source 2001)" by code_simp+
  then obtain n where "filter (\<lambda>n. IsSubsribingTopic n ''chatter'') (all_nodes demo_master) = [n]"
    by (auto simp: demo_source_def)
  moreover have "list_all (\<lambda>e. one_tcp (watcher_channels (snd e))) (client_map demo_master)" by code_simp
  then have "\<forall>(k, c) \<in> set (client_map demo_master). one_tcp (watcher_channels c)" by (auto simp: list_all_iff)
  ultimately show ?thesis
    using w master_notifies_exactly_subscribers [OF demo_reachable, of "demo_topic ''chatter''"]
    by (simp add: demo_topic_def demo_source_def)
qed

section \<open>Round trips\<close>

lemma settled_registry: "settles tcp cbs m m' \<Longrightarrow> registry_ok m'"
  by (simp add: settles_def)

lemma put_put: "put_node info a (put_node info b v) = put_node info a v"
  by (simp add: put_node_def)

lemma put_same: "mv_nodes v (node_key info) = Some n \<Longrightarrow> put_node info n v = v"
  by (simp add: put_node_def fun_upd_idem)

lemma mv_nodes_put [simp]: "mv_nodes (put_node info n v) (node_key info) = Some n"
  by (simp add: put_node_def)

text \<open>
  Unpublishing what was just published, and unsubscribing from what was just subscribed
  to, gives back the registry as it was.
\<close>

theorem master_topic_roundtrips:
  assumes "master_reachable env m" and "\<not> has_ros env" and "Master_FindNode m info = Some n"
    and "\<forall>x \<in> set (all_nodes m). \<not> IsPublishingTopic x (ti_topic t)"
    and "\<not> IsSubsribingTopic n topic"
  shows "view (DoUnpublishTopic env info (ti_topic t) cb' (DoPublishTopic env info t cb m)) = view m \<and>
         view (DoUnsubscribeTopic env info topic cb' (DoSubscribeTopic env info topic ty cb m)) = view m"
proof -
  have reg: "registry_ok m" using master_inv_facts [OF assms(1)] by simp
  let ?p = "DoPublishTopic env info t cb m" and ?s = "DoSubscribeTopic env info topic ty cb m"
  have regs: "registry_ok ?p" "registry_ok ?s"
    using settles_DoPublishTopic [OF reg] settles_DoSubscribeTopic [OF reg]
    by (blast intro: settled_registry)+
  have n: "mv_nodes (view m) (node_key info) = Some n" using assms(3) by (simp add: Master_FindNode_view)
  have free: "\<not> IsPublishingTopic n (ti_topic t)"
    using assms(3,4) Master_FindNode_mem(1) by blast
  have ok: "node_ok n" using registry_found(1) [OF reg assms(3)] .
  have p: "view ?p = put_node info (RegisterPublishingTopic t n) (view m)"
    using performs_DoPublishTopic [OF reg assms(2), of cb info t] assms(4) n
    by (simp add: performs_def on_node_def ran_view [OF reg])
  have s: "view ?s = put_node info (n\<lparr>subscribing_topics := subscribing_topics n @ [topic]\<rparr>) (view m)"
    using performs_DoSubscribeTopic [OF reg assms(2), of cb info topic ty] assms(5) n
    by (simp add: performs_def on_node_def guard_node_def IsSubsribingTopic_iff)
  have "fm_erase (ti_topic t) (topic_info_map (RegisterPublishingTopic t n)) = topic_info_map n"
    using free by (simp add: RegisterPublishingTopic_def IsPublishingTopic_def fm_erase_insert_fresh)
  then have "(RegisterPublishingTopic t n)\<lparr>topic_info_map :=
      fm_erase (ti_topic t) (topic_info_map (RegisterPublishingTopic t n))\<rparr> = n"
    by (simp add: RegisterPublishingTopic_def)
  moreover have "IsPublishingTopic (RegisterPublishingTopic t n) (ti_topic t)"
    using ok by (simp add: IsPublishingTopic_Register)
  ultimately have "view (DoUnpublishTopic env info (ti_topic t) cb' ?p) = view m"
    using performs_DoUnpublishTopic [OF regs(1) assms(2), of cb' info "ti_topic t"]
    by (simp add: performs_def on_node_def guard_node_def p put_put put_same [OF n])
  moreover have "remove1 topic (subscribing_topics n @ [topic]) = subscribing_topics n"
    using assms(5) by (simp add: IsSubsribingTopic_iff remove1_append)
  then have "view (DoUnsubscribeTopic env info topic cb' ?s) = view m"
    using performs_DoUnsubscribeTopic [OF regs(2) assms(2), of cb' info topic]
    by (simp add: performs_def on_node_def guard_node_def s put_put put_same [OF n])
  ultimately show ?thesis by simp
qed

theorem master_topic_roundtrips_witness:
  "view (DoUnpublishTopic demo_env (demo_node ''listener'' 2 False) ''news'' 8
     (DoPublishTopic demo_env (demo_node ''listener'' 2 False) (demo_topic ''news'') 7 demo_master)) =
   view demo_master"
proof -
  have "map_option name (Master_FindNode demo_master (demo_node ''listener'' 2 False)) = Some ''listener''"
    "list_all (\<lambda>x. \<not> IsPublishingTopic x ''news'') (all_nodes demo_master)"
    "list_all (\<lambda>x. \<not> IsSubsribingTopic x ''news'') (all_nodes demo_master)"
    by code_simp+
  moreover from this(1) obtain n where
    n: "Master_FindNode demo_master (demo_node ''listener'' 2 False) = Some n" by blast
  ultimately show ?thesis
    using master_topic_roundtrips [OF demo_reachable _ n, of "demo_topic ''news''" "''news''" 8 7]
      Master_FindNode_mem(1) [OF n]
    by (simp add: demo_env_def demo_topic_def list_all_iff)
qed

section \<open>Refusals\<close>

fun request_node :: "request \<Rightarrow> node_info option" where
  "request_node (UnregisterNode info) = Some info"
| "request_node (PublishTopic info t) = Some info"
| "request_node (UnpublishTopic info t) = Some info"
| "request_node (SubscribeTopic info t ty) = Some info"
| "request_node (UnsubscribeTopic info t) = Some info"
| "request_node (RegisterServiceClient info s) = Some info"
| "request_node (UnregisterServiceClient info s) = Some info"
| "request_node (RegisterServiceServer info s) = Some info"
| "request_node (UnregisterServiceServer info s) = Some info"
| "request_node _ = None"

lemma CHECK_NODE_EXISTS_view:
  "CHECK_NODE_EXISTS m info =
     (if ni_client_id info \<notin> mv_clients (view m) then Some ClientNotRegistered
      else if mv_nodes (view m) (node_key info) = None then Some (NodeNotRegistered info) else None)"
  unfolding Master_FindNode_view [symmetric]
  by (auto simp: CHECK_NODE_EXISTS_def CheckIfClientExists_def CheckIfNodeExists_def mv_clients_view
      fm_find_None_iff Master_FindNode_def Client_FindNode_def Client_HasNode_def split: option.splits)

text \<open>
  Every call on behalf of a node that is not registered is refused at once, with the
  status that tells whether the client or the node is missing; the refusal is the only effect
  and nothing is queued.
\<close>

theorem master_refuses_unknown_nodes:
  assumes "request_node rq = Some info" and "mv_nodes (view m) (node_key info) = None"
  shows "handle env draw_id draw_name rq cb m =
    emit (Reply cb (if ni_client_id info \<in> mv_clients (view m) then NodeNotRegistered info
                    else ClientNotRegistered)) m"
proof -
  have "CHECK_NODE_EXISTS m info = Some (if ni_client_id info \<in> mv_clients (view m)
      then NodeNotRegistered info else ClientNotRegistered)"
    using assms(2) by (simp add: CHECK_NODE_EXISTS_view)
  then show ?thesis
    using assms(1)
    by (cases rq) (simp_all add: with_node_check_def Master_UnregisterNode_def
        Master_PublishTopic_def Master_UnpublishTopic_def Master_SubscribeTopic_def
        Master_UnsubscribeTopic_def Master_RegisterServiceClient_def
        Master_UnregisterServiceClient_def Master_RegisterServiceServer_def
        Master_UnregisterServiceServer_def)
qed

theorem master_refuses_unknown_nodes_witness:
  "handle demo_env (\<lambda>_. 1) (\<lambda>_. ''x'') (PublishTopic (demo_node ''ghost'' 1 False) (demo_topic ''news''))
     9 demo_master = emit (Reply 9 (NodeNotRegistered (demo_node ''ghost'' 1 False))) demo_master"
proof -
  have "mv_nodes (view demo_master) (1, ''ghost'') = None" by code_simp
  moreover have "map fst (client_map demo_master) = [1, 2]" by code_simp
  then have "1 \<in> mv_clients (view demo_master)"
    by (metis list.set_intros(1) list.set_map mv_clients_view)
  ultimately show ?thesis
    using master_refuses_unknown_nodes [of "PublishTopic (demo_node ''ghost'' 1 False) (demo_topic ''news'')"
        "demo_node ''ghost'' 1 False" demo_master] by (simp add: demo_node_def)
qed

text \<open>
  When the id generator fails, \<open>RegisterClient\<close> answers with an error but goes on with the
  null client it got, which is undefined: the early return after the answer is missing.
\<close>

theorem register_client_failure_is_undefined:
  assumes "Generator_ok (ids m)"
    and "\<forall>i \<in> {0<..<kMaximumTrial}. draw i \<in> values_in_use (ids m)"
    and "IsValidChannelSource (net env) (heart_beat_signaller_source info)"
    and "IsValidChannelSource (net env) (master_notification_watcher_source info)"
  shows "undef (Master_RegisterClient env draw info cb m) \<and>
         Reply cb FailedToRegisterClient \<in> set (effects (Master_RegisterClient env draw info cb m))"
proof -
  have "Generator_Generate RandUint32_InvalidValue draw (ids m) = (RandUint32_InvalidValue, ids m)"
    using assms(1)
    by (cases rule: Generator_Generate_cases [where iv = RandUint32_InvalidValue and draw = draw])
      (use assms(2) in auto)
  then have "NewClient draw (ids m) info = (None, ids m)" by (simp add: NewClient_def)
  with assms(3,4) show ?thesis
    by (simp add: Master_RegisterClient_def Let_def undefined_behaviour_def) (simp add: emit_def)
qed

theorem register_client_failure_is_undefined_witness:
  "undef (Master_RegisterClient demo_env (\<lambda>_. 1) (demo_client 3000) 6 demo_master)"
proof -
  have "Generator_ok (ids demo_master)" "values_in_use (ids demo_master) = {1, 2}"
    "IsValidChannelSource (net demo_env) (heart_beat_signaller_source (demo_client 3000))"
    "IsValidChannelSource (net demo_env) (master_notification_watcher_source (demo_client 3000))"
    unfolding Generator_ok_def values_in_use_def by code_simp+
  then show ?thesis
    using register_client_failure_is_undefined [of demo_master "\<lambda>_. 1" demo_env "demo_client 3000" 6]
    by simp
qed

text \<open>
  A second watcher node is refused while one is registered.
\<close>

theorem second_watcher_refused:
  assumes "w \<in> set (all_nodes m)" and "ni_watcher (node_info w)" and "ni_watcher info"
    and "ni_client_id info \<in> mv_clients (view m)"
  shows "Master_RegisterNode draw info cb m = emit (Reply cb WatcherNodeAlreadyRegistered) m"
proof -
  obtain e where e: "e \<in> set (client_map m)" "w \<in> set (nodes (snd e))"
    using assms(1) by (auto simp: in_all_nodes)
  then have "first_match (\<lambda>n. ni_watcher (node_info n)) (nodes (snd e)) \<noteq> []"
    using assms(2) by (auto simp: first_match_Nil_iff)
  with e(1) have "Master_FindNodes m (empty_node_filter\<lparr>nf_watcher := True\<rparr>) \<noteq> []"
    by (auto simp: Master_FindNodes_def find_nodes_all_concat Client_FindNodes_def empty_node_filter_def)
  then show ?thesis
    using assms(3,4)
    by (simp add: Master_RegisterNode_def CheckIfClientExists_def fm_find_None_iff mv_clients_view)
qed

definition demo_watcher :: master where
  "demo_watcher = demo_rpc (RegisterNode (demo_node ''watcher'' 1 True)) demo_master"

theorem second_watcher_refused_witness:
  "Master_RegisterNode (\<lambda>_. ''x'') (demo_node ''watcher2'' 2 True) 7 demo_watcher =
     emit (Reply 7 WatcherNodeAlreadyRegistered) demo_watcher"
proof -
  have w: "all_nodes demo_watcher ! 1 \<in> set (all_nodes demo_watcher)"
    "ni_watcher (node_info (all_nodes demo_watcher ! 1))" "map fst (client_map demo_watcher) = [1, 2]"
    by code_simp+
  then have "2 \<in> mv_clients (view demo_watcher)"
    by (metis list.set_intros list.set_map mv_clients_view)
  then show ?thesis
    using second_watcher_refused [OF w(1,2), of "demo_node ''watcher2'' 2 True"]
    by (simp add: demo_node_def)
qed

text \<open>
  The check is made when the call arrives and the node is added when its task runs: two
  calls that arrive before the first task has run register two watcher nodes.
\<close>

theorem two_watchers_reachable:
  "\<exists>m. master_reachable demo_env m \<and>
     length (filter (\<lambda>n. ni_watcher (node_info n)) (all_nodes m)) = 2"
proof -
  let ?m = "run_next demo_env (run_next demo_env
    (demo_call (RegisterNode (demo_node ''w2'' 2 True))
      (demo_call (RegisterNode (demo_node ''w1'' 1 True)) demo_master)))"
  have "master_reachable demo_env ?m"
    by (intro run_next_reachable demo_call_reachable demo_reachable)
  moreover have "length (filter (\<lambda>n. ni_watcher (node_info n)) (all_nodes ?m)) = 2" by code_simp
  ultimately show ?thesis by blast
qed

text \<open>
  Publishing a ROS topic without a TCP channel is answered with an error although the
  topic has been registered and stays registered.
\<close>

theorem ros_topic_without_tcp_stays_registered:
  assumes "master_reachable env m" and "has_ros env" and "IsUsingRosProtocol (ti_topic t)"
    and "\<not> has_tcp_channel t" and "Master_FindNode m info = Some n"
    and "\<forall>x \<in> set (all_nodes m). \<not> IsPublishingTopic x (ti_topic t)"
  shows "(\<exists>e. Reply cb (Aborted e) \<in> set (effects (DoPublishTopic env info t cb m))) \<and>
    mv_nodes (view (DoPublishTopic env info t cb m)) (node_key info) = Some (RegisterPublishingTopic t n)"
proof -
  have reg: "registry_ok m" using master_inv_facts [OF assms(1)] by simp
  have "ti_topic t \<noteq> []" using assms(3) by (auto simp: IsUsingRosProtocol_def StartsWith_def kRosProtocol_def)
  then have free: "Master_FindNodes m (empty_node_filter\<lparr>nf_publishing_topic := ti_topic t\<rparr>) = []"
    using assms(6) by (simp add: find_publishing_Nil)
  have "ros_name env (ti_topic t) \<noteq> None"
    using assms(2,3) by (simp add: ros_name_def ConsumeRosProtocol_def ConsumePrefix_def IsUsingRosProtocol_def)
  then have eq: "DoPublishTopic env info t cb m =
      emit (Reply cb (Aborted ''You should set CHANNEL_TYPE_TCP on to publish ROS topic.''))
        (Master_UpdateNode info (RegisterPublishingTopic t) m)"
    using free assms(4,5) by (auto simp: DoPublishTopic_def Let_def split: option.splits)
  have "view (Master_UpdateNode info (RegisterPublishingTopic t) m) =
      put_node info (RegisterPublishingTopic t n) (view m)"
    using view_settled [OF reg assms(5) settles_RegisterPublishingTopic [OF reg assms(5) free]] by simp
  then show ?thesis unfolding eq by (simp add: put_node_def) (auto simp: emit_def)
qed

definition demo_ros_env :: master_env where
  "demo_ros_env = demo_env\<lparr>has_ros := True\<rparr>"

definition demo_ros_master :: master where
  "demo_ros_master = run_next demo_ros_env (receive_call demo_ros_env (\<lambda>_. 1) (\<lambda>_. ''x'')
     (RegisterNode (demo_node ''talker'' 1 False))
     (run_next demo_ros_env (receive_call demo_ros_env (\<lambda>_. 1) (\<lambda>_. ''x'')
        (RegisterClient (demo_client 1000)) (new_Master True))))"

definition demo_ros_topic :: topic_info where
  "demo_ros_topic = (demo_topic ''ros://chatter'')\<lparr>topic_source := \<lparr>channel_defs = []\<rparr>\<rparr>"

theorem ros_topic_without_tcp_stays_registered_witness:
  "\<exists>n. mv_nodes (view (DoPublishTopic demo_ros_env (demo_node ''talker'' 1 False) demo_ros_topic 2
     demo_ros_master)) (1, ''talker'') = Some (RegisterPublishingTopic demo_ros_topic n)"
proof -
  have "draws_in_range (\<lambda>_. 1) (\<lambda>_. ''x'')"
    by (simp add: draws_in_range_def RandUint32_InvalidValue_def)
  then have reach: "master_reachable demo_ros_env demo_ros_master"
    unfolding demo_ros_master_def
    by (meson run_next_reachable reachable.move master_step.call new_Master_reachable)
  have "map_option name (Master_FindNode demo_ros_master (demo_node ''talker'' 1 False)) = Some ''talker''"
    "list_all (\<lambda>x. \<not> IsPublishingTopic x (ti_topic demo_ros_topic)) (all_nodes demo_ros_master)"
    "\<not> has_tcp_channel demo_ros_topic" "IsUsingRosProtocol (ti_topic demo_ros_topic)"
    "has_ros demo_ros_env"
    by code_simp+
  then show ?thesis
    using ros_topic_without_tcp_stays_registered [OF reach, of demo_ros_topic "demo_node ''talker'' 1 False"]
    by (auto simp: list_all_iff demo_node_def)
qed

end
