(* ===== verification/Felicia_MasterProxy.thy ===== *)
theory Felicia_MasterProxy
  imports Felicia_MasterMachine
begin

text \<open>
  The master as a client process sees it: \<open>master/master_proxy.cc\<close>, which passes requests on and keeps the nodes,
  \<open>master/master_notification_watcher.cc\<close>, which receives the master's notifications and runs what was
  registered for them, and \<open>node/topic_info_watcher_node.cc\<close>.  The client of the RPC service, the sockets and the nodes
  of the user are outside; what they are asked is recorded, and what they answer is an event.  A callback is a number.  \<open>None\<close> is
  undefined behaviour, a failed \<open>CHECK\<close> or \<open>DCHECK\<close>, or \<open>LOG(FATAL)\<close>.
\<close>

section \<open>State\<close>

datatype node_object = UserNode nat | TopicInfoWatcherNode nat

datatype proxy_callback = Done nat | OnRegisterClient_cb | OnRegisterNode_cb node_object

datatype proxy_effect =
    Forwarded request proxy_callback
  | NewTopicInfo nat topic_info
  | NewServiceInfo nat service_info
  | NodeInit nat
  | NodeCreated node_object node_info
  | NodeError node_object status

text \<open>
  \<open>mp_client\<close>: \<open>master_client_interface_\<close> is there; \<open>mp_accepting\<close> and \<open>mp_receiving\<close>: the watcher waits for a connection
  of the master or for the notification on it; \<open>mp_setting_up\<close> and \<open>mp_joining\<close>: \<open>Start\<close> waits for the heart beat signaller or
  for the answer to the registration; \<open>mp_registering\<close>: nodes whose registration is not answered.
\<close>

record master_proxy =
  mp_client :: bool
  mp_client_info :: client_info
  mp_source :: "channel_def list"
  mp_topic_callbacks :: "(string, nat) flat_map"
  mp_service_callbacks :: "(string, nat) flat_map"
  mp_all_callback :: "nat option"
  mp_server_channel :: bool
  mp_accepting :: bool
  mp_channel :: bool
  mp_receiving :: bool
  mp_setting_up :: bool
  mp_joining :: bool
  mp_registering :: "node_object list"
  mp_nodes :: "node_object list"
  mp_effects :: "proxy_effect list"

definition new_MasterProxy :: "client_info \<Rightarrow> master_proxy" where
  "new_MasterProxy info = \<lparr>mp_client = False, mp_client_info = info, mp_source = [], mp_topic_callbacks = [], mp_service_callbacks = [],
     mp_all_callback = None, mp_server_channel = False, mp_accepting = False, mp_channel = False, mp_receiving = False,
     mp_setting_up = False, mp_joining = False, mp_registering = [], mp_nodes = [], mp_effects = []\<rparr>"

definition mp_emit :: "proxy_effect \<Rightarrow> master_proxy \<Rightarrow> master_proxy" where
  "mp_emit e s = s\<lparr>mp_effects := mp_effects s @ [e]\<rparr>"

section \<open>The watcher\<close>

definition RegisterTopicInfoCallback :: "string \<Rightarrow> nat \<Rightarrow> master_proxy \<Rightarrow> master_proxy" where
  "RegisterTopicInfoCallback topic callback s = s\<lparr>mp_topic_callbacks := fm_insert_or_assign topic callback (mp_topic_callbacks s)\<rparr>"

text \<open>To erase the end of a map is undefined.\<close>

definition UnregisterTopicInfoCallback :: "string \<Rightarrow> master_proxy \<Rightarrow> master_proxy option" where
  "UnregisterTopicInfoCallback topic s =
     (case fm_find (mp_topic_callbacks s) topic of
        None \<Rightarrow> None
      | Some callback \<Rightarrow> Some (s\<lparr>mp_topic_callbacks := fm_erase topic (mp_topic_callbacks s)\<rparr>))"

definition RegisterServiceInfoCallback :: "string \<Rightarrow> nat \<Rightarrow> master_proxy \<Rightarrow> master_proxy" where
  "RegisterServiceInfoCallback service callback s = s\<lparr>mp_service_callbacks := fm_insert_or_assign service callback (mp_service_callbacks s)\<rparr>"

definition UnregisterServiceInfoCallback :: "string \<Rightarrow> master_proxy \<Rightarrow> master_proxy option" where
  "UnregisterServiceInfoCallback service s =
     (case fm_find (mp_service_callbacks s) service of
        None \<Rightarrow> None
      | Some callback \<Rightarrow> Some (s\<lparr>mp_service_callbacks := fm_erase service (mp_service_callbacks s)\<rparr>))"

definition RegisterAllTopicInfoCallback :: "nat \<Rightarrow> master_proxy \<Rightarrow> master_proxy" where
  "RegisterAllTopicInfoCallback callback s = s\<lparr>mp_all_callback := Some callback\<rparr>"

definition UnregisterAllTopicInfoCallback :: "master_proxy \<Rightarrow> master_proxy" where
  "UnregisterAllTopicInfoCallback s = s\<lparr>mp_all_callback := None\<rparr>"

text \<open>The socket takes one accept at a time, and a channel one receive.\<close>

definition Watcher_DoAccept :: "master_proxy \<Rightarrow> master_proxy option" where
  "Watcher_DoAccept s = (if \<not> mp_server_channel s \<or> mp_accepting s then None else Some (s\<lparr>mp_accepting := True\<rparr>))"

definition Watcher_Start :: "status + channel_def \<Rightarrow> master_proxy \<Rightarrow> master_proxy option" where
  "Watcher_Start listened s =
     (if mp_server_channel s then None
      else case listened of
        Inl _ \<Rightarrow> None
      | Inr cd \<Rightarrow> Watcher_DoAccept (s\<lparr>mp_server_channel := True, mp_source := mp_source s @ [cd]\<rparr>))"

definition WatchNewMasterNotification :: "master_proxy \<Rightarrow> master_proxy option" where
  "WatchNewMasterNotification s = (if \<not> mp_channel s \<or> mp_receiving s then None else Some (s\<lparr>mp_receiving := True\<rparr>))"

definition Watcher_OnAccept :: "status \<Rightarrow> master_proxy \<Rightarrow> master_proxy option" where
  "Watcher_OnAccept st s = (if Status_ok st then WatchNewMasterNotification (s\<lparr>mp_channel := True\<rparr>) else Some s)"

definition run_topic_callbacks :: "topic_info \<Rightarrow> master_proxy \<Rightarrow> master_proxy" where
  "run_topic_callbacks t s =
     (let s1 = (case fm_find (mp_topic_callbacks s) (ti_topic t) of None \<Rightarrow> s | Some cb \<Rightarrow> mp_emit (NewTopicInfo cb t) s) in
      case mp_all_callback s1 of None \<Rightarrow> s1 | Some cb \<Rightarrow> mp_emit (NewTopicInfo cb t) s1)"

definition run_service_callbacks :: "service_info \<Rightarrow> master_proxy \<Rightarrow> master_proxy" where
  "run_service_callbacks i s =
     (case fm_find (mp_service_callbacks s) (si_service i) of None \<Rightarrow> s | Some cb \<Rightarrow> mp_emit (NewServiceInfo cb i) s)"

definition OnNewMasterNotification :: "status + topic_info option \<times> service_info option \<Rightarrow> master_proxy \<Rightarrow> master_proxy option" where
  "OnNewMasterNotification r s =
     Watcher_DoAccept
       (case r of
          Inl _ \<Rightarrow> s
        | Inr (topic, service) \<Rightarrow>
            let s1 = (case topic of None \<Rightarrow> s | Some t \<Rightarrow> run_topic_callbacks t s) in
            (case service of None \<Rightarrow> s1 | Some i \<Rightarrow> run_service_callbacks i s1))"

section \<open>Start\<close>

definition Proxy_Setup :: "status + channel_def \<Rightarrow> master_proxy \<Rightarrow> master_proxy option" where
  "Proxy_Setup listened s =
     (case Watcher_Start listened s of
        None \<Rightarrow> None
      | Some s1 \<Rightarrow> Some (s1\<lparr>mp_client_info := (mp_client_info s1)\<lparr>master_notification_watcher_source := \<lparr>channel_defs = mp_source s1\<rparr>\<rparr>,
          mp_setting_up := True\<rparr>))"

text \<open>What the master client answers to its start, then what listening gives.\<close>

definition Proxy_Start :: "status \<Rightarrow> status + channel_def \<Rightarrow> master_proxy \<Rightarrow> master_proxy option" where
  "Proxy_Start started listened s =
     (let s1 = s\<lparr>mp_client := True\<rparr> in if \<not> Status_ok started then Some s1 else Proxy_Setup listened s1)"

definition Proxy_RegisterClient :: "master_proxy \<Rightarrow> master_proxy" where
  "Proxy_RegisterClient s = mp_emit (Forwarded (RegisterClient (mp_client_info s)) OnRegisterClient_cb) (s\<lparr>mp_joining := True\<rparr>)"

definition OnHeartBeatSignallerStart :: "channel_source \<Rightarrow> master_proxy \<Rightarrow> master_proxy" where
  "OnHeartBeatSignallerStart source s =
     Proxy_RegisterClient (s\<lparr>mp_client_info := (mp_client_info s)\<lparr>heart_beat_signaller_source := source\<rparr>, mp_setting_up := False\<rparr>)"

definition OnRegisterClient :: "status \<Rightarrow> u32 \<Rightarrow> master_proxy \<Rightarrow> master_proxy option" where
  "OnRegisterClient st new_id s =
     (if Status_ok st then Some (s\<lparr>mp_client_info := (mp_client_info s)\<lparr>ci_id := new_id\<rparr>, mp_joining := False\<rparr>) else None)"

definition set_heart_beat_duration :: "u32 \<Rightarrow> master_proxy \<Rightarrow> master_proxy" where
  "set_heart_beat_duration duration s = s\<lparr>mp_client_info := (mp_client_info s)\<lparr>heart_beat_duration := duration\<rparr>\<rparr>"

section \<open>Calls\<close>

text \<open>
  A call without the client is one through a null pointer.  \<open>UnsubscribeTopic\<close> and \<open>UnregisterServiceClient\<close> first take
  the callback away.
\<close>

definition proxy_forward :: "request \<Rightarrow> proxy_callback \<Rightarrow> master_proxy \<Rightarrow> master_proxy option" where
  "proxy_forward rq done_cb s = (if mp_client s then Some (mp_emit (Forwarded rq done_cb) s) else None)"

fun proxy_call :: "request \<Rightarrow> proxy_callback \<Rightarrow> master_proxy \<Rightarrow> master_proxy option" where
  "proxy_call (UnsubscribeTopic info topic) cb s =
     (case UnregisterTopicInfoCallback topic s of None \<Rightarrow> None | Some s1 \<Rightarrow> proxy_forward (UnsubscribeTopic info topic) cb s1)"
| "proxy_call (UnregisterServiceClient info service) cb s =
     (case UnregisterServiceInfoCallback service s of None \<Rightarrow> None | Some s1 \<Rightarrow> proxy_forward (UnregisterServiceClient info service) cb s1)"
| "proxy_call rq cb s = proxy_forward rq cb s"

definition SubscribeTopicAsync :: "node_info \<Rightarrow> string \<Rightarrow> string \<Rightarrow> proxy_callback \<Rightarrow> nat \<Rightarrow> master_proxy \<Rightarrow> master_proxy option" where
  "SubscribeTopicAsync info topic type_name cb topic_info_callback s =
     proxy_forward (SubscribeTopic info topic type_name) cb (RegisterTopicInfoCallback topic topic_info_callback s)"

definition RegisterServiceClientAsync :: "node_info \<Rightarrow> string \<Rightarrow> proxy_callback \<Rightarrow> nat \<Rightarrow> master_proxy \<Rightarrow> master_proxy option" where
  "RegisterServiceClientAsync info service cb service_info_callback s =
     proxy_forward (RegisterServiceClient info service) cb (RegisterServiceInfoCallback service service_info_callback s)"

section \<open>Nodes\<close>

fun Node_OnInit :: "node_object \<Rightarrow> master_proxy \<Rightarrow> master_proxy" where
  "Node_OnInit (UserNode n) s = mp_emit (NodeInit n) s"
| "Node_OnInit (TopicInfoWatcherNode delegate) s = RegisterAllTopicInfoCallback delegate s"

fun Node_OnDidCreate :: "node_object \<Rightarrow> node_info \<Rightarrow> master_proxy \<Rightarrow> master_proxy option" where
  "Node_OnDidCreate (UserNode n) info s = Some (mp_emit (NodeCreated (UserNode n) info) s)"
| "Node_OnDidCreate (TopicInfoWatcherNode delegate) info s =
     (if ni_watcher info then Some (mp_emit (NodeCreated (TopicInfoWatcherNode delegate) info) s) else None)"

fun Node_OnError :: "node_object \<Rightarrow> status \<Rightarrow> master_proxy \<Rightarrow> master_proxy" where
  "Node_OnError (UserNode n) st s = mp_emit (NodeError (UserNode n) st) s"
| "Node_OnError (TopicInfoWatcherNode delegate) st s =
     mp_emit (NodeError (TopicInfoWatcherNode delegate) st) (UnregisterAllTopicInfoCallback s)"

definition RequestRegisterNode :: "node_object \<Rightarrow> node_info \<Rightarrow> master_proxy \<Rightarrow> master_proxy option" where
  "RequestRegisterNode node info s =
     (let s1 = Node_OnInit node s in
      case proxy_forward (RegisterNode (info\<lparr>ni_client_id := ci_id (mp_client_info s1)\<rparr>)) (OnRegisterNode_cb node) s1 of
        None \<Rightarrow> None
      | Some s2 \<Rightarrow> Some (s2\<lparr>mp_registering := mp_registering s2 @ [node]\<rparr>))"

definition OnRegisterNodeAsync :: "node_object \<Rightarrow> node_info \<Rightarrow> status \<Rightarrow> master_proxy \<Rightarrow> master_proxy option" where
  "OnRegisterNodeAsync node info st s =
     (if \<not> Status_ok st
      then Some (Node_OnError node (make_error (error_code st) (''Failed to register node : '' @ error_message st)) s)
      else case Node_OnDidCreate node info s of
        None \<Rightarrow> None
      | Some s1 \<Rightarrow> Some (s1\<lparr>mp_nodes := mp_nodes s1 @ [node]\<rparr>))"

section \<open>Events\<close>

datatype proxy_event =
    EvStart status "status + channel_def"
  | EvSignaller channel_source
  | EvJoined status u32
  | EvAccepted status
  | EvNotified "status + topic_info option \<times> service_info option"
  | EvCall request nat
  | EvSubscribe node_info string string nat nat
  | EvServiceClient node_info string nat nat
  | EvNewNode node_object node_info
  | EvNode node_object node_info status

fun proxy_exec :: "proxy_event \<Rightarrow> master_proxy \<Rightarrow> master_proxy option" where
  "proxy_exec (EvStart started listened) s = Proxy_Start started listened s"
| "proxy_exec (EvSignaller source) s = Some (if mp_setting_up s then OnHeartBeatSignallerStart source s else s)"
| "proxy_exec (EvJoined st new_id) s = (if mp_joining s then OnRegisterClient st new_id s else Some s)"
| "proxy_exec (EvAccepted st) s = (if mp_accepting s then Watcher_OnAccept st (s\<lparr>mp_accepting := False\<rparr>) else Some s)"
| "proxy_exec (EvNotified r) s = (if mp_receiving s then OnNewMasterNotification r (s\<lparr>mp_receiving := False\<rparr>) else Some s)"
| "proxy_exec (EvCall rq cb) s = proxy_call rq (Done cb) s"
| "proxy_exec (EvSubscribe info topic type_name cb callback) s = SubscribeTopicAsync info topic type_name (Done cb) callback s"
| "proxy_exec (EvServiceClient info service cb callback) s = RegisterServiceClientAsync info service (Done cb) callback s"
| "proxy_exec (EvNewNode node info) s = RequestRegisterNode node info s"
| "proxy_exec (EvNode node info st) s =
     (if node \<in> set (mp_registering s) then OnRegisterNodeAsync node info st (s\<lparr>mp_registering := remove1 node (mp_registering s)\<rparr>)
      else Some s)"

fun proxy_run :: "proxy_event list \<Rightarrow> master_proxy \<Rightarrow> master_proxy option" where
  "proxy_run [] s = Some s"
| "proxy_run (ev # evs) s = (case proxy_exec ev s of None \<Rightarrow> None | Some s1 \<Rightarrow> proxy_run evs s1)"

inductive proxy_step :: "master_proxy \<Rightarrow> master_proxy \<Rightarrow> bool" where
  "proxy_exec ev s = Some s' \<Longrightarrow> proxy_step s s'"

inductive_cases proxy_stepE: "proxy_step s s'"

end
