(* ===== verification/Felicia_MasterProxyProps.thy ===== *)
theory Felicia_MasterProxyProps
  imports Felicia_MasterProxy
begin

text \<open>
  What a client process gets of the master's notifications: an account that is read off the events alone, the proof that the
  proxy delivers exactly what it says, and the events for which the proxy is undefined.
\<close>

section \<open>The account\<close>

datatype watch_state = NotWatching | AwaitingMaster | AwaitingNotification | Deaf

type_synonym delivery = "nat \<times> (topic_info + service_info)"

record proxy_account =
  ac_topics :: "string \<rightharpoonup> nat"
  ac_services :: "string \<rightharpoonup> nat"
  ac_all :: "nat option"
  ac_watch :: watch_state
  ac_pending :: "node_object list"
  ac_delivered :: "delivery list"

definition opt_to_list :: "'a option \<Rightarrow> 'a list" where
  "opt_to_list x = (case x of None \<Rightarrow> [] | Some v \<Rightarrow> [v])"

text \<open>A topic goes to who subscribed to it last and to who watches all topics, a service to who registered last.\<close>

definition due :: "status + topic_info option \<times> service_info option \<Rightarrow> proxy_account \<Rightarrow> delivery list" where
  "due r a = (case r of
      Inl _ \<Rightarrow> []
    | Inr (topic, service) \<Rightarrow>
        (case topic of None \<Rightarrow> [] | Some t \<Rightarrow> map (\<lambda>cb. (cb, Inl t)) (opt_to_list (ac_topics a (ti_topic t)) @ opt_to_list (ac_all a))) @
        (case service of None \<Rightarrow> [] | Some i \<Rightarrow> map (\<lambda>cb. (cb, Inr i)) (opt_to_list (ac_services a (si_service i)))))"

fun account_call :: "request \<Rightarrow> proxy_account \<Rightarrow> proxy_account" where
  "account_call (UnsubscribeTopic info topic) a = a\<lparr>ac_topics := (ac_topics a)(topic := None)\<rparr>"
| "account_call (UnregisterServiceClient info service) a = a\<lparr>ac_services := (ac_services a)(service := None)\<rparr>"
| "account_call rq a = a"

fun account_init :: "node_object \<Rightarrow> proxy_account \<Rightarrow> proxy_account" where
  "account_init (UserNode n) a = a"
| "account_init (TopicInfoWatcherNode delegate) a = a\<lparr>ac_all := Some delegate\<rparr>"

fun account_error :: "node_object \<Rightarrow> proxy_account \<Rightarrow> proxy_account" where
  "account_error (UserNode n) a = a"
| "account_error (TopicInfoWatcherNode delegate) a = a\<lparr>ac_all := None\<rparr>"

fun account :: "proxy_event \<Rightarrow> proxy_account \<Rightarrow> proxy_account" where
  "account (EvStart started listened) a = (if Status_ok started then a\<lparr>ac_watch := AwaitingMaster\<rparr> else a)"
| "account (EvAccepted st) a =
     (if ac_watch a = AwaitingMaster then a\<lparr>ac_watch := if Status_ok st then AwaitingNotification else Deaf\<rparr> else a)"
| "account (EvNotified r) a =
     (if ac_watch a = AwaitingNotification then a\<lparr>ac_watch := AwaitingMaster, ac_delivered := ac_delivered a @ due r a\<rparr> else a)"
| "account (EvCall rq cb) a = account_call rq a"
| "account (EvSubscribe info topic type_name cb callback) a = a\<lparr>ac_topics := (ac_topics a)(topic \<mapsto> callback)\<rparr>"
| "account (EvServiceClient info service cb callback) a = a\<lparr>ac_services := (ac_services a)(service \<mapsto> callback)\<rparr>"
| "account (EvNewNode node info) a = (account_init node a)\<lparr>ac_pending := ac_pending a @ [node]\<rparr>"
| "account (EvNode node info st) a =
     (if node \<in> set (ac_pending a)
      then (if Status_ok st then a else account_error node a)\<lparr>ac_pending := remove1 node (ac_pending a)\<rparr> else a)"
| "account ev a = a"

definition no_account :: proxy_account where
  "no_account = \<lparr>ac_topics = Map.empty, ac_services = Map.empty, ac_all = None, ac_watch = NotWatching, ac_pending = [], ac_delivered = []\<rparr>"

definition account_of :: "proxy_event list \<Rightarrow> proxy_account" where
  "account_of evs = foldl (\<lambda>a ev. account ev a) no_account evs"

section \<open>The proxy and the account\<close>

fun delivery_of :: "proxy_effect \<Rightarrow> delivery list" where
  "delivery_of (NewTopicInfo cb t) = [(cb, Inl t)]"
| "delivery_of (NewServiceInfo cb i) = [(cb, Inr i)]"
| "delivery_of e = []"

definition deliveries :: "master_proxy \<Rightarrow> delivery list" where
  "deliveries s = concat (map delivery_of (mp_effects s))"

definition watch_of :: "master_proxy \<Rightarrow> watch_state" where
  "watch_of s = (if \<not> mp_server_channel s then NotWatching else if mp_accepting s then AwaitingMaster
     else if mp_receiving s then AwaitingNotification else Deaf)"

definition abs_proxy :: "master_proxy \<Rightarrow> proxy_account" where
  "abs_proxy s = \<lparr>ac_topics = fm_find (mp_topic_callbacks s), ac_services = fm_find (mp_service_callbacks s), ac_all = mp_all_callback s,
     ac_watch = watch_of s, ac_pending = mp_registering s, ac_delivered = deliveries s\<rparr>"

text \<open>The request with which the process joined names the channel on which it waits for the master.\<close>

definition proxy_ok :: "master_proxy \<Rightarrow> bool" where
  "proxy_ok s \<longleftrightarrow> fm_ok (mp_topic_callbacks s) \<and> fm_ok (mp_service_callbacks s) \<and> \<not> (mp_accepting s \<and> mp_receiving s) \<and>
     (mp_accepting s \<or> mp_receiving s \<longrightarrow> mp_server_channel s) \<and> (mp_server_channel s \<longrightarrow> mp_client s) \<and>
     length (mp_source s) = (if mp_server_channel s then 1 else 0) \<and>
     (mp_setting_up s \<longrightarrow> mp_server_channel s \<and> channel_defs (master_notification_watcher_source (mp_client_info s)) = mp_source s) \<and>
     (\<forall>info. Forwarded (RegisterClient info) OnRegisterClient_cb \<in> set (mp_effects s) \<longrightarrow>
        mp_server_channel s \<and> channel_defs (master_notification_watcher_source info) = mp_source s)"

lemmas proxy_defs = mp_emit_def RegisterTopicInfoCallback_def UnregisterTopicInfoCallback_def RegisterServiceInfoCallback_def
  UnregisterServiceInfoCallback_def RegisterAllTopicInfoCallback_def UnregisterAllTopicInfoCallback_def Watcher_DoAccept_def
  Watcher_Start_def WatchNewMasterNotification_def Watcher_OnAccept_def Proxy_Setup_def Proxy_Start_def
  Proxy_RegisterClient_def OnHeartBeatSignallerStart_def OnRegisterClient_def proxy_forward_def SubscribeTopicAsync_def
  RegisterServiceClientAsync_def RequestRegisterNode_def OnRegisterNodeAsync_def Let_def

text \<open>Running the callbacks of a notification only adds to the effects.\<close>

lemma notification_effects:
  "\<exists>es. (case r of Inl _ \<Rightarrow> s | Inr (topic, service) \<Rightarrow>
          let s1 = (case topic of None \<Rightarrow> s | Some t \<Rightarrow> run_topic_callbacks t s) in
          (case service of None \<Rightarrow> s1 | Some i \<Rightarrow> run_service_callbacks i s1)) = s\<lparr>mp_effects := mp_effects s @ es\<rparr> \<and>
     concat (map delivery_of es) = due r (abs_proxy s) \<and> (\<forall>info. Forwarded (RegisterClient info) OnRegisterClient_cb \<notin> set es)"
proof (cases r)
  case (Inr p)
  obtain topic service where p: "p = (topic, service)" by (cases p)
  define ts where "ts = (case topic of None \<Rightarrow> [] | Some t \<Rightarrow>
      map (\<lambda>cb. NewTopicInfo cb t) (opt_to_list (fm_find (mp_topic_callbacks s) (ti_topic t)) @ opt_to_list (mp_all_callback s)))"
  define svs where "svs = (case service of None \<Rightarrow> [] | Some i \<Rightarrow>
      map (\<lambda>cb. NewServiceInfo cb i) (opt_to_list (fm_find (mp_service_callbacks s) (si_service i))))"
  have t: "(case topic of None \<Rightarrow> s | Some t \<Rightarrow> run_topic_callbacks t s) = s\<lparr>mp_effects := mp_effects s @ ts\<rparr>"
    by (simp add: ts_def run_topic_callbacks_def opt_to_list_def mp_emit_def Let_def split: option.split)
  have i: "(case service of None \<Rightarrow> s1 | Some i \<Rightarrow> run_service_callbacks i s1) = s1\<lparr>mp_effects := mp_effects s1 @ svs\<rparr>"
    if "s1 = s\<lparr>mp_effects := e\<rparr>" for s1 e
    using that by (simp add: svs_def run_service_callbacks_def opt_to_list_def mp_emit_def split: option.split)
  have "concat (map delivery_of (ts @ svs)) = due r (abs_proxy s)"
    by (simp add: Inr p due_def abs_proxy_def ts_def svs_def opt_to_list_def split: option.split)
  moreover have "Forwarded (RegisterClient info) OnRegisterClient_cb \<notin> set (ts @ svs)" for info
    by (auto simp: ts_def svs_def opt_to_list_def split: option.split)
  ultimately show ?thesis
    by (intro exI [of _ "ts @ svs"]) (simp add: Inr p t Let_def i)
qed (simp add: due_def exI [of _ "[]"])

text \<open>The events for which the proxy is undefined.\<close>

definition proxy_breaks :: "proxy_event \<Rightarrow> master_proxy \<Rightarrow> bool" where
  "proxy_breaks ev s = (case ev of
      EvStart started listened \<Rightarrow> Status_ok started \<and> (mp_server_channel s \<or> isl listened)
    | EvJoined st new_id \<Rightarrow> mp_joining s \<and> \<not> Status_ok st
    | EvCall rq cb \<Rightarrow> \<not> mp_client s \<or>
        (case rq of
           UnsubscribeTopic info topic \<Rightarrow> fm_find (mp_topic_callbacks s) topic = None
         | UnregisterServiceClient info service \<Rightarrow> fm_find (mp_service_callbacks s) service = None
         | _ \<Rightarrow> False)
    | EvSubscribe info topic type_name cb callback \<Rightarrow> \<not> mp_client s
    | EvServiceClient info service cb callback \<Rightarrow> \<not> mp_client s
    | EvNewNode node info \<Rightarrow> \<not> mp_client s
    | EvNode (TopicInfoWatcherNode delegate) info st \<Rightarrow>
        TopicInfoWatcherNode delegate \<in> set (mp_registering s) \<and> Status_ok st \<and> \<not> ni_watcher info
    | _ \<Rightarrow> False)"

definition proxy_result :: "proxy_event \<Rightarrow> master_proxy \<Rightarrow> bool" where
  "proxy_result ev s \<longleftrightarrow> (if proxy_breaks ev s then proxy_exec ev s = None
     else \<exists>s'. proxy_exec ev s = Some s' \<and> proxy_ok s' \<and> abs_proxy s' = account ev (abs_proxy s))"

lemmas proxy_unfold = proxy_result_def proxy_breaks_def proxy_ok_def abs_proxy_def watch_of_def deliveries_def

lemma result_Start: "proxy_ok s \<Longrightarrow> proxy_result (EvStart started listened) s"
  by (cases listened) (auto simp: proxy_unfold proxy_defs)

lemma result_Signaller: "proxy_ok s \<Longrightarrow> proxy_result (EvSignaller source) s"
  by (auto simp: proxy_unfold proxy_defs)

lemma result_Joined: "proxy_ok s \<Longrightarrow> proxy_result (EvJoined st new_id) s"
  by (auto simp: proxy_unfold proxy_defs)

lemma result_Accepted: "proxy_ok s \<Longrightarrow> proxy_result (EvAccepted st) s"
  by (auto simp: proxy_unfold proxy_defs)

lemma result_Notified:
  assumes "proxy_ok s"
  shows "proxy_result (EvNotified r) s"
proof (cases "mp_receiving s")
  case True
  let ?s = "s\<lparr>mp_receiving := False\<rparr>"
  from notification_effects [where r = r and s = ?s] obtain es where es:
    "OnNewMasterNotification r ?s = Watcher_DoAccept (?s\<lparr>mp_effects := mp_effects ?s @ es\<rparr>)"
    "concat (map delivery_of es) = due r (abs_proxy ?s)" "\<forall>info. Forwarded (RegisterClient info) OnRegisterClient_cb \<notin> set es"
    unfolding OnNewMasterNotification_def by metis
  have same: "due r (abs_proxy ?s) = due r (abs_proxy s)" by (simp add: due_def abs_proxy_def split: sum.split option.split)
  have "OnNewMasterNotification r ?s = Some (?s\<lparr>mp_effects := mp_effects ?s @ es, mp_accepting := True\<rparr>)"
    using assms True by (auto simp: es(1) Watcher_DoAccept_def proxy_ok_def)
  with assms True es(2,3) same show ?thesis
    by (simp add: proxy_result_def proxy_breaks_def) (auto simp: abs_proxy_def proxy_ok_def watch_of_def deliveries_def)
qed (use assms in \<open>simp add: proxy_unfold\<close>)

lemma result_Subscribe: "proxy_ok s \<Longrightarrow> proxy_result (EvSubscribe info topic type_name cb callback) s"
  by (auto simp: proxy_unfold proxy_defs fm_insert_ok fm_insert_find)

lemma result_ServiceClient: "proxy_ok s \<Longrightarrow> proxy_result (EvServiceClient info service cb callback) s"
  by (auto simp: proxy_unfold proxy_defs fm_insert_ok fm_insert_find)

lemma result_Unsubscribe: "proxy_ok s \<Longrightarrow> proxy_result (EvCall (UnsubscribeTopic info topic) cb) s"
  by (cases "fm_find (mp_topic_callbacks s) topic") (auto simp: proxy_unfold proxy_defs fm_erase_ok fm_erase_find)

lemma result_UnregisterServiceClient: "proxy_ok s \<Longrightarrow> proxy_result (EvCall (UnregisterServiceClient info service) cb) s"
  by (cases "fm_find (mp_service_callbacks s) service") (auto simp: proxy_unfold proxy_defs fm_erase_ok fm_erase_find)

lemma forwarded_ok:
  "proxy_ok s \<Longrightarrow> proxy_ok (mp_emit (Forwarded rq (Done cb)) s) \<and> abs_proxy (mp_emit (Forwarded rq (Done cb)) s) = abs_proxy s"
  by (simp add: mp_emit_def proxy_ok_def abs_proxy_def watch_of_def deliveries_def)

lemma result_Call:
  assumes "proxy_ok s"
  shows "proxy_result (EvCall rq cb) s"
proof (cases "(\<exists>info topic. rq = UnsubscribeTopic info topic) \<or> (\<exists>info service. rq = UnregisterServiceClient info service)")
  case False
  then have "proxy_call rq (Done cb) s = proxy_forward rq (Done cb) s" "account_call rq a = a"
    "proxy_breaks (EvCall rq cb) s \<longleftrightarrow> \<not> mp_client s" for a
    by (cases rq; simp add: proxy_breaks_def)+
  then show ?thesis using forwarded_ok [OF assms] by (simp add: proxy_result_def proxy_forward_def)
qed (use assms result_Unsubscribe result_UnregisterServiceClient in auto)

lemma result_NewNode: "proxy_ok s \<Longrightarrow> proxy_result (EvNewNode node info) s"
  by (cases node) (auto simp: proxy_unfold proxy_defs)

lemma result_Node: "proxy_ok s \<Longrightarrow> proxy_result (EvNode node info st) s"
  by (cases node) (auto simp: proxy_unfold proxy_defs)

lemma proxy_exec_result: "proxy_ok s \<Longrightarrow> proxy_result ev s"
  by (cases ev) (simp_all only: result_Start result_Signaller result_Joined result_Accepted result_Notified result_Subscribe
      result_ServiceClient result_Call result_NewNode result_Node)

lemma proxy_run_account:
  "proxy_run evs s = Some s' \<Longrightarrow> proxy_ok s \<Longrightarrow> proxy_ok s' \<and> abs_proxy s' = foldl (\<lambda>a ev. account ev a) (abs_proxy s) evs"
proof (induction evs arbitrary: s)
  case (Cons ev evs)
  from Cons.prems(1) obtain s1 where s1: "proxy_exec ev s = Some s1" "proxy_run evs s1 = Some s'" by (auto split: option.splits)
  with proxy_exec_result [OF Cons.prems(2), of ev] have "proxy_ok s1" "abs_proxy s1 = account ev (abs_proxy s)"
    by (auto simp: proxy_result_def split: if_splits)
  with Cons.IH [OF s1(2)] show ?case by simp
qed simp

lemma new_proxy_ok: "proxy_ok (new_MasterProxy info)" "abs_proxy (new_MasterProxy info) = no_account"
  by (simp_all add: new_MasterProxy_def proxy_ok_def abs_proxy_def watch_of_def deliveries_def no_account_def fun_eq_iff)

lemma proxy_history:
  "proxy_run evs (new_MasterProxy info) = Some s \<Longrightarrow> proxy_ok s \<and> abs_proxy s = account_of evs"
  using proxy_run_account [of evs "new_MasterProxy info" s] new_proxy_ok by (simp add: account_of_def)

section \<open>What the process gets\<close>

definition proxy_demo_channel :: channel_def where
  "proxy_demo_channel = \<lparr>cd_type = CHANNEL_TYPE_TCP, cd_ip_endpoint = Some \<lparr>ip = ''127.0.0.1'', port = 3000\<rparr>, cd_uds_endpoint = None, cd_shm_endpoint = None\<rparr>"

definition proxy_demo_client :: client_info where
  "proxy_demo_client = \<lparr>ci_id = 0, heart_beat_signaller_source = \<lparr>channel_defs = []\<rparr>,
     master_notification_watcher_source = \<lparr>channel_defs = []\<rparr>, heart_beat_duration = 1000\<rparr>"

definition proxy_demo_node :: node_info where
  "proxy_demo_node = \<lparr>ni_name = ''n'', ni_client_id = 1, ni_watcher = False\<rparr>"

definition proxy_demo_topic :: topic_info where
  "proxy_demo_topic = \<lparr>ti_topic = ''t'', ti_type_name = ''T'', ti_impl_type = PROTOBUF, topic_source = \<lparr>channel_defs = [proxy_demo_channel]\<rparr>,
     ti_status = REGISTERED, ti_ros_node_name = []\<rparr>"

definition proxy_demo_join :: "proxy_event list" where
  "proxy_demo_join = [EvStart Status_OK (Inr proxy_demo_channel), EvSignaller \<lparr>channel_defs = [proxy_demo_channel]\<rparr>, EvJoined Status_OK 1]"

definition proxy_demo_notified :: "proxy_event list" where
  "proxy_demo_notified = proxy_demo_join @ [EvSubscribe proxy_demo_node ''t'' ''T'' 0 7, EvSubscribe proxy_demo_node ''t'' ''T'' 1 8, EvAccepted Status_OK,
     EvNotified (Inr (Some proxy_demo_topic, None))]"

text \<open>
  C19.  Whatever happens to the master proxy of a process, the callbacks that have been run for notifications of the master are
  those of an account that looks at the events only: a topic goes to who subscribed to it last and has not unsubscribed, and to
  the node that watches all topics; a service to who registered for it last; and only what arrives while the watcher waits on a
  connection of the master counts.  The request with which the process joined named the channel the watcher listens on.
\<close>

theorem proxy_delivers_notifications:
  assumes "proxy_run evs (new_MasterProxy info) = Some s"
  shows "concat (map delivery_of (mp_effects s)) = ac_delivered (account_of evs) \<and>
    fm_find (mp_topic_callbacks s) = ac_topics (account_of evs) \<and> fm_find (mp_service_callbacks s) = ac_services (account_of evs) \<and>
    (mp_accepting s \<longleftrightarrow> ac_watch (account_of evs) = AwaitingMaster) \<and> (mp_receiving s \<longleftrightarrow> ac_watch (account_of evs) = AwaitingNotification) \<and>
    (\<forall>joined. Forwarded (RegisterClient joined) OnRegisterClient_cb \<in> set (mp_effects s) \<longrightarrow>
       (\<exists>cd. mp_source s = [cd] \<and> channel_defs (master_notification_watcher_source joined) = [cd]))"
proof -
  note h = proxy_history [OF assms]
  have a: "account_of evs = abs_proxy s" using h by simp
  have watch: "(mp_accepting s \<longleftrightarrow> watch_of s = AwaitingMaster) \<and> (mp_receiving s \<longleftrightarrow> watch_of s = AwaitingNotification)"
    using h by (auto simp: watch_of_def proxy_ok_def)
  have "\<exists>cd. mp_source s = [cd]" if "mp_server_channel s"
    using h that by (auto simp: proxy_ok_def length_Suc_conv)
  moreover have "mp_server_channel s \<and> channel_defs (master_notification_watcher_source joined) = mp_source s"
    if "Forwarded (RegisterClient joined) OnRegisterClient_cb \<in> set (mp_effects s)" for joined
    using h that unfolding proxy_ok_def by blast
  ultimately show ?thesis using watch unfolding a by (force simp: abs_proxy_def deliveries_def)
qed

theorem proxy_delivers_notifications_witness:
  "\<exists>s. proxy_run proxy_demo_notified (new_MasterProxy proxy_demo_client) = Some s \<and> concat (map delivery_of (mp_effects s)) = [(8, Inl proxy_demo_topic)]"
proof -
  have "proxy_run proxy_demo_notified (new_MasterProxy proxy_demo_client) \<noteq> None" by code_simp
  then obtain s where s: "proxy_run proxy_demo_notified (new_MasterProxy proxy_demo_client) = Some s" by blast
  have "ac_delivered (account_of proxy_demo_notified) = [(8, Inl proxy_demo_topic)]" by code_simp
  with proxy_delivers_notifications [OF s] s show ?thesis by simp
qed

text \<open>
  C20.  The proxy is undefined for exactly these events: a call before it was started; an unsubscription from a topic, or from a
  service, for which the account knows nobody (as for the second of two subscribers of one topic in a process); a second start or
  one that cannot listen; a registration of the process that the master refuses; and a topic watcher that the master registered as
  another node.  No notification and no connection is among them.
\<close>

theorem proxy_undefined_exactly:
  assumes "proxy_run evs (new_MasterProxy info) = Some s"
  shows "proxy_exec ev s = None \<longleftrightarrow> (case ev of
      EvStart started listened \<Rightarrow> Status_ok started \<and> (ac_watch (account_of evs) \<noteq> NotWatching \<or> isl listened)
    | EvJoined st new_id \<Rightarrow> mp_joining s \<and> \<not> Status_ok st
    | EvCall (UnsubscribeTopic node topic) cb \<Rightarrow> \<not> mp_client s \<or> ac_topics (account_of evs) topic = None
    | EvCall (UnregisterServiceClient node service) cb \<Rightarrow> \<not> mp_client s \<or> ac_services (account_of evs) service = None
    | EvCall rq cb \<Rightarrow> \<not> mp_client s
    | EvSubscribe node topic type_name cb callback \<Rightarrow> \<not> mp_client s
    | EvServiceClient node service cb callback \<Rightarrow> \<not> mp_client s
    | EvNewNode object node \<Rightarrow> \<not> mp_client s
    | EvNode (TopicInfoWatcherNode delegate) node st \<Rightarrow>
        TopicInfoWatcherNode delegate \<in> set (ac_pending (account_of evs)) \<and> Status_ok st \<and> \<not> ni_watcher node
    | _ \<Rightarrow> False)"
proof -
  note h = proxy_history [OF assms]
  have a: "account_of evs = abs_proxy s" using h by simp
  from proxy_exec_result [of s ev] h have "proxy_exec ev s = None \<longleftrightarrow> proxy_breaks ev s" by (auto simp: proxy_result_def split: if_splits)
  also have "\<dots> \<longleftrightarrow> (case ev of
      EvStart started listened \<Rightarrow> Status_ok started \<and> (ac_watch (abs_proxy s) \<noteq> NotWatching \<or> isl listened)
    | EvJoined st new_id \<Rightarrow> mp_joining s \<and> \<not> Status_ok st
    | EvCall (UnsubscribeTopic node topic) cb \<Rightarrow> \<not> mp_client s \<or> ac_topics (abs_proxy s) topic = None
    | EvCall (UnregisterServiceClient node service) cb \<Rightarrow> \<not> mp_client s \<or> ac_services (abs_proxy s) service = None
    | EvCall rq cb \<Rightarrow> \<not> mp_client s
    | EvSubscribe node topic type_name cb callback \<Rightarrow> \<not> mp_client s
    | EvServiceClient node service cb callback \<Rightarrow> \<not> mp_client s
    | EvNewNode object node \<Rightarrow> \<not> mp_client s
    | EvNode (TopicInfoWatcherNode delegate) node st \<Rightarrow>
        TopicInfoWatcherNode delegate \<in> set (ac_pending (abs_proxy s)) \<and> Status_ok st \<and> \<not> ni_watcher node
    | _ \<Rightarrow> False)"
    by (simp add: proxy_breaks_def abs_proxy_def watch_of_def split: proxy_event.split request.split node_object.split)
  finally show ?thesis unfolding a .
qed

text \<open>Two subscribers of one topic in a process, of which both unsubscribe.\<close>

definition proxy_demo_leaving :: "proxy_event list" where
  "proxy_demo_leaving = proxy_demo_notified @ [EvCall (UnsubscribeTopic proxy_demo_node ''t'') 2]"

theorem proxy_undefined_exactly_witness:
  "\<exists>s. proxy_run proxy_demo_leaving (new_MasterProxy proxy_demo_client) = Some s \<and> proxy_exec (EvCall (UnsubscribeTopic proxy_demo_node ''t'') 3) s = None"
proof -
  have "proxy_run proxy_demo_leaving (new_MasterProxy proxy_demo_client) \<noteq> None" by code_simp
  then obtain s where s: "proxy_run proxy_demo_leaving (new_MasterProxy proxy_demo_client) = Some s" by blast
  have "ac_topics (account_of proxy_demo_leaving) ''t'' = None" by code_simp
  with proxy_undefined_exactly [OF s, of "EvCall (UnsubscribeTopic proxy_demo_node ''t'') 3"] s show ?thesis by simp
qed

section \<open>A failed accept\<close>

lemma deaf_account:
  "ac_watch a = Deaf \<Longrightarrow> (\<And>started listened. ev = EvStart started listened \<Longrightarrow> \<not> Status_ok started) \<Longrightarrow>
   ac_watch (account ev a) = Deaf \<and> ac_delivered (account ev a) = ac_delivered a"
proof (cases ev)
  case (EvCall rq cb)
  then show "ac_watch a = Deaf \<Longrightarrow> ac_watch (account ev a) = Deaf \<and> ac_delivered (account ev a) = ac_delivered a" by (cases rq) simp_all
next
  case (EvNewNode node info)
  then show "ac_watch a = Deaf \<Longrightarrow> ac_watch (account ev a) = Deaf \<and> ac_delivered (account ev a) = ac_delivered a" by (cases node) simp_all
next
  case (EvNode node info st)
  then show "ac_watch a = Deaf \<Longrightarrow> ac_watch (account ev a) = Deaf \<and> ac_delivered (account ev a) = ac_delivered a" by (cases node) simp_all
qed auto

text \<open>
  Once an accept of the watcher failed, the process gets no notification of the master any more, whatever happens.
\<close>

theorem watcher_deaf_after_failed_accept:
  assumes "proxy_ok s" "mp_accepting s" "\<not> Status_ok st" "proxy_run (EvAccepted st # evs) s = Some s'"
  shows "deliveries s' = deliveries s"
proof -
  have "proxy_run evs s0 = Some s' \<Longrightarrow> proxy_ok s0 \<Longrightarrow> watch_of s0 = Deaf \<Longrightarrow> deliveries s' = deliveries s0" for s0
  proof (induction evs arbitrary: s0)
    case (Cons ev evs)
    from Cons.prems(1) obtain s1 where s1: "proxy_exec ev s0 = Some s1" "proxy_run evs s1 = Some s'" by (auto split: option.splits)
    with proxy_exec_result [OF Cons.prems(2), of ev] have ok: "\<not> proxy_breaks ev s0" "proxy_ok s1" "abs_proxy s1 = account ev (abs_proxy s0)"
      by (auto simp: proxy_result_def split: if_splits)
    have "mp_server_channel s0" using Cons.prems(3) by (auto simp: watch_of_def split: if_splits)
    then have "ac_watch (account ev (abs_proxy s0)) = Deaf \<and> ac_delivered (account ev (abs_proxy s0)) = ac_delivered (abs_proxy s0)"
      using ok(1) Cons.prems(3) by (intro deaf_account) (auto simp: abs_proxy_def proxy_breaks_def)
    with ok(3) have "watch_of s1 = Deaf" "deliveries s1 = deliveries s0" by (metis abs_proxy_def proxy_account.select_convs(4,6))+
    with Cons.IH [OF s1(2) ok(2)] show ?case by simp
  qed simp
  moreover have "proxy_exec (EvAccepted st) s = Some (s\<lparr>mp_accepting := False\<rparr>)" using assms(2,3) by (simp add: Watcher_OnAccept_def)
  moreover have "proxy_ok (s\<lparr>mp_accepting := False\<rparr>)" "watch_of (s\<lparr>mp_accepting := False\<rparr>) = Deaf"
    "deliveries (s\<lparr>mp_accepting := False\<rparr>) = deliveries s"
    using assms(1,2) by (auto simp: proxy_ok_def watch_of_def deliveries_def)
  ultimately show ?thesis using assms(4) by simp
qed

end
