(* ===== verification/Felicia_MessageIO.thy ===== *)
theory Felicia_MessageIO
  imports Felicia_Status
begin

text \<open>
  Sending and receiving one message over a channel: the length header of
  \<open>core/message/header.cc\<close>, the growing buffers of \<open>core/channel/channel_buffer.cc\<close>, the read and
  write loops of \<open>core/channel/socket/socket.cc\<close>, \<open>core/channel/channel.cc\<close>, and the templates
  \<open>MessageSender\<close> and \<open>MessageReceiver\<close> over a serializer \<open>MessageIO<T>\<close>.  The operating system's
  socket (\<open>net::TCPSocket\<close>) is a parameter.  The host is little endian with 32 bit \<open>int\<close>.
\<close>

unbundle bit_operations_syntax

type_synonym bytes = "u8 list"

section \<open>Header\<close>

definition to_int32 :: "nat \<Rightarrow> u32" where
  "to_int32 n = word_of_nat n"

text \<open>\<open>memcpy(buffer, &size_, sizeof(int))\<close> and its inverse.\<close>

definition int_to_bytes :: "u32 \<Rightarrow> bytes" where
  "int_to_bytes w = [ucast w, ucast (drop_bit 8 w), ucast (drop_bit 16 w), ucast (drop_bit 24 w)]"

definition int_from_bytes :: "bytes \<Rightarrow> u32" where
  "int_from_bytes b =
     (ucast (b ! 0) OR push_bit 8 (ucast (b ! 1)) OR push_bit 16 (ucast (b ! 2)) OR
      push_bit 24 (ucast (b ! 3)))"

definition header_size :: nat where
  "header_size = 4"

text \<open>\<open>sizeof(Header)\<close>: the class has the single member \<open>int size_\<close>.\<close>

definition sizeof_Header :: nat where
  "sizeof_Header = 4"

text \<open>The bytes \<open>AttachHeader\<close> and \<open>AttachHeaderInternally\<close> write; \<open>size_\<close> bytes are copied.\<close>

definition AttachHeader :: "bytes \<Rightarrow> bytes" where
  "AttachHeader content =
     (let sz = to_int32 (length content) in
      int_to_bytes sz @ take (nat (sint sz)) content)"

text \<open>
  The message offset and the message size; \<open>None\<close> when the header does not lie inside the buffer,
  which the code does not check.
\<close>

definition ParseHeader :: "bytes \<Rightarrow> (message_io_error + nat \<times> int) option" where
  "ParseHeader buf =
     (if header_size \<le> length buf then Some (Inr (header_size, sint (int_from_bytes buf))) else None)"

lemma int_bytes_roundtrip: "int_from_bytes (int_to_bytes w @ rest) = w"
proof (rule bit_word_eqI)
  fix n
  assume "n < LENGTH(32)"
  then show "bit (int_from_bytes (int_to_bytes w @ rest)) n = bit w n"
    by (cases "24 \<le> n"; cases "16 \<le> n")
      (auto simp: int_from_bytes_def int_to_bytes_def bit_or_iff bit_push_bit_iff bit_ucast_iff
        bit_drop_bit_eq)
qed

section \<open>ChannelBuffer\<close>

record channel_buffer =
  cb_data :: bytes
  cb_offset :: nat
  cb_is_dynamic :: bool

definition new_ChannelBuffer :: channel_buffer where
  "new_ChannelBuffer = \<lparr>cb_data = [], cb_offset = 0, cb_is_dynamic = False\<rparr>"

definition ChannelBuffer_capacity :: "channel_buffer \<Rightarrow> int" where
  "ChannelBuffer_capacity b = int (length (cb_data b))"

text \<open>\<open>realloc\<close> keeps the common prefix; the value of new bytes is not used before it is written.\<close>

definition SetCapacity :: "int \<Rightarrow> channel_buffer \<Rightarrow> channel_buffer" where
  "SetCapacity c b =
     b\<lparr>cb_data := take (nat c) (cb_data b) @ replicate (nat c - length (cb_data b)) 0,
       cb_offset := min (cb_offset b) (nat c)\<rparr>"

definition SetDynamicBuffer :: "bool \<Rightarrow> channel_buffer \<Rightarrow> channel_buffer" where
  "SetDynamicBuffer is_dynamic b = b\<lparr>cb_is_dynamic := True\<rparr>"

definition kKilloBytes :: int where "kKilloBytes = 1000"

definition ChannelBuffer_Reset :: "channel_buffer \<Rightarrow> channel_buffer" where
  "ChannelBuffer_Reset b =
     (if \<not> cb_is_dynamic b \<and> ChannelBuffer_capacity b = 0 then SetCapacity (1 * kKilloBytes) b else b)
     \<lparr>cb_offset := 0\<rparr>"

definition SetEnoughCapacityIfDynamic :: "int \<Rightarrow> channel_buffer \<Rightarrow> bool \<times> channel_buffer" where
  "SetEnoughCapacityIfDynamic capacity b =
     (if ChannelBuffer_capacity b \<ge> capacity then (True, b)
      else if \<not> cb_is_dynamic b then (False, b)
      else (True, SetCapacity capacity b))"

text \<open>A write of bytes at a position; \<open>None\<close> when it would leave the buffer.\<close>

definition write_at :: "nat \<Rightarrow> bytes \<Rightarrow> channel_buffer \<Rightarrow> channel_buffer option" where
  "write_at i bs b =
     (if i + length bs \<le> length (cb_data b)
      then Some (b\<lparr>cb_data := take i (cb_data b) @ bs @ drop (i + length bs) (cb_data b)\<rparr>)
      else None)"

lemma capacity_SetCapacity [simp]: "0 \<le> c \<Longrightarrow> ChannelBuffer_capacity (SetCapacity c b) = c"
  by (simp add: ChannelBuffer_capacity_def SetCapacity_def)

lemma SetEnough_True:
  "SetEnoughCapacityIfDynamic c b = (True, b') \<Longrightarrow> 0 \<le> c \<Longrightarrow>
     c \<le> ChannelBuffer_capacity b' \<and> cb_is_dynamic b' = cb_is_dynamic b"
  by (auto simp: SetEnoughCapacityIfDynamic_def SetCapacity_def ChannelBuffer_capacity_def split: if_splits)

lemma SetEnough_cases:
  "fst (SetEnoughCapacityIfDynamic c b) \<longleftrightarrow> cb_is_dynamic b \<or> c \<le> ChannelBuffer_capacity b"
  by (auto simp: SetEnoughCapacityIfDynamic_def)

section \<open>Socket loops\<close>

text \<open>
  One call of \<open>net::Socket::Read\<close>: bytes (none at the end of the stream), a negative error, or
  \<open>ERR_IO_PENDING\<close> together with the result the pending operation completes with, an error or the
  bytes it has stored.  \<open>Write\<close> answers with the number of bytes it took.
\<close>

datatype read_rv = Data bytes | ReadError int | ReadPending "int + bytes"
datatype write_rv = Wrote nat | WriteError int | WritePending "int + nat"

text \<open>The number the completion callback runs with, if it runs.\<close>

type_synonym io_outcome = "int option"

definition CallbackWithStatus :: "(int \<Rightarrow> string) \<Rightarrow> int \<Rightarrow> status" where
  "CallbackWithStatus ErrorToString result =
     (if result \<ge> 0 then Status_OK else NetworkError (ErrorToString result))"

text \<open>
  \<open>ReadRepeating\<close>: the bytes stored so far are \<open>acc\<close>.  The callback runs with the last result when
  all bytes have come or a read gave none; on \<open>ERR_IO_PENDING\<close> the loop ends, and the socket runs
  the same callback with the result of the pending read.  With nothing to read it never runs.
\<close>

function ReadRepeating ::
    "('s \<Rightarrow> int \<Rightarrow> read_rv \<times> 's) \<Rightarrow> 's \<Rightarrow> int \<Rightarrow> bytes \<Rightarrow> io_outcome \<times> bytes \<times> 's" where
  "ReadRepeating Read s to_read acc =
     (if to_read > 0 then
        (case Read s to_read of
           (ReadPending (Inl e), s') \<Rightarrow> (Some e, acc, s')
         | (ReadPending (Inr bs), s') \<Rightarrow> (Some (int (length bs)), acc @ bs, s')
         | (ReadError e, s') \<Rightarrow> (Some e, acc, s')
         | (Data bs, s') \<Rightarrow>
             let rv = int (length bs); to_read' = to_read - rv; acc' = acc @ bs in
             if to_read' = 0 \<or> rv \<le> 0 then (Some rv, acc', s')
             else ReadRepeating Read s' to_read' acc')
      else (None, acc, s))"
  by pat_completeness auto
termination
  by (relation "measure (\<lambda>(Read, s, to_read, acc). nat to_read)") auto

declare ReadRepeating.simps [simp del]

lemma ReadRepeating_more:
  "Read s n = (Data bs, s') \<Longrightarrow> bs \<noteq> [] \<Longrightarrow> int (length bs) < n \<Longrightarrow>
     ReadRepeating Read s n acc = ReadRepeating Read s' (n - int (length bs)) (acc @ bs)"
  by (subst ReadRepeating.simps) auto

text \<open>\<open>WriteRepeating\<close>; the bytes left over are those the socket was not given again.\<close>

function WriteRepeating ::
    "('s \<Rightarrow> bytes \<Rightarrow> write_rv \<times> 's) \<Rightarrow> 's \<Rightarrow> bytes \<Rightarrow> io_outcome \<times> bytes \<times> 's" where
  "WriteRepeating Write s remaining =
     (if remaining \<noteq> [] then
        (case Write s remaining of
           (WritePending (Inl e), s') \<Rightarrow> (Some e, remaining, s')
         | (WritePending (Inr n), s') \<Rightarrow> (Some (int n), drop n remaining, s')
         | (WriteError e, s') \<Rightarrow> (Some e, remaining, s')
         | (Wrote n, s') \<Rightarrow>
             let remaining' = (if n > 0 then drop n remaining else remaining) in
             if remaining' = [] \<or> n \<le> 0 then (Some (int n), remaining', s')
             else WriteRepeating Write s' remaining')
      else (None, remaining, s))"
  by pat_completeness auto
termination
  by (relation "measure (\<lambda>(Write, s, remaining). length remaining)") auto

declare WriteRepeating.simps [simp del]

text \<open>
  \<open>ReadAsync\<close> and \<open>WriteAsync\<close> of the TCP sockets: \<open>OnRead\<close> and \<open>OnWrite\<close> turn the number into the
  status for the caller's callback.
\<close>

definition socket_ReadAsync ::
    "(int \<Rightarrow> string) \<Rightarrow> ('s \<Rightarrow> int \<Rightarrow> read_rv \<times> 's) \<Rightarrow> 's \<Rightarrow> nat \<Rightarrow> (status \<times> bytes \<times> 's) option" where
  "socket_ReadAsync ErrorToString Read s n =
     (case ReadRepeating Read s (int n) [] of
        (None, _, _) \<Rightarrow> None
      | (Some rv, bs, s') \<Rightarrow> Some (CallbackWithStatus ErrorToString rv, bs, s'))"

definition socket_WriteAsync ::
    "(int \<Rightarrow> string) \<Rightarrow> ('s \<Rightarrow> bytes \<Rightarrow> write_rv \<times> 's) \<Rightarrow> 's \<Rightarrow> bytes \<Rightarrow> (status \<times> 's) option" where
  "socket_WriteAsync ErrorToString Write s bs =
     (case WriteRepeating Write s bs of
        (None, _, _) \<Rightarrow> None
      | (Some rv, _, s') \<Rightarrow> Some (CallbackWithStatus ErrorToString rv, s'))"

section \<open>Channel\<close>

text \<open>
  A channel with its two buffers; \<open>HasNativeHeader\<close> and \<open>ShouldReceiveMessageWithHeader\<close> are what
  the channel's class answers.  \<open>ReadAsync\<close> is the read of the implementation behind the channel,
  together with its completion: the status its callback runs with and the bytes it stored, or
  \<open>None\<close> if the callback never runs.  The buffer's offset moves with the stored bytes during a read;
  it is 0 at the start of every read and write, and the model does not follow it in between.
\<close>

record channel =
  send_buffer :: channel_buffer
  receive_buffer :: channel_buffer
  HasNativeHeader :: bool
  ShouldReceiveMessageWithHeader :: bool

definition NotEnoughBuffer :: status where
  "NotEnoughBuffer = Aborted (MessageIOErrorToString ERR_NOT_ENOUGH_BUFFER)"

text \<open>What \<open>SendInternalBuffer\<close> hands to \<open>WriteAsync\<close>: \<open>size\<close> bytes from the buffer's offset on.\<close>

definition SendInternalBuffer :: "nat \<Rightarrow> channel \<Rightarrow> bytes" where
  "SendInternalBuffer sz ch = take sz (drop (cb_offset (send_buffer ch)) (cb_data (send_buffer ch)))"

datatype send_result = SendError status | Sending bytes

definition Channel_Send :: "bytes \<Rightarrow> channel \<Rightarrow> (send_result \<times> channel) option" where
  "Channel_Send text ch =
     (let b0 = ChannelBuffer_Reset (send_buffer ch);
          to_send = length text;
          (ok, b1) = SetEnoughCapacityIfDynamic (sint (to_int32 to_send)) b0;
          ch1 = ch\<lparr>send_buffer := b1\<rparr> in
      if \<not> ok then Some (SendError NotEnoughBuffer, ch1)
      else case write_at 0 text b1 of
        None \<Rightarrow> None
      | Some b2 \<Rightarrow>
          let ch2 = ch1\<lparr>send_buffer := b2\<rparr> in Some (Sending (SendInternalBuffer to_send ch2), ch2))"

definition ReceiveInternalBuffer ::
    "('s \<Rightarrow> nat \<Rightarrow> (status \<times> bytes \<times> 's) option) \<Rightarrow> int \<Rightarrow> channel \<Rightarrow> 's \<Rightarrow> (status \<times> channel \<times> 's) option" where
  "ReceiveInternalBuffer ReadAsync sz ch s =
     (let b0 = ChannelBuffer_Reset (receive_buffer ch);
          (ok, b1) = SetEnoughCapacityIfDynamic sz b0;
          ch1 = ch\<lparr>receive_buffer := b1\<rparr> in
      if \<not> ok then Some (NotEnoughBuffer, ch1, s)
      else let to_receive = (if ShouldReceiveMessageWithHeader ch then ChannelBuffer_capacity b1 else sz) in
        (case ReadAsync s (nat to_receive) of
           None \<Rightarrow> None
         | Some (st, bs, s') \<Rightarrow>
             map_option (\<lambda>b2. (st, ch1\<lparr>receive_buffer := b2\<rparr>, s')) (write_at (cb_offset b1) bs b1)))"

section \<open>MessageSender\<close>

text \<open>
  The sender; a callback for a header of its own runs once and is gone then.  The result of
  \<open>SendMessage\<close> is an error status for the callback, or the bytes on their way; \<open>None\<close> is a write
  past the end of the send buffer.
\<close>

record message_sender =
  channel :: channel
  attach_header_callback :: "(bytes \<Rightarrow> message_io_error + bytes) option"

definition io_error :: "message_io_error \<Rightarrow> status" where
  "io_error err = Aborted (MessageIOErrorToString err)"

definition sender_Send :: "bytes \<Rightarrow> message_sender \<Rightarrow> (send_result \<times> message_sender) option" where
  "sender_Send txt sd = map_option (\<lambda>(r, ch). (r, sd\<lparr>channel := ch\<rparr>)) (Channel_Send txt (channel sd))"

definition SendMessage ::
    "('m \<Rightarrow> message_io_error + bytes) \<Rightarrow> 'm \<Rightarrow> message_sender \<Rightarrow> (send_result \<times> message_sender) option" where
  "SendMessage Serialize message sd =
     (case Serialize message of
        Inl err \<Rightarrow> Some (SendError (io_error err), sd)
      | Inr content \<Rightarrow>
          if HasNativeHeader (channel sd) then sender_Send content sd
          else (case attach_header_callback sd of
            Some attach \<Rightarrow>
              let sd1 = sd\<lparr>attach_header_callback := None\<rparr> in
              (case attach content of
                 Inl err \<Rightarrow> Some (SendError (io_error err), sd1)
               | Inr txt \<Rightarrow> sender_Send txt sd1)
          | None \<Rightarrow>
              let to_send = sizeof_Header + length content;
                  (ok, b1) = SetEnoughCapacityIfDynamic (sint (to_int32 to_send)) (send_buffer (channel sd));
                  ch1 = (channel sd)\<lparr>send_buffer := b1\<rparr> in
              if \<not> ok then Some (SendError (io_error ERR_NOT_ENOUGH_BUFFER), sd\<lparr>channel := ch1\<rparr>)
              else map_option
                (\<lambda>b2. let ch2 = ch1\<lparr>send_buffer := b2\<rparr> in
                   (Sending (SendInternalBuffer to_send ch2), sd\<lparr>channel := ch2\<rparr>))
                (write_at 0 (AttachHeader content) b1)))"

section \<open>MessageReceiver\<close>

text \<open>The header a receiver expects: \<open>Header\<close>, or what its two callbacks give.\<close>

record receive_header =
  hdr_size :: int
  hdr_parse :: "bytes \<Rightarrow> (message_io_error + nat \<times> int) option"

definition default_header :: receive_header where
  "default_header = \<lparr>hdr_size = int header_size, hdr_parse = ParseHeader\<rparr>"

text \<open>The status the receive callback runs with, and the message if it was stored.\<close>

definition Deserialized ::
    "(bytes \<Rightarrow> message_io_error + 'm) \<Rightarrow> bytes \<Rightarrow> status \<times> 'm option" where
  "Deserialized Deserialize bs =
     (case Deserialize bs of
        Inl err \<Rightarrow> (io_error err, None)
      | Inr m \<Rightarrow> (Status_OK, Some m))"

definition OnReceiveMessage ::
    "(bytes \<Rightarrow> message_io_error + 'm) \<Rightarrow> int \<Rightarrow> status \<Rightarrow> channel \<Rightarrow> (status \<times> 'm option) option" where
  "OnReceiveMessage Deserialize message_size s ch =
     (if \<not> Status_ok s then Some (s, None)
      else if nat message_size \<le> length (cb_data (receive_buffer ch))
      then Some (Deserialized Deserialize (take (nat message_size) (cb_data (receive_buffer ch))))
      else None)"

definition OnReceiveHeader ::
    "('s \<Rightarrow> nat \<Rightarrow> (status \<times> bytes \<times> 's) option) \<Rightarrow> (bytes \<Rightarrow> message_io_error + 'm) \<Rightarrow> receive_header \<Rightarrow>
     status \<Rightarrow> channel \<Rightarrow> 's \<Rightarrow> ((status \<times> 'm option) \<times> channel \<times> 's) option" where
  "OnReceiveHeader ReadAsync Deserialize hdr s ch st =
     (if \<not> Status_ok s then Some ((s, None), ch, st)
      else (case hdr_parse hdr (cb_data (receive_buffer ch)) of
        None \<Rightarrow> None
      | Some (Inl err) \<Rightarrow> Some ((io_error err, None), ch, st)
      | Some (Inr (_, message_size)) \<Rightarrow>
        if message_size < 0 then Some ((Aborted ''message_size is negative'', None), ch, st)
        else if message_size > 0 then
          (case ReceiveInternalBuffer ReadAsync message_size ch st of
             None \<Rightarrow> None
           | Some (s', ch', st') \<Rightarrow>
               map_option (\<lambda>r. (r, ch', st')) (OnReceiveMessage Deserialize message_size s' ch'))
        else map_option (\<lambda>r. (r, ch, st)) (OnReceiveMessage Deserialize 0 Status_OK ch)))"

text \<open>
  With the header in the same datagram the message is read from the buffer behind the header;
  reading past the buffer (the size in the header is not checked) is undefined.
\<close>

definition OnReceiveMessageWithHeader ::
    "(bytes \<Rightarrow> message_io_error + 'm) \<Rightarrow> receive_header \<Rightarrow> status \<Rightarrow> channel \<Rightarrow> (status \<times> 'm option) option" where
  "OnReceiveMessageWithHeader Deserialize hdr s ch =
     (if \<not> Status_ok s then Some (s, None)
      else (case hdr_parse hdr (cb_data (receive_buffer ch)) of
        None \<Rightarrow> None
      | Some (Inl err) \<Rightarrow> Some (io_error err, None)
      | Some (Inr (message_offset, message_size)) \<Rightarrow>
        if message_size \<ge> 0 \<and> message_offset + nat message_size \<le> length (cb_data (receive_buffer ch))
        then Some (Deserialized Deserialize
               (take (nat message_size) (drop message_offset (cb_data (receive_buffer ch)))))
        else None))"

definition ReceiveMessage ::
    "('s \<Rightarrow> nat \<Rightarrow> (status \<times> bytes \<times> 's) option) \<Rightarrow> (bytes \<Rightarrow> message_io_error + 'm) \<Rightarrow> receive_header \<Rightarrow>
     channel \<Rightarrow> 's \<Rightarrow> ((status \<times> 'm option) \<times> channel \<times> 's) option" where
  "ReceiveMessage ReadAsync Deserialize hdr ch st =
     (if ShouldReceiveMessageWithHeader ch then
        (case ReceiveInternalBuffer ReadAsync 0 ch st of
           None \<Rightarrow> None
         | Some (s', ch', st') \<Rightarrow>
             map_option (\<lambda>r. (r, ch', st')) (OnReceiveMessageWithHeader Deserialize hdr s' ch'))
      else if hdr_size hdr \<le> 0 then Some ((Aborted ''header_size is not positive'', None), ch, st)
      else
        (case ReceiveInternalBuffer ReadAsync (hdr_size hdr) ch st of
           None \<Rightarrow> None
         | Some (s', ch', st') \<Rightarrow> OnReceiveHeader ReadAsync Deserialize hdr s' ch' st'))"

section \<open>Framing\<close>

text \<open>The limit under which the \<open>int\<close> size of the header is exact.\<close>

definition fits :: "bytes \<Rightarrow> bool" where
  "fits content \<longleftrightarrow> length content + sizeof_Header < 2 ^ 31"

lemma sint_to_int32: "n < 2 ^ 31 \<Longrightarrow> sint (to_int32 n) = int n"
  by (simp add: to_int32_def sint_uint unsigned_of_nat take_bit_nat_eq_self
      signed_take_bit_int_eq_self)

lemma length_int_to_bytes [simp]: "length (int_to_bytes w) = 4"
  by (simp add: int_to_bytes_def)

lemma AttachHeader_fits:
  "fits content \<Longrightarrow> AttachHeader content = int_to_bytes (to_int32 (length content)) @ content"
  by (simp add: AttachHeader_def fits_def sint_to_int32 Let_def)

lemma ParseHeader_attached:
  "fits content \<Longrightarrow>
     ParseHeader (int_to_bytes (to_int32 (length content)) @ rest) = Some (Inr (header_size, int (length content)))"
  by (simp add: ParseHeader_def header_size_def int_bytes_roundtrip fits_def sint_to_int32)

lemma write_at_enough:
  "i + length bs \<le> length (cb_data b) \<Longrightarrow>
     write_at i bs b = Some (b\<lparr>cb_data := take i (cb_data b) @ bs @ drop (i + length bs) (cb_data b)\<rparr>)"
  by (simp add: write_at_def)

text \<open>The largest message part a channel takes in; a static buffer of no size gets the default.\<close>

definition room :: "channel_buffer \<Rightarrow> nat \<Rightarrow> bool" where
  "room b n \<longleftrightarrow> cb_is_dynamic b \<or> int n \<le> (if ChannelBuffer_capacity b = 0 then kKilloBytes else ChannelBuffer_capacity b)"

lemma room_cong:
  "length (cb_data a) = length (cb_data b) \<Longrightarrow> cb_is_dynamic a = cb_is_dynamic b \<Longrightarrow> room a k = room b k"
  by (simp add: room_def ChannelBuffer_capacity_def)

lemma room_mono: "room b n \<Longrightarrow> k \<le> n \<Longrightarrow> room b k"
  by (auto simp: room_def split: if_splits)

lemma Reset_SetEnough:
  assumes "room b n"
  obtains b' where "SetEnoughCapacityIfDynamic (int n) (ChannelBuffer_Reset b) = (True, b')"
    "cb_offset b' = 0" "n \<le> length (cb_data b')" "\<And>k. room b k \<Longrightarrow> room b' k"
proof -
  let ?b = "ChannelBuffer_Reset b"
  obtain ok b' where e: "SetEnoughCapacityIfDynamic (int n) ?b = (ok, b')" by fastforce
  have "ok"
    using assms e SetEnough_cases [of "int n" ?b]
    by (auto simp: room_def ChannelBuffer_Reset_def ChannelBuffer_capacity_def SetCapacity_def split: if_splits)
  moreover have "cb_offset b' = 0" "room b k \<Longrightarrow> room b' k" for k
    using e by (auto simp: SetEnoughCapacityIfDynamic_def ChannelBuffer_Reset_def room_def SetCapacity_def
        ChannelBuffer_capacity_def split: if_splits)
  moreover have "n \<le> length (cb_data b')"
    using e calculation(1) SetEnough_True [of "int n" ?b b'] by (simp add: ChannelBuffer_capacity_def)
  ultimately show thesis using that e by simp
qed

section \<open>Transports and serializers\<close>

text \<open>
  What \<open>MessageReceiver\<close> needs of the implementation behind a channel: when enough bytes are on
  their way, a read of \<open>n\<close> bytes completes with exactly the next \<open>n\<close>.
\<close>

locale byte_stream =
  fixes ReadAsync :: "'s \<Rightarrow> nat \<Rightarrow> (status \<times> bytes \<times> 's) option"
    and incoming :: "'s \<Rightarrow> bytes"
  assumes read_exact: "0 < n \<Longrightarrow> n \<le> length (incoming s) \<Longrightarrow>
    \<exists>s'. ReadAsync s n = Some (Status_OK, take n (incoming s), s') \<and> incoming s' = drop n (incoming s)"
begin

lemma receive_part:
  assumes "0 < n" "n \<le> length (incoming s)" "room (receive_buffer ch) n"
    "\<not> ShouldReceiveMessageWithHeader ch"
  obtains ch' s' rest where "ReceiveInternalBuffer ReadAsync (int n) ch s = Some (Status_OK, ch', s')"
    "cb_data (receive_buffer ch') = take n (incoming s) @ rest" "incoming s' = drop n (incoming s)"
    "\<And>k. room (receive_buffer ch) k \<Longrightarrow> room (receive_buffer ch') k"
    "\<not> ShouldReceiveMessageWithHeader ch'"
proof -
  obtain b where b: "SetEnoughCapacityIfDynamic (int n) (ChannelBuffer_Reset (receive_buffer ch)) = (True, b)"
      "cb_offset b = 0" "n \<le> length (cb_data b)" "\<And>k. room (receive_buffer ch) k \<Longrightarrow> room b k"
    using Reset_SetEnough [OF assms(3)] by blast
  obtain s' where s': "ReadAsync s n = Some (Status_OK, take n (incoming s), s')" "incoming s' = drop n (incoming s)"
    using read_exact [OF assms(1,2)] by blast
  let ?b = "b\<lparr>cb_data := take n (incoming s) @ drop n (cb_data b)\<rparr>"
  have "write_at 0 (take n (incoming s)) b = Some ?b"
    using b(3) assms(2) by (simp add: write_at_def)
  then have "ReceiveInternalBuffer ReadAsync (int n) ch s =
      Some (Status_OK, ch\<lparr>receive_buffer := ?b\<rparr>, s')"
    using b(1,2) s'(1) assms(2,4) by (simp add: ReceiveInternalBuffer_def)
  moreover have "room ?b k" if "room (receive_buffer ch) k" for k
    using b(3,4) that assms(2) room_cong [of ?b b k] by simp
  ultimately show thesis using that s'(2) assms(4) by fastforce
qed

lemma receive_with_header:
  assumes inc: "incoming s = header @ content @ rest" and hdr: "hdr_size hdr = int (length header)" "header \<noteq> []"
    "\<And>junk. hdr_parse hdr (header @ junk) = Some (Inr (offset, int (length content)))"
    and room: "room (receive_buffer ch) (max (length header) (length content))" "\<not> ShouldReceiveMessageWithHeader ch"
  obtains ch' s' where "ReceiveMessage ReadAsync Deserialize hdr ch s =
      Some (Deserialized Deserialize content, ch', s')" "incoming s' = rest"
    "\<And>k. room (receive_buffer ch) k \<Longrightarrow> room (receive_buffer ch') k"
    "\<not> ShouldReceiveMessageWithHeader ch'"
proof -
  obtain ch1 s1 r1 where one: "ReceiveInternalBuffer ReadAsync (int (length header)) ch s = Some (Status_OK, ch1, s1)"
      "cb_data (receive_buffer ch1) = header @ r1" "incoming s1 = content @ rest"
      "\<And>k. room (receive_buffer ch) k \<Longrightarrow> room (receive_buffer ch1) k"
      "\<not> ShouldReceiveMessageWithHeader ch1"
    using receive_part [of "length header" s ch] room_mono [OF room(1)] room(2) inc hdr(2) by auto
  show thesis
  proof (cases "content = []")
    case True
    with that [of ch1 s1] one hdr room(2) show thesis
      by (simp add: ReceiveMessage_def OnReceiveHeader_def OnReceiveMessage_def Status_ok_def Status_OK_def)
  next
    case False
    then obtain ch2 s2 r2 where two:
      "ReceiveInternalBuffer ReadAsync (int (length content)) ch1 s1 = Some (Status_OK, ch2, s2)"
      "cb_data (receive_buffer ch2) = content @ r2" "incoming s2 = rest"
      "\<And>k. room (receive_buffer ch1) k \<Longrightarrow> room (receive_buffer ch2) k"
      "\<not> ShouldReceiveMessageWithHeader ch2"
      using receive_part [of "length content" s1 ch1] one room_mono [OF room(1), of "length content"] by auto
    with that [of ch2 s2] one hdr room(2) False show thesis
      by (simp add: ReceiveMessage_def OnReceiveHeader_def OnReceiveMessage_def Status_ok_def Status_OK_def)
  qed
qed

lemma receive_framed:
  assumes "incoming s = AttachHeader content @ rest" "fits content"
    "room (receive_buffer ch) (max header_size (length content))" "\<not> ShouldReceiveMessageWithHeader ch"
  obtains ch' s' where "ReceiveMessage ReadAsync Deserialize default_header ch s =
      Some (Deserialized Deserialize content, ch', s')" "incoming s' = rest"
    "\<And>k. room (receive_buffer ch) k \<Longrightarrow> room (receive_buffer ch') k"
    "\<not> ShouldReceiveMessageWithHeader ch'"
proof (rule receive_with_header [of s "int_to_bytes (to_int32 (length content))" content rest default_header header_size ch Deserialize])
  show "incoming s = int_to_bytes (to_int32 (length content)) @ content @ rest"
    using assms(1,2) by (simp add: AttachHeader_fits)
  show "hdr_parse default_header (int_to_bytes (to_int32 (length content)) @ junk) = Some (Inr (header_size, int (length content)))" for junk
    using ParseHeader_attached [OF assms(2)] by (simp add: default_header_def)
  show "int_to_bytes (to_int32 (length content)) \<noteq> []" by (simp add: int_to_bytes_def)
qed (use that assms(3,4) in \<open>simp_all add: default_header_def header_size_def\<close>)

end

text \<open>
  What a receiver needs of a stream socket while the bytes it asks for are on their way: a read
  either returns at once with some of them, at least one, or answers \<open>ERR_IO_PENDING\<close> and completes
  later with all of them.  A read that had to wait may not complete with fewer bytes than were
  asked for, because \<open>ReadRepeating\<close> does not resume it: see \<open>pending_read_not_resumed\<close>.
\<close>

definition delivers :: "('s \<Rightarrow> int \<Rightarrow> read_rv \<times> 's) \<Rightarrow> ('s \<Rightarrow> bytes) \<Rightarrow> bool" where
  "delivers Read incoming \<longleftrightarrow>
     (\<forall>s n. 0 < n \<longrightarrow> n \<le> int (length (incoming s)) \<longrightarrow>
        (\<exists>bs s'. incoming s = bs @ incoming s' \<and>
           (Read s n = (Data bs, s') \<and> bs \<noteq> [] \<and> int (length bs) \<le> n \<or>
            Read s n = (ReadPending (Inr bs), s') \<and> int (length bs) = n)))"

locale stream_socket =
  fixes Read :: "'s \<Rightarrow> int \<Rightarrow> read_rv \<times> 's"
    and incoming :: "'s \<Rightarrow> bytes"
    and ErrorToString :: "int \<Rightarrow> string"
  assumes contract: "delivers Read incoming"
begin

lemma ReadRepeating_exact:
  "0 < n \<Longrightarrow> n \<le> length (incoming s) \<Longrightarrow>
     \<exists>rv s'. 0 < rv \<and> ReadRepeating Read s (int n) acc = (Some rv, acc @ take n (incoming s), s') \<and>
       incoming s' = drop n (incoming s)"
proof (induction n arbitrary: s acc rule: less_induct)
  case (less n)
  then obtain bs s1 where r: "incoming s = bs @ incoming s1"
      "Read s (int n) = (Data bs, s1) \<and> bs \<noteq> [] \<and> length bs \<le> n \<or>
       Read s (int n) = (ReadPending (Inr bs), s1) \<and> length bs = n"
    using contract [unfolded delivers_def, rule_format, of "int n" s] by auto
  show ?case
  proof (cases "length bs = n")
    case True
    then have "ReadRepeating Read s (int n) acc = (Some (int n), acc @ bs, s1)"
      using r(2) less.prems(1) by (auto simp: ReadRepeating.simps [of Read s])
    moreover have "take n (incoming s) = bs" "drop n (incoming s) = incoming s1"
      using True unfolding r(1) by simp_all
    ultimately show ?thesis using less.prems(1) by auto
  next
    case False
    with r have r: "Read s (int n) = (Data bs, s1)" "bs \<noteq> []" "length bs \<le> n"
        "incoming s = bs @ incoming s1" by auto
    let ?k = "n - length bs"
    have k: "0 < ?k" "?k < n" "?k \<le> length (incoming s1)" "int n - int (length bs) = int ?k"
      using False r less.prems by (auto simp: of_nat_diff)
    from less.IH [OF k(2,1,3), of "acc @ bs"] obtain rv s' where "0 < rv"
        "ReadRepeating Read s1 (int ?k) (acc @ bs) = (Some rv, (acc @ bs) @ take ?k (incoming s1), s')"
        "incoming s' = drop ?k (incoming s1)" by blast
    moreover have "ReadRepeating Read s (int n) acc = ReadRepeating Read s1 (int ?k) (acc @ bs)"
      using ReadRepeating_more [of Read s "int n" bs s1 acc] r(1-3) False unfolding k(4) by simp
    moreover have "take n (incoming s) = bs @ take ?k (incoming s1)" "drop n (incoming s) = drop ?k (incoming s1)"
      using r(3) unfolding r(4) by simp_all
    ultimately show ?thesis by auto
  qed
qed

end

sublocale stream_socket \<subseteq> byte_stream "socket_ReadAsync ErrorToString Read" incoming
proof
  fix n s
  assume "0 < n" "n \<le> length (incoming s)"
  from ReadRepeating_exact [OF this, of "[]"] show "\<exists>s'. socket_ReadAsync ErrorToString Read s n =
      Some (Status_OK, take n (incoming s), s') \<and> incoming s' = drop n (incoming s)"
    by (auto simp: socket_ReadAsync_def CallbackWithStatus_def)
qed

text \<open>
  A socket that hands out its bytes in pieces of at most the given sizes; when the sizes are used up
  a read has to wait and completes with all it asked for.
\<close>

fun pieces_Read :: "nat list \<times> bytes \<Rightarrow> int \<Rightarrow> read_rv \<times> nat list \<times> bytes" where
  "pieces_Read ([], bs) n = (ReadPending (Inr (take (nat n) bs)), [], drop (nat n) bs)"
| "pieces_Read (k # ks, bs) n = (let c = min (nat n) (Suc k) in (Data (take c bs), ks, drop c bs))"

lemma pieces_delivers: "delivers pieces_Read snd"
  unfolding delivers_def
proof (intro allI impI)
  fix s :: "nat list \<times> bytes" and n :: int
  assume "0 < n" "n \<le> int (length (snd s))"
  then show "\<exists>bs s'. snd s = bs @ snd s' \<and>
      (pieces_Read s n = (Data bs, s') \<and> bs \<noteq> [] \<and> int (length bs) \<le> n \<or>
       pieces_Read s n = (ReadPending (Inr bs), s') \<and> int (length bs) = n)"
    by (cases "(s, n)" rule: pieces_Read.cases) (auto simp: Let_def min_def)
qed

interpretation pieces: stream_socket pieces_Read snd "\<lambda>_. []"
  by unfold_locales (rule pieces_delivers)

text \<open>A serializer and its inverse, as \<open>MessageIO<T>\<close> provides them.\<close>

locale message_codec =
  fixes Serialize :: "'m \<Rightarrow> message_io_error + bytes"
    and Deserialize :: "bytes \<Rightarrow> message_io_error + 'm"
  assumes codec: "Serialize m = Inr bs \<Longrightarrow> Deserialize bs = Inr m"
begin

lemma Deserialized_Serialize: "Serialize m = Inr bs \<Longrightarrow> Deserialized Deserialize bs = (Status_OK, Some m)"
  by (simp add: Deserialized_def codec)

end

text \<open>\<open>SerializedMessage\<close> carries its bytes.\<close>

record serialized_message =
  serialized :: bytes

definition SerializedMessage_Serialize :: "serialized_message \<Rightarrow> message_io_error + bytes" where
  "SerializedMessage_Serialize m = Inr (serialized m)"

definition SerializedMessage_Deserialize :: "bytes \<Rightarrow> message_io_error + serialized_message" where
  "SerializedMessage_Deserialize bs = Inr \<lparr>serialized = bs\<rparr>"

interpretation serialized: message_codec SerializedMessage_Serialize SerializedMessage_Deserialize
  by unfold_locales (auto simp: SerializedMessage_Serialize_def SerializedMessage_Deserialize_def)

section \<open>Properties\<close>

lemma SendMessage_frames:
  assumes "Serialize m = Inr content" "fits content" "\<not> HasNativeHeader (channel sd)"
    "attach_header_callback sd = None"
    "cb_offset (send_buffer (channel sd)) = 0" "cb_is_dynamic (send_buffer (channel sd)) \<or>
       int (sizeof_Header + length content) \<le> ChannelBuffer_capacity (send_buffer (channel sd))"
  obtains ch' where "SendMessage Serialize m sd = Some (Sending (AttachHeader content), sd\<lparr>channel := ch'\<rparr>)"
    "cb_offset (send_buffer ch') = 0"
    "ChannelBuffer_capacity (send_buffer (channel sd)) \<le> ChannelBuffer_capacity (send_buffer ch')"
    "\<not> HasNativeHeader ch'"
    "cb_is_dynamic (send_buffer ch') = cb_is_dynamic (send_buffer (channel sd))"
proof -
  let ?ch = "channel sd" and ?n = "sizeof_Header + length content"
  have n: "sint (to_int32 ?n) = int ?n" using assms(2) by (intro sint_to_int32) (simp add: fits_def)
  have len: "length (AttachHeader content) = ?n"
    using assms(2) by (simp add: AttachHeader_fits sizeof_Header_def)
  obtain ok b where e: "SetEnoughCapacityIfDynamic (int ?n) (send_buffer ?ch) = (ok, b)" by fastforce
  then have ok: "ok" using SetEnough_cases [of "int ?n" "send_buffer ?ch"] assms(6) by auto
  have b: "int ?n \<le> ChannelBuffer_capacity b" "cb_is_dynamic b = cb_is_dynamic (send_buffer ?ch)"
    using e ok SetEnough_True [of "int ?n" "send_buffer ?ch" b] by simp_all
  have b2: "cb_offset b = 0" "ChannelBuffer_capacity (send_buffer ?ch) \<le> ChannelBuffer_capacity b"
    using e assms(5)
    by (auto simp: SetEnoughCapacityIfDynamic_def SetCapacity_def ChannelBuffer_capacity_def split: if_splits)
  let ?b = "b\<lparr>cb_data := AttachHeader content @ drop ?n (cb_data b)\<rparr>"
  have w: "write_at 0 (AttachHeader content) b = Some ?b"
    using b(1) len by (simp add: write_at_def ChannelBuffer_capacity_def)
  have "SendMessage Serialize m sd = Some (Sending (AttachHeader content), sd\<lparr>channel := ?ch\<lparr>send_buffer := ?b\<rparr>\<rparr>)"
    using assms(1,3,4) e ok n w b2(1) len
    by (simp add: SendMessage_def SendInternalBuffer_def)
  moreover have "ChannelBuffer_capacity ?b = ChannelBuffer_capacity b"
    using b(1) len by (simp add: ChannelBuffer_capacity_def)
  ultimately show thesis using that b(2) b2 assms(3) by simp
qed

text \<open>The bytes on the wire for a sequence of messages, and a sequence of receives.\<close>

primrec send_all ::
    "('m \<Rightarrow> message_io_error + bytes) \<Rightarrow> 'm list \<Rightarrow> message_sender \<Rightarrow> (bytes \<times> message_sender) option" where
  "send_all Serialize [] sd = Some ([], sd)"
| "send_all Serialize (m # ms) sd =
     (case SendMessage Serialize m sd of
        Some (Sending bs, sd') \<Rightarrow> map_option (\<lambda>(w, sd''). (bs @ w, sd'')) (send_all Serialize ms sd')
      | _ \<Rightarrow> None)"

primrec receive_all ::
    "('s \<Rightarrow> nat \<Rightarrow> (status \<times> bytes \<times> 's) option) \<Rightarrow> (bytes \<Rightarrow> message_io_error + 'm) \<Rightarrow> nat \<Rightarrow> channel \<Rightarrow> 's \<Rightarrow>
     ('m list \<times> channel \<times> 's) option" where
  "receive_all ReadAsync Deserialize 0 ch s = Some ([], ch, s)"
| "receive_all ReadAsync Deserialize (Suc n) ch s =
     (case ReceiveMessage ReadAsync Deserialize default_header ch s of
        Some ((st, Some m), ch', s') \<Rightarrow>
          map_option (\<lambda>(ms, r). (m # ms, r)) (receive_all ReadAsync Deserialize n ch' s')
      | _ \<Rightarrow> None)"

declare send_all.simps [simp del] receive_all.simps [simp del]

definition sendable :: "('m \<Rightarrow> message_io_error + bytes) \<Rightarrow> message_sender \<Rightarrow> channel \<Rightarrow> 'm \<Rightarrow> bool" where
  "sendable Serialize sd receiver m \<longleftrightarrow>
     (\<exists>content. Serialize m = Inr content \<and> fits content \<and>
        (cb_is_dynamic (send_buffer (channel sd)) \<or>
           int (sizeof_Header + length content) \<le> ChannelBuffer_capacity (send_buffer (channel sd))) \<and>
        room (receive_buffer receiver) (max header_size (length content)))"

definition stream_ends :: "message_sender \<Rightarrow> channel \<Rightarrow> bool" where
  "stream_ends sd receiver \<longleftrightarrow>
     \<not> HasNativeHeader (channel sd) \<and> attach_header_callback sd = None \<and>
     cb_offset (send_buffer (channel sd)) = 0 \<and> \<not> ShouldReceiveMessageWithHeader receiver"

definition frame :: "('m \<Rightarrow> message_io_error + bytes) \<Rightarrow> 'm \<Rightarrow> bytes" where
  "frame Serialize m = AttachHeader (projr (Serialize m))"

lemma send_all_frames:
  assumes "stream_ends sd receiver" "\<forall>m \<in> set ms. sendable Serialize sd receiver m"
  shows "\<exists>sd'. send_all Serialize ms sd = Some (concat (map (frame Serialize) ms), sd')"
  using assms
proof (induction ms arbitrary: sd)
  case (Cons m ms)
  obtain content where c: "Serialize m = Inr content" "fits content"
      "cb_is_dynamic (send_buffer (channel sd)) \<or>
         int (sizeof_Header + length content) \<le> ChannelBuffer_capacity (send_buffer (channel sd))"
    using Cons.prems(2) by (auto simp: sendable_def)
  obtain ch' where ch': "SendMessage Serialize m sd = Some (Sending (AttachHeader content), sd\<lparr>channel := ch'\<rparr>)"
      "cb_offset (send_buffer ch') = 0"
      "ChannelBuffer_capacity (send_buffer (channel sd)) \<le> ChannelBuffer_capacity (send_buffer ch')"
      "\<not> HasNativeHeader ch'" "cb_is_dynamic (send_buffer ch') = cb_is_dynamic (send_buffer (channel sd))"
    using SendMessage_frames [of Serialize m content sd] c Cons.prems(1) by (auto simp: stream_ends_def)
  have "stream_ends (sd\<lparr>channel := ch'\<rparr>) receiver"
    using Cons.prems(1) ch'(2,4) by (simp add: stream_ends_def)
  moreover have "\<forall>m \<in> set ms. sendable Serialize (sd\<lparr>channel := ch'\<rparr>) receiver m"
    using Cons.prems(2) ch'(3,5) unfolding sendable_def by (auto intro: order_trans)
  ultimately obtain sd' where "send_all Serialize ms (sd\<lparr>channel := ch'\<rparr>) =
      Some (concat (map (frame Serialize) ms), sd')"
    using Cons.IH by blast
  then show ?case using ch'(1) c(1) by (simp add: send_all.simps frame_def [of Serialize m])
qed (simp add: send_all.simps)

text \<open>A stream socket and a serializer together carry messages.\<close>

locale message_link = stream_socket Read incoming ErrorToString + message_codec Serialize Deserialize
  for Read :: "'s \<Rightarrow> int \<Rightarrow> read_rv \<times> 's" and incoming :: "'s \<Rightarrow> bytes" and ErrorToString :: "int \<Rightarrow> string"
    and Serialize :: "'m \<Rightarrow> message_io_error + bytes" and Deserialize :: "bytes \<Rightarrow> message_io_error + 'm"
begin

lemma receive_all_frames:
  assumes "\<not> ShouldReceiveMessageWithHeader ch"
    and "\<forall>m \<in> set ms. \<exists>content. Serialize m = Inr content \<and> fits content \<and>
      room (receive_buffer ch) (max header_size (length content))"
    and "incoming s = concat (map (frame Serialize) ms) @ rest"
  shows "\<exists>ch' s'. receive_all (socket_ReadAsync ErrorToString Read) Deserialize (length ms) ch s =
    Some (ms, ch', s') \<and> incoming s' = rest"
  using assms
proof (induction ms arbitrary: ch s)
  case (Cons m ms)
  obtain content where c: "Serialize m = Inr content" "fits content"
      "room (receive_buffer ch) (max header_size (length content))"
    using Cons.prems(2) by auto
  have "incoming s = AttachHeader content @ (concat (map (frame Serialize) ms) @ rest)"
    using Cons.prems(3) c(1) by (simp add: frame_def [of Serialize m])
  from receive_framed [OF this c(2,3) Cons.prems(1), of Deserialize]
  obtain ch1 s1 where one: "ReceiveMessage (socket_ReadAsync ErrorToString Read) Deserialize default_header ch s =
      Some (Deserialized Deserialize content, ch1, s1)"
      "incoming s1 = concat (map (frame Serialize) ms) @ rest"
      "\<And>k. room (receive_buffer ch) k \<Longrightarrow> room (receive_buffer ch1) k"
      "\<not> ShouldReceiveMessageWithHeader ch1" by metis
  have "Deserialized Deserialize content = (Status_OK, Some m)" by (rule Deserialized_Serialize [OF c(1)])
  moreover have "\<forall>m \<in> set ms. \<exists>content. Serialize m = Inr content \<and> fits content \<and>
      room (receive_buffer ch1) (max header_size (length content))"
    using Cons.prems(2) one(3) by (metis list.set_intros(2))
  from Cons.IH [OF one(4) this one(2)] obtain ch2 s2 where
    "receive_all (socket_ReadAsync ErrorToString Read) Deserialize (length ms) ch1 s1 = Some (ms, ch2, s2)"
    "incoming s2 = rest" by blast
  ultimately show ?case using one(1) by (simp add: receive_all.simps)
qed (simp add: receive_all.simps)

end

interpretation link: message_link pieces_Read snd "\<lambda>_. []" SerializedMessage_Serialize SerializedMessage_Deserialize
  by unfold_locales

text \<open>
  C6.  Messages arrive as they were sent: over a stream socket that may cut the bytes into
  pieces of any size or make a read wait, the receiver's callbacks deliver exactly the messages
  sent, in order, and leave the bytes that follow them unread.  The condition on the socket is that
  a read that had to wait completes with all the bytes it asked for (the code does not resume one
  that completes with fewer: \<open>pending_read_not_resumed\<close>).  The messages must serialize and fit the
  buffers and the 32 bit size of the header, and parsing must undo serializing.
\<close>

theorem messages_survive_the_stream:
  assumes "delivers Read incoming" and "\<And>m bs. Serialize m = Inr bs \<Longrightarrow> Deserialize bs = Inr m"
    and "stream_ends sd receiver" and "\<forall>m \<in> set ms. sendable Serialize sd receiver m"
  shows "\<exists>wire sd'. send_all Serialize ms sd = Some (wire, sd') \<and>
    (\<forall>s rest. incoming s = wire @ rest \<longrightarrow>
      (\<exists>receiver' s'. receive_all (socket_ReadAsync ErrorToString Read) Deserialize (length ms) receiver s =
         Some (ms, receiver', s') \<and> incoming s' = rest))"
proof -
  obtain sd' where "send_all Serialize ms sd = Some (concat (map (frame Serialize) ms), sd')"
    using send_all_frames [OF assms(3,4)] by blast
  moreover have "\<forall>m \<in> set ms. \<exists>content. Serialize m = Inr content \<and> fits content \<and>
      room (receive_buffer receiver) (max header_size (length content))"
    using assms(4) unfolding sendable_def by blast
  moreover have "\<not> ShouldReceiveMessageWithHeader receiver" using assms(3) by (simp add: stream_ends_def)
  moreover have link: "message_link Read incoming Serialize Deserialize"
    by (intro message_link.intro stream_socket.intro message_codec.intro assms(1,2))
  ultimately show ?thesis
    using message_link.receive_all_frames [OF link, of receiver ms] by blast
qed

definition demo_channel :: channel where
  "demo_channel = \<lparr>send_buffer = SetDynamicBuffer True new_ChannelBuffer,
     receive_buffer = SetDynamicBuffer True new_ChannelBuffer,
     HasNativeHeader = False, ShouldReceiveMessageWithHeader = False\<rparr>"

definition demo_sender :: message_sender where
  "demo_sender = \<lparr>channel = demo_channel, attach_header_callback = None\<rparr>"

lemmas demo_channel_defs = demo_sender_def demo_channel_def SetDynamicBuffer_def new_ChannelBuffer_def

theorem messages_survive_the_stream_witness:
  "\<exists>receiver' s'. receive_all (socket_ReadAsync (\<lambda>_. []) pieces_Read) SerializedMessage_Deserialize
       (length [\<lparr>serialized = [65, 66]\<rparr>, \<lparr>serialized = [67]\<rparr>])
       demo_channel ([0, 2, 1], [2, 0, 0, 0, 65, 66, 1, 0, 0, 0, 67, 99]) =
     Some ([\<lparr>serialized = [65, 66]\<rparr>, \<lparr>serialized = [67]\<rparr>], receiver', s') \<and> snd s' = [99]"
proof -
  let ?ms = "[\<lparr>serialized = [65, 66]\<rparr>, \<lparr>serialized = [67]\<rparr>]"
  have "stream_ends demo_sender demo_channel"
    by (simp add: stream_ends_def demo_channel_defs)
  moreover have "\<forall>m \<in> set ?ms. sendable SerializedMessage_Serialize demo_sender demo_channel m"
    by (simp add: sendable_def SerializedMessage_Serialize_def fits_def sizeof_Header_def demo_channel_defs
        room_def)
  ultimately obtain wire sd' where w: "send_all SerializedMessage_Serialize ?ms demo_sender = Some (wire, sd')"
    and r: "\<forall>s rest. snd s = wire @ rest \<longrightarrow>
      (\<exists>receiver' s'. receive_all (socket_ReadAsync (\<lambda>_. []) pieces_Read) SerializedMessage_Deserialize
         (length ?ms) demo_channel s = Some (?ms, receiver', s') \<and> snd s' = rest)"
    using messages_survive_the_stream [of pieces_Read snd SerializedMessage_Serialize SerializedMessage_Deserialize,
        OF pieces_delivers serialized.codec, where ErrorToString = "\<lambda>_. []"] by blast
  have "map_option fst (send_all SerializedMessage_Serialize ?ms demo_sender) =
      Some [2, 0, 0, 0, 65, 66, 1, 0, 0, 0, 67]" by code_simp
  with w have "wire = [2, 0, 0, 0, 65, 66, 1, 0, 0, 0, 67]" by simp
  with r [rule_format, of "([0, 2, 1], [2, 0, 0, 0, 65, 66, 1, 0, 0, 0, 67, 99])" "[99]"]
  show ?thesis by simp
qed

text \<open>The contract of a stream socket's \<open>Write\<close>: it takes at least one of the bytes offered.\<close>

definition accepts :: "('s \<Rightarrow> bytes \<Rightarrow> write_rv \<times> 's) \<Rightarrow> ('s \<Rightarrow> bytes) \<Rightarrow> bool" where
  "accepts Write outgoing \<longleftrightarrow>
     (\<forall>s bs. bs \<noteq> [] \<longrightarrow> (\<exists>n s'. Write s bs = (Wrote n, s') \<and> 0 < n \<and> n \<le> length bs \<and>
        outgoing s' = outgoing s @ take n bs))"

lemma WriteRepeating_writes:
  "accepts Write outgoing \<Longrightarrow> bs \<noteq> [] \<Longrightarrow>
     \<exists>rv s'. 0 < rv \<and> WriteRepeating Write s bs = (Some rv, [], s') \<and> outgoing s' = outgoing s @ bs"
proof (induction "length bs" arbitrary: bs s rule: less_induct)
  case less
  from less.prems obtain n s1 where w: "Write s bs = (Wrote n, s1)" "0 < n" "n \<le> length bs"
      "outgoing s1 = outgoing s @ take n bs"
    unfolding accepts_def by blast
  show ?case
  proof (cases "n = length bs")
    case True
    with w less.prems(2) show ?thesis by (subst WriteRepeating.simps) auto
  next
    case False
    then have d: "drop n bs \<noteq> []" "length (drop n bs) < length bs" using w less.prems(2) by auto
    have "WriteRepeating Write s bs = WriteRepeating Write s1 (drop n bs)"
      using w less.prems(2) d(1) by (subst WriteRepeating.simps) auto
    with less.hyps [OF d(2) less.prems(1) d(1), of s1] w(4) show ?thesis by auto
  qed
qed

text \<open>
  A socket that takes only part of what it is offered is offered the rest until all is
  written: \<open>WriteAsync\<close> completes with OK and the wire has gained exactly the bytes.
\<close>

theorem WriteAsync_writes_all:
  assumes "accepts Write outgoing" and "bs \<noteq> []"
  shows "\<exists>s'. socket_WriteAsync ErrorToString Write s bs = Some (Status_OK, s') \<and>
    outgoing s' = outgoing s @ bs"
  using WriteRepeating_writes [OF assms, of s]
  by (auto simp: socket_WriteAsync_def CallbackWithStatus_def)

definition two_bytes_Write :: "bytes \<Rightarrow> bytes \<Rightarrow> write_rv \<times> bytes" where
  "two_bytes_Write s bs = (Wrote (min 2 (length bs)), s @ take 2 bs)"

theorem WriteAsync_writes_all_witness:
  "\<exists>s'. socket_WriteAsync (\<lambda>_. []) two_bytes_Write [9] [1, 2, 3, 4, 5] = Some (Status_OK, s') \<and>
     s' = [9, 1, 2, 3, 4, 5]"
  using WriteAsync_writes_all [of two_bytes_Write "\<lambda>s. s" "[1, 2, 3, 4, 5]" "\<lambda>_. []" "[9]"]
  by (auto simp: accepts_def two_bytes_Write_def min_def)

text \<open>
  A read that has to wait is not resumed: when the first read answers \<open>ERR_IO_PENDING\<close> and
  completes with fewer bytes than were asked for, or with none because the peer closed the
  connection, the caller is told OK, and the buffer behind these bytes is what it was before.
\<close>

theorem pending_read_not_resumed:
  assumes "0 < n" and "Read s n = (ReadPending (Inr bs), s')" and "length bs \<le> length (cb_data b)"
    and "receive_buffer ch = b" and "cb_offset b = 0" and "n \<le> ChannelBuffer_capacity b"
    and "\<not> ShouldReceiveMessageWithHeader ch"
  shows "\<exists>ch'. ReceiveInternalBuffer (socket_ReadAsync ErrorToString Read) n ch s = Some (Status_OK, ch', s') \<and>
    cb_data (receive_buffer ch') = bs @ drop (length bs) (cb_data b)"
proof -
  have cap: "ChannelBuffer_capacity b \<noteq> 0" using assms(1,6) by linarith
  then have "ChannelBuffer_Reset b = b" using assms(5) by (simp add: ChannelBuffer_Reset_def)
  moreover have "SetEnoughCapacityIfDynamic n b = (True, b)"
    using assms(6) by (simp add: SetEnoughCapacityIfDynamic_def)
  moreover have "ReadRepeating Read s n [] = (Some (int (length bs)), bs, s')"
    using assms(1,2) by (subst ReadRepeating.simps) simp
  ultimately show ?thesis
    using assms by (simp add: ReceiveInternalBuffer_def socket_ReadAsync_def CallbackWithStatus_def write_at_def)
qed

definition stale_channel :: channel where
  "stale_channel = demo_channel\<lparr>receive_buffer := \<lparr>cb_data = [1, 2, 3, 4], cb_offset = 0, cb_is_dynamic = True\<rparr>\<rparr>"

theorem pending_read_not_resumed_witness:
  "\<exists>ch'. ReceiveInternalBuffer (socket_ReadAsync (\<lambda>_. []) (\<lambda>s n. (ReadPending (Inr [7]), s))) 4 stale_channel () =
     Some (Status_OK, ch', ()) \<and> cb_data (receive_buffer ch') = [7, 2, 3, 4]"
  using pending_read_not_resumed [of 4 "\<lambda>s n. (ReadPending (Inr [7]), s)" "()" "[7]" "()"
      "receive_buffer stale_channel" stale_channel "\<lambda>_. []"]
  by (simp add: stale_channel_def demo_channel_defs ChannelBuffer_capacity_def)

text \<open>
  What is not sent: a message that does not serialize, or that with its header does not
  fit a static send buffer, is refused with the matching error, and nothing is handed to the
  socket.  An unset static buffer refuses every message.
\<close>

theorem SendMessage_refuses:
  assumes "attach_header_callback sd = None" and "\<not> HasNativeHeader (channel sd)"
  shows "(\<forall>err. Serialize m = Inl err \<longrightarrow> SendMessage Serialize m sd = Some (SendError (io_error err), sd)) \<and>
    (\<forall>content. Serialize m = Inr content \<and> fits content \<and> \<not> cb_is_dynamic (send_buffer (channel sd)) \<and>
       ChannelBuffer_capacity (send_buffer (channel sd)) < int (sizeof_Header + length content) \<longrightarrow>
       SendMessage Serialize m sd = Some (SendError (io_error ERR_NOT_ENOUGH_BUFFER), sd)) \<and>
    (\<forall>content. Serialize m = Inr content \<and> fits content \<and> send_buffer (channel sd) = new_ChannelBuffer \<longrightarrow>
       SendMessage Serialize m sd = Some (SendError (io_error ERR_NOT_ENOUGH_BUFFER), sd))"
proof -
  have "SendMessage Serialize m sd = Some (SendError (io_error ERR_NOT_ENOUGH_BUFFER), sd)"
    if "Serialize m = Inr content" "fits content" "\<not> cb_is_dynamic (send_buffer (channel sd))"
      "ChannelBuffer_capacity (send_buffer (channel sd)) < int (sizeof_Header + length content)" for content
  proof -
    have n: "sint (to_int32 (sizeof_Header + length content)) = int (sizeof_Header + length content)"
      using that(2) by (intro sint_to_int32) (simp add: fits_def)
    show ?thesis using assms that by (simp add: SendMessage_def n SetEnoughCapacityIfDynamic_def)
  qed
  then show ?thesis
    by (auto simp: SendMessage_def new_ChannelBuffer_def ChannelBuffer_capacity_def sizeof_Header_def)
qed

theorem SendMessage_refuses_witness:
  "SendMessage SerializedMessage_Serialize \<lparr>serialized = [1, 2, 3]\<rparr>
     (demo_sender\<lparr>channel := demo_channel\<lparr>send_buffer := new_ChannelBuffer\<rparr>\<rparr>) =
   Some (SendError (io_error ERR_NOT_ENOUGH_BUFFER),
     demo_sender\<lparr>channel := demo_channel\<lparr>send_buffer := new_ChannelBuffer\<rparr>\<rparr>)"
  using SendMessage_refuses [of "demo_sender\<lparr>channel := demo_channel\<lparr>send_buffer := new_ChannelBuffer\<rparr>\<rparr>"
      SerializedMessage_Serialize "\<lparr>serialized = [1, 2, 3]\<rparr>"]
  by (simp add: demo_sender_def demo_channel_def SerializedMessage_Serialize_def fits_def sizeof_Header_def)

text \<open>
  In a datagram the size field of the header is trusted: when it says more than the
  receive buffer holds behind the header, the parser is given bytes outside the buffer; when it
  fits, the message is exactly the bytes behind the header.
\<close>

theorem datagram_size_trusted:
  assumes "header_size \<le> length (cb_data (receive_buffer ch))"
  shows "OnReceiveMessageWithHeader Deserialize default_header Status_OK ch =
    (let d = cb_data (receive_buffer ch); n = sint (int_from_bytes d) in
     if 0 \<le> n \<and> n \<le> int (length d) - int header_size
     then Some (Deserialized Deserialize (take (nat n) (drop header_size d))) else None)"
proof -
  have "(0 \<le> n \<and> header_size + nat n \<le> length d) = (0 \<le> n \<and> n \<le> int (length d) - int header_size)"
    for n :: int and d :: bytes by auto
  then show ?thesis
    using assms by (simp add: OnReceiveMessageWithHeader_def default_header_def ParseHeader_def Let_def
        Status_ok_def Status_OK_def)
qed

theorem datagram_size_trusted_witness:
  "OnReceiveMessageWithHeader SerializedMessage_Deserialize default_header Status_OK
     (demo_channel\<lparr>receive_buffer := \<lparr>cb_data = [2, 0, 0, 0, 65], cb_offset = 0, cb_is_dynamic = True\<rparr>\<rparr>) = None"
proof -
  have "sint (int_from_bytes [2, 0, 0, 0, 65]) = 2" by code_simp
  then show ?thesis
    using datagram_size_trusted [of
        "demo_channel\<lparr>receive_buffer := \<lparr>cb_data = [2, 0, 0, 0, 65], cb_offset = 0, cb_is_dynamic = True\<rparr>\<rparr>"
        SerializedMessage_Deserialize]
    by (simp add: header_size_def)
qed

end
