(* ===== verification/Felicia_Communication.thy ===== *)
theory Felicia_Communication
  imports Felicia_ChannelDef Felicia_MessageIO "HOL-Library.Sublist"
begin

text \<open>
  What publishers, subscribers and services share: the registration state of
  \<open>core/communication/register_state.h\<close>, the state of a subscriber's message loop, the settings of
  a communication, and the choice of a channel class by \<open>core/channel/channel_factory.cc\<close>.
\<close>

section \<open>States\<close>

datatype register_state = Registering | Registered | Unregistering | Unregistered

fun RegisterState_ToString :: "register_state \<Rightarrow> string" where
  "RegisterState_ToString Registering = ''Registering''"
| "RegisterState_ToString Registered = ''Registered''"
| "RegisterState_ToString Unregistering = ''Unregistering''"
| "RegisterState_ToString Unregistered = ''Unregistered''"

definition InvalidStateError :: "register_state \<Rightarrow> status" where
  "InvalidStateError s = Aborted (''Invalid state('' @ RegisterState_ToString s @ '')'')"

datatype subscriber_state = Started | Stopping | Stopped

lemma InvalidStateError_not_ok [simp]: "\<not> Status_ok (InvalidStateError s)"
  by (simp add: InvalidStateError_def)

lemma InvalidStateError_inj: "InvalidStateError s = InvalidStateError t \<Longrightarrow> s = t"
  by (cases s; cases t) (auto simp: InvalidStateError_def)

section \<open>StatusOr\<close>

text \<open>
  A \<open>StatusOr<T>\<close> is a value or a status that is not OK: the constructor replaces an OK status.
\<close>

type_synonym 'a status_or = "status + 'a"

definition EnsureNotOk :: "status \<Rightarrow> status" where
  "EnsureNotOk s =
     (if Status_ok s
      then make_error INTERNAL ''An OK status is not a valid constructor argument to StatusOr<T>'' else s)"

lemma EnsureNotOk_not_ok [simp]: "\<not> Status_ok (EnsureNotOk s)"
  by (simp add: EnsureNotOk_def)

lemma subseq_appendD: "subseq (xs @ ys) zs \<Longrightarrow> subseq xs zs"
  using subseq_order.order_trans [OF list_emb_prefix [OF subseq_order.order_refl]] .

section \<open>Settings\<close>

record settings =
  period :: int
  buffer_size :: int
  is_dynamic_buffer :: bool
  queue_size :: u8

definition default_settings :: settings where
  "default_settings = \<lparr>period = 1000, buffer_size = 1000000, is_dynamic_buffer = False, queue_size = 100\<rparr>"

section \<open>Channel classes\<close>

text \<open>\<open>static_cast<ChannelDef::Type>(n)\<close>.\<close>

definition channel_type_of :: "nat \<Rightarrow> channel_type" where
  "channel_type_of n =
     (if n = 0 then CHANNEL_TYPE_NONE else if n = 1 then CHANNEL_TYPE_SHM
      else if n = 2 then CHANNEL_TYPE_UDS else if n = 4 then CHANNEL_TYPE_UDP
      else if n = 8 then CHANNEL_TYPE_TCP else if n = 16 then CHANNEL_TYPE_WS
      else CHANNEL_TYPE_UNRECOGNIZED (int n))"

text \<open>\<open>ChannelFactory::NewChannel\<close> on a POSIX system: the class of the new channel, if there is one.\<close>

definition NewChannel :: "channel_type \<Rightarrow> channel_type option" where
  "NewChannel ty =
     (if ty = CHANNEL_TYPE_SHM \<or> ty = CHANNEL_TYPE_UDP \<or> ty = CHANNEL_TYPE_UDS \<or> ty = CHANNEL_TYPE_TCP \<or>
         ty = CHANNEL_TYPE_WS then Some ty else None)"

definition type_HasNativeHeader :: "channel_type \<Rightarrow> bool" where
  "type_HasNativeHeader ty \<longleftrightarrow> ty = CHANNEL_TYPE_WS"

definition type_ShouldReceiveMessageWithHeader :: "channel_type \<Rightarrow> bool" where
  "type_ShouldReceiveMessageWithHeader ty \<longleftrightarrow> ty = CHANNEL_TYPE_UDP \<or> ty = CHANNEL_TYPE_SHM"

lemma channel_type_value_of: "channel_type_value (channel_type_of n) = int n"
  by (simp add: channel_type_of_def)

lemma NewChannel_Some [dest]: "NewChannel ty = Some ty' \<Longrightarrow> ty' = ty"
  by (simp add: NewChannel_def split: if_splits)

end
