(* ===== verification/Felicia_HeartBeat.thy ===== *)
theory Felicia_HeartBeat
  imports Felicia_Communication
begin

text \<open>
  \<open>core/master/heart_beat_listener.cc\<close> and \<open>heart_beat_signaller.cc\<close>: how the master finds out
  that a client is gone.  Time is counted in milliseconds; a delayed task is due at a time, and due
  tasks run in the order of their times, earlier posted ones first.  The tasks hold a bare pointer to
  the listener: running one after the listener has deleted itself is undefined, \<open>None\<close>.
\<close>

section \<open>The period\<close>

definition kDefeaultHeartBeatDuration :: int where
  "kDefeaultHeartBeatDuration = 1000"

text \<open>
  The period in milliseconds and the cached one (0 when not set); the argument is the environment
  variable as \<open>base::StringToInt64\<close> reads it: absent, or whether it is a number and the value stored.
\<close>

definition GetHeartBeatDuration :: "(bool \<times> int) option \<Rightarrow> client_info \<Rightarrow> int \<Rightarrow> int \<times> int" where
  "GetHeartBeatDuration env info cached =
     (if heart_beat_duration info \<noteq> 0 then (uint (heart_beat_duration info), cached)
      else if cached \<noteq> 0 then (cached, cached)
      else let duration = (case env of
                 None \<Rightarrow> kDefeaultHeartBeatDuration
               | Some (is_number, v) \<Rightarrow> if is_number \<and> v < 0 then kDefeaultHeartBeatDuration else v) in
        (duration, duration))"

section \<open>The listener\<close>

datatype hb_task = TimeoutTask nat | TryReceiveTask | KillTask

datatype hb_phase = HbConnecting | HbWaiting | HbReceiving

text \<open>
  A timeout is known by a number, and armed if it is the last one made and was not cancelled.  The
  last fields record, for the statements, when the client was last heard of, how long it had been
  silent when the listener gave up, and how often the master was told.
\<close>

record hb_listener =
  hb_period :: nat
  hb_deleted :: bool
  hb_phase :: hb_phase
  hb_stopped :: bool
  hb_armed :: "nat option"
  hb_made :: nat
  hb_tasks :: "(nat \<times> hb_task) list"
  hb_now :: nat
  hb_heard :: nat
  hb_silence :: "nat option"
  hb_told :: nat

definition kMultiplier :: nat where
  "kMultiplier = 5"

definition new_HeartBeatListener :: "nat \<Rightarrow> hb_listener" where
  "new_HeartBeatListener d = \<lparr>hb_period = d, hb_deleted = False, hb_phase = HbConnecting, hb_stopped = False,
     hb_armed = None, hb_made = 0, hb_tasks = [], hb_now = 0, hb_heard = 0, hb_silence = None, hb_told = 0\<rparr>"

definition post_delayed :: "hb_task \<Rightarrow> nat \<Rightarrow> hb_listener \<Rightarrow> hb_listener" where
  "post_delayed t delay l = l\<lparr>hb_tasks := hb_tasks l @ [(hb_now l + delay, t)]\<rparr>"

text \<open>\<open>delete this\<close> runs the destructor, which tells the master.\<close>

definition KillSelf :: "hb_listener \<Rightarrow> hb_listener option" where
  "KillSelf l = (if hb_deleted l then None
     else Some (l\<lparr>hb_armed := None, hb_deleted := True, hb_told := hb_told l + 1\<rparr>))"

definition TryReceiveHeartBeat :: "hb_listener \<Rightarrow> hb_listener option" where
  "TryReceiveHeartBeat l =
     (if hb_deleted l then None
      else if hb_stopped l then Some l
      else let l1 = (if hb_armed l = None
                     then post_delayed (TimeoutTask (hb_made l)) (kMultiplier * hb_period l)
                            (l\<lparr>hb_armed := Some (hb_made l), hb_made := hb_made l + 1\<rparr>)
                     else l) in
        Some (l1\<lparr>hb_phase := HbReceiving\<rparr>))"

definition Listener_DoCheckHeartBeat :: "status \<Rightarrow> hb_listener \<Rightarrow> hb_listener option" where
  "Listener_DoCheckHeartBeat s l =
     (if \<not> Status_ok s then KillSelf l else TryReceiveHeartBeat (l\<lparr>hb_heard := hb_now l\<rparr>))"

definition OnAlive :: "status \<Rightarrow> bool \<Rightarrow> hb_listener \<Rightarrow> hb_listener option" where
  "OnAlive s connected l =
     (if Status_ok s
      then Some (post_delayed TryReceiveTask (hb_period l)
             (l\<lparr>hb_armed := None, hb_heard := hb_now l, hb_phase := HbWaiting\<rparr>))
      else if \<not> connected then KillSelf l
      else Some (post_delayed TryReceiveTask (hb_period l) (l\<lparr>hb_phase := HbWaiting\<rparr>)))"

definition StopCheckHeartBeat :: "hb_listener \<Rightarrow> hb_listener" where
  "StopCheckHeartBeat l =
     post_delayed KillTask (hb_period l)
       (l\<lparr>hb_stopped := True, hb_armed := None, hb_silence := Some (hb_now l - hb_heard l)\<rparr>)"

fun run_hb_task :: "hb_task \<Rightarrow> hb_listener \<Rightarrow> hb_listener option" where
  "run_hb_task (TimeoutTask k) l = (if hb_armed l = Some k then Some (StopCheckHeartBeat l) else Some l)"
| "run_hb_task TryReceiveTask l = TryReceiveHeartBeat l"
| "run_hb_task KillTask l = KillSelf l"

section \<open>Events\<close>

text \<open>The next task: one with the least time, the first of these; and the list without it.\<close>

fun next_task :: "(nat \<times> hb_task) list \<Rightarrow> ((nat \<times> hb_task) \<times> (nat \<times> hb_task) list) option" where
  "next_task [] = None"
| "next_task (x # xs) =
     (case next_task xs of
        None \<Rightarrow> Some (x, [])
      | Some (y, ys) \<Rightarrow> if fst x \<le> fst y then Some (x, xs) else Some (y, x # ys))"

datatype hb_event = HbConnected status | HbReceived status bool | HbTick | HbRun

text \<open>
  Time goes on by a millisecond when no task is due; a task runs when it is due.
\<close>

fun hb_exec :: "hb_event \<Rightarrow> hb_listener \<Rightarrow> hb_listener option" where
  "hb_exec (HbConnected s) l =
     (if \<not> hb_deleted l \<and> hb_phase l = HbConnecting then Listener_DoCheckHeartBeat s l else Some l)"
| "hb_exec (HbReceived s connected) l =
     (if \<not> hb_deleted l \<and> hb_phase l = HbReceiving then OnAlive s connected l else Some l)"
| "hb_exec HbTick l =
     (case next_task (hb_tasks l) of
        None \<Rightarrow> Some (l\<lparr>hb_now := hb_now l + 1\<rparr>)
      | Some (x, xs) \<Rightarrow> if fst x \<le> hb_now l then Some l else Some (l\<lparr>hb_now := hb_now l + 1\<rparr>))"
| "hb_exec HbRun l =
     (case next_task (hb_tasks l) of
        None \<Rightarrow> Some l
      | Some (x, xs) \<Rightarrow> if fst x \<le> hb_now l then run_hb_task (snd x) (l\<lparr>hb_tasks := xs\<rparr>) else Some l)"

primrec hb_run :: "hb_event list \<Rightarrow> hb_listener \<Rightarrow> hb_listener option" where
  "hb_run [] l = Some l"
| "hb_run (ev # evs) l = Option.bind (hb_exec ev l) (hb_run evs)"

inductive hb_step :: "hb_listener \<Rightarrow> hb_listener \<Rightarrow> bool" where
  "hb_exec ev l = Some l' \<Longrightarrow> hb_step l l'"

inductive_cases hb_stepE: "hb_step l l'"

section \<open>The signaller\<close>

record hb_signaller =
  hb_trial :: u8
  hb_signal_posted :: bool

definition kMaximumSignalTrial :: u8 where
  "kMaximumSignalTrial = 5"

definition Signal :: "hb_signaller \<Rightarrow> hb_signaller" where
  "Signal h = h\<lparr>hb_trial := hb_trial h + 1, hb_signal_posted := False\<rparr>"

definition OnSignal :: "status \<Rightarrow> hb_signaller \<Rightarrow> hb_signaller" where
  "OnSignal s h = h\<lparr>hb_signal_posted := Status_ok s \<or> hb_trial h \<le> kMaximumSignalTrial\<rparr>"

definition signals :: "status list \<Rightarrow> hb_signaller \<Rightarrow> hb_signaller" where
  "signals ss h = fold (\<lambda>s h. OnSignal s (Signal h)) ss h"

text \<open>The trials count every signal, so only the first five failures, or none, are forgiven.\<close>

lemma signals_trial: "hb_trial (signals ss h) = hb_trial h + word_of_nat (length ss)"
  unfolding signals_def by (induction ss arbitrary: h) (simp_all add: OnSignal_def Signal_def)

lemma late_failure_ends_signals:
  assumes "5 \<le> length ss" "length ss < 255" "\<not> Status_ok s"
  shows "\<not> hb_signal_posted (OnSignal s (Signal (signals ss \<lparr>hb_trial = 0, hb_signal_posted = True\<rparr>)))"
proof -
  have "unat (word_of_nat (Suc (length ss)) :: u8) = Suc (length ss)"
    using assms(2) by (simp add: unat_of_nat del: of_nat_Suc)
  then have "\<not> (word_of_nat (Suc (length ss)) :: u8) \<le> 5" using assms(1) by (simp add: word_le_nat_alt)
  with assms(3) show ?thesis
    by (simp add: OnSignal_def Signal_def signals_trial kMaximumSignalTrial_def add.commute)
qed

section \<open>The next task\<close>

lemma next_task_None: "next_task xs = None \<longleftrightarrow> xs = []"
  by (cases xs) (auto split: option.splits)

lemma next_task_Some:
  assumes "next_task xs = Some (x, ys)"
  shows "\<exists>us vs. xs = us @ x # vs \<and> ys = us @ vs \<and> (\<forall>u \<in> set us. fst x < fst u) \<and> (\<forall>v \<in> set vs. fst x \<le> fst v)"
  using assms
proof (induction xs arbitrary: x ys)
  case (Cons a xs)
  show ?case
  proof (cases "next_task xs")
    case None
    with Cons.prems show ?thesis by (auto simp: next_task_None intro: exI [of _ "[]"])
  next
    case (Some r)
    obtain y zs where r: "r = (y, zs)" by (cases r)
    obtain us vs where y: "xs = us @ y # vs" "zs = us @ vs" "\<forall>u \<in> set us. fst y < fst u" "\<forall>v \<in> set vs. fst y \<le> fst v"
      using Cons.IH Some r by blast
    show ?thesis
    proof (cases "fst a \<le> fst y")
      case True
      with Cons.prems Some r have "x = a" "ys = xs" by simp_all
      with True y show ?thesis by (intro exI [of _ "[]"] exI [of _ xs]) auto
    next
      case False
      with Cons.prems Some r have "x = y" "ys = a # zs" by simp_all
      with False y show ?thesis by (intro exI [of _ "a # us"] exI [of _ vs]) auto
    qed
  qed
qed simp

section \<open>Silence\<close>

text \<open>An armed timeout is due no earlier than five periods after the client was last heard of.\<close>

definition silence_ok :: "hb_listener \<Rightarrow> bool" where
  "silence_ok l \<longleftrightarrow> hb_heard l \<le> hb_now l \<and>
     (\<forall>d k. (d, TimeoutTask k) \<in> set (hb_tasks l) \<longrightarrow> k < hb_made l \<and>
        (hb_armed l = Some k \<longrightarrow> hb_heard l + kMultiplier * hb_period l \<le> d)) \<and>
     (\<forall>k. hb_armed l = Some k \<longrightarrow> k < hb_made l) \<and>
     (\<forall>n. hb_silence l = Some n \<longrightarrow> kMultiplier * hb_period l \<le> n) \<and> (hb_stopped l \<longleftrightarrow> hb_silence l \<noteq> None)"

lemma silence_KillSelf: "KillSelf l = Some l' \<Longrightarrow> silence_ok l \<Longrightarrow> silence_ok l'"
  by (auto simp: KillSelf_def silence_ok_def split: if_splits)

lemma silence_TryReceive: "TryReceiveHeartBeat l = Some l' \<Longrightarrow> silence_ok l \<Longrightarrow> silence_ok l'"
  by (auto simp: TryReceiveHeartBeat_def silence_ok_def post_delayed_def Let_def less_SucI split: if_splits)
    (metis less_irrefl)

lemma silence_OnAlive: "OnAlive st c l = Some l' \<Longrightarrow> silence_ok l \<Longrightarrow> silence_ok l'"
  by (auto simp: OnAlive_def post_delayed_def silence_KillSelf split: if_splits) (auto simp: silence_ok_def)

lemma silence_connect:
  assumes "Listener_DoCheckHeartBeat st l = Some l'" "silence_ok l" "hb_armed l = None"
  shows "silence_ok l'"
proof -
  have "silence_ok (l\<lparr>hb_heard := hb_now l\<rparr>)" using assms(2,3) by (auto simp: silence_ok_def)
  with assms show ?thesis
    by (auto simp: Listener_DoCheckHeartBeat_def dest: silence_KillSelf silence_TryReceive split: if_splits)
qed

lemma silence_fewer: "silence_ok l \<Longrightarrow> set xs \<subseteq> set (hb_tasks l) \<Longrightarrow> silence_ok (l\<lparr>hb_tasks := xs\<rparr>)"
  by (auto simp: silence_ok_def)

lemma silence_Stop:
  assumes "silence_ok l" "hb_armed l = Some k" "hb_heard l + kMultiplier * hb_period l \<le> hb_now l"
  shows "silence_ok (StopCheckHeartBeat l)"
  using assms by (auto simp: silence_ok_def StopCheckHeartBeat_def post_delayed_def)

definition unarmed_start :: "hb_listener \<Rightarrow> bool" where
  "unarmed_start l \<longleftrightarrow> hb_phase l = HbConnecting \<and> \<not> hb_deleted l \<longrightarrow> hb_armed l = None \<and> hb_tasks l = []"

lemma unarmed_exec: "hb_exec ev l = Some l' \<Longrightarrow> unarmed_start l \<Longrightarrow> unarmed_start l'"
proof (cases ev)
  case HbRun
  assume run: "hb_exec ev l = Some l'" and start: "unarmed_start l"
  show ?thesis
  proof (cases "next_task (hb_tasks l)")
    case None
    with run start HbRun show ?thesis by simp
  next
    case (Some r)
    then have "hb_tasks l \<noteq> []" by (metis next_task_None option.distinct(1))
    with start have ph: "hb_phase l \<noteq> HbConnecting \<or> hb_deleted l" by (auto simp: unarmed_start_def)
    obtain x xs where r: "r = (x, xs)" by (cases r)
    from run HbRun Some r show ?thesis using ph start
      by (cases "snd x")
        (auto simp: unarmed_start_def KillSelf_def TryReceiveHeartBeat_def StopCheckHeartBeat_def post_delayed_def Let_def
          split: if_splits)
  qed
qed (auto simp: unarmed_start_def Listener_DoCheckHeartBeat_def OnAlive_def KillSelf_def TryReceiveHeartBeat_def post_delayed_def
    Let_def split: if_splits option.splits)

lemma silence_exec:
  assumes "hb_exec ev l = Some l'" "silence_ok l" "unarmed_start l"
  shows "silence_ok l'"
proof (cases ev)
  case (HbConnected st)
  with assms show ?thesis by (auto simp: unarmed_start_def split: if_splits intro: silence_connect)
next
  case (HbReceived st c)
  with assms show ?thesis by (auto split: if_splits intro: silence_OnAlive)
next
  case HbTick
  have "silence_ok (l\<lparr>hb_now := hb_now l + 1\<rparr>)" using assms(2) by (auto simp: silence_ok_def)
  with HbTick assms show ?thesis by (auto split: option.splits if_splits)
next
  case HbRun
  show ?thesis
  proof (cases "next_task (hb_tasks l)")
    case None
    with HbRun assms show ?thesis by simp
  next
    case (Some r)
    obtain d t xs where r: "r = ((d, t), xs)" by (metis surj_pair)
    have sub: "set xs \<subseteq> set (hb_tasks l)" "(d, t) \<in> set (hb_tasks l)"
      using next_task_Some [of "hb_tasks l" "(d, t)" xs] Some r by auto
    let ?l = "l\<lparr>hb_tasks := xs\<rparr>"
    have ok: "silence_ok ?l" using silence_fewer [OF assms(2) sub(1)] .
    show ?thesis
    proof (cases "d \<le> hb_now l")
      case True
      with HbRun assms(1) Some r have run: "run_hb_task t ?l = Some l'" by simp
      show ?thesis
      proof (cases t)
        case (TimeoutTask k)
        have "hb_heard l + kMultiplier * hb_period l \<le> hb_now l" if "hb_armed l = Some k"
          using assms(2) sub(2) TimeoutTask that True by (fastforce simp: silence_ok_def)
        with run TimeoutTask ok silence_Stop [of ?l k] show ?thesis by (auto split: if_splits)
      qed (use run ok silence_TryReceive silence_KillSelf in auto)
    qed (use HbRun assms Some r in simp)
  qed
qed

interpretation silence: inductive_invariant "\<lambda>l. l = new_HeartBeatListener d" hb_step "\<lambda>l. silence_ok l \<and> unarmed_start l"
  for d
proof
  show "l = new_HeartBeatListener d \<Longrightarrow> silence_ok l \<and> unarmed_start l" for l
    by (simp add: silence_ok_def unarmed_start_def new_HeartBeatListener_def)
  show "silence_ok l \<and> unarmed_start l \<Longrightarrow> hb_step l l' \<Longrightarrow> silence_ok l' \<and> unarmed_start l'" for l l'
    by (auto elim!: hb_stepE intro: silence_exec unarmed_exec)
qed

section \<open>The life of a listener\<close>

abbreviation pending :: "hb_task \<Rightarrow> (nat \<times> hb_task) list \<Rightarrow> nat" where
  "pending t xs \<equiv> length (filter (\<lambda>x. snd x = t) xs)"

text \<open>The tasks of a listener that has given up: its end, and before it at most other receives.\<close>

definition doomed :: "(nat \<times> hb_task) list \<Rightarrow> bool" where
  "doomed xs \<longleftrightarrow> (\<exists>us d vs. xs = us @ (d, KillTask) # vs \<and> pending KillTask (us @ vs) = 0 \<and> pending TryReceiveTask vs = 0 \<and>
     (\<forall>x \<in> set us. snd x = TryReceiveTask \<longrightarrow> fst x \<le> d))"

definition life_ok :: "hb_listener \<Rightarrow> bool" where
  "life_ok l \<longleftrightarrow>
     (\<forall>x \<in> set (hb_tasks l). snd x = TryReceiveTask \<longrightarrow> fst x \<le> hb_now l + hb_period l) \<and>
     (hb_deleted l \<or> hb_stopped l \<longrightarrow> hb_armed l = None) \<and>
     (if hb_deleted l then hb_told l = 1 \<and> pending KillTask (hb_tasks l) = 0 \<and> pending TryReceiveTask (hb_tasks l) = 0
      else hb_told l = 0 \<and>
        (if hb_stopped l then doomed (hb_tasks l)
         else pending KillTask (hb_tasks l) = 0 \<and>
           pending TryReceiveTask (hb_tasks l) = (if hb_phase l = HbWaiting then 1 else 0)))"

lemma doomed_remove:
  assumes "doomed (us @ x # vs)" "snd x \<noteq> KillTask"
  shows "doomed (us @ vs)"
proof -
  obtain as d bs where d: "us @ x # vs = as @ (d, KillTask) # bs" "pending KillTask (as @ bs) = 0" "pending TryReceiveTask bs = 0"
      "\<forall>y \<in> set as. snd y = TryReceiveTask \<longrightarrow> fst y \<le> d"
    using assms(1) by (auto simp: doomed_def)
  from d(1) consider ws where "as = us @ x # ws" "vs = ws @ (d, KillTask) # bs"
    | ws where "us = as @ (d, KillTask) # ws" "bs = ws @ x # vs"
    using assms(2) by (auto simp: append_eq_append_conv2 append_eq_Cons_conv Cons_eq_append_conv)
  then show ?thesis
  proof cases
    case 1
    then have "us @ vs = (us @ ws) @ (d, KillTask) # bs" by simp
    moreover have "pending KillTask ((us @ ws) @ bs) = 0" using 1 d(2) assms(2) by simp
    moreover have "\<forall>y \<in> set (us @ ws). snd y = TryReceiveTask \<longrightarrow> fst y \<le> d" using 1 d(4) by simp
    ultimately show ?thesis using d(3) unfolding doomed_def by blast
  next
    case 2
    then have "us @ vs = as @ (d, KillTask) # (ws @ vs)" by simp
    moreover have "pending KillTask (as @ ws @ vs) = 0" using 2 d(2) assms(2) by simp
    moreover have "pending TryReceiveTask (ws @ vs) = 0" using 2 d(3) by (auto split: if_splits)
    ultimately show ?thesis using d(4) unfolding doomed_def by blast
  qed
qed

text \<open>When the end is the next task, no receive is left.\<close>

lemma doomed_kill:
  assumes "doomed (us @ x # vs)" "snd x = KillTask" "\<forall>u \<in> set us. fst x < fst u"
  shows "pending KillTask (us @ vs) = 0 \<and> pending TryReceiveTask (us @ vs) = 0"
proof -
  obtain as d bs where d: "us @ x # vs = as @ (d, KillTask) # bs" "pending KillTask (as @ bs) = 0" "pending TryReceiveTask bs = 0"
      "\<forall>y \<in> set as. snd y = TryReceiveTask \<longrightarrow> fst y \<le> d"
    using assms(1) by (auto simp: doomed_def)
  have "x \<notin> set as" "x \<notin> set bs" using d(2) assms(2) by (auto simp: filter_empty_conv)
  moreover have "(d, KillTask) \<notin> set us"
  proof
    assume "(d, KillTask) \<in> set us"
    then obtain ws zs where ws: "us = ws @ (d, KillTask) # zs" by (auto simp: in_set_conv_decomp)
    have "length (filter (\<lambda>y. snd y = KillTask) (us @ x # vs)) = 1" using d(1,2) by simp
    with ws assms(2) show False by simp
  qed
  ultimately have "us = as \<and> vs = bs"
    using d(1) by (auto simp: append_eq_append_conv2 append_eq_Cons_conv Cons_eq_append_conv)
  moreover have "x = (d, KillTask)" using calculation d(1) by simp
  ultimately show ?thesis using d assms(3) by (fastforce simp: filter_empty_conv)
qed

text \<open>A result of a receive that comes after the listener has given up is late.\<close>

fun timely :: "hb_event \<Rightarrow> hb_listener \<Rightarrow> bool" where
  "timely (HbReceived s connected) l \<longleftrightarrow> \<not> hb_stopped l"
| "timely ev l \<longleftrightarrow> True"

inductive timely_step :: "hb_listener \<Rightarrow> hb_listener \<Rightarrow> bool" where
  "timely ev l \<Longrightarrow> hb_exec ev l = Some l' \<Longrightarrow> timely_step l l'"

inductive_cases timely_stepE: "timely_step l l'"

lemma run_timeout_life:
  assumes ok: "life_ok l" and tasks: "hb_tasks l = us @ (d, TimeoutTask k) # vs"
  shows "\<exists>l'. run_hb_task (TimeoutTask k) (l\<lparr>hb_tasks := us @ vs\<rparr>) = Some l' \<and> life_ok l'"
proof -
  let ?l = "l\<lparr>hb_tasks := us @ vs\<rparr>"
  have keep: "life_ok ?l"
    using ok tasks doomed_remove [of us "(d, TimeoutTask k)" vs] by (auto simp: life_ok_def split: if_splits)
  show ?thesis
  proof (cases "hb_armed l = Some k")
    case True
    then have live: "\<not> hb_deleted l" "\<not> hb_stopped l" using ok by (auto simp: life_ok_def)
    with keep have "pending KillTask (us @ vs) = 0"
        "\<forall>x \<in> set (us @ vs). snd x = TryReceiveTask \<longrightarrow> fst x \<le> hb_now l + hb_period l" by (simp_all add: life_ok_def)
    then have "doomed ((us @ vs) @ [(hb_now l + hb_period l, KillTask)])"
      unfolding doomed_def by (intro exI [of _ "us @ vs"] exI [of _ "hb_now l + hb_period l"] exI [of _ "[]"]) simp
    then have "life_ok (StopCheckHeartBeat ?l)"
      using keep live by (auto simp: life_ok_def StopCheckHeartBeat_def post_delayed_def)
    with True show ?thesis by simp
  qed (use keep in simp)
qed

lemma run_receive_life:
  assumes ok: "life_ok l" and tasks: "hb_tasks l = us @ (d, TryReceiveTask) # vs"
  shows "\<exists>l'. run_hb_task TryReceiveTask (l\<lparr>hb_tasks := us @ vs\<rparr>) = Some l' \<and> life_ok l'"
proof -
  have live: "\<not> hb_deleted l" using ok tasks by (auto simp: life_ok_def)
  show ?thesis
  proof (cases "hb_stopped l")
    case True
    then have "life_ok (l\<lparr>hb_tasks := us @ vs\<rparr>)"
      using ok tasks live doomed_remove [of us "(d, TryReceiveTask)" vs] by (auto simp: life_ok_def)
    with True live show ?thesis by (simp add: TryReceiveHeartBeat_def)
  next
    case False
    with live ok tasks show ?thesis
      by (auto simp: life_ok_def TryReceiveHeartBeat_def post_delayed_def Let_def split: if_splits)
  qed
qed

lemma run_kill_life:
  assumes ok: "life_ok l" and tasks: "hb_tasks l = us @ (d, KillTask) # vs" "\<forall>u \<in> set us. d < fst u"
  shows "\<exists>l'. run_hb_task KillTask (l\<lparr>hb_tasks := us @ vs\<rparr>) = Some l' \<and> life_ok l'"
proof -
  have live: "\<not> hb_deleted l" and stop: "hb_stopped l" using ok tasks(1) by (auto simp: life_ok_def split: if_splits)
  then have "doomed (us @ (d, KillTask) # vs)" using ok tasks(1) by (simp add: life_ok_def)
  from doomed_kill [OF this] tasks(2) have "pending KillTask (us @ vs) = 0 \<and> pending TryReceiveTask (us @ vs) = 0" by simp
  with live ok tasks(1) show ?thesis by (auto simp: KillSelf_def life_ok_def filter_empty_conv)
qed

lemma receive_life:
  assumes "life_ok l" "\<not> hb_deleted l" "hb_phase l = HbReceiving" "\<not> hb_stopped l"
  shows "\<exists>l'. OnAlive st c l = Some l' \<and> life_ok l'"
  using assms by (auto simp: OnAlive_def KillSelf_def life_ok_def post_delayed_def)

lemma connect_life:
  assumes "life_ok l" "\<not> hb_deleted l" "hb_phase l = HbConnecting" "\<not> hb_stopped l"
  shows "\<exists>l'. Listener_DoCheckHeartBeat st l = Some l' \<and> life_ok l'"
  using assms by (auto simp: Listener_DoCheckHeartBeat_def TryReceiveHeartBeat_def KillSelf_def life_ok_def post_delayed_def Let_def)

lemma timely_exec_life:
  assumes ok: "life_ok l" "unarmed_start l" and timely: "timely ev l"
  shows "\<exists>l'. hb_exec ev l = Some l' \<and> life_ok l'"
proof (cases ev)
  case (HbConnected st)
  have "\<not> hb_stopped l" if "\<not> hb_deleted l" "hb_phase l = HbConnecting"
    using ok that by (auto simp: life_ok_def unarmed_start_def doomed_def)
  with HbConnected ok connect_life [of l st] show ?thesis by auto
next
  case (HbReceived st c)
  with ok(1) timely receive_life [of l st c] show ?thesis by auto
next
  case HbTick
  have "life_ok (l\<lparr>hb_now := hb_now l + 1\<rparr>)" using ok(1) by (fastforce simp: life_ok_def)
  with HbTick ok(1) show ?thesis by (auto split: option.splits)
next
  case HbRun
  show ?thesis
  proof (cases "next_task (hb_tasks l)")
    case None
    with HbRun ok(1) show ?thesis by simp
  next
    case (Some r)
    obtain d t xs where r: "r = ((d, t), xs)" by (metis surj_pair)
    obtain us vs where t: "hb_tasks l = us @ (d, t) # vs" "xs = us @ vs" "\<forall>u \<in> set us. d < fst u"
      using next_task_Some [of "hb_tasks l" "(d, t)" xs] Some r by auto
    have "\<exists>l'. run_hb_task t (l\<lparr>hb_tasks := us @ vs\<rparr>) = Some l' \<and> life_ok l'"
      using run_timeout_life [OF ok(1)] run_receive_life [OF ok(1)] run_kill_life [OF ok(1)] t by (cases t) blast+
    with HbRun Some r t(2) ok(1) show ?thesis by simp
  qed
qed

interpretation life: inductive_invariant "\<lambda>l. l = new_HeartBeatListener d" timely_step "\<lambda>l. life_ok l \<and> unarmed_start l"
  for d
proof
  show "l = new_HeartBeatListener d \<Longrightarrow> life_ok l \<and> unarmed_start l" for l
    by (simp add: life_ok_def unarmed_start_def new_HeartBeatListener_def)
  show "life_ok l \<and> unarmed_start l \<Longrightarrow> timely_step l l' \<Longrightarrow> life_ok l' \<and> unarmed_start l'" for l l'
    by (auto elim!: timely_stepE intro: unarmed_exec) (metis option.inject timely_exec_life)
qed

section \<open>Properties\<close>

text \<open>
  C32.  The listener gives up only after silence: when it has stopped checking, at least five periods
  had passed since the client was last heard of, whatever the events were.
\<close>

theorem heart_beat_gives_up_after_silence:
  assumes "reachable (\<lambda>l. l = new_HeartBeatListener d) hb_step l" "hb_stopped l"
  shows "\<exists>n. hb_silence l = Some n \<and> kMultiplier * hb_period l \<le> n"
  using silence.inv_reachable [OF assms(1)] assms(2) by (auto simp: silence_ok_def)

lemma hb_run_reachable:
  "hb_run evs l = Some l' \<Longrightarrow> reachable init hb_step l \<Longrightarrow> reachable init hb_step l'"
proof (induction evs arbitrary: l)
  case (Cons ev evs)
  then obtain l1 where "hb_exec ev l = Some l1" "hb_run evs l1 = Some l'" by (auto simp: bind_eq_Some_conv)
  with Cons show ?case by (blast intro: reachable.move hb_step.intros)
qed simp

definition demo_silence :: "hb_event list" where
  "demo_silence = HbConnected Status_OK # replicate 5 HbTick @ [HbRun]"

theorem heart_beat_gives_up_after_silence_witness:
  "\<exists>l n. hb_run demo_silence (new_HeartBeatListener 1) = Some l \<and> hb_silence l = Some n \<and> kMultiplier * hb_period l \<le> n"
proof -
  have "map_option hb_stopped (hb_run demo_silence (new_HeartBeatListener 1)) = Some True" by code_simp
  then obtain l where l: "hb_run demo_silence (new_HeartBeatListener 1) = Some l" "hb_stopped l" by auto
  with heart_beat_gives_up_after_silence [OF hb_run_reachable [OF l(1), of "\<lambda>l. l = new_HeartBeatListener 1"]] show ?thesis
    by (auto intro: reachable.start)
qed

text \<open>
  As long as no result of a receive comes after the listener has given up, every event is defined, and
  the master is told of the loss exactly when the listener is deleted, once.
\<close>

theorem timely_heart_beat_defined:
  assumes "reachable (\<lambda>l. l = new_HeartBeatListener d) timely_step l" "timely ev l"
  shows "(\<exists>l'. hb_exec ev l = Some l') \<and> hb_told l = (if hb_deleted l then 1 else 0)"
  using life.inv_reachable [OF assms(1)] timely_exec_life [of l ev] assms(2) by (auto simp: life_ok_def)

theorem timely_heart_beat_defined_witness:
  "\<exists>l. hb_exec (HbConnected Status_OK) (new_HeartBeatListener 10) = Some l \<and> hb_told l = 0 \<and>
     (\<exists>l'. hb_exec (HbReceived Status_OK True) l = Some l')"
proof -
  have "map_option (\<lambda>l. (hb_stopped l, hb_deleted l)) (hb_exec (HbConnected Status_OK) (new_HeartBeatListener 10)) = Some (False, False)"
    by code_simp
  then obtain l where step: "hb_exec (HbConnected Status_OK) (new_HeartBeatListener 10) = Some l" "\<not> hb_stopped l" "\<not> hb_deleted l"
    by (cases "hb_exec (HbConnected Status_OK) (new_HeartBeatListener 10)") simp_all
  have "reachable (\<lambda>l. l = new_HeartBeatListener 10) timely_step (new_HeartBeatListener 10)" by (rule reachable.start) simp
  moreover have "timely_step (new_HeartBeatListener 10) l"
    using timely_step.intros [of "HbConnected Status_OK"] step(1) by (metis timely.simps(2))
  ultimately have "reachable (\<lambda>l. l = new_HeartBeatListener 10) timely_step l" by (rule reachable.move)
  from timely_heart_beat_defined [OF this, of "HbReceived Status_OK True"] step show ?thesis by auto
qed

text \<open>
  A heart beat that arrives between the timeout and the end of the listener makes the master
  run a task of a deleted listener: the receive is scheduled again, after the end that is scheduled already.
\<close>

theorem late_heart_beat_is_undefined:
  "hb_run (demo_silence @ [HbReceived Status_OK True, HbTick, HbRun]) (new_HeartBeatListener 1) \<noteq> None \<and>
   hb_run (demo_silence @ [HbReceived Status_OK True, HbTick, HbRun, HbRun]) (new_HeartBeatListener 1) = None"
  by code_simp

end
