(* ===== verification/Felicia_Pool.thy ===== *)
theory Felicia_Pool
  imports Felicia_Prelude "HOL-Library.Monad_Syntax"
begin

text \<open>
  The ring buffer \<open>Pool<T, uint8_t>\<close> of \<open>core/lib/containers/pool.h\<close>, the message queue of
  publishers, subscribers and filters.  A cell of the buffer that holds no live object is
  \<open>None\<close>; destroying or reading such a cell, or writing outside the buffer, is undefined in the
  code and \<open>None\<close> in the model.  Index arithmetic is on bytes; the operands of a C++ expression
  are promoted to \<open>int\<close>, so a comparison with \<open>capacity - 1\<close> is on integers.
\<close>

section \<open>PoolIndex\<close>

record pool_index =
  capacity :: u8
  pop_index :: u8
  push_index :: u8
  is_ailve_after_push_index :: bool

definition inc_index :: "pool_index \<Rightarrow> u8 \<Rightarrow> u8" where
  "inc_index pi index = (if uint index = uint (capacity pi) - 1 then 0 else index + 1)"

definition inc_index_by :: "pool_index \<Rightarrow> u8 \<Rightarrow> u8 \<Rightarrow> u8" where
  "inc_index_by pi index delta = word_of_int ((uint index + uint delta) mod uint (capacity pi))"

definition dec_index :: "pool_index \<Rightarrow> u8 \<Rightarrow> u8" where
  "dec_index pi index = (if index = 0 then capacity pi - 1 else index - 1)"

definition inc_push_index :: "pool_index \<Rightarrow> pool_index" where
  "inc_push_index pi =
     (let pi' = pi\<lparr>push_index := inc_index pi (push_index pi)\<rparr> in
      if push_index pi' = 0 then pi'\<lparr>is_ailve_after_push_index := True\<rparr> else pi')"

definition inc_pop_index :: "pool_index \<Rightarrow> pool_index" where
  "inc_pop_index pi =
     (let pi' = pi\<lparr>pop_index := inc_index pi (pop_index pi)\<rparr> in
      if pop_index pi' = 0 then pi'\<lparr>is_ailve_after_push_index := False\<rparr> else pi')"

definition PoolIndex_size :: "pool_index \<Rightarrow> u8" where
  "PoolIndex_size pi =
     (if is_ailve_after_push_index pi then capacity pi - (pop_index pi - push_index pi)
      else push_index pi - pop_index pi)"

definition PoolIndex_reset :: pool_index where
  "PoolIndex_reset =
     \<lparr>capacity = 0, pop_index = 0, push_index = 0, is_ailve_after_push_index = False\<rparr>"

section \<open>Pool\<close>

record 'a pool =
  buffer :: "'a option list"
  pool_index :: pool_index

definition new_Pool :: "u8 \<Rightarrow> 'a pool" where
  "new_Pool cap = \<lparr>buffer = replicate (unat cap) None,
     pool_index = PoolIndex_reset\<lparr>capacity := cap\<rparr>\<rparr>"

definition Pool_capacity :: "'a pool \<Rightarrow> u8" where
  "Pool_capacity p = capacity (pool_index p)"

definition Pool_size :: "'a pool \<Rightarrow> u8" where
  "Pool_size p = PoolIndex_size (pool_index p)"

definition Pool_empty :: "'a pool \<Rightarrow> bool" where
  "Pool_empty p \<longleftrightarrow> Pool_size p = 0"

definition cell :: "'a pool \<Rightarrow> u8 \<Rightarrow> 'a option" where
  "cell p i = (if unat i < length (buffer p) then buffer p ! unat i else None)"

definition Pool_front :: "'a pool \<Rightarrow> 'a option" where
  "Pool_front p = cell p (pop_index (pool_index p))"

definition Pool_back :: "'a pool \<Rightarrow> 'a option" where
  "Pool_back p = cell p (dec_index (pool_index p) (push_index (pool_index p)))"

definition Pool_pop :: "'a pool \<Rightarrow> 'a pool option" where
  "Pool_pop p =
     (if Pool_empty p then Some p
      else case cell p (pop_index (pool_index p)) of
        None \<Rightarrow> None
      | Some _ \<Rightarrow> Some (p\<lparr>buffer := (buffer p)[unat (pop_index (pool_index p)) := None],
                         pool_index := inc_pop_index (pool_index p)\<rparr>))"

text \<open>The placement \<open>new\<close> of \<open>push\<close> and \<open>emplace\<close>, which differ in how the object is made.\<close>

definition Pool_place :: "'a \<Rightarrow> 'a pool \<Rightarrow> 'a pool option" where
  "Pool_place v p =
     (let i = unat (push_index (pool_index p)) in
      if i < length (buffer p)
      then Some (p\<lparr>buffer := (buffer p)[i := Some v], pool_index := inc_push_index (pool_index p)\<rparr>)
      else None)"

definition Pool_push :: "'a \<Rightarrow> 'a pool \<Rightarrow> 'a pool option" where
  "Pool_push v p =
     do {
       p' \<leftarrow> (if is_ailve_after_push_index (pool_index p) then Pool_pop p else Some p);
       Pool_place v p'
     }"

partial_function (option) clear_loop :: "'a pool \<Rightarrow> 'a pool option" where
  "clear_loop p = (if Pool_empty p then Some p else do { p' \<leftarrow> Pool_pop p; clear_loop p' })"

definition Pool_clear :: "'a pool \<Rightarrow> 'a pool option" where
  "Pool_clear p = do { _ \<leftarrow> clear_loop p; Some \<lparr>buffer = [], pool_index = PoolIndex_reset\<rparr> }"

partial_function (option) reserve_loop :: "'a pool \<Rightarrow> 'a pool \<Rightarrow> 'a pool option" where
  "reserve_loop p new_pool =
     (if Pool_empty p then Some new_pool
      else do {
        v \<leftarrow> Pool_front p;
        new_pool' \<leftarrow> Pool_push v new_pool;
        p' \<leftarrow> Pool_pop p;
        reserve_loop p' new_pool'
      })"

definition Pool_reserve :: "u8 \<Rightarrow> 'a pool \<Rightarrow> 'a pool option" where
  "Pool_reserve cap p = reserve_loop p (new_Pool cap)"

declare clear_loop.simps [code] reserve_loop.simps [code]

section \<open>Iterators\<close>

text \<open>An iterator is a copy of the index; \<open>CHECK_GT\<close> aborts, the result \<open>None\<close>.\<close>

definition Iterator_end :: "pool_index \<Rightarrow> pool_index" where
  "Iterator_end pi = pi\<lparr>pop_index := push_index pi, is_ailve_after_push_index := False\<rparr>"

definition Iterator_inc :: "pool_index \<Rightarrow> pool_index option" where
  "Iterator_inc it = (if uint (PoolIndex_size it) > 0 then Some (inc_pop_index it) else None)"

definition Iterator_deref :: "'a pool \<Rightarrow> pool_index \<Rightarrow> 'a option" where
  "Iterator_deref p it = (if uint (PoolIndex_size it) > 0 then cell p (pop_index it) else None)"

text \<open>\<open>for (auto it = begin(); it != end(); ++it)\<close>, collecting \<open>*it\<close>.\<close>

partial_function (option) iterate_loop :: "'a pool \<Rightarrow> pool_index \<Rightarrow> 'a list \<Rightarrow> 'a list option" where
  "iterate_loop p it acc =
     (if it = Iterator_end (pool_index p) then Some acc
      else do {
        v \<leftarrow> Iterator_deref p it;
        it' \<leftarrow> Iterator_inc it;
        iterate_loop p it' (acc @ [v])
      })"

definition Pool_iterate :: "'a pool \<Rightarrow> 'a list option" where
  "Pool_iterate p = iterate_loop p (pool_index p) []"

text \<open>\<open>ConstIterator::operator+\<close> computes the new index and does not store it.\<close>

definition ConstIterator_plus :: "pool_index \<Rightarrow> u8 \<Rightarrow> pool_index" where
  "ConstIterator_plus it delta = (let _ = inc_index_by it (pop_index it) delta in it)"

definition Pool_index_operator :: "'a pool \<Rightarrow> u8 \<Rightarrow> 'a option" where
  "Pool_index_operator p idx = Iterator_deref p (ConstIterator_plus (pool_index p) idx)"

datatype 'a at_result = OutOfRangeThrown | At "'a option"

definition Pool_at :: "'a pool \<Rightarrow> u8 \<Rightarrow> 'a at_result" where
  "Pool_at p idx = (if idx \<ge> Pool_size p then OutOfRangeThrown else At (Pool_index_operator p idx))"

section \<open>Invariant and contents\<close>

abbreviation "cap_of p \<equiv> unat (capacity (pool_index p))"
abbreviation "pop_of p \<equiv> unat (pop_index (pool_index p))"
abbreviation "push_of p \<equiv> unat (push_index (pool_index p))"
abbreviation "wrapped p \<equiv> is_ailve_after_push_index (pool_index p)"

definition live :: "'a pool \<Rightarrow> nat \<Rightarrow> bool" where
  "live p i \<longleftrightarrow> (if wrapped p then i < push_of p \<or> pop_of p \<le> i else pop_of p \<le> i \<and> i < push_of p)"

definition index_ok :: "pool_index \<Rightarrow> bool" where
  "index_ok pi \<longleftrightarrow>
     pop_index pi < capacity pi \<and> push_index pi < capacity pi \<and>
     (if is_ailve_after_push_index pi then push_index pi \<le> pop_index pi
      else pop_index pi \<le> push_index pi)"

definition pool_ok :: "'a pool \<Rightarrow> bool" where
  "pool_ok p \<longleftrightarrow>
     index_ok (pool_index p) \<and> length (buffer p) = cap_of p \<and>
     (\<forall>i < cap_of p. buffer p ! i \<noteq> None \<longleftrightarrow> live p i)"

definition count_of :: "'a pool \<Rightarrow> nat" where
  "count_of p = (if wrapped p then cap_of p - (pop_of p - push_of p) else push_of p - pop_of p)"

definition Pool_contents :: "'a pool \<Rightarrow> 'a list" where
  "Pool_contents p =
     map (\<lambda>k. the (buffer p ! ((pop_of p + k) mod cap_of p))) [0..<count_of p]"

lemma index_ok_unat:
  "index_ok pi \<longleftrightarrow>
     unat (pop_index pi) < unat (capacity pi) \<and> unat (push_index pi) < unat (capacity pi) \<and>
     (if is_ailve_after_push_index pi then unat (push_index pi) \<le> unat (pop_index pi)
      else unat (pop_index pi) \<le> unat (push_index pi))"
  by (simp add: index_ok_def word_less_nat_alt word_le_nat_alt)

lemma unat_inc_index:
  assumes "unat i < unat (capacity pi)"
  shows "unat (inc_index pi i) = (if Suc (unat i) = unat (capacity pi) then 0 else Suc (unat i))"
proof -
  have "uint i = uint (capacity pi) - 1 \<longleftrightarrow> Suc (unat i) = unat (capacity pi)"
    using assms unfolding uint_nat by linarith
  moreover have "unat (i + 1) = Suc (unat i)" if "Suc (unat i) \<noteq> unat (capacity pi)"
  proof -
    have "Suc (unat i) < 2 ^ LENGTH(8)" using assms that unsigned_less [of "capacity pi", where 'a = nat] by linarith
    then show ?thesis by (simp add: unat_word_ariths)
  qed
  ultimately show ?thesis by (simp add: inc_index_def)
qed

lemma unat_size:
  assumes "index_ok pi"
  shows "unat (PoolIndex_size pi) =
    (if is_ailve_after_push_index pi
     then unat (capacity pi) - (unat (pop_index pi) - unat (push_index pi))
     else unat (push_index pi) - unat (pop_index pi))"
  using assms
  by (auto simp: index_ok_unat PoolIndex_size_def unat_sub_if')

lemma Pool_size_count: "pool_ok p \<Longrightarrow> unat (Pool_size p) = count_of p"
  by (simp add: Pool_size_def pool_ok_def unat_size count_of_def)

lemma Pool_empty_count: "pool_ok p \<Longrightarrow> Pool_empty p \<longleftrightarrow> count_of p = 0"
  by (metis Pool_empty_def Pool_size_count unat_eq_0)

lemma ring_mod: "0 < c \<Longrightarrow> x < 2 * c \<Longrightarrow> x mod c = (if x < c then x else x - c)" for x c :: nat
  by (simp add: le_mod_geq)

text \<open>The ring: where the push index is, and when the elements wrap around the end.\<close>

lemma ring:
  assumes "pool_ok p"
  shows "0 < cap_of p" "count_of p \<le> cap_of p" "pop_of p < cap_of p" "push_of p < cap_of p"
    and "push_of p = (pop_of p + count_of p) mod cap_of p"
    and "wrapped p \<longleftrightarrow> cap_of p \<le> pop_of p + count_of p"
  using assms
  by (auto simp: pool_ok_def index_ok_unat count_of_def mod_if split: if_splits)

lemma ring_pos:
  assumes "pool_ok p" "k < cap_of p"
  shows "(pop_of p + k) mod cap_of p = (if pop_of p + k < cap_of p then pop_of p + k else pop_of p + k - cap_of p)"
  using assms ring(1,3) [OF assms(1)] by (intro ring_mod) simp_all

lemma live_ring:
  assumes ok: "pool_ok p" and k: "k < count_of p"
  shows "live p ((pop_of p + k) mod cap_of p)"
proof -
  have "k < cap_of p" using k ring(2) [OF ok] by simp
  note pos = ring_pos [OF ok this]
  have "index_ok (pool_index p)" using ok by (simp add: pool_ok_def)
  then show ?thesis
    using k unfolding pos live_def count_of_def index_ok_unat by (auto split: if_splits)
qed

section \<open>Pop\<close>

lemma inc_pop_fields:
  assumes "index_ok pi"
  shows "capacity (inc_pop_index pi) = capacity pi" "push_index (inc_pop_index pi) = push_index pi"
    and "unat (pop_index (inc_pop_index pi)) =
      (if Suc (unat (pop_index pi)) = unat (capacity pi) then 0 else Suc (unat (pop_index pi)))"
    and "is_ailve_after_push_index (inc_pop_index pi) \<longleftrightarrow>
      is_ailve_after_push_index pi \<and> Suc (unat (pop_index pi)) \<noteq> unat (capacity pi)"
proof -
  have i: "unat (inc_index pi (pop_index pi)) =
      (if Suc (unat (pop_index pi)) = unat (capacity pi) then 0 else Suc (unat (pop_index pi)))"
    using assms by (intro unat_inc_index) (simp add: index_ok_unat)
  then have "inc_index pi (pop_index pi) = 0 \<longleftrightarrow> Suc (unat (pop_index pi)) = unat (capacity pi)"
    by (auto simp: unat_eq_0 [symmetric] split: if_splits)
  with i show "capacity (inc_pop_index pi) = capacity pi" "push_index (inc_pop_index pi) = push_index pi"
    and "unat (pop_index (inc_pop_index pi)) =
      (if Suc (unat (pop_index pi)) = unat (capacity pi) then 0 else Suc (unat (pop_index pi)))"
    and "is_ailve_after_push_index (inc_pop_index pi) \<longleftrightarrow>
      is_ailve_after_push_index pi \<and> Suc (unat (pop_index pi)) \<noteq> unat (capacity pi)"
    by (auto simp: inc_pop_index_def Let_def)
qed

lemma pool_ok_index: "pool_ok p \<Longrightarrow> index_ok (pool_index p)"
  by (simp add: pool_ok_def)

lemma cell_live: "pool_ok p \<Longrightarrow> unat i < cap_of p \<Longrightarrow> live p (unat i) \<Longrightarrow>
    cell p i = Some (the (buffer p ! unat i))"
  by (auto simp: cell_def pool_ok_def)

lemma live_pop: "pool_ok p \<Longrightarrow> 0 < count_of p \<Longrightarrow> live p (pop_of p)"
  using live_ring [of p 0] ring(3) [of p] by simp

definition popped :: "'a pool \<Rightarrow> 'a pool" where
  "popped p = p\<lparr>buffer := (buffer p)[pop_of p := None], pool_index := inc_pop_index (pool_index p)\<rparr>"

lemma Pool_pop_nonempty:
  assumes "pool_ok p" "0 < count_of p"
  shows "Pool_pop p = Some (popped p)"
  using assms cell_live [OF assms(1) _ live_pop [OF assms]] ring(3) [OF assms(1)]
  by (simp add: Pool_pop_def Pool_empty_count popped_def)

lemma popped_ok:
  assumes ok: "pool_ok p" and n: "0 < count_of p"
  shows "pool_ok (popped p)" "cap_of (popped p) = cap_of p" "count_of (popped p) = count_of p - 1"
    "pop_of (popped p) = Suc (pop_of p) mod cap_of p"
proof -
  note f = inc_pop_fields [OF pool_ok_index [OF ok]] and ix = pool_ok_index [OF ok, unfolded index_ok_unat]
  show "cap_of (popped p) = cap_of p" by (simp add: popped_def f)
  show "pop_of (popped p) = Suc (pop_of p) mod cap_of p"
    using ix by (auto simp: popped_def f)
  show "count_of (popped p) = count_of p - 1"
    using ix n by (auto simp: popped_def f count_of_def split: if_splits)
  have live: "live (popped p) i \<longleftrightarrow> live p i \<and> i \<noteq> pop_of p" if "i < cap_of p" for i
    using ix n that by (auto simp: popped_def f count_of_def live_def split: if_splits)
  have "index_ok (inc_pop_index (pool_index p))"
    using ix n by (auto simp: index_ok_unat f count_of_def split: if_splits)
  with ok live ring(3) [OF ok] show "pool_ok (popped p)"
    by (auto simp: pool_ok_def popped_def f nth_list_update split: if_splits)
qed

lemma contents_popped:
  assumes ok: "pool_ok p" and n: "0 < count_of p"
  shows "Pool_contents (popped p) = tl (Pool_contents p)"
proof (rule nth_equalityI)
  show "length (Pool_contents (popped p)) = length (tl (Pool_contents p))"
    by (simp add: Pool_contents_def popped_ok(3) [OF ok n])
  fix k
  assume "k < length (Pool_contents (popped p))"
  then have k: "Suc k < count_of p" by (simp add: Pool_contents_def popped_ok(3) [OF ok n])
  then have kc: "Suc k < cap_of p" using ring(2) [OF ok] by simp
  have "(Suc (pop_of p) mod cap_of p + k) mod cap_of p = (pop_of p + Suc k) mod cap_of p"
    by (simp add: mod_simps)
  moreover have "(pop_of p + Suc k) mod cap_of p \<noteq> pop_of p"
    unfolding ring_pos [OF ok kc] using ring(3) [OF ok] kc by auto
  ultimately show "Pool_contents (popped p) ! k = tl (Pool_contents p) ! k"
    using k popped_ok [OF ok n] by (simp add: Pool_contents_def nth_tl) (simp add: popped_def)
qed

lemma length_contents [simp]: "length (Pool_contents p) = count_of p"
  by (simp add: Pool_contents_def)

lemma Pool_pop_correct:
  assumes "pool_ok p"
  obtains p' where "Pool_pop p = Some p'" "pool_ok p'" "Pool_contents p' = tl (Pool_contents p)"
    "cap_of p' = cap_of p"
proof (cases "count_of p = 0")
  case True
  then have "Pool_contents p = []" by (simp add: Pool_contents_def)
  with True assms that [of p] show thesis by (simp add: Pool_pop_def Pool_empty_count)
next
  case False
  with that [of "popped p"] assms show thesis
    by (simp add: Pool_pop_nonempty popped_ok contents_popped)
qed

section \<open>Push\<close>

lemma inc_push_fields:
  assumes "unat (push_index pi) < unat (capacity pi)"
  shows "capacity (inc_push_index pi) = capacity pi" "pop_index (inc_push_index pi) = pop_index pi"
    and "unat (push_index (inc_push_index pi)) =
      (if Suc (unat (push_index pi)) = unat (capacity pi) then 0 else Suc (unat (push_index pi)))"
    and "is_ailve_after_push_index (inc_push_index pi) \<longleftrightarrow>
      is_ailve_after_push_index pi \<or> Suc (unat (push_index pi)) = unat (capacity pi)"
proof -
  note i = unat_inc_index [OF assms]
  then have "inc_index pi (push_index pi) = 0 \<longleftrightarrow> Suc (unat (push_index pi)) = unat (capacity pi)"
    by (auto simp: unat_eq_0 [symmetric] split: if_splits)
  with i show "capacity (inc_push_index pi) = capacity pi" "pop_index (inc_push_index pi) = pop_index pi"
    and "unat (push_index (inc_push_index pi)) =
      (if Suc (unat (push_index pi)) = unat (capacity pi) then 0 else Suc (unat (push_index pi)))"
    and "is_ailve_after_push_index (inc_push_index pi) \<longleftrightarrow>
      is_ailve_after_push_index pi \<or> Suc (unat (push_index pi)) = unat (capacity pi)"
    by (auto simp: inc_push_index_def Let_def)
qed

definition placed :: "'a \<Rightarrow> 'a pool \<Rightarrow> 'a pool" where
  "placed v p = p\<lparr>buffer := (buffer p)[push_of p := Some v], pool_index := inc_push_index (pool_index p)\<rparr>"

lemma placed_ok:
  assumes ok: "pool_ok p" and n: "count_of p < cap_of p"
  shows "Pool_place v p = Some (placed v p)"
    "pool_ok (placed v p)" "cap_of (placed v p) = cap_of p"
    "count_of (placed v p) = Suc (count_of p)" "pop_of (placed v p) = pop_of p"
proof -
  have ix: "unat (push_index (pool_index p)) < unat (capacity (pool_index p))"
    using ring(4) [OF ok] .
  note f = inc_push_fields [OF ix] and ixs = pool_ok_index [OF ok, unfolded index_ok_unat]
  show "Pool_place v p = Some (placed v p)"
    using ok ix by (simp add: Pool_place_def Let_def placed_def pool_ok_def)
  show "cap_of (placed v p) = cap_of p" "pop_of (placed v p) = pop_of p"
    by (simp_all add: placed_def f)
  show "count_of (placed v p) = Suc (count_of p)"
    using ixs n by (auto simp: placed_def f count_of_def split: if_splits)
  have live: "live (placed v p) i \<longleftrightarrow> live p i \<or> i = push_of p" if "i < cap_of p" for i
    using ixs n that by (auto simp: placed_def f count_of_def live_def split: if_splits)
  have "index_ok (inc_push_index (pool_index p))"
    using ixs n by (auto simp: index_ok_unat f count_of_def split: if_splits)
  with ok live ring(4) [OF ok] show "pool_ok (placed v p)"
    by (auto simp: pool_ok_def placed_def f nth_list_update split: if_splits)
qed

text \<open>The cell a push writes holds no live object, so no destructor call is skipped.\<close>

lemma placed_cell_free:
  assumes ok: "pool_ok p" and n: "count_of p < cap_of p"
  shows "buffer p ! push_of p = None"
proof -
  have "\<not> live p (push_of p)"
    using pool_ok_index [OF ok] n by (auto simp: index_ok_unat live_def count_of_def split: if_splits)
  then show ?thesis using ok ring(4) [OF ok] by (auto simp: pool_ok_def)
qed

lemma contents_placed:
  assumes ok: "pool_ok p" and n: "count_of p < cap_of p"
  shows "Pool_contents (placed v p) = Pool_contents p @ [v]"
proof (rule nth_equalityI)
  note pl = placed_ok [OF ok n]
  show "length (Pool_contents (placed v p)) = length (Pool_contents p @ [v])" by (simp add: pl)
  fix k
  assume "k < length (Pool_contents (placed v p))"
  then have k: "k \<le> count_of p" by (simp add: pl)
  then have pos: "(pop_of p + k) mod cap_of p = push_of p \<longleftrightarrow> k = count_of p"
    using ring_pos [OF ok, of k] ring_pos [OF ok n] ring(3,5) [OF ok] n by (auto split: if_splits)
  have "the (buffer (placed v p) ! ((pop_of p + k) mod cap_of p)) = (Pool_contents p @ [v]) ! k"
  proof (cases "k = count_of p")
    case True
    have "push_of p < length (buffer p)" using ring(4) [OF ok] ok by (simp add: pool_ok_def)
    moreover have "(pop_of p + k) mod cap_of p = push_of p" using pos True by simp
    ultimately show ?thesis using True by (simp add: placed_def nth_append)
  next
    case False
    then have "(pop_of p + k) mod cap_of p \<noteq> push_of p" using pos by simp
    with False k show ?thesis by (simp add: placed_def nth_append Pool_contents_def)
  qed
  with k show "Pool_contents (placed v p) ! k = (Pool_contents p @ [v]) ! k"
    by (simp add: Pool_contents_def [of "placed v p"] pl del: upt_Suc)
qed

text \<open>
  A push drops the oldest element whenever the elements wrap around the end of the buffer, and
  then there is always room for the new one.
\<close>

lemma Pool_push_correct:
  assumes ok: "pool_ok p"
  obtains p' where "Pool_push v p = Some p'" "pool_ok p'" "cap_of p' = cap_of p"
    "Pool_contents p' = (if wrapped p then tl (Pool_contents p) else Pool_contents p) @ [v]"
proof (cases "wrapped p")
  case True
  then have n: "0 < count_of p"
    using ring(3,6) [OF ok] by linarith
  have room: "count_of (popped p) < cap_of (popped p)"
    using n popped_ok [OF ok n] ring(2) [OF ok] by simp
  note q = popped_ok [OF ok n]
  from that [of "placed v (popped p)"] True n ok placed_ok [OF q(1) room, of v]
    contents_placed [OF q(1) room, of v] contents_popped [OF ok n] q
  show thesis by (simp add: Pool_push_def Pool_pop_nonempty)
next
  case False
  then have room: "count_of p < cap_of p" using ring [OF ok] by linarith
  from that [of "placed v p"] False placed_ok [OF ok room, of v] contents_placed [OF ok room, of v]
  show thesis by (simp add: Pool_push_def)
qed

lemma full_wrapped: "pool_ok p \<Longrightarrow> count_of p = cap_of p \<Longrightarrow> wrapped p"
  using ring(6) [of p] by simp

lemma new_Pool_ok:
  assumes "0 < cap"
  shows "pool_ok (new_Pool cap :: 'a pool)" "Pool_contents (new_Pool cap :: 'a pool) = []"
    "cap_of (new_Pool cap :: 'a pool) = unat cap" "\<not> wrapped (new_Pool cap :: 'a pool)"
  using assms
  by (auto simp: pool_ok_def new_Pool_def PoolIndex_reset_def index_ok_def live_def
      Pool_contents_def count_of_def)

section \<open>Observers\<close>

lemma Pool_front_correct:
  assumes ok: "pool_ok p" and n: "Pool_contents p \<noteq> []"
  shows "Pool_front p = Some (hd (Pool_contents p))"
proof -
  have n': "0 < count_of p" using n by (metis length_contents length_greater_0_conv)
  have "Pool_front p = Some (the (buffer p ! pop_of p))"
    unfolding Pool_front_def using cell_live [OF ok ring(3) [OF ok] live_pop [OF ok n']] by simp
  moreover have "hd (Pool_contents p) = the (buffer p ! pop_of p)"
    using n' ring(3) [OF ok] by (simp add: Pool_contents_def hd_map)
  ultimately show ?thesis by simp
qed

lemma unat_dec_index:
  "0 < unat (capacity pi) \<Longrightarrow> unat (dec_index pi i) = (if unat i = 0 then unat (capacity pi) - 1 else unat i - 1)"
  using unat_eq_0 [of i] unat_eq_0 [of "capacity pi"]
  by (cases "i = 0") (simp_all add: dec_index_def unat_sub_if')

lemma Pool_back_correct:
  assumes ok: "pool_ok p" and n: "Pool_contents p \<noteq> []"
  shows "Pool_back p = Some (last (Pool_contents p))"
proof -
  have n': "0 < count_of p" using n by (metis length_contents length_greater_0_conv)
  let ?i = "dec_index (pool_index p) (push_index (pool_index p))"
  have k: "count_of p - 1 < count_of p" "count_of p - 1 < cap_of p"
    using n' ring(2) [OF ok] by simp_all
  have push: "push_of p =
      (if pop_of p + count_of p < cap_of p then pop_of p + count_of p else pop_of p + count_of p - cap_of p)"
    using ring [OF ok] ring_mod [of "cap_of p" "pop_of p + count_of p"] by simp
  have "unat ?i = (pop_of p + (count_of p - 1)) mod cap_of p"
    unfolding unat_dec_index [OF ring(1) [OF ok]] ring_pos [OF ok k(2)] push
    using ring(1-3) [OF ok] n' by auto
  moreover have "cell p ?i = Some (the (buffer p ! unat ?i))"
    using live_ring [OF ok k(1)] calculation ring(1) [OF ok] by (intro cell_live [OF ok]) simp_all
  moreover have "last (Pool_contents p) = the (buffer p ! ((pop_of p + (count_of p - 1)) mod cap_of p))"
    using n' by (simp add: Pool_contents_def last_map)
  ultimately show ?thesis by (simp add: Pool_back_def)
qed

section \<open>A bounded queue\<close>

text \<open>
  What publishers, subscribers and filters rely on: a queue of bounded length that always
  accepts a message, at the price of at most the oldest one.
\<close>

locale bounded_queue =
  fixes ok :: "'q \<Rightarrow> bool"
    and bound :: "'q \<Rightarrow> nat"
    and contents :: "'q \<Rightarrow> 'a list"
    and push :: "'a \<Rightarrow> 'q \<Rightarrow> 'q option"
    and pop :: "'q \<Rightarrow> 'q option"
  assumes within: "ok q \<Longrightarrow> length (contents q) \<le> bound q"
    and push_accepts: "ok q \<Longrightarrow> \<exists>q'. push v q = Some q' \<and> ok q' \<and> bound q' = bound q \<and>
      (contents q' = contents q @ [v] \<or> contents q \<noteq> [] \<and> contents q' = tl (contents q) @ [v])"
    and pop_oldest: "ok q \<Longrightarrow> \<exists>q'. pop q = Some q' \<and> ok q' \<and> bound q' = bound q \<and>
      contents q' = tl (contents q)"
begin

primrec push_all :: "'a list \<Rightarrow> 'q \<Rightarrow> 'q option" where
  "push_all [] q = Some q"
| "push_all (v # vs) q = Option.bind (push v q) (push_all vs)"

lemma push_all_accepts:
  "ok q \<Longrightarrow> \<exists>q' d. push_all vs q = Some q' \<and> ok q' \<and> bound q' = bound q \<and>
     contents q' = drop d (contents q @ vs) \<and> d \<le> length vs"
proof (induction vs arbitrary: q)
  case (Cons v vs)
  obtain q1 where q1: "push v q = Some q1" "ok q1" "bound q1 = bound q"
      "contents q1 = contents q @ [v] \<or> contents q \<noteq> [] \<and> contents q1 = tl (contents q) @ [v]"
    using push_accepts [OF Cons.prems] by blast
  then obtain d where d: "contents q1 = drop d (contents q @ [v])" "d \<le> 1"
    by (metis append_is_Nil_conv drop0 drop_Suc le_numeral_extra(4) le0 One_nat_def tl_append2)
  obtain q2 d2 where q2: "push_all vs q1 = Some q2" "ok q2" "bound q2 = bound q1"
      "contents q2 = drop d2 (contents q1 @ vs)" "d2 \<le> length vs"
    using Cons.IH [OF q1(2)] by blast
  have "contents q1 @ vs = drop d ((contents q @ [v]) @ vs)"
    using d unfolding drop_append [of d "contents q @ [v]" vs] by simp
  then have "contents q2 = drop (d2 + d) (contents q @ v # vs)"
    using q2(4) by (simp only: drop_drop append_assoc append_Cons append_Nil)
  with q1 q2 d(2) show ?case by (auto intro!: exI [of _ "d2 + d"])
qed simp

text \<open>After a batch of pushes the newest message is at the end and the bound holds.\<close>

lemma push_all_newest:
  assumes "ok q" "vs \<noteq> []" "0 < bound q"
  shows "\<exists>q'. push_all vs q = Some q' \<and> length (contents q') \<le> bound q \<and>
    (contents q' \<noteq> [] \<longrightarrow> last (contents q') = last vs)"
proof -
  obtain q' d where "push_all vs q = Some q'" "ok q'" "bound q' = bound q"
      "contents q' = drop d (contents q @ vs)"
    using push_all_accepts [OF assms(1)] by blast
  with within [of q'] assms(2) show ?thesis by (auto simp: last_drop)
qed

end

interpretation pool: bounded_queue pool_ok cap_of Pool_contents Pool_push Pool_pop
proof
  fix q :: "'a pool" and v
  assume ok: "pool_ok q"
  show "length (Pool_contents q) \<le> cap_of q" using ring(2) [OF ok] by simp
  have "Pool_contents q \<noteq> []" if "wrapped q"
    using that ring(3,6) [OF ok] by (metis add.right_neutral leD length_contents list.size(3))
  then show "\<exists>q'. Pool_push v q = Some q' \<and> pool_ok q' \<and> cap_of q' = cap_of q \<and>
      (Pool_contents q' = Pool_contents q @ [v] \<or>
       Pool_contents q \<noteq> [] \<and> Pool_contents q' = tl (Pool_contents q) @ [v])"
    using Pool_push_correct [OF ok, of v] by (metis (full_types))
  show "\<exists>q'. Pool_pop q = Some q' \<and> pool_ok q' \<and> cap_of q' = cap_of q \<and>
      Pool_contents q' = tl (Pool_contents q)"
    using Pool_pop_correct [OF ok] by blast
qed

section \<open>Loops\<close>

lemma clear_loop_correct: "pool_ok p \<Longrightarrow> \<exists>p'. clear_loop p = Some p' \<and> Pool_contents p' = []"
proof (induction "count_of p" arbitrary: p)
  case 0
  then show ?case
    by (subst clear_loop.simps) (simp add: Pool_empty_count Pool_contents_def)
next
  case (Suc n)
  then have n: "0 < count_of p" by simp
  have "\<exists>p'. clear_loop (popped p) = Some p' \<and> Pool_contents p' = []"
    using Suc popped_ok [OF Suc.prems n] by (metis diff_Suc_1)
  then show ?case
    using Suc.prems n
    by (subst clear_loop.simps) (simp add: Pool_empty_count Pool_pop_nonempty)
qed

definition keep_last :: "nat \<Rightarrow> 'a list \<Rightarrow> 'a list" where
  "keep_last c xs = drop (length xs - c) xs"

lemma keep_last_full: "length xs = c \<Longrightarrow> xs \<noteq> [] \<Longrightarrow> keep_last c (xs @ [v]) = tl xs @ [v]"
  by (cases xs) (auto simp: keep_last_def)

text \<open>A pool that has only been pushed to: it is full once it wraps.\<close>

definition steady :: "'a pool \<Rightarrow> bool" where
  "steady p \<longleftrightarrow> (if wrapped p then count_of p = cap_of p else pop_of p = 0)"

lemma steady_push:
  assumes ok: "pool_ok q" and st: "steady q"
  obtains q' where "Pool_push v q = Some q'" "pool_ok q'" "steady q'" "cap_of q' = cap_of q"
    "Pool_contents q' = keep_last (cap_of q) (Pool_contents q @ [v])"
proof (cases "wrapped q")
  case True
  obtain q' where q': "Pool_push v q = Some q'" "pool_ok q'" "cap_of q' = cap_of q"
      "Pool_contents q' = tl (Pool_contents q) @ [v]"
    using Pool_push_correct [OF ok, of v] True by metis
  have n: "count_of q = cap_of q" "0 < cap_of q" using True st ring(1) [OF ok] by (simp_all add: steady_def)
  then have "Pool_contents q \<noteq> []" by (metis length_contents less_numeral_extra(3) list.size(3))
  then have "Pool_contents q' = keep_last (cap_of q) (Pool_contents q @ [v])"
    using q'(4) n by (simp add: keep_last_full)
  moreover have "length (Pool_contents q') = cap_of q'" unfolding q'(3,4) using n by simp
  then have "count_of q' = cap_of q'" by simp
  then have "steady q'" using full_wrapped [OF q'(2)] by (simp add: steady_def)
  ultimately show thesis using that q' by blast
next
  case False
  then have room: "count_of q < cap_of q" using ring [OF ok] by linarith
  let ?q = "placed v q"
  note pl = placed_ok [OF ok room, of v]
  have "steady ?q"
    using ring(6) [OF pl(2)] st False room by (auto simp: steady_def pl)
  with that [of ?q] False pl contents_placed [OF ok room, of v] room show thesis
    by (simp add: Pool_push_def keep_last_def)
qed

lemma keep_last_trans: "keep_last c (keep_last c xs @ ys) = keep_last c (xs @ ys)"
  by (cases "length xs \<le> c") (auto simp: keep_last_def add.commute)

lemma reserve_loop_correct:
  "pool_ok p \<Longrightarrow> pool_ok q \<Longrightarrow> steady q \<Longrightarrow>
     \<exists>q'. reserve_loop p q = Some q' \<and> pool_ok q' \<and> cap_of q' = cap_of q \<and>
       Pool_contents q' = keep_last (cap_of q) (Pool_contents q @ Pool_contents p)"
proof (induction "count_of p" arbitrary: p q)
  case 0
  then have "length (Pool_contents q) \<le> cap_of q" "Pool_contents p = []"
    using pool.within by (auto simp: Pool_contents_def)
  with 0 show ?case
    by (subst reserve_loop.simps) (simp add: Pool_empty_count keep_last_def)
next
  case (Suc n)
  then have n: "0 < count_of p" by simp
  obtain v vs where c: "Pool_contents p = v # vs"
    using n by (cases "Pool_contents p") (simp_all add: Pool_contents_def)
  obtain q1 where q1: "Pool_push v q = Some q1" "pool_ok q1" "steady q1" "cap_of q1 = cap_of q"
      "Pool_contents q1 = keep_last (cap_of q) (Pool_contents q @ [v])"
    using steady_push [OF Suc.prems(2,3)] by blast
  have p1: "pool_ok (popped p)" "Pool_contents (popped p) = vs" "n = count_of (popped p)"
    using popped_ok [OF Suc.prems(1) n] contents_popped [OF Suc.prems(1) n] c Suc(2) by simp_all
  have front: "Pool_front p = Some v" using Pool_front_correct [OF Suc.prems(1)] c by simp
  obtain q' where "reserve_loop (popped p) q1 = Some q'" "pool_ok q'" "cap_of q' = cap_of q1"
      "Pool_contents q' = keep_last (cap_of q1) (Pool_contents q1 @ vs)"
    using Suc(1) [OF p1(3,1) q1(2,3)] p1(2) by metis
  then show ?case
    using Suc.prems n front q1 c
    by (subst reserve_loop.simps)
      (simp add: Pool_empty_count Pool_pop_nonempty keep_last_trans)
qed

lemma Pool_reserve_correct:
  assumes "pool_ok p" "0 < cap"
  shows "\<exists>q. Pool_reserve cap p = Some q \<and> pool_ok q \<and> cap_of q = unat cap \<and>
    Pool_contents q = keep_last (unat cap) (Pool_contents p)"
proof -
  note new = new_Pool_ok [OF assms(2), where 'a = 'a]
  have "steady (new_Pool cap :: 'a pool)"
    using new(4) by (simp add: steady_def) (simp add: new_Pool_def PoolIndex_reset_def)
  from reserve_loop_correct [OF assms(1) new(1) this] show ?thesis
    using new(2,3) by (auto simp: Pool_reserve_def)
qed

section \<open>Iteration\<close>

lemma at_end:
  assumes "pool_ok q"
  shows "pool_index q = Iterator_end (pool_index q) \<longleftrightarrow> count_of q = 0"
proof
  assume "pool_index q = Iterator_end (pool_index q)"
  then have "pop_index (pool_index q) = push_index (pool_index q)" "\<not> wrapped q"
    unfolding Iterator_end_def by (metis pool_index.select_convs pool_index.update_convs pool_index.surjective)+
  then show "count_of q = 0" by (simp add: count_of_def)
next
  assume "count_of q = 0"
  then have "pop_index (pool_index q) = push_index (pool_index q)" "\<not> wrapped q"
    using pool_ok_index [OF assms] by (auto simp: count_of_def index_ok_unat word_unat_eq_iff split: if_splits)
  then show "pool_index q = Iterator_end (pool_index q)" by (simp add: Iterator_end_def)
qed

text \<open>
  Where an iterator stands is the index of the pool with the elements before it popped; the
  buffer it reads agrees with that pool on the live cells.
\<close>

lemma iterate_loop_correct:
  assumes "pool_ok q" "length (buffer p) = length (buffer q)"
    "\<And>i. i < cap_of q \<Longrightarrow> live q i \<Longrightarrow> buffer p ! i = buffer q ! i"
    "Iterator_end (pool_index q) = Iterator_end (pool_index p)"
  shows "iterate_loop p (pool_index q) acc = Some (acc @ Pool_contents q)"
  using assms
proof (induction "count_of q" arbitrary: q acc)
  case 0
  then have "pool_index q = Iterator_end (pool_index p)" "Pool_contents q = []"
    using at_end [of q] by (simp_all add: Pool_contents_def)
  then show ?case by (subst iterate_loop.simps) simp
next
  case (Suc n)
  have n: "0 < count_of q" using Suc(2) by simp
  obtain v vs where c: "Pool_contents q = v # vs"
    using n by (cases "Pool_contents q") (simp_all add: Pool_contents_def)
  note q1 = popped_ok [OF Suc.prems(1) n] and c1 = contents_popped [OF Suc.prems(1) n]
  have idx: "pool_index (popped q) = inc_pop_index (pool_index q)" by (simp add: popped_def)
  have size: "0 < uint (PoolIndex_size (pool_index q))"
    using n Pool_size_count [OF Suc.prems(1)] by (simp add: Pool_size_def uint_nat)
  have "cell p (pop_index (pool_index q)) = cell q (pop_index (pool_index q))"
    using Suc.prems(2,3) live_pop [OF Suc.prems(1) n] ring(3) [OF Suc.prems(1)]
    by (simp add: cell_def)
  then have deref: "Iterator_deref p (pool_index q) = Some v"
    using Pool_front_correct [OF Suc.prems(1)] c size by (simp add: Iterator_deref_def Pool_front_def)
  have end_eq: "Iterator_end (pool_index (popped q)) = Iterator_end (pool_index p)"
    using Suc.prems(4) unfolding idx by (simp add: Iterator_end_def inc_pop_index_def Let_def)
  have "buffer p ! i = buffer (popped q) ! i" if "i < cap_of (popped q)" "live (popped q) i" for i
  proof -
    have "buffer (popped q) ! i \<noteq> None" using q1(1) that by (simp add: pool_ok_def)
    then have "i \<noteq> pop_of q" "buffer (popped q) ! i = buffer q ! i" "buffer q ! i \<noteq> None"
      using that(1) q1(2) ring(3) [OF Suc.prems(1)] Suc.prems(1)
      by (auto simp: popped_def pool_ok_def nth_list_update split: if_splits)
    then show ?thesis using Suc.prems(1,3) that(1) q1(2) by (simp add: pool_ok_def)
  qed
  moreover have "length (buffer p) = length (buffer (popped q))"
    using Suc.prems(2) by (simp add: popped_def)
  ultimately have "iterate_loop p (pool_index (popped q)) (acc @ [v]) = Some ((acc @ [v]) @ vs)"
    using Suc(1) [of "popped q" "acc @ [v]"] q1 c1 c end_eq Suc(2) by simp
  moreover have "pool_index q \<noteq> Iterator_end (pool_index p)"
    using at_end [OF Suc.prems(1)] n Suc.prems(4) by simp
  ultimately show ?case
    using deref size c by (subst iterate_loop.simps) (simp add: Iterator_inc_def idx)
qed

section \<open>Properties\<close>

text \<open>
  C7.  A pool of bytes-sized capacity is a bounded first-in first-out queue: no operation on a
  well-formed pool is undefined and each keeps it well formed; \<open>push\<close> appends, dropping the
  oldest element exactly when the elements wrap around the end of the buffer, which they do
  whenever the pool is full; \<open>pop\<close> removes the oldest; \<open>front\<close>, \<open>back\<close> and \<open>size\<close> report the oldest
  and newest element and their number, which never exceeds the capacity.
\<close>

theorem Pool_is_bounded_queue:
  assumes "pool_ok p"
  shows "(\<exists>q. Pool_push v p = Some q \<and> pool_ok q \<and> Pool_capacity q = Pool_capacity p \<and>
            Pool_contents q = (if wrapped p then tl (Pool_contents p) else Pool_contents p) @ [v]) \<and>
         (\<exists>q. Pool_pop p = Some q \<and> pool_ok q \<and> Pool_capacity q = Pool_capacity p \<and>
            Pool_contents q = tl (Pool_contents p)) \<and>
         unat (Pool_size p) = length (Pool_contents p) \<and>
         length (Pool_contents p) \<le> unat (Pool_capacity p) \<and>
         (length (Pool_contents p) = unat (Pool_capacity p) \<longrightarrow> wrapped p) \<and>
         (Pool_contents p \<noteq> [] \<longrightarrow>
            Pool_front p = Some (hd (Pool_contents p)) \<and> Pool_back p = Some (last (Pool_contents p)))"
proof -
  have cap: "Pool_capacity q = Pool_capacity p" if "cap_of q = cap_of p" for q :: "'a pool"
    using that by (simp add: Pool_capacity_def word_unat_eq_iff)
  obtain q where q: "Pool_push v p = Some q" "pool_ok q" "cap_of q = cap_of p"
      "Pool_contents q = (if wrapped p then tl (Pool_contents p) else Pool_contents p) @ [v]"
    using Pool_push_correct [OF assms] by metis
  obtain r where r: "Pool_pop p = Some r" "pool_ok r" "Pool_contents r = tl (Pool_contents p)"
      "cap_of r = cap_of p"
    using Pool_pop_correct [OF assms] by metis
  have "length (Pool_contents p) = unat (Pool_capacity p) \<longrightarrow> wrapped p"
    using full_wrapped [OF assms] by (simp add: Pool_capacity_def)
  moreover have "length (Pool_contents p) \<le> unat (Pool_capacity p)"
    using ring(2) [OF assms] by (simp add: Pool_capacity_def)
  moreover have "unat (Pool_size p) = length (Pool_contents p)"
    using Pool_size_count [OF assms] by simp
  moreover have "Pool_contents p \<noteq> [] \<longrightarrow>
      Pool_front p = Some (hd (Pool_contents p)) \<and> Pool_back p = Some (last (Pool_contents p))"
    using Pool_front_correct [OF assms] Pool_back_correct [OF assms] by blast
  moreover have "\<exists>q. Pool_push v p = Some q \<and> pool_ok q \<and> Pool_capacity q = Pool_capacity p \<and>
      Pool_contents q = (if wrapped p then tl (Pool_contents p) else Pool_contents p) @ [v]"
    using q cap [OF q(3)] by blast
  moreover have "\<exists>q. Pool_pop p = Some q \<and> pool_ok q \<and> Pool_capacity q = Pool_capacity p \<and>
      Pool_contents q = tl (Pool_contents p)"
    using r cap [OF r(4)] by blast
  ultimately show ?thesis by blast
qed

definition demo_pool :: "nat pool" where
  "demo_pool = the (Option.bind (Pool_push 1 (new_Pool 2)) (Pool_push (2 :: nat)))"

theorem Pool_is_bounded_queue_witness:
  "\<exists>q. Pool_push 3 demo_pool = Some q \<and> Pool_contents q = [2, 3]"
proof -
  have "pool_ok demo_pool" "Pool_contents demo_pool = [1, 2]" "wrapped demo_pool"
    unfolding pool_ok_def by code_simp+
  then show ?thesis using Pool_is_bounded_queue [of demo_pool 3] by auto
qed

text \<open>
  \<open>reserve\<close> and \<open>clear\<close> always finish: \<open>reserve\<close> moves the elements to a pool of the new
  capacity and keeps the newest ones that fit, in order; \<open>clear\<close> leaves the null pool.
\<close>

theorem Pool_reserve_keeps_newest:
  assumes "pool_ok p" and "0 < cap"
  shows "(\<exists>q. Pool_reserve cap p = Some q \<and> pool_ok q \<and> Pool_capacity q = cap \<and>
            Pool_contents q = drop (length (Pool_contents p) - unat cap) (Pool_contents p)) \<and>
         Pool_clear p = Some \<lparr>buffer = [], pool_index = PoolIndex_reset\<rparr>"
proof -
  obtain q where "Pool_reserve cap p = Some q" "pool_ok q" "cap_of q = unat cap"
      "Pool_contents q = keep_last (unat cap) (Pool_contents p)"
    using Pool_reserve_correct [OF assms] by blast
  moreover have "Pool_clear p = Some \<lparr>buffer = [], pool_index = PoolIndex_reset\<rparr>"
    using clear_loop_correct [OF assms(1)] by (auto simp: Pool_clear_def)
  ultimately show ?thesis by (auto simp: Pool_capacity_def keep_last_def word_unat_eq_iff)
qed

theorem Pool_reserve_keeps_newest_witness:
  "\<exists>q. Pool_reserve 1 demo_pool = Some q \<and> Pool_contents q = [2]"
proof -
  have "pool_ok demo_pool" "Pool_contents demo_pool = [1, 2]"
    unfolding pool_ok_def by code_simp+
  then show ?thesis using Pool_reserve_keeps_newest [of demo_pool 1] by auto
qed

text \<open>
  Iterating from \<open>begin()\<close> to \<open>end()\<close> terminates, passes every check, and visits exactly the
  elements of the pool from the oldest to the newest.
\<close>

theorem Pool_iteration_complete:
  assumes "pool_ok p"
  shows "Pool_iterate p = Some (Pool_contents p)"
  unfolding Pool_iterate_def using iterate_loop_correct [OF assms, of p "[]"] by simp

theorem Pool_iteration_complete_witness: "Pool_iterate demo_pool = Some [1, 2]"
proof -
  have "pool_ok demo_pool" "Pool_contents demo_pool = [1, 2]"
    unfolding pool_ok_def by code_simp+
  then show ?thesis using Pool_iteration_complete [of demo_pool] by simp
qed

lemma Pool_index_operator_front:
  assumes "pool_ok p" "Pool_contents p \<noteq> []"
  shows "Pool_index_operator p idx = Some (hd (Pool_contents p))"
proof -
  have n: "0 < count_of p" using assms(2) by (metis length_contents length_greater_0_conv)
  then have "0 < uint (PoolIndex_size (pool_index p))"
    using Pool_size_count [OF assms(1)] by (simp add: Pool_size_def uint_nat)
  then show ?thesis
    using Pool_front_correct [OF assms]
    by (simp add: Pool_index_operator_def ConstIterator_plus_def Iterator_deref_def Pool_front_def)
qed

text \<open>
  \<open>at\<close> and \<open>operator[]\<close> return the oldest element whatever the index: the sum of
  \<open>ConstIterator::operator+\<close> is computed and dropped.
\<close>

theorem Pool_at_ignores_index:
  assumes "pool_ok p" and "unat idx < length (Pool_contents p)"
  shows "Pool_at p idx = At (Some (hd (Pool_contents p)))"
proof -
  have "idx < Pool_size p"
    using assms(2) Pool_size_count [OF assms(1)] by (simp add: word_less_nat_alt)
  moreover have "Pool_contents p \<noteq> []" using assms(2) by (auto simp del: length_contents)
  ultimately show ?thesis using Pool_index_operator_front [OF assms(1)] by (simp add: Pool_at_def linorder_not_le)
qed

theorem Pool_at_ignores_index_witness: "Pool_at demo_pool 1 = At (Some 1)"
proof -
  have "pool_ok demo_pool" "Pool_contents demo_pool = [1, 2]"
    unfolding pool_ok_def by code_simp+
  then show ?thesis using Pool_at_ignores_index [of demo_pool 1] by simp
qed

text \<open>
  A push on a pool that is not full can lose an element: with capacity 2, after two pushes
  and a pop there is one element and room for another, and the next push drops it.
\<close>

theorem Pool_push_loses_with_room:
  "\<exists>p q. pool_ok (p :: nat pool) \<and> length (Pool_contents p) < unat (Pool_capacity p) \<and>
     Pool_push 3 p = Some q \<and> Pool_contents p = [2] \<and> Pool_contents q = [3]"
proof -
  let ?p = "the (Pool_pop demo_pool)" and ?q = "the (Pool_push 3 (the (Pool_pop demo_pool)))"
  have "pool_ok ?p" unfolding pool_ok_def by code_simp
  moreover have "Pool_contents ?p = [2]" "Pool_capacity ?p = 2" "Pool_push 3 ?p = Some ?q" "Pool_contents ?q = [3]"
    by code_simp+
  ultimately show ?thesis by (intro exI [of _ ?p] exI [of _ ?q]) simp
qed

end
