(* ===== verification/Felicia_Publisher.thy ===== *)
theory Felicia_Publisher
  imports Felicia_Communication Felicia_Pool
begin

text \<open>
  \<open>core/communication/publisher.h\<close>.  All handlers run on the main thread: a call from another
  thread posts itself there.  Only \<open>Publish\<close> pushes on the caller's thread, under the lock, and posts
  \<open>SendMessage\<close>.  The master's reply, the completion of a send and the due tasks are events; what
  the program leaves undefined is the result \<open>None\<close>.

  The channels without a native header share one send buffer: \<open>SetSendBuffer\<close> copies a reference.
  A send in progress has copied only the bytes written so far out of that buffer.
\<close>

unbundle bit_operations_syntax

section \<open>State\<close>

record sending =
  total :: nat
  written :: bytes
  on_sent :: "nat option"

text \<open>
  A channel of the publisher.  For the statements below \<open>wire\<close> collects what each completed send put
  on the wire, and \<open>cut_short\<close> says that one of them left only the first part of its bytes there.
\<close>

record pub_channel =
  pc_type :: channel_type
  own_buffer :: channel_buffer
  pc_sending :: "sending option"
  has_receivers :: bool
  wire :: "bytes list"
  cut_short :: bool

datatype master_request =
    PublishTopicRequest topic_info settings "nat option"
  | UnpublishTopicRequest string "nat option"

datatype pub_reply = Requested log_or_callback | Sent channel_type log_or_callback

record 'm publisher =
  register_state :: register_state
  message_queue :: "'m pool option"
  topic_info :: topic_info
  pub_period :: int
  channels :: "pub_channel list"
  pub_buffer :: channel_buffer
  tasks :: "nat option list"
  requests :: "master_request list"
  replies :: "pub_reply list"

definition empty_topic_info :: topic_info where
  "empty_topic_info = \<lparr>ti_topic = [], ti_type_name = [], ti_impl_type = PROTOBUF,
     topic_source = \<lparr>channel_defs = []\<rparr>, ti_status = REGISTERED, ti_ros_node_name = []\<rparr>"

definition new_Publisher :: "'m publisher" where
  "new_Publisher = \<lparr>register_state = Unregistered, message_queue = None, topic_info = empty_topic_info,
     pub_period = 0, channels = [], pub_buffer = new_ChannelBuffer, tasks = [], requests = [], replies = []\<rparr>"

definition answer :: "nat option \<Rightarrow> status \<Rightarrow> 'm publisher \<Rightarrow> 'm publisher" where
  "answer cb s p = p\<lparr>replies := replies p @ [Requested (LogOrCallback cb s)]\<rparr>"

definition pub_Release :: "'m publisher \<Rightarrow> 'm publisher" where
  "pub_Release p = p\<lparr>channels := [], topic_info := empty_topic_info, message_queue := None\<rparr>"

section \<open>Registration\<close>

text \<open>
  \<open>Setup\<close>: what binding a channel of a type gives is a parameter.  When listening fails, the accept
  that follows regardless goes through the server's null socket.
\<close>

type_synonym bind_env = "channel_type \<Rightarrow> channel_def status_or"

datatype setup_result = SetupError status | SetupDone channel_def | NullSocket

definition pub_Setup :: "bind_env \<Rightarrow> channel_type option \<Rightarrow> setup_result" where
  "pub_Setup env chan =
     (case chan of
        None \<Rightarrow> SetupError (Aborted ''Failed to setup: channel is null.'')
      | Some ty \<Rightarrow>
          (case env ty of
             Inr d \<Rightarrow> SetupDone d
           | Inl s \<Rightarrow>
               if ty = CHANNEL_TYPE_TCP \<or> ty = CHANNEL_TYPE_WS \<or> ty = CHANNEL_TYPE_UDS then NullSocket
               else SetupError (EnsureNotOk s)))"

definition new_pub_channel :: "channel_type \<Rightarrow> pub_channel" where
  "new_pub_channel ty = \<lparr>pc_type = ty, own_buffer = new_ChannelBuffer, pc_sending = None,
     has_receivers = (ty = CHANNEL_TYPE_UDP \<or> ty = CHANNEL_TYPE_SHM), wire = [], cut_short = False\<rparr>"

text \<open>The loop over the bits of \<open>channel_types\<close>; \<open>channel_type\<close> is positive.\<close>

function setup_loop :: "bind_env \<Rightarrow> nat \<Rightarrow> nat \<Rightarrow> 'm publisher \<Rightarrow> (status \<times> 'm publisher) option" where
  "setup_loop env channel_types channel_type p =
     (if 0 < channel_type \<and> channel_type \<le> channel_types then
        if channel_type AND channel_types \<noteq> 0 then
          (case pub_Setup env (NewChannel (channel_type_of channel_type)) of
             NullSocket \<Rightarrow> None
           | SetupError s \<Rightarrow> Some (s, pub_Release (p\<lparr>register_state := Unregistered\<rparr>))
           | SetupDone d \<Rightarrow>
               setup_loop env channel_types (push_bit 1 channel_type)
                 (p\<lparr>topic_info := (topic_info p)\<lparr>topic_source :=
                      \<lparr>channel_defs = channel_defs (topic_source (topic_info p)) @ [d]\<rparr>\<rparr>,
                    channels := channels p @ [new_pub_channel (channel_type_of channel_type)]\<rparr>))
        else setup_loop env channel_types (push_bit 1 channel_type) p
      else Some (Status_OK, p))"
  by pat_completeness auto
termination
  by (relation "measure (\<lambda>(env, channel_types, channel_type, p). Suc channel_types - channel_type)")
    (auto simp: push_bit_eq_mult)

declare setup_loop.simps [simp del]

definition SetupAllChannels :: "bind_env \<Rightarrow> nat \<Rightarrow> 'm publisher \<Rightarrow> (status \<times> 'm publisher) option" where
  "SetupAllChannels env channel_types p =
     setup_loop env channel_types 1
       (p\<lparr>topic_info := (topic_info p)\<lparr>topic_source := \<lparr>channel_defs = []\<rparr>\<rparr>\<rparr>)"

text \<open>\<open>GetMessageTypeName\<close> and \<open>GetMessageImplType\<close> are what the message class gives.\<close>

record message_class =
  class_type_name :: string
  class_impl_type :: impl_type

definition RequestPublish ::
    "bind_env \<Rightarrow> message_class \<Rightarrow> string \<Rightarrow> nat \<Rightarrow> settings \<Rightarrow> nat option \<Rightarrow> 'm publisher \<Rightarrow> 'm publisher option" where
  "RequestPublish env cls topic channel_types st cb p =
     (if register_state p \<noteq> Unregistered then Some (answer cb (InvalidStateError (register_state p)) p)
      else (case SetupAllChannels env channel_types (p\<lparr>register_state := Registering\<rparr>) of
        None \<Rightarrow> None
      | Some (s, p1) \<Rightarrow>
          if \<not> Status_ok s then Some (answer cb s p1)
          else let ti = (topic_info p1)\<lparr>ti_topic := topic, ti_type_name := class_type_name cls,
                            ti_impl_type := class_impl_type cls\<rparr> in
            Some (p1\<lparr>topic_info := ti, requests := requests p1 @ [PublishTopicRequest ti st cb]\<rparr>)))"

definition set_channel_buffer :: "settings \<Rightarrow> pub_channel \<Rightarrow> pub_channel" where
  "set_channel_buffer st c =
     (if \<not> type_HasNativeHeader (pc_type c) then c
      else c\<lparr>own_buffer := (if is_dynamic_buffer st then SetDynamicBuffer True (own_buffer c)
                             else SetCapacity (buffer_size st) (own_buffer c))\<rparr>)"

definition OnPublishTopicAsync :: "settings \<Rightarrow> nat option \<Rightarrow> status \<Rightarrow> 'm publisher \<Rightarrow> 'm publisher" where
  "OnPublishTopicAsync st cb s p =
     (if register_state p \<noteq> Registering then answer cb (InvalidStateError (register_state p)) p
      else if \<not> Status_ok s then answer cb s (p\<lparr>register_state := Unregistered\<rparr>)
      else answer cb s
        (p\<lparr>pub_period := period st, message_queue := Some (new_Pool (queue_size st)),
           pub_buffer := (if is_dynamic_buffer st then SetDynamicBuffer True (pub_buffer p)
                          else SetCapacity (buffer_size st) (pub_buffer p)),
           channels := map (set_channel_buffer st) (channels p),
           register_state := Registered\<rparr>))"

definition RequestUnpublish :: "string \<Rightarrow> nat option \<Rightarrow> 'm publisher \<Rightarrow> 'm publisher" where
  "RequestUnpublish topic cb p =
     (if register_state p \<noteq> Registered then answer cb (InvalidStateError (register_state p)) p
      else p\<lparr>register_state := Unregistering, requests := requests p @ [UnpublishTopicRequest topic cb]\<rparr>)"

definition OnUnpublishTopicAsync :: "nat option \<Rightarrow> status \<Rightarrow> 'm publisher \<Rightarrow> 'm publisher" where
  "OnUnpublishTopicAsync cb s p =
     (if register_state p \<noteq> Unregistering then answer cb (InvalidStateError (register_state p)) p
      else if \<not> Status_ok s then answer cb s (p\<lparr>register_state := Registered\<rparr>)
      else answer cb s (pub_Release (p\<lparr>register_state := Unregistered\<rparr>)))"

section \<open>Sending\<close>

definition Publish :: "'m \<Rightarrow> nat option \<Rightarrow> 'm publisher \<Rightarrow> 'm publisher option" where
  "Publish message cb p =
     (case message_queue p of
        None \<Rightarrow> Some (p\<lparr>tasks := tasks p @ [cb]\<rparr>)
      | Some q \<Rightarrow> map_option (\<lambda>q'. p\<lparr>message_queue := Some q', tasks := tasks p @ [cb]\<rparr>) (Pool_push message q))"

definition ready :: "pub_channel \<Rightarrow> bool" where
  "ready c \<longleftrightarrow> pc_sending c = None \<and> has_receivers c"

definition OnSendMessage :: "nat option \<Rightarrow> channel_type \<Rightarrow> status \<Rightarrow> pub_reply" where
  "OnSendMessage cb ty s = Sent ty (LogOrCallback cb s)"

text \<open>The channel with its own buffer, as \<open>Channel::Send\<close> sees it.\<close>

definition as_channel :: "pub_channel \<Rightarrow> channel" where
  "as_channel c = \<lparr>send_buffer = own_buffer c, receive_buffer = new_ChannelBuffer,
     HasNativeHeader = type_HasNativeHeader (pc_type c),
     ShouldReceiveMessageWithHeader = type_ShouldReceiveMessageWithHeader (pc_type c)\<rparr>"

definition send_one ::
    "bytes \<Rightarrow> nat \<Rightarrow> nat option \<Rightarrow> pub_channel \<Rightarrow> (pub_channel \<times> pub_reply list) option" where
  "send_one content to_send cb c =
     (if \<not> ready c then Some (c, [])
      else if type_HasNativeHeader (pc_type c) then
        (case Channel_Send content (as_channel c) of
           None \<Rightarrow> None
         | Some (SendError s, ch) \<Rightarrow>
             Some (c\<lparr>own_buffer := send_buffer ch\<rparr>, [OnSendMessage cb (pc_type c) s])
         | Some (Sending bs, ch) \<Rightarrow>
             Some (c\<lparr>own_buffer := send_buffer ch,
                     pc_sending := Some \<lparr>total = length content, written = [], on_sent = cb\<rparr>\<rparr>, []))
      else Some (c\<lparr>pc_sending := Some \<lparr>total = to_send, written = [], on_sent = cb\<rparr>\<rparr>, []))"

fun send_loop ::
    "bytes \<Rightarrow> nat \<Rightarrow> nat option \<Rightarrow> pub_channel list \<Rightarrow> (pub_channel list \<times> pub_reply list) option" where
  "send_loop content to_send cb [] = Some ([], [])"
| "send_loop content to_send cb (c # cs) =
     (case send_one content to_send cb c of
        None \<Rightarrow> None
      | Some (c', rs) \<Rightarrow>
          map_option (\<lambda>(cs', rs'). (c' # cs', rs @ rs')) (send_loop content to_send cb cs))"

definition in_flight :: "pub_channel \<Rightarrow> bool" where
  "in_flight c \<longleftrightarrow> \<not> type_HasNativeHeader (pc_type c) \<and> pc_sending c \<noteq> None"

text \<open>
  The message is framed in the shared buffer.  Growing that buffer while a send of it is in
  flight leaves the send with a dangling pointer.
\<close>

definition send_serialized :: "bytes \<Rightarrow> nat option \<Rightarrow> 'm publisher \<Rightarrow> 'm publisher option" where
  "send_serialized content cb p =
     (let to_send = header_size + length content;
          (ok, b) = SetEnoughCapacityIfDynamic (sint (to_int32 to_send)) (pub_buffer p) in
      if \<not> ok then Some p
      else if length (cb_data b) \<noteq> length (cb_data (pub_buffer p)) \<and> list_ex in_flight (channels p) then None
      else (case write_at 0 (AttachHeader content) b of
        None \<Rightarrow> None
      | Some b' \<Rightarrow>
          map_option (\<lambda>(cs, rs). p\<lparr>pub_buffer := b', channels := cs, replies := replies p @ rs\<rparr>)
            (send_loop content to_send cb (channels p))))"

definition Publisher_SendMessage ::
    "('m \<Rightarrow> message_io_error + bytes) \<Rightarrow> nat option \<Rightarrow> 'm publisher \<Rightarrow> 'm publisher option" where
  "Publisher_SendMessage Serialize cb p =
     (if \<not> list_ex ready (channels p) then Some p
      else (case message_queue p of
        None \<Rightarrow> Some p
      | Some q \<Rightarrow>
          if Pool_empty q then Some p
          else do {
            m \<leftarrow> Pool_front q;
            q' \<leftarrow> Pool_pop q;
            p' \<leftarrow> (case Serialize m of
                     Inl err \<Rightarrow> Some (p\<lparr>message_queue := Some q'\<rparr>)
                   | Inr content \<Rightarrow> send_serialized content cb (p\<lparr>message_queue := Some q'\<rparr>));
            Some (p'\<lparr>tasks := tasks p' @ [cb]\<rparr>)
          }))"


section \<open>Events\<close>

text \<open>
  What happens to a publisher: calls of its user, replies of the master, due tasks, and the
  progress of its channels, each of which copies bytes of its send out of the buffer the send reads
  and completes a send with a status.  The machine also records, for the statements below, the
  messages that were published while there was a queue and the messages taken out of it to be sent.
\<close>

datatype 'm pub_event =
    CallPublish bind_env string nat settings "nat option"
  | CallUnpublish string "nat option"
  | MasterReplies status
  | CallSend 'm "nat option"
  | RunTask nat
  | ChannelWrites nat nat
  | ChannelDone nat status
  | SetReceivers nat bool

record 'm pub_machine =
  pub :: "'m publisher"
  published :: "'m list"
  taken :: "'m list"

definition master_replies :: "status \<Rightarrow> 'm publisher \<Rightarrow> 'm publisher" where
  "master_replies s p =
     (case requests p of
        [] \<Rightarrow> p
      | PublishTopicRequest ti st cb # rs \<Rightarrow> OnPublishTopicAsync st cb s (p\<lparr>requests := rs\<rparr>)
      | UnpublishTopicRequest topic cb # rs \<Rightarrow> OnUnpublishTopicAsync cb s (p\<lparr>requests := rs\<rparr>))"

definition send_source :: "'m publisher \<Rightarrow> pub_channel \<Rightarrow> bytes" where
  "send_source p c = cb_data (if type_HasNativeHeader (pc_type c) then own_buffer c else pub_buffer p)"

definition write_some :: "bytes \<Rightarrow> nat \<Rightarrow> pub_channel \<Rightarrow> pub_channel" where
  "write_some src k c =
     (case pc_sending c of
        None \<Rightarrow> c
      | Some sd \<Rightarrow>
          c\<lparr>pc_sending := Some (sd\<lparr>written := written sd @ take k (drop (length (written sd)) (take (total sd) src))\<rparr>)\<rparr>)"

definition channel_writes :: "nat \<Rightarrow> nat \<Rightarrow> 'm publisher \<Rightarrow> 'm publisher" where
  "channel_writes i k p =
     (if i < length (channels p)
      then p\<lparr>channels := (channels p)[i := write_some (send_source p (channels p ! i)) k (channels p ! i)]\<rparr>
      else p)"

text \<open>
  A send completes with any status at any time: \<open>Socket::WriteRepeating\<close> does not resume a write that
  had to wait, so the callback is told OK however little of the bytes went out, and a failed write
  can have written a part as well.  What was written stays on the wire.
\<close>

definition send_done :: "status \<Rightarrow> pub_channel \<Rightarrow> pub_channel \<times> pub_reply list" where
  "send_done s c =
     (case pc_sending c of
        None \<Rightarrow> (c, [])
      | Some sd \<Rightarrow>
          (c\<lparr>pc_sending := None, wire := (if written sd = [] then wire c else wire c @ [written sd]),
             cut_short := (cut_short c \<or> written sd \<noteq> [] \<and> length (written sd) \<noteq> total sd)\<rparr>,
           [OnSendMessage (on_sent sd) (pc_type c) s]))"

definition channel_done :: "nat \<Rightarrow> status \<Rightarrow> 'm publisher \<Rightarrow> 'm publisher" where
  "channel_done i s p =
     (if i < length (channels p)
      then let (c, rs) = send_done s (channels p ! i) in
        p\<lparr>channels := (channels p)[i := c], replies := replies p @ rs\<rparr>
      else p)"

definition set_receivers :: "nat \<Rightarrow> bool \<Rightarrow> 'm publisher \<Rightarrow> 'm publisher" where
  "set_receivers i b p =
     (if i < length (channels p)
      then p\<lparr>channels := (channels p)[i := (channels p ! i)\<lparr>has_receivers := b\<rparr>]\<rparr> else p)"

text \<open>The message a \<open>SendMessage\<close> task takes.\<close>

definition next_message :: "'m publisher \<Rightarrow> 'm list" where
  "next_message p =
     (case message_queue p of
        None \<Rightarrow> []
      | Some q \<Rightarrow>
          if \<not> list_ex ready (channels p) \<or> Pool_empty q then []
          else (case Pool_front q of None \<Rightarrow> [] | Some m \<Rightarrow> [m]))"

definition remove_nth :: "nat \<Rightarrow> 'a list \<Rightarrow> 'a list" where
  "remove_nth i xs = take i xs @ drop (Suc i) xs"

fun pub_exec ::
    "('m \<Rightarrow> message_io_error + bytes) \<Rightarrow> message_class \<Rightarrow> 'm pub_event \<Rightarrow> 'm pub_machine \<Rightarrow> 'm pub_machine option" where
  "pub_exec Serialize cls (CallPublish env topic types st cb) m =
     map_option (\<lambda>p. m\<lparr>pub := p\<rparr>) (RequestPublish env cls topic types st cb (pub m))"
| "pub_exec Serialize cls (CallUnpublish topic cb) m = Some (m\<lparr>pub := RequestUnpublish topic cb (pub m)\<rparr>)"
| "pub_exec Serialize cls (MasterReplies s) m = Some (m\<lparr>pub := master_replies s (pub m)\<rparr>)"
| "pub_exec Serialize cls (CallSend message cb) m =
     map_option (\<lambda>p. m\<lparr>pub := p,
        published := published m @ (if message_queue (pub m) = None then [] else [message])\<rparr>)
       (Publish message cb (pub m))"
| "pub_exec Serialize cls (RunTask j) m =
     (if j < length (tasks (pub m)) then
        let p = (pub m)\<lparr>tasks := remove_nth j (tasks (pub m))\<rparr> in
        map_option (\<lambda>p'. m\<lparr>pub := p', taken := taken m @ next_message p\<rparr>)
          (Publisher_SendMessage Serialize (tasks (pub m) ! j) p)
      else Some m)"
| "pub_exec Serialize cls (ChannelWrites i k) m = Some (m\<lparr>pub := channel_writes i k (pub m)\<rparr>)"
| "pub_exec Serialize cls (ChannelDone i s) m = Some (m\<lparr>pub := channel_done i s (pub m)\<rparr>)"
| "pub_exec Serialize cls (SetReceivers i b) m = Some (m\<lparr>pub := set_receivers i b (pub m)\<rparr>)"

definition new_pub_machine :: "'m pub_machine" where
  "new_pub_machine = \<lparr>pub = new_Publisher, published = [], taken = []\<rparr>"

primrec pub_run ::
    "('m \<Rightarrow> message_io_error + bytes) \<Rightarrow> message_class \<Rightarrow> 'm pub_event list \<Rightarrow> 'm pub_machine \<Rightarrow> 'm pub_machine option" where
  "pub_run Serialize cls [] m = Some m"
| "pub_run Serialize cls (ev # evs) m = Option.bind (pub_exec Serialize cls ev m) (pub_run Serialize cls evs)"

inductive pub_step ::
    "('m \<Rightarrow> message_io_error + bytes) \<Rightarrow> message_class \<Rightarrow> 'm pub_machine \<Rightarrow> 'm pub_machine \<Rightarrow> bool"
  for Serialize :: "'m \<Rightarrow> message_io_error + bytes" and cls :: message_class where
  event: "pub_exec Serialize cls ev m = Some m' \<Longrightarrow> pub_step Serialize cls m m'"

inductive_cases pub_stepE: "pub_step Serialize cls m m'"

abbreviation pub_reachable ::
    "('m \<Rightarrow> message_io_error + bytes) \<Rightarrow> message_class \<Rightarrow> 'm pub_machine \<Rightarrow> bool" where
  "pub_reachable Serialize cls \<equiv> reachable (\<lambda>m. m = new_pub_machine) (pub_step Serialize cls)"

lemma pub_run_reachable:
  "pub_run Serialize cls evs m = Some m' \<Longrightarrow> pub_reachable Serialize cls m \<Longrightarrow> pub_reachable Serialize cls m'"
proof (induction evs arbitrary: m)
  case (Cons ev evs)
  then obtain m1 where "pub_exec Serialize cls ev m = Some m1" "pub_run Serialize cls evs m1 = Some m'"
    by (auto simp: bind_eq_Some_conv)
  with Cons show ?case by (blast intro: reachable.move pub_step.event)
qed simp

end
