(* ===== verification/Felicia_PublisherProps.thy ===== *)
theory Felicia_PublisherProps
  imports Felicia_Publisher
begin

text \<open>
  Properties of the publisher: its registration with the master, what reaches the wire of a
  channel, and what goes wrong with several channels on one send buffer.
\<close>

section \<open>Registration\<close>

definition registration_ok :: "'m publisher \<Rightarrow> bool" where
  "registration_ok p \<longleftrightarrow>
     (case register_state p of
        Registering \<Rightarrow> message_queue p = None \<and> (\<exists>ti st cb. requests p = [PublishTopicRequest ti st cb])
      | Registered \<Rightarrow> message_queue p \<noteq> None \<and> requests p = []
      | Unregistering \<Rightarrow> message_queue p \<noteq> None \<and> (\<exists>topic cb. requests p = [UnpublishTopicRequest topic cb])
      | Unregistered \<Rightarrow> message_queue p = None \<and> requests p = [])"

definition idle_unless_queue :: "'m publisher \<Rightarrow> bool" where
  "idle_unless_queue p \<longleftrightarrow> (message_queue p = None \<longrightarrow> (\<forall>c \<in> set (channels p). pc_sending c = None))"

lemma pub_Release_simps [simp]:
  "register_state (pub_Release p) = register_state p" "message_queue (pub_Release p) = None"
  "channels (pub_Release p) = []" "requests (pub_Release p) = requests p"
  "tasks (pub_Release p) = tasks p" "pub_buffer (pub_Release p) = pub_buffer p"
  by (simp_all add: pub_Release_def)

lemma answer_simps [simp]:
  "register_state (answer cb s p) = register_state p" "message_queue (answer cb s p) = message_queue p"
  "channels (answer cb s p) = channels p" "requests (answer cb s p) = requests p"
  "tasks (answer cb s p) = tasks p" "pub_buffer (answer cb s p) = pub_buffer p"
  by (simp_all add: answer_def)

lemma pub_Setup_error: "pub_Setup env ch = SetupError e \<Longrightarrow> \<not> Status_ok e"
  by (auto simp: pub_Setup_def split: option.splits sum.splits if_splits)

text \<open>The loop over the channel types either fails and releases everything, or adds idle channels.\<close>

lemma setup_loop_result:
  "setup_loop env types ty p = Some (s, p') \<Longrightarrow>
     requests p' = requests p \<and> tasks p' = tasks p \<and> pub_buffer p' = pub_buffer p \<and>
     (if Status_ok s
      then register_state p' = register_state p \<and> message_queue p' = message_queue p \<and>
        (\<exists>cs ds. channels p' = channels p @ cs \<and> (\<forall>c \<in> set cs. \<exists>t. c = new_pub_channel t) \<and>
           length ds = length cs \<and>
           channel_defs (topic_source (topic_info p')) = channel_defs (topic_source (topic_info p)) @ ds)
      else register_state p' = Unregistered \<and> message_queue p' = None \<and> channels p' = [])"
  (is "_ \<Longrightarrow> ?R p p'")
proof (induction env types ty p rule: setup_loop.induct)
  case (1 env types ty p)
  consider (stop) "\<not> (0 < ty \<and> ty \<le> types)" | (skip) "0 < ty \<and> ty \<le> types" "ty AND types = 0"
    | (set) "0 < ty \<and> ty \<le> types" "ty AND types \<noteq> 0" by blast
  then show ?case
  proof cases
    case stop
    with "1.prems" show ?thesis by (auto simp: setup_loop.simps [of env types ty p])
  next
    case skip
    then have "setup_loop env types ty p = setup_loop env types (push_bit 1 ty) p"
      by (simp add: setup_loop.simps [of env types ty p])
    with 1 skip show ?thesis by metis
  next
    case set
    show ?thesis
    proof (cases "pub_Setup env (NewChannel (channel_type_of ty))")
      case (SetupError e)
      moreover have "\<not> Status_ok e" using SetupError by (rule pub_Setup_error)
      ultimately show ?thesis using set "1.prems"
        by (auto simp: setup_loop.simps [of env types ty p])
    next
      case (SetupDone d)
      let ?p = "p\<lparr>topic_info := (topic_info p)\<lparr>topic_source :=
          \<lparr>channel_defs = channel_defs (topic_source (topic_info p)) @ [d]\<rparr>\<rparr>,
          channels := channels p @ [new_pub_channel (channel_type_of ty)]\<rparr>"
      have "setup_loop env types (push_bit 1 ty) ?p = Some (s, p')"
        using set SetupDone "1.prems" by (simp add: setup_loop.simps [of env types ty p])
      with "1.IH"(1) [OF set SetupDone] have R: "?R ?p p'" by metis
      show ?thesis
      proof (cases "Status_ok s")
        case True
        with R obtain cs ds where "channels p' = channels p @ new_pub_channel (channel_type_of ty) # cs"
          "\<forall>c \<in> set cs. \<exists>t. c = new_pub_channel t" "length ds = length cs"
          "channel_defs (topic_source (topic_info p')) = channel_defs (topic_source (topic_info p)) @ d # ds"
          by auto
        with R True show ?thesis
          by (auto intro!: exI [of _ "new_pub_channel (channel_type_of ty) # cs"] exI [of _ "d # ds"])
      qed (use R in simp)
    next
      case NullSocket
      with set "1.prems" show ?thesis by (simp add: setup_loop.simps [of env types ty p])
    qed
  qed
qed

lemma RequestPublish_cases:
  assumes "RequestPublish env cls topic types st cb p = Some p'"
  obtains (refused) "register_state p \<noteq> Unregistered" "p' = answer cb (InvalidStateError (register_state p)) p"
    | (failed) s p1 where "register_state p = Unregistered" "p' = answer cb s p1" "\<not> Status_ok s"
        "register_state p1 = Unregistered" "message_queue p1 = None" "channels p1 = []"
        "requests p1 = requests p" "pub_buffer p1 = pub_buffer p"
    | (sent) cs ti where "register_state p = Unregistered" "register_state p' = Registering"
        "message_queue p' = message_queue p" "channels p' = channels p @ cs"
        "\<forall>c \<in> set cs. \<exists>t. c = new_pub_channel t" "requests p' = requests p @ [PublishTopicRequest ti st cb]"
        "topic_info p' = ti" "length (channel_defs (topic_source ti)) = length cs"
        "pub_buffer p' = pub_buffer p"
proof (cases "register_state p = Unregistered")
  case False
  with assms that(1) show thesis by (simp add: RequestPublish_def)
next
  case True
  then obtain s p1 where s: "SetupAllChannels env types (p\<lparr>register_state := Registering\<rparr>) = Some (s, p1)"
      and p': "p' = (if \<not> Status_ok s then answer cb s p1 else
        let ti = (topic_info p1)\<lparr>ti_topic := topic, ti_type_name := class_type_name cls,
              ti_impl_type := class_impl_type cls\<rparr> in
        p1\<lparr>topic_info := ti, requests := requests p1 @ [PublishTopicRequest ti st cb]\<rparr>)"
    using assms by (auto simp: RequestPublish_def Let_def split: option.splits if_splits)
  note r = setup_loop_result [OF s [unfolded SetupAllChannels_def]]
  show thesis
  proof (cases "Status_ok s")
    case ok: True
    with r obtain cs ds where "channels p1 = channels p @ cs" "\<forall>c \<in> set cs. \<exists>t. c = new_pub_channel t"
        "length ds = length cs" "channel_defs (topic_source (topic_info p1)) = ds"
      by auto
    with that(3) r True ok p' show thesis by (simp add: Let_def)
  next
    case False
    with that(2) r True p' show thesis by simp
  qed
qed

text \<open>A task changes the channels, the queue's contents and the buffer only.\<close>

lemma send_serialized_fields:
  "send_serialized content cb p = Some p' \<Longrightarrow>
     register_state p' = register_state p \<and> requests p' = requests p \<and> message_queue p' = message_queue p"
  by (auto simp: send_serialized_def Let_def split: prod.splits if_splits option.splits)

lemma SendMessage_cases:
  assumes "Publisher_SendMessage Serialize cb p = Some p'"
  obtains (nothing) "p' = p" "next_message p = []"
    | (took) q msg q' p1 where "message_queue p = Some q" "Pool_front q = Some msg" "Pool_pop q = Some q'"
        "\<not> Pool_empty q" "list_ex ready (channels p)" "next_message p = [msg]" "p' = p1\<lparr>tasks := tasks p1 @ [cb]\<rparr>"
        "case Serialize msg of Inl err \<Rightarrow> p1 = p\<lparr>message_queue := Some q'\<rparr>
         | Inr content \<Rightarrow> send_serialized content cb (p\<lparr>message_queue := Some q'\<rparr>) = Some p1"
proof (cases "\<not> list_ex ready (channels p) \<or> message_queue p = None \<or> Pool_empty (the (message_queue p))")
  case True
  with assms that(1) show thesis
    by (auto simp: Publisher_SendMessage_def next_message_def split: option.splits if_splits)
next
  case False
  then obtain q where q: "message_queue p = Some q" "\<not> Pool_empty q" "list_ex ready (channels p)" by auto
  with assms obtain msg q' p1 where "Pool_front q = Some msg" "Pool_pop q = Some q'"
      "p' = p1\<lparr>tasks := tasks p1 @ [cb]\<rparr>"
      "(case Serialize msg of Inl err \<Rightarrow> Some (p\<lparr>message_queue := Some q'\<rparr>)
         | Inr content \<Rightarrow> send_serialized content cb (p\<lparr>message_queue := Some q'\<rparr>)) = Some p1"
    by (simp add: Publisher_SendMessage_def bind_eq_Some_conv) blast
  with q that(2) show thesis by (fastforce simp: next_message_def split: sum.splits)
qed

lemma SendMessage_fields:
  assumes "Publisher_SendMessage Serialize cb p = Some p'"
  shows "register_state p' = register_state p \<and> requests p' = requests p \<and>
     (message_queue p' = None \<longleftrightarrow> message_queue p = None) \<and> (message_queue p = None \<longrightarrow> p' = p)"
  using assms
proof (cases rule: SendMessage_cases)
  case (took q msg q' p1)
  then show ?thesis
    by (cases "Serialize msg") (auto dest!: send_serialized_fields)
qed auto

lemma registration_ok_cong:
  "register_state p' = register_state p \<Longrightarrow> requests p' = requests p \<Longrightarrow>
     (message_queue p' = None \<longleftrightarrow> message_queue p = None) \<Longrightarrow> registration_ok p' = registration_ok p"
  by (simp add: registration_ok_def split: register_state.split)

lemma channel_writes_fields [simp]:
  "register_state (channel_writes i k p) = register_state p" "requests (channel_writes i k p) = requests p"
  "message_queue (channel_writes i k p) = message_queue p" "tasks (channel_writes i k p) = tasks p"
  "pub_buffer (channel_writes i k p) = pub_buffer p"
  by (simp_all add: channel_writes_def)

lemma channel_done_fields [simp]:
  "register_state (channel_done i s p) = register_state p" "requests (channel_done i s p) = requests p"
  "message_queue (channel_done i s p) = message_queue p" "tasks (channel_done i s p) = tasks p"
  "pub_buffer (channel_done i s p) = pub_buffer p"
  by (simp_all add: channel_done_def Let_def split: prod.splits)

lemma set_receivers_fields [simp]:
  "register_state (set_receivers i b p) = register_state p" "requests (set_receivers i b p) = requests p"
  "message_queue (set_receivers i b p) = message_queue p" "tasks (set_receivers i b p) = tasks p"
  "pub_buffer (set_receivers i b p) = pub_buffer p"
  by (simp_all add: set_receivers_def)

lemma update_idle:
  "\<forall>c \<in> set cs. pc_sending c = None \<Longrightarrow> i < length cs \<Longrightarrow> pc_sending (f (cs ! i)) = None \<Longrightarrow>
     \<forall>c \<in> set (cs[i := f (cs ! i)]). pc_sending c = None"
  using set_update_subset_insert [of cs i "f (cs ! i)"] by blast

lemma channel_events_idle:
  assumes "\<forall>c \<in> set (channels p). pc_sending c = None"
  shows "\<forall>c \<in> set (channels (channel_writes i k p)). pc_sending c = None"
    "\<forall>c \<in> set (channels (channel_done i s p)). pc_sending c = None"
    "\<forall>c \<in> set (channels (set_receivers i b p)). pc_sending c = None"
proof -
  have at: "i < length (channels p) \<Longrightarrow> pc_sending (channels p ! i) = None" using assms by simp
  show "\<forall>c \<in> set (channels (channel_writes i k p)). pc_sending c = None"
    using assms at update_idle [OF assms, of i "write_some (send_source p (channels p ! i)) k"]
    by (simp add: channel_writes_def write_some_def)
  show "\<forall>c \<in> set (channels (channel_done i s p)). pc_sending c = None"
    using assms at by (simp add: channel_done_def send_done_def)
  show "\<forall>c \<in> set (channels (set_receivers i b p)). pc_sending c = None"
    using assms at update_idle [OF assms, of i "\<lambda>c. c\<lparr>has_receivers := b\<rparr>"] by (simp add: set_receivers_def)
qed

definition pub_ok :: "'m pub_machine \<Rightarrow> bool" where
  "pub_ok m \<longleftrightarrow> registration_ok (pub m) \<and> idle_unless_queue (pub m)"

lemma new_pub_channel_idle [simp]:
  "pc_sending (new_pub_channel t) = None" "wire (new_pub_channel t) = []" "\<not> cut_short (new_pub_channel t)"
  by (simp_all add: new_pub_channel_def)

lemma RequestPublish_ok:
  assumes "RequestPublish env cls topic types st cb p = Some p'" "registration_ok p" "idle_unless_queue p"
  shows "registration_ok p' \<and> idle_unless_queue p'"
  using assms(1)
proof (cases rule: RequestPublish_cases)
  case (sent cs ti)
  with assms(2,3) show ?thesis
    by (auto simp: registration_ok_def idle_unless_queue_def dest!: bspec)
next
  case refused
  with assms(2,3) registration_ok_cong [of p' p] show ?thesis by (simp add: idle_unless_queue_def)
next
  case (failed s p1)
  with assms(2) show ?thesis by (simp add: registration_ok_def idle_unless_queue_def)
qed

lemma master_replies_ok:
  assumes "registration_ok p" "idle_unless_queue p"
  shows "registration_ok (master_replies s p) \<and> idle_unless_queue (master_replies s p)"
  using assms
  by (auto simp: registration_ok_def idle_unless_queue_def master_replies_def OnPublishTopicAsync_def
      OnUnpublishTopicAsync_def set_channel_buffer_def split: register_state.splits list.splits master_request.splits)

lemma pub_exec_ok:
  assumes "pub_exec Serialize cls ev m = Some m'" "pub_ok m"
  shows "pub_ok m'"
proof (cases ev)
  case (CallPublish env topic types st cb)
  with assms RequestPublish_ok show ?thesis by (fastforce simp: pub_ok_def)
next
  case (CallUnpublish topic cb)
  with assms show ?thesis
    by (auto simp: pub_ok_def RequestUnpublish_def registration_ok_def idle_unless_queue_def
        split: register_state.splits)
next
  case (MasterReplies s)
  with assms master_replies_ok [of "pub m" s] show ?thesis by (auto simp: pub_ok_def)
next
  case (CallSend message cb)
  with assms obtain p' where p': "Publish message cb (pub m) = Some p'" "pub m' = p'" by auto
  have "register_state p' = register_state (pub m)" "requests p' = requests (pub m)"
      "message_queue p' = None \<longleftrightarrow> message_queue (pub m) = None" "channels p' = channels (pub m)"
    using p'(1) by (auto simp: Publish_def split: option.splits)
  with p'(2) assms(2) registration_ok_cong show ?thesis by (metis idle_unless_queue_def pub_ok_def)
next
  case (RunTask j)
  show ?thesis
  proof (cases "j < length (tasks (pub m))")
    case True
    let ?p = "(pub m)\<lparr>tasks := remove_nth j (tasks (pub m))\<rparr>"
    from RunTask True assms(1) obtain p' where p': "Publisher_SendMessage Serialize (tasks (pub m) ! j) ?p = Some p'"
        "pub m' = p'" by (auto simp: Let_def)
    note f = SendMessage_fields [OF p'(1)]
    then have "registration_ok p' = registration_ok (pub m)"
      by (intro registration_ok_cong) simp_all
    with f p'(2) assms(2) show ?thesis by (auto simp: pub_ok_def idle_unless_queue_def)
  qed (use RunTask assms in simp)
next
  case (ChannelWrites i k)
  with assms channel_events_idle(1) [of "pub m" i k] registration_ok_cong [of "channel_writes i k (pub m)" "pub m"]
  show ?thesis by (auto simp: pub_ok_def idle_unless_queue_def)
next
  case (ChannelDone i s)
  with assms channel_events_idle(2) [of "pub m" i s] registration_ok_cong [of "channel_done i s (pub m)" "pub m"]
  show ?thesis by (auto simp: pub_ok_def idle_unless_queue_def)
next
  case (SetReceivers i b)
  with assms channel_events_idle(3) [of "pub m" i b] registration_ok_cong [of "set_receivers i b (pub m)" "pub m"]
  show ?thesis by (auto simp: pub_ok_def idle_unless_queue_def)
qed

interpretation publisher: inductive_invariant "\<lambda>m. m = new_pub_machine" "pub_step Serialize cls" pub_ok
  for Serialize cls
proof
  show "m = new_pub_machine \<Longrightarrow> pub_ok m" for m :: "'a pub_machine"
    by (simp add: new_pub_machine_def pub_ok_def new_Publisher_def registration_ok_def idle_unless_queue_def)
  show "pub_ok m \<Longrightarrow> pub_step Serialize cls m m' \<Longrightarrow> pub_ok m'" for m m'
    by (auto elim!: pub_stepE intro: pub_exec_ok)
qed

section \<open>One channel\<close>

text \<open>
  A publisher that never has more than one channel, and that one with headers of felicia's own:
  events that keep to this, open their sockets, ask for a queue and publish messages whose size the
  header can hold.
\<close>

definition lone :: "'m publisher \<Rightarrow> bool" where
  "lone p \<longleftrightarrow> length (channels p) \<le> 1 \<and> (\<forall>c \<in> set (channels p). \<not> type_HasNativeHeader (pc_type c))"

definition binds :: "bind_env \<Rightarrow> bool" where
  "binds env \<longleftrightarrow> (\<forall>ty. pub_Setup env (Some ty) \<noteq> NullSocket)"

definition message_fits :: "('m \<Rightarrow> message_io_error + bytes) \<Rightarrow> 'm \<Rightarrow> bool" where
  "message_fits Serialize msg \<longleftrightarrow> (\<forall>content. Serialize msg = Inr content \<longrightarrow> fits content)"

fun sound_event :: "('m \<Rightarrow> message_io_error + bytes) \<Rightarrow> 'm pub_event \<Rightarrow> bool" where
  "sound_event Serialize (CallPublish env topic types st cb) \<longleftrightarrow> 0 < queue_size st \<and> binds env"
| "sound_event Serialize (CallSend msg cb) \<longleftrightarrow> message_fits Serialize msg"
| "sound_event Serialize ev \<longleftrightarrow> True"

inductive lone_step ::
    "('m \<Rightarrow> message_io_error + bytes) \<Rightarrow> message_class \<Rightarrow> 'm pub_machine \<Rightarrow> 'm pub_machine \<Rightarrow> bool"
  for Serialize :: "'m \<Rightarrow> message_io_error + bytes" and cls :: message_class where
  lone_event: "sound_event Serialize ev \<Longrightarrow> pub_exec Serialize cls ev m = Some m' \<Longrightarrow> lone (pub m') \<Longrightarrow>
    lone_step Serialize cls m m'"

inductive_cases lone_stepE: "lone_step Serialize cls m m'"

definition frames :: "('m \<Rightarrow> message_io_error + bytes) \<Rightarrow> 'm list \<Rightarrow> bytes list" where
  "frames Serialize ms =
     concat (map (\<lambda>msg. case Serialize msg of Inl _ \<Rightarrow> [] | Inr content \<Rightarrow> [AttachHeader content]) ms)"

lemma frames_append [simp]: "frames Serialize (xs @ ys) = frames Serialize xs @ frames Serialize ys"
  by (simp add: frames_def)

lemma frames_Nil [simp]: "frames Serialize [] = []"
  by (simp add: frames_def)

definition backlog :: "'m publisher \<Rightarrow> 'm list" where
  "backlog p = (case message_queue p of None \<Rightarrow> [] | Some q \<Rightarrow> Pool_contents q)"

text \<open>
  What completed on a channel: first parts of some of the frames, in their order, and whole frames as
  long as no send was cut short.
\<close>

definition channel_wire :: "bytes list \<Rightarrow> pub_channel \<Rightarrow> bool" where
  "channel_wire fs c \<longleftrightarrow> list_emb prefix (wire c) fs \<and> (\<not> cut_short c \<longrightarrow> subseq (wire c) fs)"

definition channel_ok :: "bytes \<Rightarrow> bytes list \<Rightarrow> pub_channel \<Rightarrow> bool" where
  "channel_ok buf fs c \<longleftrightarrow>
     (case pc_sending c of
        None \<Rightarrow> channel_wire fs c
      | Some sd \<Rightarrow> fs \<noteq> [] \<and> channel_wire (butlast fs) c \<and> total sd = length (last fs) \<and>
          take (total sd) buf = last fs \<and> prefix (written sd) (last fs))"

definition lone_ok :: "('m \<Rightarrow> message_io_error + bytes) \<Rightarrow> 'm pub_machine \<Rightarrow> bool" where
  "lone_ok Serialize m \<longleftrightarrow>
     pub_ok m \<and> lone (pub m) \<and> (\<forall>msg \<in> set (published m). message_fits Serialize msg) \<and>
     (\<forall>ti st cb. PublishTopicRequest ti st cb \<in> set (requests (pub m)) \<longrightarrow> 0 < queue_size st) \<and>
     (\<forall>q. message_queue (pub m) = Some q \<longrightarrow> pool_ok q) \<and>
     subseq (taken m @ backlog (pub m)) (published m) \<and>
     (\<forall>c \<in> set (channels (pub m)). channel_ok (cb_data (pub_buffer (pub m))) (frames Serialize (taken m)) c)"

lemma channel_wire_append: "channel_wire fs c \<Longrightarrow> channel_wire (fs @ gs) c"
  by (auto simp: channel_wire_def intro: list_emb_prefix)

lemma channel_wire_fields [simp]:
  "channel_wire fs (c\<lparr>pc_sending := x\<rparr>) = channel_wire fs c" "channel_wire fs (c\<lparr>has_receivers := b\<rparr>) = channel_wire fs c"
  "channel_wire fs (new_pub_channel t)"
  by (simp_all add: channel_wire_def)

lemma channel_ok_idle: "pc_sending c = None \<Longrightarrow> channel_ok buf fs c \<longleftrightarrow> channel_wire fs c"
  by (simp add: channel_ok_def)

lemma channel_ok_wire: "channel_ok buf fs c \<Longrightarrow> channel_wire fs c"
  by (auto simp: channel_ok_def split: option.splits) (metis append_butlast_last_id channel_wire_append)

lemma channel_ok_receivers [simp]: "channel_ok buf fs (c\<lparr>has_receivers := b\<rparr>) = channel_ok buf fs c"
  by (simp add: channel_ok_def split: option.split)

lemma write_some_ok: "channel_ok buf fs c \<Longrightarrow> channel_ok buf fs (write_some buf k c)"
proof (cases "pc_sending c")
  case (Some sd)
  assume ok: "channel_ok buf fs c"
  then obtain zs where "last fs = written sd @ zs" "take (total sd) buf = last fs"
    using Some by (auto simp: channel_ok_def prefix_def)
  then have "prefix (written sd @ take k (drop (length (written sd)) (take (total sd) buf))) (last fs)"
    by (simp add: take_is_prefix)
  with ok Some show ?thesis by (auto simp: channel_ok_def write_some_def)
qed (simp add: channel_ok_def write_some_def)

lemma send_done_ok:
  assumes "channel_ok buf fs c" and "send_done s c = (c', rs)"
  shows "channel_ok buf fs c'"
proof (cases "pc_sending c")
  case (Some sd)
  with assms(1) have fs: "butlast fs @ [last fs] = fs"
      and w: "channel_wire (butlast fs) c"
    and sd: "total sd = length (last fs)" "prefix (written sd) (last fs)"
    by (simp_all add: channel_ok_def)
  obtain zs where zs: "last fs = written sd @ zs" using sd(2) by (rule prefixE)
  then have whole: "written sd = last fs" if "length (written sd) = total sd"
    using sd(1) that by simp
  have "list_emb prefix (wire c @ [written sd]) (butlast fs @ [last fs])"
    using w sd(2) by (intro list_emb_append_mono) (auto simp: channel_wire_def)
  moreover have "subseq (wire c @ [last fs]) (butlast fs @ [last fs])" if "\<not> cut_short c"
    using w that by (intro list_emb_append_mono) (auto simp: channel_wire_def)
  ultimately have "channel_wire fs c'" if "written sd \<noteq> []"
    using assms(2) Some whole that unfolding fs by (auto simp: send_done_def channel_wire_def)
  moreover have "channel_wire fs c'" if "written sd = []"
    using assms(2) Some that channel_ok_wire [OF assms(1)] by (auto simp: send_done_def channel_wire_def)
  moreover have "pc_sending c' = None" using assms(2) Some by (auto simp: send_done_def)
  ultimately show ?thesis by (auto simp: channel_ok_idle)
qed (use assms in \<open>auto simp: send_done_def\<close>)

lemma lone_channels:
  assumes "lone p"
  obtains "channels p = []" | c where "channels p = [c]" "\<not> type_HasNativeHeader (pc_type c)"
  using assms by (cases "channels p") (auto simp: lone_def)

text \<open>Framing a message for the only channel, which is not sending.\<close>

lemma lone_send_serialized:
  assumes "channels p = [c]" "ready c" "\<not> type_HasNativeHeader (pc_type c)" "fits content"
  obtains (full) "send_serialized content cb p = Some p"
    | (sends) p' where "send_serialized content cb p = Some p'"
        "channels p' = [c\<lparr>pc_sending := Some \<lparr>total = length (AttachHeader content), written = [], on_sent = cb\<rparr>\<rparr>]"
        "take (length (AttachHeader content)) (cb_data (pub_buffer p')) = AttachHeader content"
        "message_queue p' = message_queue p" "requests p' = requests p"
proof -
  let ?n = "header_size + length content"
  have n: "sint (to_int32 ?n) = int ?n"
    using assms(4) by (intro sint_to_int32) (simp add: fits_def header_size_def sizeof_Header_def)
  have len: "length (AttachHeader content) = ?n"
    using assms(4) by (simp add: AttachHeader_fits header_size_def)
  obtain ok b where e: "SetEnoughCapacityIfDynamic (int ?n) (pub_buffer p) = (ok, b)" by fastforce
  show thesis
  proof (cases ok)
    case False
    with that(1) e n show thesis by (simp add: send_serialized_def)
  next
    case True
    then have b: "?n \<le> length (cb_data b)"
      using e SetEnough_True [of "int ?n" "pub_buffer p" b] by (simp add: ChannelBuffer_capacity_def)
    let ?b = "b\<lparr>cb_data := AttachHeader content @ drop ?n (cb_data b)\<rparr>"
    let ?c = "c\<lparr>pc_sending := Some \<lparr>total = ?n, written = [], on_sent = cb\<rparr>\<rparr>"
    have "send_serialized content cb p = Some (p\<lparr>pub_buffer := ?b, channels := [?c], replies := replies p @ []\<rparr>)"
      using assms(1-3) True e n b len
      by (simp add: send_serialized_def write_at_def in_flight_def ready_def send_one_def Let_def)
    with that(2) len show thesis by simp
  qed
qed

lemma lone_ok_tasks [simp]: "lone_ok Serialize (m\<lparr>pub := (pub m)\<lparr>tasks := ts\<rparr>\<rparr>) = lone_ok Serialize m"
  using registration_ok_cong [of "(pub m)\<lparr>tasks := ts\<rparr>" "pub m"]
  by (simp add: lone_ok_def pub_ok_def idle_unless_queue_def lone_def backlog_def)

lemma lone_SendMessage:
  assumes inv: "lone_ok Serialize m" and run: "Publisher_SendMessage Serialize cb (pub m) = Some p'"
  shows "lone_ok Serialize (m\<lparr>pub := p', taken := taken m @ next_message (pub m)\<rparr>)"
  using run
proof (cases rule: SendMessage_cases)
  case nothing
  with inv show ?thesis by simp
next
  case (took q msg q' p1)
  let ?p = "(pub m)\<lparr>message_queue := Some q'\<rparr>" and ?fs = "frames Serialize (taken m)"
  from inv took(1) have q: "pool_ok q" "subseq (taken m @ Pool_contents q) (published m)"
    by (auto simp: lone_ok_def backlog_def)
  have ne: "Pool_contents q \<noteq> []"
    using took(4) Pool_empty_count [OF q(1)] by (metis length_contents list.size(3))
  then have msg: "msg = hd (Pool_contents q)" using Pool_front_correct [OF q(1)] took(2) by simp
  have q': "pool_ok q'" "Pool_contents q' = tl (Pool_contents q)"
    using pool.pop_oldest [OF q(1)] took(3) by auto
  have sub: "subseq (taken m @ msg # Pool_contents q') (published m)" using q(2) q'(2) msg ne by simp
  then have "msg \<in> set (published m)" by (auto elim: list_emb_set)
  then have fit: "Serialize msg = Inr content \<Longrightarrow> fits content" for content
    using inv by (auto simp: lone_ok_def message_fits_def)
  obtain c where c: "channels (pub m) = [c]" "\<not> type_HasNativeHeader (pc_type c)" "ready c"
  proof -
    have "lone (pub m)" using inv by (simp add: lone_ok_def)
    then show thesis using took(5) that by (cases rule: lone_channels) auto
  qed
  have idle: "pc_sending c = None" "channel_wire ?fs c"
    using inv c by (auto simp: lone_ok_def ready_def channel_ok_idle)
  have wire: "channel_wire (?fs @ gs) c" for gs using idle(2) by (rule channel_wire_append)
  have p1: "message_queue p1 = Some q' \<and> requests p1 = requests (pub m) \<and> (\<exists>c'. channels p1 = [c'] \<and>
      pc_type c' = pc_type c \<and> channel_ok (cb_data (pub_buffer p1)) (frames Serialize (taken m @ [msg])) c')"
  proof (cases "Serialize msg")
    case (Inl err)
    with took(8) c idle wire show ?thesis by (simp add: channel_ok_idle)
  next
    case (Inr content)
    then have s: "send_serialized content cb ?p = Some p1" using took(8) by simp
    have f: "frames Serialize (taken m @ [msg]) = ?fs @ [AttachHeader content]"
      using Inr by (simp add: frames_def)
    have h: "channels ?p = [c]" using c(1) by simp
    show ?thesis
    proof (cases rule: lone_send_serialized [OF h c(3,2) fit [OF Inr], of cb, case_names full sends])
      case full
      with s f c(1) idle wire show ?thesis by (auto simp: channel_ok_idle)
    next
      case (sends p2)
      with s f idle show ?thesis by (simp add: channel_ok_def)
    qed
  qed
  have "registration_ok p' \<and> idle_unless_queue p'"
    using SendMessage_fields [OF run] inv took(1) registration_ok_cong [of p' "pub m"]
    by (auto simp: lone_ok_def pub_ok_def idle_unless_queue_def)
  with inv p1 took(6,7) sub q' c(2) show ?thesis
    by (auto simp: lone_ok_def pub_ok_def lone_def backlog_def)
qed

text \<open>The other events.\<close>

lemma lone_CallPublish:
  assumes inv: "lone_ok Serialize m" and run: "RequestPublish env cls topic types st cb (pub m) = Some p'"
    and st: "0 < queue_size st" and lone: "lone p'"
  shows "lone_ok Serialize (m\<lparr>pub := p'\<rparr>)"
proof -
  have reg: "registration_ok p'" "idle_unless_queue p'"
    using RequestPublish_ok [OF run] inv by (simp_all add: lone_ok_def pub_ok_def)
  have sub: "subseq (taken m @ backlog (pub m)) (published m)" using inv by (simp add: lone_ok_def)
  then have tk: "subseq (taken m) (published m)" by (rule subseq_appendD)
  from run show ?thesis
  proof (cases rule: RequestPublish_cases)
    case refused
    with inv reg show ?thesis by (simp add: lone_ok_def pub_ok_def lone_def backlog_def)
  next
    case (failed s p1)
    with inv reg tk show ?thesis by (simp add: lone_ok_def pub_ok_def lone_def backlog_def registration_ok_def)
  next
    case (sent cs ti)
    have "channel_ok buf fs c" if "c \<in> set cs" for buf fs c
      using that sent(5) by (auto simp: channel_ok_idle)
    with inv reg lone sent st show ?thesis
      by (auto simp: lone_ok_def pub_ok_def backlog_def)
  qed
qed

lemma lone_MasterReplies:
  fixes m :: "'m pub_machine"
  assumes inv: "lone_ok Serialize m"
  shows "lone_ok Serialize (m\<lparr>pub := master_replies s (pub m)\<rparr>)"
proof -
  let ?p = "pub m" and ?p' = "master_replies s (pub m)"
  have reg: "registration_ok ?p'" "idle_unless_queue ?p'"
    using master_replies_ok [of ?p s] inv by (simp_all add: lone_ok_def pub_ok_def)
  have pre: "registration_ok ?p" "idle_unless_queue ?p" using inv by (simp_all add: lone_ok_def pub_ok_def)
  have tk: "subseq (taken m) (published m)" using inv subseq_appendD by (auto simp: lone_ok_def)
  consider (none) "requests ?p = []"
    | (publish) ti st cb where "requests ?p = [PublishTopicRequest ti st cb]" "register_state ?p = Registering"
        "message_queue ?p = None"
    | (unpublish) topic cb where "requests ?p = [UnpublishTopicRequest topic cb]"
        "register_state ?p = Unregistering"
    using pre(1) by (auto simp: registration_ok_def split: register_state.splits)
  then show ?thesis
  proof cases
    case none
    with inv show ?thesis by (simp add: master_replies_def)
  next
    case (publish ti st cb)
    have idle: "\<forall>c \<in> set (channels ?p). pc_sending c = None \<and> set_channel_buffer st c = c"
      using pre(2) publish(3) inv
      by (simp add: idle_unless_queue_def set_channel_buffer_def lone_ok_def lone_def)
    then have ch: "map (set_channel_buffer st) (channels ?p) = channels ?p" by (simp add: map_idI)
    have qs: "0 < queue_size st" using inv publish(1) by (simp add: lone_ok_def)
    have np: "pool_ok (new_Pool (queue_size st) :: 'm pool)" "Pool_contents (new_Pool (queue_size st) :: 'm pool) = []"
      using new_Pool_ok(1,2) [OF qs] by simp_all
    from inv reg tk idle ch publish np show ?thesis
      by (auto simp: lone_ok_def pub_ok_def master_replies_def OnPublishTopicAsync_def lone_def backlog_def
          channel_ok_idle)
  next
    case (unpublish topic cb)
    with inv reg tk show ?thesis
      by (auto simp: lone_ok_def pub_ok_def master_replies_def OnUnpublishTopicAsync_def lone_def backlog_def)
  qed
qed

lemma lone_CallSend:
  assumes inv: "lone_ok Serialize m" and run: "Publish msg cb (pub m) = Some p'"
    and fit: "message_fits Serialize msg"
  shows "lone_ok Serialize (m\<lparr>pub := p',
    published := published m @ (if message_queue (pub m) = None then [] else [msg])\<rparr>)"
proof (cases "message_queue (pub m)")
  case None
  with run inv have "p' = (pub m)\<lparr>tasks := tasks (pub m) @ [cb]\<rparr>" by (simp add: Publish_def)
  with inv None show ?thesis by simp
next
  case (Some q)
  with inv have q: "pool_ok q" "subseq (taken m @ Pool_contents q) (published m)"
    by (auto simp: lone_ok_def backlog_def)
  from pool.push_accepts [OF q(1), of msg] obtain q' where q': "Pool_push msg q = Some q'" "pool_ok q'"
      "Pool_contents q' = Pool_contents q @ [msg] \<or> Pool_contents q' = tl (Pool_contents q) @ [msg]"
    by blast
  have "subseq (Pool_contents q') (Pool_contents q @ [msg])"
    using q'(3) by (auto simp: list_emb_append_mono)
  then have "subseq (taken m @ Pool_contents q') ((taken m @ Pool_contents q) @ [msg])"
    by (metis append_assoc list_emb_append_mono subseq_order.order_refl)
  moreover have "subseq ((taken m @ Pool_contents q) @ [msg]) (published m @ [msg])"
    using q(2) by (rule list_emb_append_mono) simp
  ultimately have sub: "subseq (taken m @ Pool_contents q') (published m @ [msg])"
    by (rule subseq_order.order_trans)
  have p': "p' = (pub m)\<lparr>message_queue := Some q', tasks := tasks (pub m) @ [cb]\<rparr>"
    using run Some q'(1) by (simp add: Publish_def)
  have "registration_ok p' \<and> idle_unless_queue p'"
    using inv Some p' registration_ok_cong [of p' "pub m"] by (simp add: lone_ok_def pub_ok_def idle_unless_queue_def)
  with inv p' Some sub q'(2) fit show ?thesis
    by (auto simp: lone_ok_def pub_ok_def lone_def backlog_def)
qed

lemma lone_update:
  "lone_ok Serialize m \<Longrightarrow> i < length (channels (pub m)) \<Longrightarrow> pc_type c = pc_type (channels (pub m) ! i) \<Longrightarrow>
     channel_ok (cb_data (pub_buffer (pub m))) (frames Serialize (taken m)) c \<Longrightarrow>
     (message_queue (pub m) = None \<Longrightarrow> pc_sending c = None) \<Longrightarrow>
     lone_ok Serialize (m\<lparr>pub := (pub m)\<lparr>channels := (channels (pub m))[i := c], replies := rs\<rparr>\<rparr>)"
  using registration_ok_cong [of "(pub m)\<lparr>channels := (channels (pub m))[i := c], replies := rs\<rparr>" "pub m"]
  by (cases "channels (pub m)")
    (auto simp: lone_ok_def pub_ok_def idle_unless_queue_def lone_def backlog_def)

lemma lone_channel_events:
  assumes inv: "lone_ok Serialize m"
  shows "lone_ok Serialize (m\<lparr>pub := channel_writes i k (pub m)\<rparr>)"
    "lone_ok Serialize (m\<lparr>pub := channel_done i s (pub m)\<rparr>)"
    "lone_ok Serialize (m\<lparr>pub := set_receivers i b (pub m)\<rparr>)"
proof -
  let ?p = "pub m" and ?c = "channels (pub m) ! i"
  have same: "m\<lparr>pub := ?p\<rparr> = m" "?p\<lparr>channels := cs, replies := replies ?p\<rparr> = ?p\<lparr>channels := cs\<rparr>" for cs by simp_all
  have at: "channel_ok (cb_data (pub_buffer ?p)) (frames Serialize (taken m)) ?c"
      "\<not> type_HasNativeHeader (pc_type ?c)" "message_queue ?p = None \<Longrightarrow> pc_sending ?c = None"
    if "i < length (channels ?p)"
    using inv that by (simp_all add: lone_ok_def lone_def pub_ok_def idle_unless_queue_def)
  show "lone_ok Serialize (m\<lparr>pub := channel_writes i k ?p\<rparr>)"
    using inv same lone_update [OF inv, of i "write_some (send_source ?p ?c) k ?c" "replies ?p"] at
      write_some_ok [OF at(1), of k]
    by (auto simp: channel_writes_def send_source_def write_some_def split: option.splits)
  obtain c rs where d: "send_done s ?c = (c, rs)" by fastforce
  then have "pc_type c = pc_type ?c" "pc_sending ?c = None \<Longrightarrow> pc_sending c = None"
    by (auto simp: send_done_def split: option.splits if_splits)
  then show "lone_ok Serialize (m\<lparr>pub := channel_done i s ?p\<rparr>)"
    using inv lone_update [OF inv, of i c "replies ?p @ rs"] at send_done_ok [OF at(1) d] d
    by (auto simp: channel_done_def)
  show "lone_ok Serialize (m\<lparr>pub := set_receivers i b ?p\<rparr>)"
    using inv same lone_update [OF inv, of i "?c\<lparr>has_receivers := b\<rparr>" "replies ?p"] at
    by (auto simp: set_receivers_def)
qed

lemma lone_exec_ok:
  assumes "sound_event Serialize ev" "pub_exec Serialize cls ev m = Some m'" "lone (pub m')" "lone_ok Serialize m"
  shows "lone_ok Serialize m'"
proof (cases ev)
  case (CallPublish env topic types st cb)
  with assms lone_CallPublish show ?thesis by fastforce
next
  case (CallUnpublish topic cb)
  with assms registration_ok_cong [of "answer cb s (pub m)" "pub m" for s] show ?thesis
    by (auto simp: RequestUnpublish_def lone_ok_def pub_ok_def registration_ok_def idle_unless_queue_def lone_def
        backlog_def split: register_state.splits)
next
  case (MasterReplies s)
  with assms lone_MasterReplies show ?thesis by fastforce
next
  case (CallSend msg cb)
  with assms lone_CallSend show ?thesis by fastforce
next
  case (RunTask j)
  show ?thesis
  proof (cases "j < length (tasks (pub m))")
    case True
    let ?m = "m\<lparr>pub := (pub m)\<lparr>tasks := remove_nth j (tasks (pub m))\<rparr>\<rparr>"
    from RunTask True assms(2) obtain p' where
      "Publisher_SendMessage Serialize (tasks (pub m) ! j) (pub ?m) = Some p'"
      "m' = ?m\<lparr>pub := p', taken := taken ?m @ next_message (pub ?m)\<rparr>" by (auto simp: Let_def)
    with lone_SendMessage [of Serialize ?m] assms(4) show ?thesis by simp
  qed (use RunTask assms in simp)
qed (use assms lone_channel_events in auto)

interpretation single: inductive_invariant "\<lambda>m. m = new_pub_machine" "lone_step Serialize cls" "lone_ok Serialize"
  for Serialize cls
proof
  show "m = new_pub_machine \<Longrightarrow> lone_ok Serialize m" for m
    using publisher.inv_init [of m] by (simp add: lone_ok_def new_pub_machine_def new_Publisher_def lone_def backlog_def)
  show "lone_ok Serialize m \<Longrightarrow> lone_step Serialize cls m m' \<Longrightarrow> lone_ok Serialize m'" for m m'
    by (auto elim!: lone_stepE intro: lone_exec_ok)
qed

section \<open>Definedness\<close>

lemma setup_loop_defined: "binds env \<Longrightarrow> setup_loop env types ty p \<noteq> None"
proof (induction env types ty p rule: setup_loop.induct)
  case (1 env types ty p)
  show ?case
  proof (cases "pub_Setup env (NewChannel (channel_type_of ty))")
    case NullSocket
    then have False using "1.prems" by (cases "NewChannel (channel_type_of ty)") (auto simp: binds_def pub_Setup_def)
    then show ?thesis ..
  qed (use 1 in \<open>simp_all add: setup_loop.simps [of env types ty p]\<close>)
qed

lemma RequestPublish_defined:
  assumes "binds env"
  shows "RequestPublish env cls topic types st cb p \<noteq> None"
proof -
  obtain s p1 where "SetupAllChannels env types (p\<lparr>register_state := Registering\<rparr>) = Some (s, p1)"
    using setup_loop_defined [OF assms] unfolding SetupAllChannels_def by fastforce
  then show ?thesis by (simp add: RequestPublish_def Let_def)
qed

lemma Publish_defined: "lone_ok Serialize m \<Longrightarrow> Publish msg cb (pub m) \<noteq> None"
  using pool.push_accepts [of _ msg] by (fastforce simp: Publish_def lone_ok_def split: option.splits)

lemma SendMessage_defined:
  assumes inv: "lone_ok Serialize m"
  shows "Publisher_SendMessage Serialize cb (pub m) \<noteq> None"
proof (cases "\<not> list_ex ready (channels (pub m)) \<or> message_queue (pub m) = None \<or>
    Pool_empty (the (message_queue (pub m)))")
  case True
  then show ?thesis by (auto simp: Publisher_SendMessage_def split: option.splits)
next
  case False
  then obtain q where q: "message_queue (pub m) = Some q" "\<not> Pool_empty q" "list_ex ready (channels (pub m))" by auto
  have ok: "pool_ok q" "subseq (taken m @ Pool_contents q) (published m)"
    using inv q(1) by (auto simp: lone_ok_def backlog_def)
  have ne: "Pool_contents q \<noteq> []"
    using q(2) Pool_empty_count [OF ok(1)] by (metis length_contents list.size(3))
  obtain q' where q': "Pool_pop q = Some q'" using pool.pop_oldest [OF ok(1)] by blast
  let ?msg = "hd (Pool_contents q)" and ?p = "(pub m)\<lparr>message_queue := Some q'\<rparr>"
  have "?msg \<in> set (taken m @ Pool_contents q)" using ne by simp
  with ok(2) have "?msg \<in> set (published m)" by (auto elim: list_emb_set)
  then have fit: "Serialize ?msg = Inr content \<Longrightarrow> fits content" for content
    using inv by (auto simp: lone_ok_def message_fits_def)
  have "lone (pub m)" using inv by (simp add: lone_ok_def)
  then obtain c where c: "channels ?p = [c]" "ready c" "\<not> type_HasNativeHeader (pc_type c)"
    using q(3) by (cases rule: lone_channels) auto
  have "send_serialized content cb ?p \<noteq> None" if "Serialize ?msg = Inr content" for content
    by (rule lone_send_serialized [OF c fit [OF that], of cb]) auto
  then show ?thesis
    using q q' Pool_front_correct [OF ok(1) ne]
    by (auto simp: Publisher_SendMessage_def split: sum.splits)
qed

section \<open>Properties\<close>

text \<open>
  A publisher and the master agree on what is outstanding: in every reachable state there is
  exactly one request on its way while the publisher is registering or unregistering, of the
  matching kind, and none otherwise; messages are queued exactly while it is registered or
  unregistering.  So a reply never finds the publisher in another state than the one it answers.
\<close>

theorem publisher_requests_match_state:
  assumes "pub_reachable Serialize cls m"
  shows "(register_state (pub m) = Registering \<longleftrightarrow>
           (\<exists>ti st cb. requests (pub m) = [PublishTopicRequest ti st cb])) \<and>
         (register_state (pub m) = Unregistering \<longleftrightarrow>
           (\<exists>topic cb. requests (pub m) = [UnpublishTopicRequest topic cb])) \<and>
         (register_state (pub m) \<in> {Registered, Unregistered} \<longleftrightarrow> requests (pub m) = []) \<and>
         (message_queue (pub m) \<noteq> None \<longleftrightarrow> register_state (pub m) \<in> {Registered, Unregistering})"
  using publisher.inv_reachable [OF assms]
  by (auto simp: pub_ok_def registration_ok_def split: register_state.splits)

definition demo_class :: message_class where
  "demo_class = \<lparr>class_type_name = ''Text'', class_impl_type = PROTOBUF\<rparr>"

definition demo_bind :: bind_env where
  "demo_bind ty = Inr (default_channel_def\<lparr>cd_type := ty\<rparr>)"

definition demo_settings :: settings where
  "demo_settings = default_settings\<lparr>buffer_size := 16, queue_size := 4\<rparr>"

text \<open>A publisher registered on the channel types given.\<close>

definition demo_registered :: "nat \<Rightarrow> serialized_message pub_event list" where
  "demo_registered types = [CallPublish demo_bind ''news'' types demo_settings None, MasterReplies Status_OK]"

abbreviation "demo_run \<equiv> pub_run SerializedMessage_Serialize demo_class"

lemma demo_pub_reachable:
  "demo_run evs new_pub_machine = Some m \<Longrightarrow> pub_reachable SerializedMessage_Serialize demo_class m"
  by (rule pub_run_reachable) (auto intro: reachable.start)

theorem publisher_requests_match_state_witness:
  "\<exists>m. demo_run (demo_registered 8 @ [CallUnpublish ''news'' None]) new_pub_machine = Some m \<and>
     register_state (pub m) = Unregistering \<and> message_queue (pub m) \<noteq> None"
proof -
  have "map_option (\<lambda>m. register_state (pub m)) (demo_run (demo_registered 8 @ [CallUnpublish ''news'' None])
      new_pub_machine) = Some Unregistering" by code_simp
  then obtain m where m: "demo_run (demo_registered 8 @ [CallUnpublish ''news'' None]) new_pub_machine = Some m"
      "register_state (pub m) = Unregistering" by auto
  with publisher_requests_match_state [OF demo_pub_reachable [OF m(1)]] show ?thesis by auto
qed

text \<open>
  C11.  With one channel that uses felicia's header, what the completed sends left on the wire are first
  parts of the frames of some of the messages taken from the queue, in the order of taking, and whole
  frames as long as no send of the channel was cut short (completed after some but not all of its
  bytes, which the code reports as OK when the write had to wait).  The messages taken, followed by
  those still queued, are some of the published ones in the order of publishing: nothing is invented,
  duplicated, reordered or torn, although messages can be dropped.
\<close>

theorem lone_publisher_wire_faithful:
  assumes "reachable (\<lambda>m. m = new_pub_machine) (lone_step Serialize cls) m"
  shows "subseq (taken m @ backlog (pub m)) (published m) \<and>
    (\<forall>c \<in> set (channels (pub m)). list_emb prefix (wire c) (frames Serialize (taken m)) \<and>
       (\<not> cut_short c \<longrightarrow> subseq (wire c) (frames Serialize (taken m))))"
  using single.inv_reachable [OF assms] channel_ok_wire by (fastforce simp: lone_ok_def channel_wire_def)

primrec lone_run ::
    "('m \<Rightarrow> message_io_error + bytes) \<Rightarrow> message_class \<Rightarrow> 'm pub_event list \<Rightarrow> 'm pub_machine \<Rightarrow> 'm pub_machine option" where
  "lone_run Serialize cls [] m = Some m"
| "lone_run Serialize cls (ev # evs) m =
     Option.bind (pub_exec Serialize cls ev m) (\<lambda>m'. if lone (pub m') then lone_run Serialize cls evs m' else None)"

lemma lone_run_reachable:
  "lone_run Serialize cls evs m = Some m' \<Longrightarrow> \<forall>ev \<in> set evs. sound_event Serialize ev \<Longrightarrow>
     reachable (\<lambda>m. m = new_pub_machine) (lone_step Serialize cls) m \<Longrightarrow>
     reachable (\<lambda>m. m = new_pub_machine) (lone_step Serialize cls) m'"
proof (induction evs arbitrary: m)
  case (Cons ev evs)
  then obtain m1 where "pub_exec Serialize cls ev m = Some m1" "lone (pub m1)"
      "lone_run Serialize cls evs m1 = Some m'"
    by (auto simp: bind_eq_Some_conv split: if_splits)
  with Cons show ?case by (fastforce intro: reachable.move lone_step.lone_event)
qed simp

abbreviation "demo_text n \<equiv> \<lparr>serialized = [n, n, n]\<rparr>"

definition demo_sends :: "serialized_message pub_event list" where
  "demo_sends = demo_registered 8 @ [SetReceivers 0 True, CallSend (demo_text 1) None, CallSend (demo_text 2) None,
     RunTask 0, RunTask 0, RunTask 0, ChannelWrites 0 5, ChannelWrites 0 5, ChannelDone 0 Status_OK]"

lemma demo_sound: "\<forall>ev \<in> set demo_sends. sound_event SerializedMessage_Serialize ev"
  by (simp add: demo_sends_def demo_registered_def demo_settings_def binds_def pub_Setup_def demo_bind_def
      message_fits_def SerializedMessage_Serialize_def fits_def sizeof_Header_def)

theorem lone_publisher_wire_faithful_witness:
  "\<exists>m c. lone_run SerializedMessage_Serialize demo_class demo_sends new_pub_machine = Some m \<and>
     channels (pub m) = [c] \<and> wire c = [[3, 0, 0, 0, 1, 1, 1]] \<and> \<not> cut_short c \<and>
     subseq (taken m @ backlog (pub m)) (published m) \<and>
     subseq (wire c) (frames SerializedMessage_Serialize (taken m))"
proof -
  have "map_option (\<lambda>m. map (\<lambda>c. (wire c, cut_short c)) (channels (pub m)))
      (lone_run SerializedMessage_Serialize demo_class demo_sends new_pub_machine) =
      Some [([[3, 0, 0, 0, 1, 1, 1]], False)]" by code_simp
  then obtain m c where m: "lone_run SerializedMessage_Serialize demo_class demo_sends new_pub_machine = Some m"
      "channels (pub m) = [c]" "wire c = [[3, 0, 0, 0, 1, 1, 1]]" "\<not> cut_short c" by (auto simp: map_eq_Cons_conv)
  with lone_publisher_wire_faithful [OF lone_run_reachable [OF m(1) demo_sound reachable.start]]
  show ?thesis by auto
qed

text \<open>
  The condition is needed: a write that had to wait and took five of seven bytes is reported as OK, and
  the wire holds a cut frame.
\<close>

theorem short_write_cuts_frame:
  "map_option (\<lambda>m. map (\<lambda>c. (wire c, cut_short c)) (channels (pub m)))
     (demo_run (demo_registered 8 @ [SetReceivers 0 True, CallSend (demo_text 1) None, RunTask 0, ChannelWrites 0 5,
        ChannelDone 0 Status_OK]) new_pub_machine) = Some [([[3, 0, 0, 0, 1]], True)]"
  by code_simp

text \<open>
  Such a publisher never runs into undefined behaviour: whatever happens next, the queue, the
  buffers and the sockets are used within their contracts.
\<close>

theorem lone_publisher_defined:
  assumes "reachable (\<lambda>m. m = new_pub_machine) (lone_step Serialize cls) m" and "sound_event Serialize ev"
  shows "\<exists>m'. pub_exec Serialize cls ev m = Some m'"
proof -
  note inv = single.inv_reachable [OF assms(1)]
  show ?thesis
  proof (cases ev)
    case (CallPublish env topic types st cb)
    with assms(2) RequestPublish_defined [of env cls topic types st cb "pub m"] show ?thesis by auto
  next
    case (CallSend msg cb)
    with Publish_defined [OF inv, of msg cb] show ?thesis by auto
  next
    case (RunTask j)
    with SendMessage_defined [of Serialize "m\<lparr>pub := (pub m)\<lparr>tasks := remove_nth j (tasks (pub m))\<rparr>\<rparr>"] inv
    show ?thesis by (auto simp: Let_def)
  qed auto
qed

theorem lone_publisher_defined_witness:
  "\<exists>m m'. lone_run SerializedMessage_Serialize demo_class demo_sends new_pub_machine = Some m \<and>
     pub_exec SerializedMessage_Serialize demo_class (CallSend (demo_text 3) None) m = Some m'"
proof -
  have "lone_run SerializedMessage_Serialize demo_class demo_sends new_pub_machine \<noteq> None" by code_simp
  then obtain m where m: "lone_run SerializedMessage_Serialize demo_class demo_sends new_pub_machine = Some m" by auto
  have "sound_event SerializedMessage_Serialize (CallSend (demo_text 3) None)"
    by (simp add: message_fits_def SerializedMessage_Serialize_def fits_def sizeof_Header_def)
  with lone_publisher_defined [OF lone_run_reachable [OF m demo_sound reachable.start]] m show ?thesis by blast
qed

definition demo_torn :: "serialized_message pub_event list" where
  "demo_torn = demo_registered 10 @ [SetReceivers 0 True, SetReceivers 1 True, CallSend (demo_text 1) None, RunTask 0,
     ChannelWrites 0 7, ChannelDone 0 Status_OK, ChannelWrites 1 5, CallSend (demo_text 2) None, RunTask 0,
     ChannelWrites 1 2, ChannelDone 1 Status_OK]"

text \<open>
  With two channels the shared send buffer is overwritten under a send in flight: a publisher
  on TCP and a Unix domain socket can complete a send whose bytes are no message's frame, when one
  channel is done with the first message and takes the second while the other is still writing.
\<close>

theorem shared_buffer_tears_messages:
  "\<exists>m c. pub_reachable SerializedMessage_Serialize demo_class m \<and> c \<in> set (channels (pub m)) \<and>
     \<not> set (wire c) \<subseteq> set (frames SerializedMessage_Serialize (published m))"
proof -
  have "map_option (\<lambda>m. (map wire (channels (pub m)), frames SerializedMessage_Serialize (published m)))
      (demo_run demo_torn new_pub_machine) =
    Some ([[[3, 0, 0, 0, 1, 1, 1]], [[3, 0, 0, 0, 1, 2, 2]]], [[3, 0, 0, 0, 1, 1, 1], [3, 0, 0, 0, 2, 2, 2]])"
    by code_simp
  then obtain m where m: "demo_run demo_torn new_pub_machine = Some m"
      "map wire (channels (pub m)) = [[[3, 0, 0, 0, 1, 1, 1]], [[3, 0, 0, 0, 1, 2, 2]]]"
      "frames SerializedMessage_Serialize (published m) = [[3, 0, 0, 0, 1, 1, 1], [3, 0, 0, 0, 2, 2, 2]]"
    by auto
  then obtain c where "c \<in> set (channels (pub m))" "wire c = [[3, 0, 0, 0, 1, 2, 2]]"
    by (force simp: map_eq_Cons_conv)
  with m(3) demo_pub_reachable [OF m(1)] show ?thesis by (intro exI [of _ m] exI [of _ c]) simp
qed

text \<open>
  A published message can be left behind: a task that finds every channel busy returns without
  posting another, so a message can stay in the queue of a registered publisher whose channel is
  idle and has receivers, with no task left to send it.
\<close>

theorem published_message_stranded:
  "\<exists>m. pub_reachable SerializedMessage_Serialize demo_class m \<and> register_state (pub m) = Registered \<and>
     backlog (pub m) = [demo_text 2] \<and> tasks (pub m) = [] \<and> list_all ready (channels (pub m))"
proof -
  have "map_option (\<lambda>m. (register_state (pub m), backlog (pub m), tasks (pub m), list_all ready (channels (pub m))))
      (demo_run demo_sends new_pub_machine) = Some (Registered, [demo_text 2], [], True)" by code_simp
  then show ?thesis using demo_pub_reachable by auto
qed

text \<open>
  A refused publisher keeps its channels: after the master's refusal the next attempt adds its
  channels to those of the failed one, while the topic it announces lists only the new ones.
\<close>

theorem refused_publish_keeps_channels:
  assumes "register_state p = Registering" and "\<not> Status_ok s"
    and "RequestPublish env cls topic types st' cb' (OnPublishTopicAsync st cb s p) = Some p2"
    and "register_state p2 = Registering"
  shows "\<exists>cs. channels p2 = channels p @ cs \<and> length (channel_defs (topic_source (topic_info p2))) = length cs"
proof -
  have p1: "OnPublishTopicAsync st cb s p = answer cb s (p\<lparr>register_state := Unregistered\<rparr>)"
    using assms(1,2) by (simp add: OnPublishTopicAsync_def)
  from assms(3) show ?thesis
  proof (cases rule: RequestPublish_cases)
    case refused
    then show ?thesis using p1 by simp
  next
    case (failed s p1)
    then show ?thesis using assms(4) by simp
  next
    case (sent cs ti)
    then show ?thesis using p1 by auto
  qed
qed

theorem refused_publish_keeps_channels_witness:
  "\<exists>p2. RequestPublish demo_bind demo_class ''news'' 8 demo_settings None
     (OnPublishTopicAsync demo_settings None (Aborted [])
        (new_Publisher\<lparr>register_state := Registering, channels := [new_pub_channel CHANNEL_TYPE_TCP]\<rparr>)) = Some p2 \<and>
     length (channels (p2 :: nat publisher)) = 2 \<and> length (channel_defs (topic_source (topic_info p2))) = 1"
proof -
  let ?p = "new_Publisher\<lparr>register_state := Registering, channels := [new_pub_channel CHANNEL_TYPE_TCP]\<rparr> :: nat publisher"
  have "map_option (\<lambda>p. (register_state p, length (channels p))) (RequestPublish demo_bind demo_class ''news'' 8
      demo_settings None (OnPublishTopicAsync demo_settings None (Aborted []) ?p)) = Some (Registering, 2)"
    by code_simp
  then obtain p2 where p2: "RequestPublish demo_bind demo_class ''news'' 8 demo_settings None
      (OnPublishTopicAsync demo_settings None (Aborted []) ?p) = Some p2"
      "register_state p2 = Registering" "length (channels p2) = 2" by auto
  from refused_publish_keeps_channels [OF _ _ p2(1,2)] p2 show ?thesis by (auto simp: new_Publisher_def)
qed

text \<open>
  A publisher whose TCP socket cannot listen does not report the error: the accept that
  follows the failed call goes through a null socket.
\<close>

theorem failed_listen_is_undefined:
  assumes "register_state p = Unregistered" and "env CHANNEL_TYPE_TCP = Inl s"
  shows "RequestPublish env cls topic 8 st cb p = None"
proof -
  have "setup_loop env 8 8 q = None" for q :: "'a publisher"
    using assms(2) by (subst setup_loop.simps) (simp add: channel_type_of_def NewChannel_def pub_Setup_def)
  then have "setup_loop env 8 1 q = None" for q :: "'a publisher"
    by (simp add: setup_loop.simps [of env 8 "Suc 0"] setup_loop.simps [of env 8 2] setup_loop.simps [of env 8 4])
  with assms(1) show ?thesis by (simp add: RequestPublish_def SetupAllChannels_def)
qed

theorem failed_listen_is_undefined_witness:
  "RequestPublish (\<lambda>_. Inl (NetworkError [])) demo_class ''news'' 8 demo_settings None (new_Publisher :: nat publisher) = None"
  using failed_listen_is_undefined [of "new_Publisher :: nat publisher" "\<lambda>_. Inl (NetworkError [])"]
  by (simp add: new_Publisher_def)

end
