(* ===== verification/Felicia_Subscriber.thy ===== *)
theory Felicia_Subscriber
  imports Felicia_Communication Felicia_Pool
begin

text \<open>
  \<open>core/communication/subscriber.h\<close>.  The handlers run on the main thread.  Waiting for a
  connection, for a handshake or for a message is a state of the channel, so replacing the channel
  cancels it; tasks posted to the main thread wait in a list, and the machine may run any of them,
  whatever their delays.  A receive that completes within the call runs its callback before the
  call returns: such results are the list given to the handlers.  What the program leaves undefined
  is \<open>None\<close>.  The last two fields of the state only record, for the statements, the messages handed to
  the user's callback and the messages received.
\<close>

unbundle bit_operations_syntax

section \<open>State\<close>

datatype link_phase = Connecting | Handshaking | Connected bool

text \<open>The channel to the publisher; \<open>Connected True\<close> is a channel with a receive under way.\<close>

record sub_channel =
  sc_def :: channel_def
  sc_phase :: link_phase
  sc_buffer :: channel_buffer

datatype sub_task = FindPublisherTask topic_info | StartTask | NotifyTask | StopTask | ReceiveTask

datatype sub_request =
    SubscribeTopicRequest nat settings nat "nat option" "nat option"
  | UnsubscribeTopicRequest "nat option"

record 'm subscriber =
  sub_register :: register_state
  sub_loop :: subscriber_state
  sub_queue :: "'m pool"
  sub_topic :: topic_info
  topic_info_to_update :: "topic_info option"
  channel_types :: nat
  channel_type :: nat
  sub_channel :: "sub_channel option"
  on_message_callback :: "nat option"
  on_error_callback :: "nat option"
  on_stopped_callback :: "nat option"
  sub_settings :: settings
  receive_message_failed_cnt :: u8
  sub_tasks :: "sub_task list"
  sub_requests :: "sub_request list"
  sub_replies :: "log_or_callback list"
  delivered :: "(nat \<times> 'm) list"
  received :: "'m list"

definition kMaximumReceiveMessageFailedAllowed :: u8 where
  "kMaximumReceiveMessageFailedAllowed = 5"

text \<open>A default constructed queue has no buffer.\<close>

definition null_pool :: "'m pool" where
  "null_pool = \<lparr>buffer = [], pool_index = PoolIndex_reset\<rparr>"

definition empty_topic :: topic_info where
  "empty_topic = \<lparr>ti_topic = [], ti_type_name = [], ti_impl_type = PROTOBUF,
     topic_source = \<lparr>channel_defs = []\<rparr>, ti_status = REGISTERED, ti_ros_node_name = []\<rparr>"

definition new_Subscriber :: "'m subscriber" where
  "new_Subscriber = \<lparr>sub_register = Unregistered, sub_loop = Stopped, sub_queue = null_pool, sub_topic = empty_topic,
     topic_info_to_update = None, channel_types = 0, channel_type = 0, sub_channel = None,
     on_message_callback = None, on_error_callback = None, on_stopped_callback = None,
     sub_settings = default_settings, receive_message_failed_cnt = 0, sub_tasks = [], sub_requests = [],
     sub_replies = [], delivered = [], received = []\<rparr>"

definition post :: "sub_task \<Rightarrow> 'm subscriber \<Rightarrow> 'm subscriber" where
  "post t s = s\<lparr>sub_tasks := sub_tasks s @ [t]\<rparr>"

definition sub_answer :: "nat option \<Rightarrow> status \<Rightarrow> 'm subscriber \<Rightarrow> 'm subscriber" where
  "sub_answer cb st s = s\<lparr>sub_replies := sub_replies s @ [LogOrCallback cb st]\<rparr>"

section \<open>Registration\<close>

definition RequestSubscribe ::
    "nat \<Rightarrow> settings \<Rightarrow> nat \<Rightarrow> nat option \<Rightarrow> nat option \<Rightarrow> 'm subscriber \<Rightarrow> 'm subscriber" where
  "RequestSubscribe types st on_msg on_err cb s =
     (if sub_register s \<noteq> Unregistered then sub_answer cb (InvalidStateError (sub_register s)) s
      else s\<lparr>sub_register := Registering,
             sub_requests := sub_requests s @ [SubscribeTopicRequest types st on_msg on_err cb]\<rparr>)"

definition RequestUnsubscribe :: "nat option \<Rightarrow> 'm subscriber \<Rightarrow> 'm subscriber" where
  "RequestUnsubscribe cb s =
     (if sub_register s \<noteq> Registered then sub_answer cb (InvalidStateError (sub_register s)) s
      else s\<lparr>sub_register := Unregistering, sub_requests := sub_requests s @ [UnsubscribeTopicRequest cb]\<rparr>)"

definition OnSubscribeTopicAsync ::
    "nat \<Rightarrow> settings \<Rightarrow> nat \<Rightarrow> nat option \<Rightarrow> nat option \<Rightarrow> status \<Rightarrow> 'm subscriber \<Rightarrow> 'm subscriber" where
  "OnSubscribeTopicAsync types st on_msg on_err cb rv s =
     (if sub_register s \<noteq> Registering then sub_answer cb (InvalidStateError (sub_register s)) s
      else if \<not> Status_ok rv then sub_answer cb rv (s\<lparr>sub_register := Unregistered\<rparr>)
      else sub_answer cb rv (s\<lparr>channel_types := types, on_message_callback := Some on_msg,
             on_error_callback := on_err, sub_settings := st, sub_register := Registered\<rparr>))"

definition StopMessageLoop :: "nat option \<Rightarrow> 'm subscriber \<Rightarrow> 'm subscriber" where
  "StopMessageLoop cb s =
     (if sub_loop s = Stopped \<or> sub_loop s = Stopping
      then (if cb \<noteq> None then sub_answer cb (Aborted ''Already stopping or stopped.'') s else s)
      else s\<lparr>on_stopped_callback := cb, sub_loop := Stopping\<rparr>)"

definition OnUnubscribeTopicAsync :: "nat option \<Rightarrow> status \<Rightarrow> 'm subscriber \<Rightarrow> 'm subscriber" where
  "OnUnubscribeTopicAsync cb rv s =
     (if sub_register s \<noteq> Unregistering then sub_answer cb (InvalidStateError (sub_register s)) s
      else if \<not> Status_ok rv then sub_answer cb rv (s\<lparr>sub_register := Registered\<rparr>)
      else sub_answer cb rv (StopMessageLoop None (s\<lparr>sub_register := Unregistered\<rparr>)))"

section \<open>Connecting\<close>

text \<open>
  The search for the next channel type that is wanted and offered; it stops at the first channel
  definition of that type.  The first type tried is 1 and each next one doubles it, so the search is
  never called with 0, where shifting would not progress.
\<close>

definition def_of_type :: "nat \<Rightarrow> channel_def list \<Rightarrow> channel_def option" where
  "def_of_type n ds = List.find (\<lambda>d. cd_type d = channel_type_of n) ds"

function match_loop :: "nat \<Rightarrow> channel_def list \<Rightarrow> nat \<Rightarrow> nat \<times> channel_def option" where
  "match_loop types ds ty =
     (if 0 < ty \<and> ty \<le> types then
        (case (if ty AND types \<noteq> 0 then def_of_type ty ds else None) of
           Some d \<Rightarrow> (ty, Some d)
         | None \<Rightarrow> match_loop types ds (push_bit 1 ty))
      else (ty, None))"
  by pat_completeness auto
termination
  by (relation "measure (\<lambda>(types, ds, ty). Suc types - ty)") (auto simp: push_bit_eq_mult)

declare match_loop.simps [simp del]

text \<open>\<open>WSChannel::Connect\<close> is not reached; a type without a channel class gives a null channel.\<close>

definition can_connect :: "channel_type \<Rightarrow> bool" where
  "can_connect ty \<longleftrightarrow> NewChannel ty \<noteq> None \<and> ty \<noteq> CHANNEL_TYPE_WS"

definition ConnectToPublisher :: "'m subscriber \<Rightarrow> 'm subscriber option" where
  "ConnectToPublisher s =
     (let (ty, matched) = match_loop (channel_types s) (channel_defs (topic_source (sub_topic s))) (channel_type s);
          s1 = s\<lparr>channel_type := ty\<rparr> in
      case matched of
        None \<Rightarrow> Some (sub_answer (on_error_callback s) (Unavailable ''Failed to connect to publisher.'')
                  (s1\<lparr>sub_channel := None\<rparr>))
      | Some d \<Rightarrow>
          if can_connect (cd_type d)
          then Some (s1\<lparr>sub_channel := Some \<lparr>sc_def = d, sc_phase = Connecting, sc_buffer = new_ChannelBuffer\<rparr>\<rparr>)
          else None)"

definition channel_is :: "channel_type \<Rightarrow> 'm subscriber \<Rightarrow> bool" where
  "channel_is ty s \<longleftrightarrow> (case sub_channel s of None \<Rightarrow> False | Some c \<Rightarrow> cd_type (sc_def c) = ty)"

text \<open>News of a publisher while the loop runs is expected on a UDP channel only: the code checks that.\<close>

definition OnFindPublisher :: "(topic_info \<Rightarrow> bool) \<Rightarrow> topic_info \<Rightarrow> 'm subscriber \<Rightarrow> 'm subscriber option" where
  "OnFindPublisher MaybeResolveMessgaeType ti s =
     (if sub_register s = Registering \<or> sub_register s = Unregistering \<or> sub_loop s = Stopping
      then Some (post (FindPublisherTask ti) s)
      else if sub_register s = Unregistered then Some s
      else if ti_status ti = UNREGISTERED
      then Some (if sub_loop s = Started then StopMessageLoop None s else s)
      else if sub_loop s = Started
      then (if channel_is CHANNEL_TYPE_UDP s then Some (s\<lparr>topic_info_to_update := Some ti\<rparr>) else None)
      else if \<not> MaybeResolveMessgaeType ti then Some s
      else ConnectToPublisher (s\<lparr>sub_topic := ti, channel_type := 1\<rparr>))"

section \<open>The message loop\<close>

datatype 'm receive_result = Received 'm | ReceiveFailed status bool

definition set_receiving :: "bool \<Rightarrow> 'm subscriber \<Rightarrow> 'm subscriber" where
  "set_receiving b s =
     s\<lparr>sub_channel := map_option (\<lambda>c. c\<lparr>sc_phase := Connected b\<rparr>) (sub_channel s)\<rparr>"

text \<open>
  \<open>OnReceiveMessage\<close> up to its last statement; the flag says that the next receive follows at once.
  A failed receive carries whether the TCP connection is still up.
\<close>

definition OnReceiveMessage_body :: "'m receive_result \<Rightarrow> 'm subscriber \<Rightarrow> (bool \<times> 'm subscriber) option" where
  "OnReceiveMessage_body r s =
     (if sub_loop s = Stopping \<or> sub_loop s = Stopped then Some (False, s)
      else (case r of
        Received message \<Rightarrow>
          map_option (\<lambda>q. (True, s\<lparr>receive_message_failed_cnt := 0, sub_queue := q, received := received s @ [message]\<rparr>))
            (Pool_push message (sub_queue s))
      | ReceiveFailed st connected \<Rightarrow>
          let s1 = sub_answer (on_error_callback s)
                 (make_error (error_code st) (''Failed to receive a message: '' @ error_message st)) s in
          if channel_is CHANNEL_TYPE_TCP s \<and> \<not> connected then Some (False, StopMessageLoop None s1)
          else
            let cnt = receive_message_failed_cnt s + 1; s2 = s1\<lparr>receive_message_failed_cnt := cnt\<rparr> in
            if cnt \<ge> kMaximumReceiveMessageFailedAllowed then Some (False, StopMessageLoop None s2)
            else Some (True, s2)))"

definition loop_again :: "'m subscriber \<Rightarrow> bool \<times> 'm subscriber" where
  "loop_again s = (if channel_is CHANNEL_TYPE_SHM s then (False, post ReceiveTask s) else (True, s))"

text \<open>
  \<open>ReceiveMessageLoop\<close> with the results that are there already; a second receive on a channel that
  has one under way is undefined.
\<close>

fun ReceiveMessageLoop :: "'m receive_result list \<Rightarrow> 'm subscriber \<Rightarrow> 'm subscriber option" where
  "ReceiveMessageLoop rs s =
     (if sub_loop s = Stopping \<or> sub_loop s = Stopped then Some s
      else (case sub_channel s of
        None \<Rightarrow> None
      | Some c \<Rightarrow>
          if sc_phase c \<noteq> Connected False then None
          else (case rs of
            [] \<Rightarrow> Some (set_receiving True s)
          | r # rs' \<Rightarrow>
              (case OnReceiveMessage_body r s of
                 None \<Rightarrow> None
               | Some (False, s1) \<Rightarrow> Some s1
               | Some (True, s1) \<Rightarrow>
                   (case loop_again s1 of
                      (False, s2) \<Rightarrow> Some s2
                    | (True, s2) \<Rightarrow> ReceiveMessageLoop rs' s2)))))"

declare ReceiveMessageLoop.simps [simp del]

definition Subscriber_OnReceiveMessage ::
    "'m receive_result \<Rightarrow> 'm receive_result list \<Rightarrow> 'm subscriber \<Rightarrow> 'm subscriber option" where
  "Subscriber_OnReceiveMessage r rs s =
     (case OnReceiveMessage_body r s of
        None \<Rightarrow> None
      | Some (False, s1) \<Rightarrow> Some s1
      | Some (True, s1) \<Rightarrow>
          (case loop_again s1 of (False, s2) \<Rightarrow> Some s2 | (True, s2) \<Rightarrow> ReceiveMessageLoop rs s2))"

definition deliver :: "'m subscriber \<Rightarrow> 'm subscriber option" where
  "deliver s =
     (if Pool_empty (sub_queue s) then Some s
      else do {
        message \<leftarrow> Pool_front (sub_queue s);
        q \<leftarrow> Pool_pop (sub_queue s);
        cb \<leftarrow> on_message_callback s;
        Some (s\<lparr>sub_queue := q, delivered := delivered s @ [(cb, message)]\<rparr>)
      })"

definition NotifyMessageLoop :: "'m subscriber \<Rightarrow> 'm subscriber option" where
  "NotifyMessageLoop s =
     (if sub_loop s = Stopped then Some s
      else map_option (\<lambda>s1. post (if sub_loop s1 = Stopping \<and> Pool_empty (sub_queue s1) then StopTask else NotifyTask) s1)
        (deliver s))"

definition StartMessageLoop :: "'m receive_result list \<Rightarrow> 'm subscriber \<Rightarrow> 'm subscriber option" where
  "StartMessageLoop rs s =
     (if sub_register s = Unregistering \<or> sub_register s = Unregistered then Some s
      else if sub_loop s = Stopping then Some (post StartTask s)
      else if sub_loop s = Started then Some s
      else do {
        q \<leftarrow> Pool_reserve (queue_size (sub_settings s)) (sub_queue s);
        s1 \<leftarrow> ReceiveMessageLoop rs (s\<lparr>sub_loop := Started, sub_queue := q\<rparr>);
        NotifyMessageLoop s1
      })"

text \<open>\<open>OnConnectToPublisher\<close>, with the handshake of ROS topics in between.\<close>

definition OnConnectToPublisher ::
    "bool \<Rightarrow> status \<Rightarrow> 'm receive_result list \<Rightarrow> 'm subscriber \<Rightarrow> 'm subscriber option" where
  "OnConnectToPublisher has_ros rv rs s =
     (if Status_ok rv then
        let s1 = s\<lparr>sub_channel := map_option (\<lambda>c. c\<lparr>sc_buffer :=
                (if is_dynamic_buffer (sub_settings s) then SetDynamicBuffer True (sc_buffer c)
                 else SetCapacity (buffer_size (sub_settings s)) (sc_buffer c))\<rparr>) (sub_channel s)\<rparr> in
        if has_ros \<and> IsUsingRosProtocol (ti_topic (sub_topic s))
        then Some (s1\<lparr>sub_channel := map_option (\<lambda>c. c\<lparr>sc_phase := Handshaking\<rparr>) (sub_channel s1)\<rparr>)
        else StartMessageLoop rs (set_receiving False s1)
      else ConnectToPublisher (s\<lparr>channel_type := push_bit 1 (channel_type s)\<rparr>))"

definition Subscriber_OnRosTopicHandshake ::
    "status \<Rightarrow> 'm receive_result list \<Rightarrow> 'm subscriber \<Rightarrow> 'm subscriber option" where
  "Subscriber_OnRosTopicHandshake rv rs s =
     (if Status_ok rv then
        StartMessageLoop rs (set_receiving False (s\<lparr>sub_channel :=
          map_option (\<lambda>c. c\<lparr>sc_buffer := SetDynamicBuffer False (sc_buffer c)\<rparr>) (sub_channel s)\<rparr>))
      else ConnectToPublisher (s\<lparr>channel_type := push_bit 1 (channel_type s)\<rparr>))"

definition release_if_unregistered :: "'m subscriber \<Rightarrow> 'm subscriber option" where
  "release_if_unregistered s =
     (if sub_register s = Unregistered
      then map_option (\<lambda>q. s\<lparr>sub_topic := empty_topic,
             topic_info_to_update := map_option (\<lambda>_. empty_topic) (topic_info_to_update s), sub_channel := None,
             sub_queue := q, on_message_callback := None, on_error_callback := None\<rparr>) (Pool_clear (sub_queue s))
      else Some s)"

definition Stop :: "(topic_info \<Rightarrow> bool) \<Rightarrow> 'm subscriber \<Rightarrow> 'm subscriber option" where
  "Stop MaybeResolveMessgaeType s =
     (case release_if_unregistered s of
        None \<Rightarrow> None
      | Some s0 \<Rightarrow>
          let s1 = s0\<lparr>sub_loop := Stopped\<rparr> in
          (case on_stopped_callback s1 of
             Some cb \<Rightarrow> Some (sub_answer (Some cb) Status_OK (s1\<lparr>on_stopped_callback := None\<rparr>))
           | None \<Rightarrow>
               (case topic_info_to_update s1 of
                  Some ti \<Rightarrow> OnFindPublisher MaybeResolveMessgaeType ti (s1\<lparr>topic_info_to_update := None\<rparr>)
                | None \<Rightarrow>
                    if receive_message_failed_cnt s1 \<ge> kMaximumReceiveMessageFailedAllowed
                    then ConnectToPublisher (s1\<lparr>channel_type := 1\<rparr>)
                    else Some s1)))"

section \<open>Events\<close>

datatype 'm sub_event =
    CallSubscribe nat settings nat "nat option" "nat option"
  | CallUnsubscribe "nat option"
  | MasterAnswers status
  | PublisherFound topic_info
  | ConnectDone status "'m receive_result list"
  | HandshakeDone status "'m receive_result list"
  | ReceiveDone "'m receive_result" "'m receive_result list"
  | RunSubTask nat "'m receive_result list"

text \<open>What the environment provides: ROS support, and the resolution of a topic's message type.\<close>

record sub_env =
  with_ros :: bool
  resolves :: "topic_info \<Rightarrow> bool"

definition master_answers :: "status \<Rightarrow> 'm subscriber \<Rightarrow> 'm subscriber" where
  "master_answers rv s =
     (case sub_requests s of
        [] \<Rightarrow> s
      | SubscribeTopicRequest types st on_msg on_err cb # rs \<Rightarrow>
          OnSubscribeTopicAsync types st on_msg on_err cb rv (s\<lparr>sub_requests := rs\<rparr>)
      | UnsubscribeTopicRequest cb # rs \<Rightarrow> OnUnubscribeTopicAsync cb rv (s\<lparr>sub_requests := rs\<rparr>))"

fun run_sub_task ::
    "sub_env \<Rightarrow> sub_task \<Rightarrow> 'm receive_result list \<Rightarrow> 'm subscriber \<Rightarrow> 'm subscriber option" where
  "run_sub_task env (FindPublisherTask ti) rs s = OnFindPublisher (resolves env) ti s"
| "run_sub_task env StartTask rs s = StartMessageLoop rs s"
| "run_sub_task env NotifyTask rs s = NotifyMessageLoop s"
| "run_sub_task env StopTask rs s = Stop (resolves env) s"
| "run_sub_task env ReceiveTask rs s = ReceiveMessageLoop rs s"

definition phase_is :: "link_phase \<Rightarrow> 'm subscriber \<Rightarrow> bool" where
  "phase_is ph s \<longleftrightarrow> (case sub_channel s of None \<Rightarrow> False | Some c \<Rightarrow> sc_phase c = ph)"

fun sub_exec :: "sub_env \<Rightarrow> 'm sub_event \<Rightarrow> 'm subscriber \<Rightarrow> 'm subscriber option" where
  "sub_exec env (CallSubscribe types st on_msg on_err cb) s = Some (RequestSubscribe types st on_msg on_err cb s)"
| "sub_exec env (CallUnsubscribe cb) s = Some (RequestUnsubscribe cb s)"
| "sub_exec env (MasterAnswers rv) s = Some (master_answers rv s)"
| "sub_exec env (PublisherFound ti) s = OnFindPublisher (resolves env) ti s"
| "sub_exec env (ConnectDone rv rs) s =
     (if phase_is Connecting s then OnConnectToPublisher (with_ros env) rv rs s else Some s)"
| "sub_exec env (HandshakeDone rv rs) s =
     (if phase_is Handshaking s then Subscriber_OnRosTopicHandshake rv rs s else Some s)"
| "sub_exec env (ReceiveDone r rs) s =
     (if phase_is (Connected True) s then Subscriber_OnReceiveMessage r rs (set_receiving False s) else Some s)"
| "sub_exec env (RunSubTask j rs) s =
     (if j < length (sub_tasks s)
      then run_sub_task env (sub_tasks s ! j) rs (s\<lparr>sub_tasks := take j (sub_tasks s) @ drop (Suc j) (sub_tasks s)\<rparr>)
      else Some s)"

inductive sub_step :: "sub_env \<Rightarrow> 'm subscriber \<Rightarrow> 'm subscriber \<Rightarrow> bool" for env :: sub_env where
  sub_event: "sub_exec env ev s = Some s' \<Longrightarrow> sub_step env s s'"

inductive_cases sub_stepE: "sub_step env s s'"

abbreviation sub_reachable :: "sub_env \<Rightarrow> 'm subscriber \<Rightarrow> bool" where
  "sub_reachable env \<equiv> reachable (\<lambda>s. s = new_Subscriber) (sub_step env)"

primrec sub_run :: "sub_env \<Rightarrow> 'm sub_event list \<Rightarrow> 'm subscriber \<Rightarrow> 'm subscriber option" where
  "sub_run env [] s = Some s"
| "sub_run env (ev # evs) s = Option.bind (sub_exec env ev s) (sub_run env evs)"

lemma sub_run_reachable:
  "sub_run env evs s = Some s' \<Longrightarrow> sub_reachable env s \<Longrightarrow> sub_reachable env s'"
proof (induction evs arbitrary: s)
  case (Cons ev evs)
  then obtain s1 where "sub_exec env ev s = Some s1" "sub_run env evs s1 = Some s'"
    by (auto simp: bind_eq_Some_conv)
  with Cons show ?case by (blast intro: reachable.move sub_step.sub_event)
qed simp

end
