(* ===== verification/Felicia_SubscriberProps.thy ===== *)
theory Felicia_SubscriberProps
  imports Felicia_Subscriber
begin

text \<open>
  Properties of the subscriber: its registration, the life of its message loop, the order of
  delivered messages, the search for a channel, and its reaction to failures.
\<close>

section \<open>Invariant\<close>

definition queue_ok :: "'m pool \<Rightarrow> bool" where
  "queue_ok q \<longleftrightarrow> pool_ok q \<or> q = null_pool"

definition sub_registration_ok :: "'m subscriber \<Rightarrow> bool" where
  "sub_registration_ok s \<longleftrightarrow>
     (case sub_register s of
        Registering \<Rightarrow> \<exists>types st on_msg on_err cb. sub_requests s = [SubscribeTopicRequest types st on_msg on_err cb]
      | Unregistering \<Rightarrow> \<exists>cb. sub_requests s = [UnsubscribeTopicRequest cb]
      | _ \<Rightarrow> sub_requests s = [])"

definition link_ok :: "'m subscriber \<Rightarrow> bool" where
  "link_ok s \<longleftrightarrow>
     (case sub_channel s of
        None \<Rightarrow> sub_loop s \<noteq> Started
      | Some c \<Rightarrow> (case sc_phase c of Connected _ \<Rightarrow> True | _ \<Rightarrow> sub_loop s = Stopped))"

definition driver_count :: "'m subscriber \<Rightarrow> nat" where
  "driver_count s = count_list (sub_tasks s) NotifyTask + count_list (sub_tasks s) StopTask"

definition loop_ok :: "'m subscriber \<Rightarrow> bool" where
  "loop_ok s \<longleftrightarrow>
     driver_count s = (if sub_loop s = Stopped then 0 else 1) \<and>
     (StopTask \<in> set (sub_tasks s) \<longrightarrow> sub_loop s = Stopping \<and> Pool_empty (sub_queue s)) \<and>
     StartTask \<notin> set (sub_tasks s)"

definition callback_ok :: "'m subscriber \<Rightarrow> bool" where
  "callback_ok s \<longleftrightarrow>
     (sub_register s = Registered \<or> sub_register s = Unregistering \<or> sub_loop s \<noteq> Stopped \<or> sub_channel s \<noteq> None \<longrightarrow>
      on_message_callback s \<noteq> None)"

definition order_ok :: "'m subscriber \<Rightarrow> bool" where
  "order_ok s \<longleftrightarrow> queue_ok (sub_queue s) \<and>
     subseq (map snd (delivered s) @ Pool_contents (sub_queue s)) (received s)"

definition sub_ok :: "'m subscriber \<Rightarrow> bool" where
  "sub_ok s \<longleftrightarrow> sub_registration_ok s \<and> link_ok s \<and> loop_ok s \<and> callback_ok s \<and> order_ok s"

section \<open>The queue\<close>

lemma null_pool_simps [simp]: "Pool_empty null_pool" "Pool_contents null_pool = []" "Pool_push v null_pool = None"
  by (simp_all add: null_pool_def PoolIndex_reset_def Pool_empty_def Pool_size_def PoolIndex_size_def
      Pool_contents_def count_of_def Pool_push_def Pool_place_def)

lemma new_Pool_0: "new_Pool 0 = null_pool"
  by (simp add: new_Pool_def null_pool_def PoolIndex_reset_def)

lemma queue_ok_empty: "queue_ok q \<Longrightarrow> Pool_empty q \<longleftrightarrow> Pool_contents q = []"
  using Pool_empty_count [of q] length_contents [of q] by (auto simp: queue_ok_def simp del: length_contents)

lemma queue_push:
  assumes "queue_ok q" "Pool_push v q = Some q'"
  shows "queue_ok q'" "subseq (Pool_contents q') (Pool_contents q @ [v])"
proof -
  from assms have "pool_ok q" by (auto simp: queue_ok_def)
  with pool.push_accepts [of q v] assms(2) have q': "pool_ok q'"
      "Pool_contents q' = Pool_contents q @ [v] \<or> Pool_contents q' = tl (Pool_contents q) @ [v]" by auto
  then show "queue_ok q'" "subseq (Pool_contents q') (Pool_contents q @ [v])"
    by (auto simp: queue_ok_def list_emb_append_mono)
qed

lemma queue_pop:
  assumes "queue_ok q" "\<not> Pool_empty q"
  obtains q' where "Pool_pop q = Some q'" "queue_ok q'" "Pool_front q = Some (hd (Pool_contents q))"
    "Pool_contents q = hd (Pool_contents q) # Pool_contents q'"
proof -
  from assms have ok: "pool_ok q" by (auto simp: queue_ok_def)
  have ne: "Pool_contents q \<noteq> []" using assms queue_ok_empty by blast
  obtain q' where "Pool_pop q = Some q'" "pool_ok q'" "Pool_contents q' = tl (Pool_contents q)"
    using pool.pop_oldest [OF ok] by blast
  with that ne Pool_front_correct [OF ok ne] show thesis by (simp add: queue_ok_def)
qed

lemma reserve_empty: "Pool_empty q \<Longrightarrow> Pool_reserve cap q = Some (new_Pool cap)"
  by (simp add: Pool_reserve_def reserve_loop.simps)

lemma queue_reserve:
  assumes "queue_ok q" "Pool_reserve cap q = Some q'"
  shows "queue_ok q' \<and> subseq (Pool_contents q') (Pool_contents q) \<and> (0 < cap \<longrightarrow> pool_ok q')"
proof -
  consider (empty) "Pool_empty q" | (moves) "\<not> Pool_empty q" "pool_ok q" "0 < cap" | (none) "\<not> Pool_empty q" "cap = 0"
    using assms(1) word_gt_0 [of cap] by (auto simp: queue_ok_def)
  then show ?thesis
  proof cases
    case empty
    with assms(2) have "q' = new_Pool cap" by (simp add: reserve_empty)
    with empty queue_ok_empty [OF assms(1)] new_Pool_ok(1,2) [of cap] show ?thesis
      by (cases "cap = 0") (auto simp: queue_ok_def new_Pool_0 word_gt_0)
  next
    case moves
    with Pool_reserve_correct [of q cap] assms(2) have "pool_ok q'"
      "Pool_contents q' = keep_last (unat cap) (Pool_contents q)" by auto
    moreover have "subseq (drop n xs) xs" for n and xs :: "'a list"
      by (metis append_take_drop_id list_emb_append2 subseq_order.order_refl)
    ultimately show ?thesis by (simp add: queue_ok_def keep_last_def)
  next
    case none
    with assms(2) show ?thesis
      by (auto simp: Pool_reserve_def reserve_loop.simps [of q] new_Pool_0 bind_eq_Some_conv)
  qed
qed

lemma queue_clear: "queue_ok q \<Longrightarrow> Pool_clear q = Some null_pool"
  using clear_loop_correct [of q]
  by (auto simp: queue_ok_def Pool_clear_def null_pool_def clear_loop.simps [of null_pool])
    (metis null_pool_def null_pool_simps(1) clear_loop.simps bind.bind_lunit)

section \<open>Receiving\<close>

text \<open>What a chain of receives leaves as it is, and what it does to the loop and the queue.\<close>

definition linked :: "'m subscriber \<Rightarrow> bool" where
  "linked s \<longleftrightarrow> (\<exists>c b. sub_channel s = Some c \<and> sc_phase c = Connected b)"

definition recv_frame :: "'m subscriber \<Rightarrow> 'm subscriber \<Rightarrow> bool" where
  "recv_frame s s' \<longleftrightarrow>
     sub_register s' = sub_register s \<and> sub_requests s' = sub_requests s \<and>
     on_message_callback s' = on_message_callback s \<and> delivered s' = delivered s \<and>
     sub_settings s' = sub_settings s \<and> channel_types s' = channel_types s \<and> channel_type s' = channel_type s \<and>
     map_option sc_def (sub_channel s') = map_option sc_def (sub_channel s) \<and>
     (\<not> channel_is CHANNEL_TYPE_SHM s \<longrightarrow> sub_tasks s' = sub_tasks s) \<and>
     driver_count s' = driver_count s \<and>
     (\<forall>t. t \<noteq> ReceiveTask \<longrightarrow> (t \<in> set (sub_tasks s') \<longleftrightarrow> t \<in> set (sub_tasks s))) \<and>
     (if sub_loop s = Started then sub_loop s' = Started \<or> sub_loop s' = Stopping
      else sub_loop s' = sub_loop s \<and> sub_queue s' = sub_queue s) \<and>
     (linked s' = linked s \<and> (sub_channel s' = None) = (sub_channel s = None)) \<and>
     (pool_ok (sub_queue s) \<longrightarrow> pool_ok (sub_queue s')) \<and>
     (order_ok s \<longrightarrow> order_ok s')"

lemma recv_frame_refl [simp]: "recv_frame s s"
  by (simp add: recv_frame_def)

lemma channel_is_cong:
  "map_option sc_def (sub_channel s') = map_option sc_def (sub_channel s) \<Longrightarrow> channel_is ty s' = channel_is ty s"
  by (auto simp: channel_is_def split: option.splits)

lemma recv_frame_trans: "recv_frame s t \<Longrightarrow> recv_frame t u \<Longrightarrow> recv_frame s u"
  using channel_is_cong [of t s CHANNEL_TYPE_SHM] by (simp add: recv_frame_def split: if_splits)

lemma recv_frame_receiving: "linked s \<Longrightarrow> recv_frame s (set_receiving b s)"
  by (auto simp: recv_frame_def set_receiving_def driver_count_def linked_def order_ok_def)

lemma recv_frame_again: "loop_again s = (again, s') \<Longrightarrow> recv_frame s s'"
  by (auto simp: loop_again_def post_def recv_frame_def driver_count_def linked_def order_ok_def split: if_splits)

lemma recv_frame_failure:
  "sub_loop s = Started \<Longrightarrow> recv_frame s (sub_answer cb st s)"
  "sub_loop s = Started \<Longrightarrow> recv_frame s (s\<lparr>receive_message_failed_cnt := n\<rparr>)"
  "sub_loop s = Started \<Longrightarrow> recv_frame s (StopMessageLoop cb s)"
  by (auto simp: recv_frame_def sub_answer_def StopMessageLoop_def driver_count_def linked_def order_ok_def)

lemma recv_frame_push:
  assumes "Pool_push v (sub_queue s) = Some q" "sub_loop s = Started"
  shows "recv_frame s (s\<lparr>receive_message_failed_cnt := 0, sub_queue := q, received := received s @ [v]\<rparr>)"
proof -
  have "pool_ok q" if "pool_ok (sub_queue s)"
    using pool.push_accepts [OF that, of v] assms(1) by auto
  moreover have "order_ok (s\<lparr>receive_message_failed_cnt := 0, sub_queue := q, received := received s @ [v]\<rparr>)"
    if "order_ok s"
  proof -
    have "subseq (map snd (delivered s) @ Pool_contents q) ((map snd (delivered s) @ Pool_contents (sub_queue s)) @ [v])"
      using queue_push(2) [OF _ assms(1)] that by (simp add: order_ok_def list_emb_append_mono)
    moreover have "subseq ((map snd (delivered s) @ Pool_contents (sub_queue s)) @ [v]) (received s @ [v])"
      using that unfolding order_ok_def by (intro list_emb_append_mono) simp_all
    ultimately have "subseq (map snd (delivered s) @ Pool_contents q) (received s @ [v])"
      by (rule subseq_order.order_trans)
    with queue_push(1) [OF _ assms(1)] that show ?thesis by (simp add: order_ok_def)
  qed
  ultimately show ?thesis using assms(2) by (auto simp: recv_frame_def driver_count_def linked_def)
qed

lemma recv_frame_body:
  assumes "OnReceiveMessage_body r s = Some (again, s')"
  shows "recv_frame s s'"
proof (cases "sub_loop s = Started")
  case False
  then have "sub_loop s = Stopping \<or> sub_loop s = Stopped" by (cases "sub_loop s") auto
  with assms show ?thesis by (auto simp: OnReceiveMessage_body_def)
next
  case True
  show ?thesis
  proof (cases r)
    case (Received v)
    with assms True recv_frame_push [of v s] show ?thesis by (auto simp: OnReceiveMessage_body_def)
  next
    case (ReceiveFailed st connected)
    let ?e = "make_error (error_code st) (''Failed to receive a message: '' @ error_message st)"
    let ?s1 = "sub_answer (on_error_callback s) ?e s"
    let ?s2 = "?s1\<lparr>receive_message_failed_cnt := receive_message_failed_cnt s + 1\<rparr>"
    have st1: "sub_loop ?s1 = Started" "sub_loop ?s2 = Started" using True by (simp_all add: sub_answer_def)
    have f1: "recv_frame s ?s1" using recv_frame_failure(1) [OF True] .
    have f2: "recv_frame s ?s2" using f1 recv_frame_failure(2) [OF st1(1)] by (rule recv_frame_trans)
    have f3: "recv_frame s (StopMessageLoop None ?s1)" "recv_frame s (StopMessageLoop None ?s2)"
      using recv_frame_trans [OF f1 recv_frame_failure(3) [OF st1(1)]]
        recv_frame_trans [OF f2 recv_frame_failure(3) [OF st1(2)]] by blast+
    have "s' = StopMessageLoop None ?s1 \<or> s' = StopMessageLoop None ?s2 \<or> s' = ?s2"
      using assms True ReceiveFailed by (auto simp: OnReceiveMessage_body_def Let_def split: if_splits)
    with f2 f3 show ?thesis by blast
  qed
qed

lemma recv_frame_loop: "ReceiveMessageLoop rs s = Some s' \<Longrightarrow> recv_frame s s'"
proof (induction rs arbitrary: s)
  case Nil
  then show ?case
    by (auto simp: ReceiveMessageLoop.simps [of "[]"] linked_def intro!: recv_frame_receiving
        split: if_splits option.splits)
next
  case (Cons r rs)
  then consider "s' = s" | s1 where "OnReceiveMessage_body r s = Some (False, s1)" "s' = s1"
    | s1 where "OnReceiveMessage_body r s = Some (True, s1)" "loop_again s1 = (False, s')"
    | s1 s2 where "OnReceiveMessage_body r s = Some (True, s1)" "loop_again s1 = (True, s2)"
        "ReceiveMessageLoop rs s2 = Some s'"
    by (auto simp: ReceiveMessageLoop.simps [of "r # rs"] split: if_splits option.splits prod.splits bool.splits)
  then show ?case
    by cases (simp, (meson recv_frame_trans recv_frame_body recv_frame_again Cons.IH)+)
qed

lemma recv_frame_OnReceive: "Subscriber_OnReceiveMessage r rs s = Some s' \<Longrightarrow> recv_frame s s'"
  by (auto simp: Subscriber_OnReceiveMessage_def split: option.splits prod.splits bool.splits)
    (meson recv_frame_trans recv_frame_body recv_frame_again recv_frame_loop)+

section \<open>The loop\<close>

definition rest_ok :: "'m subscriber \<Rightarrow> bool" where
  "rest_ok s \<longleftrightarrow> sub_registration_ok s \<and> link_ok s \<and> callback_ok s \<and> order_ok s"

lemma sub_ok_alt: "sub_ok s \<longleftrightarrow> rest_ok s \<and> loop_ok s"
  by (auto simp: sub_ok_def rest_ok_def)

text \<open>A running loop whose one task has just been taken.\<close>

definition taken_over :: "'m subscriber \<Rightarrow> bool" where
  "taken_over s \<longleftrightarrow> rest_ok s \<and> sub_loop s \<noteq> Stopped \<and> driver_count s = 0 \<and> StartTask \<notin> set (sub_tasks s)"

lemma driver_count_0: "driver_count s = 0 \<longleftrightarrow> NotifyTask \<notin> set (sub_tasks s) \<and> StopTask \<notin> set (sub_tasks s)"
  by (auto simp: driver_count_def count_list_0_iff)

lemma rest_ok_tasks [simp]: "rest_ok (s\<lparr>sub_tasks := ts\<rparr>) = rest_ok s"
  by (auto simp: rest_ok_def sub_registration_ok_def link_ok_def callback_ok_def order_ok_def
      split: register_state.split option.split link_phase.split)

lemma deliver_ok:
  assumes "deliver s = Some s'" "rest_ok s"
  shows "rest_ok s' \<and> sub_loop s' = sub_loop s \<and> sub_tasks s' = sub_tasks s"
proof (cases "Pool_empty (sub_queue s)")
  case True
  with assms show ?thesis by (simp add: deliver_def)
next
  case False
  have ok: "queue_ok (sub_queue s)" using assms(2) by (simp add: rest_ok_def order_ok_def)
  obtain q where q: "Pool_pop (sub_queue s) = Some q" "queue_ok q"
      "Pool_front (sub_queue s) = Some (hd (Pool_contents (sub_queue s)))"
      "Pool_contents (sub_queue s) = hd (Pool_contents (sub_queue s)) # Pool_contents q"
    using queue_pop [OF ok False] by blast
  then obtain cb where s': "s' = s\<lparr>sub_queue := q, delivered := delivered s @ [(cb, hd (Pool_contents (sub_queue s)))]\<rparr>"
    using assms(1) False by (auto simp: deliver_def bind_eq_Some_conv)
  have "subseq (map snd (delivered s) @ hd (Pool_contents (sub_queue s)) # Pool_contents q) (received s)"
    using assms(2) q(4) by (simp add: rest_ok_def order_ok_def)
  with s' assms(2) q(2) show ?thesis
    by (auto simp: rest_ok_def sub_registration_ok_def link_ok_def callback_ok_def order_ok_def
        split: register_state.split option.split link_phase.split)
qed

lemma NotifyMessageLoop_ok:
  assumes "NotifyMessageLoop s = Some s'" "taken_over s"
  shows "sub_ok s'"
proof -
  from assms obtain s1 where s1: "deliver s = Some s1"
      "s' = post (if sub_loop s1 = Stopping \<and> Pool_empty (sub_queue s1) then StopTask else NotifyTask) s1"
    by (auto simp: NotifyMessageLoop_def taken_over_def)
  with deliver_ok [OF s1(1)] assms(2) show ?thesis
    by (auto simp: sub_ok_alt loop_ok_def taken_over_def post_def driver_count_def count_list_0_iff)
qed

lemma recv_frame_rest: "recv_frame s s' \<Longrightarrow> rest_ok s \<Longrightarrow> sub_loop s = Started \<Longrightarrow> rest_ok s'"
  by (auto simp: rest_ok_def recv_frame_def sub_registration_ok_def link_ok_def callback_ok_def linked_def
      split: register_state.splits option.splits link_phase.splits)

lemma recv_frame_taken_over:
  "recv_frame s s' \<Longrightarrow> taken_over s \<Longrightarrow> sub_loop s = Started \<Longrightarrow> taken_over s'"
  using recv_frame_rest [of s s'] by (auto simp: taken_over_def recv_frame_def)

lemma recv_frame_loop_ok: "recv_frame s s' \<Longrightarrow> sub_ok s \<Longrightarrow> sub_ok s'"
proof (cases "sub_loop s = Started")
  case True
  assume f: "recv_frame s s'" and ok: "sub_ok s"
  then have "StopTask \<notin> set (sub_tasks s')" using True by (auto simp: recv_frame_def sub_ok_def loop_ok_def)
  with f ok True recv_frame_rest [OF f] show ?thesis
    by (auto simp: sub_ok_alt loop_ok_def recv_frame_def)
next
  case False
  assume "recv_frame s s'" and "sub_ok s"
  with False show ?thesis
    by (auto simp: sub_ok_def loop_ok_def recv_frame_def sub_registration_ok_def link_ok_def callback_ok_def linked_def
        split: register_state.splits option.splits link_phase.splits)
qed

text \<open>Starting the loop on a connected channel.\<close>

lemma StartMessageLoop_ok:
  assumes run: "StartMessageLoop rs s = Some s'" and ok: "sub_ok s" "linked s" "sub_loop s = Stopped"
  shows "sub_ok s'"
proof (cases "sub_register s = Unregistering \<or> sub_register s = Unregistered")
  case True
  with run ok show ?thesis by (auto simp: StartMessageLoop_def)
next
  case False
  then obtain q s1 where q: "Pool_reserve (queue_size (sub_settings s)) (sub_queue s) = Some q"
      and s1: "ReceiveMessageLoop rs (s\<lparr>sub_loop := Started, sub_queue := q\<rparr>) = Some s1"
      and n: "NotifyMessageLoop s1 = Some s'"
    using run ok(3) by (auto simp: StartMessageLoop_def bind_eq_Some_conv split: if_splits)
  let ?s = "s\<lparr>sub_loop := Started, sub_queue := q\<rparr>"
  have qok: "queue_ok (sub_queue s)" using ok(1) by (simp add: sub_ok_def order_ok_def)
  have "subseq (map snd (delivered s) @ Pool_contents q) (received s)"
    using queue_reserve [OF qok q] ok(1) unfolding sub_ok_def order_ok_def
    by (meson list_emb_append_mono subseq_order.order_refl subseq_order.order_trans)
  then have "taken_over ?s"
    using ok False queue_reserve [OF qok q]
    by (auto simp: taken_over_def sub_ok_def rest_ok_def loop_ok_def sub_registration_ok_def link_ok_def linked_def
        callback_ok_def order_ok_def driver_count_def split: register_state.splits)
  then have "taken_over s1" using recv_frame_taken_over [OF recv_frame_loop [OF s1]] by simp
  with n show ?thesis by (rule NotifyMessageLoop_ok)
qed

text \<open>Connecting happens while the loop is stopped.\<close>

lemma match_loop_mem: "match_loop types ds ty = (ty', Some d) \<Longrightarrow> d \<in> set ds"
proof (induction types ds ty rule: match_loop.induct)
  case (1 types ds ty)
  show ?case
  proof (cases "0 < ty \<and> ty \<le> types")
    case True
    show ?thesis
    proof (cases "if ty AND types \<noteq> 0 then def_of_type ty ds else None")
      case None
      with 1 True show ?thesis by (simp add: match_loop.simps [of types ds ty])
    next
      case (Some d')
      with "1.prems" True show ?thesis
        by (auto simp: match_loop.simps [of types ds ty] def_of_type_def dest: find_Some_mem split: if_splits)
    qed
  qed (use "1.prems" in \<open>auto simp: match_loop.simps [of types ds ty]\<close>)
qed

lemma ConnectToPublisher_ok:
  assumes run: "ConnectToPublisher s = Some s'" and ok: "sub_ok s" "sub_loop s = Stopped"
    and cb: "on_message_callback s \<noteq> None \<or> channel_defs (topic_source (sub_topic s)) = []"
  shows "sub_ok s'"
proof -
  obtain ty m where m: "match_loop (channel_types s) (channel_defs (topic_source (sub_topic s))) (channel_type s) = (ty, m)"
    by fastforce
  show ?thesis
  proof (cases m)
    case None
    with run m have "s' = sub_answer (on_error_callback s) (Unavailable ''Failed to connect to publisher.'')
        (s\<lparr>channel_type := ty, sub_channel := None\<rparr>)" by (simp add: ConnectToPublisher_def)
    with ok show ?thesis
      by (auto simp: sub_ok_def sub_answer_def sub_registration_ok_def link_ok_def loop_ok_def callback_ok_def
          order_ok_def driver_count_def split: register_state.splits)
  next
    case (Some d)
    then have "on_message_callback s \<noteq> None" using cb match_loop_mem m by fastforce
    moreover have "s' = s\<lparr>channel_type := ty,
        sub_channel := Some \<lparr>sc_def = d, sc_phase = Connecting, sc_buffer = new_ChannelBuffer\<rparr>\<rparr>"
      using run m Some by (simp add: ConnectToPublisher_def split: if_splits)
    ultimately show ?thesis using ok
      by (auto simp: sub_ok_def sub_registration_ok_def link_ok_def loop_ok_def callback_ok_def
          order_ok_def driver_count_def split: register_state.splits)
  qed
qed

lemmas sub_ok_defs = sub_ok_def sub_registration_ok_def link_ok_def loop_ok_def callback_ok_def order_ok_def
  driver_count_def

lemma sub_registration_ok_cong:
  "sub_register s' = sub_register s \<Longrightarrow> sub_requests s' = sub_requests s \<Longrightarrow>
     sub_registration_ok s' = sub_registration_ok s"
  by (simp only: sub_registration_ok_def)

lemma order_ok_cong:
  "sub_queue s' = sub_queue s \<Longrightarrow> delivered s' = delivered s \<Longrightarrow> received s' = received s \<Longrightarrow> order_ok s' = order_ok s"
  by (simp only: order_ok_def)

lemma link_ok_cong: "sub_channel s' = sub_channel s \<Longrightarrow> sub_loop s' = sub_loop s \<Longrightarrow> link_ok s' = link_ok s"
  by (simp only: link_ok_def)

lemma loop_ok_cong:
  "sub_loop s' = sub_loop s \<Longrightarrow> sub_tasks s' = sub_tasks s \<Longrightarrow> sub_queue s' = sub_queue s \<Longrightarrow> loop_ok s' = loop_ok s"
  by (simp only: loop_ok_def driver_count_def)

lemma callback_ok_cong:
  "sub_register s' = sub_register s \<Longrightarrow> sub_loop s' = sub_loop s \<Longrightarrow> sub_channel s' = sub_channel s \<Longrightarrow>
     on_message_callback s' = on_message_callback s \<Longrightarrow> callback_ok s' = callback_ok s"
  by (simp only: callback_ok_def)

lemma sub_ok_cong:
  assumes "sub_register s' = sub_register s" "sub_requests s' = sub_requests s" "sub_channel s' = sub_channel s"
    "sub_loop s' = sub_loop s" "sub_tasks s' = sub_tasks s" "sub_queue s' = sub_queue s"
    "on_message_callback s' = on_message_callback s" "delivered s' = delivered s" "received s' = received s"
  shows "sub_ok s' = sub_ok s"
  using sub_registration_ok_cong [of s' s] order_ok_cong [of s' s] link_ok_cong [of s' s] loop_ok_cong [of s' s]
    callback_ok_cong [of s' s] by (simp add: sub_ok_def assms)

lemma sub_ok_update [simp]:
  "sub_ok (s\<lparr>channel_type := n\<rparr>) = sub_ok s" "sub_ok (s\<lparr>sub_topic := ti\<rparr>) = sub_ok s"
  "sub_ok (s\<lparr>topic_info_to_update := tu\<rparr>) = sub_ok s" "sub_ok (s\<lparr>on_stopped_callback := cb\<rparr>) = sub_ok s"
  "sub_ok (s\<lparr>sub_replies := rs\<rparr>) = sub_ok s"
  by (rule sub_ok_cong; simp)+

lemma sub_ok_answer [simp]: "sub_ok (sub_answer cb st s) = sub_ok s"
  by (simp add: sub_answer_def)

lemma sub_ok_stopping:
  assumes "sub_ok s" "sub_loop s = Started"
  shows "sub_ok (s\<lparr>sub_loop := Stopping\<rparr>)"
proof -
  let ?s = "s\<lparr>sub_loop := Stopping\<rparr>"
  have "sub_registration_ok ?s = sub_registration_ok s" by (rule sub_registration_ok_cong) simp_all
  moreover have "order_ok ?s = order_ok s" by (rule order_ok_cong) simp_all
  moreover have "link_ok ?s" using assms by (auto simp: sub_ok_def link_ok_def split: option.splits link_phase.splits)
  moreover have "loop_ok ?s" using assms by (auto simp: sub_ok_def loop_ok_def driver_count_def)
  moreover have "callback_ok ?s" using assms by (simp add: sub_ok_def callback_ok_def)
  ultimately show ?thesis using assms(1) by (simp add: sub_ok_def)
qed

lemma StopMessageLoop_ok:
  assumes "sub_ok s"
  shows "sub_ok (StopMessageLoop cb s)"
proof (cases "sub_loop s = Started")
  case True
  have "StopMessageLoop cb s = (s\<lparr>sub_loop := Stopping\<rparr>)\<lparr>on_stopped_callback := cb\<rparr>"
    using True by (simp add: StopMessageLoop_def)
  with sub_ok_stopping [OF assms True] show ?thesis by simp
next
  case False
  then have "StopMessageLoop cb s = s \<or> (\<exists>st. StopMessageLoop cb s = sub_answer cb st s)"
    by (cases "sub_loop s") (auto simp: StopMessageLoop_def)
  with assms show ?thesis by auto
qed

lemma sub_ok_post_find: "sub_ok (post (FindPublisherTask ti) s) = sub_ok s"
proof -
  let ?s = "post (FindPublisherTask ti) s"
  have "sub_registration_ok ?s = sub_registration_ok s" "order_ok ?s = order_ok s" "link_ok ?s = link_ok s"
      "callback_ok ?s = callback_ok s"
    by (rule sub_registration_ok_cong order_ok_cong link_ok_cong callback_ok_cong; simp add: post_def)+
  moreover have "loop_ok ?s = loop_ok s" by (simp add: loop_ok_def driver_count_def post_def)
  ultimately show ?thesis by (simp add: sub_ok_def)
qed

lemma OnFindPublisher_ok:
  assumes run: "OnFindPublisher mr ti s = Some s'" and ok: "sub_ok s"
  shows "sub_ok s'"
proof (cases "sub_register s = Registering \<or> sub_register s = Unregistering \<or> sub_loop s = Stopping \<or>
    sub_register s = Unregistered")
  case True
  with run have "s' = post (FindPublisherTask ti) s \<or> s' = s" by (simp add: OnFindPublisher_def split: if_splits)
  with ok show ?thesis by (auto simp: sub_ok_post_find)
next
  case False
  then have reg: "sub_register s = Registered" by (cases "sub_register s") simp_all
  note f = run [unfolded OnFindPublisher_def reg, simplified]
  show ?thesis
  proof (cases "sub_loop s")
    case Started
    with f have "s' = StopMessageLoop None s \<or> s' = s\<lparr>topic_info_to_update := Some ti\<rparr>"
      by (simp split: if_splits)
    with ok StopMessageLoop_ok [OF ok, of None] show ?thesis by auto
  next
    case Stopped
    with f have "s' = s \<or> ConnectToPublisher (s\<lparr>sub_topic := ti, channel_type := 1\<rparr>) = Some s'"
      by (simp split: if_splits)
    moreover have "on_message_callback s \<noteq> None" using ok reg by (simp add: sub_ok_def callback_ok_def)
    ultimately show ?thesis
      using ConnectToPublisher_ok [of "s\<lparr>sub_topic := ti, channel_type := 1\<rparr>" s'] ok Stopped by auto
  qed (use False in simp)
qed

lemma release_ok:
  assumes run: "release_if_unregistered s = Some s'"
    and pre: "rest_ok s" "driver_count s = 0" "sub_loop s = Stopping" "StartTask \<notin> set (sub_tasks s)"
  shows "sub_ok (s'\<lparr>sub_loop := Stopped\<rparr>) \<and>
    (on_message_callback s' \<noteq> None \<or> channel_defs (topic_source (sub_topic s')) = [])"
proof (cases "sub_register s = Unregistered")
  case True
  have q: "queue_ok (sub_queue s)" "subseq (map snd (delivered s)) (received s)"
    using pre(1) subseq_appendD by (auto simp: rest_ok_def order_ok_def)
  have s': "s' = s\<lparr>sub_topic := empty_topic,
      topic_info_to_update := map_option (\<lambda>_. empty_topic) (topic_info_to_update s), sub_channel := None,
      sub_queue := null_pool, on_message_callback := None, on_error_callback := None\<rparr>"
    using run True queue_clear [OF q(1)] by (simp add: release_if_unregistered_def)
  have "sub_registration_ok (s'\<lparr>sub_loop := Stopped\<rparr>) = sub_registration_ok s"
    unfolding s' by (rule sub_registration_ok_cong) simp_all
  with s' True pre q(2) show ?thesis
    by (simp add: sub_ok_def rest_ok_def link_ok_def loop_ok_def driver_count_def callback_ok_def order_ok_def queue_ok_def
        empty_topic_def count_list_0_iff)
next
  case False
  with run have s': "s' = s" by (simp add: release_if_unregistered_def)
  have "sub_registration_ok (s\<lparr>sub_loop := Stopped\<rparr>) = sub_registration_ok s" "order_ok (s\<lparr>sub_loop := Stopped\<rparr>) = order_ok s"
    by (rule sub_registration_ok_cong order_ok_cong; simp)+
  moreover have "link_ok (s\<lparr>sub_loop := Stopped\<rparr>)" "loop_ok (s\<lparr>sub_loop := Stopped\<rparr>)"
    using pre(2,4) by (auto simp: link_ok_def loop_ok_def driver_count_def count_list_0_iff split: option.splits link_phase.splits)
  moreover have "on_message_callback s \<noteq> None" using pre(1,3) by (simp add: rest_ok_def callback_ok_def)
  ultimately show ?thesis using pre(1) s' by (simp add: sub_ok_def rest_ok_def callback_ok_def)
qed

lemma Stop_ok:
  assumes run: "Stop mr s = Some s'"
    and pre: "rest_ok s" "driver_count s = 0" "sub_loop s = Stopping" "StartTask \<notin> set (sub_tasks s)"
  shows "sub_ok s'"
proof -
  obtain s0 where s0: "release_if_unregistered s = Some s0"
    using run by (auto simp: Stop_def split: option.splits)
  let ?s = "s0\<lparr>sub_loop := Stopped\<rparr>"
  note ok = release_ok [OF s0 pre]
  note f = run [unfolded Stop_def s0 Let_def, simplified]
  show ?thesis
  proof (cases "on_stopped_callback s0")
    case (Some cb)
    with f have "s' = sub_answer (Some cb) Status_OK (?s\<lparr>on_stopped_callback := None\<rparr>)" by simp
    with ok show ?thesis by simp
  next
    case None
    show ?thesis
    proof (cases "topic_info_to_update s0")
      case (Some ti)
      with f None have "OnFindPublisher mr ti (?s\<lparr>topic_info_to_update := None\<rparr>) = Some s'" by simp
      from OnFindPublisher_ok [OF this] ok show ?thesis by simp
    next
      case no_update: None
      show ?thesis
      proof (cases "kMaximumReceiveMessageFailedAllowed \<le> receive_message_failed_cnt s0")
        case True
        with f None no_update have "ConnectToPublisher (?s\<lparr>channel_type := 1\<rparr>) = Some s'" by simp
        from ConnectToPublisher_ok [OF this] ok show ?thesis by simp
      qed (use f None no_update ok in simp)
    qed
  qed
qed

section \<open>Steps\<close>

lemma master_answers_ok:
  assumes "sub_ok s"
  shows "sub_ok (master_answers rv s)"
proof -
  note reg = assms [unfolded sub_ok_def sub_registration_ok_def]
  consider (none) "sub_requests s = []"
    | (sub) types st on_msg on_err cb where "sub_requests s = [SubscribeTopicRequest types st on_msg on_err cb]"
        "sub_register s = Registering"
    | (unsub) cb where "sub_requests s = [UnsubscribeTopicRequest cb]" "sub_register s = Unregistering"
    using reg by (cases "sub_register s") auto
  then show ?thesis
  proof cases
    case none
    with assms show ?thesis by (simp add: master_answers_def)
  next
    case sub
    let ?s = "s\<lparr>sub_requests := [], sub_register := Unregistered\<rparr>"
    let ?t = "s\<lparr>sub_requests := [], channel_types := types, on_message_callback := Some on_msg,
        on_error_callback := on_err, sub_settings := st, sub_register := Registered\<rparr>"
    have "order_ok ?s = order_ok s" "order_ok ?t = order_ok s" "link_ok ?s = link_ok s" "link_ok ?t = link_ok s"
        "loop_ok ?s = loop_ok s" "loop_ok ?t = loop_ok s"
      by (rule order_ok_cong link_ok_cong loop_ok_cong; simp)+
    moreover have "callback_ok ?s" "callback_ok ?t" using assms by (auto simp: sub_ok_def callback_ok_def)
    ultimately have "sub_ok ?s" "sub_ok ?t" using assms by (simp_all add: sub_ok_def sub_registration_ok_def)
    with sub show ?thesis by (auto simp: master_answers_def OnSubscribeTopicAsync_def)
  next
    case unsub
    let ?s = "s\<lparr>sub_requests := [], sub_register := Registered\<rparr>" and ?t = "s\<lparr>sub_requests := [], sub_register := Unregistered\<rparr>"
    have "order_ok ?s = order_ok s" "order_ok ?t = order_ok s" "link_ok ?s = link_ok s" "link_ok ?t = link_ok s"
        "loop_ok ?s = loop_ok s" "loop_ok ?t = loop_ok s"
      by (rule order_ok_cong link_ok_cong loop_ok_cong; simp)+
    moreover have "callback_ok ?s" "callback_ok ?t" using assms unsub by (auto simp: sub_ok_def callback_ok_def)
    ultimately have "sub_ok ?s" "sub_ok ?t" using assms by (simp_all add: sub_ok_def sub_registration_ok_def)
    with unsub StopMessageLoop_ok [of ?t None] show ?thesis by (auto simp: master_answers_def OnUnubscribeTopicAsync_def)
  qed
qed

lemma request_ok:
  assumes "sub_ok s"
  shows "sub_ok (RequestSubscribe types st on_msg on_err cb s)" "sub_ok (RequestUnsubscribe cb s)"
proof -
  let ?s = "s\<lparr>sub_register := Registering, sub_requests := sub_requests s @ [SubscribeTopicRequest types st on_msg on_err cb]\<rparr>"
  let ?t = "s\<lparr>sub_register := Unregistering, sub_requests := sub_requests s @ [UnsubscribeTopicRequest cb]\<rparr>"
  have "order_ok ?s = order_ok s" "order_ok ?t = order_ok s" "link_ok ?s = link_ok s" "link_ok ?t = link_ok s"
      "loop_ok ?s = loop_ok s" "loop_ok ?t = loop_ok s"
    by (rule order_ok_cong link_ok_cong loop_ok_cong; simp)+
  then have "sub_ok ?s" if "sub_register s = Unregistered"
    using assms that by (simp add: sub_ok_def sub_registration_ok_def callback_ok_def)
  moreover have "sub_ok ?t" if "sub_register s = Registered"
    using assms that \<open>order_ok ?t = order_ok s\<close> \<open>link_ok ?t = link_ok s\<close> \<open>loop_ok ?t = loop_ok s\<close>
    by (simp add: sub_ok_def sub_registration_ok_def callback_ok_def)
  ultimately show "sub_ok (RequestSubscribe types st on_msg on_err cb s)" "sub_ok (RequestUnsubscribe cb s)"
    using assms by (simp_all add: RequestSubscribe_def RequestUnsubscribe_def)
qed

lemma sub_ok_channel:
  assumes "sub_ok s" "sub_loop s = Stopped" "sub_channel s = Some c"
  shows "sub_ok (s\<lparr>sub_channel := Some c'\<rparr>)"
proof -
  let ?s = "s\<lparr>sub_channel := Some c'\<rparr>"
  have "sub_registration_ok ?s = sub_registration_ok s" "order_ok ?s = order_ok s" "loop_ok ?s = loop_ok s"
    by (rule sub_registration_ok_cong order_ok_cong loop_ok_cong; simp)+
  moreover have "link_ok ?s" "callback_ok ?s" using assms
    by (auto simp: sub_ok_def link_ok_def callback_ok_def split: link_phase.splits)
  ultimately show ?thesis using assms(1) by (simp add: sub_ok_def)
qed

lemma phase_stopped:
  assumes "sub_ok s" "phase_is ph s" "ph = Connecting \<or> ph = Handshaking"
  obtains c where "sub_channel s = Some c" "sub_loop s = Stopped" "on_message_callback s \<noteq> None"
  using assms that by (auto simp: phase_is_def sub_ok_def link_ok_def callback_ok_def split: option.splits)

lemma next_channel_ok:
  assumes "sub_ok s" "sub_loop s = Stopped" "on_message_callback s \<noteq> None"
    "ConnectToPublisher (s\<lparr>channel_type := n\<rparr>) = Some s'"
  shows "sub_ok s'"
  using ConnectToPublisher_ok [OF assms(4)] assms(1-3) by simp

lemma OnConnectToPublisher_ok:
  assumes run: "OnConnectToPublisher ros rv rs s = Some s'" and ok: "sub_ok s" "phase_is Connecting s"
  shows "sub_ok s'"
proof -
  obtain c where c: "sub_channel s = Some c" "sub_loop s = Stopped" "on_message_callback s \<noteq> None"
    using phase_stopped [OF ok] by auto
  note ch = sub_ok_channel [OF ok(1) c(2,1)]
  let ?c = "c\<lparr>sc_buffer := (if is_dynamic_buffer (sub_settings s) then SetDynamicBuffer True (sc_buffer c)
      else SetCapacity (buffer_size (sub_settings s)) (sc_buffer c))\<rparr>"
  show ?thesis
  proof (cases "Status_ok rv")
    case True
    show ?thesis
    proof (cases "ros \<and> IsUsingRosProtocol (ti_topic (sub_topic s))")
      case ros: True
      with run True c(1) have "s' = s\<lparr>sub_channel := Some (?c\<lparr>sc_phase := Handshaking\<rparr>)\<rparr>"
        by (simp add: OnConnectToPublisher_def Let_def)
      with ch show ?thesis by simp
    next
      case False
      let ?s = "s\<lparr>sub_channel := Some (?c\<lparr>sc_phase := Connected False\<rparr>)\<rparr>"
      have "StartMessageLoop rs ?s = Some s'"
        using run True False c(1) by (simp add: OnConnectToPublisher_def Let_def set_receiving_def)
      from StartMessageLoop_ok [OF this ch] c(2) show ?thesis by (auto simp: linked_def)
    qed
  next
    case False
    with run have "ConnectToPublisher (s\<lparr>channel_type := push_bit 1 (channel_type s)\<rparr>) = Some s'"
      by (simp add: OnConnectToPublisher_def)
    with next_channel_ok [OF ok(1) c(2,3)] show ?thesis by blast
  qed
qed

lemma Handshake_ok:
  assumes run: "Subscriber_OnRosTopicHandshake rv rs s = Some s'" and ok: "sub_ok s" "phase_is Handshaking s"
  shows "sub_ok s'"
proof -
  obtain c where c: "sub_channel s = Some c" "sub_loop s = Stopped" "on_message_callback s \<noteq> None"
    using phase_stopped [OF ok] by auto
  show ?thesis
  proof (cases "Status_ok rv")
    case True
    let ?s = "s\<lparr>sub_channel := Some (c\<lparr>sc_buffer := SetDynamicBuffer False (sc_buffer c), sc_phase := Connected False\<rparr>)\<rparr>"
    have "StartMessageLoop rs ?s = Some s'"
      using run True c(1) by (simp add: Subscriber_OnRosTopicHandshake_def set_receiving_def)
    from StartMessageLoop_ok [OF this sub_ok_channel [OF ok(1) c(2,1)]] c(2) show ?thesis by (auto simp: linked_def)
  next
    case False
    with run have "ConnectToPublisher (s\<lparr>channel_type := push_bit 1 (channel_type s)\<rparr>) = Some s'"
      by (simp add: Subscriber_OnRosTopicHandshake_def)
    with next_channel_ok [OF ok(1) c(2,3)] show ?thesis by blast
  qed
qed

abbreviation "without_task j s \<equiv> s\<lparr>sub_tasks := take j (sub_tasks s) @ drop (Suc j) (sub_tasks s)\<rparr>"

lemma count_list_nth:
  "j < length xs \<Longrightarrow> count_list xs y = count_list (take j xs @ drop (Suc j) xs) y + (if xs ! j = y then 1 else 0)"
  by (subst id_take_nth_drop [of j xs]) auto

lemma driver_without:
  "j < length (sub_tasks s) \<Longrightarrow> driver_count s = driver_count (without_task j s) +
     (if sub_tasks s ! j = NotifyTask \<or> sub_tasks s ! j = StopTask then 1 else 0)"
  using count_list_nth [of j "sub_tasks s" NotifyTask] count_list_nth [of j "sub_tasks s" StopTask]
  by (auto simp: driver_count_def)

lemma run_sub_task_ok:
  assumes ok: "sub_ok s" and j: "j < length (sub_tasks s)"
    and run: "run_sub_task env (sub_tasks s ! j) rs (without_task j s) = Some s'"
  shows "sub_ok s'"
proof -
  let ?s = "without_task j s" and ?t = "sub_tasks s ! j"
  have rest: "rest_ok ?s" using ok by (simp add: sub_ok_alt)
  have mem: "set (sub_tasks ?s) \<subseteq> set (sub_tasks s)" "?t \<in> set (sub_tasks s)"
    using j set_take_subset [of j "sub_tasks s"] set_drop_subset [of "Suc j" "sub_tasks s"] by auto
  have start: "StartTask \<notin> set (sub_tasks s)" "StartTask \<notin> set (sub_tasks ?s)"
    using ok mem by (auto simp: sub_ok_def loop_ok_def)
  have keep: "sub_ok ?s" if "?t \<noteq> NotifyTask" "?t \<noteq> StopTask"
    using rest ok driver_without [OF j] mem(1) that start by (auto simp: sub_ok_alt loop_ok_def)
  have over: "driver_count ?s = 0" "sub_loop s \<noteq> Stopped" if "?t = NotifyTask \<or> ?t = StopTask"
    using ok driver_without [OF j] that by (auto simp: sub_ok_def loop_ok_def split: if_splits)
  show ?thesis
  proof (cases ?t)
    case (FindPublisherTask ti)
    with run OnFindPublisher_ok keep show ?thesis by auto
  next
    case StartTask
    with mem(2) start show ?thesis by simp
  next
    case NotifyTask
    with run NotifyMessageLoop_ok [of ?s] over rest start show ?thesis by (simp add: taken_over_def)
  next
    case StopTask
    then have "sub_loop s = Stopping" using ok mem(2) by (simp add: sub_ok_def loop_ok_def)
    with StopTask run Stop_ok [of "resolves env" ?s] over rest start show ?thesis by simp
  next
    case ReceiveTask
    with run have "recv_frame ?s s'" by (auto intro: recv_frame_loop)
    with keep ReceiveTask show ?thesis by (auto intro: recv_frame_loop_ok)
  qed
qed

lemma sub_exec_ok:
  assumes "sub_exec env ev s = Some s'" "sub_ok s"
  shows "sub_ok s'"
proof (cases ev)
  case (ReceiveDone r rs)
  show ?thesis
  proof (cases "phase_is (Connected True) s")
    case True
    then have "linked s" by (auto simp: phase_is_def linked_def split: option.splits)
    with True ReceiveDone assms(1) have "recv_frame s s'"
      using recv_frame_trans [OF recv_frame_receiving recv_frame_OnReceive] by auto
    then show ?thesis using assms(2) by (rule recv_frame_loop_ok)
  qed (use assms ReceiveDone in simp)
next
  case (RunSubTask j rs)
  with assms run_sub_task_ok [of s j env rs] show ?thesis by (auto split: if_splits)
qed (use assms request_ok master_answers_ok OnFindPublisher_ok OnConnectToPublisher_ok Handshake_ok
      in \<open>auto split: if_splits\<close>)

interpretation subscriber: inductive_invariant "\<lambda>s. s = new_Subscriber" "sub_step env" sub_ok
  for env
proof
  show "s = new_Subscriber \<Longrightarrow> sub_ok s" for s :: "'a subscriber"
    by (simp add: sub_ok_defs new_Subscriber_def queue_ok_def)
  show "sub_ok s \<Longrightarrow> sub_step env s s' \<Longrightarrow> sub_ok s'" for s s'
    by (auto elim!: sub_stepE intro: sub_exec_ok)
qed

end
