(* ===== verification/Felicia_SubscriberSafe.thy ===== *)
theory Felicia_SubscriberSafe
  imports Felicia_SubscriberProps
begin

text \<open>
  A subscriber that asks for the socket channels only (Unix domain, UDP, TCP) and for a queue is
  free of undefined behaviour but for one check: news of a publisher while the loop runs on a channel
  that is not UDP.  With shared memory the next receive is a delayed task, and that it
  cannot meet a newer receive rests on the delays, which the machine does not follow.
\<close>

section \<open>Invariant\<close>

definition net_types :: "nat \<Rightarrow> bool" where
  "net_types types \<longleftrightarrow> even types \<and> types \<le> 14"

definition is_net_type :: "channel_type \<Rightarrow> bool" where
  "is_net_type ty \<longleftrightarrow> ty = CHANNEL_TYPE_UDS \<or> ty = CHANNEL_TYPE_UDP \<or> ty = CHANNEL_TYPE_TCP"

definition doubling :: "nat \<Rightarrow> bool" where
  "doubling n \<longleftrightarrow> n = 0 \<or> (\<exists>k. n = 2 ^ k)"

fun net_request :: "sub_request \<Rightarrow> bool" where
  "net_request (SubscribeTopicRequest types st on_msg on_err cb) \<longleftrightarrow> 0 < queue_size st \<and> net_types types"
| "net_request (UnsubscribeTopicRequest cb) \<longleftrightarrow> True"

definition net_rest :: "'m subscriber \<Rightarrow> bool" where
  "net_rest s \<longleftrightarrow>
     0 < queue_size (sub_settings s) \<and> net_types (channel_types s) \<and>
     list_all net_request (sub_requests s) \<and>
     doubling (channel_type s) \<and> ReceiveTask \<notin> set (sub_tasks s) \<and>
     (\<forall>c. sub_channel s = Some c \<longrightarrow> is_net_type (cd_type (sc_def c))) \<and>
     (sub_loop s \<noteq> Stopped \<longrightarrow> pool_ok (sub_queue s))"

lemma net_not_shm: "net_rest s \<Longrightarrow> \<not> channel_is CHANNEL_TYPE_SHM s"
  by (auto simp: net_rest_def channel_is_def is_net_type_def split: option.splits)

lemma recv_frame_net: "recv_frame s s' \<Longrightarrow> net_rest s \<Longrightarrow> net_rest s'"
  using net_not_shm [of s]
  by (cases "sub_loop s"; cases "sub_channel s"; cases "sub_channel s'") (auto simp: net_rest_def recv_frame_def)

section \<open>Receiving\<close>

lemma body_defined: "(sub_loop s \<noteq> Stopped \<longrightarrow> pool_ok (sub_queue s)) \<Longrightarrow> OnReceiveMessage_body r s \<noteq> None"
  using pool.push_accepts [of "sub_queue s"]
  by (cases r; cases "sub_loop s") (fastforce simp: OnReceiveMessage_body_def Let_def)+

lemma body_channel: "OnReceiveMessage_body r s = Some (again, s') \<Longrightarrow> sub_channel s' = sub_channel s"
  by (cases r) (auto simp: OnReceiveMessage_body_def Let_def sub_answer_def StopMessageLoop_def split: if_splits)

lemma loop_again_net: "\<not> channel_is CHANNEL_TYPE_SHM s \<Longrightarrow> loop_again s = (True, s)"
  by (simp add: loop_again_def)

lemma receive_defined:
  "net_rest s \<Longrightarrow> sub_channel s = Some c \<Longrightarrow> sc_phase c = Connected False \<Longrightarrow> ReceiveMessageLoop rs s \<noteq> None"
proof (induction rs arbitrary: s)
  case Nil
  then show ?case by (simp add: ReceiveMessageLoop.simps [of "[]"])
next
  case (Cons r rs)
  show ?case
  proof (cases "sub_loop s = Started")
    case True
    obtain again s1 where s1: "OnReceiveMessage_body r s = Some (again, s1)"
      using body_defined [of s r] Cons.prems(1) by (fastforce simp: net_rest_def)
    have n1: "net_rest s1" using recv_frame_net [OF recv_frame_body [OF s1] Cons.prems(1)] .
    have "ReceiveMessageLoop rs s1 \<noteq> None"
      using Cons.IH [OF n1] body_channel [OF s1] Cons.prems(2,3) by simp
    with True s1 Cons.prems(2,3) loop_again_net [OF net_not_shm [OF n1]] show ?thesis
      by (cases again) (simp_all add: ReceiveMessageLoop.simps [of "r # rs"])
  next
    case False
    then have "sub_loop s = Stopping \<or> sub_loop s = Stopped" by (cases "sub_loop s") auto
    then show ?thesis by (auto simp: ReceiveMessageLoop.simps [of "r # rs"])
  qed
qed

lemma OnReceive_defined:
  assumes "net_rest s" "sub_channel s = Some c" "sc_phase c = Connected False"
  shows "Subscriber_OnReceiveMessage r rs s \<noteq> None"
proof -
  obtain again s1 where s1: "OnReceiveMessage_body r s = Some (again, s1)"
    using body_defined [of s r] assms(1) by (fastforce simp: net_rest_def)
  have n1: "net_rest s1" using recv_frame_net [OF recv_frame_body [OF s1] assms(1)] .
  have "ReceiveMessageLoop rs s1 \<noteq> None"
    using receive_defined [OF n1] body_channel [OF s1] assms(2,3) by simp
  with s1 loop_again_net [OF net_not_shm [OF n1]] show ?thesis
    by (cases again) (simp_all add: Subscriber_OnReceiveMessage_def)
qed

section \<open>The loop\<close>

lemma deliver_defined:
  assumes "rest_ok s" "sub_loop s \<noteq> Stopped"
  obtains s' where "deliver s = Some s'"
proof (cases "Pool_empty (sub_queue s)")
  case True
  with that show thesis by (simp add: deliver_def)
next
  case False
  obtain q where "Pool_pop (sub_queue s) = Some q" "Pool_front (sub_queue s) = Some (hd (Pool_contents (sub_queue s)))"
    using queue_pop [OF _ False] assms(1) by (auto simp: rest_ok_def order_ok_def)
  moreover obtain cb where "on_message_callback s = Some cb" using assms by (auto simp: rest_ok_def callback_ok_def)
  ultimately show thesis using that False by (simp add: deliver_def)
qed

lemma deliver_net:
  assumes "deliver s = Some s'" "net_rest s"
  shows "net_rest s'"
proof (cases "Pool_empty (sub_queue s)")
  case False
  with assms(1) obtain q cb v where q: "Pool_pop (sub_queue s) = Some q"
      "s' = s\<lparr>sub_queue := q, delivered := delivered s @ [(cb, v)]\<rparr>"
    by (auto simp: deliver_def bind_eq_Some_conv)
  have "pool_ok q" if "pool_ok (sub_queue s)" using pool.pop_oldest [OF that] q(1) by auto
  with q(2) assms(2) show ?thesis by (simp add: net_rest_def)
qed (use assms in \<open>simp add: deliver_def\<close>)

lemma Notify_net:
  assumes "rest_ok s" "net_rest s" "sub_loop s \<noteq> Stopped"
  obtains s' where "NotifyMessageLoop s = Some s'" "net_rest s'"
proof -
  obtain s1 where s1: "deliver s = Some s1" using deliver_defined [OF assms(1,3)] .
  from deliver_net [OF s1 assms(2)] s1 that assms(3) show thesis
    by (simp add: NotifyMessageLoop_def net_rest_def post_def)
qed

lemma Start_net:
  assumes "sub_ok s" "net_rest s" "sub_loop s = Stopped" "sub_channel s = Some c" "sc_phase c = Connected False"
  obtains s' where "StartMessageLoop rs s = Some s'" "net_rest s'"
proof (cases "sub_register s = Unregistering \<or> sub_register s = Unregistered")
  case True
  with assms(2) that show thesis by (auto simp: StartMessageLoop_def)
next
  case False
  have qok: "queue_ok (sub_queue s)" and cap: "0 < queue_size (sub_settings s)"
    using assms(1,2) by (simp_all add: sub_ok_def order_ok_def net_rest_def)
  obtain q where q: "Pool_reserve (queue_size (sub_settings s)) (sub_queue s) = Some q"
    using qok Pool_reserve_correct [OF _ cap, of "sub_queue s"] reserve_empty [of "sub_queue s"]
    by (auto simp: queue_ok_def)
  let ?s = "s\<lparr>sub_loop := Started, sub_queue := q\<rparr>"
  note res = queue_reserve [OF qok q]
  have net: "net_rest ?s" using assms(2) res cap by (simp add: net_rest_def)
  obtain s1 where s1: "ReceiveMessageLoop rs ?s = Some s1"
    using receive_defined [OF net, of c rs] assms(4,5) by auto
  have "subseq (map snd (delivered s) @ Pool_contents q) (received s)"
    using res assms(1) unfolding sub_ok_def order_ok_def
    by (meson list_emb_append_mono subseq_order.order_refl subseq_order.order_trans)
  moreover have "sub_registration_ok ?s = sub_registration_ok s" by (rule sub_registration_ok_cong) simp_all
  ultimately have "rest_ok ?s"
    using assms res by (simp add: rest_ok_def sub_ok_def order_ok_def link_ok_def callback_ok_def)
  then have rest: "rest_ok s1" "sub_loop s1 \<noteq> Stopped" "net_rest s1"
    using recv_frame_rest [OF recv_frame_loop [OF s1]] recv_frame_loop [OF s1] recv_frame_net [OF recv_frame_loop [OF s1] net]
    by (auto simp: recv_frame_def)
  obtain s' where "NotifyMessageLoop s1 = Some s'" "net_rest s'" using Notify_net [OF rest(1,3,2)] .
  with that q s1 False assms(3) show thesis by (simp add: StartMessageLoop_def)
qed

section \<open>Connecting\<close>

lemma doubling_shift: "doubling n \<Longrightarrow> doubling (push_bit 1 n)"
  by (auto simp: doubling_def push_bit_eq_mult) (metis power_Suc2)

lemma doubling_one [simp]: "doubling (Suc 0)"
  by (auto simp: doubling_def intro: exI [of _ 0])

lemma doubling_cases:
  assumes "doubling n" "0 < n" "n \<le> 14"
  shows "n = 1 \<or> n = 2 \<or> n = 4 \<or> n = 8"
proof -
  obtain k where k: "n = 2 ^ k" using assms by (auto simp: doubling_def)
  have "k < 4"
  proof (rule ccontr)
    assume "\<not> k < 4"
    then have "(2::nat) ^ 4 \<le> 2 ^ k" by (intro power_increasing) simp_all
    with k assms(3) show False by simp
  qed
  then show ?thesis using k by (auto simp: less_Suc_eq numeral_eq_Suc)
qed

lemma match_loop_net:
  "match_loop types ds ty = (ty', m) \<Longrightarrow> net_types types \<Longrightarrow> doubling ty \<Longrightarrow>
     doubling ty' \<and> (\<forall>d. m = Some d \<longrightarrow> is_net_type (cd_type d))"
proof (induction types ds ty rule: match_loop.induct)
  case (1 types ds ty)
  show ?case
  proof (cases "0 < ty \<and> ty \<le> types")
    case True
    show ?thesis
    proof (cases "if ty AND types \<noteq> 0 then def_of_type ty ds else None")
      case None
      then have "match_loop types ds (push_bit 1 ty) = (ty', m)"
        using "1.prems"(1) True by (simp add: match_loop.simps [of types ds ty])
      with "1.IH" True None "1.prems"(2) doubling_shift [OF "1.prems"(3)] show ?thesis by blast
    next
      case (Some d)
      then have m: "m = Some d" "ty' = ty" using "1.prems"(1) True by (simp_all add: match_loop.simps [of types ds ty])
      have d: "cd_type d = channel_type_of ty" "ty AND types \<noteq> 0"
        using Some by (auto simp: def_of_type_def dest: find_Some_mem split: if_splits)
      have "ty \<noteq> 1"
        using d(2) "1.prems"(2) by (auto simp: net_types_def and.commute [of 1] and_one_eq even_iff_mod_2_eq_zero)
      then have "ty = 2 \<or> ty = 4 \<or> ty = 8"
        using doubling_cases [OF "1.prems"(3)] True "1.prems"(2) by (auto simp: net_types_def)
      with d m "1.prems"(3) show ?thesis by (auto simp: is_net_type_def channel_type_of_def)
    qed
  qed (use "1.prems" in \<open>auto simp: match_loop.simps [of types ds ty]\<close>)
qed

lemma net_rest_doubling: "net_rest s \<Longrightarrow> doubling (channel_type s)"
  by (simp add: net_rest_def)

lemma net_can_connect: "is_net_type ty \<Longrightarrow> can_connect ty"
  by (auto simp: is_net_type_def can_connect_def NewChannel_def)

lemma Connect_net:
  assumes "net_rest s"
  obtains s' where "ConnectToPublisher s = Some s'" "net_rest s'"
proof -
  obtain ty m where m: "match_loop (channel_types s) (channel_defs (topic_source (sub_topic s))) (channel_type s) = (ty, m)"
    by fastforce
  have r: "doubling ty" "m = Some d \<Longrightarrow> is_net_type (cd_type d)" for d
    using match_loop_net [OF m] assms net_rest_doubling [OF assms] by (auto simp: net_rest_def)
  show thesis
  proof (cases m)
    case None
    show thesis
    proof
      show "ConnectToPublisher s = Some (sub_answer (on_error_callback s) (Unavailable ''Failed to connect to publisher.'')
          (s\<lparr>channel_type := ty, sub_channel := None\<rparr>))"
        using m None by (simp add: ConnectToPublisher_def)
    qed (use assms r(1) in \<open>simp add: net_rest_def sub_answer_def\<close>)
  next
    case (Some d)
    have "can_connect (cd_type d)" using net_can_connect [OF r(2) [OF Some]] .
    show thesis
    proof
      show "ConnectToPublisher s = Some (s\<lparr>channel_type := ty,
          sub_channel := Some \<lparr>sc_def = d, sc_phase = Connecting, sc_buffer = new_ChannelBuffer\<rparr>\<rparr>)"
        using m Some \<open>can_connect (cd_type d)\<close> by (simp add: ConnectToPublisher_def)
    qed (use assms r(1) r(2) [OF Some] in \<open>simp add: net_rest_def\<close>)
  qed
qed

lemma net_rest_update [simp]:
  "net_rest (s\<lparr>sub_topic := ti\<rparr>) = net_rest s" "net_rest (s\<lparr>topic_info_to_update := tu\<rparr>) = net_rest s"
  "net_rest (s\<lparr>on_stopped_callback := cb\<rparr>) = net_rest s" "net_rest (s\<lparr>sub_replies := rs\<rparr>) = net_rest s"
  "net_rest (sub_answer cb st s) = net_rest s" "net_rest (post (FindPublisherTask ti) s) = net_rest s"
  by (simp_all add: net_rest_def sub_answer_def post_def)

lemma net_rest_type: "net_rest s \<Longrightarrow> doubling n \<Longrightarrow> net_rest (s\<lparr>channel_type := n\<rparr>)"
  by (simp add: net_rest_def)

lemma Stopping_net: "net_rest s \<Longrightarrow> net_rest (StopMessageLoop cb s)"
  by (cases "sub_loop s") (auto simp: StopMessageLoop_def net_rest_def sub_answer_def)

text \<open>The news that the check of \<open>OnFindPublisher\<close> does not expect.\<close>

definition unexpected_news :: "topic_info \<Rightarrow> 'm subscriber \<Rightarrow> bool" where
  "unexpected_news ti s \<longleftrightarrow>
     sub_register s = Registered \<and> sub_loop s = Started \<and> ti_status ti \<noteq> UNREGISTERED \<and> \<not> channel_is CHANNEL_TYPE_UDP s"

lemma unexpected_news_undefined: "unexpected_news ti s \<Longrightarrow> OnFindPublisher mr ti s = None"
  by (simp add: unexpected_news_def OnFindPublisher_def)

lemma OnFindPublisher_net:
  assumes "net_rest s" "\<not> unexpected_news ti s"
  obtains s' where "OnFindPublisher mr ti s = Some s'" "net_rest s'"
proof -
  obtain t where t: "ConnectToPublisher (s\<lparr>sub_topic := ti, channel_type := 1\<rparr>) = Some t" "net_rest t"
    using Connect_net [of "s\<lparr>sub_topic := ti, channel_type := 1\<rparr>"] net_rest_type [of "s\<lparr>sub_topic := ti\<rparr>" 1] assms by auto
  let ?r = "OnFindPublisher mr ti s"
  have "?r = Some (post (FindPublisherTask ti) s) \<or> ?r = Some s \<or> ?r = Some (StopMessageLoop None s) \<or>
      ?r = Some (s\<lparr>topic_info_to_update := Some ti\<rparr>) \<or> ?r = Some t"
    using t(1) assms(2) by (cases "sub_register s") (auto simp: OnFindPublisher_def unexpected_news_def)
  then show thesis
    using that [of "post (FindPublisherTask ti) s"] that [of s] that [of "StopMessageLoop None s"]
      that [of "s\<lparr>topic_info_to_update := Some ti\<rparr>"] that [of t] assms(1) Stopping_net [OF assms(1), of None] t(2)
    by auto
qed

lemma Stop_net:
  assumes "order_ok s" "net_rest s"
  obtains s' where "Stop mr s = Some s'" "net_rest s'"
proof -
  obtain s0 where s0: "release_if_unregistered s = Some s0"
    using queue_clear [of "sub_queue s"] assms(1) by (cases "sub_register s") (auto simp: release_if_unregistered_def order_ok_def)
  let ?s = "s0\<lparr>sub_loop := Stopped\<rparr>"
  have n: "net_rest ?s"
    using s0 assms(2) by (cases "sub_register s = Unregistered") (auto simp: release_if_unregistered_def net_rest_def)
  obtain t where t: "ConnectToPublisher (?s\<lparr>channel_type := 1\<rparr>) = Some t" "net_rest t"
    using Connect_net [of "?s\<lparr>channel_type := 1\<rparr>"] net_rest_type [OF n, of 1] by auto
  obtain u where u: "OnFindPublisher mr (the (topic_info_to_update s0)) (?s\<lparr>topic_info_to_update := None\<rparr>) = Some u"
      "net_rest u"
    using OnFindPublisher_net [of "?s\<lparr>topic_info_to_update := None\<rparr>"] n by (auto simp: unexpected_news_def)
  let ?a = "sub_answer (on_stopped_callback s0) Status_OK (?s\<lparr>on_stopped_callback := None\<rparr>)"
  have "Stop mr s = Some u \<or> Stop mr s = Some t \<or> Stop mr s = Some ?s \<or> Stop mr s = Some ?a"
    using s0 t(1) u(1) by (cases "on_stopped_callback s0"; cases "topic_info_to_update s0") (simp_all add: Stop_def Let_def)
  moreover have "net_rest ?a" using n by simp
  ultimately show thesis using that [of u] that [of t] that [of ?s] that [of ?a] n t(2) u(2) by blast
qed

section \<open>Events\<close>

fun net_event :: "'m sub_event \<Rightarrow> bool" where
  "net_event (CallSubscribe types st on_msg on_err cb) \<longleftrightarrow> 0 < queue_size st \<and> net_types types"
| "net_event ev \<longleftrightarrow> True"

inductive net_step :: "sub_env \<Rightarrow> 'm subscriber \<Rightarrow> 'm subscriber \<Rightarrow> bool" for env :: sub_env where
  "net_event ev \<Longrightarrow> sub_exec env ev s = Some s' \<Longrightarrow> net_step env s s'"

inductive_cases net_stepE: "net_step env s s'"

definition net_ok :: "'m subscriber \<Rightarrow> bool" where
  "net_ok s \<longleftrightarrow> sub_ok s \<and> net_rest s"

text \<open>The events that bring news, and those that break the check.\<close>

fun news_of :: "'m sub_event \<Rightarrow> 'm subscriber \<Rightarrow> topic_info option" where
  "news_of (PublisherFound ti) s = Some ti"
| "news_of (RunSubTask j rs) s =
     (if j < length (sub_tasks s) then case sub_tasks s ! j of FindPublisherTask ti \<Rightarrow> Some ti | _ \<Rightarrow> None else None)"
| "news_of ev s = None"

definition breaks_check :: "'m sub_event \<Rightarrow> 'm subscriber \<Rightarrow> bool" where
  "breaks_check ev s \<longleftrightarrow> (case news_of ev s of None \<Rightarrow> False | Some ti \<Rightarrow> unexpected_news ti s)"

lemma unexpected_news_tasks [simp]: "unexpected_news ti (s\<lparr>sub_tasks := ts\<rparr>) = unexpected_news ti s"
  by (simp add: unexpected_news_def channel_is_def)

lemma breaks_check_undefined: "breaks_check ev s \<Longrightarrow> sub_exec env ev s = None"
  by (cases "(ev, s)" rule: news_of.cases)
    (auto simp: breaks_check_def unexpected_news_undefined split: if_splits sub_task.splits)

text \<open>An event that a subscriber of this kind survives.\<close>

abbreviation net_defined :: "'m subscriber option \<Rightarrow> bool" where
  "net_defined r \<equiv> \<exists>s'. r = Some s' \<and> net_rest s'"

lemma request_net:
  "net_rest s \<Longrightarrow> 0 < queue_size st \<Longrightarrow> net_types types \<Longrightarrow> net_rest (RequestSubscribe types st on_msg on_err cb s)"
  "net_rest s \<Longrightarrow> net_rest (RequestUnsubscribe cb s)"
  by (auto simp: RequestSubscribe_def RequestUnsubscribe_def) (simp_all add: net_rest_def)

lemma net_rest_pop_request: "net_rest s \<Longrightarrow> sub_requests s = r # rs \<Longrightarrow> net_rest (s\<lparr>sub_requests := rs\<rparr>) \<and> net_request r"
  by (simp add: net_rest_def)

lemma answer_net:
  assumes "net_rest s"
  shows "net_rest (master_answers rv s)"
proof (cases "sub_requests s")
  case Nil
  with assms show ?thesis by (simp add: master_answers_def)
next
  case (Cons r rs)
  note r = net_rest_pop_request [OF assms Cons]
  have reg: "net_rest (t\<lparr>sub_register := x\<rparr>) = net_rest t" for t :: "'a subscriber" and x by (simp add: net_rest_def)
  show ?thesis
  proof (cases r)
    case (SubscribeTopicRequest types st on_msg on_err cb)
    with Cons r show ?thesis
      by (simp add: master_answers_def OnSubscribeTopicAsync_def reg) (simp add: net_rest_def)
  next
    case (UnsubscribeTopicRequest cb)
    with Cons r show ?thesis
      by (simp add: master_answers_def OnUnubscribeTopicAsync_def reg Stopping_net)
  qed
qed

lemma net_channel:
  "net_rest s \<Longrightarrow> sub_channel s = Some c \<Longrightarrow> sc_def c' = sc_def c \<Longrightarrow> net_rest (s\<lparr>sub_channel := Some c'\<rparr>)"
  by (simp add: net_rest_def)

lemma next_channel_net: "net_rest s \<Longrightarrow> net_defined (ConnectToPublisher (s\<lparr>channel_type := push_bit 1 (channel_type s)\<rparr>))"
  using Connect_net [OF net_rest_type [OF _ doubling_shift [OF net_rest_doubling]]] by metis

lemma connected_net:
  assumes "net_ok s" "sub_channel s = Some c" "sub_loop s = Stopped" "sc_def c' = sc_def c" "sc_phase c' = Connected False"
  shows "net_defined (StartMessageLoop rs (s\<lparr>sub_channel := Some c'\<rparr>))"
proof -
  have "sub_ok (s\<lparr>sub_channel := Some c'\<rparr>)" using sub_ok_channel [OF _ assms(3,2)] assms(1) by (simp add: net_ok_def)
  moreover have "net_rest (s\<lparr>sub_channel := Some c'\<rparr>)" using assms by (simp add: net_ok_def net_channel)
  ultimately show ?thesis using Start_net [of "s\<lparr>sub_channel := Some c'\<rparr>" c' rs] assms(3,5) by auto
qed

lemma OnConnect_net:
  assumes "net_ok s" "phase_is Connecting s"
  shows "net_defined (OnConnectToPublisher ros rv rs s)"
proof -
  obtain c where c: "sub_channel s = Some c" "sub_loop s = Stopped"
    using phase_stopped [OF _ assms(2)] assms(1) by (auto simp: net_ok_def)
  show ?thesis
  proof (cases "Status_ok rv")
    case True
    with c connected_net [OF assms(1) c] net_channel [of s c] assms(1) show ?thesis
      by (simp add: OnConnectToPublisher_def Let_def set_receiving_def net_ok_def)
  next
    case False
    with next_channel_net [of s] assms(1) show ?thesis by (simp add: OnConnectToPublisher_def net_ok_def)
  qed
qed

lemma Handshake_net:
  assumes "net_ok s" "phase_is Handshaking s"
  shows "net_defined (Subscriber_OnRosTopicHandshake rv rs s)"
proof -
  obtain c where c: "sub_channel s = Some c" "sub_loop s = Stopped"
    using phase_stopped [OF _ assms(2)] assms(1) by (auto simp: net_ok_def)
  show ?thesis
  proof (cases "Status_ok rv")
    case True
    with c connected_net [OF assms(1) c] show ?thesis
      by (simp add: Subscriber_OnRosTopicHandshake_def set_receiving_def)
  next
    case False
    with next_channel_net [of s] assms(1) show ?thesis by (simp add: Subscriber_OnRosTopicHandshake_def net_ok_def)
  qed
qed

lemma ReceiveDone_net:
  assumes "net_ok s" "phase_is (Connected True) s"
  shows "net_defined (Subscriber_OnReceiveMessage r rs (set_receiving False s))"
proof -
  obtain c where c: "sub_channel s = Some c" "linked s" using assms(2) by (auto simp: phase_is_def linked_def split: option.splits)
  let ?s = "set_receiving False s"
  have n: "net_rest ?s" using recv_frame_net [OF recv_frame_receiving [OF c(2)]] assms(1) by (simp add: net_ok_def)
  have "Subscriber_OnReceiveMessage r rs ?s \<noteq> None"
    using OnReceive_defined [OF n, of "c\<lparr>sc_phase := Connected False\<rparr>"] c(1) by (simp add: set_receiving_def)
  with recv_frame_net [OF recv_frame_OnReceive n] show ?thesis by auto
qed

lemma run_net:
  assumes ok: "net_ok s" and j: "j < length (sub_tasks s)" and news: "\<not> breaks_check (RunSubTask j rs) s"
  shows "net_defined (run_sub_task env (sub_tasks s ! j) rs (without_task j s))"
proof -
  let ?s = "without_task j s" and ?t = "sub_tasks s ! j"
  have mem: "set (sub_tasks ?s) \<subseteq> set (sub_tasks s)" "?t \<in> set (sub_tasks s)"
    using j set_take_subset [of j "sub_tasks s"] set_drop_subset [of "Suc j" "sub_tasks s"] by auto
  have rest: "rest_ok ?s" using ok by (simp add: net_ok_def sub_ok_alt)
  have net: "net_rest ?s" using ok mem(1) by (auto simp: net_ok_def net_rest_def)
  show ?thesis
  proof (cases ?t)
    case (FindPublisherTask ti)
    with news j have "\<not> unexpected_news ti ?s" by (simp add: breaks_check_def)
    with FindPublisherTask OnFindPublisher_net [OF net] show ?thesis by (metis run_sub_task.simps(1))
  next
    case NotifyTask
    then have "sub_loop s \<noteq> Stopped"
      using ok mem(2) driver_count_0 [of s] by (auto simp: net_ok_def sub_ok_def loop_ok_def)
    with NotifyTask Notify_net [OF rest net] show ?thesis by auto
  next
    case StopTask
    with Stop_net [OF _ net] rest show ?thesis by (metis rest_ok_def run_sub_task.simps(4))
  qed (use ok mem(2) in \<open>auto simp: net_ok_def sub_ok_def loop_ok_def net_rest_def\<close>)
qed

lemma net_exec:
  assumes "net_ok s" "net_event ev" "\<not> breaks_check ev s"
  obtains s' where "sub_exec env ev s = Some s'" "net_ok s'"
proof -
  have net: "net_rest s" and ok: "sub_ok s" using assms(1) by (simp_all add: net_ok_def)
  have "net_defined (sub_exec env ev s)"
  proof (cases ev)
    case (PublisherFound ti)
    with assms(3) have "\<not> unexpected_news ti s" by (simp add: breaks_check_def)
    with PublisherFound OnFindPublisher_net [OF net] show ?thesis by (metis sub_exec.simps(4))
  qed (use assms net request_net [OF net] answer_net [OF net] OnConnect_net [OF assms(1)] Handshake_net [OF assms(1)]
      ReceiveDone_net [OF assms(1)] run_net [OF assms(1)] in auto)
  with that sub_exec_ok [OF _ ok] show thesis by (auto simp: net_ok_def)
qed

abbreviation net_reachable :: "sub_env \<Rightarrow> 'm subscriber \<Rightarrow> bool" where
  "net_reachable env \<equiv> reachable (\<lambda>s. s = new_Subscriber) (net_step env)"

interpretation net_subscriber: inductive_invariant "\<lambda>s. s = new_Subscriber" "net_step env" net_ok
  for env
proof
  show "s = new_Subscriber \<Longrightarrow> net_ok s" for s :: "'a subscriber"
    by (simp add: net_ok_def sub_ok_defs new_Subscriber_def queue_ok_def net_rest_def net_types_def doubling_def
        default_settings_def)
  show "net_ok s \<Longrightarrow> net_step env s s' \<Longrightarrow> net_ok s'" for s s'
    by (metis breaks_check_undefined net_exec net_stepE option.distinct(1) option.inject)
qed

end
