(* ===== verification/Felicia_SubscriberClaims.thy ===== *)
theory Felicia_SubscriberClaims
  imports Felicia_SubscriberSafe
begin

text \<open>
  What a subscriber guarantees: one message loop, delivery in the order of reception, the order in
  which channel types are tried, a stop that hands out what is queued, freedom from undefined
  behaviour on socket channels, and the failure count that survives a reconnection.
\<close>

section \<open>Draining\<close>

lemma Connect_keeps: "ConnectToPublisher s = Some s' \<Longrightarrow> sub_loop s' = sub_loop s \<and> delivered s' = delivered s"
  by (auto simp: ConnectToPublisher_def sub_answer_def Let_def split: prod.splits option.splits if_splits)

lemma OnFindPublisher_keeps:
  "OnFindPublisher mr ti s = Some s' \<Longrightarrow> sub_loop s = Stopped \<Longrightarrow> sub_loop s' = Stopped \<and> delivered s' = delivered s"
  using Connect_keeps [of "s\<lparr>sub_topic := ti, channel_type := 1\<rparr>" s']
  by (auto simp: OnFindPublisher_def post_def split: if_splits)

lemma Stop_stops:
  assumes "Stop mr s = Some s'"
  shows "sub_loop s' = Stopped \<and> delivered s' = delivered s"
proof -
  obtain s0 where s0: "release_if_unregistered s = Some s0" using assms by (auto simp: Stop_def split: option.splits)
  then have "delivered s0 = delivered s" by (auto simp: release_if_unregistered_def split: if_splits)
  with s0 assms OnFindPublisher_keeps [of mr _ "s0\<lparr>sub_loop := Stopped, topic_info_to_update := None\<rparr>" s']
    Connect_keeps [of "s0\<lparr>sub_loop := Stopped, channel_type := 1\<rparr>" s']
  show ?thesis by (auto simp: Stop_def Let_def sub_answer_def split: option.splits if_splits)
qed

lemma Notify_drains:
  assumes "NotifyMessageLoop s = Some s'" "order_ok s" "sub_loop s = Stopping"
  shows "sub_loop s' = Stopping \<and>
    map snd (delivered s') @ Pool_contents (sub_queue s') = map snd (delivered s) @ Pool_contents (sub_queue s) \<and>
    length (Pool_contents (sub_queue s')) = length (Pool_contents (sub_queue s)) - 1 \<and>
    (Pool_empty (sub_queue s') \<longrightarrow> StopTask \<in> set (sub_tasks s'))"
proof (cases "Pool_empty (sub_queue s)")
  case True
  then have "s' = s\<lparr>sub_tasks := sub_tasks s @ [StopTask]\<rparr>"
    using assms by (simp add: NotifyMessageLoop_def deliver_def post_def)
  with True assms queue_ok_empty [of "sub_queue s"] show ?thesis by (simp add: order_ok_def del: length_contents)
next
  case False
  obtain q where q: "Pool_pop (sub_queue s) = Some q" "queue_ok q"
      "Pool_front (sub_queue s) = Some (hd (Pool_contents (sub_queue s)))"
      "Pool_contents (sub_queue s) = hd (Pool_contents (sub_queue s)) # Pool_contents q"
    using queue_pop [OF _ False] assms(2) unfolding order_ok_def by blast
  then obtain cb where s': "s' = post (if Pool_empty q then StopTask else NotifyTask)
      (s\<lparr>sub_queue := q, delivered := delivered s @ [(cb, hd (Pool_contents (sub_queue s)))]\<rparr>)"
    using assms False by (auto simp: NotifyMessageLoop_def deliver_def bind_eq_Some_conv)
  have "length (Pool_contents (sub_queue s)) = Suc (length (Pool_contents q))" by (subst q(4)) simp
  with s' q(4) assms(3) show ?thesis by (simp add: post_def)
qed

abbreviation only_tasks :: "'m sub_event list \<Rightarrow> bool" where
  "only_tasks evs \<equiv> list_all (\<lambda>ev. case ev of RunSubTask _ _ \<Rightarrow> True | _ \<Rightarrow> False) evs"

lemma stopping_drains:
  assumes "net_ok s" "sub_loop s = Stopping"
  shows "\<exists>evs s'. only_tasks evs \<and> sub_run env evs s = Some s' \<and> sub_loop s' = Stopped \<and>
    map snd (delivered s') = map snd (delivered s) @ Pool_contents (sub_queue s)"
  using assms
proof (induction "length (Pool_contents (sub_queue s)) + (if StopTask \<in> set (sub_tasks s) then 0 else 1)"
    arbitrary: s rule: less_induct)
  case less
  have ok: "order_ok s" "loop_ok s" using less.prems(1) by (simp_all add: net_ok_def sub_ok_def)
  show ?case
  proof (cases "StopTask \<in> set (sub_tasks s)")
    case True
    then obtain j where j: "j < length (sub_tasks s)" "sub_tasks s ! j = StopTask" by (metis in_set_conv_nth)
    obtain s' where s': "sub_exec env (RunSubTask j []) s = Some s'" by (rule net_exec [OF less.prems(1), of "RunSubTask j []" env]) (use j in \<open>simp_all add: breaks_check_def\<close>)
    have "Pool_contents (sub_queue s) = []"
      using ok True queue_ok_empty by (auto simp: loop_ok_def order_ok_def)
    with s' j Stop_stops [of "resolves env" "without_task j s" s'] show ?thesis
      by (intro exI [of _ "[RunSubTask j []]"] exI [of _ s']) auto
  next
    case False
    then have "NotifyTask \<in> set (sub_tasks s)"
      using ok(2) less.prems(2) driver_count_0 [of s] by (auto simp: loop_ok_def)
    then obtain j where j: "j < length (sub_tasks s)" "sub_tasks s ! j = NotifyTask" by (metis in_set_conv_nth)
    obtain t where t: "sub_exec env (RunSubTask j []) s = Some t" "net_ok t"
      by (rule net_exec [OF less.prems(1), of "RunSubTask j []" env]) (use j in \<open>simp_all add: breaks_check_def\<close>)
    have "order_ok (without_task j s) = order_ok s" by (rule order_ok_cong) simp_all
    with t(1) j ok(1) less.prems(2) Notify_drains [of "without_task j s" t] have n: "sub_loop t = Stopping"
      "map snd (delivered t) @ Pool_contents (sub_queue t) = map snd (delivered s) @ Pool_contents (sub_queue s)"
      "length (Pool_contents (sub_queue t)) = length (Pool_contents (sub_queue s)) - 1"
      "Pool_empty (sub_queue t) \<longrightarrow> StopTask \<in> set (sub_tasks t)" by auto
    have "Pool_empty (sub_queue t) \<longleftrightarrow> Pool_contents (sub_queue t) = []"
      using queue_ok_empty t(2) by (auto simp: net_ok_def sub_ok_def order_ok_def)
    then have "length (Pool_contents (sub_queue t)) + (if StopTask \<in> set (sub_tasks t) then 0 else 1)
        < length (Pool_contents (sub_queue s)) + (if StopTask \<in> set (sub_tasks s) then 0 else 1)"
      using n(3,4) False by (cases "Pool_contents (sub_queue s)") (auto simp del: length_contents)
    from less.hyps [OF this t(2) n(1)] obtain evs s' where "only_tasks evs" "sub_run env evs t = Some s'"
        "sub_loop s' = Stopped" "map snd (delivered s') = map snd (delivered t) @ Pool_contents (sub_queue t)" by blast
    with t(1) n(2) show ?thesis by (intro exI [of _ "RunSubTask j [] # evs"] exI [of _ s']) simp
  qed
qed

section \<open>Examples\<close>

definition demo_env :: sub_env where
  "demo_env = \<lparr>with_ros = False, resolves = (\<lambda>ti. True)\<rparr>"

definition demo_news :: topic_info where
  "demo_news = empty_topic\<lparr>topic_source := \<lparr>channel_defs = [default_channel_def\<lparr>cd_type := CHANNEL_TYPE_TCP\<rparr>]\<rparr>\<rparr>"

definition demo_sub_settings :: settings where
  "demo_sub_settings = default_settings\<lparr>buffer_size := 16, queue_size := 4\<rparr>"

definition demo_subscribe :: "nat sub_event list" where
  "demo_subscribe = [CallSubscribe 8 demo_sub_settings 1 (Some 2) None, MasterAnswers Status_OK, PublisherFound demo_news,
     ConnectDone Status_OK [Received 10, Received 11, Received 12]]"

abbreviation demo_sub_run :: "nat sub_event list \<Rightarrow> nat subscriber option" where
  "demo_sub_run evs \<equiv> sub_run demo_env evs new_Subscriber"

lemma demo_sub_reachable: "demo_sub_run evs = Some s \<Longrightarrow> sub_reachable demo_env s"
  by (rule sub_run_reachable) (auto intro: reachable.start)

lemma net_run_reachable:
  "sub_run env evs s = Some s' \<Longrightarrow> list_all net_event evs \<Longrightarrow> net_reachable env s \<Longrightarrow> net_reachable env s'"
proof (induction evs arbitrary: s)
  case (Cons ev evs)
  then obtain s1 where "sub_exec env ev s = Some s1" "sub_run env evs s1 = Some s'" by (auto simp: bind_eq_Some_conv)
  moreover from this(1) have "net_reachable env s1"
    using Cons.prems(2,3) by (auto intro: reachable.move net_step.intros)
  ultimately show ?case using Cons.IH Cons.prems(2) by simp
qed simp

lemma demo_net_reachable: "demo_sub_run evs = Some s \<Longrightarrow> list_all net_event evs \<Longrightarrow> net_reachable demo_env s"
  by (rule net_run_reachable) (auto intro: reachable.start)

section \<open>Properties\<close>

text \<open>
  C14.  A subscriber has at most one message loop: one task that notifies or stops it while the loop
  is started or stopping and none when it is stopped.  A started loop has a connected channel, and
  the state of the registration tells which request to the master is outstanding.
\<close>

theorem subscriber_single_loop:
  assumes "sub_reachable env s"
  shows "count_list (sub_tasks s) NotifyTask + count_list (sub_tasks s) StopTask = (if sub_loop s = Stopped then 0 else 1) \<and>
    (sub_loop s = Started \<longrightarrow> (\<exists>c b. sub_channel s = Some c \<and> sc_phase c = Connected b)) \<and>
    length (sub_requests s) = (if sub_register s = Registering \<or> sub_register s = Unregistering then 1 else 0)"
proof -
  note ok = subscriber.inv_reachable [OF assms, unfolded sub_ok_def]
  have "length (sub_requests s) = (if sub_register s = Registering \<or> sub_register s = Unregistering then 1 else 0)"
    using ok by (cases "sub_register s") (auto simp: sub_registration_ok_def)
  moreover have "\<exists>c b. sub_channel s = Some c \<and> sc_phase c = Connected b" if "sub_loop s = Started"
    using ok that by (auto simp: link_ok_def split: option.splits link_phase.splits)
  ultimately show ?thesis using ok by (simp add: loop_ok_def driver_count_def)
qed

theorem subscriber_single_loop_witness:
  "\<exists>s. demo_sub_run demo_subscribe = Some s \<and> sub_loop s = Started \<and>
     count_list (sub_tasks s) NotifyTask + count_list (sub_tasks s) StopTask = 1"
proof -
  have "map_option sub_loop (demo_sub_run demo_subscribe) = Some Started" by code_simp
  then obtain s where s: "demo_sub_run demo_subscribe = Some s" "sub_loop s = Started" by auto
  with subscriber_single_loop [OF demo_sub_reachable [OF s(1)]] show ?thesis by auto
qed

text \<open>
  C12.  What the user's callback gets is what was received, in the order of reception: the messages
  delivered so far followed by those still queued are a subsequence of the messages received, so
  none is invented, duplicated or reordered, although a full queue drops the oldest.
\<close>

theorem subscriber_delivers_in_order:
  assumes "sub_reachable env s"
  shows "subseq (map snd (delivered s) @ Pool_contents (sub_queue s)) (received s)"
  using subscriber.inv_reachable [OF assms] by (simp add: sub_ok_def order_ok_def)

theorem subscriber_delivers_in_order_witness:
  "\<exists>s. demo_sub_run (demo_subscribe @ [RunSubTask 0 []]) = Some s \<and> map snd (delivered s) = [10, 11] \<and>
     subseq ([10, 11] @ Pool_contents (sub_queue s)) (received s)"
proof -
  have "map_option (\<lambda>s. map snd (delivered s)) (demo_sub_run (demo_subscribe @ [RunSubTask 0 []])) = Some [10, 11]"
    by code_simp
  then obtain s where s: "demo_sub_run (demo_subscribe @ [RunSubTask 0 []]) = Some s" "map snd (delivered s) = [10, 11]"
    by auto
  with subscriber_delivers_in_order [OF demo_sub_reachable [OF s(1)]] show ?thesis by auto
qed


lemma demo_subscribe_net: "list_all net_event demo_subscribe"
  by (simp add: demo_subscribe_def demo_sub_settings_def net_types_def)


text \<open>The case happens: news of a publisher reaches a subscriber whose loop still runs on its TCP channel.\<close>

theorem news_breaks_running_subscriber:
  "\<exists>s :: nat subscriber. sub_reachable demo_env s \<and> sub_exec demo_env (PublisherFound demo_news) s = None"
proof -
  have "map_option (\<lambda>s. sub_exec demo_env (PublisherFound demo_news) s = None) (demo_sub_run demo_subscribe) = Some True" by code_simp
  then obtain s where "demo_sub_run demo_subscribe = Some s" "sub_exec demo_env (PublisherFound demo_news) s = None" by auto
  then show ?thesis using demo_sub_reachable by blast
qed

text \<open>
  C15.  A loop of a subscriber on socket channels that is stopping can end by itself after handing
  out everything queued: there is a sequence of the subscriber's own tasks alone that brings it to a
  stop with the queued messages delivered in order.
\<close>

theorem stopping_subscriber_drains:
  assumes "net_reachable env s" and "sub_loop s = Stopping"
  shows "\<exists>evs s'. list_all (\<lambda>ev. case ev of RunSubTask _ _ \<Rightarrow> True | _ \<Rightarrow> False) evs \<and> sub_run env evs s = Some s' \<and>
    sub_loop s' = Stopped \<and> map snd (delivered s') = map snd (delivered s) @ Pool_contents (sub_queue s)"
  using stopping_drains [OF net_subscriber.inv_reachable [OF assms(1)] assms(2)] .

theorem stopping_subscriber_drains_witness:
  "\<exists>s evs s'. demo_sub_run (demo_subscribe @ [CallUnsubscribe None, MasterAnswers Status_OK]) = Some s \<and>
     sub_run demo_env evs s = Some s' \<and> sub_loop s' = Stopped \<and> map snd (delivered s') = [10, 11, 12]"
proof -
  let ?evs = "demo_subscribe @ [CallUnsubscribe None, MasterAnswers Status_OK]"
  have "map_option (\<lambda>s. (sub_loop s, map snd (delivered s), Pool_contents (sub_queue s))) (demo_sub_run ?evs) =
      Some (Stopping, [10], [11, 12])" by code_simp
  then obtain s where s: "demo_sub_run ?evs = Some s" "sub_loop s = Stopping" "map snd (delivered s) = [10]"
      "Pool_contents (sub_queue s) = [11, 12]" by auto
  have "list_all net_event ?evs" using demo_subscribe_net by simp
  from stopping_subscriber_drains [OF demo_net_reachable [OF s(1) this] s(2)] s
  obtain evs s' where "sub_run demo_env evs s = Some s'" "sub_loop s' = Stopped" "map snd (delivered s') = [10, 11, 12]"
    by (auto simp del: map_eq_Cons_conv)
  with s(1) show ?thesis by (intro exI conjI)
qed

text \<open>
  The search for a channel is the search of the wanted channel types in ascending order: from
  the type \<open>2 ^ k\<close> on, the match is the channel of the first type that is both wanted and offered.
\<close>

theorem channel_search_in_order:
  assumes "types < 2 ^ n"
  shows "snd (match_loop types ds (2 ^ k)) =
    (case List.find (\<lambda>ty. ty AND types \<noteq> 0 \<and> def_of_type ty ds \<noteq> None) (map (\<lambda>i. 2 ^ i) [k..<n]) of
       None \<Rightarrow> None | Some ty \<Rightarrow> def_of_type ty ds)"
proof (induction "n - k" arbitrary: k)
  case 0
  then have "n \<le> k" by simp
  then have "(2::nat) ^ n \<le> 2 ^ k" by (rule power_increasing) simp
  with assms have "\<not> 2 ^ k \<le> types" by linarith
  with \<open>n \<le> k\<close> show ?case by (simp add: match_loop.simps [of types ds "2 ^ k"])
next
  case (Suc m)
  then have up: "[k..<n] = k # [Suc k..<n]" and ih: "m = n - Suc k" by (simp_all add: upt_conv_Cons)
  note IH = Suc.hyps(1) [OF ih]
  show ?case
  proof (cases "2 ^ k \<le> types")
    case True
    with IH up show ?thesis
      by (simp add: match_loop.simps [of types ds "2 ^ k"] push_bit_eq_mult mult.commute split: option.split)
  next
    case False
    have "ty AND types = 0" if "ty \<in> set (map (\<lambda>i. 2 ^ i) [k..<n])" for ty :: nat
    proof -
      from that obtain i where i: "ty = 2 ^ i" "k \<le> i" by auto
      then have "types < 2 ^ i" using False power_increasing [of k i "2::nat"] by linarith
      then have "take_bit i types = types" by (simp add: take_bit_nat_eq_self)
      then show ?thesis unfolding i(1) by (metis and.commute and_exp_eq_0_iff_not_bit bit_take_bit_iff less_irrefl)
    qed
    then have "List.find (\<lambda>ty. ty AND types \<noteq> 0 \<and> def_of_type ty ds \<noteq> None) (map (\<lambda>i. 2 ^ i) [k..<n]) = None"
      by (auto simp: find_None_iff)
    with False show ?thesis by (simp add: match_loop.simps [of types ds "2 ^ k"])
  qed
qed

theorem channel_search_in_order_witness:
  "snd (match_loop 14 (channel_defs (topic_source demo_news)) (2 ^ 0)) =
     Some (default_channel_def\<lparr>cd_type := CHANNEL_TYPE_TCP\<rparr>)"
proof -
  have "(14::nat) < 2 ^ 4" by simp
  from channel_search_in_order [OF this, of "channel_defs (topic_source demo_news)" 0] show ?thesis by code_simp
qed

text \<open>
  A subscriber that reconnects after repeated failures keeps their count: its loop starts again
  with the limit reached, and the first failed receive on the new connection stops it.
\<close>

theorem reconnected_subscriber_keeps_failures:
  "\<exists>(s :: nat subscriber) s'. sub_reachable demo_env s \<and> sub_loop s = Started \<and> received s = [] \<and>
     receive_message_failed_cnt s = kMaximumReceiveMessageFailedAllowed \<and>
     sub_exec demo_env (ReceiveDone (ReceiveFailed (Aborted []) True) []) s = Some s' \<and> sub_loop s' = Stopping"
proof -
  let ?f = "ReceiveFailed (Aborted []) True" and ?d = "ReceiveDone (ReceiveFailed (Aborted []) True) [] :: nat sub_event"
  let ?evs = "[CallSubscribe 8 demo_sub_settings 1 (Some 2) None, MasterAnswers Status_OK, PublisherFound demo_news,
      ConnectDone Status_OK [?f, ?f, ?f, ?f, ?f], RunSubTask 0 [], ConnectDone Status_OK []] :: nat sub_event list"
  have "map_option (\<lambda>s. (sub_loop s, received s, receive_message_failed_cnt s,
      map_option sub_loop (sub_exec demo_env ?d s))) (demo_sub_run ?evs) =
      Some (Started, [], kMaximumReceiveMessageFailedAllowed, Some Stopping)" by code_simp
  then obtain s s' where "demo_sub_run ?evs = Some s" "sub_loop s = Started" "received s = []"
      "receive_message_failed_cnt s = kMaximumReceiveMessageFailedAllowed" "sub_exec demo_env ?d s = Some s'"
      "sub_loop s' = Stopping"
    unfolding map_option_eq_Some prod.inject by blast
  then show ?thesis using demo_sub_reachable by blast
qed

end
