(* ===== verification/Felicia_MessageFilter.thy ===== *)
theory Felicia_MessageFilter
  imports Felicia_Pool "HOL-Library.Sublist"
begin

text \<open>
  \<open>core/message/message_filter.h\<close>: the queues of a message filter, one per message type, and the
  filter that lets only messages with close timestamps through.  The message types of the template
  are one type here; a queue is named by its position.  A failing \<open>CHECK\<close>, and what the program
  leaves undefined, is \<open>None\<close>.  The last field of a filter records, for the statements, what the
  user's callback was called with.
\<close>

section \<open>The filter\<close>

record 'm message_filter =
  filter_impl :: "'m pool list"
  non_empty_queue_count :: u8
  has_notify_callback :: bool
  notified :: "'m list list"

text \<open>
  The constructor passes its capacity to the first queue only: the other queues are default
  constructed, with room for one message.
\<close>

definition new_MessageQueueImpl :: "u8 \<Rightarrow> nat \<Rightarrow> 'm pool list" where
  "new_MessageQueueImpl cap n = new_Pool cap # replicate (n - 1) (new_Pool 1)"

definition new_MessageFilter :: "u8 \<Rightarrow> nat \<Rightarrow> 'm message_filter" where
  "new_MessageFilter cap n =
     \<lparr>filter_impl = new_MessageQueueImpl cap n, non_empty_queue_count = 0, has_notify_callback = False, notified = []\<rparr>"

definition set_notify_callback :: "'m message_filter \<Rightarrow> 'm message_filter" where
  "set_notify_callback f = f\<lparr>has_notify_callback := True\<rparr>"

abbreviation TypeSize :: "'m message_filter \<Rightarrow> nat" where
  "TypeSize f \<equiv> length (filter_impl f)"

fun MessageQueueImpl_reserve :: "u8 \<Rightarrow> 'm pool list \<Rightarrow> 'm pool list option" where
  "MessageQueueImpl_reserve cap [] = Some []"
| "MessageQueueImpl_reserve cap (p # rest) =
     do { p' \<leftarrow> Pool_reserve cap p; rest' \<leftarrow> MessageQueueImpl_reserve cap rest; Some (p' # rest') }"

definition MessageFilter_reserve :: "u8 \<Rightarrow> 'm message_filter \<Rightarrow> 'm message_filter option" where
  "MessageFilter_reserve cap f =
     map_option (\<lambda>qs. f\<lparr>filter_impl := qs\<rparr>) (MessageQueueImpl_reserve cap (filter_impl f))"

definition DoesAllQueueHaveElement :: "'m message_filter \<Rightarrow> bool" where
  "DoesAllQueueHaveElement f \<longleftrightarrow> unat (non_empty_queue_count f) = TypeSize f"

definition filter_pop :: "nat \<Rightarrow> 'm message_filter \<Rightarrow> 'm message_filter option" where
  "filter_pop N f =
     do {
       p \<leftarrow> Pool_pop (filter_impl f ! N);
       let f' = f\<lparr>filter_impl := (filter_impl f)[N := p]\<rparr>;
       Some (if Pool_empty p then f'\<lparr>non_empty_queue_count := non_empty_queue_count f' - 1\<rparr> else f')
     }"

text \<open>The run-time index is dispatched for the first nine queues only.\<close>

definition DropMessage :: "nat \<Rightarrow> 'm message_filter \<Rightarrow> 'm message_filter option" where
  "DropMessage idx f = (if idx \<le> 8 \<and> idx < TypeSize f then filter_pop idx f else Some f)"

definition MessageCount :: "nat \<Rightarrow> 'm message_filter \<Rightarrow> u8" where
  "MessageCount idx f = (if idx \<le> 8 \<and> idx < TypeSize f then Pool_size (filter_impl f ! idx) else 0)"

primrec Notify :: "nat \<Rightarrow> 'm list \<Rightarrow> 'm message_filter \<Rightarrow> 'm message_filter option" where
  "Notify 0 args f =
     do {
       message \<leftarrow> Pool_front (filter_impl f ! 0);
       f' \<leftarrow> filter_pop 0 f;
       Some (f'\<lparr>notified := notified f' @ [message # args]\<rparr>)
     }"
| "Notify (Suc N) args f =
     do {
       message \<leftarrow> Pool_front (filter_impl f ! Suc N);
       f' \<leftarrow> filter_pop (Suc N) f;
       Notify N (message # args) f'
     }"

type_synonym ('m, 's) filter_callback = "'m message_filter \<Rightarrow> 's \<Rightarrow> (bool \<times> 'm message_filter \<times> 's) option"

text \<open>The callback of the user works on the filter and on a state of its own.\<close>

definition ApplyFilter ::
    "('m, 's) filter_callback option \<Rightarrow> 'm message_filter \<Rightarrow> 's \<Rightarrow> ('m message_filter \<times> 's) option" where
  "ApplyFilter filter_callback f s =
     (if \<not> has_notify_callback f then None
      else (case filter_callback of
        None \<Rightarrow> map_option (\<lambda>f'. (f', s)) (Notify (TypeSize f - 1) [] f)
      | Some callback \<Rightarrow>
          if DoesAllQueueHaveElement f
          then do {
            (should_notify, f', s') \<leftarrow> callback f s;
            if should_notify then map_option (\<lambda>f''. (f'', s')) (Notify (TypeSize f' - 1) [] f') else Some (f', s')
          }
          else Some (f, s)))"

definition OnMessage ::
    "('m, 's) filter_callback option \<Rightarrow> nat \<Rightarrow> 'm \<Rightarrow> 'm message_filter \<Rightarrow> 's \<Rightarrow> ('m message_filter \<times> 's) option" where
  "OnMessage filter_callback N message f s =
     do {
       p \<leftarrow> Pool_push message (filter_impl f ! N);
       let f1 = f\<lparr>filter_impl := (filter_impl f)[N := p]\<rparr>;
       let f2 = (if Pool_empty (filter_impl f ! N)
                 then f1\<lparr>non_empty_queue_count := non_empty_queue_count f1 + 1\<rparr> else f1);
       if DoesAllQueueHaveElement f2 then ApplyFilter filter_callback f2 s else Some (f2, s)
     }"

primrec OnMessages ::
    "('m, 's) filter_callback option \<Rightarrow> (nat \<times> 'm) list \<Rightarrow> 'm message_filter \<Rightarrow> 's \<Rightarrow> ('m message_filter \<times> 's) option" where
  "OnMessages fc [] f s = Some (f, s)"
| "OnMessages fc (x # xs) f s = do { (f', s') \<leftarrow> OnMessage fc (fst x) (snd x) f s; OnMessages fc xs f' s' }"

section \<open>The time synchronizer\<close>

definition TimeDelta_Max :: int where
  "TimeDelta_Max = 2 ^ 63 - 1"

definition TimeDelta_Min :: int where
  "TimeDelta_Min = - (2 ^ 63)"

text \<open>\<open>base::TimeDelta\<close> subtracts with saturation; the extreme values are infinities, and the
  difference of two equal ones is a failing \<open>CHECK\<close>.\<close>

definition TimeDelta_minus :: "int \<Rightarrow> int \<Rightarrow> int option" where
  "TimeDelta_minus v d =
     (if d = TimeDelta_Max then (if v < TimeDelta_Max then Some TimeDelta_Min else None)
      else if d = TimeDelta_Min then (if v > TimeDelta_Min then Some TimeDelta_Max else None)
      else if TimeDelta_Min \<le> v - d \<and> v - d \<le> TimeDelta_Max then Some (v - d)
      else if d < 0 then Some TimeDelta_Max else Some TimeDelta_Min)"

record time_synchronizer =
  max_intra_time_difference :: int
  min_inter_time_difference :: int
  last_timestamp :: int

definition new_TimeSynchronizer :: time_synchronizer where
  "new_TimeSynchronizer =
     \<lparr>max_intra_time_difference = 100000, min_inter_time_difference = TimeDelta_Min, last_timestamp = TimeDelta_Min\<rparr>"

record message_info =
  mi_idx :: "nat option"
  mi_timestamp :: int

definition see_timestamp :: "nat \<Rightarrow> int \<Rightarrow> message_info \<times> message_info \<Rightarrow> message_info \<times> message_info" where
  "see_timestamp N t el =
     (if t < mi_timestamp (fst el) then \<lparr>mi_idx = Some N, mi_timestamp = t\<rparr> else fst el,
      if t > mi_timestamp (snd el) then \<lparr>mi_idx = Some N, mi_timestamp = t\<rparr> else snd el)"

text \<open>The indexing of a queue is a parameter: the code's is the pool's \<open>operator[]\<close>.\<close>

primrec FindTimestamps ::
    "('m pool \<Rightarrow> u8 \<Rightarrow> 'm option) \<Rightarrow> ('m \<Rightarrow> int) \<Rightarrow> nat \<Rightarrow> 'm message_filter \<Rightarrow> u8 list \<Rightarrow>
      message_info \<times> message_info \<Rightarrow> (message_info \<times> message_info) option" where
  "FindTimestamps peek ts 0 f peek_idxs el =
     map_option (\<lambda>m. see_timestamp 0 (ts m) el) (peek (filter_impl f ! 0) (peek_idxs ! 0))"
| "FindTimestamps peek ts (Suc N) f peek_idxs el =
     do {
       m \<leftarrow> peek (filter_impl f ! Suc N) (peek_idxs ! Suc N);
       FindTimestamps peek ts N f peek_idxs (see_timestamp (Suc N) (ts m) el)
     }"

record 'm sync_state =
  ss_filter :: "'m message_filter"
  peek_idxs :: "u8 list"
  has_candidate :: bool
  last_updated_peek_idx :: nat
  last_timestamp_candidate :: int

text \<open>One turn of the loop; the flag says whether it goes on.\<close>

definition sync_turn ::
    "('m pool \<Rightarrow> u8 \<Rightarrow> 'm option) \<Rightarrow> ('m \<Rightarrow> int) \<Rightarrow> time_synchronizer \<Rightarrow> 'm sync_state \<Rightarrow> (bool \<times> 'm sync_state) option" where
  "sync_turn peek ts sy st =
     do {
       (earliest, latest) \<leftarrow> FindTimestamps peek ts (TypeSize (ss_filter st) - 1) (ss_filter st) (peek_idxs st)
          (\<lparr>mi_idx = None, mi_timestamp = TimeDelta_Max\<rparr>, \<lparr>mi_idx = None, mi_timestamp = TimeDelta_Min\<rparr>);
       delta \<leftarrow> TimeDelta_minus (mi_timestamp latest) (mi_timestamp earliest);
       fits \<leftarrow> (if delta \<le> max_intra_time_difference sy then
                  (if last_timestamp sy = TimeDelta_Min then Some True
                   else map_option (\<lambda>d. d \<ge> min_inter_time_difference sy)
                          (TimeDelta_minus (mi_timestamp earliest) (last_timestamp sy)))
                else Some False);
       if fits then
         let st1 = st\<lparr>last_timestamp_candidate := mi_timestamp latest, has_candidate := True\<rparr> in
         if delta = 0 then Some (False, st1)
         else do {
           i \<leftarrow> mi_idx earliest;
           let st2 = st1\<lparr>last_updated_peek_idx := i\<rparr>;
           if unat (MessageCount i (ss_filter st)) > unat (peek_idxs st ! i) + 1
           then Some (True, st2\<lparr>peek_idxs := (peek_idxs st)[i := peek_idxs st ! i + 1]\<rparr>)
           else Some (False, st2)
         }
       else if has_candidate st then
         let i = last_updated_peek_idx st in
         Some (False, st\<lparr>peek_idxs := (peek_idxs st)[i := peek_idxs st ! i - 1]\<rparr>)
       else do {
         i \<leftarrow> mi_idx earliest;
         if unat (MessageCount i (ss_filter st)) > 1
         then do { f' \<leftarrow> DropMessage i (ss_filter st); Some (True, st\<lparr>ss_filter := f'\<rparr>) }
         else Some (False, st)
       }
     }"

partial_function (option) sync_loop ::
    "('m pool \<Rightarrow> u8 \<Rightarrow> 'm option) \<Rightarrow> ('m \<Rightarrow> int) \<Rightarrow> time_synchronizer \<Rightarrow> 'm sync_state \<Rightarrow> 'm sync_state option" where
  "sync_loop peek ts sy st =
     (if DoesAllQueueHaveElement (ss_filter st) then
        Option.bind (sync_turn peek ts sy st) (\<lambda>r. if fst r then sync_loop peek ts sy (snd r) else Some (snd r))
      else Some st)"

declare sync_loop.simps [code]

primrec drop_times :: "nat \<Rightarrow> nat \<Rightarrow> 'm message_filter \<Rightarrow> 'm message_filter option" where
  "drop_times 0 i f = Some f"
| "drop_times (Suc k) i f = Option.bind (DropMessage i f) (drop_times k i)"

primrec drop_before :: "u8 list \<Rightarrow> nat \<Rightarrow> 'm message_filter \<Rightarrow> 'm message_filter option" where
  "drop_before [] i f = Some f"
| "drop_before (k # ks) i f = Option.bind (drop_times (unat k) i f) (drop_before ks (Suc i))"

definition synchronize ::
    "('m pool \<Rightarrow> u8 \<Rightarrow> 'm option) \<Rightarrow> ('m \<Rightarrow> int) \<Rightarrow> ('m, time_synchronizer) filter_callback" where
  "synchronize peek ts f sy =
     do {
       st \<leftarrow> sync_loop peek ts sy \<lparr>ss_filter = f, peek_idxs = replicate (TypeSize f) 0, has_candidate = False,
               last_updated_peek_idx = 0, last_timestamp_candidate = 0\<rparr>;
       if has_candidate st then
         map_option (\<lambda>f'. (True, f', sy\<lparr>last_timestamp := last_timestamp_candidate st\<rparr>))
           (drop_before (peek_idxs st) 0 (ss_filter st))
       else Some (False, ss_filter st, sy)
     }"

definition TimeSynchronizer_Callback :: "('m \<Rightarrow> int) \<Rightarrow> ('m, time_synchronizer) filter_callback" where
  "TimeSynchronizer_Callback = synchronize Pool_index_operator"

end
