(* ===== verification/Felicia_MessageFilterProps.thy ===== *)
theory Felicia_MessageFilterProps
  imports Felicia_MessageFilter
begin

text \<open>
  The message filter seen as a list of queues, what its callback gets when nothing filters, and what
  the time synchronizer guarantees: with a queue index that works, that the messages it lets
  through are close in time; with the pool's own index only for queues of one message.
\<close>

section \<open>View and invariant\<close>

definition queues :: "'m message_filter \<Rightarrow> 'm list list" where
  "queues f = map Pool_contents (filter_impl f)"

definition filter_ok :: "'m message_filter \<Rightarrow> bool" where
  "filter_ok f \<longleftrightarrow> 0 < TypeSize f \<and> TypeSize f < 256 \<and> list_all pool_ok (filter_impl f) \<and>
     unat (non_empty_queue_count f) = length (filter (\<lambda>q. q \<noteq> []) (queues f))"

lemma length_queues [simp]: "length (queues f) = TypeSize f"
  by (simp add: queues_def)

lemma notified_update [simp]:
  "queues (f\<lparr>notified := xs\<rparr>) = queues f" "filter_ok (f\<lparr>notified := xs\<rparr>) = filter_ok f"
  "queues (f\<lparr>has_notify_callback := b\<rparr>) = queues f" "filter_ok (f\<lparr>has_notify_callback := b\<rparr>) = filter_ok f"
  "queues (f\<lparr>non_empty_queue_count := k\<rparr>) = queues f"
  by (simp_all add: queues_def filter_ok_def)

lemma nth_queues: "N < TypeSize f \<Longrightarrow> queues f ! N = Pool_contents (filter_impl f ! N)"
  by (simp add: queues_def)

lemma filter_ok_pool: "filter_ok f \<Longrightarrow> N < TypeSize f \<Longrightarrow> pool_ok (filter_impl f ! N)"
  by (simp add: filter_ok_def list_all_length)

lemma all_have_element:
  assumes "filter_ok f"
  shows "DoesAllQueueHaveElement f \<longleftrightarrow> (\<forall>q\<in>set (queues f). q \<noteq> [])"
proof -
  have "length (filter (\<lambda>q. q \<noteq> []) (queues f)) = length (queues f) \<longleftrightarrow> (\<forall>q\<in>set (queues f). q \<noteq> [])"
    by (metis (mono_tags, lifting) filter_True length_filter_less linorder_neq_iff)
  with assms show ?thesis by (simp add: filter_ok_def DoesAllQueueHaveElement_def)
qed

lemma pool_empty_contents: "pool_ok p \<Longrightarrow> Pool_empty p \<longleftrightarrow> Pool_contents p = []"
  using length_contents [of p] by (auto simp: Pool_empty_count simp del: length_contents)

lemma length_filter_update:
  assumes "i < length xs"
  shows "length (filter P (xs[i := x])) + (if P (xs ! i) then 1 else 0) = length (filter P xs) + (if P x then 1 else 0)"
  by (subst (2) id_take_nth_drop [OF assms]) (simp add: upd_conv_take_nth_drop [OF assms])

lemma queue_replaced:
  assumes "filter_ok f" "N < TypeSize f" "pool_ok p"
  defines "f1 \<equiv> f\<lparr>filter_impl := (filter_impl f)[N := p]\<rparr>"
  shows "queues f1 = (queues f)[N := Pool_contents p]" "list_all pool_ok (filter_impl f1)"
    "length (filter (\<lambda>q. q \<noteq> []) (queues f1)) + (if queues f ! N \<noteq> [] then 1 else 0) =
       unat (non_empty_queue_count f) + (if Pool_contents p \<noteq> [] then 1 else 0)"
proof -
  show q: "queues f1 = (queues f)[N := Pool_contents p]" by (simp add: f1_def queues_def map_update)
  show "list_all pool_ok (filter_impl f1)"
    using assms set_update_subset_insert [of "filter_impl f" N p] by (auto simp: f1_def filter_ok_def list_all_iff)
  show "length (filter (\<lambda>q. q \<noteq> []) (queues f1)) + (if queues f ! N \<noteq> [] then 1 else 0) =
       unat (non_empty_queue_count f) + (if Pool_contents p \<noteq> [] then 1 else 0)"
    using length_filter_update [of N "queues f" "\<lambda>q. q \<noteq> []" "Pool_contents p"] assms(1,2)
    by (simp add: q filter_ok_def)
qed

lemma filter_pop_correct:
  assumes ok: "filter_ok f" "N < TypeSize f" and ne: "queues f ! N \<noteq> []"
  obtains f' where "filter_pop N f = Some f'" "filter_ok f'" "queues f' = (queues f)[N := tl (queues f ! N)]"
    "has_notify_callback f' = has_notify_callback f" "notified f' = notified f" "TypeSize f' = TypeSize f"
proof -
  obtain p where p: "Pool_pop (filter_impl f ! N) = Some p" "pool_ok p" "Pool_contents p = tl (queues f ! N)"
    using pool.pop_oldest [OF filter_ok_pool [OF ok]] by (auto simp: nth_queues [OF ok(2)])
  let ?f = "f\<lparr>filter_impl := (filter_impl f)[N := p]\<rparr>"
  let ?g = "?f\<lparr>non_empty_queue_count := non_empty_queue_count f - 1\<rparr>"
  note r = queue_replaced [OF ok p(2)]
  have pos: "0 < unat (non_empty_queue_count f)"
    using ok(1) ne nth_mem [of N "queues f"] ok(2) by (auto simp: filter_ok_def filter_empty_conv)
  then have dec: "unat (non_empty_queue_count f - 1) = unat (non_empty_queue_count f) - 1"
    by (simp add: unat_sub word_le_nat_alt)
  show thesis
  proof (cases "Pool_empty p")
    case True
    then have "filter_pop N f = Some ?g" using p(1) by (simp add: filter_pop_def Let_def)
    moreover have "queues ?g = queues ?f" by (simp add: queues_def)
    moreover have "filter_ok ?g"
      using r ne True pool_empty_contents [OF p(2)] ok(1) dec \<open>queues ?g = queues ?f\<close> by (simp add: filter_ok_def)
    ultimately show thesis using that [of ?g] r(1) p(3) by simp
  next
    case False
    then have "filter_pop N f = Some ?f" using p(1) by (simp add: filter_pop_def Let_def)
    moreover have "filter_ok ?f" using r ne False pool_empty_contents [OF p(2)] ok(1) by (simp add: filter_ok_def)
    ultimately show thesis using that [of ?f] r(1) p(3) by simp
  qed
qed

lemma Notify_correct:
  assumes "filter_ok f" "N < TypeSize f" "\<forall>i\<le>N. queues f ! i \<noteq> []"
  shows "\<exists>f'. Notify N args f = Some f' \<and> filter_ok f' \<and> TypeSize f' = TypeSize f \<and>
    has_notify_callback f' = has_notify_callback f \<and>
    queues f' = map tl (take (Suc N) (queues f)) @ drop (Suc N) (queues f) \<and>
    notified f' = notified f @ [map hd (take (Suc N) (queues f)) @ args]"
  using assms
proof (induction N arbitrary: args f)
  case 0
  obtain f' where f': "filter_pop 0 f = Some f'" "filter_ok f'" "queues f' = (queues f)[0 := tl (queues f ! 0)]"
      "has_notify_callback f' = has_notify_callback f" "notified f' = notified f" "TypeSize f' = TypeSize f"
    using filter_pop_correct [OF 0(1,2)] 0(3) by blast
  have "Pool_front (filter_impl f ! 0) = Some (hd (queues f ! 0))"
    using Pool_front_correct [OF filter_ok_pool [OF 0(1,2)]] 0(2,3) by (simp add: nth_queues)
  moreover obtain q qs where "queues f = q # qs" using 0(2) by (cases "queues f") (auto simp: queues_def)
  ultimately show ?case using f' by simp
next
  case (Suc N)
  obtain f1 where f1: "filter_pop (Suc N) f = Some f1" "filter_ok f1"
      "queues f1 = (queues f)[Suc N := tl (queues f ! Suc N)]" "has_notify_callback f1 = has_notify_callback f"
      "notified f1 = notified f" "TypeSize f1 = TypeSize f"
    using filter_pop_correct [OF Suc.prems(1,2)] Suc.prems(3) by blast
  have front: "Pool_front (filter_impl f ! Suc N) = Some (hd (queues f ! Suc N))"
    using Pool_front_correct [OF filter_ok_pool [OF Suc.prems(1,2)]] Suc.prems(2,3) by (simp add: nth_queues)
  have "\<forall>i\<le>N. queues f1 ! i \<noteq> []" using f1(3) Suc.prems(3) by simp
  from Suc.IH [OF f1(2) _ this, of "hd (queues f ! Suc N) # args"] Suc.prems(2) f1(6)
  obtain f' where f': "Notify N (hd (queues f ! Suc N) # args) f1 = Some f'" "filter_ok f'" "TypeSize f' = TypeSize f1"
      "has_notify_callback f' = has_notify_callback f1"
      "queues f' = map tl (take (Suc N) (queues f1)) @ drop (Suc N) (queues f1)"
      "notified f' = notified f1 @ [map hd (take (Suc N) (queues f1)) @ hd (queues f ! Suc N) # args]" by auto
  have len: "Suc N < length (queues f)" using Suc.prems(2) by simp
  have "take (Suc N) (queues f1) = take (Suc N) (queues f)" using f1(3) by simp
  moreover have "drop (Suc N) (queues f1) = tl (queues f ! Suc N) # drop (Suc (Suc N)) (queues f)"
    using len by (simp add: f1(3) Cons_nth_drop_Suc [symmetric] drop_update_cancel)
  moreover have "take (Suc (Suc N)) (queues f) = take (Suc N) (queues f) @ [queues f ! Suc N]"
    using take_Suc_conv_app_nth [OF len] .
  ultimately show ?case using f1 f' front by simp
qed

lemma Notify_all:
  assumes "filter_ok f" "DoesAllQueueHaveElement f"
  obtains f' where "Notify (TypeSize f - 1) [] f = Some f'" "filter_ok f'" "TypeSize f' = TypeSize f"
    "has_notify_callback f' = has_notify_callback f" "queues f' = map tl (queues f)"
    "notified f' = notified f @ [map hd (queues f)]"
proof -
  have n: "0 < TypeSize f" using assms(1) by (simp add: filter_ok_def)
  have "\<forall>i\<le>TypeSize f - 1. queues f ! i \<noteq> []"
    using assms all_have_element n by (metis Suc_diff_1 le_imp_less_Suc length_queues nth_mem)
  from Notify_correct [OF assms(1) _ this, of "[]"] n that show thesis by auto
qed

lemma new_MessageFilter_ok:
  assumes "0 < cap" "0 < n" "n < 256"
  shows "filter_ok (new_MessageFilter cap n :: 'm message_filter)"
    "queues (new_MessageFilter cap n :: 'm message_filter) = replicate n []"
    "TypeSize (new_MessageFilter cap n :: 'm message_filter) = n"
proof -
  let ?f = "new_MessageFilter cap n :: 'm message_filter"
  note new = new_Pool_ok [OF assms(1), where ?'a = 'm] new_Pool_ok [of 1, where ?'a = 'm]
  obtain k where k: "n = Suc k" using assms(2) by (cases n) auto
  show "queues ?f = replicate n []" "TypeSize ?f = n"
    using new by (simp_all add: queues_def new_MessageFilter_def new_MessageQueueImpl_def k map_replicate_const)
  moreover have "list_all pool_ok (filter_impl ?f)"
    using new by (simp add: new_MessageFilter_def new_MessageQueueImpl_def list_all_iff)
  ultimately show "filter_ok ?f" using assms by (simp add: filter_ok_def new_MessageFilter_def)
qed

section \<open>Messages\<close>

text \<open>The filter after a message has been queued, before the callbacks.\<close>

lemma OnMessage_queued:
  assumes ok: "filter_ok f" "N < TypeSize f"
  obtains f2 q where
    "OnMessage fc N message f s = (if DoesAllQueueHaveElement f2 then ApplyFilter fc f2 s else Some (f2, s))"
    "filter_ok f2" "TypeSize f2 = TypeSize f" "has_notify_callback f2 = has_notify_callback f" "notified f2 = notified f"
    "queues f2 = (queues f)[N := q]"
    "q = queues f ! N @ [message] \<or> queues f ! N \<noteq> [] \<and> q = tl (queues f ! N) @ [message]"
proof -
  obtain p where p: "Pool_push message (filter_impl f ! N) = Some p" "pool_ok p"
      "Pool_contents p = queues f ! N @ [message] \<or> queues f ! N \<noteq> [] \<and> Pool_contents p = tl (queues f ! N) @ [message]"
    using pool.push_accepts [OF filter_ok_pool [OF ok], of message] by (auto simp: nth_queues [OF ok(2)])
  let ?f1 = "f\<lparr>filter_impl := (filter_impl f)[N := p]\<rparr>"
  let ?f2 = "if Pool_empty (filter_impl f ! N) then ?f1\<lparr>non_empty_queue_count := non_empty_queue_count f + 1\<rparr> else ?f1"
  note r = queue_replaced [OF ok p(2)]
  have e: "Pool_empty (filter_impl f ! N) \<longleftrightarrow> queues f ! N = []"
    using pool_empty_contents [OF filter_ok_pool [OF ok]] by (simp add: nth_queues [OF ok(2)])
  have ne: "Pool_contents p \<noteq> []" using p(3) by auto
  have "unat (non_empty_queue_count f) < 255" if "queues f ! N = []"
  proof -
    have "length (filter (\<lambda>q. q \<noteq> []) (queues f)) < length (queues f)"
      using that ok(2) by (intro length_filter_less) (auto simp: in_set_conv_nth)
    with ok(1) show ?thesis by (simp add: filter_ok_def)
  qed
  then have inc: "unat (non_empty_queue_count f + 1) = unat (non_empty_queue_count f) + 1" if "queues f ! N = []"
    using that by (simp add: unat_word_ariths)
  have "filter_ok ?f2"
    using r ok(1) ne inc e by (auto simp: filter_ok_def)
  moreover have "queues ?f2 = (queues f)[N := Pool_contents p]" using r(1) by simp
  moreover have "OnMessage fc N message f s =
      (if DoesAllQueueHaveElement ?f2 then ApplyFilter fc ?f2 s else Some (?f2, s))"
    using p(1) by (simp add: OnMessage_def Let_def)
  ultimately show thesis using that [of ?f2 "Pool_contents p"] p(3) by simp
qed

text \<open>Without a filter callback the messages come out in lockstep.\<close>

definition lockstep :: "(nat \<times> 'm) list \<Rightarrow> 'm message_filter \<Rightarrow> bool" where
  "lockstep sent f \<longleftrightarrow> filter_ok f \<and> has_notify_callback f \<and> [] \<in> set (queues f) \<and>
     list_all (\<lambda>t. length t = TypeSize f) (notified f) \<and>
     (\<forall>i < TypeSize f. subseq (map (\<lambda>t. t ! i) (notified f) @ queues f ! i) (map snd (filter (\<lambda>x. fst x = i) sent)))"

lemma subseq_tl: "subseq (tl xs) xs"
  by (cases xs) auto

lemma subseq_queued:
  assumes "ys = xs @ [m] \<or> ys = tl xs @ [m]" "subseq (zs @ xs) us"
  shows "subseq (zs @ ys) (us @ [m])"
proof -
  have "subseq ys (xs @ [m])" using assms(1) subseq_tl [of xs] by (auto intro: list_emb_append_mono)
  then have "subseq (zs @ ys) ((zs @ xs) @ [m])" by (simp add: list_emb_append_mono)
  moreover have "subseq ((zs @ xs) @ [m]) (us @ [m])" using assms(2) by (intro list_emb_append_mono) simp_all
  ultimately show ?thesis by (rule subseq_order.order_trans)
qed

lemma lockstep_message:
  assumes "lockstep sent f" "N < TypeSize f"
  obtains f' where "OnMessage None N message f s = Some (f', s)" "lockstep (sent @ [(N, message)]) f'"
    "TypeSize f' = TypeSize f"
proof -
  have ok: "filter_ok f" using assms(1) by (simp add: lockstep_def)
  obtain f2 q where f2: "OnMessage None N message f s =
        (if DoesAllQueueHaveElement f2 then ApplyFilter None f2 s else Some (f2, s))"
      "filter_ok f2" "TypeSize f2 = TypeSize f" "has_notify_callback f2 = has_notify_callback f"
      "notified f2 = notified f" "queues f2 = (queues f)[N := q]"
      "q = queues f ! N @ [message] \<or> queues f ! N \<noteq> [] \<and> q = tl (queues f ! N) @ [message]"
    using OnMessage_queued [OF ok assms(2), of None message s] by blast
  let ?sent = "\<lambda>i. map snd (filter (\<lambda>x. fst x = i) (sent @ [(N, message)]))"
  have sub: "subseq (map (\<lambda>t. t ! i) (notified f) @ queues f2 ! i) (?sent i)" if "i < TypeSize f" for i
  proof (cases "i = N")
    case True
    have "subseq (map (\<lambda>t. t ! N) (notified f) @ queues f ! N) (map snd (filter (\<lambda>x. fst x = N) sent))"
      using assms by (simp add: lockstep_def)
    from subseq_queued [OF _ this, of q message] f2(7) True assms(2) show ?thesis by (auto simp: f2(6))
  next
    case False
    with assms(1) that f2(6) show ?thesis by (simp add: lockstep_def)
  qed
  show thesis
  proof (cases "DoesAllQueueHaveElement f2")
    case True
    obtain f' where f': "Notify (TypeSize f2 - 1) [] f2 = Some f'" "filter_ok f'" "TypeSize f' = TypeSize f2"
        "has_notify_callback f' = has_notify_callback f2" "queues f' = map tl (queues f2)"
        "notified f' = notified f2 @ [map hd (queues f2)]"
      using Notify_all [OF f2(2) True] .
    have ne: "queues f2 ! i \<noteq> []" if "i < TypeSize f" for i
      using True all_have_element [OF f2(2)] that f2(3) by (simp add: all_set_conv_all_nth)
    have empty: "[] \<in> set (queues f')"
    proof -
      obtain i where i: "i < TypeSize f" "queues f ! i = []"
        using assms(1) unfolding lockstep_def by (metis in_set_conv_nth length_queues)
      then have "i = N" using ne [of i] f2(6) by (metis nth_list_update_neq)
      then have "queues f2 ! i = [message]" using f2(6,7) i assms(2) by auto
      then show ?thesis using f'(5) i(1) f2(3) by (metis length_queues list.sel(3) nth_map nth_mem f'(3))
    qed
    have "subseq (map (\<lambda>t. t ! i) (notified f') @ queues f' ! i) (?sent i)" if i: "i < TypeSize f" for i
    proof -
      have "map (\<lambda>t. t ! i) (notified f') @ queues f' ! i = map (\<lambda>t. t ! i) (notified f) @ queues f2 ! i"
        using i ne [OF i] f2(3,5) f'(5,6) by simp
      then show ?thesis using sub [OF i] by simp
    qed
    then have "lockstep (sent @ [(N, message)]) f'"
      using f' f2(3-5) empty assms(1) unfolding lockstep_def by simp
    moreover have "OnMessage None N message f s = Some (f', s)"
      using f2(1,4) True f'(1) assms(1) by (simp add: ApplyFilter_def lockstep_def)
    ultimately show thesis using that f'(3) f2(3) by simp
  next
    case False
    then have "[] \<in> set (queues f2)" using all_have_element [OF f2(2)] by auto
    then have "lockstep (sent @ [(N, message)]) f2"
      using sub f2(2-5) assms(1) unfolding lockstep_def by simp
    with False f2(1,3) that show thesis by simp
  qed
qed

lemma lockstep_messages:
  "lockstep sent f \<Longrightarrow> list_all (\<lambda>x. fst x < TypeSize f) xs \<Longrightarrow>
     \<exists>f'. OnMessages None xs f s = Some (f', s) \<and> lockstep (sent @ xs) f' \<and> TypeSize f' = TypeSize f"
proof (induction xs arbitrary: sent f)
  case (Cons x xs)
  obtain f1 where f1: "OnMessage None (fst x) (snd x) f s = Some (f1, s)" "lockstep (sent @ [x]) f1" "TypeSize f1 = TypeSize f"
    using lockstep_message [OF Cons.prems(1), of "fst x" "snd x" s] Cons.prems(2) by auto
  with Cons.IH [OF f1(2)] Cons.prems(2) show ?case by auto
qed simp

end
