(* ===== verification/Felicia_TimeSync.thy ===== *)
theory Felicia_TimeSync
  imports Felicia_MessageFilterProps
begin

text \<open>
  The time synchronizer: its loop ends, and what it lets through is synchronized, for every queue
  index that returns the elements of queues up to some length.  The index of \<open>Pool\<close> is such an index
  for queues of one message and for no longer ones.
\<close>

section \<open>Timestamps\<close>

definition stamps :: "('m \<Rightarrow> int) \<Rightarrow> 'm message_filter \<Rightarrow> u8 list \<Rightarrow> int list" where
  "stamps ts f idxs = map (\<lambda>i. ts (queues f ! i ! unat (idxs ! i))) [0..<TypeSize f]"

text \<open>Messages that belong together: close to each other, and far enough from the last ones.\<close>

definition synchronized :: "time_synchronizer \<Rightarrow> int list \<Rightarrow> bool" where
  "synchronized sy T \<longleftrightarrow> Max (set T) - Min (set T) \<le> max_intra_time_difference sy \<and>
     (last_timestamp sy = TimeDelta_Min \<or> Min (set T) - last_timestamp sy \<ge> min_inter_time_difference sy)"

definition stamp_ok :: "int \<Rightarrow> bool" where
  "stamp_ok t \<longleftrightarrow> 0 \<le> t \<and> t < TimeDelta_Max"

definition sync_ok :: "time_synchronizer \<Rightarrow> bool" where
  "sync_ok sy \<longleftrightarrow> last_timestamp sy = TimeDelta_Min \<or> stamp_ok (last_timestamp sy)"

lemma TimeDelta_minus_exact: "stamp_ok v \<Longrightarrow> stamp_ok d \<Longrightarrow> TimeDelta_minus v d = Some (v - d)"
  by (auto simp: stamp_ok_def TimeDelta_minus_def TimeDelta_Max_def TimeDelta_Min_def)

lemma length_stamps [simp]: "length (stamps ts f idxs) = TypeSize f"
  by (simp add: stamps_def)

lemma nth_stamps: "i < TypeSize f \<Longrightarrow> stamps ts f idxs ! i = ts (queues f ! i ! unat (idxs ! i))"
  by (simp add: stamps_def)

primrec scan :: "int list \<Rightarrow> nat \<Rightarrow> message_info \<times> message_info \<Rightarrow> message_info \<times> message_info" where
  "scan T 0 el = see_timestamp 0 (T ! 0) el"
| "scan T (Suc N) el = scan T N (see_timestamp (Suc N) (T ! Suc N) el)"

lemma scan_bounds:
  "mi_timestamp (fst (scan T N el)) \<le> mi_timestamp (fst el) \<and> mi_timestamp (snd el) \<le> mi_timestamp (snd (scan T N el)) \<and>
   (\<forall>i\<le>N. mi_timestamp (fst (scan T N el)) \<le> T ! i \<and> T ! i \<le> mi_timestamp (snd (scan T N el)))"
proof (induction N arbitrary: el)
  case 0
  show ?case by (auto simp: see_timestamp_def)
next
  case (Suc N)
  let ?el = "see_timestamp (Suc N) (T ! Suc N) el"
  have "mi_timestamp (fst ?el) \<le> mi_timestamp (fst el)" "mi_timestamp (fst ?el) \<le> T ! Suc N"
      "mi_timestamp (snd el) \<le> mi_timestamp (snd ?el)" "T ! Suc N \<le> mi_timestamp (snd ?el)"
    by (auto simp: see_timestamp_def)
  with Suc.IH [of ?el] show ?case by (auto simp: le_Suc_eq)
qed

lemma scan_found:
  "(fst (scan T N el) = fst el \<or> (\<exists>i\<le>N. fst (scan T N el) = \<lparr>mi_idx = Some i, mi_timestamp = T ! i\<rparr>)) \<and>
   (snd (scan T N el) = snd el \<or> (\<exists>i\<le>N. snd (scan T N el) = \<lparr>mi_idx = Some i, mi_timestamp = T ! i\<rparr>))"
proof (induction N arbitrary: el)
  case 0
  show ?case by (auto simp: see_timestamp_def)
next
  case (Suc N)
  let ?el = "see_timestamp (Suc N) (T ! Suc N) el"
  have "fst ?el = fst el \<or> fst ?el = \<lparr>mi_idx = Some (Suc N), mi_timestamp = T ! Suc N\<rparr>"
      "snd ?el = snd el \<or> snd ?el = \<lparr>mi_idx = Some (Suc N), mi_timestamp = T ! Suc N\<rparr>"
    by (auto simp: see_timestamp_def)
  with Suc.IH [of ?el] show ?case by (auto simp: le_Suc_eq)
qed

text \<open>The scan of all queues finds the earliest and the latest timestamp, and a queue that has the earliest.\<close>

lemma scan_all:
  assumes "T \<noteq> []" "\<forall>t\<in>set T. stamp_ok t"
  defines "el \<equiv> scan T (length T - 1) (\<lparr>mi_idx = None, mi_timestamp = TimeDelta_Max\<rparr>, \<lparr>mi_idx = None, mi_timestamp = TimeDelta_Min\<rparr>)"
  obtains i where "i < length T" "T ! i = Min (set T)" "mi_idx (fst el) = Some i" "mi_timestamp (fst el) = Min (set T)"
    "mi_timestamp (snd el) = Max (set T)"
proof -
  let ?init = "(\<lparr>mi_idx = None, mi_timestamp = TimeDelta_Max\<rparr>, \<lparr>mi_idx = None, mi_timestamp = TimeDelta_Min\<rparr>)"
  have n: "i \<le> length T - 1 \<longleftrightarrow> i < length T" for i using assms(1) by (cases T) auto
  have b: "mi_timestamp (fst el) \<le> t \<and> t \<le> mi_timestamp (snd el)" if "t \<in> set T" for t
    using scan_bounds [of T "length T - 1" ?init] that n by (auto simp: el_def in_set_conv_nth)
  have t0: "T ! 0 \<in> set T" "stamp_ok (T ! 0)" using assms(1,2) by simp_all
  then have ne: "fst el \<noteq> fst ?init" "snd el \<noteq> snd ?init"
    using b [of "T ! 0"] by (auto simp: stamp_ok_def TimeDelta_Min_def)
  then obtain i j where i: "i < length T" "fst el = \<lparr>mi_idx = Some i, mi_timestamp = T ! i\<rparr>"
      and j: "j < length T" "snd el = \<lparr>mi_idx = Some j, mi_timestamp = T ! j\<rparr>"
    using scan_found [of T "length T - 1" ?init] n unfolding el_def by metis
  have "T ! i = Min (set T)" using i b by (intro Min_eqI [symmetric]) auto
  moreover have "T ! j = Max (set T)" using j b by (intro Max_eqI [symmetric]) auto
  ultimately show thesis using that [of i] i j by simp
qed

section \<open>Dropping\<close>

definition trimmed :: "'m message_filter \<Rightarrow> 'm message_filter \<Rightarrow> bool" where
  "trimmed f f' \<longleftrightarrow> TypeSize f' = TypeSize f \<and> has_notify_callback f' = has_notify_callback f \<and>
     notified f' = notified f \<and> (\<forall>i < TypeSize f. suffix (queues f' ! i) (queues f ! i))"

lemma trimmed_refl [simp]: "trimmed f f"
  by (simp add: trimmed_def)

lemma trimmed_trans: "trimmed f g \<Longrightarrow> trimmed g h \<Longrightarrow> trimmed f h"
  by (auto simp: trimmed_def intro: suffix_order.trans)

lemma DropMessage_correct:
  assumes "filter_ok f" "i < TypeSize f" "TypeSize f \<le> 9" "queues f ! i \<noteq> []"
  obtains f' where "DropMessage i f = Some f'" "filter_ok f'" "queues f' = (queues f)[i := tl (queues f ! i)]" "trimmed f f'"
proof -
  obtain f' where f': "filter_pop i f = Some f'" "filter_ok f'" "queues f' = (queues f)[i := tl (queues f ! i)]"
      "has_notify_callback f' = has_notify_callback f" "notified f' = notified f" "TypeSize f' = TypeSize f"
    using filter_pop_correct [OF assms(1,2,4)] .
  have "suffix (tl q) q" for q :: "'a list" by (cases q) (auto simp: suffix_def)
  then have "suffix (queues f' ! j) (queues f ! j)" if "j < TypeSize f" for j
    using that by (cases "j = i") (simp_all add: f'(3))
  then have "trimmed f f'" using f' by (simp add: trimmed_def)
  with that f' assms(2,3) show thesis by (simp add: DropMessage_def)
qed

lemma drop_times_correct:
  "filter_ok f \<Longrightarrow> i < TypeSize f \<Longrightarrow> TypeSize f \<le> 9 \<Longrightarrow> k < length (queues f ! i) \<Longrightarrow>
     \<exists>f'. drop_times k i f = Some f' \<and> filter_ok f' \<and> queues f' = (queues f)[i := drop k (queues f ! i)] \<and> trimmed f f'"
proof (induction k arbitrary: f)
  case 0
  then show ?case by simp
next
  case (Suc k)
  then have "queues f ! i \<noteq> []" by auto
  then obtain f1 where f1: "DropMessage i f = Some f1" "filter_ok f1" "queues f1 = (queues f)[i := tl (queues f ! i)]" "trimmed f f1"
    using DropMessage_correct [OF Suc.prems(1-3)] by blast
  have "\<exists>f'. drop_times k i f1 = Some f' \<and> filter_ok f' \<and> queues f' = (queues f1)[i := drop k (queues f1 ! i)] \<and> trimmed f1 f'"
    using Suc.IH [OF f1(2)] Suc.prems f1(3,4) by (simp add: trimmed_def)
  with f1 Suc.prems(2) show ?case by (auto simp: drop_Suc intro: trimmed_trans)
qed

lemma drop_before_correct:
  "filter_ok f \<Longrightarrow> TypeSize f \<le> 9 \<Longrightarrow> i + length ks = TypeSize f \<Longrightarrow>
     (\<forall>j < length ks. unat (ks ! j) < length (queues f ! (i + j))) \<Longrightarrow>
     \<exists>f'. drop_before ks i f = Some f' \<and> filter_ok f' \<and> trimmed f f' \<and>
       (\<forall>j < TypeSize f. queues f' ! j = (if j < i then queues f ! j else drop (unat (ks ! (j - i))) (queues f ! j)))"
proof (induction ks arbitrary: i f)
  case Nil
  then show ?case by simp
next
  case (Cons k ks)
  have "i < TypeSize f" "unat k < length (queues f ! i)" using Cons.prems(3,4) by auto
  then obtain f1 where f1: "drop_times (unat k) i f = Some f1" "filter_ok f1"
      "queues f1 = (queues f)[i := drop (unat k) (queues f ! i)]" "trimmed f f1"
    using drop_times_correct [OF Cons.prems(1) _ Cons.prems(2)] by blast
  have n: "TypeSize f1 = TypeSize f" using f1(4) by (simp add: trimmed_def)
  have "\<forall>j < length ks. unat (ks ! j) < length (queues f1 ! (Suc i + j))" using Cons.prems(4) f1(3) by auto
  from Cons.IH [OF f1(2) _ _ this] n Cons.prems(2,3)
  obtain f' where f': "drop_before ks (Suc i) f1 = Some f'" "filter_ok f'" "trimmed f1 f'"
      "\<forall>j < TypeSize f. queues f' ! j = (if j < Suc i then queues f1 ! j else drop (unat (ks ! (j - Suc i))) (queues f1 ! j))"
    by auto
  have "queues f' ! j = (if j < i then queues f ! j else drop (unat ((k # ks) ! (j - i))) (queues f ! j))"
    if "j < TypeSize f" for j
    using f'(4) f1(3) that by (cases j i rule: linorder_cases) (auto simp: nth_Cons')
  with f1 f' trimmed_trans [OF f1(4) f'(3)] show ?case by auto
qed

section \<open>The loop\<close>

text \<open>What the loop promises when it ends, from a state with the filter \<open>f0\<close>.\<close>

definition sync_done :: "('m \<Rightarrow> int) \<Rightarrow> time_synchronizer \<Rightarrow> 'm sync_state \<Rightarrow> bool" where
  "sync_done ts sy st \<longleftrightarrow>
     (let f = ss_filter st; idxs = peek_idxs st in
      length idxs = TypeSize f \<and> (\<forall>i < TypeSize f. unat (idxs ! i) < length (queues f ! i)) \<and>
      (has_candidate st \<longrightarrow> synchronized sy (stamps ts f idxs) \<and> last_timestamp_candidate st = Max (set (stamps ts f idxs))))"

definition sync_head :: "('m \<Rightarrow> int) \<Rightarrow> time_synchronizer \<Rightarrow> 'm sync_state \<Rightarrow> bool" where
  "sync_head ts sy st \<longleftrightarrow>
     (let f = ss_filter st; idxs = peek_idxs st; i = last_updated_peek_idx st;
          before = stamps ts f (idxs[i := idxs ! i - 1]) in
      length idxs = TypeSize f \<and> (\<forall>i < TypeSize f. unat (idxs ! i) < length (queues f ! i)) \<and>
      (if has_candidate st
       then i < TypeSize f \<and> 0 < idxs ! i \<and> synchronized sy before \<and> last_timestamp_candidate st = Max (set before)
       else \<forall>i < TypeSize f. idxs ! i = 0))"

text \<open>The queues the loop works on.\<close>

definition shallow :: "nat \<Rightarrow> ('m \<Rightarrow> int) \<Rightarrow> 'm message_filter \<Rightarrow> bool" where
  "shallow depth ts f \<longleftrightarrow> filter_ok f \<and> TypeSize f \<le> 9 \<and>
     (\<forall>q \<in> set (queues f). q \<noteq> [] \<and> length q \<le> depth \<and> (\<forall>m \<in> set q. stamp_ok (ts m)))"

definition unseen :: "'m sync_state \<Rightarrow> nat" where
  "unseen st = (\<Sum>i < TypeSize (ss_filter st). length (queues (ss_filter st) ! i) - unat (peek_idxs st ! i))"

lemma shallow_nth:
  assumes "shallow depth ts f" "i < TypeSize f"
  shows "queues f ! i \<noteq> []" "length (queues f ! i) \<le> depth" "m \<in> set (queues f ! i) \<Longrightarrow> stamp_ok (ts m)"
  using assms nth_mem [of i "queues f"] by (auto simp: shallow_def)

lemma shallow_trimmed:
  assumes "shallow depth ts f" "trimmed f f'" "filter_ok f'" "\<forall>i < TypeSize f. queues f' ! i \<noteq> []"
  shows "shallow depth ts f'"
proof -
  have "length (queues f' ! i) \<le> depth \<and> (\<forall>m \<in> set (queues f' ! i). stamp_ok (ts m))" if "i < TypeSize f" for i
    using assms(2) that shallow_nth [OF assms(1) that] suffix_length_le set_mono_suffix
    by (fastforce simp: trimmed_def)
  then have "q \<noteq> [] \<and> length q \<le> depth \<and> (\<forall>m \<in> set q. stamp_ok (ts m))" if "q \<in> set (queues f')" for q
    using that assms(2,4) by (metis in_set_conv_nth length_queues trimmed_def)
  with assms show ?thesis by (simp add: shallow_def trimmed_def)
qed

lemma stamps_ok:
  assumes "shallow depth ts f" "\<forall>i < TypeSize f. unat (idxs ! i) < length (queues f ! i)"
  shows "stamps ts f idxs \<noteq> []" "\<forall>t \<in> set (stamps ts f idxs). stamp_ok t"
proof -
  show "stamps ts f idxs \<noteq> []" using assms(1) by (auto simp: stamps_def shallow_def filter_ok_def)
  show "\<forall>t \<in> set (stamps ts f idxs). stamp_ok t"
    using assms by (auto simp: stamps_def intro: shallow_nth)
qed

lemma MessageCount_length: "filter_ok f \<Longrightarrow> TypeSize f \<le> 9 \<Longrightarrow> i < TypeSize f \<Longrightarrow> unat (MessageCount i f) = length (queues f ! i)"
  by (simp add: MessageCount_def Pool_size_count filter_ok_pool nth_queues)

lemma u8_less_256: "unat (w :: u8) < 256"
  by (rule order_less_le_trans [OF unsigned_less]) simp

text \<open>The contract of a queue index: right on queues up to a length.\<close>

locale queue_index =
  fixes peek :: "'m pool \<Rightarrow> u8 \<Rightarrow> 'm option"
    and depth :: nat
  assumes peek_nth: "pool_ok p \<Longrightarrow> length (Pool_contents p) \<le> depth \<Longrightarrow> unat i < length (Pool_contents p) \<Longrightarrow>
    peek p i = Some (Pool_contents p ! unat i)"
begin

lemma FindTimestamps_scan:
  assumes "shallow depth ts f" "\<forall>i < TypeSize f. unat (idxs ! i) < length (queues f ! i)" "N < TypeSize f"
  shows "FindTimestamps peek ts N f idxs el = Some (scan (stamps ts f idxs) N el)"
  using assms(3)
proof (induction N arbitrary: el)
  case 0
  then show ?case
    using peek_nth [OF filter_ok_pool] assms shallow_nth [OF assms(1)]
    by (simp add: nth_stamps nth_queues shallow_def)
next
  case (Suc N)
  then show ?case
    using peek_nth [OF filter_ok_pool [of f "Suc N"]] assms shallow_nth [OF assms(1), of "Suc N"]
    by (simp add: nth_stamps nth_queues shallow_def)
qed

text \<open>A turn, in terms of the timestamps of the messages peeked at.\<close>

lemma sync_turn_cases:
  fixes st :: "'m sync_state" and ts :: "'m \<Rightarrow> int"
  defines "f \<equiv> ss_filter st" and "idxs \<equiv> peek_idxs st" and "T \<equiv> stamps ts (ss_filter st) (peek_idxs st)"
  assumes "shallow depth ts f" "sync_ok sy" "\<forall>i < TypeSize f. unat (idxs ! i) < length (queues f ! i)"
  obtains i where "i < TypeSize f" "T ! i = Min (set T)"
    "sync_turn peek ts sy st =
      (if synchronized sy T then
         let st1 = st\<lparr>last_timestamp_candidate := Max (set T), has_candidate := True\<rparr> in
         if Max (set T) = Min (set T) then Some (False, st1)
         else if length (queues f ! i) > unat (idxs ! i) + 1
         then Some (True, st1\<lparr>last_updated_peek_idx := i, peek_idxs := idxs[i := idxs ! i + 1]\<rparr>)
         else Some (False, st1\<lparr>last_updated_peek_idx := i\<rparr>)
       else if has_candidate st
       then Some (False, st\<lparr>peek_idxs := idxs[last_updated_peek_idx st := idxs ! last_updated_peek_idx st - 1]\<rparr>)
       else if length (queues f ! i) > 1
       then map_option (\<lambda>f'. (True, st\<lparr>ss_filter := f'\<rparr>)) (DropMessage i f)
       else Some (False, st))"
proof -
  have T: "T \<noteq> []" "\<forall>t\<in>set T. stamp_ok t" "length T = TypeSize f"
    using stamps_ok [OF assms(4,6)] by (simp_all add: T_def f_def idxs_def)
  let ?el = "scan T (length T - 1) (\<lparr>mi_idx = None, mi_timestamp = TimeDelta_Max\<rparr>, \<lparr>mi_idx = None, mi_timestamp = TimeDelta_Min\<rparr>)"
  obtain i where i: "i < length T" "T ! i = Min (set T)" "mi_idx (fst ?el) = Some i"
      "mi_timestamp (fst ?el) = Min (set T)" "mi_timestamp (snd ?el) = Max (set T)"
    using scan_all [OF T(1,2)] .
  have n: "0 < TypeSize f" using T(1,3) by (cases T) auto
  have find: "FindTimestamps peek ts (TypeSize f - 1) f idxs
      (\<lparr>mi_idx = None, mi_timestamp = TimeDelta_Max\<rparr>, \<lparr>mi_idx = None, mi_timestamp = TimeDelta_Min\<rparr>) = Some ?el"
    using FindTimestamps_scan [OF assms(4,6), of "TypeSize f - 1"] n T(3) by (simp add: T_def f_def idxs_def)
  have mm: "stamp_ok (Min (set T))" "stamp_ok (Max (set T))" using T(1,2) by (simp_all add: Min_in Max_in)
  have d: "TimeDelta_minus (Max (set T)) (Min (set T)) = Some (Max (set T) - Min (set T))"
    using TimeDelta_minus_exact mm by blast
  have last: "last_timestamp sy \<noteq> TimeDelta_Min \<Longrightarrow>
      TimeDelta_minus (Min (set T)) (last_timestamp sy) = Some (Min (set T) - last_timestamp sy)"
    using TimeDelta_minus_exact mm(1) assms(5) by (auto simp: sync_ok_def)
  have count: "unat (MessageCount i f) = length (queues f ! i)"
    using MessageCount_length [of f i] i(1) T(3) assms(4) by (simp add: shallow_def)
  let ?fits = "if Max (set T) - Min (set T) \<le> max_intra_time_difference sy then
      (if last_timestamp sy = TimeDelta_Min then Some True
       else map_option (\<lambda>d. d \<ge> min_inter_time_difference sy) (TimeDelta_minus (Min (set T)) (last_timestamp sy)))
      else Some False"
  have fits: "?fits = Some (synchronized sy T)" using last by (simp add: synchronized_def)
  obtain e l where el: "?el = (e, l)" by (cases ?el)
  then have el': "mi_idx e = Some i" "mi_timestamp e = Min (set T)" "mi_timestamp l = Max (set T)" using i(3-5) by simp_all
  show thesis
  proof (rule that [OF _ i(2)])
    show "i < TypeSize f" using i(1) T(3) by simp
    show "sync_turn peek ts sy st =
      (if synchronized sy T then
         let st1 = st\<lparr>last_timestamp_candidate := Max (set T), has_candidate := True\<rparr> in
         if Max (set T) = Min (set T) then Some (False, st1)
         else if length (queues f ! i) > unat (idxs ! i) + 1
         then Some (True, st1\<lparr>last_updated_peek_idx := i, peek_idxs := idxs[i := idxs ! i + 1]\<rparr>)
         else Some (False, st1\<lparr>last_updated_peek_idx := i\<rparr>)
       else if has_candidate st
       then Some (False, st\<lparr>peek_idxs := idxs[last_updated_peek_idx st := idxs ! last_updated_peek_idx st - 1]\<rparr>)
       else if length (queues f ! i) > 1
       then map_option (\<lambda>f'. (True, st\<lparr>ss_filter := f'\<rparr>)) (DropMessage i f)
       else Some (False, st))"
      unfolding sync_turn_def f_def [symmetric] idxs_def [symmetric] find el Option.bind_lunit prod.case el' d fits count
      by (simp add: Let_def map_option_case split: option.split)
  qed
qed

lemma length_queue_bound: "shallow depth ts f \<Longrightarrow> i < TypeSize f \<Longrightarrow> length (queues f ! i) < 256"
  using pool.within [OF filter_ok_pool [of f i]] u8_less_256 [of "capacity (pool_index (filter_impl f ! i))"]
  by (simp add: nth_queues shallow_def)

lemma unseen_less:
  assumes "TypeSize (ss_filter st') = TypeSize (ss_filter st)" "i < TypeSize (ss_filter st)"
    and "\<And>j. j < TypeSize (ss_filter st) \<Longrightarrow>
      length (queues (ss_filter st') ! j) - unat (peek_idxs st' ! j) +
        (if j = i then 1 else 0) \<le> length (queues (ss_filter st) ! j) - unat (peek_idxs st ! j)"
  shows "unseen st' < unseen st"
  unfolding unseen_def assms(1)
proof (rule sum_strict_mono_ex1)
  show "\<forall>j\<in>{..<TypeSize (ss_filter st)}. length (queues (ss_filter st') ! j) - unat (peek_idxs st' ! j)
      \<le> length (queues (ss_filter st) ! j) - unat (peek_idxs st ! j)"
    using assms(3) by (metis add_leD1 lessThan_iff)
  show "\<exists>j\<in>{..<TypeSize (ss_filter st)}. length (queues (ss_filter st') ! j) - unat (peek_idxs st' ! j)
      < length (queues (ss_filter st) ! j) - unat (peek_idxs st ! j)"
    using assms(2) assms(3) [OF assms(2)] by (intro bexI [of _ i]) auto
qed simp

lemma advance_correct:
  assumes "sync_head ts sy st" "shallow depth ts (ss_filter st)" "i < TypeSize (ss_filter st)"
    "synchronized sy (stamps ts (ss_filter st) (peek_idxs st))"
    "length (queues (ss_filter st) ! i) > unat (peek_idxs st ! i) + 1"
  defines "st' \<equiv> st\<lparr>last_timestamp_candidate := Max (set (stamps ts (ss_filter st) (peek_idxs st))), has_candidate := True,
      last_updated_peek_idx := i, peek_idxs := (peek_idxs st)[i := peek_idxs st ! i + 1]\<rparr>"
  shows "sync_head ts sy st' \<and> unseen st' < unseen st"
proof
  let ?f = "ss_filter st" and ?idxs = "peek_idxs st"
  have len: "length ?idxs = TypeSize ?f" and rng: "\<forall>j < TypeSize ?f. unat (?idxs ! j) < length (queues ?f ! j)"
    using assms(1) by (simp_all add: sync_head_def Let_def)
  have inc: "unat (?idxs ! i + 1) = unat (?idxs ! i) + 1"
    using assms(5) length_queue_bound [OF assms(2,3)] by (simp add: unat_word_ariths)
  then have "0 < ?idxs ! i + 1" by (metis add_is_0 unat_eq_0 word_gt_0 zero_neq_one)
  moreover have "?idxs[i := ?idxs ! i + 1, i := ?idxs ! i] = ?idxs" by simp
  ultimately show "sync_head ts sy st'"
    using assms(3,4,5) inc rng len by (auto simp: sync_head_def st'_def Let_def nth_list_update)
  show "unseen st' < unseen st"
    by (rule unseen_less [of _ _ i]) (use assms(3) inc rng len in \<open>auto simp: st'_def nth_list_update\<close>)
qed

lemma drop_correct:
  assumes "sync_head ts sy st" "shallow depth ts (ss_filter st)" "i < TypeSize (ss_filter st)"
    "\<not> has_candidate st" "length (queues (ss_filter st) ! i) > 1"
  obtains f' where "DropMessage i (ss_filter st) = Some f'" "trimmed (ss_filter st) f'" "shallow depth ts f'"
    "sync_head ts sy (st\<lparr>ss_filter := f'\<rparr>)" "unseen (st\<lparr>ss_filter := f'\<rparr>) < unseen st"
proof -
  let ?f = "ss_filter st" and ?idxs = "peek_idxs st"
  have len: "length ?idxs = TypeSize ?f" and zero: "\<forall>j < TypeSize ?f. ?idxs ! j = 0"
    using assms(1,4) by (simp_all add: sync_head_def Let_def)
  obtain f' where f': "DropMessage i ?f = Some f'" "filter_ok f'" "queues f' = (queues ?f)[i := tl (queues ?f ! i)]" "trimmed ?f f'"
    using DropMessage_correct [of ?f i] assms(2,3) shallow_nth(1) [OF assms(2,3)] by (auto simp: shallow_def)
  have n: "TypeSize f' = TypeSize ?f" using f'(4) by (simp add: trimmed_def)
  have ne: "\<forall>j < TypeSize ?f. queues f' ! j \<noteq> []"
    using f'(3) assms(3,5) shallow_nth(1) [OF assms(2)]
    by (metis One_nat_def length_queues length_tl length_greater_0_conv list.size(3) nat_neq_iff nth_list_update_eq
        nth_list_update_neq zero_less_diff)
  have "sync_head ts sy (st\<lparr>ss_filter := f'\<rparr>)"
    using len zero ne n assms(4) by (simp add: sync_head_def Let_def)
  moreover have "unseen (st\<lparr>ss_filter := f'\<rparr>) < unseen st"
    by (rule unseen_less [of _ _ i]) (use n assms(3,5) zero f'(3) in \<open>auto simp: nth_list_update\<close>)
  ultimately show thesis using that f' shallow_trimmed [OF assms(2) f'(4,2) ne] by blast
qed

lemma turn_correct:
  assumes head: "sync_head ts sy st" and sh: "shallow depth ts (ss_filter st)" and sy: "sync_ok sy"
  obtains again st' where "sync_turn peek ts sy st = Some (again, st')" "trimmed (ss_filter st) (ss_filter st')"
    "shallow depth ts (ss_filter st')"
    "synchronized sy (stamps ts (ss_filter st) (peek_idxs st)) \<or> has_candidate st \<longrightarrow> has_candidate st'"
    "again \<longrightarrow> sync_head ts sy st' \<and> unseen st' < unseen st" "\<not> again \<longrightarrow> sync_done ts sy st'"
proof -
  let ?f = "ss_filter st" and ?idxs = "peek_idxs st" and ?j = "last_updated_peek_idx st"
  let ?T = "stamps ts ?f ?idxs"
  have len: "length ?idxs = TypeSize ?f" and rng: "\<forall>i < TypeSize ?f. unat (?idxs ! i) < length (queues ?f ! i)"
    using head by (simp_all add: sync_head_def Let_def)
  obtain i where i: "i < TypeSize ?f" and turn: "sync_turn peek ts sy st =
      (if synchronized sy ?T then
         let st1 = st\<lparr>last_timestamp_candidate := Max (set ?T), has_candidate := True\<rparr> in
         if Max (set ?T) = Min (set ?T) then Some (False, st1)
         else if length (queues ?f ! i) > unat (?idxs ! i) + 1
         then Some (True, st1\<lparr>last_updated_peek_idx := i, peek_idxs := ?idxs[i := ?idxs ! i + 1]\<rparr>)
         else Some (False, st1\<lparr>last_updated_peek_idx := i\<rparr>)
       else if has_candidate st then Some (False, st\<lparr>peek_idxs := ?idxs[?j := ?idxs ! ?j - 1]\<rparr>)
       else if length (queues ?f ! i) > 1 then map_option (\<lambda>f'. (True, st\<lparr>ss_filter := f'\<rparr>)) (DropMessage i ?f)
       else Some (False, st))"
    using sync_turn_cases [OF sh sy rng] by metis
  show thesis
  proof (cases "synchronized sy ?T")
    case True
    let ?st1 = "st\<lparr>last_timestamp_candidate := Max (set ?T), has_candidate := True\<rparr>"
    let ?adv = "?st1\<lparr>last_updated_peek_idx := i, peek_idxs := ?idxs[i := ?idxs ! i + 1]\<rparr>"
    have stop: "sync_done ts sy (?st1\<lparr>last_updated_peek_idx := k\<rparr>)" "sync_done ts sy ?st1" for k
      using True len rng by (simp_all add: sync_done_def Let_def)
    show thesis
    proof (cases "Max (set ?T) \<noteq> Min (set ?T) \<and> length (queues ?f ! i) > unat (?idxs ! i) + 1")
      case more: True
      with True turn advance_correct [OF head sh i True] sh show thesis by (intro that [of True ?adv]) (simp_all add: Let_def)
    next
      case False
      with True turn have "sync_turn peek ts sy st = Some (False, ?st1) \<or>
          sync_turn peek ts sy st = Some (False, ?st1\<lparr>last_updated_peek_idx := i\<rparr>)" by (auto simp: Let_def)
      then show thesis
        using that [of False ?st1] that [of False "?st1\<lparr>last_updated_peek_idx := i\<rparr>"] stop sh by auto
    qed
  next
    case False
    show thesis
    proof (cases "has_candidate st")
      case True
      let ?st' = "st\<lparr>peek_idxs := ?idxs[?j := ?idxs ! ?j - 1]\<rparr>"
      have j: "?j < TypeSize ?f" "0 < ?idxs ! ?j" "synchronized sy (stamps ts ?f (?idxs[?j := ?idxs ! ?j - 1]))"
          "last_timestamp_candidate st = Max (set (stamps ts ?f (?idxs[?j := ?idxs ! ?j - 1])))"
        using head True by (simp_all add: sync_head_def Let_def)
      have "unat (?idxs ! ?j - 1) < length (queues ?f ! ?j)"
        using rng j(1) by (metis less_imp_diff_less unat_minus_one word_gt_0 j(2))
      then have "sync_done ts sy ?st'" using j len rng by (simp add: sync_done_def Let_def nth_list_update)
      with False True turn sh show thesis by (intro that [of False ?st']) simp_all
    next
      case no_candidate: False
      show thesis
      proof (cases "length (queues ?f ! i) > 1")
        case True
        obtain f' where f': "DropMessage i ?f = Some f'" "trimmed ?f f'" "shallow depth ts f'"
            "sync_head ts sy (st\<lparr>ss_filter := f'\<rparr>)" "unseen (st\<lparr>ss_filter := f'\<rparr>) < unseen st"
          using drop_correct [OF head sh i no_candidate True] .
        with turn False no_candidate True show thesis by (intro that [of True "st\<lparr>ss_filter := f'\<rparr>"]) simp_all
      next
        case short: False
        have "sync_done ts sy st" using len rng no_candidate by (simp add: sync_done_def Let_def)
        with turn False no_candidate short sh show thesis by (intro that [of False st]) simp_all
      qed
    qed
  qed
qed

lemma loop_correct:
  "sync_head ts sy st \<Longrightarrow> shallow depth ts (ss_filter st) \<Longrightarrow> sync_ok sy \<Longrightarrow>
     \<exists>st'. sync_loop peek ts sy st = Some st' \<and> sync_done ts sy st' \<and> trimmed (ss_filter st) (ss_filter st') \<and>
       shallow depth ts (ss_filter st') \<and>
       (synchronized sy (stamps ts (ss_filter st) (peek_idxs st)) \<or> has_candidate st \<longrightarrow> has_candidate st')"
proof (induction "unseen st" arbitrary: st rule: less_induct)
  case less
  obtain again st1 where turn: "sync_turn peek ts sy st = Some (again, st1)" "trimmed (ss_filter st) (ss_filter st1)"
      "shallow depth ts (ss_filter st1)"
      "synchronized sy (stamps ts (ss_filter st) (peek_idxs st)) \<or> has_candidate st \<longrightarrow> has_candidate st1"
      "again \<longrightarrow> sync_head ts sy st1 \<and> unseen st1 < unseen st" "\<not> again \<longrightarrow> sync_done ts sy st1"
    using turn_correct [OF less.prems] .
  have all: "DoesAllQueueHaveElement (ss_filter st)"
    using less.prems(2) all_have_element [of "ss_filter st"] by (auto simp: shallow_def)
  show ?case
  proof (cases again)
    case True
    with turn less.hyps [of st1] less.prems(3) obtain st' where "sync_loop peek ts sy st1 = Some st'" "sync_done ts sy st'"
        "trimmed (ss_filter st1) (ss_filter st')" "shallow depth ts (ss_filter st')" "has_candidate st1 \<longrightarrow> has_candidate st'"
      by blast
    with True turn all show ?thesis by (subst sync_loop.simps) (auto intro: trimmed_trans)
  next
    case False
    with turn all show ?thesis by (subst sync_loop.simps) auto
  qed
qed

lemma stamps_fronts:
  assumes "shallow depth ts f" "\<forall>i < TypeSize f. queues f' ! i = drop (unat (idxs ! i)) (queues f ! i)"
    "\<forall>i < TypeSize f. unat (idxs ! i) < length (queues f ! i)" "TypeSize f' = TypeSize f"
  shows "stamps ts f idxs = map (ts \<circ> hd) (queues f')"
proof (rule nth_equalityI)
  show "stamps ts f idxs ! i = map (ts \<circ> hd) (queues f') ! i" if "i < length (stamps ts f idxs)" for i
    using that assms(2-4) by (simp add: nth_stamps hd_drop_conv_nth)
qed (simp add: assms(4))

lemma synchronize_correct:
  assumes sh: "shallow depth ts f" and sy: "sync_ok sy"
  obtains b f' sy' where "synchronize peek ts f sy = Some (b, f', sy')" "trimmed f f'" "shallow depth ts f'"
    "synchronized sy (map (ts \<circ> hd) (queues f)) \<longrightarrow> b"
    "b \<longrightarrow> synchronized sy (map (ts \<circ> hd) (queues f')) \<and> sy' = sy\<lparr>last_timestamp := Max (set (map (ts \<circ> hd) (queues f')))\<rparr>"
    "\<not> b \<longrightarrow> sy' = sy"
proof -
  let ?st = "\<lparr>ss_filter = f, peek_idxs = replicate (TypeSize f) 0, has_candidate = False, last_updated_peek_idx = 0,
      last_timestamp_candidate = 0\<rparr>"
  have "sync_head ts sy ?st" using shallow_nth(1) [OF sh] by (simp add: sync_head_def Let_def)
  from loop_correct [OF this] sh sy obtain st where st: "sync_loop peek ts sy ?st = Some st" "sync_done ts sy st"
      "trimmed f (ss_filter st)" "shallow depth ts (ss_filter st)"
      "synchronized sy (stamps ts f (replicate (TypeSize f) 0)) \<longrightarrow> has_candidate st" by auto
  have start: "stamps ts f (replicate (TypeSize f) 0) = map (ts \<circ> hd) (queues f)"
    by (rule stamps_fronts [OF sh]) (simp_all add: shallow_nth(1) [OF sh])
  show thesis
  proof (cases "has_candidate st")
    case False
    with st start that [of False "ss_filter st" sy] show thesis by (simp add: synchronize_def)
  next
    case True
    let ?f = "ss_filter st" and ?idxs = "peek_idxs st"
    have dn: "length ?idxs = TypeSize ?f" "\<forall>i < TypeSize ?f. unat (?idxs ! i) < length (queues ?f ! i)"
        "synchronized sy (stamps ts ?f ?idxs)" "last_timestamp_candidate st = Max (set (stamps ts ?f ?idxs))"
      using st(2) True by (simp_all add: sync_done_def Let_def)
    obtain f' where f': "drop_before ?idxs 0 ?f = Some f'" "filter_ok f'" "trimmed ?f f'"
        "\<forall>j < TypeSize ?f. queues f' ! j = drop (unat (?idxs ! j)) (queues ?f ! j)"
      using drop_before_correct [of ?f 0 ?idxs] dn st(4) by (auto simp: shallow_def)
    have ne: "\<forall>i < TypeSize ?f. queues f' ! i \<noteq> []" using f'(4) dn(2) by (simp add: linorder_not_le)
    have fr: "stamps ts ?f ?idxs = map (ts \<circ> hd) (queues f')"
      using stamps_fronts [OF st(4) f'(4) dn(2)] f'(3) by (simp add: trimmed_def)
    have "synchronize peek ts f sy = Some (True, f', sy\<lparr>last_timestamp := Max (set (map (ts \<circ> hd) (queues f')))\<rparr>)"
      using st(1) True f'(1) dn(4) fr by (simp add: synchronize_def)
    with that [of True f'] dn(3) fr trimmed_trans [OF st(3) f'(3)] shallow_trimmed [OF st(4) f'(3,2) ne]
    show thesis by simp
  qed
qed

end

section \<open>Indexes\<close>

interpretation coded: queue_index Pool_index_operator 1
proof
  fix p :: "'a pool" and i :: u8
  assume p: "pool_ok p" "length (Pool_contents p) \<le> 1" "unat i < length (Pool_contents p)"
  then obtain m where "Pool_contents p = [m]" by (cases "Pool_contents p") (auto simp del: length_contents)
  with p Pool_index_operator_front [OF p(1), of i] show "Pool_index_operator p i = Some (Pool_contents p ! unat i)"
    by (simp del: length_contents)
qed

section \<open>Examples\<close>

text \<open>A filter with a message in each of its two queues.\<close>

definition demo_single :: "(nat \<times> int) message_filter" where
  "demo_single = \<lparr>filter_impl = [the (Pool_push (1, 0) (new_Pool 1)), the (Pool_push (3, 50000) (new_Pool 1))],
     non_empty_queue_count = 2, has_notify_callback = True, notified = []\<rparr>"

lemma demo_filters:
  "filter_ok demo_single" "queues demo_single = [[(1, 0)], [(3, 50000)]]" "TypeSize demo_single = 2"
  unfolding filter_ok_def pool_ok_def by code_simp+

section \<open>Properties\<close>

text \<open>
  C33.  Without a filter callback the filter calls back with one message of each queue, taken in
  the order they arrived: whatever is sent, every call has a message per type, the messages of a type in
  the calls followed by those still queued are a subsequence of those sent, and some queue is empty.
\<close>

theorem unfiltered_messages_in_lockstep:
  fixes s :: 's and xs :: "(nat \<times> 'm) list"
  assumes "0 < cap" "0 < n" "n < 256" "list_all (\<lambda>x. fst x < n) xs"
  shows "\<exists>f. OnMessages None xs (set_notify_callback (new_MessageFilter cap n)) s = Some (f, s) \<and>
    [] \<in> set (queues f) \<and> list_all (\<lambda>t. length t = n) (notified f) \<and>
    (\<forall>i < n. subseq (map (\<lambda>t. t ! i) (notified f) @ queues f ! i) (map snd (filter (\<lambda>x. fst x = i) xs)))"
proof -
  let ?f = "set_notify_callback (new_MessageFilter cap n) :: 'm message_filter"
  note new = new_MessageFilter_ok [OF assms(1-3), where ?'m = 'm]
  have n: "TypeSize ?f = n" using new(3) by (simp add: set_notify_callback_def)
  have "lockstep [] ?f"
    using new assms(2) by (simp add: lockstep_def set_notify_callback_def) (simp add: new_MessageFilter_def)
  from lockstep_messages [OF this, of xs s] n assms(4) show ?thesis by (auto simp: lockstep_def)
qed

theorem unfiltered_messages_in_lockstep_witness:
  "\<exists>f. OnMessages None [(0, 1), (1, 2), (1, 3), (0, 4 :: nat)] (set_notify_callback (new_MessageFilter 2 2)) () = Some (f, ()) \<and>
     [] \<in> set (queues f) \<and> (\<forall>i < 2. subseq (map (\<lambda>t. t ! i) (notified f) @ queues f ! i)
       (map snd (filter (\<lambda>x. fst x = i) [(0, 1), (1, 2), (1, 3), (0, 4)])))"
proof -
  have "list_all (\<lambda>x. fst x < 2) [(0 :: nat, 1), (1, 2), (1, 3), (0, 4 :: nat)]" by simp
  from unfiltered_messages_in_lockstep [OF _ _ _ this, of 2 "()"] show ?thesis by (auto simp del: OnMessages.simps filter.simps)
qed

text \<open>
  C34.  With exactly one message in each of at most nine queues, and timestamps from 0 up to the largest time difference, the
  time synchronizer ends, keeps the queues, and lets the messages through exactly if they are close to each other and far
  enough from the last ones; then it remembers the latest of them.  Longer queues are left out: the index the
  synchronizer reads a queue with always gives the oldest message.
\<close>

theorem synchronizer_right_on_single_messages:
  assumes "filter_ok f" "TypeSize f \<le> 9" "\<forall>q \<in> set (queues f). length q = 1 \<and> stamp_ok (ts (hd q))" "sync_ok sy"
  shows "\<exists>f' sy'. TimeSynchronizer_Callback ts f sy = Some (synchronized sy (map (ts \<circ> hd) (queues f)), f', sy') \<and>
    queues f' = queues f \<and>
    last_timestamp sy' = (if synchronized sy (map (ts \<circ> hd) (queues f))
      then Max (set (map (ts \<circ> hd) (queues f))) else last_timestamp sy)"
proof -
  have "\<forall>q \<in> set (queues f). \<exists>m. q = [m] \<and> stamp_ok (ts m)" using assms(3) by (auto simp: length_Suc_conv)
  then have sh: "shallow 1 ts f" using assms(1,2) by (auto simp: shallow_def)
  obtain b f' sy' where r: "synchronize Pool_index_operator ts f sy = Some (b, f', sy')" "trimmed f f'" "shallow 1 ts f'"
      "synchronized sy (map (ts \<circ> hd) (queues f)) \<longrightarrow> b"
      "b \<longrightarrow> synchronized sy (map (ts \<circ> hd) (queues f')) \<and> sy' = sy\<lparr>last_timestamp := Max (set (map (ts \<circ> hd) (queues f')))\<rparr>"
      "\<not> b \<longrightarrow> sy' = sy"
    using coded.synchronize_correct [OF sh assms(4)] .
  have same: "queues f' = queues f"
  proof (rule nth_equalityI)
    fix i assume "i < length (queues f')"
    then have i: "i < TypeSize f" "i < TypeSize f'" using r(2) by (simp_all add: trimmed_def)
    have "suffix (queues f' ! i) (queues f ! i)" using r(2) i(1) by (simp add: trimmed_def)
    moreover have "length (queues f ! i) = length (queues f' ! i)"
      using shallow_nth(1,2) [OF sh i(1)] shallow_nth(1,2) [OF r(3) i(2)] by (metis le_antisym length_0_conv less_one linorder_not_le nat_less_le)
    ultimately show "queues f' ! i = queues f ! i" by (metis suffix_length_less suffix_order.le_less less_irrefl strict_suffix_def)
  qed (use r(2) in \<open>simp add: trimmed_def\<close>)
  then have "b = synchronized sy (map (ts \<circ> hd) (queues f))" using r(4,5) by auto
  with r same show ?thesis by (auto simp: TimeSynchronizer_Callback_def)
qed

theorem synchronizer_right_on_single_messages_witness:
  "\<exists>f' sy'. TimeSynchronizer_Callback snd demo_single new_TimeSynchronizer = Some (True, f', sy') \<and> last_timestamp sy' = 50000"
proof -
  have "filter_ok demo_single" "TypeSize demo_single \<le> 9"
      "\<forall>q \<in> set (queues demo_single). length q = 1 \<and> stamp_ok (snd (hd q))" "sync_ok new_TimeSynchronizer"
    by (simp_all add: demo_filters stamp_ok_def TimeDelta_Max_def sync_ok_def new_TimeSynchronizer_def)
  from synchronizer_right_on_single_messages [OF this]
  show ?thesis by (auto simp: demo_filters synchronized_def new_TimeSynchronizer_def)
qed

text \<open>
  With the index as it is coded the synchronizer lets through messages that are not close: from a
  queue with messages of 0 and 500 ms and one with a message of 50 ms it accepts 0 and 50 ms, and then
  drops the first message and hands out 500 and 50 ms, far more than the 100 ms allowed.
\<close>

theorem synchronizer_lets_distant_messages_through:
  "\<exists>f sy. OnMessages (Some (TimeSynchronizer_Callback snd)) [(0, (1, 0)), (0, (2, 500000)), (1, (3, 50000))]
     (set_notify_callback (new_MessageFilter 10 2)) new_TimeSynchronizer = Some (f, sy) \<and>
     notified f = [[(2 :: nat, 500000), (3, 50000)]] \<and> max_intra_time_difference sy = 100000"
proof -
  have "map_option (\<lambda>(f, sy). (notified f, max_intra_time_difference sy))
     (OnMessages (Some (TimeSynchronizer_Callback snd)) [(0, (1, 0)), (0, (2, 500000)), (1, (3, 50000))]
     (set_notify_callback (new_MessageFilter 10 2)) new_TimeSynchronizer) =
     Some ([[(2 :: nat, 500000), (3, 50000)]], 100000)" by code_simp
  then show ?thesis by auto
qed

end
