(* ===== verification/Felicia_Service.thy ===== *)
theory Felicia_Service
  imports Felicia_Communication
begin

text \<open>
  \<open>core/communication/service_client.h\<close> and \<open>service_server.h\<close>, with the gRPC client and server of
  \<open>core/rpc/grpc_client_impl.h\<close> and \<open>grpc_server_impl.h\<close> they own.  gRPC itself is a parameter: whether
  a connection or a server comes up is given with the event.  What the program leaves undefined is
  \<open>None\<close>.  The thread that handles the calls is followed by what was posted to it.
\<close>

section \<open>The registration protocol\<close>

text \<open>
  A request to the master is a registration (\<open>True\<close>) or its end; the state after the answer.
\<close>

definition answered_state :: "bool \<Rightarrow> bool \<Rightarrow> register_state \<Rightarrow> register_state" where
  "answered_state registering ok st =
     (if registering then (if st \<noteq> Registering then st else if ok then Registered else Unregistered)
      else (if st \<noteq> Unregistering then st else if ok then Unregistered else Registered))"

definition awaited :: "register_state \<Rightarrow> bool list" where
  "awaited st = (case st of Registering \<Rightarrow> [True] | Unregistering \<Rightarrow> [False] | _ \<Rightarrow> [])"

text \<open>The moves of a registration: the state and the requests under way, before and after.\<close>

inductive registration_move :: "register_state \<Rightarrow> bool list \<Rightarrow> register_state \<Rightarrow> bool list \<Rightarrow> bool" where
  stays: "registration_move st rs st rs"
| asks: "registration_move Unregistered rs Registering (rs @ [True])"
| asks_end: "registration_move Registered rs Unregistering (rs @ [False])"
| gets_answer: "registration_move st (r # rs) (answered_state r ok st) rs"

locale registration_protocol =
  fixes init :: "'s \<Rightarrow> bool"
    and step :: "'s \<Rightarrow> 's \<Rightarrow> bool"
    and reg :: "'s \<Rightarrow> register_state"
    and pending :: "'s \<Rightarrow> bool list"
  assumes starts: "init s \<Longrightarrow> reg s = Unregistered \<and> pending s = []"
    and moves: "step s s' \<Longrightarrow> registration_move (reg s) (pending s) (reg s') (pending s')"
begin

lemma awaited_step: "step s s' \<Longrightarrow> pending s = awaited (reg s) \<Longrightarrow> pending s' = awaited (reg s')"
  by (drule moves, erule registration_move.cases) (auto simp: awaited_def answered_state_def split: register_state.splits)

lemma awaited_reachable: "reachable init step s \<Longrightarrow> pending s = awaited (reg s)"
  by (induction rule: reachable.induct) (use starts awaited_step in \<open>auto simp: awaited_def\<close>)

end

section \<open>The gRPC client\<close>

text \<open>The completion queue is absent before the first connection; it is open or shut.\<close>

record grpc_client =
  gc_stub :: "bool option"
  gc_cq :: "bool option"
  gc_threads :: "nat list"

definition new_grpc_client :: grpc_client where
  "new_grpc_client = \<lparr>gc_stub = None, gc_cq = None, gc_threads = []\<rparr>"

text \<open>\<open>Connect\<close> reports OK whether or not the channel came up; \<open>gc_stub\<close> tells which.\<close>

definition grpc_Connect :: "bool \<Rightarrow> grpc_client \<Rightarrow> status \<times> grpc_client" where
  "grpc_Connect up c = (Status_OK, c\<lparr>gc_stub := Some up, gc_cq := Some True\<rparr>)"

text \<open>Every thread is started each time the loops are run, the new one and those there already.\<close>

definition client_RunRpcsLoops :: "grpc_client \<Rightarrow> grpc_client" where
  "client_RunRpcsLoops c = c\<lparr>gc_threads := map Suc (gc_threads c @ [0])\<rparr>"

definition grpc_Run :: "grpc_client \<Rightarrow> status \<times> grpc_client" where
  "grpc_Run c = (Status_OK, client_RunRpcsLoops c)"

definition ShutdownClient :: "grpc_client \<Rightarrow> grpc_client option" where
  "ShutdownClient c = (if gc_cq c = None then None else Some (c\<lparr>gc_cq := Some False, gc_threads := []\<rparr>))"

section \<open>The service client\<close>

datatype service_request = RegisterServiceRequest nat "nat option" | UnregisterServiceRequest "nat option"

record service_client =
  sc_register :: register_state
  sc_client :: grpc_client
  sc_service_info :: "service_info option"
  on_connect_callback :: "nat option"
  sc_tasks :: "service_info list"
  sc_requests :: "service_request list"
  sc_replies :: "log_or_callback list"
  on_connects :: "(nat \<times> reg_status) list"

definition new_ServiceClient :: service_client where
  "new_ServiceClient = \<lparr>sc_register = Unregistered, sc_client = new_grpc_client, sc_service_info = None,
     on_connect_callback = None, sc_tasks = [], sc_requests = [], sc_replies = [], on_connects = []\<rparr>"

definition sc_answer :: "nat option \<Rightarrow> status \<Rightarrow> service_client \<Rightarrow> service_client" where
  "sc_answer cb st s = s\<lparr>sc_replies := sc_replies s @ [LogOrCallback cb st]\<rparr>"

definition ServiceClient_RequestRegister :: "nat \<Rightarrow> nat option \<Rightarrow> service_client \<Rightarrow> service_client" where
  "ServiceClient_RequestRegister on_connect cb s =
     (if sc_register s \<noteq> Unregistered then sc_answer cb (InvalidStateError (sc_register s)) s
      else s\<lparr>sc_register := Registering, sc_requests := sc_requests s @ [RegisterServiceRequest on_connect cb]\<rparr>)"

definition ServiceClient_RequestUnregister :: "nat option \<Rightarrow> service_client \<Rightarrow> service_client" where
  "ServiceClient_RequestUnregister cb s =
     (if sc_register s \<noteq> Registered then sc_answer cb (InvalidStateError (sc_register s)) s
      else s\<lparr>sc_register := Unregistering, sc_requests := sc_requests s @ [UnregisterServiceRequest cb]\<rparr>)"

definition OnRegisterServiceClientAsync :: "nat \<Rightarrow> nat option \<Rightarrow> status \<Rightarrow> service_client \<Rightarrow> service_client" where
  "OnRegisterServiceClientAsync on_connect cb rv s =
     (if sc_register s \<noteq> Registering then sc_answer cb (InvalidStateError (sc_register s)) s
      else if \<not> Status_ok rv then sc_answer cb rv (s\<lparr>sc_register := Unregistered\<rparr>)
      else sc_answer cb rv (s\<lparr>on_connect_callback := Some on_connect, sc_register := Registered\<rparr>))"

definition sc_shutdown :: "service_client \<Rightarrow> service_client option" where
  "sc_shutdown s = map_option (\<lambda>c. s\<lparr>sc_client := c\<rparr>) (ShutdownClient (sc_client s))"

definition OnUnregisterServiceClientAsync :: "nat option \<Rightarrow> status \<Rightarrow> service_client \<Rightarrow> service_client option" where
  "OnUnregisterServiceClientAsync cb rv s =
     (if sc_register s \<noteq> Unregistering then Some (sc_answer cb (InvalidStateError (sc_register s)) s)
      else if \<not> Status_ok rv then Some (sc_answer cb rv (s\<lparr>sc_register := Registered\<rparr>))
      else sc_shutdown (sc_answer cb rv (s\<lparr>sc_register := Unregistered\<rparr>)))"

definition run_on_connect :: "reg_status \<Rightarrow> service_client \<Rightarrow> service_client option" where
  "run_on_connect st s =
     map_option (\<lambda>cb. s\<lparr>on_connects := on_connects s @ [(cb, st)]\<rparr>) (on_connect_callback s)"

definition ServiceClient_OnConnect :: "status \<Rightarrow> service_client \<Rightarrow> service_client option" where
  "ServiceClient_OnConnect rv s =
     (if Status_ok rv then
        let (st, c) = grpc_Run (sc_client s); s1 = s\<lparr>sc_client := c\<rparr> in
        if Status_ok st then run_on_connect REGISTERED s1 else Some s1
      else Some s)"

text \<open>The first channel of a service without channels does not exist; the gRPC client connects within the call.\<close>

definition OnFindServiceServer :: "bool \<Rightarrow> service_info \<Rightarrow> service_client \<Rightarrow> service_client option" where
  "OnFindServiceServer up info s =
     (if sc_register s = Registering \<or> sc_register s = Unregistering then Some (s\<lparr>sc_tasks := sc_tasks s @ [info]\<rparr>)
      else if sc_register s = Unregistered then Some s
      else if si_status info = UNREGISTERED then Option.bind (sc_shutdown s) (run_on_connect UNREGISTERED)
      else if channel_defs (service_source info) = [] then None
      else let (st, c) = grpc_Connect up (sc_client s) in
           ServiceClient_OnConnect st (s\<lparr>sc_service_info := Some info, sc_client := c\<rparr>))"

datatype sc_event =
    ScRegister nat "nat option"
  | ScUnregister "nat option"
  | ScAnswer status
  | ScFound bool service_info
  | ScTask bool

fun sc_exec :: "sc_event \<Rightarrow> service_client \<Rightarrow> service_client option" where
  "sc_exec (ScRegister on_connect cb) s = Some (ServiceClient_RequestRegister on_connect cb s)"
| "sc_exec (ScUnregister cb) s = Some (ServiceClient_RequestUnregister cb s)"
| "sc_exec (ScAnswer rv) s =
     (case sc_requests s of
        [] \<Rightarrow> Some s
      | RegisterServiceRequest on_connect cb # rs \<Rightarrow>
          Some (OnRegisterServiceClientAsync on_connect cb rv (s\<lparr>sc_requests := rs\<rparr>))
      | UnregisterServiceRequest cb # rs \<Rightarrow> OnUnregisterServiceClientAsync cb rv (s\<lparr>sc_requests := rs\<rparr>))"
| "sc_exec (ScFound up info) s = OnFindServiceServer up info s"
| "sc_exec (ScTask up) s =
     (case sc_tasks s of [] \<Rightarrow> Some s | info # ts \<Rightarrow> OnFindServiceServer up info (s\<lparr>sc_tasks := ts\<rparr>))"

inductive sc_step :: "service_client \<Rightarrow> service_client \<Rightarrow> bool" where
  "sc_exec ev s = Some s' \<Longrightarrow> sc_step s s'"

inductive_cases sc_stepE: "sc_step s s'"

section \<open>The gRPC server\<close>

text \<open>
  A service is known by a number; a thread by the services whose loop was posted to it.  The flag is
  the \<open>is_shutdown_\<close> of the present service (\<open>core/rpc/grpc_service_impl.h\<close>).
\<close>

record grpc_server =
  gs_service :: "nat option"
  gs_is_shutdown :: bool
  gs_server :: "bool option"
  gs_made :: nat
  gs_threads :: "nat list list"

definition new_grpc_server :: grpc_server where
  "new_grpc_server = \<lparr>gs_service = None, gs_is_shutdown = False, gs_server = None, gs_made = 0, gs_threads = []\<rparr>"

text \<open>\<open>Start\<close> makes a new service, which frees the old one, and a new server, if it comes up.\<close>

definition grpc_Start :: "bool \<Rightarrow> grpc_server \<Rightarrow> status \<times> grpc_server" where
  "grpc_Start up g =
     (let g1 = g\<lparr>gs_service := Some (gs_made g), gs_is_shutdown := False, gs_made := gs_made g + 1,
        gs_server := (if up then Some True else None)\<rparr> in
      (if up then Status_OK else make_error UNKNOWN ''Could not start gRPC server'', g1))"

definition server_RunRpcsLoops :: "grpc_server \<Rightarrow> grpc_server" where
  "server_RunRpcsLoops g =
     g\<lparr>gs_threads := map (\<lambda>posted. posted @ (case gs_service g of None \<Rightarrow> [] | Some k \<Rightarrow> [k])) (gs_threads g @ [[]])\<rparr>"

definition ShutdownServer :: "grpc_server \<Rightarrow> grpc_server" where
  "ShutdownServer g = g\<lparr>gs_server := map_option (\<lambda>_. False) (gs_server g),
     gs_is_shutdown := (gs_is_shutdown g \<or> gs_service g \<noteq> None)\<rparr>"

section \<open>The service server\<close>

record service_server =
  srv_register :: register_state
  srv_server :: grpc_server
  srv_requests :: "(bool \<times> nat option) list"
  srv_replies :: "log_or_callback list"

definition new_ServiceServer :: service_server where
  "new_ServiceServer = \<lparr>srv_register = Unregistered, srv_server = new_grpc_server, srv_requests = [], srv_replies = []\<rparr>"

definition srv_answer :: "nat option \<Rightarrow> status \<Rightarrow> service_server \<Rightarrow> service_server" where
  "srv_answer cb st s = s\<lparr>srv_replies := srv_replies s @ [LogOrCallback cb st]\<rparr>"

text \<open>The results of \<open>Start\<close> and \<open>Run\<close> are not looked at.\<close>

definition ServiceServer_RequestRegister :: "bool \<Rightarrow> nat option \<Rightarrow> service_server \<Rightarrow> service_server" where
  "ServiceServer_RequestRegister up cb s =
     (if srv_register s \<noteq> Unregistered then srv_answer cb (InvalidStateError (srv_register s)) s
      else s\<lparr>srv_register := Registering, srv_server := server_RunRpcsLoops (snd (grpc_Start up (srv_server s))),
             srv_requests := srv_requests s @ [(True, cb)]\<rparr>)"

definition ServiceServer_RequestUnregister :: "nat option \<Rightarrow> service_server \<Rightarrow> service_server" where
  "ServiceServer_RequestUnregister cb s =
     (if srv_register s \<noteq> Registered then srv_answer cb (InvalidStateError (srv_register s)) s
      else s\<lparr>srv_register := Unregistering, srv_requests := srv_requests s @ [(False, cb)]\<rparr>)"

definition OnRegisterServiceServerAsync :: "nat option \<Rightarrow> status \<Rightarrow> service_server \<Rightarrow> service_server" where
  "OnRegisterServiceServerAsync cb rv s =
     (if srv_register s \<noteq> Registering then srv_answer cb (InvalidStateError (srv_register s)) s
      else if \<not> Status_ok rv then srv_answer cb rv (s\<lparr>srv_register := Unregistered\<rparr>)
      else srv_answer cb rv (s\<lparr>srv_register := Registered\<rparr>))"

definition OnUnegisterServiceServerAsync :: "nat option \<Rightarrow> status \<Rightarrow> service_server \<Rightarrow> service_server" where
  "OnUnegisterServiceServerAsync cb rv s =
     (if srv_register s \<noteq> Unregistering then srv_answer cb (InvalidStateError (srv_register s)) s
      else if \<not> Status_ok rv then srv_answer cb rv (s\<lparr>srv_register := Registered\<rparr>)
      else srv_answer cb rv (s\<lparr>srv_register := Unregistered, srv_server := ShutdownServer (srv_server s)\<rparr>))"

datatype srv_event = SrvRegister bool "nat option" | SrvUnregister "nat option" | SrvAnswer status

fun srv_exec :: "srv_event \<Rightarrow> service_server \<Rightarrow> service_server" where
  "srv_exec (SrvRegister up cb) s = ServiceServer_RequestRegister up cb s"
| "srv_exec (SrvUnregister cb) s = ServiceServer_RequestUnregister cb s"
| "srv_exec (SrvAnswer rv) s =
     (case srv_requests s of
        [] \<Rightarrow> s
      | (registering, cb) # rs \<Rightarrow>
          (if registering then OnRegisterServiceServerAsync cb rv (s\<lparr>srv_requests := rs\<rparr>)
           else OnUnegisterServiceServerAsync cb rv (s\<lparr>srv_requests := rs\<rparr>)))"

inductive srv_step :: "service_server \<Rightarrow> service_server \<Rightarrow> bool" where
  "srv_step s (srv_exec ev s)"

inductive_cases srv_stepE: "srv_step s s'"

section \<open>The protocol is kept\<close>

definition registers :: "service_request \<Rightarrow> bool" where
  "registers r = (case r of RegisterServiceRequest _ _ \<Rightarrow> True | UnregisterServiceRequest _ \<Rightarrow> False)"

lemma sc_answer_simps [simp]:
  "sc_register (sc_answer cb st s) = sc_register s" "sc_requests (sc_answer cb st s) = sc_requests s"
  "sc_client (sc_answer cb st s) = sc_client s" "on_connect_callback (sc_answer cb st s) = on_connect_callback s"
  by (simp_all add: sc_answer_def)

lemma srv_answer_simps [simp]:
  "srv_register (srv_answer cb st s) = srv_register s" "srv_requests (srv_answer cb st s) = srv_requests s"
  "srv_server (srv_answer cb st s) = srv_server s"
  by (simp_all add: srv_answer_def)

lemma found_keeps:
  assumes "OnFindServiceServer up info s = Some s'"
  shows "sc_register s' = sc_register s" "sc_requests s' = sc_requests s" "on_connect_callback s' = on_connect_callback s"
  using assms
  by (auto simp: OnFindServiceServer_def sc_shutdown_def run_on_connect_def ServiceClient_OnConnect_def Let_def
      bind_eq_Some_conv split: if_splits prod.splits)

lemma sc_exec_moves:
  assumes run: "sc_exec ev s = Some s'"
  shows "registration_move (sc_register s) (map registers (sc_requests s)) (sc_register s') (map registers (sc_requests s'))"
proof (cases ev)
  case (ScRegister on_connect cb)
  with run show ?thesis
    by (cases "sc_register s = Unregistered")
      (auto simp: ServiceClient_RequestRegister_def registers_def intro: registration_move.intros)
next
  case (ScUnregister cb)
  with run show ?thesis
    by (cases "sc_register s = Registered")
      (auto simp: ServiceClient_RequestUnregister_def registers_def intro: registration_move.intros)
next
  case (ScAnswer rv)
  show ?thesis
  proof (cases "sc_requests s")
    case Nil
    with run ScAnswer show ?thesis by (auto intro: registration_move.intros)
  next
    case (Cons r rs)
    have "sc_requests s' = rs \<and> sc_register s' = answered_state (registers r) (Status_ok rv) (sc_register s)"
      using run ScAnswer Cons
      by (cases r) (auto simp: OnRegisterServiceClientAsync_def OnUnregisterServiceClientAsync_def sc_shutdown_def
          answered_state_def registers_def split: if_splits)
    with Cons show ?thesis by (auto intro: registration_move.intros)
  qed
next
  case (ScFound up info)
  with run found_keeps [of up info s s'] show ?thesis by (auto intro: registration_move.intros)
next
  case (ScTask up)
  with run found_keeps [of up "hd (sc_tasks s)" "s\<lparr>sc_tasks := tl (sc_tasks s)\<rparr>" s'] show ?thesis
    by (cases "sc_tasks s") (auto intro: registration_move.intros)
qed

interpretation service_client: registration_protocol "\<lambda>s. s = new_ServiceClient" sc_step sc_register
    "\<lambda>s. map registers (sc_requests s)"
  by unfold_locales (auto simp: new_ServiceClient_def elim!: sc_stepE intro: sc_exec_moves)

lemma srv_exec_moves:
  "registration_move (srv_register s) (map fst (srv_requests s)) (srv_register (srv_exec ev s)) (map fst (srv_requests (srv_exec ev s)))"
proof (cases ev)
  case (SrvRegister up cb)
  then show ?thesis
    by (cases "srv_register s = Unregistered")
      (auto simp: ServiceServer_RequestRegister_def intro: registration_move.intros)
next
  case (SrvUnregister cb)
  then show ?thesis
    by (cases "srv_register s = Registered")
      (auto simp: ServiceServer_RequestUnregister_def intro: registration_move.intros)
next
  case (SrvAnswer rv)
  show ?thesis
  proof (cases "srv_requests s")
    case Nil
    with SrvAnswer show ?thesis by (auto intro: registration_move.intros)
  next
    case (Cons x rs)
    have "srv_requests (srv_exec ev s) = rs \<and>
        srv_register (srv_exec ev s) = answered_state (fst x) (Status_ok rv) (srv_register s)"
      using SrvAnswer Cons
      by (cases x) (auto simp: OnRegisterServiceServerAsync_def OnUnegisterServiceServerAsync_def answered_state_def)
    with Cons show ?thesis by (auto intro: registration_move.intros)
  qed
qed

interpretation service_server: registration_protocol "\<lambda>s. s = new_ServiceServer" srv_step srv_register
    "\<lambda>s. map fst (srv_requests s)"
  by unfold_locales (auto simp: new_ServiceServer_def elim!: srv_stepE intro: srv_exec_moves)

section \<open>The connection\<close>

text \<open>A client that has been told of a server has a completion queue for good, and its loop a thread.\<close>

definition sc_ok :: "service_client \<Rightarrow> bool" where
  "sc_ok s \<longleftrightarrow> (sc_register s = Registered \<or> sc_register s = Unregistering \<longrightarrow> on_connect_callback s \<noteq> None) \<and>
     (gc_cq (sc_client s) = None \<longrightarrow> on_connects s = [])"

lemma found_ok: "OnFindServiceServer up info s = Some s' \<Longrightarrow> sc_ok s \<Longrightarrow> sc_ok s'"
  by (auto simp: sc_ok_def OnFindServiceServer_def sc_shutdown_def ShutdownClient_def run_on_connect_def
      ServiceClient_OnConnect_def grpc_Connect_def grpc_Run_def client_RunRpcsLoops_def Let_def bind_eq_Some_conv
      split: if_splits)

lemma sc_exec_ok: "sc_exec ev s = Some s' \<Longrightarrow> sc_ok s \<Longrightarrow> sc_ok s'"
proof (cases ev)
  case (ScFound up info)
  then show "sc_exec ev s = Some s' \<Longrightarrow> sc_ok s \<Longrightarrow> sc_ok s'" using found_ok by simp
next
  case (ScTask up)
  have "sc_ok (s\<lparr>sc_tasks := ts\<rparr>) = sc_ok s" for ts by (simp add: sc_ok_def)
  with ScTask show "sc_exec ev s = Some s' \<Longrightarrow> sc_ok s \<Longrightarrow> sc_ok s'" using found_ok by (cases "sc_tasks s") auto
qed (auto simp: sc_ok_def ServiceClient_RequestRegister_def ServiceClient_RequestUnregister_def sc_answer_def
    OnRegisterServiceClientAsync_def OnUnregisterServiceClientAsync_def sc_shutdown_def ShutdownClient_def
    split: if_splits list.splits service_request.splits)

interpretation service_connection: inductive_invariant "\<lambda>s. s = new_ServiceClient" sc_step sc_ok
proof
  show "s = new_ServiceClient \<Longrightarrow> sc_ok s" for s by (simp add: sc_ok_def new_ServiceClient_def)
  show "sc_ok s \<Longrightarrow> sc_step s s' \<Longrightarrow> sc_ok s'" for s s' by (auto elim!: sc_stepE intro: sc_exec_ok)
qed

text \<open>The service a step tells the client about.\<close>

definition told :: "sc_event \<Rightarrow> service_client \<Rightarrow> service_info option" where
  "told ev s = (case ev of ScFound up info \<Rightarrow> Some info | ScTask up \<Rightarrow> (case sc_tasks s of [] \<Rightarrow> None | info # _ \<Rightarrow> Some info)
     | _ \<Rightarrow> None)"

lemma found_undefined:
  assumes "sc_ok s"
  shows "OnFindServiceServer up info s = None \<longleftrightarrow> sc_register s = Registered \<and>
    (if si_status info = UNREGISTERED then gc_cq (sc_client s) = None else channel_defs (service_source info) = [])"
proof (cases "sc_register s = Registered")
  case True
  with assms obtain cb where "on_connect_callback s = Some cb" by (auto simp: sc_ok_def)
  with True show ?thesis
    by (simp add: OnFindServiceServer_def sc_shutdown_def ShutdownClient_def run_on_connect_def ServiceClient_OnConnect_def
        grpc_Connect_def grpc_Run_def Let_def)
next
  case False
  then show ?thesis by (cases "sc_register s") (auto simp: OnFindServiceServer_def)
qed

section \<open>Properties\<close>

text \<open>
  A service client is free of undefined behaviour except in three cases, which are exactly
  these: it is unregistered, or told that its server is gone, before it was ever told of a server, when
  it shuts a completion queue down that does not exist; or it is told of a server without a channel.
\<close>

theorem service_client_undefined_cases:
  assumes "reachable (\<lambda>s. s = new_ServiceClient) sc_step s"
  shows "sc_exec ev s = None \<longleftrightarrow>
    gc_cq (sc_client s) = None \<and>
      (sc_register s = Unregistering \<and> (\<exists>rv. ev = ScAnswer rv \<and> Status_ok rv) \<or>
       sc_register s = Registered \<and> (\<exists>info. told ev s = Some info \<and> si_status info = UNREGISTERED)) \<or>
    sc_register s = Registered \<and>
      (\<exists>info. told ev s = Some info \<and> si_status info \<noteq> UNREGISTERED \<and> channel_defs (service_source info) = [])"
proof (cases ev)
  case (ScAnswer rv)
  have wait: "map registers (sc_requests s) = awaited (sc_register s)" using service_client.awaited_reachable [OF assms] .
  show ?thesis
  proof (cases "sc_requests s")
    case Nil
    with wait ScAnswer show ?thesis by (auto simp: awaited_def told_def)
  next
    case (Cons r rs)
    show ?thesis
    proof (cases r)
      case (RegisterServiceRequest on_connect cb)
      with Cons wait ScAnswer show ?thesis
        by (cases "sc_register s") (simp_all add: awaited_def told_def registers_def)
    next
      case (UnregisterServiceRequest cb)
      with Cons wait ScAnswer show ?thesis
        by (cases "sc_register s")
          (simp_all add: awaited_def told_def registers_def OnUnregisterServiceClientAsync_def sc_shutdown_def ShutdownClient_def)
    qed
  qed
next
  case (ScFound up info)
  with found_undefined [OF service_connection.inv_reachable [OF assms]] show ?thesis by (auto simp: told_def)
next
  case (ScTask up)
  have "sc_ok (s\<lparr>sc_tasks := ts\<rparr>)" for ts using service_connection.inv_reachable [OF assms] by (simp add: sc_ok_def)
  with ScTask found_undefined show ?thesis by (cases "sc_tasks s") (auto simp: told_def)
qed (simp_all add: told_def)

definition demo_unregister :: "service_client" where
  "demo_unregister = new_ServiceClient\<lparr>sc_register := Unregistering, on_connect_callback := Some 1,
     sc_requests := [UnregisterServiceRequest None], sc_replies := [Silent]\<rparr>"

lemma demo_unregister_reachable: "reachable (\<lambda>s. s = new_ServiceClient) sc_step demo_unregister"
proof -
  let ?a = "ServiceClient_RequestRegister 1 None new_ServiceClient"
  let ?b = "OnRegisterServiceClientAsync 1 None Status_OK (?a\<lparr>sc_requests := []\<rparr>)"
  have "sc_step new_ServiceClient ?a" by (rule sc_step.intros [of "ScRegister 1 None"]) simp
  moreover have "sc_step ?a ?b"
    by (rule sc_step.intros [of "ScAnswer Status_OK"]) (simp add: ServiceClient_RequestRegister_def new_ServiceClient_def)
  moreover have "sc_step ?b demo_unregister"
    by (rule sc_step.intros [of "ScUnregister None"])
      (simp add: ServiceClient_RequestRegister_def OnRegisterServiceClientAsync_def ServiceClient_RequestUnregister_def
        sc_answer_def LogOrCallback_def demo_unregister_def new_ServiceClient_def)
  moreover have "reachable (\<lambda>s. s = new_ServiceClient) sc_step new_ServiceClient" by (simp add: reachable.start)
  ultimately show ?thesis by (blast intro: reachable.move)
qed

theorem service_client_undefined_cases_witness: "sc_exec (ScAnswer Status_OK) demo_unregister = None"
  using service_client_undefined_cases [OF demo_unregister_reachable, of "ScAnswer Status_OK"]
  by (simp add: demo_unregister_def new_ServiceClient_def new_grpc_client_def)

text \<open>
  A refused service server is not shut down: the next attempt makes a new service in place of
  the first, whose loop is still posted on a thread, and starts that thread a second time.
\<close>

theorem refused_service_server_keeps_running:
  assumes "\<not> Status_ok rv"
  shows "let s = srv_exec (SrvRegister up' cb') (srv_exec (SrvAnswer rv) (srv_exec (SrvRegister up cb) new_ServiceServer)) in
    srv_register s = Registering \<and> gs_service (srv_server s) = Some 1 \<and> gs_threads (srv_server s) = [[0, 1], [1]]"
  using assms
  by (simp add: ServiceServer_RequestRegister_def OnRegisterServiceServerAsync_def new_ServiceServer_def new_grpc_server_def
      grpc_Start_def server_RunRpcsLoops_def srv_answer_def Let_def)

theorem refused_service_server_keeps_running_witness:
  "gs_threads (srv_server (srv_exec (SrvRegister True None)
     (srv_exec (SrvAnswer (Aborted [])) (srv_exec (SrvRegister True None) new_ServiceServer)))) = [[0, 1], [1]]"
  using refused_service_server_keeps_running [of "Aborted []" True None True None] by (simp add: Let_def)

end
