(* ===== verification/Felicia_RosHeader.thy ===== *)
theory Felicia_RosHeader
  imports Felicia_ChannelDef Felicia_MessageIO
begin

text \<open>
  \<open>core/message/ros_header.cc\<close>, \<open>ros_header_io.h\<close> and the handshakes of
  \<open>core/channel/ros_topic_request.cc\<close>, \<open>ros_topic_response.cc\<close>, \<open>ros_service_request.cc\<close> and
  \<open>ros_service_response.cc\<close>: how the two ends of a ROS connection make sure that they agree.  The
  inheritance of the header classes is record extension.  \<open>ros::Header\<close> is not part of the sources:
  how it writes a map of fields and reads it back is a parameter.
\<close>

section \<open>The headers\<close>

type_synonym header_map = "(string, string) flat_map"

record ros_header =
  rh_callerid :: string
  rh_md5sum :: string

record ros_topic_header = ros_header +
  rt_topic :: string
  rt_type :: string

record ros_topic_request_header = ros_topic_header +
  rt_tcp_nodelay :: string

record ros_topic_response_header = ros_topic_header +
  rt_error :: string
  rt_latching :: string
  rt_message_definition :: string

record ros_service_request_header = ros_header +
  rs_persistent :: string
  rs_service :: string

record ros_service_response_header = ros_header +
  rs_error :: string
  rs_request_type :: string
  rs_response_type :: string
  rs_type :: string

text \<open>\<open>ros::Header::getValue\<close> leaves its argument alone when there is no such field.\<close>

definition getValue :: "header_map \<Rightarrow> string \<Rightarrow> string \<Rightarrow> string" where
  "getValue m key old = (case fm_find m key of None \<Rightarrow> old | Some v \<Rightarrow> v)"

definition RosHeader_WriteToHeaderMap :: "'a ros_header_scheme \<Rightarrow> header_map \<Rightarrow> header_map" where
  "RosHeader_WriteToHeaderMap h m =
     fm_insert_or_assign ''md5sum'' (rh_md5sum h) (fm_insert_or_assign ''callerid'' (rh_callerid h) m)"

definition RosHeader_ReadFromRosHeader :: "header_map \<Rightarrow> 'a ros_header_scheme \<Rightarrow> 'a ros_header_scheme" where
  "RosHeader_ReadFromRosHeader m h =
     h\<lparr>rh_md5sum := getValue m ''md5sum'' (rh_md5sum h), rh_callerid := getValue m ''callerid'' (rh_callerid h)\<rparr>"

definition RosTopicHeader_WriteToHeaderMap :: "'a ros_topic_header_scheme \<Rightarrow> header_map \<Rightarrow> header_map" where
  "RosTopicHeader_WriteToHeaderMap h m =
     fm_insert_or_assign ''type'' (rt_type h) (fm_insert_or_assign ''topic'' (rt_topic h) (RosHeader_WriteToHeaderMap h m))"

definition RosTopicHeader_ReadFromRosHeader :: "header_map \<Rightarrow> 'a ros_topic_header_scheme \<Rightarrow> 'a ros_topic_header_scheme" where
  "RosTopicHeader_ReadFromRosHeader m h =
     (RosHeader_ReadFromRosHeader m h)\<lparr>rt_topic := getValue m ''topic'' (rt_topic h), rt_type := getValue m ''type'' (rt_type h)\<rparr>"

definition RosTopicRequestHeader_WriteToHeaderMap :: "ros_topic_request_header \<Rightarrow> header_map \<Rightarrow> header_map" where
  "RosTopicRequestHeader_WriteToHeaderMap h m =
     fm_insert_or_assign ''tcp_nodelay'' (rt_tcp_nodelay h) (RosTopicHeader_WriteToHeaderMap h m)"

definition RosTopicRequestHeader_ReadFromRosHeader :: "header_map \<Rightarrow> ros_topic_request_header \<Rightarrow> ros_topic_request_header" where
  "RosTopicRequestHeader_ReadFromRosHeader m h =
     (RosTopicHeader_ReadFromRosHeader m h)\<lparr>rt_tcp_nodelay := getValue m ''tcp_nodelay'' (rt_tcp_nodelay h)\<rparr>"

definition RosTopicResponseHeader_WriteToHeaderMap :: "ros_topic_response_header \<Rightarrow> header_map \<Rightarrow> header_map" where
  "RosTopicResponseHeader_WriteToHeaderMap h m =
     (let m' = RosTopicHeader_WriteToHeaderMap h m in
      if rt_error h = [] then
        fm_insert_or_assign ''latching'' (rt_latching h)
          (fm_insert_or_assign ''message_definition'' (rt_message_definition h) m')
      else fm_insert_or_assign ''error'' (rt_error h) m')"

definition RosTopicResponseHeader_ReadFromRosHeader :: "header_map \<Rightarrow> ros_topic_response_header \<Rightarrow> ros_topic_response_header" where
  "RosTopicResponseHeader_ReadFromRosHeader m h =
     (RosTopicHeader_ReadFromRosHeader m h)\<lparr>rt_error := getValue m ''error'' (rt_error h),
       rt_message_definition := getValue m ''message_definition'' (rt_message_definition h),
       rt_latching := getValue m ''latching'' (rt_latching h)\<rparr>"

definition RosServiceRequestHeader_WriteToHeaderMap :: "ros_service_request_header \<Rightarrow> header_map \<Rightarrow> header_map" where
  "RosServiceRequestHeader_WriteToHeaderMap h m =
     fm_insert_or_assign ''service'' (rs_service h)
       (fm_insert_or_assign ''persistent'' (rs_persistent h) (RosHeader_WriteToHeaderMap h m))"

definition RosServiceRequestHeader_ReadFromRosHeader :: "header_map \<Rightarrow> ros_service_request_header \<Rightarrow> ros_service_request_header" where
  "RosServiceRequestHeader_ReadFromRosHeader m h =
     (RosHeader_ReadFromRosHeader m h)\<lparr>rs_persistent := getValue m ''persistent'' (rs_persistent h),
       rs_service := getValue m ''service'' (rs_service h)\<rparr>"

definition RosServiceResponseHeader_WriteToHeaderMap :: "ros_service_response_header \<Rightarrow> header_map \<Rightarrow> header_map" where
  "RosServiceResponseHeader_WriteToHeaderMap h m =
     (let m' = RosHeader_WriteToHeaderMap h m in
      if rs_error h = [] then
        fm_insert_or_assign ''type'' (rs_type h) (fm_insert_or_assign ''response_type'' (rs_response_type h)
          (fm_insert_or_assign ''request_type'' (rs_request_type h) m'))
      else fm_insert_or_assign ''error'' (rs_error h) m')"

definition RosServiceResponseHeader_ReadFromRosHeader :: "header_map \<Rightarrow> ros_service_response_header \<Rightarrow> ros_service_response_header" where
  "RosServiceResponseHeader_ReadFromRosHeader m h =
     (RosHeader_ReadFromRosHeader m h)\<lparr>rs_error := getValue m ''error'' (rs_error h),
       rs_request_type := getValue m ''request_type'' (rs_request_type h),
       rs_response_type := getValue m ''response_type'' (rs_response_type h),
       rs_type := getValue m ''type'' (rs_type h)\<rparr>"

text \<open>
  \<open>WriteToBuffer\<close> and \<open>ReadFromBuffer\<close> call the virtual functions, which are arguments here, as are
  \<open>ros::Header::write\<close> and \<open>ros::Header::parse\<close>.
\<close>

definition WriteToBuffer :: "(header_map \<Rightarrow> 'b) \<Rightarrow> ('h \<Rightarrow> header_map \<Rightarrow> header_map) \<Rightarrow> 'h \<Rightarrow> 'b" where
  "WriteToBuffer ros_write WriteToHeaderMap h = ros_write (WriteToHeaderMap h [])"

definition ReadFromBuffer ::
    "('b \<Rightarrow> string + header_map) \<Rightarrow> (header_map \<Rightarrow> 'h \<Rightarrow> 'h) \<Rightarrow> 'b \<Rightarrow> 'h \<Rightarrow> status \<times> 'h" where
  "ReadFromBuffer ros_parse ReadFromRosHeader buf h =
     (case ros_parse buf of
        Inl err \<Rightarrow> (Aborted (''Failed to parse ROS Header: '' @ err @ ''.''), h)
      | Inr m \<Rightarrow> (Status_OK, ReadFromRosHeader m h))"

section \<open>What a header is checked for\<close>

definition EXPECT_NOT_EMPTY :: "string \<Rightarrow> string \<Rightarrow> status \<Rightarrow> status" where
  "EXPECT_NOT_EMPTY nm v rest = (if v = [] then InvalidArgument (nm @ '' is empty'') else rest)"

definition EXPECT_BOOL :: "string \<Rightarrow> string \<Rightarrow> status \<Rightarrow> status" where
  "EXPECT_BOOL nm v rest =
     (if v \<noteq> ''1'' \<and> v \<noteq> ''0'' then InvalidArgument (nm @ '' has a value('' @ v @ '') other than 1 or 0'') else rest)"

definition EXPECT_MATCH :: "string \<Rightarrow> string \<Rightarrow> string \<Rightarrow> status \<Rightarrow> status" where
  "EXPECT_MATCH nm v w rest = (if v \<noteq> w then InvalidArgument (nm @ '' is not matched : '' @ v @ '' vs '' @ w @ ''.'') else rest)"

definition RosHeader_Validate :: "'a ros_header_scheme \<Rightarrow> 'b ros_header_scheme \<Rightarrow> status" where
  "RosHeader_Validate h expected =
     EXPECT_NOT_EMPTY ''callerid'' (rh_callerid h)
     (EXPECT_NOT_EMPTY ''md5sum'' (rh_md5sum h)
     (if rh_md5sum h \<noteq> rh_md5sum expected \<and> rh_md5sum h \<noteq> ''*'' \<and> rh_md5sum expected \<noteq> ''*''
      then InvalidArgument (''md5sum is not matched :'' @ rh_md5sum h @ '' vs '' @ rh_md5sum expected @ ''.'')
      else Status_OK))"

definition RosTopicHeader_Validate :: "'a ros_topic_header_scheme \<Rightarrow> 'b ros_topic_header_scheme \<Rightarrow> status" where
  "RosTopicHeader_Validate h expected =
     EXPECT_NOT_EMPTY ''topic'' (rt_topic h)
     (EXPECT_NOT_EMPTY ''type'' (rt_type h)
     (EXPECT_MATCH ''topic'' (rt_topic h) (rt_topic expected)
     (EXPECT_MATCH ''type'' (rt_type h) (rt_type expected)
     (RosHeader_Validate h expected))))"

definition RosTopicRequestHeader_Validate :: "ros_topic_request_header \<Rightarrow> 'b ros_topic_header_scheme \<Rightarrow> status" where
  "RosTopicRequestHeader_Validate h expected =
     EXPECT_NOT_EMPTY ''tcp_nodelay'' (rt_tcp_nodelay h)
     (EXPECT_BOOL ''tcp_nodelay'' (rt_tcp_nodelay h)
     (RosTopicHeader_Validate h expected))"

definition RosTopicResponseHeader_Validate :: "ros_topic_response_header \<Rightarrow> 'b ros_topic_header_scheme \<Rightarrow> status" where
  "RosTopicResponseHeader_Validate h expected =
     EXPECT_NOT_EMPTY ''latching'' (rt_latching h)
     (EXPECT_NOT_EMPTY ''message_definition'' (rt_message_definition h)
     (EXPECT_BOOL ''latching'' (rt_latching h)
     (RosTopicHeader_Validate h expected)))"

definition RosServiceRequestHeader_Validate :: "ros_service_request_header \<Rightarrow> ros_service_request_header \<Rightarrow> status" where
  "RosServiceRequestHeader_Validate h expected =
     EXPECT_NOT_EMPTY ''persistent'' (rs_persistent h)
     (EXPECT_NOT_EMPTY ''service'' (rs_service h)
     (EXPECT_BOOL ''persistent'' (rs_persistent h)
     (RosHeader_Validate h expected)))"

definition RosServiceResponseHeader_Validate :: "ros_service_response_header \<Rightarrow> ros_service_response_header \<Rightarrow> status" where
  "RosServiceResponseHeader_Validate h expected =
     EXPECT_NOT_EMPTY ''request_type'' (rs_request_type h)
     (EXPECT_NOT_EMPTY ''response_type'' (rs_response_type h)
     (EXPECT_NOT_EMPTY ''type'' (rs_type h)
     (RosHeader_Validate h expected)))"

section \<open>The handshake of a topic\<close>

text \<open>A default constructed header has empty strings.\<close>

definition blank_topic_request :: ros_topic_request_header where
  "blank_topic_request = \<lparr>rh_callerid = [], rh_md5sum = [], rt_topic = [], rt_type = [], rt_tcp_nodelay = []\<rparr>"

definition blank_topic_response :: ros_topic_response_header where
  "blank_topic_response = \<lparr>rh_callerid = [], rh_md5sum = [], rt_topic = [], rt_type = [],
     rt_error = [], rt_latching = [], rt_message_definition = []\<rparr>"

definition blank_service_request :: ros_service_request_header where
  "blank_service_request = \<lparr>rh_callerid = [], rh_md5sum = [], rs_persistent = [], rs_service = []\<rparr>"

definition blank_service_response :: ros_service_response_header where
  "blank_service_response = \<lparr>rh_callerid = [], rh_md5sum = [], rs_error = [], rs_request_type = [],
     rs_response_type = [], rs_type = []\<rparr>"

text \<open>What a subscriber and a publisher bring into the handshake.\<close>

record ros_topic_end =
  te_topic :: string
  te_ros_node_name :: string
  te_type_name :: string
  te_md5sum :: string
  te_definition :: string

text \<open>\<open>ConsumeRosProtocol\<close> leaves its result alone, empty here, when the prefix is missing.\<close>

definition ros_rest :: "string \<Rightarrow> string" where
  "ros_rest text = (case ConsumeRosProtocol text of None \<Rightarrow> [] | Some rest \<Rightarrow> rest)"

definition RosTopicRequest_Request :: "ros_topic_end \<Rightarrow> ros_topic_request_header" where
  "RosTopicRequest_Request subscriber =
     \<lparr>rh_callerid = te_ros_node_name subscriber, rh_md5sum = te_md5sum subscriber,
      rt_topic = ros_rest (te_topic subscriber), rt_type = te_type_name subscriber, rt_tcp_nodelay = ''1''\<rparr>"

definition RosTopicResponse_ReceiveRequest :: "ros_topic_end \<Rightarrow> ros_topic_response_header" where
  "RosTopicResponse_ReceiveRequest publisher =
     blank_topic_response\<lparr>rt_topic := ros_rest (te_topic publisher), rh_md5sum := te_md5sum publisher,
       rt_type := te_type_name publisher, rt_message_definition := te_definition publisher, rt_latching := ''0''\<rparr>"

text \<open>Whether an error is sent, and the header sent.\<close>

definition RosTopicResponse_OnReceiveRequest ::
    "ros_topic_response_header \<Rightarrow> status \<Rightarrow> ros_topic_request_header \<Rightarrow> bool \<times> ros_topic_response_header" where
  "RosTopicResponse_OnReceiveRequest header s message =
     (let s' = (if Status_ok s then RosTopicRequestHeader_Validate message
                  (blank_topic_request\<lparr>rt_topic := rt_topic header, rh_md5sum := rh_md5sum header, rt_type := rt_type header\<rparr>)
                else s) in
      if \<not> Status_ok s' then (True, blank_topic_response\<lparr>rt_error := error_message s'\<rparr>) else (False, header))"

text \<open>
  What becomes of the responder once its header is sent: it stays around with the open channel, it
  is deleted, or it hands the channel over and is deleted.
\<close>

datatype responder_end = Stays | Deleted | HandsOver

definition RosTopicResponse_OnResponse :: "bool \<Rightarrow> status \<Rightarrow> responder_end" where
  "RosTopicResponse_OnResponse sent_error s =
     (if Status_ok s then if sent_error then Stays else HandsOver else Deleted)"

definition RosTopicRequest_OnReceiveResponse ::
    "ros_topic_request_header \<Rightarrow> status \<Rightarrow> ros_topic_response_header \<Rightarrow> status" where
  "RosTopicRequest_OnReceiveResponse header s message =
     (if Status_ok s \<and> rt_error message = [] then
        RosTopicResponseHeader_Validate message
          (blank_topic_response\<lparr>rh_md5sum := rh_md5sum header, rt_topic := rt_topic header, rt_type := rt_type header\<rparr>)
      else s)"

text \<open>
  The handshake over a connection that delivers: whether the publisher refused, and the status the
  subscriber's callback gets.
\<close>

definition deserialized_header :: "status \<times> 'h \<Rightarrow> status \<times> 'h" where
  "deserialized_header r = (if Status_ok (fst r) then r else (io_error ERR_FAILED_TO_PARSE, snd r))"

definition ros_topic_handshake ::
    "(header_map \<Rightarrow> 'b) \<Rightarrow> ('b \<Rightarrow> string + header_map) \<Rightarrow> ros_topic_end \<Rightarrow> ros_topic_end \<Rightarrow> bool \<times> status" where
  "ros_topic_handshake ros_write ros_parse subscriber publisher =
     (let request = RosTopicRequest_Request subscriber;
          (s, got) = deserialized_header (ReadFromBuffer ros_parse RosTopicRequestHeader_ReadFromRosHeader
             (WriteToBuffer ros_write RosTopicRequestHeader_WriteToHeaderMap request) blank_topic_request);
          (refused, response) = RosTopicResponse_OnReceiveRequest (RosTopicResponse_ReceiveRequest publisher) s got;
          (s', got') = deserialized_header (ReadFromBuffer ros_parse RosTopicResponseHeader_ReadFromRosHeader
             (WriteToBuffer ros_write RosTopicResponseHeader_WriteToHeaderMap response) blank_topic_response) in
      (refused, RosTopicRequest_OnReceiveResponse request s' got'))"

section \<open>The handshake of a service\<close>

record ros_service_end =
  se_service :: string
  se_ros_node_name :: string
  se_type_name :: string
  se_md5sum :: string
  se_request_type_name :: string
  se_response_type_name :: string

definition RosServiceRequest_Request :: "ros_service_end \<Rightarrow> ros_service_request_header" where
  "RosServiceRequest_Request client =
     \<lparr>rh_callerid = se_ros_node_name client, rh_md5sum = se_md5sum client, rs_persistent = ''1'',
      rs_service = ros_rest (se_service client)\<rparr>"

definition RosServiceResponse_ReceiveRequest :: "ros_service_end \<Rightarrow> ros_service_response_header" where
  "RosServiceResponse_ReceiveRequest server =
     blank_service_response\<lparr>rh_md5sum := se_md5sum server, rs_request_type := se_request_type_name server,
       rs_response_type := se_response_type_name server, rs_type := se_type_name server\<rparr>"

definition RosServiceResponse_OnReceiveRequest ::
    "ros_service_response_header \<Rightarrow> status \<Rightarrow> ros_service_request_header \<Rightarrow> bool \<times> ros_service_response_header" where
  "RosServiceResponse_OnReceiveRequest header s message =
     (let s' = (if Status_ok s
                then RosServiceRequestHeader_Validate message (blank_service_request\<lparr>rh_md5sum := rh_md5sum header\<rparr>)
                else s) in
      if \<not> Status_ok s' then (True, blank_service_response\<lparr>rs_error := error_message s'\<rparr>) else (False, header))"

text \<open>The channel handed over comes with whether the connection is persistent.\<close>

definition RosServiceResponse_OnResponse :: "bool \<Rightarrow> status \<Rightarrow> ros_service_request_header \<Rightarrow> responder_end \<times> bool" where
  "RosServiceResponse_OnResponse sent_error s message =
     (if Status_ok s then if sent_error then (Stays, False) else (HandsOver, rs_persistent message = ''1'')
      else (Deleted, False))"

definition RosServiceRequest_OnReceiveResponse ::
    "ros_service_request_header \<Rightarrow> status \<Rightarrow> ros_service_response_header \<Rightarrow> status" where
  "RosServiceRequest_OnReceiveResponse header s message =
     (if Status_ok s \<and> rs_error message = [] then
        RosServiceResponseHeader_Validate message (blank_service_response\<lparr>rh_md5sum := rh_md5sum header\<rparr>)
      else s)"

definition ros_service_handshake ::
    "(header_map \<Rightarrow> 'b) \<Rightarrow> ('b \<Rightarrow> string + header_map) \<Rightarrow> ros_service_end \<Rightarrow> ros_service_end \<Rightarrow> bool \<times> status" where
  "ros_service_handshake ros_write ros_parse client server =
     (let request = RosServiceRequest_Request client;
          (s, got) = deserialized_header (ReadFromBuffer ros_parse RosServiceRequestHeader_ReadFromRosHeader
             (WriteToBuffer ros_write RosServiceRequestHeader_WriteToHeaderMap request) blank_service_request);
          (refused, response) = RosServiceResponse_OnReceiveRequest (RosServiceResponse_ReceiveRequest server) s got;
          (s', got') = deserialized_header (ReadFromBuffer ros_parse RosServiceResponseHeader_ReadFromRosHeader
             (WriteToBuffer ros_write RosServiceResponseHeader_WriteToHeaderMap response) blank_service_response) in
      (refused, RosServiceRequest_OnReceiveResponse request s' got'))"

end
