(* ===== verification/Felicia_RosProps.thy ===== *)
theory Felicia_RosProps
  imports Felicia_RosHeader
begin

text \<open>
  What holds of the ROS headers and handshakes: headers survive their wire form, a publisher or server
  accepts exactly the requests that fit, and what the requesting end makes of the answer.
\<close>

section \<open>Headers on the wire\<close>

text \<open>What is used of \<open>ros::Header\<close>: it reads back the fields it wrote.\<close>

definition reads_back :: "(header_map \<Rightarrow> 'b) \<Rightarrow> ('b \<Rightarrow> string + header_map) \<Rightarrow> bool" where
  "reads_back ros_write ros_parse \<longleftrightarrow>
     (\<forall>m. fm_ok m \<and> (\<forall>k \<in> fst ` set m. k \<noteq> [] \<and> CHR ''='' \<notin> set k) \<longrightarrow> ros_parse (ros_write m) = Inr m)"

text \<open>The contract of a header class: what it writes it can read into a blank header.\<close>

locale header_class =
  fixes to_map :: "'h \<Rightarrow> header_map \<Rightarrow> header_map"
    and from_map :: "header_map \<Rightarrow> 'h \<Rightarrow> 'h"
    and blank :: 'h
    and plain :: "'h \<Rightarrow> bool"
  assumes from_to: "plain h \<Longrightarrow> from_map (to_map h []) blank = h"
    and to_map_ok: "fm_ok (to_map h [])"
    and to_map_keys: "k \<in> fst ` set (to_map h []) \<Longrightarrow> k \<noteq> [] \<and> CHR ''='' \<notin> set k"
begin

lemma survives:
  "reads_back ros_write ros_parse \<Longrightarrow> plain h \<Longrightarrow>
     deserialized_header (ReadFromBuffer ros_parse from_map (WriteToBuffer ros_write to_map h) blank) = (Status_OK, h)"
  using to_map_ok [of h] to_map_keys [of _ h] from_to [of h]
  by (auto simp: reads_back_def ReadFromBuffer_def WriteToBuffer_def deserialized_header_def)

end

lemmas write_map_defs = Let_def RosHeader_WriteToHeaderMap_def RosTopicHeader_WriteToHeaderMap_def
  RosTopicRequestHeader_WriteToHeaderMap_def RosTopicResponseHeader_WriteToHeaderMap_def
  RosServiceRequestHeader_WriteToHeaderMap_def RosServiceResponseHeader_WriteToHeaderMap_def

lemmas read_map_defs = getValue_def RosHeader_ReadFromRosHeader_def RosTopicHeader_ReadFromRosHeader_def
  RosTopicRequestHeader_ReadFromRosHeader_def RosTopicResponseHeader_ReadFromRosHeader_def
  RosServiceRequestHeader_ReadFromRosHeader_def RosServiceResponseHeader_ReadFromRosHeader_def

lemmas blank_defs = blank_topic_request_def blank_topic_response_def blank_service_request_def blank_service_response_def

lemma fm_insert_set_Nil: "fst ` set (fm_insert_or_assign k v m) \<subseteq> insert k (fst ` set m)"
  by (induction k v m rule: fm_insert_or_assign.induct) auto

lemma key_inserted: "j \<in> fst ` set (fm_insert_or_assign k v m) \<Longrightarrow> j = k \<or> j \<in> fst ` set m"
  using fm_insert_set_Nil [of k v m] by auto

text \<open>An error comes alone: the other fields of a response are written only without one.\<close>

definition plain_topic_response :: "ros_topic_response_header \<Rightarrow> bool" where
  "plain_topic_response h \<longleftrightarrow> (rt_error h \<noteq> [] \<longrightarrow> rt_latching h = [] \<and> rt_message_definition h = [])"

definition plain_service_response :: "ros_service_response_header \<Rightarrow> bool" where
  "plain_service_response h \<longleftrightarrow>
     (rs_error h \<noteq> [] \<longrightarrow> rs_request_type h = [] \<and> rs_response_type h = [] \<and> rs_type h = [])"

interpretation topic_request: header_class RosTopicRequestHeader_WriteToHeaderMap RosTopicRequestHeader_ReadFromRosHeader
    blank_topic_request "\<lambda>_. True"
proof
  show "RosTopicRequestHeader_ReadFromRosHeader (RosTopicRequestHeader_WriteToHeaderMap h []) blank_topic_request = h" for h
    by (cases h) (simp add: write_map_defs read_map_defs blank_defs fm_insert_find fm_insert_ok)
  show "fm_ok (RosTopicRequestHeader_WriteToHeaderMap h [])" for h
    by (simp add: write_map_defs fm_insert_ok)
  show "k \<noteq> [] \<and> CHR ''='' \<notin> set k" if "k \<in> fst ` set (RosTopicRequestHeader_WriteToHeaderMap h [])" for h k
    using that unfolding write_map_defs by (auto dest!: key_inserted)
qed

interpretation topic_response: header_class RosTopicResponseHeader_WriteToHeaderMap RosTopicResponseHeader_ReadFromRosHeader
    blank_topic_response plain_topic_response
proof
  show "RosTopicResponseHeader_ReadFromRosHeader (RosTopicResponseHeader_WriteToHeaderMap h []) blank_topic_response = h"
    if "plain_topic_response h" for h
    using that by (cases h) (simp add: plain_topic_response_def write_map_defs read_map_defs blank_defs fm_insert_find fm_insert_ok)
  show "fm_ok (RosTopicResponseHeader_WriteToHeaderMap h [])" for h
    by (simp add: write_map_defs fm_insert_ok)
  show "k \<noteq> [] \<and> CHR ''='' \<notin> set k" if "k \<in> fst ` set (RosTopicResponseHeader_WriteToHeaderMap h [])" for h k
    using that unfolding write_map_defs by (auto split: if_splits dest!: key_inserted)
qed

interpretation service_request: header_class RosServiceRequestHeader_WriteToHeaderMap RosServiceRequestHeader_ReadFromRosHeader
    blank_service_request "\<lambda>_. True"
proof
  show "RosServiceRequestHeader_ReadFromRosHeader (RosServiceRequestHeader_WriteToHeaderMap h []) blank_service_request = h" for h
    by (cases h) (simp add: write_map_defs read_map_defs blank_defs fm_insert_find fm_insert_ok)
  show "fm_ok (RosServiceRequestHeader_WriteToHeaderMap h [])" for h
    by (simp add: write_map_defs fm_insert_ok)
  show "k \<noteq> [] \<and> CHR ''='' \<notin> set k" if "k \<in> fst ` set (RosServiceRequestHeader_WriteToHeaderMap h [])" for h k
    using that unfolding write_map_defs by (auto dest!: key_inserted)
qed

interpretation service_response: header_class RosServiceResponseHeader_WriteToHeaderMap RosServiceResponseHeader_ReadFromRosHeader
    blank_service_response plain_service_response
proof
  show "RosServiceResponseHeader_ReadFromRosHeader (RosServiceResponseHeader_WriteToHeaderMap h []) blank_service_response = h"
    if "plain_service_response h" for h
    using that by (cases h) (simp add: plain_service_response_def write_map_defs read_map_defs blank_defs fm_insert_find fm_insert_ok)
  show "fm_ok (RosServiceResponseHeader_WriteToHeaderMap h [])" for h
    by (simp add: write_map_defs fm_insert_ok)
  show "k \<noteq> [] \<and> CHR ''='' \<notin> set k" if "k \<in> fst ` set (RosServiceResponseHeader_WriteToHeaderMap h [])" for h k
    using that unfolding write_map_defs by (auto split: if_splits dest!: key_inserted)
qed

section \<open>Validation\<close>

lemma Validate_ok [simp]:
  "Status_ok (EXPECT_NOT_EMPTY nm v rest) \<longleftrightarrow> v \<noteq> [] \<and> Status_ok rest"
  "Status_ok (EXPECT_BOOL nm v rest) \<longleftrightarrow> (v = ''1'' \<or> v = ''0'') \<and> Status_ok rest"
  "Status_ok (EXPECT_MATCH nm v w rest) \<longleftrightarrow> v = w \<and> Status_ok rest"
  by (auto simp: EXPECT_NOT_EMPTY_def EXPECT_BOOL_def EXPECT_MATCH_def)

text \<open>A failing check has a text.\<close>

definition told_why :: "status \<Rightarrow> bool" where
  "told_why s \<longleftrightarrow> (\<not> Status_ok s \<longrightarrow> error_message s \<noteq> [])"

lemma told_why_intros:
  "told_why Status_OK"
  "m \<noteq> [] \<Longrightarrow> told_why (InvalidArgument m)"
  "nm \<noteq> [] \<Longrightarrow> told_why rest \<Longrightarrow> told_why (EXPECT_NOT_EMPTY nm v rest)"
  "nm \<noteq> [] \<Longrightarrow> told_why rest \<Longrightarrow> told_why (EXPECT_BOOL nm v rest)"
  "nm \<noteq> [] \<Longrightarrow> told_why rest \<Longrightarrow> told_why (EXPECT_MATCH nm v w rest)"
  by (auto simp: told_why_def EXPECT_NOT_EMPTY_def EXPECT_BOOL_def EXPECT_MATCH_def make_error_def)

lemma told_why_RosHeader: "told_why (RosHeader_Validate h e)"
  by (auto simp: RosHeader_Validate_def intro!: told_why_intros)

lemma told_why_requests:
  "told_why (RosTopicRequestHeader_Validate h e)" "told_why (RosServiceRequestHeader_Validate g f)"
  unfolding RosTopicRequestHeader_Validate_def RosTopicHeader_Validate_def RosServiceRequestHeader_Validate_def
  by (intro told_why_intros told_why_RosHeader; simp)+

text \<open>When the two md5 sums fit: they are equal, or one end takes anything.\<close>

definition md5_fits :: "string \<Rightarrow> string \<Rightarrow> bool" where
  "md5_fits a b \<longleftrightarrow> a \<noteq> [] \<and> (a = b \<or> a = ''*'' \<or> b = ''*'')"

lemma RosHeader_Validate_ok:
  "Status_ok (RosHeader_Validate h e) \<longleftrightarrow> rh_callerid h \<noteq> [] \<and> md5_fits (rh_md5sum h) (rh_md5sum e)"
  by (auto simp: RosHeader_Validate_def md5_fits_def)

section \<open>The two ends\<close>

lemma topic_handshake_steps:
  assumes "reads_back ros_write ros_parse"
  shows "ros_topic_handshake ros_write ros_parse subscriber publisher =
    (let (refused, response) = RosTopicResponse_OnReceiveRequest (RosTopicResponse_ReceiveRequest publisher) Status_OK
           (RosTopicRequest_Request subscriber) in
     (refused, RosTopicRequest_OnReceiveResponse (RosTopicRequest_Request subscriber) Status_OK response))"
proof -
  obtain refused response where r: "RosTopicResponse_OnReceiveRequest (RosTopicResponse_ReceiveRequest publisher) Status_OK
      (RosTopicRequest_Request subscriber) = (refused, response)" by fastforce
  then have "plain_topic_response response"
    by (auto simp: RosTopicResponse_OnReceiveRequest_def RosTopicResponse_ReceiveRequest_def plain_topic_response_def blank_defs
        Let_def split: if_splits)
  with r topic_request.survives [OF assms] topic_response.survives [OF assms] show ?thesis
    by (simp add: ros_topic_handshake_def)
qed

lemma service_handshake_steps:
  assumes "reads_back ros_write ros_parse"
  shows "ros_service_handshake ros_write ros_parse client server =
    (let (refused, response) = RosServiceResponse_OnReceiveRequest (RosServiceResponse_ReceiveRequest server) Status_OK
           (RosServiceRequest_Request client) in
     (refused, RosServiceRequest_OnReceiveResponse (RosServiceRequest_Request client) Status_OK response))"
proof -
  obtain refused response where r: "RosServiceResponse_OnReceiveRequest (RosServiceResponse_ReceiveRequest server) Status_OK
      (RosServiceRequest_Request client) = (refused, response)" by fastforce
  then have "plain_service_response response"
    by (auto simp: RosServiceResponse_OnReceiveRequest_def RosServiceResponse_ReceiveRequest_def plain_service_response_def blank_defs
        Let_def split: if_splits)
  with r service_request.survives [OF assms] service_response.survives [OF assms] show ?thesis
    by (simp add: ros_service_handshake_def)
qed

section \<open>Properties\<close>

text \<open>
  ROS headers survive: written to the buffer of a message and read into a blank header at the
  other end, a request header and a response header of a topic or a service is what it was, if an
  error comes without the fields that are not sent with it.
\<close>

theorem ros_headers_survive:
  assumes "reads_back ros_write ros_parse" "plain_topic_response tr" "plain_service_response sr"
  shows "ReadFromBuffer ros_parse RosTopicRequestHeader_ReadFromRosHeader
       (WriteToBuffer ros_write RosTopicRequestHeader_WriteToHeaderMap tq) blank_topic_request = (Status_OK, tq) \<and>
     ReadFromBuffer ros_parse RosTopicResponseHeader_ReadFromRosHeader
       (WriteToBuffer ros_write RosTopicResponseHeader_WriteToHeaderMap tr) blank_topic_response = (Status_OK, tr) \<and>
     ReadFromBuffer ros_parse RosServiceRequestHeader_ReadFromRosHeader
       (WriteToBuffer ros_write RosServiceRequestHeader_WriteToHeaderMap sq) blank_service_request = (Status_OK, sq) \<and>
     ReadFromBuffer ros_parse RosServiceResponseHeader_ReadFromRosHeader
       (WriteToBuffer ros_write RosServiceResponseHeader_WriteToHeaderMap sr) blank_service_response = (Status_OK, sr)"
  using topic_request.survives [OF assms(1), of tq] topic_response.survives [OF assms(1,2)]
    service_request.survives [OF assms(1), of sq] service_response.survives [OF assms(1,3)]
  by (auto simp: deserialized_header_def io_error_def split: if_splits)

lemma reads_back_identity: "reads_back (\<lambda>m. m) Inr"
  by (simp add: reads_back_def)

theorem ros_headers_survive_witness:
  "ReadFromBuffer Inr RosTopicResponseHeader_ReadFromRosHeader
     (WriteToBuffer (\<lambda>m. m) RosTopicResponseHeader_WriteToHeaderMap (blank_topic_response\<lparr>rt_error := ''no''\<rparr>))
     blank_topic_response = (Status_OK, blank_topic_response\<lparr>rt_error := ''no''\<rparr>)"
proof -
  have "plain_topic_response (blank_topic_response\<lparr>rt_error := ''no''\<rparr>)" "plain_service_response blank_service_response"
    by (simp_all add: plain_topic_response_def plain_service_response_def blank_defs)
  from ros_headers_survive [OF reads_back_identity this] show ?thesis by blast
qed

text \<open>
  A publisher accepts exactly the subscribers that fit: they name themselves, ask for the same
  topic and type, neither empty, and their md5 sums agree or one of them is a star.  Every other
  request is refused with a text.
\<close>

theorem ros_publisher_accepts_fitting:
  "fst (RosTopicResponse_OnReceiveRequest (RosTopicResponse_ReceiveRequest publisher) Status_OK message) =
    (\<not> (rh_callerid message \<noteq> [] \<and> md5_fits (rh_md5sum message) (te_md5sum publisher) \<and>
       rt_topic message \<noteq> [] \<and> rt_topic message = ros_rest (te_topic publisher) \<and>
       rt_type message \<noteq> [] \<and> rt_type message = te_type_name publisher \<and> rt_tcp_nodelay message \<in> {''0'', ''1''})) \<and>
   (fst (RosTopicResponse_OnReceiveRequest (RosTopicResponse_ReceiveRequest publisher) Status_OK message) =
    (rt_error (snd (RosTopicResponse_OnReceiveRequest (RosTopicResponse_ReceiveRequest publisher) Status_OK message)) \<noteq> []))"
proof -
  let ?e = "blank_topic_request\<lparr>rt_topic := ros_rest (te_topic publisher), rh_md5sum := te_md5sum publisher, rt_type := te_type_name publisher\<rparr>"
  let ?s = "RosTopicRequestHeader_Validate message ?e"
  have run: "RosTopicResponse_OnReceiveRequest (RosTopicResponse_ReceiveRequest publisher) Status_OK message =
      (if \<not> Status_ok ?s then (True, blank_topic_response\<lparr>rt_error := error_message ?s\<rparr>)
       else (False, RosTopicResponse_ReceiveRequest publisher))"
    by (simp add: RosTopicResponse_OnReceiveRequest_def RosTopicResponse_ReceiveRequest_def blank_defs Let_def)
  have ok: "Status_ok ?s \<longleftrightarrow> rh_callerid message \<noteq> [] \<and> md5_fits (rh_md5sum message) (te_md5sum publisher) \<and>
       rt_topic message \<noteq> [] \<and> rt_topic message = ros_rest (te_topic publisher) \<and>
       rt_type message \<noteq> [] \<and> rt_type message = te_type_name publisher \<and> rt_tcp_nodelay message \<in> {''0'', ''1''}"
    by (auto simp: RosTopicRequestHeader_Validate_def RosTopicHeader_Validate_def RosHeader_Validate_ok blank_defs)
  have "\<not> Status_ok ?s \<Longrightarrow> error_message ?s \<noteq> []" using told_why_requests(1) [of message ?e] by (simp add: told_why_def)
  moreover have "rt_error (RosTopicResponse_ReceiveRequest publisher) = []"
    by (simp add: RosTopicResponse_ReceiveRequest_def blank_defs)
  ultimately show ?thesis unfolding run ok [symmetric] by simp
qed

text \<open>
  Between a publisher and a subscriber of felicia the outcome is turned around: the
  subscriber is told OK exactly if the publisher refused.  A refusal is not looked at, and an
  acceptance fails the subscriber's check, because the publisher never names itself.  The same holds of
  services.
\<close>

theorem ros_handshake_outcome_inverted:
  assumes "reads_back ros_write ros_parse"
  shows "Status_ok (snd (ros_topic_handshake ros_write ros_parse subscriber publisher)) =
      fst (ros_topic_handshake ros_write ros_parse subscriber publisher) \<and>
    Status_ok (snd (ros_service_handshake ros_write ros_parse client server)) =
      fst (ros_service_handshake ros_write ros_parse client server)"
proof
  show "Status_ok (snd (ros_topic_handshake ros_write ros_parse subscriber publisher)) =
      fst (ros_topic_handshake ros_write ros_parse subscriber publisher)"
    using told_why_requests(1) [of "RosTopicRequest_Request subscriber" "blank_topic_request\<lparr>rt_topic := ros_rest (te_topic publisher),
        rh_md5sum := te_md5sum publisher, rt_type := te_type_name publisher\<rparr>"]
    by (simp add: topic_handshake_steps [OF assms] RosTopicResponse_OnReceiveRequest_def RosTopicRequest_OnReceiveResponse_def
        RosTopicResponse_ReceiveRequest_def RosTopicResponseHeader_Validate_def RosTopicHeader_Validate_def RosHeader_Validate_ok
        blank_defs told_why_def Let_def)
  show "Status_ok (snd (ros_service_handshake ros_write ros_parse client server)) =
      fst (ros_service_handshake ros_write ros_parse client server)"
    using told_why_requests(2) [of "RosServiceRequest_Request client" "blank_service_request\<lparr>rh_md5sum := se_md5sum server\<rparr>"]
    by (simp add: service_handshake_steps [OF assms] RosServiceResponse_OnReceiveRequest_def RosServiceRequest_OnReceiveResponse_def
        RosServiceResponse_ReceiveRequest_def RosServiceResponseHeader_Validate_def RosHeader_Validate_ok blank_defs told_why_def
        Let_def)
qed

definition demo_ros_end :: ros_topic_end where
  "demo_ros_end = \<lparr>te_topic = ''ros://chatter'', te_ros_node_name = ''/listener'', te_type_name = ''std_msgs/String'',
     te_md5sum = ''992c'', te_definition = ''string data''\<rparr>"

definition demo_ros_service :: ros_service_end where
  "demo_ros_service = \<lparr>se_service = ''ros://add'', se_ros_node_name = ''/caller'', se_type_name = ''Add'', se_md5sum = ''6a2e'',
     se_request_type_name = ''AddRequest'', se_response_type_name = ''AddResponse''\<rparr>"

theorem ros_handshake_outcome_inverted_witness:
  "fst (ros_topic_handshake (\<lambda>m. m) Inr demo_ros_end demo_ros_end) = False \<and>
   \<not> Status_ok (snd (ros_topic_handshake (\<lambda>m. m) Inr demo_ros_end demo_ros_end))"
proof -
  have "fst (ros_topic_handshake (\<lambda>m. m) Inr demo_ros_end demo_ros_end) = False" by code_simp
  with ros_handshake_outcome_inverted [OF reads_back_identity, of demo_ros_end demo_ros_end demo_ros_service demo_ros_service]
  show ?thesis by simp
qed

end
