(* ===== verification/Felicia_RosService.thy ===== *)
theory Felicia_RosService
  imports Felicia_RosProps Felicia_Communication
begin

text \<open>
  Services over ROS connections: \<open>core/message/ros_rpc_header.cc\<close>, the server side of
  \<open>core/rpc/ros_server_impl.h\<close>, \<open>ros_service_manager.h\<close> and \<open>ros_service_handler.h\<close>, and the client of
  \<open>core/rpc/ros_client_impl.h\<close> as \<open>ServiceClient\<close> uses it.  The completion of a read, of a write, of a
  handshake or of a call into the service is an event of its own; \<open>None\<close> is undefined behaviour.
\<close>

section \<open>The header of a response\<close>

definition rpc_header_size :: nat where
  "rpc_header_size = 5"

definition RosRpcHeader_AttachHeader :: "bool \<Rightarrow> bytes \<Rightarrow> message_io_error + bytes" where
  "RosRpcHeader_AttachHeader ok content =
     (let sz = to_int32 (length content) in
      Inr ((if ok then 1 else 0) # int_to_bytes sz @ take (nat (sint sz)) content))"

text \<open>The flag, the offset and the size of the message; a byte that is no \<open>bool\<close> is undefined.\<close>

definition RosRpcHeader_ParseHeader :: "bytes \<Rightarrow> (bool \<times> nat \<times> int) option" where
  "RosRpcHeader_ParseHeader buf =
     (if rpc_header_size \<le> length buf \<and> (hd buf = 0 \<or> hd buf = 1)
      then Some (hd buf = 1, rpc_header_size, sint (int_from_bytes (tl buf))) else None)"

definition rpc_receive_header :: receive_header where
  "rpc_receive_header = \<lparr>hdr_size = int rpc_header_size,
     hdr_parse = (\<lambda>buf. map_option (\<lambda>(ok, offset, sz). Inr (offset, sz)) (RosRpcHeader_ParseHeader buf))\<rparr>"

section \<open>The handlers of a server\<close>

text \<open>A handler is known by a number, in the order they were made.\<close>

datatype handler_phase = AwaitsRequest | InService | SendsResponse

record ros_handler =
  hd_id :: nat
  hd_use_ros_protocol :: bool
  hd_persistent :: bool
  hd_phase :: handler_phase

text \<open>
  The calls into the service whose callback has not run yet are kept in \<open>in_service\<close>; the callback holds a
  bare pointer to its handler.  The responses sent are recorded with their flag.
\<close>

record ros_server =
  handlers :: "ros_handler list"
  made_handlers :: nat
  srv_ros_service :: bool
  listening :: bool
  handshakes :: nat
  in_service :: "nat list"
  responses :: "(nat \<times> bool) list"

definition new_ros_server :: "bool \<Rightarrow> ros_server" where
  "new_ros_server ros = \<lparr>handlers = [], made_handlers = 0, srv_ros_service = ros, listening = True, handshakes = 0,
     in_service = [], responses = []\<rparr>"

definition find_handler :: "nat \<Rightarrow> ros_server \<Rightarrow> ros_handler option" where
  "find_handler i s = find (\<lambda>h. hd_id h = i) (handlers s)"

definition set_phase :: "nat \<Rightarrow> handler_phase \<Rightarrow> ros_server \<Rightarrow> ros_server" where
  "set_phase i ph s = s\<lparr>handlers := map (\<lambda>h. if hd_id h = i then h\<lparr>hd_phase := ph\<rparr> else h) (handlers s)\<rparr>"

definition AddHandler :: "bool \<Rightarrow> bool \<Rightarrow> ros_server \<Rightarrow> ros_server" where
  "AddHandler ros persistent s =
     s\<lparr>handlers := handlers s @ [\<lparr>hd_id = made_handlers s, hd_use_ros_protocol = ros, hd_persistent = persistent,
         hd_phase = AwaitsRequest\<rparr>],
       made_handlers := made_handlers s + 1\<rparr>"

text \<open>\<open>erase(it, handlers_.end())\<close>: everything from the handler to the end goes.\<close>

definition RemoveHandler :: "nat \<Rightarrow> ros_server \<Rightarrow> ros_server" where
  "RemoveHandler i s = s\<lparr>handlers := takeWhile (\<lambda>h. hd_id h \<noteq> i) (handlers s)\<rparr>"

definition ClearHandlers :: "ros_server \<Rightarrow> ros_server" where
  "ClearHandlers s = s\<lparr>handlers := []\<rparr>"

definition Handler_OnReceiveRequest :: "nat \<Rightarrow> status \<Rightarrow> ros_server \<Rightarrow> ros_server" where
  "Handler_OnReceiveRequest i st s =
     (if Status_ok st then (set_phase i InService s)\<lparr>in_service := in_service s @ [i]\<rparr> else RemoveHandler i s)"

definition SendResponse :: "nat \<Rightarrow> bool \<Rightarrow> ros_server \<Rightarrow> ros_server" where
  "SendResponse i ok s = (set_phase i SendsResponse s)\<lparr>responses := responses s @ [(i, ok)]\<rparr>"

definition OnHandleRequest :: "nat \<Rightarrow> status \<Rightarrow> ros_server \<Rightarrow> ros_server option" where
  "OnHandleRequest i st s = (if find_handler i s = None then None else Some (SendResponse i (Status_ok st) s))"

definition OnSendResponse :: "nat \<Rightarrow> status \<Rightarrow> ros_server \<Rightarrow> ros_server" where
  "OnSendResponse i st s =
     (if Status_ok st \<and> (case find_handler i s of None \<Rightarrow> False | Some h \<Rightarrow> hd_persistent h)
      then set_phase i AwaitsRequest s else RemoveHandler i s)"

definition RosServer_OnAccept :: "bool \<Rightarrow> ros_server \<Rightarrow> ros_server" where
  "RosServer_OnAccept ok s =
     (if ok then if srv_ros_service s then s\<lparr>handshakes := handshakes s + 1\<rparr> else AddHandler False True s else s)"

definition OnRosServiceHandshake :: "bool \<Rightarrow> ros_server \<Rightarrow> ros_server" where
  "OnRosServiceHandshake persistent s = AddHandler True persistent (s\<lparr>handshakes := handshakes s - 1\<rparr>)"

definition RosServer_Shutdown :: "ros_server \<Rightarrow> ros_server" where
  "RosServer_Shutdown s = ClearHandlers (s\<lparr>listening := False\<rparr>)"

datatype rsrv_event =
    SrvAccepted bool
  | SrvHandshaken bool
  | SrvRequest nat status
  | SrvHandled nat status
  | SrvSent nat status
  | SrvShutdown

definition in_phase :: "nat \<Rightarrow> handler_phase \<Rightarrow> ros_server \<Rightarrow> bool" where
  "in_phase i ph s \<longleftrightarrow> (case find_handler i s of None \<Rightarrow> False | Some h \<Rightarrow> hd_phase h = ph)"

fun rsrv_exec :: "rsrv_event \<Rightarrow> ros_server \<Rightarrow> ros_server option" where
  "rsrv_exec (SrvAccepted ok) s = Some (if listening s then RosServer_OnAccept ok s else s)"
| "rsrv_exec (SrvHandshaken persistent) s = Some (if 0 < handshakes s then OnRosServiceHandshake persistent s else s)"
| "rsrv_exec (SrvRequest i st) s = Some (if in_phase i AwaitsRequest s then Handler_OnReceiveRequest i st s else s)"
| "rsrv_exec (SrvHandled i st) s =
     (if i \<in> set (in_service s) then OnHandleRequest i st (s\<lparr>in_service := remove1 i (in_service s)\<rparr>) else Some s)"
| "rsrv_exec (SrvSent i st) s = Some (if in_phase i SendsResponse s then OnSendResponse i st s else s)"
| "rsrv_exec SrvShutdown s = Some (RosServer_Shutdown s)"

inductive rsrv_step :: "ros_server \<Rightarrow> ros_server \<Rightarrow> bool" where
  "rsrv_exec ev s = Some s' \<Longrightarrow> rsrv_step s s'"

inductive_cases rsrv_stepE: "rsrv_step s s'"

primrec rsrv_run :: "rsrv_event list \<Rightarrow> ros_server \<Rightarrow> ros_server option" where
  "rsrv_run [] s = Some s"
| "rsrv_run (ev # evs) s = Option.bind (rsrv_exec ev s) (rsrv_run evs)"

section \<open>The client\<close>

text \<open>
  The channel is absent, connecting, in the handshake, or ready.  A call is known by its callback.
  The fields at the end record the calls made, the requests written, in order, and the callbacks run.
\<close>

datatype rc_phase = NoChannel | Connecting | Handshaking | Ready

record ros_client =
  rc_phase :: rc_phase
  rc_ros_service :: bool
  rc_IsConnected :: bool
  call_callback :: "nat option"
  rc_sending :: bool
  rc_receiving :: bool
  rc_calls :: "nat list"
  rc_requests :: "nat list"
  rc_replies :: "(nat \<times> status) list"

definition new_ros_client :: "bool \<Rightarrow> ros_client" where
  "new_ros_client ros = \<lparr>rc_phase = NoChannel, rc_ros_service = ros, rc_IsConnected = False, call_callback = None,
     rc_sending = False, rc_receiving = False, rc_calls = [], rc_requests = [], rc_replies = []\<rparr>"

definition rc_reply :: "nat \<Rightarrow> status \<Rightarrow> ros_client \<Rightarrow> ros_client" where
  "rc_reply cb st c = c\<lparr>rc_replies := rc_replies c @ [(cb, st)]\<rparr>"

definition RosClient_Shutdown :: "ros_client \<Rightarrow> ros_client" where
  "RosClient_Shutdown c = c\<lparr>rc_phase := NoChannel, rc_IsConnected := False, call_callback := None,
     rc_sending := False, rc_receiving := False\<rparr>"

text \<open>A channel sends one message and receives one message at a time; a second one breaks its contract.\<close>

definition SendRequest :: "nat \<Rightarrow> ros_client \<Rightarrow> ros_client option" where
  "SendRequest request c =
     (if rc_sending c then None else Some (c\<lparr>rc_sending := True, rc_requests := rc_requests c @ [request]\<rparr>))"

definition MaybeSendRequest :: "ros_client \<Rightarrow> ros_client option" where
  "MaybeSendRequest c =
     (if rc_phase c = NoChannel then None
      else case (if rc_IsConnected c then call_callback c else None) of
        None \<Rightarrow> Some c
      | Some cb \<Rightarrow> SendRequest cb c)"

text \<open>
  A new channel replaces the old one, with what was on its way there.  The callback of an earlier \<open>Connect\<close> is kept while that
  one is connecting or in the handshake, and must be gone.
\<close>

definition connect_callback_is_null :: "ros_client \<Rightarrow> bool" where
  "connect_callback_is_null c \<longleftrightarrow> rc_phase c = NoChannel \<or> rc_phase c = Ready"

definition RosClient_Connect :: "ros_client \<Rightarrow> ros_client option" where
  "RosClient_Connect c =
     (if \<not> connect_callback_is_null c then None
      else Some (c\<lparr>rc_phase := Connecting, rc_IsConnected := False, rc_sending := False, rc_receiving := False\<rparr>))"

definition RosClient_Call :: "nat \<Rightarrow> ros_client \<Rightarrow> ros_client option" where
  "RosClient_Call cb c =
     (if call_callback c \<noteq> None then Some (rc_reply cb (Aborted ''You already called and it is waiting for response.'') c)
      else if rc_phase c = NoChannel then Some (rc_reply cb (Aborted ''channel is not connected.'') c)
      else MaybeSendRequest (c\<lparr>call_callback := Some cb\<rparr>))"

text \<open>The callback of \<open>Connect\<close> is \<open>ServiceClient::OnConnect\<close>, which calls \<open>Run\<close>.\<close>

definition RosClient_Run :: "ros_client \<Rightarrow> ros_client option" where
  "RosClient_Run c = MaybeSendRequest c"

definition RosClient_OnConnect :: "status \<Rightarrow> ros_client \<Rightarrow> ros_client option" where
  "RosClient_OnConnect st c =
     (if \<not> Status_ok st then Some (RosClient_Shutdown c)
      else let c1 = c\<lparr>rc_IsConnected := True\<rparr> in
        if rc_ros_service c then Some (c1\<lparr>rc_phase := Handshaking\<rparr>) else RosClient_Run (c1\<lparr>rc_phase := Ready\<rparr>))"

definition RosClient_OnRosServiceHandshake :: "status \<Rightarrow> ros_client \<Rightarrow> ros_client option" where
  "RosClient_OnRosServiceHandshake st c =
     (if \<not> Status_ok st then Some (RosClient_Shutdown c) else RosClient_Run (c\<lparr>rc_phase := Ready\<rparr>))"

text \<open>During the handshake the channel is receiving already.\<close>

definition ReceiveResponse :: "ros_client \<Rightarrow> ros_client option" where
  "ReceiveResponse c = (if rc_receiving c \<or> rc_phase c = Handshaking then None else Some (c\<lparr>rc_receiving := True\<rparr>))"

definition run_call_callback :: "status \<Rightarrow> ros_client \<Rightarrow> ros_client option" where
  "run_call_callback st c = map_option (\<lambda>cb. rc_reply cb st (c\<lparr>call_callback := None\<rparr>)) (call_callback c)"

definition OnSendRequest :: "status \<Rightarrow> ros_client \<Rightarrow> ros_client option" where
  "OnSendRequest st c = (if Status_ok st then ReceiveResponse c else run_call_callback st c)"

definition RosClient_OnReceiveResponse :: "status \<Rightarrow> bool \<Rightarrow> ros_client \<Rightarrow> ros_client option" where
  "RosClient_OnReceiveResponse st header_ok c =
     run_call_callback (if \<not> Status_ok st then st else if header_ok then Status_OK else Unknown ''Failed to rpc call.'') c"

datatype rc_event =
    RcConnect
  | RcConnected status
  | RcHandshaken status
  | RcCall nat
  | RcSent status
  | RcReceived status bool
  | RcLost
  | RcShutdown

fun rc_exec :: "rc_event \<Rightarrow> ros_client \<Rightarrow> ros_client option" where
  "rc_exec RcConnect c = RosClient_Connect c"
| "rc_exec (RcConnected st) c = (if rc_phase c = Connecting then RosClient_OnConnect st c else Some c)"
| "rc_exec (RcHandshaken st) c = (if rc_phase c = Handshaking then RosClient_OnRosServiceHandshake st c else Some c)"
| "rc_exec (RcCall cb) c = RosClient_Call cb (c\<lparr>rc_calls := rc_calls c @ [cb]\<rparr>)"
| "rc_exec (RcSent st) c = (if rc_sending c then OnSendRequest st (c\<lparr>rc_sending := False\<rparr>) else Some c)"
| "rc_exec (RcReceived st header_ok) c =
     (if rc_receiving c then RosClient_OnReceiveResponse st header_ok (c\<lparr>rc_receiving := False\<rparr>) else Some c)"
| "rc_exec RcLost c = Some (c\<lparr>rc_IsConnected := False\<rparr>)"
| "rc_exec RcShutdown c = Some (RosClient_Shutdown c)"

inductive rc_step :: "ros_client \<Rightarrow> ros_client \<Rightarrow> bool" where
  "rc_exec ev c = Some c' \<Longrightarrow> rc_step c c'"

inductive_cases rc_stepE: "rc_step c c'"

primrec rc_run :: "rc_event list \<Rightarrow> ros_client \<Rightarrow> ros_client option" where
  "rc_run [] c = Some c"
| "rc_run (ev # evs) c = Option.bind (rc_exec ev c) (rc_run evs)"

end
