(* ===== verification/Felicia_RosServiceProps.thy ===== *)
theory Felicia_RosServiceProps
  imports Felicia_RosService "HOL-Library.Multiset"
begin

text \<open>
  What holds of services over ROS connections: responses survive with their flag, what the removal of a
  handler takes with it, and that the calls of a client are answered at most once.
\<close>

section \<open>Responses on the wire\<close>

lemma RosRpcHeader_attached:
  assumes "fits content"
  shows "RosRpcHeader_AttachHeader ok content =
      Inr (((if ok then 1 else 0) # int_to_bytes (to_int32 (length content))) @ content)"
    and "RosRpcHeader_ParseHeader (((if ok then 1 else 0) # int_to_bytes (to_int32 (length content))) @ junk) =
      Some (ok, rpc_header_size, int (length content))"
proof -
  have n: "sint (to_int32 (length content)) = int (length content)" using assms by (simp add: sint_to_int32 fits_def)
  then show "RosRpcHeader_AttachHeader ok content =
      Inr (((if ok then 1 else 0) # int_to_bytes (to_int32 (length content))) @ content)"
    by (simp add: RosRpcHeader_AttachHeader_def Let_def)
  show "RosRpcHeader_ParseHeader (((if ok then 1 else 0) # int_to_bytes (to_int32 (length content))) @ junk) =
      Some (ok, rpc_header_size, int (length content))"
    using n by (simp add: RosRpcHeader_ParseHeader_def rpc_header_size_def int_bytes_roundtrip)
qed

lemma Channel_Send_whole:
  assumes "room (send_buffer ch) (length txt)" "length txt < 2 ^ 31"
  shows "\<exists>ch'. Channel_Send txt ch = Some (Sending txt, ch')"
proof -
  obtain b where "SetEnoughCapacityIfDynamic (int (length txt)) (ChannelBuffer_Reset (send_buffer ch)) = (True, b)"
      "cb_offset b = 0" "length txt \<le> length (cb_data b)"
    using Reset_SetEnough [OF assms(1)] by blast
  with assms(2) show ?thesis by (simp add: Channel_Send_def sint_to_int32 write_at_enough SendInternalBuffer_def)
qed

context stream_socket begin

lemmas stream_receive_with_header = receive_with_header

end

section \<open>The server\<close>

definition rsrv_ok :: "ros_server \<Rightarrow> bool" where
  "rsrv_ok s \<longleftrightarrow> sorted_wrt (<) (map hd_id (handlers s)) \<and> (\<forall>h \<in> set (handlers s). hd_id h < made_handlers s) \<and>
     distinct (in_service s) \<and> (\<forall>i \<in> set (in_service s). i < made_handlers s) \<and>
     (\<forall>h \<in> set (handlers s). hd_phase h = InService \<longleftrightarrow> hd_id h \<in> set (in_service s))"

lemma find_handler_Some: "find_handler i s = Some h \<Longrightarrow> h \<in> set (handlers s) \<and> hd_id h = i"
  by (auto simp: find_handler_def find_Some_iff)

lemma find_handler_None: "find_handler i s = None \<longleftrightarrow> i \<notin> hd_id ` set (handlers s)"
  by (auto simp: find_handler_def find_None_iff)

lemma handler_ids_inj:
  "rsrv_ok s \<Longrightarrow> h \<in> set (handlers s) \<Longrightarrow> k \<in> set (handlers s) \<Longrightarrow> hd_id h = hd_id k \<Longrightarrow> h = k"
  using strict_sorted_iff [of "map hd_id (handlers s)"] by (auto simp: rsrv_ok_def distinct_map dest: inj_onD)

lemma set_phase_simps [simp]:
  "map hd_id (handlers (set_phase i ph s)) = map hd_id (handlers s)" "in_service (set_phase i ph s) = in_service s"
  "made_handlers (set_phase i ph s) = made_handlers s"
  by (simp_all add: set_phase_def comp_def if_distrib cong: if_cong)

lemma set_phase_mem:
  "h' \<in> set (handlers (set_phase i ph s)) \<Longrightarrow>
     \<exists>h \<in> set (handlers s). hd_id h' = hd_id h \<and> hd_phase h' = (if hd_id h = i then ph else hd_phase h)"
  by (auto simp: set_phase_def)

lemma takeWhile_sorted_ids:
  "sorted_wrt (<) (map hd_id hs) \<Longrightarrow> i \<in> hd_id ` set hs \<Longrightarrow> takeWhile (\<lambda>h. hd_id h \<noteq> i) hs = filter (\<lambda>h. hd_id h < i) hs"
proof (induction hs)
  case (Cons h hs)
  show ?case
  proof (cases "hd_id h = i")
    case True
    with Cons.prems(1) have "filter (\<lambda>h. hd_id h < i) hs = []" by (auto simp: filter_empty_conv)
    with True show ?thesis by simp
  next
    case False
    with Cons.prems have "i \<in> hd_id ` set hs" "hd_id h < i" by auto
    with Cons.IH Cons.prems(1) False show ?thesis by simp
  qed
qed simp

lemma rsrv_ok_sub:
  "rsrv_ok s \<Longrightarrow> sorted_wrt (<) (map hd_id hs) \<Longrightarrow> set hs \<subseteq> set (handlers s) \<Longrightarrow> rsrv_ok (s\<lparr>handlers := hs\<rparr>)"
  by (auto simp: rsrv_ok_def)

lemma sorted_takeWhile: "sorted_wrt P xs \<Longrightarrow> sorted_wrt P (takeWhile Q xs)"
  by (metis sorted_wrt_append takeWhile_dropWhile_id)

lemma map_takeWhile_ids: "map hd_id (takeWhile (\<lambda>h. hd_id h \<noteq> i) hs) = takeWhile (\<lambda>j. j \<noteq> i) (map hd_id hs)"
  by (simp add: takeWhile_map comp_def)

lemma RemoveHandler_ok [inv_intros]: "rsrv_ok s \<Longrightarrow> rsrv_ok (RemoveHandler i s)"
  unfolding RemoveHandler_def
  by (rule rsrv_ok_sub) (auto simp: rsrv_ok_def map_takeWhile_ids intro: sorted_takeWhile dest: set_takeWhileD)

lemma AddHandler_ok [inv_intros]: "rsrv_ok s \<Longrightarrow> rsrv_ok (AddHandler ros persistent s)"
  by (fastforce simp: rsrv_ok_def AddHandler_def sorted_wrt_append)

lemma set_phase_ok:
  assumes "rsrv_ok s" "(ph = InService) = (i \<in> set is)" "set is - {i} = set (in_service s) - {i}" "distinct is"
    "i \<in> set is \<Longrightarrow> i < made_handlers s"
  shows "rsrv_ok ((set_phase i ph s)\<lparr>in_service := is\<rparr>)"
proof -
  have "h \<in> set (handlers (set_phase i ph s)) \<Longrightarrow> hd_id h < made_handlers s" for h
    using assms(1) by (auto simp: rsrv_ok_def dest!: set_phase_mem)
  moreover have "(hd_phase h = InService) = (hd_id h \<in> set is)" if h: "h \<in> set (handlers (set_phase i ph s))" for h
  proof -
    obtain k where k: "k \<in> set (handlers s)" "hd_id h = hd_id k" "hd_phase h = (if hd_id k = i then ph else hd_phase k)"
      using set_phase_mem [OF h] by blast
    have "(hd_phase k = InService) = (hd_id k \<in> set (in_service s))" using assms(1) k(1) by (simp add: rsrv_ok_def)
    with k(2,3) assms(2,3) show ?thesis by (cases "hd_id k = i") auto
  qed
  moreover have "j \<in> set is \<Longrightarrow> j < made_handlers s" for j using assms by (cases "j = i") (auto simp: rsrv_ok_def)
  ultimately show ?thesis using assms(1,4) by (simp add: rsrv_ok_def)
qed

lemma in_phase_handler: "in_phase i ph s \<Longrightarrow> \<exists>h \<in> set (handlers s). hd_id h = i \<and> hd_phase h = ph"
  by (auto simp: in_phase_def split: option.splits dest: find_handler_Some)

lemma rsrv_exec_ok:
  assumes "rsrv_ok s" "rsrv_exec ev s = Some s'"
  shows "rsrv_ok s'"
proof (cases ev)
  case (SrvAccepted ok)
  with assms AddHandler_ok [of s False True] show ?thesis
    by (auto simp: RosServer_OnAccept_def split: if_splits) (simp_all add: rsrv_ok_def)
next
  case (SrvHandshaken persistent)
  have "rsrv_ok (s\<lparr>handshakes := n\<rparr>)" for n using assms(1) by (simp add: rsrv_ok_def)
  with SrvHandshaken assms show ?thesis by (auto simp: OnRosServiceHandshake_def intro: AddHandler_ok split: if_splits)
next
  case (SrvRequest i st)
  show ?thesis
  proof (cases "in_phase i AwaitsRequest s")
    case True
    then obtain h where h: "h \<in> set (handlers s)" "hd_id h = i" "hd_phase h = AwaitsRequest" by (auto dest: in_phase_handler)
    then have "i \<notin> set (in_service s)" "i < made_handlers s" using assms(1) by (auto simp: rsrv_ok_def)
    then have "rsrv_ok ((set_phase i InService s)\<lparr>in_service := in_service s @ [i]\<rparr>)"
      using assms(1) by (intro set_phase_ok) (auto simp: rsrv_ok_def)
    with SrvRequest assms True show ?thesis by (auto simp: Handler_OnReceiveRequest_def RemoveHandler_ok)
  qed (use SrvRequest assms in simp)
next
  case (SrvHandled i st)
  have resp: "rsrv_ok (t\<lparr>responses := rs\<rparr>) = rsrv_ok t" for t rs by (simp add: rsrv_ok_def)
  have "rsrv_ok ((set_phase i SendsResponse s)\<lparr>in_service := remove1 i (in_service s)\<rparr>)"
    using assms(1) by (intro set_phase_ok) (auto simp: rsrv_ok_def set_remove1_eq)
  moreover have "set_phase i SendsResponse (s\<lparr>in_service := is\<rparr>) = (set_phase i SendsResponse s)\<lparr>in_service := is\<rparr>" for "is"
    by (simp add: set_phase_def)
  ultimately show ?thesis
    using SrvHandled assms by (auto simp: OnHandleRequest_def SendResponse_def resp split: if_splits)
next
  case (SrvSent i st)
  show ?thesis
  proof (cases "in_phase i SendsResponse s")
    case True
    then obtain h where h: "h \<in> set (handlers s)" "hd_id h = i" "hd_phase h = SendsResponse" by (auto dest: in_phase_handler)
    then have "i \<notin> set (in_service s)" using assms(1) by (auto simp: rsrv_ok_def)
    then have "rsrv_ok ((set_phase i AwaitsRequest s)\<lparr>in_service := in_service s\<rparr>)"
      using assms(1) by (intro set_phase_ok) (auto simp: rsrv_ok_def)
    moreover have "(set_phase i AwaitsRequest s)\<lparr>in_service := in_service s\<rparr> = set_phase i AwaitsRequest s"
      by (simp add: set_phase_def)
    ultimately show ?thesis using SrvSent assms True by (auto simp: OnSendResponse_def RemoveHandler_ok)
  qed (use SrvSent assms in simp)
next
  case SrvShutdown
  with assms show ?thesis by (auto simp: RosServer_Shutdown_def ClearHandlers_def rsrv_ok_def)
qed

interpretation ros_server: inductive_invariant "\<lambda>s. s = new_ros_server ros" rsrv_step rsrv_ok for ros
proof
  show "s = new_ros_server ros \<Longrightarrow> rsrv_ok s" for s by (simp add: rsrv_ok_def new_ros_server_def)
  show "rsrv_ok s \<Longrightarrow> rsrv_step s s' \<Longrightarrow> rsrv_ok s'" for s s' by (auto elim!: rsrv_stepE intro: rsrv_exec_ok)
qed

section \<open>The client\<close>

text \<open>A call during the handshake is not calm: the channel is in use.\<close>

fun calm :: "rc_event \<Rightarrow> ros_client \<Rightarrow> bool" where
  "calm (RcCall cb) c \<longleftrightarrow> rc_phase c \<noteq> Handshaking"
| "calm ev c \<longleftrightarrow> True"

inductive calm_step :: "ros_client \<Rightarrow> ros_client \<Rightarrow> bool" where
  "calm ev c \<Longrightarrow> rc_exec ev c = Some c' \<Longrightarrow> calm_step c c'"

inductive_cases calm_stepE: "calm_step c c'"

definition owed :: "ros_client \<Rightarrow> nat multiset" where
  "owed c = mset (map fst (rc_replies c)) + (case call_callback c of None \<Rightarrow> {#} | Some cb \<Rightarrow> {#cb#})"

definition rc_ok :: "ros_client \<Rightarrow> bool" where
  "rc_ok c \<longleftrightarrow> (rc_sending c \<or> rc_receiving c \<longrightarrow> rc_phase c = Ready \<and> call_callback c \<noteq> None) \<and>
     \<not> (rc_sending c \<and> rc_receiving c) \<and> (rc_IsConnected c \<longrightarrow> rc_phase c = Handshaking \<or> rc_phase c = Ready) \<and> owed c \<subseteq># mset (rc_calls c)"

lemmas rc_defs = RosClient_Connect_def connect_callback_is_null_def RosClient_OnConnect_def RosClient_OnRosServiceHandshake_def RosClient_Call_def
  RosClient_Run_def MaybeSendRequest_def SendRequest_def OnSendRequest_def ReceiveResponse_def RosClient_OnReceiveResponse_def
  run_call_callback_def RosClient_Shutdown_def rc_reply_def

lemma subseteq_mset_add: "A \<subseteq># B \<Longrightarrow> A \<subseteq># add_mset x B"
  by (metis add_mset_add_single mset_subset_eq_add_left subset_mset.order_trans)

lemma subseteq_mset_drop: "add_mset x A \<subseteq># B \<Longrightarrow> A \<subseteq># B"
  by (meson mset_subset_eq_insertD subset_mset.less_imp_le)

lemma calm_exec:
  assumes "rc_ok c" "calm ev c"
  shows "(rc_exec ev c = None \<longleftrightarrow> ev = RcConnect \<and> rc_phase c \<in> {Connecting, Handshaking}) \<and>
    (\<forall>c'. rc_exec ev c = Some c' \<longrightarrow> rc_ok c')"
proof (cases ev)
  case (RcCall cb)
  with assms show ?thesis
    by (cases "call_callback c") (auto simp: rc_ok_def rc_defs owed_def intro: subseteq_mset_add)
next
  case RcConnect
  with assms show ?thesis by (cases "rc_phase c") (auto simp: rc_ok_def rc_defs owed_def)
next
  case (RcConnected st)
  with assms show ?thesis by (auto simp: rc_ok_def rc_defs owed_def Let_def split: option.splits dest: subseteq_mset_drop)
next
  case (RcHandshaken st)
  with assms show ?thesis by (auto simp: rc_ok_def rc_defs owed_def Let_def split: option.splits dest: subseteq_mset_drop)
next
  case (RcSent st)
  with assms show ?thesis by (auto simp: rc_ok_def rc_defs owed_def split: option.splits)
next
  case (RcReceived st header_ok)
  with assms show ?thesis by (auto simp: rc_ok_def rc_defs owed_def split: option.splits)
qed (use assms in \<open>auto simp: rc_ok_def rc_defs owed_def split: option.splits dest: subseteq_mset_drop\<close>)

interpretation ros_client: inductive_invariant "\<lambda>c. c = new_ros_client ros" calm_step rc_ok for ros
proof
  show "c = new_ros_client ros \<Longrightarrow> rc_ok c" for c by (simp add: rc_ok_def new_ros_client_def owed_def)
  show "rc_ok c \<Longrightarrow> calm_step c c' \<Longrightarrow> rc_ok c'" for c c'
    by (auto elim!: calm_stepE) (metis calm_exec)
qed

section \<open>Properties\<close>

text \<open>
  C36.  A response survives with its flag: what a handler sends over a stream socket under a ROS header is
  what the client receives, and the flag the client reads from the header is the one the handler set.  The
  reads of the socket may give the bytes in pieces of any size or wait; the condition is that a read that had to wait
  completes with all the bytes asked for, since the code does not resume one that completes with fewer.
\<close>

theorem ros_service_response_survives:
  assumes "delivers Read incoming" "Serialize m = Inr content" "Deserialize content = Inr m"
    and "length content + rpc_header_size < 2 ^ 31"
    and "\<not> HasNativeHeader (channel sd)" "cb_is_dynamic (send_buffer (channel sd))"
    and "\<not> ShouldReceiveMessageWithHeader receiver" "cb_is_dynamic (receive_buffer receiver)"
  shows "\<exists>wire sd'. SendMessage Serialize m (sd\<lparr>attach_header_callback := Some (RosRpcHeader_AttachHeader ok)\<rparr>) = Some (Sending wire, sd') \<and>
    RosRpcHeader_ParseHeader wire = Some (ok, rpc_header_size, int (length content)) \<and>
    (\<forall>s rest. incoming s = wire @ rest \<longrightarrow>
      (\<exists>receiver' s'. ReceiveMessage (socket_ReadAsync err_text Read) Deserialize rpc_receive_header receiver s =
         Some ((Status_OK, Some m), receiver', s') \<and> incoming s' = rest))"
proof -
  let ?h = "(if ok then 1 else 0) # int_to_bytes (to_int32 (length content))"
  have fits: "fits content" using assms(4) by (simp add: fits_def sizeof_Header_def rpc_header_size_def)
  have "length (?h @ content) < 2 ^ 31" using assms(4) by (simp add: rpc_header_size_def int_to_bytes_def)
  then obtain ch' where send: "Channel_Send (?h @ content) (channel sd) = Some (Sending (?h @ content), ch')"
    using Channel_Send_whole [of "channel sd" "?h @ content"] assms(6) by (auto simp: room_def)
  have "\<exists>receiver' s'. ReceiveMessage (socket_ReadAsync err_text Read) Deserialize rpc_receive_header receiver s =
      Some ((Status_OK, Some m), receiver', s') \<and> incoming s' = rest" if "incoming s = (?h @ content) @ rest" for s rest
  proof (rule stream_socket.stream_receive_with_header [OF stream_socket.intro [OF assms(1)], where s = s and header = ?h and content = content and
        rest = rest and hdr = rpc_receive_header and offset = rpc_header_size and ch = receiver and Deserialize = Deserialize
        and ErrorToString = err_text])
    show "hdr_parse rpc_receive_header (?h @ junk) = Some (Inr (rpc_header_size, int (length content)))" for junk
      using RosRpcHeader_attached(2) [OF fits, of ok junk] by (simp add: rpc_receive_header_def)
  qed (use that assms(3,7,8) in \<open>auto simp: rpc_receive_header_def rpc_header_size_def int_to_bytes_def room_def Deserialized_def\<close>)
  moreover have "SendMessage Serialize m (sd\<lparr>attach_header_callback := Some (RosRpcHeader_AttachHeader ok)\<rparr>) =
      Some (Sending (?h @ content), sd\<lparr>attach_header_callback := None, channel := ch'\<rparr>)"
    using assms(2,5) send RosRpcHeader_attached(1) [OF fits, of ok] by (simp add: SendMessage_def sender_Send_def)
  ultimately show ?thesis using RosRpcHeader_attached(2) [OF fits, of ok content] by blast
qed

theorem ros_service_response_survives_witness:
  "\<exists>wire sd' receiver' s'. SendMessage SerializedMessage_Serialize \<lparr>serialized = [7, 8]\<rparr>
       (demo_sender\<lparr>attach_header_callback := Some (RosRpcHeader_AttachHeader False)\<rparr>) = Some (Sending wire, sd') \<and>
     ReceiveMessage (socket_ReadAsync (\<lambda>_. []) pieces_Read) SerializedMessage_Deserialize rpc_receive_header demo_channel
       ([1, 3], wire @ [9]) = Some ((Status_OK, Some \<lparr>serialized = [7, 8]\<rparr>), receiver', s') \<and> snd s' = [9]"
proof -
  have "SerializedMessage_Serialize \<lparr>serialized = [7, 8]\<rparr> = Inr [7, 8]" "SerializedMessage_Deserialize [7, 8] = Inr \<lparr>serialized = [7, 8]\<rparr>"
    by (simp_all add: SerializedMessage_Serialize_def SerializedMessage_Deserialize_def)
  with ros_service_response_survives [of pieces_Read snd SerializedMessage_Serialize "\<lparr>serialized = [7, 8]\<rparr>" "[7, 8]"
      SerializedMessage_Deserialize demo_sender demo_channel False "\<lambda>_. []", OF pieces_delivers]
  obtain wire sd' where w: "SendMessage SerializedMessage_Serialize \<lparr>serialized = [7, 8]\<rparr>
       (demo_sender\<lparr>attach_header_callback := Some (RosRpcHeader_AttachHeader False)\<rparr>) = Some (Sending wire, sd')"
    and r: "\<forall>s rest. snd s = wire @ rest \<longrightarrow> (\<exists>receiver' s'. ReceiveMessage (socket_ReadAsync (\<lambda>_. []) pieces_Read)
       SerializedMessage_Deserialize rpc_receive_header demo_channel s =
         Some ((Status_OK, Some \<lparr>serialized = [7, 8]\<rparr>), receiver', s') \<and> snd s' = rest)"
    by (auto simp: rpc_header_size_def demo_channel_defs)
  from r [rule_format, of "([1, 3], wire @ [9])" "[9]"] w show ?thesis by auto
qed

text \<open>
  Removing a handler leaves exactly the handlers made before it: the connections accepted later go
  with it, in every state the server can reach.
\<close>

theorem removed_handler_takes_later_ones:
  assumes "reachable (\<lambda>s. s = new_ros_server ros) rsrv_step s" "i \<in> hd_id ` set (handlers s)"
  shows "handlers (RemoveHandler i s) = filter (\<lambda>h. hd_id h < i) (handlers s)"
  using ros_server.inv_reachable [OF assms(1)] takeWhile_sorted_ids [OF _ assms(2)] by (simp add: rsrv_ok_def RemoveHandler_def)

lemma rsrv_run_reachable:
  "rsrv_run evs s = Some s' \<Longrightarrow> reachable init rsrv_step s \<Longrightarrow> reachable init rsrv_step s'"
proof (induction evs arbitrary: s)
  case (Cons ev evs)
  then obtain s1 where "rsrv_exec ev s = Some s1" "rsrv_run evs s1 = Some s'" by (auto simp: bind_eq_Some_conv)
  with Cons show ?case by (blast intro: reachable.move rsrv_step.intros)
qed simp

theorem removed_handler_takes_later_ones_witness:
  "\<exists>s. rsrv_run (replicate 3 (SrvAccepted True)) (new_ros_server False) = Some s \<and>
     map hd_id (handlers s) = [0, 1, 2] \<and> map hd_id (handlers (RemoveHandler 1 s)) = [0]"
proof -
  have "map_option (\<lambda>s. map hd_id (handlers s)) (rsrv_run (replicate 3 (SrvAccepted True)) (new_ros_server False)) = Some [0, 1, 2]"
    by code_simp
  then obtain s where s: "rsrv_run (replicate 3 (SrvAccepted True)) (new_ros_server False) = Some s" "map hd_id (handlers s) = [0, 1, 2]"
    by auto
  then have "1 \<in> hd_id ` set (handlers s)" by (metis list.set_intros(1,2) list.set_map)
  from removed_handler_takes_later_ones [OF rsrv_run_reachable [OF s(1) reachable.start] this, of False]
  have "map hd_id (handlers (RemoveHandler 1 s)) = filter (\<lambda>j. j < 1) (map hd_id (handlers s))" by (simp add: filter_map comp_def)
  with s show ?thesis by simp
qed

text \<open>
  If such a later connection is in the middle of a call, the end of the call reaches a deleted handler.
\<close>

lemma service_outlives_handler:
  "rsrv_run [SrvAccepted True, SrvAccepted True, SrvRequest 1 Status_OK, SrvRequest 0 (NetworkError [])] (new_ros_server False) \<noteq> None \<and>
   rsrv_run [SrvAccepted True, SrvAccepted True, SrvRequest 1 Status_OK, SrvRequest 0 (NetworkError []), SrvHandled 1 Status_OK]
     (new_ros_server False) = None"
  by code_simp

text \<open>
  C35.  As long as no call is made during a handshake, the one event that breaks a check of the client is a
  second \<open>Connect\<close> while the first is connecting or in its handshake; the client has at most one request on its
  way, and no call is answered more often than it was made.
\<close>

theorem ros_client_answers_at_most_once:
  assumes "reachable (\<lambda>c. c = new_ros_client ros) calm_step c" "calm ev c"
  shows "(rc_exec ev c = None \<longleftrightarrow> ev = RcConnect \<and> rc_phase c \<in> {Connecting, Handshaking}) \<and> \<not> (rc_sending c \<and> rc_receiving c) \<and>
    mset (map fst (rc_replies c)) \<subseteq># mset (rc_calls c)"
proof -
  have ok: "rc_ok c" using ros_client.inv_reachable [OF assms(1)] .
  then have "mset (map fst (rc_replies c)) \<subseteq># mset (rc_calls c)"
    unfolding rc_ok_def owed_def using mset_subset_eq_add_left subset_mset.order_trans by blast
  with ok calm_exec [OF ok assms(2)] show ?thesis by (auto simp: rc_ok_def)
qed

theorem ros_client_answers_at_most_once_witness:
  "\<exists>c. rc_exec RcConnect (new_ros_client True) = Some c \<and> rc_exec (RcCall 4) c \<noteq> None \<and> rc_exec RcConnect c = None \<and>
     mset (map fst (rc_replies c)) \<subseteq># mset (rc_calls c)"
proof -
  let ?c = "(new_ros_client True)\<lparr>rc_phase := Connecting\<rparr>"
  have c: "rc_exec RcConnect (new_ros_client True) = Some ?c" by (simp add: rc_defs new_ros_client_def)
  have "reachable (\<lambda>c. c = new_ros_client True) calm_step (new_ros_client True)" by (simp add: reachable.start)
  moreover have "calm_step (new_ros_client True) ?c" using calm_step.intros [of RcConnect] c by simp
  ultimately have "reachable (\<lambda>c. c = new_ros_client True) calm_step ?c" by (rule reachable.move)
  from ros_client_answers_at_most_once [OF this, of "RcCall 4"] ros_client_answers_at_most_once [OF this, of RcConnect] c
  show ?thesis by auto
qed

text \<open>A call during the handshake makes the client receive twice on its channel.\<close>

lemma call_in_handshake_undefined:
  "rc_run [RcConnect, RcConnected Status_OK, RcCall 4] (new_ros_client True) \<noteq> None \<and>
   rc_run [RcConnect, RcConnected Status_OK, RcCall 4, RcSent Status_OK] (new_ros_client True) = None"
  by code_simp

end
