(* ===== verification/Felicia_Net.thy ===== *)
theory Felicia_Net
  imports Felicia_MessageIO Felicia_ChannelDef
begin

text \<open>
  The error numbers of \<open>third_party/chromium/net/base/net_error_list.h\<close> that the socket code compares with.
\<close>

definition ERR_IO_PENDING :: int where "ERR_IO_PENDING = -1"
definition ERR_FAILED :: int where "ERR_FAILED = -2"
definition ERR_INVALID_ARGUMENT :: int where "ERR_INVALID_ARGUMENT = -4"
definition ERR_UNEXPECTED :: int where "ERR_UNEXPECTED = -9"
definition ERR_SOCKET_NOT_CONNECTED :: int where "ERR_SOCKET_NOT_CONNECTED = -15"
definition ERR_CONNECTION_CLOSED :: int where "ERR_CONNECTION_CLOSED = -100"
definition ERR_CONNECTION_RESET :: int where "ERR_CONNECTION_RESET = -101"
definition ERR_SSL_PROTOCOL_ERROR :: int where "ERR_SSL_PROTOCOL_ERROR = -107"
definition ERR_MSG_TOO_BIG :: int where "ERR_MSG_TOO_BIG = -142"
definition net_ERR_WS_PROTOCOL_ERROR :: int where "net_ERR_WS_PROTOCOL_ERROR = -145"
definition ERR_INVALID_AUTH_CREDENTIALS :: int where "ERR_INVALID_AUTH_CREDENTIALS = -338"

lemmas net_errors = net_OK_def ERR_IO_PENDING_def ERR_FAILED_def ERR_UNEXPECTED_def ERR_SOCKET_NOT_CONNECTED_def
  ERR_CONNECTION_CLOSED_def ERR_CONNECTION_RESET_def net_ERR_WS_PROTOCOL_ERROR_def ERR_INVALID_AUTH_CREDENTIALS_def
  ERR_INVALID_ARGUMENT_def ERR_SSL_PROTOCOL_ERROR_def ERR_MSG_TOO_BIG_def

end
