(* ===== verification/Felicia_ServerSocket.thy ===== *)
theory Felicia_ServerSocket
  imports Felicia_Net
begin

text \<open>
  Accepting connections: \<open>core/channel/socket/tcp_server_socket.cc\<close> and \<open>unix_domain_server_socket.cc\<close>, which differ only in the
  check of the peer's credentials, and \<open>core/channel/tcp_channel.cc\<close> on top of the first, with and without SSL.  What
  \<open>accept\<close> answers at once is a parameter, given the number of the call; a pending one completes with an event.  A
  connection is a number.  \<open>None\<close> is a broken \<open>DCHECK\<close> or a loop that does not end.
\<close>

section \<open>Server sockets\<close>

datatype accept_answer = AcPending | AcError int | AcSocket nat

text \<open>
  The callbacks that are set, whether an accept is pending, and the accepted sockets.  The other fields record the calls
  of \<open>accept\<close>, the connections that arrived, those that were refused, what the accept callback was told (OK for which
  connection, or the error), and what intercepting callbacks were given.
\<close>

record acceptor =
  ac_callback :: bool
  ac_intercept :: bool
  ac_waiting :: bool
  accepted_sockets :: "nat list"
  ac_calls :: nat
  ac_arrived :: "nat list"
  ac_refused :: "nat list"
  ac_told :: "(int + nat) list"
  ac_handed :: "(int + nat) list"

definition new_acceptor :: acceptor where
  "new_acceptor = \<lparr>ac_callback = False, ac_intercept = False, ac_waiting = False, accepted_sockets = [], ac_calls = 0,
     ac_arrived = [], ac_refused = [], ac_told = [], ac_handed = []\<rparr>"

definition HandleAccpetResult :: "accept_answer \<Rightarrow> acceptor \<Rightarrow> acceptor" where
  "HandleAccpetResult r s =
     (case r of
        AcPending \<Rightarrow> s
      | AcError e \<Rightarrow>
          if ac_intercept s then s\<lparr>ac_intercept := False, ac_handed := ac_handed s @ [Inl e]\<rparr>
          else if ac_callback s then s\<lparr>ac_told := ac_told s @ [Inl e]\<rparr>
          else s
      | AcSocket i \<Rightarrow>
          if ac_intercept s then s\<lparr>ac_intercept := False, ac_handed := ac_handed s @ [Inr i]\<rparr>
          else let s1 = s\<lparr>accepted_sockets := accepted_sockets s @ [i]\<rparr> in
            if ac_callback s then s1\<lparr>ac_told := ac_told s1 @ [Inr i]\<rparr> else s1)"

text \<open>The check of the credentials; a TCP server socket has none.\<close>

definition authenticate :: "(nat \<Rightarrow> bool) option \<Rightarrow> accept_answer \<Rightarrow> accept_answer" where
  "authenticate auth r =
     (case (auth, r) of (Some ok, AcSocket i) \<Rightarrow> if ok i then r else AcError ERR_INVALID_AUTH_CREDENTIALS | _ \<Rightarrow> r)"

definition note_arrival :: "(nat \<Rightarrow> bool) option \<Rightarrow> accept_answer \<Rightarrow> acceptor \<Rightarrow> acceptor" where
  "note_arrival auth r s =
     (case r of
        AcSocket i \<Rightarrow> s\<lparr>ac_arrived := ac_arrived s @ [i],
          ac_refused := (if authenticate auth r = r then ac_refused s else ac_refused s @ [i])\<rparr>
      | _ \<Rightarrow> s)"

definition handle_result :: "(nat \<Rightarrow> bool) option \<Rightarrow> accept_answer \<Rightarrow> acceptor \<Rightarrow> acceptor" where
  "handle_result auth r s = HandleAccpetResult (authenticate auth r) (note_arrival auth r s)"

definition DoAccept :: "(nat \<Rightarrow> accept_answer) \<Rightarrow> (nat \<Rightarrow> bool) option \<Rightarrow> acceptor \<Rightarrow> accept_answer \<times> acceptor" where
  "DoAccept Accept auth s =
     (let result = Accept (ac_calls s); s1 = s\<lparr>ac_calls := ac_calls s + 1\<rparr> in
      (result, if result = AcPending then s1\<lparr>ac_waiting := True\<rparr> else handle_result auth result s1))"

fun is_socket :: "accept_answer \<Rightarrow> bool" where
  "is_socket (AcSocket i) = True"
| "is_socket r = False"

partial_function (option) DoAcceptLoop :: "(nat \<Rightarrow> accept_answer) \<Rightarrow> (nat \<Rightarrow> bool) option \<Rightarrow> acceptor \<Rightarrow> acceptor option" where
  "DoAcceptLoop Accept auth s =
     (case DoAccept Accept auth s of (result, s1) \<Rightarrow> if is_socket result then DoAcceptLoop Accept auth s1 else Some s1)"

declare DoAcceptLoop.simps [code]

definition AcceptLoop :: "(nat \<Rightarrow> accept_answer) \<Rightarrow> (nat \<Rightarrow> bool) option \<Rightarrow> acceptor \<Rightarrow> acceptor option" where
  "AcceptLoop Accept auth s =
     (if ac_callback s \<or> ac_intercept s then None else DoAcceptLoop Accept auth (s\<lparr>ac_callback := True\<rparr>))"

definition AcceptOnceIntercept :: "(nat \<Rightarrow> accept_answer) \<Rightarrow> (nat \<Rightarrow> bool) option \<Rightarrow> acceptor \<Rightarrow> acceptor option" where
  "AcceptOnceIntercept Accept auth s =
     (if ac_callback s \<or> ac_intercept s then None else Some (snd (DoAccept Accept auth (s\<lparr>ac_intercept := True\<rparr>))))"

definition Server_OnAccept :: "(nat \<Rightarrow> accept_answer) \<Rightarrow> (nat \<Rightarrow> bool) option \<Rightarrow> accept_answer \<Rightarrow> acceptor \<Rightarrow> acceptor option" where
  "Server_OnAccept Accept auth result s =
     (let s1 = handle_result auth result (s\<lparr>ac_waiting := False\<rparr>) in
      if ac_callback s1 then DoAcceptLoop Accept auth s1 else Some s1)"

datatype ac_event = AcLoop | AcOnce | AcDone accept_answer

fun ac_exec :: "(nat \<Rightarrow> accept_answer) \<Rightarrow> (nat \<Rightarrow> bool) option \<Rightarrow> ac_event \<Rightarrow> acceptor \<Rightarrow> acceptor option" where
  "ac_exec Accept auth AcLoop s = AcceptLoop Accept auth s"
| "ac_exec Accept auth AcOnce s = AcceptOnceIntercept Accept auth s"
| "ac_exec Accept auth (AcDone result) s =
     (if ac_waiting s \<and> result \<noteq> AcPending then Server_OnAccept Accept auth result s else Some s)"

inductive ac_step :: "(nat \<Rightarrow> accept_answer) \<Rightarrow> (nat \<Rightarrow> bool) option \<Rightarrow> acceptor \<Rightarrow> acceptor \<Rightarrow> bool" for Accept auth where
  "ac_exec Accept auth ev s = Some s' \<Longrightarrow> ac_step Accept auth s s'"

inductive_cases ac_stepE: "ac_step Accept auth s s'"

section \<open>TCPChannel\<close>

text \<open>
  The channel gives the server socket its own \<open>OnAccept\<close>, always with \<open>AcceptOnceIntercept\<close>.  \<open>tc_waiting\<close>: an accept is
  pending; \<open>tc_ssl\<close>: the connection in the SSL handshake.
\<close>

record tcp_channel =
  tc_use_ssl :: bool
  tc_accept_callback :: bool
  tc_intercept_callback :: bool
  tc_waiting :: bool
  tc_ssl :: "nat option"
  tc_accepted_sockets :: "nat list"
  tc_calls :: nat
  tc_told :: "(int + nat) list"
  tc_handed :: "(int + nat) list"
  tc_once :: nat

definition new_tcp_channel :: "bool \<Rightarrow> tcp_channel" where
  "new_tcp_channel ssl = \<lparr>tc_use_ssl = ssl, tc_accept_callback = False, tc_intercept_callback = False, tc_waiting = False, tc_ssl = None,
     tc_accepted_sockets = [], tc_calls = 0, tc_told = [], tc_handed = [], tc_once = 0\<rparr>"

definition HasReceivers :: "tcp_channel \<Rightarrow> bool" where
  "HasReceivers s \<longleftrightarrow> length (tc_accepted_sockets s) > 0"

text \<open>The state after \<open>OnAccept\<close>, and whether it calls \<open>DoAcceptLoop\<close> in the end.\<close>

definition tc_OnAccept :: "accept_answer \<Rightarrow> tcp_channel \<Rightarrow> (tcp_channel \<times> bool) option" where
  "tc_OnAccept r s =
     (case r of
        AcPending \<Rightarrow> None
      | AcSocket i \<Rightarrow>
          if tc_use_ssl s then if tc_ssl s = None then Some (s\<lparr>tc_ssl := Some i\<rparr>, False) else None
          else if tc_accept_callback s
          then Some (s\<lparr>tc_accepted_sockets := tc_accepted_sockets s @ [i], tc_told := tc_told s @ [Inr i]\<rparr>, False)
          else if tc_intercept_callback s then Some (s\<lparr>tc_intercept_callback := False, tc_handed := tc_handed s @ [Inr i]\<rparr>, False)
          else None
      | AcError e \<Rightarrow>
          if tc_accept_callback s then Some (s\<lparr>tc_told := tc_told s @ [Inl e]\<rparr>, True)
          else if tc_intercept_callback s then Some (s\<lparr>tc_intercept_callback := False, tc_handed := tc_handed s @ [Inl e]\<rparr>, False)
          else None)"

text \<open>\<open>DoAcceptLoop\<close> with what the server socket does: it accepts once and runs \<open>OnAccept\<close> when there is a result.\<close>

partial_function (option) tc_DoAcceptLoop :: "(nat \<Rightarrow> accept_answer) \<Rightarrow> tcp_channel \<Rightarrow> tcp_channel option" where
  "tc_DoAcceptLoop Accept s =
     (let r = Accept (tc_calls s); s1 = s\<lparr>tc_calls := tc_calls s + 1\<rparr> in
      if r = AcPending then Some (s1\<lparr>tc_waiting := True\<rparr>)
      else Option.bind (tc_OnAccept r s1) (\<lambda>(s2, again). if again then tc_DoAcceptLoop Accept s2 else Some s2))"

declare tc_DoAcceptLoop.simps [code]

definition tc_AcceptLoop :: "(nat \<Rightarrow> accept_answer) \<Rightarrow> tcp_channel \<Rightarrow> tcp_channel option" where
  "tc_AcceptLoop Accept s =
     (if tc_accept_callback s \<or> tc_intercept_callback s then None else tc_DoAcceptLoop Accept (s\<lparr>tc_accept_callback := True\<rparr>))"

definition tc_AcceptOnceIntercept :: "(nat \<Rightarrow> accept_answer) \<Rightarrow> tcp_channel \<Rightarrow> tcp_channel option" where
  "tc_AcceptOnceIntercept Accept s =
     (if tc_accept_callback s \<or> tc_intercept_callback s then None
      else tc_DoAcceptLoop Accept (s\<lparr>tc_intercept_callback := True, tc_once := tc_once s + 1\<rparr>))"

definition AddClientChannel :: "nat \<Rightarrow> tcp_channel \<Rightarrow> tcp_channel" where
  "AddClientChannel i s = s\<lparr>tc_accepted_sockets := tc_accepted_sockets s @ [i]\<rparr>"

definition tc_accept_done :: "(nat \<Rightarrow> accept_answer) \<Rightarrow> accept_answer \<Rightarrow> tcp_channel \<Rightarrow> tcp_channel option" where
  "tc_accept_done Accept r s =
     Option.bind (tc_OnAccept r (s\<lparr>tc_waiting := False\<rparr>)) (\<lambda>(s2, again). if again then tc_DoAcceptLoop Accept s2 else Some s2)"

definition OnSSLHandshake :: "(nat \<Rightarrow> accept_answer) \<Rightarrow> int \<Rightarrow> tcp_channel \<Rightarrow> tcp_channel option" where
  "OnSSLHandshake Accept st s =
     (case tc_ssl s of
        None \<Rightarrow> None
      | Some i \<Rightarrow>
          let s0 = s\<lparr>tc_ssl := None\<rparr> in
          if st \<ge> 0 \<and> \<not> tc_accept_callback s then
            if tc_intercept_callback s then Some (s0\<lparr>tc_intercept_callback := False, tc_handed := tc_handed s @ [Inr i]\<rparr>) else None
          else let s1 = (if st \<ge> 0 then s0\<lparr>tc_accepted_sockets := tc_accepted_sockets s @ [i]\<rparr> else s0) in
            if tc_accept_callback s then tc_DoAcceptLoop Accept (s1\<lparr>tc_told := tc_told s @ [if st \<ge> 0 then Inr i else Inl st]\<rparr>)
            else if tc_intercept_callback s then Some (s1\<lparr>tc_intercept_callback := False, tc_handed := tc_handed s @ [Inl st]\<rparr>)
            else None)"

datatype tc_event = TcAcceptLoop | TcOnce | TcAdd nat | TcAccepted accept_answer | TcHandshake int

fun tc_exec :: "(nat \<Rightarrow> accept_answer) \<Rightarrow> tc_event \<Rightarrow> tcp_channel \<Rightarrow> tcp_channel option" where
  "tc_exec Accept TcAcceptLoop s = tc_AcceptLoop Accept s"
| "tc_exec Accept TcOnce s = tc_AcceptOnceIntercept Accept s"
| "tc_exec Accept (TcAdd i) s = Some (AddClientChannel i s)"
| "tc_exec Accept (TcAccepted r) s = (if tc_waiting s \<and> r \<noteq> AcPending then tc_accept_done Accept r s else Some s)"
| "tc_exec Accept (TcHandshake st) s = (if tc_ssl s \<noteq> None then OnSSLHandshake Accept st s else Some s)"

inductive tc_step :: "(nat \<Rightarrow> accept_answer) \<Rightarrow> tcp_channel \<Rightarrow> tcp_channel \<Rightarrow> bool" for Accept where
  "tc_exec Accept ev s = Some s' \<Longrightarrow> tc_step Accept s s'"

inductive_cases tc_stepE: "tc_step Accept s s'"

end
