(* ===== verification/Felicia_ServerProps.thy ===== *)
theory Felicia_ServerProps
  imports Felicia_ServerSocket "HOL-Library.Multiset"
begin

text \<open>
  A server socket accounts for every connection, and keeps accepting as long as no accept fails at once.  The accept
  loop of a TCP channel goes on with SSL and ends with the first connection without.
\<close>

section \<open>Server sockets\<close>

fun connections :: "(int + nat) list \<Rightarrow> nat list" where
  "connections [] = []"
| "connections (Inr i # rs) = i # connections rs"
| "connections (Inl e # rs) = connections rs"

lemma connections_append [simp]: "connections (rs @ qs) = connections rs @ connections qs"
  by (induction rs rule: connections.induct) auto

definition passes :: "(nat \<Rightarrow> bool) option \<Rightarrow> nat \<Rightarrow> bool" where
  "passes auth i = (case auth of None \<Rightarrow> True | Some ok \<Rightarrow> ok i)"

definition ac_ok :: "(nat \<Rightarrow> bool) option \<Rightarrow> acceptor \<Rightarrow> bool" where
  "ac_ok auth s \<longleftrightarrow> \<not> (ac_callback s \<and> ac_intercept s) \<and> (ac_waiting s \<longrightarrow> ac_callback s \<or> ac_intercept s) \<and>
     mset (ac_arrived s) = mset (accepted_sockets s) + mset (connections (ac_handed s)) + mset (ac_refused s) \<and>
     accepted_sockets s = connections (ac_told s) \<and>
     (\<forall>i \<in> set (accepted_sockets s @ connections (ac_handed s)). passes auth i)"

lemma handle_result_ok:
  assumes "ac_ok auth s" "r \<noteq> AcPending" "ac_callback s \<or> ac_intercept s" "\<not> ac_waiting s"
  shows "ac_ok auth (handle_result auth r s)" "ac_callback (handle_result auth r s) = ac_callback s"
    "ac_waiting (handle_result auth r s) = ac_waiting s" "\<not> ac_intercept (handle_result auth r s)"
    "ac_calls (handle_result auth r s) = ac_calls s"
  using assms
  by (cases r; cases auth;
      auto simp: ac_ok_def handle_result_def HandleAccpetResult_def authenticate_def note_arrival_def passes_def Let_def)+

definition armed :: "(nat \<Rightarrow> accept_answer) \<Rightarrow> acceptor \<Rightarrow> bool" where
  "armed Accept s \<longleftrightarrow> (ac_intercept s \<longrightarrow> ac_waiting s) \<and> ((\<forall>n e. Accept n \<noteq> AcError e) \<longrightarrow> ac_callback s \<longrightarrow> ac_waiting s)"

lemma DoAccept_ok:
  assumes "ac_ok auth s" "ac_callback s \<or> ac_intercept s" "\<not> ac_waiting s" "DoAccept Accept auth s = (r, s')"
  shows "ac_ok auth s'" "ac_callback s' = ac_callback s" "r = AcPending \<longleftrightarrow> ac_waiting s'" "r \<noteq> AcPending \<longrightarrow> \<not> ac_intercept s'"
    "r = Accept (ac_calls s)"
proof -
  let ?s1 = "s\<lparr>ac_calls := ac_calls s + 1\<rparr>"
  have 1: "ac_ok auth ?s1" "ac_callback ?s1 \<or> ac_intercept ?s1" "\<not> ac_waiting ?s1" using assms(1-3) by (simp_all add: ac_ok_def)
  have r: "r = Accept (ac_calls s)" "s' = (if r = AcPending then ?s1\<lparr>ac_waiting := True\<rparr> else handle_result auth r ?s1)"
    using assms(4) by (auto simp: DoAccept_def Let_def)
  show "r = Accept (ac_calls s)" by (rule r(1))
  show "ac_ok auth s'" "ac_callback s' = ac_callback s" "r = AcPending \<longleftrightarrow> ac_waiting s'" "r \<noteq> AcPending \<longrightarrow> \<not> ac_intercept s'"
    using r(2) 1 handle_result_ok [OF 1(1) _ 1(2,3), of r] by (auto simp: ac_ok_def)
qed

lemma DoAcceptLoop_ok:
  assumes "DoAcceptLoop Accept auth s = Some s'" "ac_ok auth s" "ac_callback s" "\<not> ac_waiting s"
  shows "ac_ok auth s' \<and> ac_callback s' \<and> \<not> ac_intercept s' \<and> ((\<forall>n e. Accept n \<noteq> AcError e) \<longrightarrow> ac_waiting s')"
  using assms
proof (induction Accept auth s s' rule: DoAcceptLoop.raw_induct [rotated, consumes 1])
  case (1 loop Accept auth s s')
  obtain r t where t: "DoAccept Accept auth s = (r, t)" by fastforce
  note ok = DoAccept_ok [OF "1.prems"(1) _ "1.prems"(3) t]
  show ?case
  proof (cases "is_socket r")
    case True
    then have "r \<noteq> AcPending" by auto
    with 1 True t ok show ?thesis by auto
  next
    case False
    then have "t = s'" using 1(2) t by simp
    moreover have "ac_waiting t" if "\<forall>n e. Accept n \<noteq> AcError e" using False that ok(3,5) "1.prems"(2) by (cases r) (auto dest: sym)
    moreover have "\<not> ac_intercept t" using ok "1.prems"(2) by (auto simp: ac_ok_def)
    ultimately show ?thesis using ok "1.prems"(2) by auto
  qed
qed

lemma DoAcceptLoop_returns:
  assumes "\<not> is_socket (Accept m)" "ac_calls s \<le> m" "ac_ok auth s" "ac_callback s" "\<not> ac_waiting s"
  shows "\<exists>s'. DoAcceptLoop Accept auth s = Some s'"
  using assms(2-)
proof (induction "m - ac_calls s" arbitrary: s rule: less_induct)
  case less
  obtain r t where t: "DoAccept Accept auth s = (r, t)" by fastforce
  note ok = DoAccept_ok [OF less.prems(2) _ less.prems(4) t]
  show ?case
  proof (cases "is_socket r")
    case True
    then have r: "r \<noteq> AcPending" "ac_calls s \<noteq> m" using ok(5) less.prems(3) assms(1) by auto
    have "ac_calls t = Suc (ac_calls s)"
      using t r(1) handle_result_ok(5) [of auth "s\<lparr>ac_calls := ac_calls s + 1\<rparr>" r] less.prems
      by (auto simp: DoAccept_def Let_def ac_ok_def)
    moreover from this have "m - ac_calls t < m - ac_calls s" using r(2) less.prems(1) by simp
    ultimately obtain s' where "DoAcceptLoop Accept auth t = Some s'"
      using less.hyps [of t] less.prems ok r by auto
    with True t show ?thesis by (subst DoAcceptLoop.simps) simp
  next
    case False
    with t show ?thesis by (subst DoAcceptLoop.simps) simp
  qed
qed

definition acceptor_inv :: "(nat \<Rightarrow> accept_answer) \<Rightarrow> (nat \<Rightarrow> bool) option \<Rightarrow> acceptor \<Rightarrow> bool" where
  "acceptor_inv Accept auth s \<longleftrightarrow> ac_ok auth s \<and> armed Accept s"

lemma ac_exec_inv:
  assumes "ac_exec Accept auth ev s = Some s'" "acceptor_inv Accept auth s"
  shows "acceptor_inv Accept auth s'"
proof (cases ev)
  case AcLoop
  have "DoAcceptLoop Accept auth (s\<lparr>ac_callback := True\<rparr>) = Some s'" "ac_ok auth (s\<lparr>ac_callback := True\<rparr>)"
    "\<not> ac_waiting (s\<lparr>ac_callback := True\<rparr>)"
    using assms AcLoop by (auto simp: AcceptLoop_def acceptor_inv_def ac_ok_def split: if_splits)
  from DoAcceptLoop_ok [OF this(1,2) _ this(3)] show ?thesis by (simp add: acceptor_inv_def armed_def)
next
  case AcOnce
  obtain r t where t: "DoAccept Accept auth (s\<lparr>ac_intercept := True\<rparr>) = (r, t)" by fastforce
  have "ac_ok auth (s\<lparr>ac_intercept := True\<rparr>)" "\<not> ac_waiting (s\<lparr>ac_intercept := True\<rparr>)" "\<not> ac_callback s" "s' = t"
    using assms AcOnce t by (auto simp: AcceptOnceIntercept_def acceptor_inv_def ac_ok_def split: if_splits)
  with DoAccept_ok [OF _ _ _ t] show ?thesis by (auto simp: acceptor_inv_def armed_def)
next
  case (AcDone r)
  show ?thesis
  proof (cases "ac_waiting s \<and> r \<noteq> AcPending")
    case True
    let ?s = "s\<lparr>ac_waiting := False\<rparr>"
    have ok: "ac_ok auth ?s" "ac_callback ?s \<or> ac_intercept ?s" using assms(2) True by (auto simp: acceptor_inv_def ac_ok_def)
    note h = handle_result_ok [OF ok(1) conjunct2 [OF True] ok(2)]
    show ?thesis
    proof (cases "ac_callback s")
      case cb: True
      with assms(1) AcDone True h have "DoAcceptLoop Accept auth (handle_result auth r ?s) = Some s'"
        by (simp add: Server_OnAccept_def Let_def)
      from DoAcceptLoop_ok [OF this] h cb show ?thesis by (simp add: acceptor_inv_def armed_def)
    next
      case False
      with assms(1) AcDone True h show ?thesis by (auto simp: Server_OnAccept_def Let_def acceptor_inv_def armed_def)
    qed
  qed (use assms AcDone in auto)
qed

interpretation server: inductive_invariant "\<lambda>s. s = new_acceptor" "ac_step Accept auth" "acceptor_inv Accept auth"
  for Accept auth
proof
  show "s = new_acceptor \<Longrightarrow> acceptor_inv Accept auth s" for s
    by (simp add: acceptor_inv_def ac_ok_def armed_def new_acceptor_def)
  show "acceptor_inv Accept auth s \<Longrightarrow> ac_step Accept auth s t \<Longrightarrow> acceptor_inv Accept auth t" for s t
    by (auto elim!: ac_stepE intro: ac_exec_inv)
qed

text \<open>
  C31.  A server socket accounts for every connection: each one that arrived is among its accepted sockets, was handed to
  an intercepting callback, or was refused, exactly once; the callback was told OK for exactly the accepted ones;
  what was accepted or handed over has passed the check of its credentials; an intercepting callback waits only while
  an accept is pending; and the accept loop always has one pending if none fails at once.
\<close>

theorem server_accounts_for_connections:
  assumes "reachable (\<lambda>s. s = new_acceptor) (ac_step Accept auth) s"
  shows "mset (ac_arrived s) = mset (accepted_sockets s) + mset (connections (ac_handed s)) + mset (ac_refused s) \<and>
    accepted_sockets s = connections (ac_told s) \<and>
    (\<forall>i \<in> set (accepted_sockets s @ connections (ac_handed s)). case auth of None \<Rightarrow> True | Some ok \<Rightarrow> ok i) \<and>
    (ac_intercept s \<longrightarrow> ac_waiting s) \<and> ((\<forall>n e. Accept n \<noteq> AcError e) \<longrightarrow> ac_callback s \<longrightarrow> ac_waiting s)"
  using server.inv_reachable [OF assms] unfolding acceptor_inv_def ac_ok_def armed_def passes_def by blast

definition demo_accept :: "nat \<Rightarrow> accept_answer" where
  "demo_accept n = (if n = 0 then AcSocket 7 else if n = 1 then AcSocket 8 else AcPending)"

primrec ac_run :: "(nat \<Rightarrow> accept_answer) \<Rightarrow> (nat \<Rightarrow> bool) option \<Rightarrow> ac_event list \<Rightarrow> acceptor \<Rightarrow> acceptor option" where
  "ac_run Accept auth [] s = Some s"
| "ac_run Accept auth (ev # evs) s = Option.bind (ac_exec Accept auth ev s) (ac_run Accept auth evs)"

lemma ac_run_reachable:
  "ac_run Accept auth evs s = Some s' \<Longrightarrow> reachable (\<lambda>s. s = new_acceptor) (ac_step Accept auth) s \<Longrightarrow>
   reachable (\<lambda>s. s = new_acceptor) (ac_step Accept auth) s'"
proof (induction evs arbitrary: s)
  case (Cons ev evs)
  from Cons.prems(1) obtain t where "ac_exec Accept auth ev s = Some t" "ac_run Accept auth evs t = Some s'"
    by (auto split: bind_splits)
  with Cons.IH Cons.prems(2) show ?case by (metis ac_step.intros reachable.move)
qed simp

theorem server_accounts_for_connections_witness:
  "\<exists>s. ac_run demo_accept (Some even) [AcLoop, AcDone (AcSocket 10)] new_acceptor = Some s \<and> accepted_sockets s = [8, 10] \<and>
     mset (ac_arrived s) = mset [8, 10] + mset [7] \<and> ac_waiting s"
proof -
  let ?r = "ac_run demo_accept (Some even) [AcLoop, AcDone (AcSocket 10)] new_acceptor"
  have run: "?r \<noteq> None" "accepted_sockets (the ?r) = [8, 10]" "ac_handed (the ?r) = []" "ac_refused (the ?r) = [7]" "ac_callback (the ?r)"
    by code_simp+
  from run(1) obtain s where s: "?r = Some s" by blast
  have "reachable (\<lambda>s. s = new_acceptor) (ac_step demo_accept (Some even)) s"
    using ac_run_reachable [OF s] by (simp add: reachable.start)
  from server_accounts_for_connections [OF this] run s show ?thesis by (auto simp: demo_accept_def)
qed

text \<open>When an accept fails at once, the loop is left with none pending: nothing that arrives later is accepted.\<close>

lemma accept_loop_ends:
  "case ac_run (\<lambda>n. AcError (- 12)) None [AcLoop, AcDone (AcSocket 7)] new_acceptor of
     None \<Rightarrow> False | Some s \<Rightarrow> ac_callback s \<and> \<not> ac_waiting s \<and> accepted_sockets s = []"
  by code_simp

section \<open>TCP channels\<close>

definition in_progress :: "tcp_channel \<Rightarrow> bool" where
  "in_progress s \<longleftrightarrow> tc_waiting s \<or> tc_ssl s \<noteq> None"

definition tc_ok :: "tcp_channel \<Rightarrow> bool" where
  "tc_ok s \<longleftrightarrow> \<not> (tc_accept_callback s \<and> tc_intercept_callback s) \<and> \<not> (tc_waiting s \<and> tc_ssl s \<noteq> None) \<and>
     (tc_ssl s \<noteq> None \<longrightarrow> tc_use_ssl s) \<and> (in_progress s \<longrightarrow> tc_accept_callback s \<or> tc_intercept_callback s) \<and>
     (tc_intercept_callback s \<longrightarrow> in_progress s) \<and>
     length (tc_handed s) + (if tc_intercept_callback s then 1 else 0) = tc_once s \<and>
     (tc_accept_callback s \<longrightarrow> (if tc_use_ssl s then in_progress s
        else length (connections (tc_told s)) = (if tc_waiting s then 0 else 1))) \<and>
     (\<not> tc_accept_callback s \<longrightarrow> tc_told s = [])"

text \<open>The state in which an accept is about to be called, or its result handled.\<close>

definition tc_ready :: "tcp_channel \<Rightarrow> bool" where
  "tc_ready s \<longleftrightarrow> (tc_accept_callback s \<noteq> tc_intercept_callback s) \<and> \<not> in_progress s \<and>
     length (tc_handed s) + (if tc_intercept_callback s then 1 else 0) = tc_once s \<and>
     (\<not> tc_use_ssl s \<longrightarrow> connections (tc_told s) = []) \<and> (\<not> tc_accept_callback s \<longrightarrow> tc_told s = [])"

lemma tc_OnAccept_ok:
  assumes "tc_ready s" "r \<noteq> AcPending"
  shows "\<exists>s' again. tc_OnAccept r s = Some (s', again) \<and> (if again then tc_ready s' else tc_ok s')"
  using assms
  by (cases r; cases "tc_use_ssl s"; cases "tc_accept_callback s"; simp add: tc_OnAccept_def tc_ready_def tc_ok_def in_progress_def
      ex_bool_eq)

lemma tc_DoAcceptLoop_ok:
  assumes "tc_DoAcceptLoop Accept s = Some s'" "tc_ready s"
  shows "tc_ok s'"
  using assms
proof (induction Accept s s' rule: tc_DoAcceptLoop.raw_induct [rotated, consumes 1])
  case (1 loop Accept s s')
  let ?r = "Accept (tc_calls s)" and ?s1 = "s\<lparr>tc_calls := tc_calls s + 1\<rparr>"
  have ready: "tc_ready ?s1" using "1.prems" by (simp add: tc_ready_def in_progress_def)
  show ?case
  proof (cases "?r = AcPending")
    case True
    with 1(2) have "s' = ?s1\<lparr>tc_waiting := True\<rparr>" by simp
    with ready show ?thesis by (auto simp: tc_ready_def tc_ok_def in_progress_def)
  next
    case False
    from tc_OnAccept_ok [OF ready False] obtain s2 again where
      a: "tc_OnAccept ?r ?s1 = Some (s2, again)" "if again then tc_ready s2 else tc_ok s2" by blast
    show ?thesis
    proof (cases again)
      case True
      with False a(1) 1(2) have "loop Accept s2 = Some s'" by (simp add: Let_def)
      from 1(1) [OF this] True a(2) show ?thesis by simp
    qed (use False a 1(2) in \<open>simp add: Let_def\<close>)
  qed
qed

lemma tc_exec_ok:
  assumes "tc_exec Accept ev s = Some s'" "tc_ok s"
  shows "tc_ok s'"
proof (cases ev)
  case TcAcceptLoop
  then have "tc_DoAcceptLoop Accept (s\<lparr>tc_accept_callback := True\<rparr>) = Some s'" "tc_ready (s\<lparr>tc_accept_callback := True\<rparr>)"
    using assms by (auto simp: tc_AcceptLoop_def tc_ready_def tc_ok_def in_progress_def split: if_splits)
  then show ?thesis by (rule tc_DoAcceptLoop_ok)
next
  case TcOnce
  let ?s = "s\<lparr>tc_intercept_callback := True, tc_once := tc_once s + 1\<rparr>"
  from TcOnce have "tc_DoAcceptLoop Accept ?s = Some s'" "tc_ready ?s"
    using assms by (auto simp: tc_AcceptOnceIntercept_def tc_ready_def tc_ok_def in_progress_def split: if_splits)
  then show ?thesis by (rule tc_DoAcceptLoop_ok)
next
  case (TcAdd i)
  then have "s' = AddClientChannel i s" using assms(1) by simp
  with assms(2) show ?thesis by (simp add: AddClientChannel_def tc_ok_def in_progress_def cong: if_cong)
next
  case (TcAccepted r)
  show ?thesis
  proof (cases "tc_waiting s \<and> r \<noteq> AcPending")
    case True
    then have "tc_ready (s\<lparr>tc_waiting := False\<rparr>)" using assms(2) by (auto simp: tc_ready_def tc_ok_def in_progress_def split: if_splits)
    from tc_OnAccept_ok [OF this] True obtain s2 again where
      a: "tc_OnAccept r (s\<lparr>tc_waiting := False\<rparr>) = Some (s2, again)" "if again then tc_ready s2 else tc_ok s2" by blast
    show ?thesis
    proof (cases again)
      case again: True
      with True a(1) assms(1) TcAccepted have "tc_DoAcceptLoop Accept s2 = Some s'" by (simp add: tc_accept_done_def)
      from tc_DoAcceptLoop_ok [OF this] again a(2) show ?thesis by simp
    qed (use True a assms(1) TcAccepted in \<open>simp add: tc_accept_done_def\<close>)
  qed (use assms TcAccepted in auto)
next
  case (TcHandshake st)
  show ?thesis
  proof (cases "tc_ssl s")
    case (Some i)
    let ?s = "s\<lparr>tc_ssl := None\<rparr>"
    let ?t = "(if st \<ge> 0 then ?s\<lparr>tc_accepted_sockets := tc_accepted_sockets s @ [i]\<rparr> else ?s)
        \<lparr>tc_told := tc_told s @ [if st \<ge> 0 then Inr i else Inl st]\<rparr>"
    show ?thesis
    proof (cases "tc_accept_callback s")
      case True
      with assms(1) TcHandshake Some have "tc_DoAcceptLoop Accept ?t = Some s'" by (auto simp: OnSSLHandshake_def Let_def split: if_splits)
      moreover have "tc_ready ?t" using assms(2) Some True by (auto simp: tc_ready_def tc_ok_def in_progress_def)
      ultimately show ?thesis by (rule tc_DoAcceptLoop_ok)
    next
      case False
      with assms TcHandshake Some show ?thesis
        by (auto simp: OnSSLHandshake_def Let_def tc_ok_def in_progress_def split: if_splits)
    qed
  qed (use assms TcHandshake in auto)
qed

interpretation tcp: inductive_invariant "\<lambda>s. s = new_tcp_channel ssl" "tc_step Accept" tc_ok
  for Accept ssl
proof
  show "s = new_tcp_channel ssl \<Longrightarrow> tc_ok s" for s
    by (simp add: tc_ok_def in_progress_def new_tcp_channel_def)
  show "tc_ok s \<Longrightarrow> tc_step Accept s t \<Longrightarrow> tc_ok t" for s t
    by (auto elim!: tc_stepE intro: tc_exec_ok)
qed

text \<open>
  The accept loop of a TCP channel goes on only with SSL.  There an accept is pending or a handshake under way at
  any time; without SSL the first connection is the last one, and no accept is pending after it.  Interception is
  answered exactly once each time.
\<close>

theorem tcp_channel_accepts:
  assumes "reachable (\<lambda>s. s = new_tcp_channel ssl) (tc_step Accept) s"
  shows "(tc_accept_callback s \<longrightarrow> (if tc_use_ssl s then tc_waiting s \<or> tc_ssl s \<noteq> None
      else length (connections (tc_told s)) = (if tc_waiting s then 0 else 1))) \<and>
    length (tc_handed s) + (if tc_intercept_callback s then 1 else 0) = tc_once s \<and>
    (tc_intercept_callback s \<longrightarrow> tc_waiting s \<or> tc_ssl s \<noteq> None)"
  using tcp.inv_reachable [OF assms] unfolding tc_ok_def in_progress_def by blast

theorem tcp_channel_accepts_witness:
  "\<exists>s. tc_exec (\<lambda>n. AcPending) (TcAccepted (AcSocket 7)) ((new_tcp_channel False)\<lparr>tc_accept_callback := True, tc_waiting := True, tc_calls := 1\<rparr>) = Some s \<and>
     connections (tc_told s) = [7] \<and> \<not> tc_waiting s"
proof -
  let ?A = "\<lambda>n. AcPending" and ?s0 = "new_tcp_channel False"
  let ?s1 = "?s0\<lparr>tc_accept_callback := True, tc_waiting := True, tc_calls := 1\<rparr>"
  let ?s2 = "?s1\<lparr>tc_waiting := False, tc_accepted_sockets := [7], tc_told := [Inr 7]\<rparr>"
  have e1: "tc_exec ?A TcAcceptLoop ?s0 = Some ?s1"
    by (simp add: tc_AcceptLoop_def new_tcp_channel_def) (subst tc_DoAcceptLoop.simps, simp)
  have e2: "tc_exec ?A (TcAccepted (AcSocket 7)) ?s1 = Some ?s2"
    by (simp add: tc_accept_done_def tc_OnAccept_def new_tcp_channel_def)
  have "reachable (\<lambda>s. s = ?s0) (tc_step ?A) ?s2"
    by (rule reachable.move, rule reachable.move, rule reachable.start, rule refl, rule tc_step.intros, rule e1,
        rule tc_step.intros, rule e2)
  from tcp_channel_accepts [OF this] e2 show ?thesis by (simp add: new_tcp_channel_def)
qed

end
