(* ===== verification/Felicia_Broadcast.thy ===== *)
theory Felicia_Broadcast
  imports Felicia_Net
begin

text \<open>
  \<open>core/channel/socket/stream_socket_broadcaster.cc\<close> and \<open>web_socket_channel_broadcaster.cc\<close>: one buffer is written to every
  accepted socket, and one callback is run when all are through.  Both count the results in the same way.  The
  answers of the sockets to a write are a parameter, given the number of the call, the socket and the bytes offered.
  The callback is recorded when it is run; it may broadcast again at once, which \<open>Broadcasts\<close> is about.  \<open>None\<close> is a broken
  \<open>DCHECK\<close> or undefined behaviour.
\<close>

section \<open>Counting\<close>

text \<open>
  \<open>wc_outcomes\<close> and \<open>wc_answers\<close> record the results of this broadcast, and those of each answered one with the answer; a
  broadcast with nothing to write to has no results.
\<close>

record write_counter =
  wc_callback :: bool
  to_write_count :: nat
  written_count :: nat
  write_result :: int
  wc_outcomes :: "int list"
  wc_answers :: "(int list \<times> int) list"

definition start_count :: "nat \<Rightarrow> 'a write_counter_scheme \<Rightarrow> 'a write_counter_scheme" where
  "start_count n s = s\<lparr>to_write_count := n, wc_callback := True\<rparr>"

definition count_write :: "int \<Rightarrow> 'a write_counter_scheme \<Rightarrow> 'a write_counter_scheme option" where
  "count_write result s =
     (let s1 = s\<lparr>written_count := written_count s + 1, write_result := (if result < 0 then result else write_result s),
                 wc_outcomes := wc_outcomes s @ [result]\<rparr> in
      if to_write_count s1 = written_count s1 then
        if wc_callback s1
        then Some (s1\<lparr>to_write_count := 0, written_count := 0, write_result := 0, wc_callback := False, wc_outcomes := [],
                      wc_answers := wc_answers s1 @ [(wc_outcomes s1, write_result s1)]\<rparr>)
        else None
      else Some s1)"

definition answer_unconnected :: "'a write_counter_scheme \<Rightarrow> 'a write_counter_scheme" where
  "answer_unconnected s = s\<lparr>wc_answers := wc_answers s @ [([], ERR_SOCKET_NOT_CONNECTED)]\<rparr>"

section \<open>StreamSocketBroadcaster\<close>

text \<open>A socket with the bytes a pending write was given and the bytes it has taken.\<close>

record bc_socket =
  bs_id :: nat
  bs_IsConnected :: bool
  bs_pending :: "bytes option"
  bs_taken :: bytes

record broadcaster = write_counter +
  bc_sockets :: "bc_socket list"
  has_closed_sockets :: bool
  bc_calls :: nat
  bc_broadcasts :: nat

definition new_broadcaster :: broadcaster where
  "new_broadcaster = \<lparr>wc_callback = False, to_write_count = 0, written_count = 0, write_result = 0, wc_outcomes = [], wc_answers = [],
     bc_sockets = [], has_closed_sockets = False, bc_calls = 0, bc_broadcasts = 0\<rparr>"

definition upd_socket :: "nat \<Rightarrow> (bc_socket \<Rightarrow> bc_socket) \<Rightarrow> broadcaster \<Rightarrow> broadcaster" where
  "upd_socket i f s = s\<lparr>bc_sockets := map (\<lambda>k. if bs_id k = i then f k else k) (bc_sockets s)\<rparr>"

definition EraseClosedSockets :: "broadcaster \<Rightarrow> broadcaster" where
  "EraseClosedSockets s =
     (if has_closed_sockets s then s\<lparr>bc_sockets := filter bs_IsConnected (bc_sockets s), has_closed_sockets := False\<rparr> else s)"

definition Broadcaster_OnWrite :: "nat \<Rightarrow> int \<Rightarrow> broadcaster \<Rightarrow> broadcaster option" where
  "Broadcaster_OnWrite i result s =
     count_write result
       (if result = ERR_CONNECTION_RESET \<or> result = ERR_FAILED
        then (upd_socket i (\<lambda>k. k\<lparr>bs_IsConnected := False\<rparr>) s)\<lparr>has_closed_sockets := True\<rparr> else s)"

function write_socket :: "(nat \<Rightarrow> nat \<Rightarrow> bytes \<Rightarrow> int) \<Rightarrow> nat \<Rightarrow> bytes \<Rightarrow> broadcaster \<Rightarrow> broadcaster option" where
  "write_socket Write i remaining s =
     (if remaining = [] then Some s
      else
        let rv = Write (bc_calls s) i remaining; s1 = s\<lparr>bc_calls := bc_calls s + 1\<rparr> in
        if rv = ERR_IO_PENDING then Some (upd_socket i (\<lambda>k. k\<lparr>bs_pending := Some remaining\<rparr>) s1)
        else if rv > int (length remaining) then None
        else
          let s2 = upd_socket i (\<lambda>k. k\<lparr>bs_taken := bs_taken k @ take (nat rv) remaining\<rparr>) s1 in
          if drop (nat rv) remaining = [] \<or> rv \<le> 0 then Broadcaster_OnWrite i rv s2
          else write_socket Write i (drop (nat rv) remaining) s2)"
  by pat_completeness auto
termination
  by (relation "measure (\<lambda>(Write, i, remaining, s). length remaining)") auto

declare write_socket.simps [simp del]

primrec write_sockets :: "(nat \<Rightarrow> nat \<Rightarrow> bytes \<Rightarrow> int) \<Rightarrow> nat list \<Rightarrow> bytes \<Rightarrow> broadcaster \<Rightarrow> broadcaster option" where
  "write_sockets Write [] buffer s = Some s"
| "write_sockets Write (i # is) buffer s = Option.bind (write_socket Write i buffer s) (write_sockets Write is buffer)"

definition Broadcast :: "(nat \<Rightarrow> nat \<Rightarrow> bytes \<Rightarrow> int) \<Rightarrow> bytes \<Rightarrow> broadcaster \<Rightarrow> broadcaster option" where
  "Broadcast Write buffer s =
     (if wc_callback s \<or> to_write_count s \<noteq> 0 \<or> written_count s \<noteq> 0 \<or> buffer = [] then None
      else
        let s1 = (EraseClosedSockets s)\<lparr>bc_broadcasts := bc_broadcasts s + 1\<rparr> in
        if bc_sockets s1 = [] then Some (answer_unconnected s1)
        else write_sockets Write (map bs_id (bc_sockets s1)) buffer (start_count (length (bc_sockets s1)) s1))"

text \<open>
  A broadcast whose callback, if it is run before \<open>Broadcast\<close> returns, broadcasts the next buffer, and so on.  The callback is
  run when the last socket is counted, so in the last round of the loop; the inner broadcast begins with
  \<open>EraseClosedSockets\<close>, and when that erases a socket of the vector, \<open>it++\<close> advances an iterator that is not valid any more.
\<close>

definition erases_sockets :: "broadcaster \<Rightarrow> bool" where
  "erases_sockets s \<longleftrightarrow> bc_sockets (EraseClosedSockets s) \<noteq> bc_sockets s"

primrec Broadcasts :: "(nat \<Rightarrow> nat \<Rightarrow> bytes \<Rightarrow> int) \<Rightarrow> bytes list \<Rightarrow> broadcaster \<Rightarrow> broadcaster option" where
  "Broadcasts Write [] s = Some s"
| "Broadcasts Write (buffer # again) s =
     Option.bind (Broadcast Write buffer s) (\<lambda>s'.
       if wc_callback s' \<or> again = [] then Some s'
       else if erases_sockets s' then None
       else Broadcasts Write again s')"

text \<open>A pending write completes.\<close>

definition bc_write_done :: "nat \<Rightarrow> int \<Rightarrow> broadcaster \<Rightarrow> broadcaster option" where
  "bc_write_done i result s =
     (case List.find (\<lambda>k. bs_id k = i) (bc_sockets s) of
        None \<Rightarrow> Some s
      | Some k \<Rightarrow> (case bs_pending k of
          None \<Rightarrow> Some s
        | Some remaining \<Rightarrow>
            Broadcaster_OnWrite i result
              (upd_socket i (\<lambda>k. k\<lparr>bs_pending := None, bs_taken := bs_taken k @ take (nat result) remaining\<rparr>) s)))"

definition AddSocket :: "nat \<Rightarrow> broadcaster \<Rightarrow> broadcaster" where
  "AddSocket i s = s\<lparr>bc_sockets := bc_sockets s @ [\<lparr>bs_id = i, bs_IsConnected = True, bs_pending = None, bs_taken = []\<rparr>]\<rparr>"

definition ServerSocket_IsConnected :: "broadcaster \<Rightarrow> bool" where
  "ServerSocket_IsConnected s \<longleftrightarrow> (\<exists>k \<in> set (bc_sockets s). bs_IsConnected k)"

section \<open>WebSocketChannelBroadcaster\<close>

text \<open>
  A channel that is closed is erased and counted as reset; the others are counted when their frame is through.  Here a
  broadcast started by the callback is a later event: the loop with a callback that broadcasts at once is not modelled.
\<close>

record ws_broadcaster = write_counter +
  ws_channels :: "(nat \<times> bool) list"
  ws_pending :: "nat list"
  ws_broadcasts :: nat

definition new_ws_broadcaster :: ws_broadcaster where
  "new_ws_broadcaster = \<lparr>wc_callback = False, to_write_count = 0, written_count = 0, write_result = 0, wc_outcomes = [], wc_answers = [],
     ws_channels = [], ws_pending = [], ws_broadcasts = 0\<rparr>"

primrec ws_loop :: "(nat \<Rightarrow> int) \<Rightarrow> (nat \<times> bool) list \<Rightarrow> ws_broadcaster \<Rightarrow> ws_broadcaster option" where
  "ws_loop SendFrame [] s = Some s"
| "ws_loop SendFrame (c # cs) s =
     (if snd c
      then Option.bind (count_write ERR_CONNECTION_RESET (s\<lparr>ws_channels := remove1 c (ws_channels s)\<rparr>)) (ws_loop SendFrame cs)
      else if SendFrame (fst c) = ERR_IO_PENDING then ws_loop SendFrame cs (s\<lparr>ws_pending := ws_pending s @ [fst c]\<rparr>)
      else Option.bind (count_write (SendFrame (fst c)) s) (ws_loop SendFrame cs))"

definition ws_Broadcast :: "(nat \<Rightarrow> int) \<Rightarrow> ws_broadcaster \<Rightarrow> ws_broadcaster option" where
  "ws_Broadcast SendFrame s =
     (if wc_callback s \<or> to_write_count s \<noteq> 0 \<or> written_count s \<noteq> 0 then None
      else let s1 = s\<lparr>ws_broadcasts := ws_broadcasts s + 1\<rparr> in
        if ws_channels s = [] then Some (answer_unconnected s1)
        else ws_loop SendFrame (ws_channels s) (start_count (length (ws_channels s)) s1))"

definition ws_write_done :: "nat \<Rightarrow> int \<Rightarrow> ws_broadcaster \<Rightarrow> ws_broadcaster option" where
  "ws_write_done i result s =
     (if i \<in> set (ws_pending s) then count_write result (s\<lparr>ws_pending := remove1 i (ws_pending s)\<rparr>) else Some s)"

section \<open>Events\<close>

datatype bc_event = BcBroadcast "bytes list" | BcWriteDone nat int | BcAdd nat | BcLost nat

fun bc_exec :: "(nat \<Rightarrow> nat \<Rightarrow> bytes \<Rightarrow> int) \<Rightarrow> bc_event \<Rightarrow> broadcaster \<Rightarrow> broadcaster option" where
  "bc_exec Write (BcBroadcast buffers) s = Broadcasts Write buffers s"
| "bc_exec Write (BcWriteDone i result) s = bc_write_done i result s"
| "bc_exec Write (BcAdd i) s = Some (AddSocket i s)"
| "bc_exec Write (BcLost i) s = Some (upd_socket i (\<lambda>k. k\<lparr>bs_IsConnected := False\<rparr>) s)"

text \<open>The callers broadcast something when the last broadcast is answered, and an accepted socket is a new one.\<close>

fun bc_permits :: "bc_event \<Rightarrow> broadcaster \<Rightarrow> bool" where
  "bc_permits (BcBroadcast buffers) s \<longleftrightarrow> \<not> wc_callback s \<and> buffers \<noteq> [] \<and> [] \<notin> set buffers"
| "bc_permits (BcAdd i) s \<longleftrightarrow> i \<notin> bs_id ` set (bc_sockets s)"
| "bc_permits _ s \<longleftrightarrow> True"

inductive bc_step :: "(nat \<Rightarrow> nat \<Rightarrow> bytes \<Rightarrow> int) \<Rightarrow> broadcaster \<Rightarrow> broadcaster \<Rightarrow> bool" for Write where
  "bc_permits ev s \<Longrightarrow> bc_exec Write ev s = Some s' \<Longrightarrow> bc_step Write s s'"

inductive_cases bc_stepE: "bc_step Write s s'"

text \<open>\<open>WsChannels\<close>: channels are accepted or become closed.\<close>

datatype ws_event = WsBroadcast "nat \<Rightarrow> int" | WsWriteDone nat int | WsChannels "(nat \<times> bool) list"

fun ws_exec :: "ws_event \<Rightarrow> ws_broadcaster \<Rightarrow> ws_broadcaster option" where
  "ws_exec (WsBroadcast SendFrame) s = ws_Broadcast SendFrame s"
| "ws_exec (WsWriteDone i result) s = ws_write_done i result s"
| "ws_exec (WsChannels cs) s = Some (s\<lparr>ws_channels := cs\<rparr>)"

fun ws_permits :: "ws_event \<Rightarrow> ws_broadcaster \<Rightarrow> bool" where
  "ws_permits (WsBroadcast SendFrame) s \<longleftrightarrow> \<not> wc_callback s"
| "ws_permits _ s \<longleftrightarrow> True"

inductive ws_step :: "ws_broadcaster \<Rightarrow> ws_broadcaster \<Rightarrow> bool" where
  "ws_permits ev s \<Longrightarrow> ws_exec ev s = Some s' \<Longrightarrow> ws_step s s'"

inductive_cases ws_stepE: "ws_step s s'"

end
