(* ===== verification/Felicia_BroadcastProps.thy ===== *)
theory Felicia_BroadcastProps
  imports Felicia_Broadcast
begin

text \<open>
  A broadcast is answered exactly once, when the last of its sockets is through, with OK exactly when there was a socket and
  no write failed; and with sockets that take what they are offered it reaches all of them.
\<close>

section \<open>A round of counting\<close>

definition worst :: "int list \<Rightarrow> int" where
  "worst rs = fold (\<lambda>r w. if r < 0 then r else w) rs 0"

lemma worst_snoc [simp]: "worst (rs @ [r]) = (if r < 0 then r else worst rs)"
  by (simp add: worst_def)

lemma worst_nonneg: "0 \<le> worst rs \<longleftrightarrow> (\<forall>r \<in> set rs. 0 \<le> r)"
  by (induction rs rule: rev_induct) (auto simp: worst_def)

text \<open>After \<open>b\<close> broadcasts, results of \<open>n\<close> sockets are missing in the last.\<close>

definition round_ok :: "nat \<Rightarrow> nat \<Rightarrow> 'a write_counter_scheme \<Rightarrow> bool" where
  "round_ok n b s \<longleftrightarrow> to_write_count s = (if n = 0 then 0 else written_count s + n) \<and> wc_callback s = (n > 0) \<and>
     length (wc_outcomes s) = written_count s \<and> write_result s = worst (wc_outcomes s) \<and> (n = 0 \<longrightarrow> wc_outcomes s = []) \<and>
     length (wc_answers s) + (if n = 0 then 0 else 1) = b \<and> (\<forall>(rs, a) \<in> set (wc_answers s). a = (if rs = [] then ERR_SOCKET_NOT_CONNECTED else worst rs))"

lemma count_write_fields:
  assumes "count_write result s = Some s'"
  shows "write_counter.more s' = write_counter.more s"
  using assms by (auto simp: count_write_def Let_def split: if_splits)

lemma count_write_round:
  assumes "round_ok (Suc n) b s"
  shows "\<exists>s'. count_write result s = Some s' \<and> round_ok n b s'"
  using assms by (auto simp: count_write_def Let_def round_ok_def worst_def)

lemma count_write_ok:
  assumes "count_write result s = Some s'" "round_ok (Suc n) b s"
  shows "round_ok n b s'"
  using count_write_round [OF assms(2), of result] assms(1) by simp

lemma start_round: "round_ok 0 b s \<Longrightarrow> 0 < n \<Longrightarrow> round_ok n (Suc b) (start_count n s)"
  by (auto simp: round_ok_def start_count_def)

lemma answer_unconnected_round: "round_ok 0 b s \<Longrightarrow> round_ok 0 (Suc b) (answer_unconnected s)"
  by (auto simp: round_ok_def answer_unconnected_def worst_def net_errors)

lemma round_ok_answers:
  assumes "round_ok n b s"
  shows "length (wc_answers s) + (if wc_callback s then 1 else 0) = b" "wc_callback s \<longleftrightarrow> n > 0"
    "\<forall>(rs, a) \<in> set (wc_answers s). 0 \<le> a \<longleftrightarrow> rs \<noteq> [] \<and> (\<forall>r \<in> set rs. 0 \<le> r)"
    "\<forall>(rs, a) \<in> set (wc_answers s). rs = [] \<longrightarrow> a = ERR_SOCKET_NOT_CONNECTED"
  using assms worst_nonneg by (auto simp: round_ok_def net_errors split: if_splits)

section \<open>The stream socket broadcaster\<close>

definition writes_honestly :: "(nat \<Rightarrow> nat \<Rightarrow> bytes \<Rightarrow> int) \<Rightarrow> bool" where
  "writes_honestly Write \<longleftrightarrow> (\<forall>n i bs. Write n i bs \<le> int (length bs))"

abbreviation ids :: "broadcaster \<Rightarrow> nat list" where
  "ids s \<equiv> map bs_id (bc_sockets s)"

definition waiting :: "broadcaster \<Rightarrow> nat set" where
  "waiting s = bs_id ` {k \<in> set (bc_sockets s). bs_pending k \<noteq> None}"

lemma finite_waiting [simp]: "finite (waiting s)"
  by (simp add: waiting_def)

lemma waiting_sub: "waiting s \<subseteq> set (ids s)"
  by (auto simp: waiting_def)

lemma round_ok_more [simp]:
  "round_ok n b (s\<lparr>bc_sockets := k\<rparr>) = round_ok n b s" "round_ok n b (s\<lparr>has_closed_sockets := h\<rparr>) = round_ok n b s"
  "round_ok n b (s\<lparr>bc_calls := c\<rparr>) = round_ok n b s" "round_ok n b (s\<lparr>bc_broadcasts := c\<rparr>) = round_ok n b s"
  by (simp_all add: round_ok_def)

lemma upd_socket_round [simp]: "round_ok n b (upd_socket i f s) = round_ok n b s"
  by (simp add: upd_socket_def)

lemma upd_ids [simp]: "(\<And>k. bs_id (f k) = bs_id k) \<Longrightarrow> ids (upd_socket i f s) = ids s"
  by (simp add: upd_socket_def)

lemma upd_broadcasts [simp]: "bc_broadcasts (upd_socket i f s) = bc_broadcasts s"
  by (simp add: upd_socket_def)

lemma in_waiting: "j \<in> waiting s \<longleftrightarrow> (\<exists>k \<in> set (bc_sockets s). bs_pending k \<noteq> None \<and> bs_id k = j)"
  by (auto simp: waiting_def)

lemma in_waiting_upd:
  assumes "\<And>k. bs_id (f k) = bs_id k"
  shows "j \<in> waiting (upd_socket i f s) \<longleftrightarrow>
    (\<exists>k \<in> set (bc_sockets s). bs_id k = j \<and> (if j = i then bs_pending (f k) \<noteq> None else bs_pending k \<noteq> None))"
proof -
  let ?g = "\<lambda>k. if bs_id k = i then f k else k"
  have "j \<in> waiting (upd_socket i f s) \<longleftrightarrow> (\<exists>k \<in> set (bc_sockets s). bs_pending (?g k) \<noteq> None \<and> bs_id (?g k) = j)"
    unfolding in_waiting upd_socket_def by auto
  also have "\<dots> \<longleftrightarrow> (\<exists>k \<in> set (bc_sockets s). bs_id k = j \<and> (if j = i then bs_pending (f k) \<noteq> None else bs_pending k \<noteq> None))"
    using assms by (intro bex_cong) auto
  finally show ?thesis .
qed

lemma waiting_upd_same: "(\<And>k. bs_id (f k) = bs_id k \<and> bs_pending (f k) = bs_pending k) \<Longrightarrow> waiting (upd_socket i f s) = waiting s"
  by (rule set_eqI, subst in_waiting_upd) (auto simp: waiting_def split: if_splits)

lemma waiting_upd_start: "i \<in> set (ids s) \<Longrightarrow> waiting (upd_socket i (\<lambda>k. k\<lparr>bs_pending := Some r\<rparr>) s) = insert i (waiting s)"
  by (rule set_eqI, subst in_waiting_upd) (auto simp: waiting_def split: if_splits)

lemma waiting_upd_done: "waiting (upd_socket i (\<lambda>k. k\<lparr>bs_pending := None, bs_taken := g k\<rparr>) s) = waiting s - {i}"
  by (rule set_eqI, subst in_waiting_upd) (auto simp: waiting_def split: if_splits)

lemma waiting_more [simp]:
  "waiting (s\<lparr>has_closed_sockets := h\<rparr>) = waiting s" "waiting (s\<lparr>bc_calls := c\<rparr>) = waiting s" "waiting (s\<lparr>bc_broadcasts := c\<rparr>) = waiting s"
  by (simp_all add: waiting_def)

lemma count_write_sockets: "count_write result (s :: broadcaster) = Some s' \<Longrightarrow> bc_sockets s' = bc_sockets s \<and> bc_broadcasts s' = bc_broadcasts s"
  by (auto simp: count_write_def Let_def split: if_splits)

lemma waiting_sockets: "bc_sockets s' = bc_sockets s \<Longrightarrow> waiting s' = waiting s"
  by (simp add: waiting_def)

lemma OnWrite_round:
  assumes "round_ok (Suc n) b s"
  shows "\<exists>s'. Broadcaster_OnWrite i result s = Some s' \<and> round_ok n b s' \<and> ids s' = ids s \<and> waiting s' = waiting s \<and>
    bc_broadcasts s' = bc_broadcasts s"
proof -
  define t where "t = (if result = ERR_CONNECTION_RESET \<or> result = ERR_FAILED
      then (upd_socket i (\<lambda>k. k\<lparr>bs_IsConnected := False\<rparr>) s)\<lparr>has_closed_sockets := True\<rparr> else s)"
  have "round_ok (Suc n) b t" "ids t = ids s" "waiting t = waiting s" "bc_broadcasts t = bc_broadcasts s"
    using assms by (simp_all add: t_def waiting_upd_same)
  moreover from this obtain s' where "count_write result t = Some s'" "round_ok n b s'" using count_write_round by blast
  ultimately show ?thesis using count_write_sockets [of result t s'] waiting_sockets [of s' t]
    by (simp add: Broadcaster_OnWrite_def t_def)
qed

text \<open>Writing to a socket: it is waiting afterwards, or counted.\<close>

lemma write_socket_round:
  assumes "round_ok (Suc n) b s" "i \<in> set (ids s)" "remaining \<noteq> []" "writes_honestly Write"
  shows "\<exists>s'. write_socket Write i remaining s = Some s' \<and> ids s' = ids s \<and> bc_broadcasts s' = bc_broadcasts s \<and>
    (waiting s' = insert i (waiting s) \<and> round_ok (Suc n) b s' \<or> waiting s' = waiting s \<and> round_ok n b s')"
  using assms
proof (induction Write i remaining s rule: write_socket.induct)
  case (1 Write i remaining s)
  let ?rv = "Write (bc_calls s) i remaining" and ?s1 = "s\<lparr>bc_calls := bc_calls s + 1\<rparr>"
  let ?s2 = "upd_socket i (\<lambda>k. k\<lparr>bs_taken := bs_taken k @ take (nat ?rv) remaining\<rparr>) ?s1"
  have s2: "round_ok (Suc n) b ?s2" "ids ?s2 = ids s" "waiting ?s2 = waiting s" "bc_broadcasts ?s2 = bc_broadcasts s"
    using 1(2) by (simp_all add: waiting_upd_same)
  have le: "\<not> ?rv > int (length remaining)" using "1.prems"(4) by (simp add: writes_honestly_def not_less)
  consider "?rv = ERR_IO_PENDING" | "?rv \<noteq> ERR_IO_PENDING" "drop (nat ?rv) remaining = [] \<or> ?rv \<le> 0"
    | "?rv \<noteq> ERR_IO_PENDING" "\<not> (drop (nat ?rv) remaining = [] \<or> ?rv \<le> 0)" by blast
  then show ?case
  proof cases
    case 1
    let ?t = "upd_socket i (\<lambda>k. k\<lparr>bs_pending := Some remaining\<rparr>) ?s1"
    from 1 "1.prems" have "write_socket Write i remaining s = Some ?t" by (subst write_socket.simps) simp
    with "1.prems" show ?thesis by (simp add: waiting_upd_start)
  next
    case 2
    then have "write_socket Write i remaining s = Broadcaster_OnWrite i ?rv ?s2"
      using "1.prems"(3) le by (subst write_socket.simps) (simp add: Let_def)
    with OnWrite_round [OF s2(1), of i ?rv] s2 show ?thesis by auto
  next
    case 3
    then have "write_socket Write i remaining s = write_socket Write i (drop (nat ?rv) remaining) ?s2"
      using "1.prems"(3) le by (subst write_socket.simps) (simp add: Let_def)
    with "1.IH" [OF "1.prems"(3) refl refl 3(1) le refl 3(2)] s2 3(2) "1.prems" show ?thesis by simp
  qed
qed

lemma write_sockets_round:
  assumes "round_ok (card (waiting s) + length is) b s" "distinct is" "set is \<subseteq> set (ids s)" "set is \<inter> waiting s = {}" "buffer \<noteq> []"
    "writes_honestly Write"
  shows "\<exists>s'. write_sockets Write is buffer s = Some s' \<and> ids s' = ids s \<and> bc_broadcasts s' = bc_broadcasts s \<and>
    round_ok (card (waiting s')) b s'"
  using assms(1-4)
proof (induction "is" arbitrary: s)
  case (Cons i "is")
  have "round_ok (Suc (card (waiting s) + length is)) b s" "i \<in> set (ids s)" using Cons.prems(1,3) by simp_all
  from write_socket_round [OF this assms(5,6)] obtain t where t: "write_socket Write i buffer s = Some t" "ids t = ids s" "bc_broadcasts t = bc_broadcasts s"
    "waiting t = insert i (waiting s) \<and> round_ok (Suc (card (waiting s) + length is)) b t \<or>
     waiting t = waiting s \<and> round_ok (card (waiting s) + length is) b t"
    by blast
  then have "round_ok (card (waiting t) + length is) b t" "set is \<inter> waiting t = {}" using Cons.prems(2,4) by auto
  with Cons.IH [of t] Cons.prems(2,3) t(2) obtain s' where "write_sockets Write is buffer t = Some s'" "ids s' = ids s"
    "bc_broadcasts s' = bc_broadcasts t" "round_ok (card (waiting s')) b s'" by auto
  with t(1,3) show ?case by simp
qed simp

definition bc_ok :: "broadcaster \<Rightarrow> bool" where
  "bc_ok s \<longleftrightarrow> distinct (ids s) \<and> round_ok (card (waiting s)) (bc_broadcasts s) s"

lemma idle_round: "round_ok n b s \<Longrightarrow> \<not> wc_callback s \<Longrightarrow> n = 0 \<and> to_write_count s = 0 \<and> written_count s = 0"
  by (auto simp: round_ok_def)

lemma Broadcast_ok:
  assumes "bc_ok s" "\<not> wc_callback s" "buffer \<noteq> []" "writes_honestly Write"
  shows "\<exists>s'. Broadcast Write buffer s = Some s' \<and> bc_ok s'"
proof -
  let ?s1 = "(EraseClosedSockets s)\<lparr>bc_broadcasts := bc_broadcasts s + 1\<rparr>"
  from assms(1,2) have idle: "to_write_count s = 0" "written_count s = 0" "card (waiting s) = 0"
    using idle_round unfolding bc_ok_def by blast+
  then have "waiting s = {}" by simp
  moreover have "set (bc_sockets ?s1) \<subseteq> set (bc_sockets s)" by (auto simp: EraseClosedSockets_def)
  ultimately have w: "waiting ?s1 = {}" by (auto simp: waiting_def)
  have d: "distinct (ids ?s1)" using assms(1) by (auto simp: bc_ok_def EraseClosedSockets_def distinct_map_filter)
  have r: "round_ok 0 (bc_broadcasts s) ?s1" using assms(1) idle(3) by (simp add: bc_ok_def EraseClosedSockets_def)
  show ?thesis
  proof (cases "bc_sockets ?s1 = []")
    case True
    have "bc_ok (answer_unconnected ?s1)"
      using answer_unconnected_round [OF r] True by (simp add: bc_ok_def answer_unconnected_def waiting_def)
    with True assms(2,3) idle show ?thesis by (auto simp: Broadcast_def Let_def)
  next
    case False
    let ?t = "start_count (length (bc_sockets ?s1)) ?s1"
    have t: "round_ok (length (bc_sockets ?s1)) (Suc (bc_broadcasts s)) ?t" using start_round [OF r] False by simp
    have "bc_sockets ?t = bc_sockets ?s1" "bc_broadcasts ?t = Suc (bc_broadcasts s)" by (simp_all add: start_count_def)
    moreover from this(1) have "waiting ?t = {}" using w waiting_sockets by metis
    ultimately obtain s' where "write_sockets Write (ids ?s1) buffer ?t = Some s'" "ids s' = ids ?t" "bc_broadcasts s' = Suc (bc_broadcasts s)"
      "round_ok (card (waiting s')) (Suc (bc_broadcasts s)) s'"
      using write_sockets_round [of ?t "ids ?s1" "Suc (bc_broadcasts s)" buffer Write] t d assms(3,4) by auto
    with False assms(2,3) idle d show ?thesis by (auto simp: Broadcast_def Let_def bc_ok_def start_count_def)
  qed
qed

text \<open>Broadcasts that follow on each other within one call.\<close>

lemma Broadcasts_ok:
  assumes "bc_ok s" "\<not> wc_callback s" "[] \<notin> set buffers" "writes_honestly Write"
    "Broadcasts Write buffers s = Some s'"
  shows "bc_ok s'"
  using assms
proof (induction buffers arbitrary: s)
  case (Cons buffer again)
  from Broadcast_ok [OF Cons.prems(1,2) _ Cons.prems(4), of buffer] Cons.prems(3) obtain t where "Broadcast Write buffer s = Some t" "bc_ok t" by auto
  with Cons.IH [of t] Cons.prems show ?case by (auto split: if_splits)
qed simp

lemma Broadcasts_None_iff:
  assumes "bc_ok s" "\<not> wc_callback s" "[] \<notin> set buffers" "writes_honestly Write"
  shows "Broadcasts Write buffers s = None \<longleftrightarrow>
    (\<exists>before buffer after t. buffers = before @ buffer # after \<and> before \<noteq> [] \<and> Broadcasts Write before s = Some t \<and>
       \<not> wc_callback t \<and> erases_sockets t)"
  using assms
proof (induction buffers arbitrary: s)
  case (Cons first again)
  from Broadcast_ok [OF Cons.prems(1,2) _ Cons.prems(4), of first] Cons.prems(3) obtain t where t: "Broadcast Write first s = Some t" "bc_ok t" by auto
  consider "again = []" | "again \<noteq> []" "wc_callback t" | "again \<noteq> []" "\<not> wc_callback t" "erases_sockets t"
    | "again \<noteq> []" "\<not> wc_callback t" "\<not> erases_sockets t" by blast
  then show ?case
  proof cases
    case 1
    with t show ?thesis by (auto simp: Cons_eq_append_conv)
  next
    case 2
    with t show ?thesis by (auto simp: Cons_eq_append_conv)
  next
    case 3
    then obtain b bs where "again = b # bs" by (cases again) auto
    with 3 t show ?thesis by (auto simp: Cons_eq_append_conv intro!: exI [of _ "[first]"])
  next
    case 4
    have first: "Broadcasts Write (first # before) s = (if before = [] then Some t else Broadcasts Write before t)" for before
      using 4 t by simp
    have IH: "Broadcasts Write again t = None \<longleftrightarrow> (\<exists>before buffer after u. again = before @ buffer # after \<and> before \<noteq> [] \<and>
        Broadcasts Write before t = Some u \<and> \<not> wc_callback u \<and> erases_sockets u)"
      using Cons.IH [of t] 4 t Cons.prems(3,4) by simp
    show ?thesis (is "?undefined \<longleftrightarrow> ?erased")
    proof
      assume ?undefined
      then have "Broadcasts Write again t = None" unfolding first using 4(1) by simp
      then obtain before buffer after u where b: "again = before @ buffer # after" "before \<noteq> []" "Broadcasts Write before t = Some u"
        "\<not> wc_callback u" "erases_sockets u" using IH by blast
      then have "first # again = (first # before) @ buffer # after" "Broadcasts Write (first # before) s = Some u"
        using first [of before] by auto
      with b show ?erased by blast
    next
      assume ?erased
      then obtain before buffer after u where b: "first # again = (first # before) @ buffer # after"
        "Broadcasts Write (first # before) s = Some u" "\<not> wc_callback u" "erases_sockets u"
        by (auto simp: Cons_eq_append_conv)
      with first [of before] 4(3) have "before \<noteq> []" "Broadcasts Write before t = Some u" by (auto split: if_splits)
      with b IH have "Broadcasts Write again t = None" by auto
      then show ?undefined unfolding first using 4(1) by simp
    qed
  qed
qed simp

lemma bc_write_done_ok:
  assumes "bc_ok s"
  shows "\<exists>s'. bc_write_done i result s = Some s' \<and> bc_ok s'"
proof (cases "\<exists>k r. List.find (\<lambda>k. bs_id k = i) (bc_sockets s) = Some k \<and> bs_pending k = Some r")
  case True
  then obtain k r where k: "List.find (\<lambda>k. bs_id k = i) (bc_sockets s) = Some k" "bs_pending k = Some r" by blast
  let ?t = "upd_socket i (\<lambda>k. k\<lparr>bs_pending := None, bs_taken := bs_taken k @ take (nat result) r\<rparr>) s"
  have "i \<in> waiting s" using k find_Some_mem [OF k(1)] by (auto simp: in_waiting)
  then have "card (waiting s) = Suc (card (waiting s - {i}))" by (metis card.remove finite_waiting)
  then have "round_ok (Suc (card (waiting ?t))) (bc_broadcasts s) ?t" using assms by (simp add: bc_ok_def waiting_upd_done)
  from OnWrite_round [OF this, of i result] k assms show ?thesis
    by (auto simp: bc_write_done_def bc_ok_def)
next
  case False
  with assms show ?thesis by (auto simp: bc_write_done_def split: option.splits)
qed

lemma bc_exec_ok:
  assumes "bc_ok s" "bc_permits ev s" "writes_honestly Write" "bc_exec Write ev s = Some s'"
  shows "bc_ok s'"
proof (cases ev)
  case (BcAdd i)
  have "waiting (AddSocket i s) = waiting s" by (auto simp: in_waiting AddSocket_def)
  with BcAdd assms have "s' = AddSocket i s" "waiting s' = waiting s" by auto
  with BcAdd assms show ?thesis by (auto simp: bc_ok_def AddSocket_def)
next
  case (BcLost i)
  with assms show ?thesis by (auto simp: bc_ok_def waiting_upd_same)
next
  case (BcBroadcast buffers)
  with assms show ?thesis using Broadcasts_ok by auto
next
  case (BcWriteDone i result)
  with assms(4) bc_write_done_ok [OF assms(1), of i result] show ?thesis by auto
qed

text \<open>What breaks: a callback that broadcasts again while its own broadcast still walks the sockets, and one of them is closed.\<close>

definition breaks_iterator :: "(nat \<Rightarrow> nat \<Rightarrow> bytes \<Rightarrow> int) \<Rightarrow> bc_event \<Rightarrow> broadcaster \<Rightarrow> bool" where
  "breaks_iterator Write ev s \<longleftrightarrow>
     (\<exists>before buffer after t. ev = BcBroadcast (before @ buffer # after) \<and> before \<noteq> [] \<and> Broadcasts Write before s = Some t \<and>
        \<not> wc_callback t \<and> erases_sockets t)"

lemma bc_exec_None_iff:
  assumes "bc_ok s" "bc_permits ev s" "writes_honestly Write"
  shows "bc_exec Write ev s = None \<longleftrightarrow> breaks_iterator Write ev s"
proof (cases ev)
  case (BcBroadcast buffers)
  with assms show ?thesis using Broadcasts_None_iff [OF assms(1) _ _ assms(3)] by (simp add: breaks_iterator_def)
next
  case (BcWriteDone i result)
  with bc_write_done_ok [OF assms(1), of i result] show ?thesis by (auto simp: breaks_iterator_def)
qed (simp_all add: breaks_iterator_def)

interpretation broadcast: inductive_invariant "\<lambda>s. s = new_broadcaster"
  "\<lambda>s t. writes_honestly Write \<and> bc_step Write s t" bc_ok
  for Write
proof
  show "s = new_broadcaster \<Longrightarrow> bc_ok s" for s
    by (simp add: bc_ok_def new_broadcaster_def round_ok_def waiting_def worst_def)
  show "bc_ok t" if "bc_ok s" "writes_honestly Write \<and> bc_step Write s t" for s t
  proof -
    from that(2) obtain ev where ev: "bc_permits ev s" "bc_exec Write ev s = Some t" "writes_honestly Write"
      by (blast elim: bc_stepE)
    show ?thesis by (rule bc_exec_ok [OF that(1) ev(1,3,2)])
  qed
qed

section \<open>A broadcast that reaches all\<close>

definition clean :: "'a write_counter_scheme \<Rightarrow> bool" where
  "clean s \<longleftrightarrow> (\<forall>r \<in> set (wc_outcomes s). 0 \<le> r)"

lemma count_write_clean:
  assumes "round_ok (Suc n) b s" "clean s" "0 \<le> result"
  shows "\<exists>s' rs. count_write result s = Some s' \<and> clean s' \<and> wc_answers s' = wc_answers s @ (if n = 0 then [(rs, 0)] else [])"
proof -
  have "0 \<le> worst (wc_outcomes s)" using assms(2) by (simp add: clean_def worst_nonneg)
  moreover have "worst rs \<le> 0" for rs by (induction rs rule: rev_induct) (simp_all add: worst_def)
  ultimately have "worst (wc_outcomes s) = 0" by (metis order_antisym)
  with assms show ?thesis by (auto simp: count_write_def Let_def round_ok_def clean_def)
qed

definition taking :: "nat \<Rightarrow> bytes \<Rightarrow> bc_socket \<Rightarrow> bc_socket" where
  "taking i bs k = (if bs_id k = i then k\<lparr>bs_taken := bs_taken k @ bs\<rparr> else k)"

lemma write_socket_clean:
  assumes "round_ok (Suc n) b s" "clean s" "remaining \<noteq> []" "\<forall>n i bs. bs \<noteq> [] \<longrightarrow> 0 < Write n i bs \<and> Write n i bs \<le> int (length bs)"
  shows "\<exists>s' rs. write_socket Write i remaining s = Some s' \<and> clean s' \<and> round_ok n b s' \<and>
    bc_sockets s' = map (taking i remaining) (bc_sockets s) \<and> wc_answers s' = wc_answers s @ (if n = 0 then [(rs, 0)] else [])"
  using assms
proof (induction Write i remaining s rule: write_socket.induct)
  case (1 Write i remaining s)
  let ?rv = "Write (bc_calls s) i remaining" and ?s1 = "s\<lparr>bc_calls := bc_calls s + 1\<rparr>"
  let ?s2 = "upd_socket i (\<lambda>k. k\<lparr>bs_taken := bs_taken k @ take (nat ?rv) remaining\<rparr>) ?s1"
  have "0 < ?rv \<and> ?rv \<le> int (length remaining)" using "1.prems"(3,4) by blast
  then have rv: "0 < ?rv" "?rv \<noteq> ERR_IO_PENDING" "\<not> ?rv > int (length remaining)" "\<not> ?rv \<le> 0" by (simp_all add: net_errors)
  have s2: "round_ok (Suc n) b ?s2" "clean ?s2" "wc_answers ?s2 = wc_answers s" using "1.prems"(1,2) by (simp_all add: clean_def upd_socket_def)
  have k2: "bc_sockets ?s2 = map (taking i (take (nat ?rv) remaining)) (bc_sockets s)" by (simp add: upd_socket_def taking_def)
  show ?case
  proof (cases "drop (nat ?rv) remaining = []")
    case True
    with rv "1.prems"(3) have eq: "write_socket Write i remaining s = count_write ?rv ?s2"
      by (subst write_socket.simps) (auto simp: Let_def Broadcaster_OnWrite_def net_errors)
    obtain s' rs where s': "count_write ?rv ?s2 = Some s'" "clean s'" "wc_answers s' = wc_answers ?s2 @ (if n = 0 then [(rs, 0)] else [])"
      using count_write_clean [OF s2(1,2) less_imp_le [OF rv(1)]] by blast
    moreover have "take (nat ?rv) remaining = remaining" using True by simp
    ultimately show ?thesis
      using eq s2(3) k2 count_write_ok [OF s'(1) s2(1)] count_write_sockets [OF s'(1)] by auto
  next
    case False
    with rv "1.prems"(3) have eq: "write_socket Write i remaining s = write_socket Write i (drop (nat ?rv) remaining) ?s2"
      by (subst write_socket.simps) (simp add: Let_def)
    have "map (taking i (drop (nat ?rv) remaining)) (bc_sockets ?s2) = map (taking i remaining) (bc_sockets s)"
      unfolding k2 by (simp add: taking_def)
    with "1.IH" [OF "1.prems"(3) refl refl rv(2,3) refl _ s2(1,2) False "1.prems"(4)] False rv(4) eq s2(3) show ?thesis by auto
  qed
qed

lemma write_sockets_clean:
  assumes "round_ok (length is) b s" "clean s" "buffer \<noteq> []" "distinct is" "is \<noteq> []"
    "\<forall>n i bs. bs \<noteq> [] \<longrightarrow> 0 < Write n i bs \<and> Write n i bs \<le> int (length bs)"
  shows "\<exists>s' rs. write_sockets Write is buffer s = Some s' \<and>
    bc_sockets s' = map (\<lambda>k. if bs_id k \<in> set is then k\<lparr>bs_taken := bs_taken k @ buffer\<rparr> else k) (bc_sockets s) \<and>
    wc_answers s' = wc_answers s @ [(rs, 0)]"
  using assms(1,2,4,5)
proof (induction "is" arbitrary: s)
  case (Cons i "is")
  have "round_ok (Suc (length is)) b s" using Cons.prems(1) by simp
  from write_socket_clean [OF this Cons.prems(2) assms(3,6), of i] obtain t rs where
    t: "write_socket Write i buffer s = Some t" "clean t" "round_ok (length is) b t" "bc_sockets t = map (taking i buffer) (bc_sockets s)"
       "wc_answers t = wc_answers s @ (if length is = 0 then [(rs, 0)] else [])" by blast
  show ?case
  proof (cases "is = []")
    case True
    with t show ?thesis by (auto simp: taking_def)
  next
    case False
    with Cons.IH [of t] t Cons.prems(3) obtain s' rs' where s': "write_sockets Write is buffer t = Some s'"
      "bc_sockets s' = map (\<lambda>k. if bs_id k \<in> set is then k\<lparr>bs_taken := bs_taken k @ buffer\<rparr> else k) (bc_sockets t)"
      "wc_answers s' = wc_answers s @ [(rs', 0)]" by auto
    moreover have "bc_sockets s' = map (\<lambda>k. if bs_id k \<in> set (i # is) then k\<lparr>bs_taken := bs_taken k @ buffer\<rparr> else k) (bc_sockets s)"
      using s'(2) t(4) Cons.prems(3) by (auto simp: taking_def)
    ultimately show ?thesis using t(1) by auto
  qed
qed simp

section \<open>The web socket broadcaster\<close>

lemma round_ok_ws [simp]:
  "round_ok n b (s\<lparr>ws_channels := c\<rparr>) = round_ok n b s" "round_ok n b (s\<lparr>ws_pending := p\<rparr>) = round_ok n b s"
  "round_ok n b (s\<lparr>ws_broadcasts := m\<rparr>) = round_ok n b s"
  by (simp_all add: round_ok_def)

definition ws_ok :: "ws_broadcaster \<Rightarrow> bool" where
  "ws_ok s \<longleftrightarrow> round_ok (length (ws_pending s)) (ws_broadcasts s) s"

lemma count_write_ws: "count_write result (s :: ws_broadcaster) = Some s' \<Longrightarrow> ws_pending s' = ws_pending s \<and> ws_broadcasts s' = ws_broadcasts s"
  by (auto simp: count_write_def Let_def split: if_splits)

lemma ws_loop_round:
  assumes "round_ok (length (ws_pending s) + length cs) b s"
  shows "\<exists>s'. ws_loop SendFrame cs s = Some s' \<and> ws_broadcasts s' = ws_broadcasts s \<and> round_ok (length (ws_pending s')) b s'"
  using assms
proof (induction cs arbitrary: s)
  case (Cons c cs)
  have r: "round_ok (Suc (length (ws_pending s) + length cs)) b s" using Cons.prems by simp
  show ?case
  proof (cases "\<not> snd c \<and> SendFrame (fst c) = ERR_IO_PENDING")
    case True
    with Cons.IH [of "s\<lparr>ws_pending := ws_pending s @ [fst c]\<rparr>"] r show ?thesis by auto
  next
    case False
    let ?result = "if snd c then ERR_CONNECTION_RESET else SendFrame (fst c)"
    let ?t = "if snd c then s\<lparr>ws_channels := remove1 c (ws_channels s)\<rparr> else s"
    have "round_ok (Suc (length (ws_pending s) + length cs)) b ?t" using r by simp
    from count_write_round [OF this, of ?result] obtain t where
      t: "count_write ?result ?t = Some t" "round_ok (length (ws_pending s) + length cs) b t" by blast
    have "ws_pending ?t = ws_pending s" "ws_broadcasts ?t = ws_broadcasts s" by simp_all
    with t(2) Cons.IH [of t] count_write_ws [OF t(1)] obtain s' where "ws_loop SendFrame cs t = Some s'" "ws_broadcasts s' = ws_broadcasts s"
      "round_ok (length (ws_pending s')) b s'" by auto
    with False t(1) show ?thesis by (auto split: if_splits)
  qed
qed simp

lemma ws_Broadcast_ok:
  assumes "ws_ok s" "\<not> wc_callback s"
  shows "\<exists>s'. ws_Broadcast SendFrame s = Some s' \<and> ws_ok s'"
proof -
  have ok: "round_ok (length (ws_pending s)) (ws_broadcasts s) s" using assms(1) by (simp add: ws_ok_def)
  have idle: "ws_pending s = []" "to_write_count s = 0" "written_count s = 0" "round_ok 0 (ws_broadcasts s) s"
    using idle_round [OF ok assms(2)] ok by simp_all
  let ?s1 = "s\<lparr>ws_broadcasts := ws_broadcasts s + 1\<rparr>"
  have r: "round_ok 0 (ws_broadcasts s) ?s1" using idle(4) by simp
  show ?thesis
  proof (cases "ws_channels s = []")
    case True
    with idle assms(2) answer_unconnected_round [OF r] show ?thesis
      by (auto simp: ws_Broadcast_def ws_ok_def Let_def answer_unconnected_def)
  next
    case False
    let ?t = "start_count (length (ws_channels s)) ?s1"
    have "ws_pending ?t = []" "ws_broadcasts ?t = Suc (ws_broadcasts s)" using idle(1) by (simp_all add: start_count_def)
    with start_round [OF r, of "length (ws_channels s)"] False ws_loop_round [of ?t "ws_channels s" "Suc (ws_broadcasts s)" SendFrame]
    obtain s' where "ws_loop SendFrame (ws_channels s) ?t = Some s'" "ws_broadcasts s' = Suc (ws_broadcasts s)"
      "round_ok (length (ws_pending s')) (Suc (ws_broadcasts s)) s'" by auto
    with False assms(2) idle show ?thesis by (auto simp: ws_Broadcast_def ws_ok_def Let_def)
  qed
qed

lemma ws_write_done_ok:
  assumes "ws_ok s"
  shows "\<exists>s'. ws_write_done i result s = Some s' \<and> ws_ok s'"
proof (cases "i \<in> set (ws_pending s)")
  case True
  let ?t = "s\<lparr>ws_pending := remove1 i (ws_pending s)\<rparr>"
  have "length (ws_pending s) = Suc (length (remove1 i (ws_pending s)))" using True length_pos_if_in_set [OF True] by (simp add: length_remove1)
  with assms have "round_ok (Suc (length (ws_pending ?t))) (ws_broadcasts s) ?t" by (simp add: ws_ok_def)
  from count_write_round [OF this] obtain s' where s': "count_write result ?t = Some s'"
    "round_ok (length (ws_pending ?t)) (ws_broadcasts s) s'" by blast
  with True count_write_ws [OF s'(1)] show ?thesis by (simp add: ws_write_done_def ws_ok_def)
qed (use assms in \<open>simp add: ws_write_done_def\<close>)

lemma ws_exec_ok:
  assumes "ws_ok s" "ws_permits ev s"
  shows "\<exists>s'. ws_exec ev s = Some s' \<and> ws_ok s'"
proof (cases ev)
  case (WsChannels cs)
  with assms show ?thesis by (simp add: ws_ok_def)
qed (use assms ws_Broadcast_ok ws_write_done_ok in auto)

interpretation ws_broadcast: inductive_invariant "\<lambda>s. s = new_ws_broadcaster" ws_step ws_ok
proof
  show "s = new_ws_broadcaster \<Longrightarrow> ws_ok s" for s by (simp add: ws_ok_def new_ws_broadcaster_def round_ok_def worst_def)
  show "ws_ok t" if "ws_ok s" "ws_step s t" for s t
  proof -
    from that(2) obtain ev where ev: "ws_permits ev s" "ws_exec ev s = Some t" by (blast elim: ws_stepE)
    with ws_exec_ok [OF that(1) ev(1)] show ?thesis by simp
  qed
qed

section \<open>Properties\<close>

lemma bc_reachable_ok:
  assumes "reachable (\<lambda>s. s = new_broadcaster) (bc_step Write) s" "writes_honestly Write"
  shows "bc_ok s"
  using broadcast.inv_reachable [of Write s] assms by simp

text \<open>
  C29.  Every broadcast is answered exactly once.  The number of answers, and one more while a broadcast is under way, is
  the number of broadcasts; one is under way exactly while a socket has a pending write; an answer is OK exactly when there
  was a socket to write to and the write of no socket failed, and with no socket it is that error; and what may happen next
  is defined, with one exception: the callback of a broadcast that was through at once broadcasts again while the loop that
  ran it still walks the sockets, and the inner broadcast erases one of them.
\<close>

theorem broadcasts_answered_once:
  assumes "reachable (\<lambda>s. s = new_broadcaster) (bc_step Write) s" "writes_honestly Write"
  shows "length (wc_answers s) + (if wc_callback s then 1 else 0) = bc_broadcasts s \<and>
    (wc_callback s \<longleftrightarrow> (\<exists>k \<in> set (bc_sockets s). bs_pending k \<noteq> None)) \<and>
    (\<forall>(rs, a) \<in> set (wc_answers s). (0 \<le> a \<longleftrightarrow> rs \<noteq> [] \<and> (\<forall>r \<in> set rs. 0 \<le> r)) \<and> (rs = [] \<longrightarrow> a = ERR_SOCKET_NOT_CONNECTED)) \<and>
    (bc_permits ev s \<longrightarrow> (bc_exec Write ev s = None \<longleftrightarrow> breaks_iterator Write ev s))"
proof -
  have ok: "bc_ok s" using bc_reachable_ok [OF assms] .
  then have r: "round_ok (card (waiting s)) (bc_broadcasts s) s" by (simp add: bc_ok_def)
  have "card (waiting s) > 0 \<longleftrightarrow> (\<exists>k \<in> set (bc_sockets s). bs_pending k \<noteq> None)"
    by (auto simp: card_gt_0_iff waiting_def)
  moreover have "bc_permits ev s \<longrightarrow> (bc_exec Write ev s = None \<longleftrightarrow> breaks_iterator Write ev s)"
    using bc_exec_None_iff [OF ok _ assms(2)] by blast
  moreover have "(0 \<le> a \<longleftrightarrow> rs \<noteq> [] \<and> (\<forall>r \<in> set rs. 0 \<le> r)) \<and> (rs = [] \<longrightarrow> a = ERR_SOCKET_NOT_CONNECTED)"
    if "(rs, a) \<in> set (wc_answers s)" for rs a
    using that round_ok_answers(3,4) [OF r] by fastforce
  ultimately show ?thesis using round_ok_answers(1,2) [OF r] by auto
qed

definition demo_sockets :: "nat \<Rightarrow> nat \<Rightarrow> bytes \<Rightarrow> int" where
  "demo_sockets n i bs = (if i = 1 then min 1 (int (length bs)) else if i = 2 then ERR_IO_PENDING else ERR_CONNECTION_RESET)"

primrec bc_run :: "(nat \<Rightarrow> nat \<Rightarrow> bytes \<Rightarrow> int) \<Rightarrow> bc_event list \<Rightarrow> broadcaster \<Rightarrow> broadcaster option" where
  "bc_run Write [] s = Some s"
| "bc_run Write (ev # evs) s = (if bc_permits ev s then Option.bind (bc_exec Write ev s) (bc_run Write evs) else None)"

lemma bc_run_reachable:
  "bc_run Write evs s = Some s' \<Longrightarrow> reachable (\<lambda>s. s = new_broadcaster) (bc_step Write) s \<Longrightarrow>
   reachable (\<lambda>s. s = new_broadcaster) (bc_step Write) s'"
proof (induction evs arbitrary: s)
  case (Cons ev evs)
  from Cons.prems(1) obtain t where "bc_permits ev s" "bc_exec Write ev s = Some t" "bc_run Write evs t = Some s'"
    by (auto split: if_splits bind_splits)
  with Cons.IH Cons.prems(2) show ?case by (metis bc_step.intros reachable.move)
qed simp

text \<open>Three sockets: one takes a byte at a time, one waits, and one is reset.\<close>

definition demo_broadcast :: broadcaster where
  "demo_broadcast = the (bc_run demo_sockets [BcAdd 1, BcAdd 2, BcAdd 3, BcBroadcast [[7, 8]], BcWriteDone 2 2, BcBroadcast [[9]]] new_broadcaster)"

lemma demo_broadcast_reachable: "reachable (\<lambda>s. s = new_broadcaster) (bc_step demo_sockets) demo_broadcast"
proof (rule bc_run_reachable)
  have "bc_run demo_sockets [BcAdd 1, BcAdd 2, BcAdd 3, BcBroadcast [[7, 8]], BcWriteDone 2 2, BcBroadcast [[9]]] new_broadcaster \<noteq> None"
    by code_simp
  then show "bc_run demo_sockets [BcAdd 1, BcAdd 2, BcAdd 3, BcBroadcast [[7, 8]], BcWriteDone 2 2, BcBroadcast [[9]]] new_broadcaster =
      Some demo_broadcast"
    unfolding demo_broadcast_def by (rule option.collapse [symmetric])
  show "reachable (\<lambda>s. s = new_broadcaster) (bc_step demo_sockets) new_broadcaster" by (simp add: reachable.start)
qed

theorem broadcasts_answered_once_witness:
  "wc_answers demo_broadcast = [([1, - 101, 2], - 101)] \<and> bc_broadcasts demo_broadcast = 2 \<and> wc_callback demo_broadcast \<and>
   map bs_id (bc_sockets demo_broadcast) = [1, 2] \<and> (\<exists>k \<in> set (bc_sockets demo_broadcast). bs_pending k \<noteq> None)"
proof -
  have run: "wc_answers demo_broadcast = [([1, - 101, 2], - 101)]" "bc_broadcasts demo_broadcast = 2" "wc_callback demo_broadcast"
    "map bs_id (bc_sockets demo_broadcast) = [1, 2]" by code_simp+
  have "writes_honestly demo_sockets" by (simp add: writes_honestly_def demo_sockets_def net_errors)
  from broadcasts_answered_once [OF demo_broadcast_reachable this] run show ?thesis by simp
qed

text \<open>
  C30.  Over sockets that take at least a byte of every write a broadcast is answered at once with OK, and every socket
  has taken exactly the buffer; only with no socket left it is answered with an error.
\<close>

theorem broadcast_reaches_all:
  assumes "reachable (\<lambda>s. s = new_broadcaster) (bc_step Write) s" "\<not> wc_callback s" "buffer \<noteq> []"
    "\<forall>n i bs. bs \<noteq> [] \<longrightarrow> 0 < Write n i bs" "writes_honestly Write"
  shows "\<exists>s'. Broadcast Write buffer s = Some s' \<and>
    bc_sockets s' = map (\<lambda>k. k\<lparr>bs_taken := bs_taken k @ buffer\<rparr>) (bc_sockets (EraseClosedSockets s)) \<and>
    (\<exists>rs. wc_answers s' = wc_answers s @ [(rs, if bc_sockets s' = [] then ERR_SOCKET_NOT_CONNECTED else net_OK)])"
proof -
  have ok: "bc_ok s" using bc_reachable_ok [OF assms(1,5)] .
  let ?s1 = "(EraseClosedSockets s)\<lparr>bc_broadcasts := bc_broadcasts s + 1\<rparr>"
  from ok have r: "round_ok 0 (bc_broadcasts s) s" "to_write_count s = 0" "written_count s = 0" "wc_outcomes s = []"
    using idle_round [of "card (waiting s)"] assms(2) unfolding bc_ok_def by (fastforce, blast, blast, fastforce simp: round_ok_def)
  have pos: "\<forall>n i bs. bs \<noteq> [] \<longrightarrow> 0 < Write n i bs \<and> Write n i bs \<le> int (length bs)"
    using assms(4,5) by (simp add: writes_honestly_def)
  have same: "wc_answers ?s1 = wc_answers s" "wc_outcomes ?s1 = []" using r(4) by (simp_all add: EraseClosedSockets_def)
  show ?thesis
  proof (cases "bc_sockets ?s1 = []")
    case True
    with r(2,3) assms(2,3) same show ?thesis by (simp add: Broadcast_def Let_def answer_unconnected_def net_errors)
  next
    case False
    let ?t = "start_count (length (bc_sockets ?s1)) ?s1"
    have t: "round_ok (length (ids ?s1)) (Suc (bc_broadcasts s)) ?t" "clean ?t" "distinct (ids ?s1)" "bc_sockets ?t = bc_sockets ?s1"
      "wc_answers ?t = wc_answers s"
      using start_round [of "bc_broadcasts s" ?s1 "length (bc_sockets ?s1)"] r(1) False same ok
      by (auto simp: clean_def start_count_def EraseClosedSockets_def bc_ok_def distinct_map_filter)
    from write_sockets_clean [OF t(1,2) assms(3) t(3) _ pos] False obtain s' rs where
      s': "write_sockets Write (ids ?s1) buffer ?t = Some s'"
      "bc_sockets s' = map (\<lambda>k. if bs_id k \<in> set (ids ?s1) then k\<lparr>bs_taken := bs_taken k @ buffer\<rparr> else k) (bc_sockets ?t)"
      "wc_answers s' = wc_answers ?t @ [(rs, 0)]" by auto
    have "bc_sockets s' = map (\<lambda>k. k\<lparr>bs_taken := bs_taken k @ buffer\<rparr>) (bc_sockets ?s1)" using s'(2) t(4) by simp
    moreover have "Broadcast Write buffer s = Some s'" using s'(1) r(2,3) assms(2,3) False by (simp add: Broadcast_def Let_def)
    ultimately show ?thesis using s'(3) t(5) False by (auto simp: net_errors)
  qed
qed

theorem broadcast_reaches_all_witness:
  "\<exists>s'. Broadcast (\<lambda>n i bs. min 1 (int (length bs))) [7, 8] (AddSocket 2 (AddSocket 1 new_broadcaster)) = Some s' \<and>
     map bs_taken (bc_sockets s') = [[7, 8], [7, 8]]"
proof -
  let ?W = "\<lambda>n i (bs :: bytes). min 1 (int (length bs))" and ?s = "AddSocket 2 (AddSocket 1 new_broadcaster)"
  have "reachable (\<lambda>s. s = new_broadcaster) (bc_step ?W) ?s"
    by (rule bc_run_reachable [of ?W "[BcAdd 1, BcAdd 2]" new_broadcaster])
      (simp_all add: reachable.start AddSocket_def new_broadcaster_def)
  moreover have "\<not> wc_callback ?s" "bc_sockets (EraseClosedSockets ?s) = bc_sockets ?s" "map bs_taken (bc_sockets ?s) = [[], []]"
    by (simp_all add: AddSocket_def new_broadcaster_def EraseClosedSockets_def)
  ultimately obtain s' where "Broadcast ?W [7, 8] ?s = Some s'"
    "bc_sockets s' = map (\<lambda>k. k\<lparr>bs_taken := bs_taken k @ [7, 8]\<rparr>) (bc_sockets ?s)"
    using broadcast_reaches_all [of ?W ?s "[7, 8]"] by (auto simp: writes_honestly_def)
  then show ?thesis by (simp add: AddSocket_def new_broadcaster_def)
qed

text \<open>The last socket is reset, and the callback broadcasts at once: the loop goes on with an iterator that is not valid.\<close>

lemma broadcast_in_callback_breaks_iterator:
  "case bc_run demo_sockets [BcAdd 1, BcAdd 3] new_broadcaster of
     None \<Rightarrow> False
   | Some s \<Rightarrow> bc_permits (BcBroadcast [[7], [8]]) s \<and> bc_exec demo_sockets (BcBroadcast [[7], [8]]) s = None \<and>
       bc_exec demo_sockets (BcBroadcast [[7]]) s \<noteq> None"
  by code_simp

text \<open>A pending write that completes with a part of the buffer counts as a success: the rest is not written.\<close>

lemma short_pending_write_lost:
  "case bc_run demo_sockets [BcAdd 2, BcBroadcast [[7, 8, 9]], BcWriteDone 2 1] new_broadcaster of
     None \<Rightarrow> False
   | Some s \<Rightarrow> wc_answers s = [([1], 0)] \<and> map bs_taken (bc_sockets s) = [[7]] \<and> \<not> wc_callback s"
  by code_simp

lemma ws_broadcasts_answered_once:
  assumes "reachable (\<lambda>s. s = new_ws_broadcaster) ws_step s"
  shows "length (wc_answers s) + (if wc_callback s then 1 else 0) = ws_broadcasts s \<and> (wc_callback s \<longleftrightarrow> ws_pending s \<noteq> [])"
  using round_ok_answers [of "length (ws_pending s)" "ws_broadcasts s" s] ws_broadcast.inv_reachable [OF assms]
  by (simp add: ws_ok_def)

end
