(* ===== verification/Felicia_BioAdapter.thy ===== *)
theory Felicia_BioAdapter
  imports Felicia_Net "HOL-Library.Sublist"
begin

text \<open>
  \<open>core/channel/socket/socket_bio_adapter.cc\<close>: between a stream socket, which completes its reads and writes later, and
  the BIO of the SSL library, which is called again when it could not go on.  What is to be written waits in a
  ring buffer.  The answers of the socket to a synchronous write are a parameter, given the number of the call and
  the bytes offered; its answers to a read come with the event.  \<open>None\<close> is undefined behaviour, a failed
  \<open>CHECK\<close>, or a loop that does not end.
\<close>

section \<open>net::GrowableIOBuffer\<close>

record growable =
  gb_data :: bytes
  gb_offset :: nat

definition gb_capacity :: "growable \<Rightarrow> nat" where
  "gb_capacity b = length (gb_data b)"

definition RemainingCapacity :: "growable \<Rightarrow> nat" where
  "RemainingCapacity b = gb_capacity b - gb_offset b"

text \<open>\<open>memcpy\<close> to a position from the start of the buffer.\<close>

definition gb_put :: "nat \<Rightarrow> bytes \<Rightarrow> growable \<Rightarrow> growable option" where
  "gb_put i bs b =
     (if i + length bs \<le> gb_capacity b
      then Some (b\<lparr>gb_data := take i (gb_data b) @ bs @ drop (i + length bs) (gb_data b)\<rparr>) else None)"

section \<open>The adapter\<close>

datatype bio_signal = OnReadReady | OnWriteReady

text \<open>An answer of \<open>Read\<close>, or what a pending one completes with; no bytes are the end of the stream.\<close>

datatype read_answer = RdPending | RdError int | RdBytes bytes

text \<open>
  The first group of fields is that of the class; \<open>bio_alive\<close> and the flags are in the BIO, and \<open>bio_tasks\<close> counts
  the posted calls of \<open>CallOnReadReady\<close>.  \<open>bio_resume\<close> is the result that the rest of \<open>OnSocketWriteComplete\<close>, behind
  \<open>OnWriteReady\<close>, still has to look at.  The last group records what happened: the calls of \<open>Write\<close>, the bytes a pending
  one was given, signals, errors put, which of the two was told to try again and not signalled since, and the bytes
  accepted for writing, written, read and handed out.
\<close>

record bio_adapter =
  bio_alive :: bool
  bio_retry_read :: bool
  bio_retry_write :: bool
  read_buffer_capacity :: nat
  read_buffer :: "bytes option"
  read_offset :: nat
  read_result :: int
  write_buffer_capacity :: nat
  write_buffer :: "growable option"
  write_buffer_used :: nat
  write_error :: int
  bio_tasks :: nat
  bio_resume :: "int option"
  bio_writes :: nat
  bio_in_flight :: bytes
  bio_signals :: "bio_signal list"
  bio_errors :: "int list"
  bio_read_blocked :: bool
  bio_write_blocked :: bool
  bio_accepted :: bytes
  bio_written :: bytes
  bio_received :: bytes
  bio_delivered :: bytes

definition new_SocketBIOAdapter :: "nat \<Rightarrow> nat \<Rightarrow> bio_adapter" where
  "new_SocketBIOAdapter rcap wcap = \<lparr>bio_alive = True, bio_retry_read = False, bio_retry_write = False,
     read_buffer_capacity = rcap, read_buffer = None, read_offset = 0, read_result = 0,
     write_buffer_capacity = wcap, write_buffer = None, write_buffer_used = 0, write_error = net_OK,
     bio_tasks = 0, bio_resume = None, bio_writes = 0, bio_in_flight = [], bio_signals = [], bio_errors = [],
     bio_read_blocked = False, bio_write_blocked = False,
     bio_accepted = [], bio_written = [], bio_received = [], bio_delivered = []\<rparr>"

definition HasPendingReadData :: "bio_adapter \<Rightarrow> bool" where
  "HasPendingReadData s \<longleftrightarrow> read_result s > 0"

definition GetAllocationSize :: "bio_adapter \<Rightarrow> nat" where
  "GetAllocationSize s =
     (if read_buffer s \<noteq> None then read_buffer_capacity s else 0) + (if write_buffer s \<noteq> None then write_buffer_capacity s else 0)"

definition OpenSSLPutNetError :: "int \<Rightarrow> bio_adapter \<Rightarrow> bio_adapter" where
  "OpenSSLPutNetError e s = s\<lparr>bio_errors := bio_errors s @ [e]\<rparr>"

definition signal_read :: "bio_adapter \<Rightarrow> bio_adapter" where
  "signal_read s = s\<lparr>bio_signals := bio_signals s @ [OnReadReady], bio_read_blocked := False\<rparr>"

definition signal_write :: "bio_adapter \<Rightarrow> bio_adapter" where
  "signal_write s = s\<lparr>bio_signals := bio_signals s @ [OnWriteReady], bio_write_blocked := False\<rparr>"

definition failed_write :: "bio_adapter \<Rightarrow> bool" where
  "failed_write s \<longleftrightarrow> write_error s \<noteq> net_OK \<and> write_error s \<noteq> ERR_IO_PENDING"

subsection \<open>Reading\<close>

definition HandleSocketReadResult :: "read_answer \<Rightarrow> bio_adapter \<Rightarrow> bio_adapter" where
  "HandleSocketReadResult a s =
     (case a of
        RdBytes (b # bs) \<Rightarrow>
          s\<lparr>read_result := int (length (b # bs)), read_buffer := Some (b # bs), bio_received := bio_received s @ b # bs\<rparr>
      | RdBytes [] \<Rightarrow> s\<lparr>read_result := ERR_CONNECTION_CLOSED, read_buffer := None\<rparr>
      | RdError e \<Rightarrow> s\<lparr>read_result := e, read_buffer := None\<rparr>
      | RdPending \<Rightarrow> s)"

definition start_read :: "read_answer \<Rightarrow> bio_adapter \<Rightarrow> bio_adapter" where
  "start_read a s =
     (let s0 = s\<lparr>read_buffer := Some []\<rparr> in
      if a = RdPending then s0\<lparr>read_result := ERR_IO_PENDING\<rparr> else HandleSocketReadResult a s0)"

definition take_read :: "int \<Rightarrow> bio_adapter \<Rightarrow> (int \<times> bytes \<times> bio_adapter) option" where
  "take_read len s =
     (if int (read_offset s) < read_result s then
        (case read_buffer s of
           None \<Rightarrow> None
         | Some b \<Rightarrow>
             let n = min (nat len) (nat (read_result s) - read_offset s);
                 out = take n (drop (read_offset s) b);
                 s2 = s\<lparr>read_offset := read_offset s + n, bio_delivered := bio_delivered s @ out\<rparr> in
             Some (int n, out,
               if int (read_offset s2) = read_result s2
               then s2\<lparr>read_buffer := None, read_offset := 0, read_result := 0\<rparr> else s2))
      else None)"

definition BIORead :: "read_answer \<Rightarrow> int \<Rightarrow> bio_adapter \<Rightarrow> (int \<times> bytes \<times> bio_adapter) option" where
  "BIORead a len s =
     (if len \<le> 0 then Some (len, [], s)
      else if failed_write s \<and> (read_result s = 0 \<or> read_result s = ERR_IO_PENDING)
      then Some (-1, [], OpenSSLPutNetError (write_error s) s)
      else let s1 = (if read_result s = 0 then start_read a s else s) in
        if read_result s1 = ERR_IO_PENDING then Some (-1, [], s1\<lparr>bio_retry_read := True, bio_read_blocked := True\<rparr>)
        else if read_result s1 < 0 then Some (-1, [], OpenSSLPutNetError (read_result s1) s1)
        else take_read len s1)"

definition OnSocketReadComplete :: "read_answer \<Rightarrow> bio_adapter \<Rightarrow> bio_adapter" where
  "OnSocketReadComplete a s = signal_read (HandleSocketReadResult a s)"

definition CallOnReadReady :: "bio_adapter \<Rightarrow> bio_adapter" where
  "CallOnReadReady s = (if read_result s = ERR_IO_PENDING then signal_read s else s)"

subsection \<open>Writing\<close>

definition HandleSocketWriteResult :: "int \<Rightarrow> bio_adapter \<Rightarrow> bio_adapter option" where
  "HandleSocketWriteResult result s =
     (if result < 0 then Some (s\<lparr>write_error := result, write_buffer := None, write_buffer_used := 0\<rparr>)
      else case write_buffer s of
        None \<Rightarrow> None
      | Some b \<Rightarrow>
          let n = nat result; offset = gb_offset b + n in
          if offset \<le> gb_capacity b \<and> n \<le> write_buffer_used s then
            Some (s\<lparr>write_buffer := (if write_buffer_used s - n = 0 then None
                       else Some (b\<lparr>gb_offset := (if gb_capacity b - offset = 0 then 0 else offset)\<rparr>)),
                    write_buffer_used := write_buffer_used s - n, write_error := net_OK,
                    bio_written := bio_written s @ take n (drop (gb_offset b) (gb_data b))\<rparr>)
          else None)"

partial_function (option) SocketWrite :: "(nat \<Rightarrow> bytes \<Rightarrow> int) \<Rightarrow> bio_adapter \<Rightarrow> bio_adapter option" where
  "SocketWrite Write s =
     (if write_error s = net_OK \<and> write_buffer_used s > 0 then
        (case write_buffer s of
           None \<Rightarrow> None
         | Some b \<Rightarrow>
             let write_size = min (write_buffer_used s) (RemainingCapacity b);
                 chunk = take write_size (drop (gb_offset b) (gb_data b));
                 result = Write (bio_writes s) chunk;
                 s1 = s\<lparr>bio_writes := bio_writes s + 1\<rparr> in
             if result = ERR_IO_PENDING then Some (s1\<lparr>write_error := ERR_IO_PENDING, bio_in_flight := chunk\<rparr>)
             else Option.bind (HandleSocketWriteResult result s1) (SocketWrite Write))
      else Some s)"

declare SocketWrite.simps [code]

text \<open>Filling the room behind the data, and then the room before it: the rest of the input with the new state.\<close>

definition fill_after :: "growable \<Rightarrow> bytes \<Rightarrow> nat \<Rightarrow> (growable \<times> bytes \<times> nat) option" where
  "fill_after b inp used =
     (if used < RemainingCapacity b then
        (let chunk = min (RemainingCapacity b - used) (length inp) in
         map_option (\<lambda>b'. (b', drop chunk inp, used + chunk)) (gb_put (gb_offset b + used) (take chunk inp) b))
      else Some (b, inp, used))"

definition fill_before :: "growable \<Rightarrow> bytes \<Rightarrow> nat \<Rightarrow> (growable \<times> bytes \<times> nat) option" where
  "fill_before b inp used =
     (if inp \<noteq> [] \<and> used < gb_capacity b then
        (if RemainingCapacity b \<le> used then
           (let write_offset = used - RemainingCapacity b; chunk = min (length inp) (gb_capacity b - used) in
            map_option (\<lambda>b'. (b', drop chunk inp, used + chunk)) (gb_put write_offset (take chunk inp) b))
         else None)
      else Some (b, inp, used))"

definition new_write_buffer :: "bio_adapter \<Rightarrow> growable" where
  "new_write_buffer s = (case write_buffer s of
       Some b \<Rightarrow> b | None \<Rightarrow> \<lparr>gb_data = replicate (write_buffer_capacity s) 0, gb_offset = 0\<rparr>)"

definition BIOWrite :: "(nat \<Rightarrow> bytes \<Rightarrow> int) \<Rightarrow> bytes \<Rightarrow> bio_adapter \<Rightarrow> (int \<times> bio_adapter) option" where
  "BIOWrite Write inp s =
     (if inp = [] then Some (0, s)
      else if failed_write s then Some (-1, OpenSSLPutNetError (write_error s) s)
      else let b = new_write_buffer s; s0 = s\<lparr>write_buffer := Some b\<rparr> in
        if write_buffer_used s = gb_capacity b then Some (-1, s0\<lparr>bio_retry_write := True, bio_write_blocked := True\<rparr>)
        else Option.bind (fill_after b inp (write_buffer_used s)) (\<lambda>(b1, inp1, used1).
          Option.bind (fill_before b1 inp1 used1) (\<lambda>(b2, inp2, used2).
            let bytes_copied = length inp - length inp2 in
            Option.bind (SocketWrite Write (s0\<lparr>write_buffer := Some b2, write_buffer_used := used2,
                           bio_accepted := bio_accepted s @ take bytes_copied inp\<rparr>))
              (\<lambda>s1. Some (int bytes_copied,
                 if failed_write s1 \<and> read_result s1 = ERR_IO_PENDING then s1\<lparr>bio_tasks := bio_tasks s1 + 1\<rparr> else s1)))))"

definition after_write_ready :: "int \<Rightarrow> bio_adapter \<Rightarrow> bio_adapter" where
  "after_write_ready result s = (if result < 0 \<and> read_result s = ERR_IO_PENDING then signal_read s else s)"

definition OnSocketWriteComplete :: "(nat \<Rightarrow> bytes \<Rightarrow> int) \<Rightarrow> int \<Rightarrow> bio_adapter \<Rightarrow> bio_adapter option" where
  "OnSocketWriteComplete Write result s =
     (case write_buffer s of
        None \<Rightarrow> None
      | Some b \<Rightarrow>
          let was_full = (write_buffer_used s = gb_capacity b) in
          Option.bind (Option.bind (HandleSocketWriteResult result s) (SocketWrite Write))
            (\<lambda>s1. Some (if was_full then (signal_write s1)\<lparr>bio_resume := Some result\<rparr> else after_write_ready result s1)))"

section \<open>Events\<close>

text \<open>
  \<open>BioResume\<close> is the return of the delegate from \<open>OnWriteReady\<close>, in which it may call the BIO or delete the adapter.
  Completions and tasks come from the message loop, and so not before it; they are not run for a deleted adapter.
\<close>

datatype bio_event =
    BioRead read_answer int
  | BioWrite bytes
  | BioReadDone read_answer
  | BioWriteDone int
  | BioResume
  | BioTask
  | BioDelete

definition clear_retry :: "bio_adapter \<Rightarrow> bio_adapter" where
  "clear_retry s = s\<lparr>bio_retry_read := False, bio_retry_write := False\<rparr>"

definition BIOReadWrapper :: "read_answer \<Rightarrow> int \<Rightarrow> bio_adapter \<Rightarrow> (int \<times> bytes \<times> bio_adapter) option" where
  "BIOReadWrapper a len s =
     (let s0 = clear_retry s in
      if \<not> bio_alive s then Some (-1, [], OpenSSLPutNetError ERR_UNEXPECTED s0) else BIORead a len s0)"

definition BIOWriteWrapper :: "(nat \<Rightarrow> bytes \<Rightarrow> int) \<Rightarrow> bytes \<Rightarrow> bio_adapter \<Rightarrow> (int \<times> bio_adapter) option" where
  "BIOWriteWrapper Write inp s =
     (let s0 = clear_retry s in
      if \<not> bio_alive s then Some (-1, OpenSSLPutNetError ERR_UNEXPECTED s0) else BIOWrite Write inp s0)"

fun bio_exec :: "(nat \<Rightarrow> bytes \<Rightarrow> int) \<Rightarrow> bio_event \<Rightarrow> bio_adapter \<Rightarrow> bio_adapter option" where
  "bio_exec Write (BioRead a len) s = map_option (\<lambda>r. snd (snd r)) (BIOReadWrapper a len s)"
| "bio_exec Write (BioWrite inp) s = map_option snd (BIOWriteWrapper Write inp s)"
| "bio_exec Write (BioReadDone a) s =
     (if bio_alive s \<and> bio_resume s = None \<and> read_result s = ERR_IO_PENDING then Some (OnSocketReadComplete a s) else Some s)"
| "bio_exec Write (BioWriteDone result) s =
     (if bio_alive s \<and> bio_resume s = None \<and> write_error s = ERR_IO_PENDING then OnSocketWriteComplete Write result s else Some s)"
| "bio_exec Write BioResume s =
     (case bio_resume s of
        None \<Rightarrow> Some s
      | Some result \<Rightarrow> Some ((if bio_alive s then after_write_ready result s else s)\<lparr>bio_resume := None\<rparr>))"
| "bio_exec Write BioTask s =
     (if bio_tasks s > 0 \<and> bio_resume s = None
      then Some ((if bio_alive s then CallOnReadReady s else s)\<lparr>bio_tasks := bio_tasks s - 1\<rparr>) else Some s)"
| "bio_exec Write BioDelete s = Some (s\<lparr>bio_alive := False\<rparr>)"

text \<open>
  What a socket may answer: it reads at most what there is room for and writes at most what it was given, fails
  with a negative error, and completes with something else than that it is pending.
\<close>

definition read_answer_ok :: "nat \<Rightarrow> read_answer \<Rightarrow> bool" where
  "read_answer_ok cap a = (case a of RdPending \<Rightarrow> True | RdError e \<Rightarrow> e < ERR_IO_PENDING | RdBytes bs \<Rightarrow> length bs \<le> cap)"

definition honest_write :: "(nat \<Rightarrow> bytes \<Rightarrow> int) \<Rightarrow> bool" where
  "honest_write Write \<longleftrightarrow> (\<forall>n bs. Write n bs \<le> int (length bs))"

fun bio_permits :: "bio_event \<Rightarrow> bio_adapter \<Rightarrow> bool" where
  "bio_permits (BioRead a len) s \<longleftrightarrow> read_answer_ok (read_buffer_capacity s) a"
| "bio_permits (BioReadDone a) s \<longleftrightarrow> a \<noteq> RdPending \<and> read_answer_ok (read_buffer_capacity s) a"
| "bio_permits (BioWriteDone result) s \<longleftrightarrow> result \<noteq> ERR_IO_PENDING \<and> result \<le> int (length (bio_in_flight s))"
| "bio_permits _ s \<longleftrightarrow> True"

inductive bio_step :: "(nat \<Rightarrow> bytes \<Rightarrow> int) \<Rightarrow> bio_adapter \<Rightarrow> bio_adapter \<Rightarrow> bool" for Write where
  "bio_permits ev s \<Longrightarrow> bio_exec Write ev s = Some s' \<Longrightarrow> bio_step Write s s'"

inductive_cases bio_stepE: "bio_step Write s s'"

end
