(* ===== verification/Felicia_BioProps.thy ===== *)
theory Felicia_BioProps
  imports Felicia_BioAdapter
begin

text \<open>
  The adapter keeps the bytes of both directions in order and without loss, its ring buffer is a bounded queue, and
  a caller that was told to try again is signalled.
\<close>

section \<open>The ring buffer as a queue\<close>

definition ring :: "growable \<Rightarrow> nat \<Rightarrow> bytes" where
  "ring b used = take used (drop (gb_offset b) (gb_data b) @ take (gb_offset b) (gb_data b))"

lemma length_ring [simp]: "used \<le> gb_capacity b \<Longrightarrow> length (ring b used) = used"
  by (auto simp: ring_def gb_capacity_def min_def)

lemma ring_advance:
  assumes "gb_offset b + n \<le> gb_capacity b" "n \<le> used" "used \<le> gb_capacity b"
  shows "ring (b\<lparr>gb_offset := gb_offset b + n\<rparr>) (used - n) = drop n (ring b used)"
    and "gb_offset b + n = gb_capacity b \<Longrightarrow> ring (b\<lparr>gb_offset := 0\<rparr>) (used - n) = drop n (ring b used)"
proof -
  let ?d = "gb_data b" and ?o = "gb_offset b"
  define A B C where "A = take n (drop ?o ?d)" and "B = drop (?o + n) ?d" and "C = take ?o ?d"
  have len: "length A = n" "used - n \<le> length (B @ C)"
    using assms by (auto simp: A_def B_def C_def gb_capacity_def min_def)
  have d: "drop ?o ?d = A @ B" by (simp add: A_def B_def add.commute flip: drop_drop)
  have t: "take (?o + n) ?d = C @ A" by (simp add: A_def C_def take_add)
  have "drop n (ring b used) = take (used - n) (drop n ((A @ B) @ C))"
    unfolding ring_def d C_def by (rule drop_take)
  with len(1) have r: "drop n (ring b used) = take (used - n) (B @ C)" by simp
  show "ring (b\<lparr>gb_offset := ?o + n\<rparr>) (used - n) = drop n (ring b used)"
    unfolding r using len by (simp add: ring_def t B_def [symmetric])
  assume "?o + n = gb_capacity b"
  then have "B = []" "?d = C @ A" using t by (simp_all add: B_def gb_capacity_def)
  then show "ring (b\<lparr>gb_offset := 0\<rparr>) (used - n) = drop n (ring b used)"
    unfolding r using len by (simp add: ring_def)
qed

text \<open>Where the next bytes go: behind the data, or to the start of the buffer.\<close>

lemma ring_put_after:
  assumes "gb_put (gb_offset b + used) bs b = Some b'"
  shows "ring b' (used + length bs) = ring b used @ bs" "gb_offset b' = gb_offset b" "gb_capacity b' = gb_capacity b"
proof -
  let ?d = "gb_data b" and ?o = "gb_offset b"
  from assms have le: "?o + used + length bs \<le> length ?d"
    and b': "b' = b\<lparr>gb_data := take (?o + used) ?d @ bs @ drop (?o + used + length bs) ?d\<rparr>"
    by (auto simp: gb_put_def gb_capacity_def split: if_splits)
  have "drop ?o (gb_data b') = take used (drop ?o ?d) @ bs @ drop (?o + used + length bs) ?d"
    using le by (simp add: b' drop_take)
  moreover have o': "gb_offset b' = ?o" "length (gb_data b') = length ?d" using le by (simp_all add: b')
  ultimately have "ring b' (used + length bs) = take used (drop ?o ?d) @ bs" using le by (auto simp: ring_def)
  with le show "ring b' (used + length bs) = ring b used @ bs" by (simp add: ring_def)
  from o' show "gb_offset b' = ?o" "gb_capacity b' = gb_capacity b" by (simp_all add: gb_capacity_def)
qed

lemma ring_put_before:
  assumes "gb_put (used - RemainingCapacity b) bs b = Some b'" "RemainingCapacity b \<le> used" "used + length bs \<le> gb_capacity b"
    "gb_offset b \<le> gb_capacity b"
  shows "ring b' (used + length bs) = ring b used @ bs" "gb_offset b' = gb_offset b" "gb_capacity b' = gb_capacity b"
proof -
  let ?d = "gb_data b" and ?o = "gb_offset b" and ?p = "used - RemainingCapacity b"
  have p: "?p + length bs \<le> ?o" "used = length ?d - ?o + ?p" "?o \<le> length ?d"
    using assms(2-) by (simp_all add: RemainingCapacity_def gb_capacity_def)
  have b': "b' = b\<lparr>gb_data := take ?p ?d @ bs @ drop (?p + length bs) ?d\<rparr>"
    using assms(1) by (auto simp: gb_put_def split: if_splits)
  have q: "?p + length bs \<le> length ?d" using p by linarith
  have "drop ?o (gb_data b') = drop ?o ?d" using p q by (simp add: b' min_absorb2)
  moreover have "take (?p + length bs) (take ?o (gb_data b')) = take ?p ?d @ bs" using p q by (simp add: b' min_absorb2)
  ultimately have "ring b' (used + length bs) = drop ?o ?d @ take ?p ?d @ bs"
    using p b' by (simp add: ring_def)
  moreover have "ring b used = drop ?o ?d @ take ?p ?d" 
    using p by (simp add: ring_def RemainingCapacity_def gb_capacity_def min_absorb1)
  ultimately show "ring b' (used + length bs) = ring b used @ bs" by simp
  show "gb_offset b' = ?o" "gb_capacity b' = gb_capacity b" using p by (simp_all add: b' gb_capacity_def)
qed

lemma fill_after_ring:
  assumes "fill_after b inp used = Some (b', inp', used')" "used \<le> gb_capacity b"
  shows "\<exists>bs. inp = bs @ inp' \<and> ring b' used' = ring b used @ bs \<and> gb_offset b' = gb_offset b \<and>
    gb_capacity b' = gb_capacity b \<and> used' = used + length bs \<and> used' \<le> gb_capacity b \<and> (inp' \<noteq> [] \<longrightarrow> RemainingCapacity b \<le> used')"
proof (cases "used < RemainingCapacity b")
  case True
  let ?n = "min (RemainingCapacity b - used) (length inp)"
  from True assms(1) have put: "gb_put (gb_offset b + used) (take ?n inp) b = Some b'" "inp' = drop ?n inp" "used' = used + ?n"
    by (auto simp: fill_after_def Let_def)
  have "used + ?n \<le> gb_capacity b" "inp' \<noteq> [] \<Longrightarrow> RemainingCapacity b \<le> used'"
    using True put by (auto simp: RemainingCapacity_def min_def)
  moreover have "length (take ?n inp) = ?n" by simp
  ultimately show ?thesis using ring_put_after [OF put(1)] put(2,3)
    by (intro exI [of _ "take ?n inp"]) simp
qed (use assms in \<open>auto simp: fill_after_def\<close>)

lemma fill_before_ring:
  assumes "fill_before b inp used = Some (b', inp', used')" "used \<le> gb_capacity b" "gb_offset b \<le> gb_capacity b"
  shows "\<exists>bs. inp = bs @ inp' \<and> ring b' used' = ring b used @ bs \<and> gb_offset b' = gb_offset b \<and>
    gb_capacity b' = gb_capacity b \<and> used' = used + length bs \<and> used' \<le> gb_capacity b \<and> (inp' \<noteq> [] \<longrightarrow> used' = gb_capacity b)"
proof (cases "inp \<noteq> [] \<and> used < gb_capacity b")
  case True
  let ?n = "min (length inp) (gb_capacity b - used)"
  from True assms(1) have put: "gb_put (used - RemainingCapacity b) (take ?n inp) b = Some b'" "inp' = drop ?n inp"
    "used' = used + ?n" "RemainingCapacity b \<le> used"
    by (auto simp: fill_before_def Let_def split: if_splits)
  have "used + ?n \<le> gb_capacity b" "inp' \<noteq> [] \<Longrightarrow> used' = gb_capacity b" using True put by (auto simp: min_def)
  moreover have "length (take ?n inp) = ?n" by simp
  ultimately show ?thesis using ring_put_before [OF put(1) put(4) _ assms(3)] put(2,3)
    by (intro exI [of _ "take ?n inp"]) simp
qed (use assms in \<open>auto simp: fill_before_def\<close>)

lemma fills_succeed:
  assumes "used \<le> gb_capacity b" "gb_offset b < gb_capacity b"
  shows "\<exists>r. Option.bind (fill_after b inp used) (\<lambda>(b1, inp1, used1). fill_before b1 inp1 used1) = Some r"
proof -
  have "\<exists>b1 inp1 used1. fill_after b inp used = Some (b1, inp1, used1)"
    using assms by (auto simp: fill_after_def Let_def gb_put_def RemainingCapacity_def min_def)
  then obtain b1 inp1 used1 where 1: "fill_after b inp used = Some (b1, inp1, used1)" by blast
  from fill_after_ring [OF 1 assms(1)] have "gb_offset b1 = gb_offset b" "gb_capacity b1 = gb_capacity b"
    "used1 \<le> gb_capacity b" "inp1 \<noteq> [] \<longrightarrow> RemainingCapacity b \<le> used1" by auto
  with assms(2) have "\<exists>r. fill_before b1 inp1 used1 = Some r"
    by (auto simp: fill_before_def Let_def gb_put_def RemainingCapacity_def min_def)
  with 1 show ?thesis by simp
qed

section \<open>The write direction\<close>

definition queued :: "bio_adapter \<Rightarrow> bytes" where
  "queued s = (case write_buffer s of None \<Rightarrow> [] | Some b \<Rightarrow> ring b (write_buffer_used s))"

definition buffer_ok :: "bio_adapter \<Rightarrow> bool" where
  "buffer_ok s \<longleftrightarrow> 0 < write_buffer_capacity s \<and>
     (case write_buffer s of
        None \<Rightarrow> write_buffer_used s = 0
      | Some b \<Rightarrow> gb_capacity b = write_buffer_capacity s \<and> gb_offset b < gb_capacity b \<and>
          0 < write_buffer_used s \<and> write_buffer_used s \<le> gb_capacity b)"

definition flight_ok :: "bio_adapter \<Rightarrow> bool" where
  "flight_ok s \<longleftrightarrow> (write_error s = ERR_IO_PENDING \<longrightarrow>
     (\<exists>b. write_buffer s = Some b \<and> prefix (bio_in_flight s) (queued s) \<and> length (bio_in_flight s) \<le> RemainingCapacity b))"

definition write_ok :: "bio_adapter \<Rightarrow> bool" where
  "write_ok s \<longleftrightarrow> buffer_ok s \<and> flight_ok s \<and>
     (if failed_write s then write_buffer s = None \<and> prefix (bio_written s) (bio_accepted s)
      else bio_accepted s = bio_written s @ queued s)"

text \<open>What a write changes.\<close>

definition only_writes :: "bio_adapter \<Rightarrow> bio_adapter \<Rightarrow> bool" where
  "only_writes s s' \<longleftrightarrow> (\<exists>wb used e n flight written. s' = s\<lparr>write_buffer := wb, write_buffer_used := used, write_error := e,
     bio_writes := n, bio_in_flight := flight, bio_written := written\<rparr>)"

lemma only_writesI [intro]:
  "only_writes s (s\<lparr>write_buffer := wb, write_buffer_used := used, write_error := e, bio_writes := n, bio_in_flight := flight, bio_written := written\<rparr>)"
  unfolding only_writes_def by blast

lemma only_writes_trans: "only_writes s t \<Longrightarrow> only_writes t u \<Longrightarrow> only_writes s u"
  unfolding only_writes_def by (elim exE, hypsubst, simp) blast

lemma only_writes_fields:
  assumes "only_writes s t"
  shows "bio_alive t = bio_alive s" "read_buffer t = read_buffer s" "read_offset t = read_offset s" "read_result t = read_result s"
    "bio_tasks t = bio_tasks s" "bio_resume t = bio_resume s" "bio_signals t = bio_signals s" "bio_read_blocked t = bio_read_blocked s"
    "bio_write_blocked t = bio_write_blocked s" "bio_accepted t = bio_accepted s" "bio_received t = bio_received s"
    "bio_delivered t = bio_delivered s" "write_buffer_capacity t = write_buffer_capacity s"
    "read_buffer_capacity t = read_buffer_capacity s" "bio_errors t = bio_errors s"
  using assms by (auto simp: only_writes_def)

lemma take_ring: "n \<le> RemainingCapacity b \<Longrightarrow> n \<le> used \<Longrightarrow> take n (ring b used) = take n (drop (gb_offset b) (gb_data b))"
  by (auto simp: ring_def RemainingCapacity_def gb_capacity_def min_def)

lemma HandleSocketWriteResult_ok:
  assumes "HandleSocketWriteResult result s = Some s'" "buffer_ok s" "bio_accepted s = bio_written s @ queued s"
    "result \<noteq> ERR_IO_PENDING"
  shows "write_ok s'" "write_error s' \<noteq> ERR_IO_PENDING" "only_writes s s'"
proof -
  have "write_ok s' \<and> write_error s' \<noteq> ERR_IO_PENDING \<and> only_writes s s'"
  proof (cases "result < 0")
    case True
    with assms have s': "s' = s\<lparr>write_error := result, write_buffer := None, write_buffer_used := 0\<rparr>"
      by (simp add: HandleSocketWriteResult_def)
    have "only_writes s s'" unfolding s' only_writes_def
      by (intro exI [of _ None] exI [of _ 0] exI [of _ result] exI [of _ "bio_writes s"] exI [of _ "bio_in_flight s"]
          exI [of _ "bio_written s"]) simp
    with True assms(2-4) s' show ?thesis
      by (auto simp: write_ok_def buffer_ok_def flight_ok_def failed_write_def net_errors)
  next
    case False
    with assms(1) obtain b where b: "write_buffer s = Some b" by (auto simp: HandleSocketWriteResult_def split: option.splits)
    let ?n = "nat result" and ?used = "write_buffer_used s"
    let ?b = "b\<lparr>gb_offset := (if gb_capacity b - (gb_offset b + ?n) = 0 then 0 else gb_offset b + ?n)\<rparr>"
    from False assms(1) b have le: "gb_offset b + ?n \<le> gb_capacity b" "?n \<le> ?used"
      and s': "s' = s\<lparr>write_buffer := (if ?used - ?n = 0 then None else Some ?b), write_buffer_used := ?used - ?n, write_error := net_OK,
         bio_written := bio_written s @ take ?n (drop (gb_offset b) (gb_data b))\<rparr>"
      by (auto simp: HandleSocketWriteResult_def Let_def split: if_splits)
    have ok: "?used \<le> gb_capacity b" "gb_capacity b = write_buffer_capacity s" "0 < write_buffer_capacity s"
      using assms(2) b by (auto simp: buffer_ok_def)
    have taken: "take ?n (drop (gb_offset b) (gb_data b)) = take ?n (ring b ?used)"
      using take_ring [of ?n b ?used] le by (simp add: RemainingCapacity_def)
    have rest: "ring ?b (?used - ?n) = drop ?n (ring b ?used)"
      using ring_advance [of b ?n ?used] le ok by auto
    have cap: "gb_capacity ?b = gb_capacity b" by (simp add: gb_capacity_def)
    have "only_writes s s'" unfolding s' only_writes_def
      by (intro exI [of _ "if ?used - ?n = 0 then None else Some ?b"] exI [of _ "?used - ?n"] exI [of _ net_OK]
          exI [of _ "bio_writes s"] exI [of _ "bio_in_flight s"] exI [of _ "bio_written s @ take ?n (drop (gb_offset b) (gb_data b))"]) simp
    moreover have "buffer_ok s'" using ok le cap by (auto simp: s' buffer_ok_def)
    moreover have "bio_accepted s' = bio_written s' @ queued s'"
    proof (cases "?used - ?n = 0")
      case True
      then have "take ?n (ring b ?used) = ring b ?used" using ok(1) by simp
      with True assms(3) b taken show ?thesis by (simp add: s' queued_def)
    next
      case False
      with assms(3) b taken rest show ?thesis by (simp add: s' queued_def)
    qed
    moreover have "write_error s' = net_OK" by (simp add: s')
    ultimately show ?thesis by (auto simp: write_ok_def flight_ok_def failed_write_def net_errors)
  qed
  then show "write_ok s'" "write_error s' \<noteq> ERR_IO_PENDING" "only_writes s s'" by simp_all
qed

lemma write_ok_accepted: "write_ok s \<Longrightarrow> \<not> failed_write s \<Longrightarrow> bio_accepted s = bio_written s @ queued s"
  by (simp add: write_ok_def)

text \<open>After a write nothing is queued without a pending write.\<close>

definition settled :: "bio_adapter \<Rightarrow> bool" where
  "settled s \<longleftrightarrow> (write_buffer_used s > 0 \<longrightarrow> write_error s = ERR_IO_PENDING)"

lemma counted_write [simp]:
  "queued (s\<lparr>bio_writes := n\<rparr>) = queued s" "buffer_ok (s\<lparr>bio_writes := n\<rparr>) = buffer_ok s"
  by (simp_all add: queued_def buffer_ok_def cong: option.case_cong)

lemma SocketWrite_ok:
  assumes "SocketWrite Write s = Some s'" "write_ok s"
  shows "write_ok s' \<and> settled s' \<and> only_writes s s'"
  using assms
proof (induction Write s s' rule: SocketWrite.raw_induct [rotated, consumes 1])
  case (1 SW Write s s')
  show ?case
  proof (cases "write_error s = net_OK \<and> write_buffer_used s > 0")
    case False
    with 1 have "s' = s" by auto
    moreover have "only_writes s s" unfolding only_writes_def
      by (intro exI [of _ "write_buffer s"] exI [of _ "write_buffer_used s"] exI [of _ "write_error s"] exI [of _ "bio_writes s"]
          exI [of _ "bio_in_flight s"] exI [of _ "bio_written s"]) simp
    moreover have "settled s" using False 1(3)
      by (auto simp: settled_def write_ok_def buffer_ok_def failed_write_def split: option.splits if_splits)
    ultimately show ?thesis using 1 by simp
  next
    case True
    then obtain b where b: "write_buffer s = Some b" using 1(2) by (auto split: option.splits if_splits)
    let ?size = "min (write_buffer_used s) (RemainingCapacity b)"
    let ?chunk = "take ?size (drop (gb_offset b) (gb_data b))"
    let ?s1 = "s\<lparr>bio_writes := bio_writes s + 1\<rparr>"
    have ow: "only_writes s (?s1\<lparr>write_error := e, bio_in_flight := f\<rparr>)" for e f
      unfolding only_writes_def
      by (intro exI [of _ "write_buffer s"] exI [of _ "write_buffer_used s"] exI [of _ e] exI [of _ "bio_writes s + 1"]
          exI [of _ f] exI [of _ "bio_written s"]) simp
    have nf: "\<not> failed_write s" using True by (simp add: failed_write_def)
    show ?thesis
    proof (cases "Write (bio_writes s) ?chunk = ERR_IO_PENDING")
      case pend: True
      with 1(2) True b have s': "s' = ?s1\<lparr>write_error := ERR_IO_PENDING, bio_in_flight := ?chunk\<rparr>" by (simp add: Let_def)
      have "?chunk = take ?size (queued s)" using b by (simp add: queued_def take_ring)
      then have "prefix ?chunk (queued s)" by (simp add: take_is_prefix)
      moreover have "length ?chunk \<le> RemainingCapacity b" by simp
      ultimately have "write_ok s'" using 1(3) nf b
        by (auto simp: write_ok_def s' flight_ok_def failed_write_def buffer_ok_def queued_def)
      moreover have "settled s'" by (simp add: s' settled_def)
      ultimately show ?thesis using ow s' by simp
    next
      case res: False
      with 1(2) True b obtain s2 where s2: "HandleSocketWriteResult (Write (bio_writes s) ?chunk) ?s1 = Some s2" "SW Write s2 = Some s'"
        by (auto simp: Let_def split: bind_splits)
      have acc: "bio_accepted s = bio_written s @ queued s" using 1(3) nf by (simp add: write_ok_def)
      have "buffer_ok ?s1" "bio_accepted ?s1 = bio_written ?s1 @ queued ?s1"
        using acc 1(3) by (simp_all add: write_ok_def)
      from HandleSocketWriteResult_ok [OF s2(1) this res] 1(1) [OF s2(2)]
      have "write_ok s' \<and> settled s' \<and> only_writes ?s1 s'" by (blast intro: only_writes_trans)
      moreover have "only_writes s ?s1" using ow [where e = "write_error s" and f = "bio_in_flight s"] by simp
      ultimately show ?thesis by (blast intro: only_writes_trans)
    qed
  qed
qed

text \<open>The loop ends when the socket takes at least a byte or fails.\<close>

lemma SocketWrite_returns:
  assumes "honest_write Write" "\<forall>n bs. bs \<noteq> [] \<longrightarrow> Write n bs \<noteq> 0" "write_ok s"
  shows "\<exists>s'. SocketWrite Write s = Some s'"
  using assms(3)
proof (induction "write_buffer_used s" arbitrary: s rule: less_induct)
  case less
  show ?case
  proof (cases "write_error s = net_OK \<and> write_buffer_used s > 0")
    case False
    then show ?thesis by (subst SocketWrite.simps) auto
  next
    case True
    with less.prems obtain b where b: "write_buffer s = Some b" "gb_offset b < gb_capacity b" "write_buffer_used s \<le> gb_capacity b"
      by (auto simp: write_ok_def buffer_ok_def split: option.splits)
    let ?size = "min (write_buffer_used s) (RemainingCapacity b)"
    let ?chunk = "take ?size (drop (gb_offset b) (gb_data b))"
    let ?r = "Write (bio_writes s) ?chunk"
    let ?s1 = "s\<lparr>bio_writes := bio_writes s + 1\<rparr>"
    have len: "length ?chunk = ?size" "0 < ?size"
      using True b by (simp_all add: RemainingCapacity_def gb_capacity_def)
    show ?thesis
    proof (cases "?r = ERR_IO_PENDING")
      case pend: True
      with True b show ?thesis by (subst SocketWrite.simps) (simp add: Let_def)
    next
      case res: False
      have r: "?r \<le> int ?size" "?r \<noteq> 0" using assms(1,2) len unfolding honest_write_def by (metis, metis length_0_conv less_numeral_extra(3))
      have "\<exists>s2. HandleSocketWriteResult ?r ?s1 = Some s2 \<and> write_buffer_used s2 < write_buffer_used s"
        using r b True by (auto simp: HandleSocketWriteResult_def Let_def RemainingCapacity_def)
      then obtain s2 where s2: "HandleSocketWriteResult ?r ?s1 = Some s2" "write_buffer_used s2 < write_buffer_used s" by blast
      have acc: "bio_accepted s = bio_written s @ queued s" using less.prems True by (simp add: write_ok_def failed_write_def)
      have "buffer_ok ?s1" "bio_accepted ?s1 = bio_written ?s1 @ queued ?s1"
        using acc less.prems by (simp_all add: write_ok_def)
      with HandleSocketWriteResult_ok [OF s2(1) _ _ res] less.hyps [OF s2(2)] obtain s' where "SocketWrite Write s2 = Some s'" by blast
      with True b res s2(1) show ?thesis by (subst SocketWrite.simps) (simp add: Let_def)
    qed
  qed
qed

section \<open>The read direction\<close>

definition unread :: "bio_adapter \<Rightarrow> bytes" where
  "unread s = (if read_result s > 0 then drop (read_offset s) (the (read_buffer s)) else [])"

definition read_ok :: "bio_adapter \<Rightarrow> bool" where
  "read_ok s \<longleftrightarrow> (read_result s \<le> 0 \<longrightarrow> read_offset s = 0) \<and>
     (read_result s > 0 \<longrightarrow> (\<exists>b. read_buffer s = Some b \<and> int (length b) = read_result s \<and> read_offset s < length b)) \<and>
     bio_received s = bio_delivered s @ unread s \<and> (bio_read_blocked s \<longrightarrow> read_result s = ERR_IO_PENDING)"

lemma HandleSocketReadResult_ok:
  assumes "read_answer_ok cap a" "a \<noteq> RdPending" "read_offset s = 0" "bio_received s = bio_delivered s" "\<not> bio_read_blocked s"
  shows "read_ok (HandleSocketReadResult a s)"
  using assms
  by (auto simp: HandleSocketReadResult_def read_ok_def unread_def read_answer_ok_def net_errors split: read_answer.splits list.splits)

lemma start_read_ok:
  assumes "read_ok s" "read_result s = 0" "read_answer_ok cap a"
  shows "read_ok (start_read a s)"
proof (cases "a = RdPending")
  case True
  with assms show ?thesis by (auto simp: start_read_def read_ok_def unread_def net_errors)
next
  case False
  with assms have "read_ok (HandleSocketReadResult a (s\<lparr>read_buffer := Some []\<rparr>))"
    by (intro HandleSocketReadResult_ok) (auto simp: read_ok_def unread_def net_errors)
  with False show ?thesis by (simp add: start_read_def)
qed

lemma take_read_ok:
  assumes "read_ok s" "read_result s \<noteq> ERR_IO_PENDING" "0 \<le> read_result s" "read_result s \<noteq> 0" "0 < len"
  shows "\<exists>n out s'. take_read len s = Some (n, out, s') \<and> read_ok s' \<and> 0 < n \<and> n \<le> len \<and> n = int (length out)"
proof -
  from assms obtain b where b: "read_buffer s = Some b" "int (length b) = read_result s" "read_offset s < length b"
    by (auto simp: read_ok_def)
  let ?n = "min (nat len) (length b - read_offset s)"
  have split: "take ?n (drop (read_offset s) b) @ drop (read_offset s + ?n) b = drop (read_offset s) b"
    using append_take_drop_id [of ?n "drop (read_offset s) b"] by (simp add: add.commute)
  have "nat (read_result s) = length b" using b(2) by simp
  then show ?thesis using assms b split
    by (auto simp: take_read_def Let_def read_ok_def unread_def min_def net_errors)
qed

definition read_unchanged :: "bio_adapter \<Rightarrow> bio_adapter \<Rightarrow> bool" where
  "read_unchanged s t \<longleftrightarrow> read_result t = read_result s \<and> read_offset t = read_offset s \<and> read_buffer t = read_buffer s \<and>
     bio_received t = bio_received s \<and> bio_delivered t = bio_delivered s \<and> (bio_read_blocked t \<longrightarrow> bio_read_blocked s)"

lemma read_unchanged_ok: "read_ok s \<Longrightarrow> read_unchanged s t \<Longrightarrow> read_ok t"
  by (auto simp: read_ok_def read_unchanged_def unread_def)

definition write_unchanged :: "bio_adapter \<Rightarrow> bio_adapter \<Rightarrow> bool" where
  "write_unchanged s t \<longleftrightarrow> write_buffer t = write_buffer s \<and> write_buffer_used t = write_buffer_used s \<and> write_error t = write_error s \<and>
     write_buffer_capacity t = write_buffer_capacity s \<and> bio_in_flight t = bio_in_flight s \<and> bio_accepted t = bio_accepted s \<and>
     bio_written t = bio_written s"

lemma write_unchanged_ok: "write_ok s \<Longrightarrow> write_unchanged s t \<Longrightarrow> write_ok t"
  by (simp add: write_unchanged_def write_ok_def buffer_ok_def flight_ok_def failed_write_def queued_def cong: option.case_cong if_cong)

lemma write_unchanged_settled: "settled s \<Longrightarrow> write_unchanged s t \<Longrightarrow> settled t"
  by (simp add: write_unchanged_def settled_def)

section \<open>The invariant\<close>

definition bio_ok :: "bio_adapter \<Rightarrow> bool" where
  "bio_ok s \<longleftrightarrow> write_ok s \<and> settled s \<and> read_ok s \<and> (bio_write_blocked s \<longrightarrow> write_buffer_used s = write_buffer_capacity s)"

lemma bio_ok_unchanged:
  assumes "bio_ok s" "write_unchanged s t" "read_ok t" "bio_write_blocked t \<longrightarrow> bio_write_blocked s"
  shows "bio_ok t"
proof -
  have "write_ok t" "settled t" using assms write_unchanged_ok write_unchanged_settled unfolding bio_ok_def by blast+
  with assms show ?thesis by (auto simp: bio_ok_def write_unchanged_def)
qed

lemma bio_ok_same:
  "bio_ok s \<Longrightarrow> write_unchanged s t \<Longrightarrow> read_unchanged s t \<Longrightarrow> bio_write_blocked t \<longrightarrow> bio_write_blocked s \<Longrightarrow> bio_ok t"
  using bio_ok_unchanged read_unchanged_ok by (metis bio_ok_def)

lemma bio_ok_error: "bio_ok s \<Longrightarrow> bio_ok (OpenSSLPutNetError e s)"
  by (erule bio_ok_same) (simp_all add: OpenSSLPutNetError_def write_unchanged_def read_unchanged_def)

lemma BIORead_ok:
  assumes "bio_ok s" "read_answer_ok cap a"
  shows "\<exists>n out s'. BIORead a len s = Some (n, out, s') \<and> bio_ok s' \<and> bio_write_blocked s' = bio_write_blocked s"
proof (cases "len \<le> 0 \<or> (failed_write s \<and> (read_result s = 0 \<or> read_result s = ERR_IO_PENDING))")
  case True
  with assms bio_ok_error show ?thesis by (auto simp: BIORead_def OpenSSLPutNetError_def)
next
  case False
  define s1 where "s1 = (if read_result s = 0 then start_read a s else s)"
  have r1: "read_ok s1" using assms start_read_ok by (auto simp: s1_def bio_ok_def)
  have w1: "write_unchanged s s1" "bio_write_blocked s1 = bio_write_blocked s"
    by (auto simp: s1_def start_read_def HandleSocketReadResult_def write_unchanged_def Let_def split: read_answer.splits list.splits)
  have ok1: "bio_ok s1" using bio_ok_unchanged [OF assms(1) w1(1) r1] w1(2) by simp
  have nz: "read_result s1 \<noteq> 0" using assms(2)
    by (auto simp: s1_def start_read_def HandleSocketReadResult_def read_answer_ok_def net_errors Let_def split: read_answer.splits list.splits)
  have eq: "BIORead a len s =
      (if read_result s1 = ERR_IO_PENDING then Some (-1, [], s1\<lparr>bio_retry_read := True, bio_read_blocked := True\<rparr>)
       else if read_result s1 < 0 then Some (-1, [], OpenSSLPutNetError (read_result s1) s1)
       else take_read len s1)"
    using False unfolding BIORead_def s1_def by (auto simp: Let_def)
  consider "read_result s1 = ERR_IO_PENDING" | "read_result s1 \<noteq> ERR_IO_PENDING" "read_result s1 < 0" |
    "read_result s1 \<noteq> ERR_IO_PENDING" "0 \<le> read_result s1" by linarith
  then show ?thesis
  proof cases
    case 1
    have "bio_ok (s1\<lparr>bio_retry_read := True, bio_read_blocked := True\<rparr>)"
      using 1 r1 by (intro bio_ok_unchanged [OF ok1]) (auto simp: write_unchanged_def read_ok_def unread_def)
    with 1 eq w1 show ?thesis by simp
  next
    case 2
    with eq w1 bio_ok_error [OF ok1] show ?thesis by (simp add: OpenSSLPutNetError_def)
  next
    case 3
    with take_read_ok [OF r1 3(1,2) nz, of len] False obtain n out s' where t: "take_read len s1 = Some (n, out, s')" "read_ok s'" by auto
    have "write_unchanged s1 s'" "bio_write_blocked s' = bio_write_blocked s1"
      using t(1) by (auto simp: take_read_def write_unchanged_def Let_def split: if_splits option.splits)
    with 3 eq t w1 bio_ok_unchanged [OF ok1 _ t(2)] show ?thesis by simp
  qed
qed

lemma only_writes_ok:
  assumes "only_writes s t" "read_ok s"
  shows "read_ok t"
  using only_writes_fields [OF assms(1)] by (intro read_unchanged_ok [OF assms(2)]) (simp add: read_unchanged_def)

text \<open>The state in which \<open>BIOWrite\<close> starts to write to the socket.\<close>

lemma BIOWrite_fill:
  assumes "bio_ok s" "inp \<noteq> []" "\<not> failed_write s" "write_buffer_used s \<noteq> gb_capacity (new_write_buffer s)"
  shows "\<exists>b2 inp2 used2 bs. Option.bind (fill_after (new_write_buffer s) inp (write_buffer_used s))
      (\<lambda>(b1, inp1, used1). fill_before b1 inp1 used1) = Some (b2, inp2, used2) \<and> inp = bs @ inp2 \<and> bs \<noteq> [] \<and>
    write_ok (s\<lparr>write_buffer := Some b2, write_buffer_used := used2, bio_accepted := bio_accepted s @ bs\<rparr>)"
proof -
  let ?b = "new_write_buffer s" and ?used = "write_buffer_used s"
  have w: "write_ok s" and acc: "bio_accepted s = bio_written s @ queued s"
    using assms(1,3) by (auto simp: bio_ok_def write_ok_def)
  have b: "gb_capacity ?b = write_buffer_capacity s" "gb_offset ?b < gb_capacity ?b" "?used \<le> gb_capacity ?b" "ring ?b ?used = queued s"
    "\<And>b. write_buffer s = Some b \<Longrightarrow> ?b = b"
    using w by (auto simp: write_ok_def buffer_ok_def new_write_buffer_def gb_capacity_def queued_def ring_def split: option.splits)
  obtain b1 inp1 used1 b2 inp2 used2 where f: "fill_after ?b inp ?used = Some (b1, inp1, used1)" "fill_before b1 inp1 used1 = Some (b2, inp2, used2)"
    using fills_succeed [OF b(3,2), of inp] by (auto split: bind_splits)
  obtain bs1 where f1: "inp = bs1 @ inp1" "ring b1 used1 = ring ?b ?used @ bs1" "gb_offset b1 = gb_offset ?b" "gb_capacity b1 = gb_capacity ?b"
    "used1 = ?used + length bs1" "used1 \<le> gb_capacity ?b" using fill_after_ring [OF f(1) b(3)] by auto
  obtain bs2 where f2: "inp1 = bs2 @ inp2" "ring b2 used2 = ring b1 used1 @ bs2" "gb_offset b2 = gb_offset b1" "gb_capacity b2 = gb_capacity b1"
    "used2 = used1 + length bs2" "used2 \<le> gb_capacity b1" "inp2 \<noteq> [] \<longrightarrow> used2 = gb_capacity b1"
    using fill_before_ring [OF f(2)] f1 b(2) by auto
  let ?t = "s\<lparr>write_buffer := Some b2, write_buffer_used := used2, bio_accepted := bio_accepted s @ bs1 @ bs2\<rparr>"
  have ne: "bs1 @ bs2 \<noteq> []"
  proof
    assume "bs1 @ bs2 = []"
    then have "used2 = ?used" "inp2 = inp" using f1 f2 by simp_all
    with f2(7) f1(4) assms(2,4) show False by simp
  qed
  then have "0 < used2" using f1(5) f2(5) by auto
  have q: "queued ?t = queued s @ bs1 @ bs2" using f1(2) f2(2) b(4) by (simp add: queued_def)
  have "prefix (bio_in_flight s) (queued ?t) \<and> length (bio_in_flight s) \<le> RemainingCapacity b2" if "write_error s = ERR_IO_PENDING"
  proof -
    from w that obtain b0 where "write_buffer s = Some b0" "prefix (bio_in_flight s) (queued s)" "length (bio_in_flight s) \<le> RemainingCapacity b0"
      by (auto simp: write_ok_def flight_ok_def)
    with b(5) f1 f2 q show ?thesis by (auto simp: RemainingCapacity_def)
  qed
  then have "flight_ok ?t" by (auto simp: flight_ok_def)
  moreover have "buffer_ok ?t" using \<open>0 < used2\<close> b f1 f2 w by (simp add: buffer_ok_def write_ok_def)
  moreover have "bio_accepted ?t = bio_written ?t @ queued ?t" using acc q by simp
  ultimately have "write_ok ?t" using assms(3) by (simp add: write_ok_def failed_write_def)
  with f f1(1) f2(1) ne show ?thesis by (intro exI [of _ b2] exI [of _ inp2] exI [of _ used2] exI [of _ "bs1 @ bs2"]) simp
qed

lemma BIOWrite_eq:
  assumes "bio_ok s" "inp \<noteq> []" "\<not> failed_write s" "write_buffer_used s \<noteq> gb_capacity (new_write_buffer s)"
  shows "\<exists>t bs rest. inp = bs @ rest \<and> write_ok t \<and> read_unchanged s t \<and> bio_write_blocked t = bio_write_blocked s \<and>
    write_buffer_capacity t = write_buffer_capacity s \<and>
    BIOWrite Write inp s = Option.bind (SocketWrite Write t) (\<lambda>s1. Some (int (length bs),
      if failed_write s1 \<and> read_result s1 = ERR_IO_PENDING then s1\<lparr>bio_tasks := bio_tasks s1 + 1\<rparr> else s1))"
proof -
  obtain b2 inp2 used2 bs where f: "Option.bind (fill_after (new_write_buffer s) inp (write_buffer_used s))
      (\<lambda>(b1, inp1, used1). fill_before b1 inp1 used1) = Some (b2, inp2, used2)" "inp = bs @ inp2" and
    ok: "write_ok (s\<lparr>write_buffer := Some b2, write_buffer_used := used2, bio_accepted := bio_accepted s @ bs\<rparr>)" (is "write_ok ?t")
    using BIOWrite_fill [OF assms] by blast
  from f(1) obtain b1 inp1 used1 where "fill_after (new_write_buffer s) inp (write_buffer_used s) = Some (b1, inp1, used1)"
    "fill_before b1 inp1 used1 = Some (b2, inp2, used2)" by (auto split: bind_splits)
  with f(2) assms(2-) have "BIOWrite Write inp s = Option.bind (SocketWrite Write ?t) (\<lambda>s1. Some (int (length bs),
      if failed_write s1 \<and> read_result s1 = ERR_IO_PENDING then s1\<lparr>bio_tasks := bio_tasks s1 + 1\<rparr> else s1))"
    by (auto simp: BIOWrite_def Let_def)
  with f(2) ok show ?thesis
    by (intro exI [of _ ?t] exI [of _ bs] exI [of _ inp2]) (simp add: read_unchanged_def)
qed

lemma full_blocks: "bio_ok s \<Longrightarrow> bio_write_blocked s \<Longrightarrow> write_buffer_used s = gb_capacity (new_write_buffer s)"
  by (auto simp: bio_ok_def write_ok_def buffer_ok_def new_write_buffer_def gb_capacity_def split: option.splits)

lemma bio_ok_after_write:
  assumes "SocketWrite Write t = Some t'" "write_ok t" "read_ok t" "\<not> bio_write_blocked t"
  shows "bio_ok t'"
  using SocketWrite_ok [OF assms(1,2)] only_writes_ok [of t t'] only_writes_fields(9) [of t t'] assms(3,4)
  by (simp add: bio_ok_def)

lemma BIOWrite_ok:
  assumes "BIOWrite Write inp s = Some (n, s')" "bio_ok s"
  shows "bio_ok s'"
proof (cases "inp = [] \<or> failed_write s \<or> write_buffer_used s = gb_capacity (new_write_buffer s)")
  case True
  have "bio_ok (s\<lparr>write_buffer := Some (new_write_buffer s), bio_retry_write := True, bio_write_blocked := True\<rparr>)" (is "bio_ok ?t")
    if full: "write_buffer_used s = gb_capacity (new_write_buffer s)"
  proof -
    have b: "write_buffer s = Some (new_write_buffer s)" "write_buffer_used s = write_buffer_capacity s"
      using assms(2) full
      by (auto simp: bio_ok_def write_ok_def buffer_ok_def new_write_buffer_def gb_capacity_def split: option.splits)
    then have "write_unchanged s ?t" "read_unchanged s ?t" by (simp_all add: write_unchanged_def read_unchanged_def)
    with b assms(2) show ?thesis
      using write_unchanged_ok write_unchanged_settled read_unchanged_ok unfolding bio_ok_def by fastforce
  qed
  with True assms bio_ok_error show ?thesis by (auto simp: BIOWrite_def Let_def split: if_splits)
next
  case False
  then obtain t and bs :: bytes where t: "write_ok t" "read_unchanged s t" "bio_write_blocked t = bio_write_blocked s"
    "BIOWrite Write inp s = Option.bind (SocketWrite Write t) (\<lambda>s1. Some (int (length bs),
      if failed_write s1 \<and> read_result s1 = ERR_IO_PENDING then s1\<lparr>bio_tasks := bio_tasks s1 + 1\<rparr> else s1))"
    using BIOWrite_eq [of s inp Write] assms(2) by blast
  with assms(1) obtain t' where t': "SocketWrite Write t = Some t'" "s' = t' \<or> s' = t'\<lparr>bio_tasks := bio_tasks t' + 1\<rparr>"
    by (auto split: bind_splits if_splits)
  have "read_ok t" "\<not> bio_write_blocked t"
    using t(2,3) assms(2) False full_blocks read_unchanged_ok unfolding bio_ok_def by (blast, metis)
  from bio_ok_after_write [OF t'(1) t(1) this] have ok: "bio_ok t'" .
  have "bio_ok (t'\<lparr>bio_tasks := bio_tasks t' + 1\<rparr>)"
    by (rule bio_ok_same [OF ok]) (simp_all add: write_unchanged_def read_unchanged_def)
  with ok t'(2) show ?thesis by blast
qed

lemma BIOWrite_returns:
  assumes "honest_write Write" "\<forall>n bs. bs \<noteq> [] \<longrightarrow> Write n bs \<noteq> 0" "bio_ok s"
  shows "\<exists>n s'. BIOWrite Write inp s = Some (n, s')"
proof (cases "inp = [] \<or> failed_write s \<or> write_buffer_used s = gb_capacity (new_write_buffer s)")
  case True
  then show ?thesis by (auto simp: BIOWrite_def Let_def)
next
  case False
  with BIOWrite_eq [of s inp Write] assms(3) SocketWrite_returns [OF assms(1,2)] show ?thesis by fastforce
qed

section \<open>Completions\<close>

lemma write_done:
  assumes "bio_ok s" "write_error s = ERR_IO_PENDING" "result \<noteq> ERR_IO_PENDING"
  obtains b where "write_buffer s = Some b" "buffer_ok s" "bio_accepted s = bio_written s @ queued s"
    "gb_capacity b = write_buffer_capacity s" "length (bio_in_flight s) \<le> RemainingCapacity b"
    "length (bio_in_flight s) \<le> write_buffer_used s"
proof -
  have nf: "\<not> failed_write s" using assms(2) by (simp add: failed_write_def)
  from assms(1,2) obtain b where b: "write_buffer s = Some b" "prefix (bio_in_flight s) (queued s)"
    "length (bio_in_flight s) \<le> RemainingCapacity b" by (auto simp: bio_ok_def write_ok_def flight_ok_def)
  with assms(1) nf have "buffer_ok s" "bio_accepted s = bio_written s @ queued s" "gb_capacity b = write_buffer_capacity s"
    "length (queued s) = write_buffer_used s"
    by (auto simp: bio_ok_def write_ok_def buffer_ok_def queued_def)
  with b that show ?thesis using prefix_length_le by metis
qed

lemma OnSocketWriteComplete_ok:
  assumes "OnSocketWriteComplete Write result s = Some s'" "bio_ok s" "write_error s = ERR_IO_PENDING" "result \<noteq> ERR_IO_PENDING"
  shows "bio_ok s' \<and> (bio_write_blocked s \<longrightarrow> bio_signals s' = bio_signals s @ [OnWriteReady]) \<and> \<not> bio_write_blocked s'"
proof -
  obtain b where b: "write_buffer s = Some b" "buffer_ok s" "bio_accepted s = bio_written s @ queued s" "gb_capacity b = write_buffer_capacity s"
    using write_done [OF assms(2-)] by metis
  with assms(1) obtain s1 s2 where w: "HandleSocketWriteResult result s = Some s1" "SocketWrite Write s1 = Some s2" and
    s': "s' = (if write_buffer_used s = gb_capacity b then (signal_write s2)\<lparr>bio_resume := Some result\<rparr> else after_write_ready result s2)"
    by (auto simp: OnSocketWriteComplete_def Let_def split: bind_splits)
  have 1: "write_ok s1" "only_writes s s1" using HandleSocketWriteResult_ok [OF w(1) b(2,3) assms(4)] by simp_all
  have 2: "write_ok s2" "settled s2" "only_writes s s2" using SocketWrite_ok [OF w(2) 1(1)] only_writes_trans [OF 1(2)] by blast+
  have r: "read_ok s2" using only_writes_ok [OF 2(3)] assms(2) by (simp add: bio_ok_def)
  note fr = only_writes_fields [OF 2(3)]
  let ?t = "signal_write s2" and ?u = "s2\<lparr>bio_write_blocked := False\<rparr>"
  have u: "bio_ok ?u"
    using 2 r write_unchanged_ok [of s2 ?u] write_unchanged_settled [of s2 ?u] read_unchanged_ok [of s2 ?u]
    by (simp add: bio_ok_def write_unchanged_def read_unchanged_def)
  show ?thesis
  proof (cases "write_buffer_used s = gb_capacity b")
    case True
    have "bio_ok (?t\<lparr>bio_resume := Some result\<rparr>)"
      by (rule bio_ok_same [OF u]) (simp_all add: signal_write_def write_unchanged_def read_unchanged_def)
    with True s' fr show ?thesis by (simp add: signal_write_def)
  next
    case False
    then have nb: "\<not> bio_write_blocked s" using assms(2) b(4) by (auto simp: bio_ok_def)
    have "bio_ok s2" using 2 r nb fr by (simp add: bio_ok_def)
    moreover have "bio_ok (signal_read s2)"
      by (rule bio_ok_same [OF calculation]) (simp_all add: signal_read_def write_unchanged_def read_unchanged_def)
    ultimately show ?thesis using False s' nb fr by (simp add: after_write_ready_def signal_read_def)
  qed
qed

lemma OnSocketWriteComplete_returns:
  assumes "honest_write Write" "\<forall>n bs. bs \<noteq> [] \<longrightarrow> Write n bs \<noteq> 0" "bio_ok s" "write_error s = ERR_IO_PENDING"
    "result \<noteq> ERR_IO_PENDING" "result \<le> int (length (bio_in_flight s))"
  shows "\<exists>s'. OnSocketWriteComplete Write result s = Some s'"
proof -
  obtain b where b: "write_buffer s = Some b" "buffer_ok s" "bio_accepted s = bio_written s @ queued s"
    "length (bio_in_flight s) \<le> RemainingCapacity b" "length (bio_in_flight s) \<le> write_buffer_used s"
    using write_done [OF assms(3-5)] by metis
  have "gb_offset b \<le> gb_capacity b" using b(1,2) by (simp add: buffer_ok_def)
  then have "\<exists>s1. HandleSocketWriteResult result s = Some s1"
    using assms(6) b by (auto simp: HandleSocketWriteResult_def Let_def RemainingCapacity_def)
  then obtain s1 where s1: "HandleSocketWriteResult result s = Some s1" by blast
  with HandleSocketWriteResult_ok [OF s1 b(2,3) assms(5)] SocketWrite_returns [OF assms(1,2)] obtain s2 where
    "SocketWrite Write s1 = Some s2" by blast
  with s1 b(1) show ?thesis by (simp add: OnSocketWriteComplete_def Let_def)
qed

lemma OnSocketReadComplete_ok:
  assumes "bio_ok s" "read_result s = ERR_IO_PENDING" "a \<noteq> RdPending" "read_answer_ok cap a"
  shows "bio_ok (OnSocketReadComplete a s)"
proof -
  let ?s = "s\<lparr>bio_signals := bio_signals s @ [OnReadReady], bio_read_blocked := False\<rparr>"
  have eq: "OnSocketReadComplete a s = HandleSocketReadResult a ?s"
    using assms(3) by (auto simp: OnSocketReadComplete_def signal_read_def HandleSocketReadResult_def split: read_answer.splits list.splits)
  have "read_ok (HandleSocketReadResult a ?s)"
    using assms by (intro HandleSocketReadResult_ok) (auto simp: bio_ok_def read_ok_def unread_def net_errors)
  moreover have "write_unchanged s (HandleSocketReadResult a ?s)" "bio_write_blocked (HandleSocketReadResult a ?s) \<longrightarrow> bio_write_blocked s"
    by (auto simp: HandleSocketReadResult_def write_unchanged_def split: read_answer.splits list.splits)
  ultimately show ?thesis unfolding eq using bio_ok_unchanged [OF assms(1)] by blast
qed

section \<open>Properties\<close>

lemma bio_exec_ok:
  assumes "bio_exec Write ev s = Some s'" "bio_permits ev s" "bio_ok s"
  shows "bio_ok s'"
proof -
  have c: "bio_ok (clear_retry s)"
    by (rule bio_ok_same [OF assms(3)]) (simp_all add: clear_retry_def write_unchanged_def read_unchanged_def)
  have sr: "bio_ok (signal_read s)"
    by (rule bio_ok_same [OF assms(3)]) (simp_all add: signal_read_def write_unchanged_def read_unchanged_def)
  have plain: "bio_ok (t\<lparr>bio_resume := x\<rparr>)" "bio_ok (t\<lparr>bio_tasks := k\<rparr>)" "bio_ok (t\<lparr>bio_alive := False\<rparr>)" if "bio_ok t" for t x k
    by (rule bio_ok_same [OF that]; simp add: write_unchanged_def read_unchanged_def)+
  show ?thesis
  proof (cases ev)
    case (BioRead a len)
    with assms BIORead_ok [OF c, of _ a len] bio_ok_error [OF c] show ?thesis
      by (fastforce simp: BIOReadWrapper_def Let_def clear_retry_def split: if_splits)
  next
    case (BioWrite inp)
    with assms BIOWrite_ok [OF _ c] bio_ok_error [OF c] show ?thesis
      by (auto simp: BIOWriteWrapper_def Let_def split: if_splits)
  next
    case (BioReadDone a)
    with assms OnSocketReadComplete_ok show ?thesis by (auto split: if_splits)
  next
    case (BioWriteDone result)
    with assms OnSocketWriteComplete_ok show ?thesis by (auto split: if_splits)
  next
    case BioResume
    with assms sr plain show ?thesis by (auto simp: after_write_ready_def split: if_splits option.splits)
  next
    case BioTask
    with assms sr plain show ?thesis by (auto simp: CallOnReadReady_def split: if_splits)
  next
    case BioDelete
    with assms plain show ?thesis by auto
  qed
qed

abbreviation bio_reachable :: "(nat \<Rightarrow> bytes \<Rightarrow> int) \<Rightarrow> nat \<Rightarrow> nat \<Rightarrow> bio_adapter \<Rightarrow> bool" where
  "bio_reachable Write rcap wcap \<equiv> reachable (\<lambda>s. s = new_SocketBIOAdapter rcap wcap \<and> 0 < wcap) (bio_step Write)"

interpretation bio: inductive_invariant "\<lambda>s. s = new_SocketBIOAdapter rcap wcap \<and> 0 < wcap" "bio_step Write" bio_ok
  for rcap wcap Write
proof
  show "bio_ok s" if "s = new_SocketBIOAdapter rcap wcap \<and> 0 < wcap" for s
    using that by (simp add: new_SocketBIOAdapter_def bio_ok_def write_ok_def buffer_ok_def flight_ok_def failed_write_def settled_def
        queued_def read_ok_def unread_def net_errors)
  show "bio_ok t" if "bio_ok s" "bio_step Write s t" for s t
    using that by (auto elim!: bio_stepE intro: bio_exec_ok)
qed

primrec bio_run :: "(nat \<Rightarrow> bytes \<Rightarrow> int) \<Rightarrow> bio_event list \<Rightarrow> bio_adapter \<Rightarrow> bio_adapter option" where
  "bio_run Write [] s = Some s"
| "bio_run Write (ev # evs) s = (if bio_permits ev s then Option.bind (bio_exec Write ev s) (bio_run Write evs) else None)"

lemma bio_run_reachable:
  "bio_run Write evs s = Some s' \<Longrightarrow> bio_reachable Write rcap wcap s \<Longrightarrow> bio_reachable Write rcap wcap s'"
proof (induction evs arbitrary: s)
  case (Cons ev evs)
  from Cons.prems(1) obtain t where "bio_permits ev s" "bio_exec Write ev s = Some t" "bio_run Write evs t = Some s'"
    by (auto split: if_splits bind_splits)
  with Cons.IH Cons.prems(2) show ?case by (metis bio_step.intros reachable.move)
qed simp

lemma bio_run_start: "bio_run Write evs (new_SocketBIOAdapter rcap wcap) = Some s \<Longrightarrow> 0 < wcap \<Longrightarrow> bio_reachable Write rcap wcap s"
  by (erule bio_run_reachable) (simp add: reachable.start)

definition demo_write :: "nat \<Rightarrow> bytes \<Rightarrow> int" where
  "demo_write n bs = (if n = 0 then min 2 (int (length bs)) else ERR_IO_PENDING)"

text \<open>A reader waits, three bytes are written with room for two, and the writer has to try again.\<close>

definition demo_bio :: bio_adapter where
  "demo_bio = the (bio_run demo_write [BioRead RdPending 5, BioWrite [1, 2, 3, 4], BioWrite [5, 6, 7], BioWrite [8]] (new_SocketBIOAdapter 8 3))"

lemma demo_bio_reachable: "bio_reachable demo_write 8 3 demo_bio"
proof (rule bio_run_start)
  have "bio_run demo_write [BioRead RdPending 5, BioWrite [1, 2, 3, 4], BioWrite [5, 6, 7], BioWrite [8]] (new_SocketBIOAdapter 8 3) \<noteq> None"
    by code_simp
  then show "bio_run demo_write [BioRead RdPending 5, BioWrite [1, 2, 3, 4], BioWrite [5, 6, 7], BioWrite [8]] (new_SocketBIOAdapter 8 3) =
      Some demo_bio"
    unfolding demo_bio_def by (rule option.collapse [symmetric])
qed simp

text \<open>
  C26.  Bytes pass the adapter in order and without loss, whatever the socket takes at a time: what it was
  given for writing is what was written followed by what waits in the ring buffer, as long as no write failed, and
  starts with what was written otherwise; the bytes a pending write was given are not touched; and what the SSL
  library has read is what came from the socket up to what is still in the read buffer.
\<close>

theorem bio_adapter_keeps_bytes:
  assumes "bio_reachable Write rcap wcap s"
  shows "prefix (bio_written s) (bio_accepted s) \<and> (\<not> failed_write s \<longrightarrow> bio_accepted s = bio_written s @ queued s) \<and>
    (write_error s = ERR_IO_PENDING \<longrightarrow> prefix (bio_in_flight s) (queued s)) \<and>
    (write_error s = net_OK \<longrightarrow> queued s = []) \<and> bio_received s = bio_delivered s @ unread s"
proof -
  have ok: "write_ok s" "settled s" "read_ok s" using bio.inv_reachable [OF assms] by (simp_all add: bio_ok_def)
  have "queued s = []" if "write_error s = net_OK"
    using ok(1,2) that by (auto simp: write_ok_def buffer_ok_def settled_def queued_def net_errors split: option.splits)
  moreover have "prefix (bio_written s) (bio_accepted s)" using ok(1) by (auto simp: write_ok_def split: if_splits)
  ultimately show ?thesis using ok(1,3) by (auto simp: write_ok_def flight_ok_def read_ok_def)
qed

theorem bio_adapter_keeps_bytes_witness:
  "bio_accepted demo_bio = [1, 2, 3, 5, 6] \<and> bio_written demo_bio = [1, 2] \<and> queued demo_bio = [3, 5, 6] \<and>
   bio_accepted demo_bio = bio_written demo_bio @ queued demo_bio"
proof -
  have "\<not> failed_write demo_bio \<and> bio_accepted demo_bio = [1, 2, 3, 5, 6] \<and> bio_written demo_bio = [1, 2] \<and> queued demo_bio = [3, 5, 6]"
    by code_simp
  with bio_adapter_keeps_bytes [OF demo_bio_reachable] show ?thesis by simp
qed

text \<open>
  C27.  The adapter always returns: over a socket that takes at least one byte of a write that does not fail or wait, no
  call and no completion fails a check, uses a buffer that is gone, or loops for ever.
\<close>

theorem bio_adapter_defined:
  assumes "bio_reachable Write rcap wcap s" "honest_write Write" "\<forall>n bs. bs \<noteq> [] \<longrightarrow> Write n bs \<noteq> 0" "bio_permits ev s"
  shows "\<exists>s'. bio_exec Write ev s = Some s'"
proof -
  have ok: "bio_ok s" using bio.inv_reachable [OF assms(1)] .
  have c: "bio_ok (clear_retry s)"
    by (rule bio_ok_same [OF ok]) (simp_all add: clear_retry_def write_unchanged_def read_unchanged_def)
  show ?thesis
  proof (cases ev)
    case (BioRead a len)
    with assms(4) BIORead_ok [OF c, of "read_buffer_capacity s" a len] show ?thesis by (auto simp: BIOReadWrapper_def Let_def)
  next
    case (BioWrite inp)
    with BIOWrite_returns [OF assms(2,3) c, of inp] show ?thesis by (auto simp: BIOWriteWrapper_def Let_def)
  next
    case (BioWriteDone result)
    with assms(4) OnSocketWriteComplete_returns [OF assms(2,3) ok] show ?thesis by auto
  qed (auto split: option.splits)
qed

theorem bio_adapter_defined_witness: "\<exists>s'. bio_exec demo_write (BioWriteDone 1) demo_bio = Some s'"
proof (rule bio_adapter_defined [OF demo_bio_reachable])
  show "honest_write demo_write" by (simp add: honest_write_def demo_write_def net_errors)
  show "\<forall>n bs. bs \<noteq> [] \<longrightarrow> demo_write n bs \<noteq> 0" by (auto simp: demo_write_def net_errors min_def)
  show "bio_permits (BioWriteDone 1) demo_bio" by code_simp
qed

text \<open>
  C28.  No wake-up is lost: a caller whose write had no room waits only while a write to the socket is pending, and is
  signalled when it completes, with whatever result; and a caller whose read had to wait is signalled when the
  pending read completes.
\<close>

theorem bio_adapter_wakes_callers:
  assumes "bio_reachable Write rcap wcap s" "bio_alive s" "bio_resume s = None"
  shows "(bio_write_blocked s \<longrightarrow> write_error s = ERR_IO_PENDING \<and>
      (\<forall>result s'. bio_permits (BioWriteDone result) s \<longrightarrow> bio_exec Write (BioWriteDone result) s = Some s' \<longrightarrow>
         bio_signals s' = bio_signals s @ [OnWriteReady] \<and> \<not> bio_write_blocked s')) \<and>
    (bio_read_blocked s \<longrightarrow> read_result s = ERR_IO_PENDING \<and>
      (\<forall>a s'. bio_permits (BioReadDone a) s \<longrightarrow> bio_exec Write (BioReadDone a) s = Some s' \<longrightarrow>
         bio_signals s' = bio_signals s @ [OnReadReady] \<and> \<not> bio_read_blocked s'))"
proof -
  have ok: "bio_ok s" using bio.inv_reachable [OF assms(1)] .
  have w: "write_error s = ERR_IO_PENDING" if "bio_write_blocked s"
    using ok that by (auto simp: bio_ok_def settled_def write_ok_def buffer_ok_def)
  have r: "read_result s = ERR_IO_PENDING" if "bio_read_blocked s" using ok that by (auto simp: bio_ok_def read_ok_def)
  have "bio_signals s' = bio_signals s @ [OnWriteReady] \<and> \<not> bio_write_blocked s'"
    if "bio_write_blocked s" "bio_permits (BioWriteDone result) s" "bio_exec Write (BioWriteDone result) s = Some s'" for result s'
    using OnSocketWriteComplete_ok [of Write result s s'] that w assms(2,3) ok by auto
  moreover have "bio_signals s' = bio_signals s @ [OnReadReady] \<and> \<not> bio_read_blocked s'"
    if "bio_read_blocked s" "bio_exec Write (BioReadDone a) s = Some s'" for a s'
    using that r assms(2,3)
    by (auto simp: OnSocketReadComplete_def signal_read_def HandleSocketReadResult_def split: read_answer.splits list.splits)
  ultimately show ?thesis using w r by blast
qed

theorem bio_adapter_wakes_callers_witness:
  "\<exists>s'. bio_exec demo_write (BioWriteDone 1) demo_bio = Some s' \<and> bio_signals s' = [OnWriteReady] \<and> \<not> bio_write_blocked s'"
proof -
  have 1: "bio_alive demo_bio" "bio_resume demo_bio = None" "bio_write_blocked demo_bio" "bio_permits (BioWriteDone 1) demo_bio"
    "bio_signals demo_bio = []" "bio_exec demo_write (BioWriteDone 1) demo_bio \<noteq> None" by code_simp+
  then obtain s' where "bio_exec demo_write (BioWriteDone 1) demo_bio = Some s'" by blast
  with bio_adapter_wakes_callers [OF demo_bio_reachable 1(1,2)] 1(3-5) show ?thesis by (metis append_Nil)
qed

text \<open>
  But a reader that waits is not told of a write error that is found when the adapter goes on writing after a
  completed write: only the result of the completed one is looked at.
\<close>

definition failing_write :: "nat \<Rightarrow> bytes \<Rightarrow> int" where
  "failing_write n bs = (if n = 0 then ERR_IO_PENDING else - 101)"

lemma write_error_unsignalled:
  "case bio_run failing_write [BioRead RdPending 5, BioWrite [1, 2], BioWriteDone 1] (new_SocketBIOAdapter 8 4) of
     None \<Rightarrow> False
   | Some s \<Rightarrow> write_error s = - 101 \<and> bio_read_blocked s \<and> bio_signals s = [] \<and> bio_tasks s = 0 \<and> bio_resume s = None"
  by code_simp

end
