(* ===== verification/Felicia_WebSocket.thy ===== *)
theory Felicia_WebSocket
  imports Felicia_Net
begin

text \<open>
  \<open>core/channel/socket/web_socket_channel.cc\<close>: a web socket as a machine that writes and receives frames and closes with a
  handshake.  What the stream answers to a write at once is a parameter, given the number of the call and the frames;
  results that come later, frames read and the timer are events.  The user's callback is recorded when it runs,
  and a frame it sends comes as a later event.  \<open>None\<close> is a broken \<open>DCHECK\<close>.
\<close>

section \<open>Frames and codes\<close>

datatype opcode = kOpCodeContinuation | kOpCodeText | kOpCodeBinary | kOpCodeClose | kOpCodePing | kOpCodePong | OpCodeUnknown nat

definition IsKnownDataOpCode :: "opcode \<Rightarrow> bool" where
  "IsKnownDataOpCode opcode \<longleftrightarrow> opcode = kOpCodeContinuation \<or> opcode = kOpCodeText \<or> opcode = kOpCodeBinary"

definition IsKnownControlOpCode :: "opcode \<Rightarrow> bool" where
  "IsKnownControlOpCode opcode \<longleftrightarrow> opcode = kOpCodeClose \<or> opcode = kOpCodePing \<or> opcode = kOpCodePong"

text \<open>\<open>wf_tag\<close>: which call of \<open>SendFrame\<close> a frame came from.\<close>

record ws_frame =
  wf_opcode :: opcode
  wf_final :: bool
  wf_reserved1 :: bool
  wf_reserved2 :: bool
  wf_reserved3 :: bool
  wf_data :: bytes
  wf_tag :: "nat option"

definition plain_frame :: "bool \<Rightarrow> opcode \<Rightarrow> bytes \<Rightarrow> nat option \<Rightarrow> ws_frame" where
  "plain_frame fin op_code buffer tag = \<lparr>wf_opcode = op_code, wf_final = fin, wf_reserved1 = False, wf_reserved2 = False,
     wf_reserved3 = False, wf_data = buffer, wf_tag = tag\<rparr>"

definition kWebSocketErrorProtocolError :: u16 where "kWebSocketErrorProtocolError = 1002"
definition kWebSocketErrorNoStatusReceived :: u16 where "kWebSocketErrorNoStatusReceived = 1005"
definition kWebSocketErrorAbnormalClosure :: u16 where "kWebSocketErrorAbnormalClosure = 1006"
definition kWebSocketErrorInternalServerError :: u16 where "kWebSocketErrorInternalServerError = 1011"
definition kWebSocketErrorTlsHandshake :: u16 where "kWebSocketErrorTlsHandshake = 1015"

definition kWebSocketCloseCodeLength :: nat where "kWebSocketCloseCodeLength = 2"
definition kMaximumCloseReasonLength :: nat where "kMaximumCloseReasonLength = 125 - kWebSocketCloseCodeLength"

definition kInvalidRanges :: "int list" where
  "kInvalidRanges = [0, 1000, 1006, 1007, 1014, 3000, 5000, 65536]"

text \<open>\<open>std::upper_bound\<close>: the index of the first element above the code.\<close>

definition upper_bound :: "int list \<Rightarrow> int \<Rightarrow> nat" where
  "upper_bound xs x = length (takeWhile (\<lambda>y. \<not> x < y) xs)"

definition IsStrictlyValidCloseStatusCode :: "int \<Rightarrow> bool" where
  "IsStrictlyValidCloseStatusCode code \<longleftrightarrow> upper_bound kInvalidRanges code mod 2 = 0"

section \<open>The channel\<close>

datatype ws_state = FRESHLY_CONSTRUCTED | CONNECTING | CONNECTED | SEND_CLOSED | RECV_CLOSED | CLOSE_WAIT | CLOSED

text \<open>
  The last fields record the calls of the stream's \<open>WriteFrames\<close>, the frames written, the callbacks run with their results, and
  the frames the user sent.
\<close>

record ws_channel =
  wc_state :: ws_state
  data_being_sent :: "ws_frame list option"
  data_to_send_next :: "ws_frame list option"
  close_timer :: bool
  has_received_close_frame :: bool
  received_close_code :: u16
  received_close_reason :: bytes
  ws_write_callback :: "nat option"
  ws_writes :: nat
  ws_sent :: "ws_frame list"
  ws_callbacks :: "(nat \<times> int) list"
  ws_submitted :: nat

definition new_WebSocketChannel :: ws_channel where
  "new_WebSocketChannel = \<lparr>wc_state = CONNECTED, data_being_sent = None, data_to_send_next = None, close_timer = False,
     has_received_close_frame = False, received_close_code = 0, received_close_reason = [], ws_write_callback = None,
     ws_writes = 0, ws_sent = [], ws_callbacks = [], ws_submitted = 0\<rparr>"

definition SetState :: "ws_state \<Rightarrow> ws_channel \<Rightarrow> ws_channel option" where
  "SetState new_state s = (if wc_state s = new_state then None else Some (s\<lparr>wc_state := new_state\<rparr>))"

definition IsClosedState :: "ws_channel \<Rightarrow> bool" where
  "IsClosedState s \<longleftrightarrow> wc_state s = CLOSED"

definition InClosingState :: "ws_channel \<Rightarrow> bool" where
  "InClosingState s \<longleftrightarrow> wc_state s \<in> {SEND_CLOSED, CLOSE_WAIT, CLOSED}"

definition run_ws_callback :: "int \<Rightarrow> ws_channel \<Rightarrow> ws_channel" where
  "run_ws_callback result s =
     (case ws_write_callback s of
        None \<Rightarrow> s
      | Some i \<Rightarrow> s\<lparr>ws_write_callback := None, ws_callbacks := ws_callbacks s @ [(i, result)]\<rparr>)"

definition DoDropChannel :: "ws_channel \<Rightarrow> ws_channel" where
  "DoDropChannel s = (run_ws_callback ERR_CONNECTION_RESET s)\<lparr>close_timer := False\<rparr>"

subsection \<open>Writing\<close>

text \<open>
  The results are the new state and whether it is \<open>CHANNEL_ALIVE\<close>.  \<open>write_done\<close> is \<open>OnWriteDone\<close> up to the call of
  \<open>WriteFrames\<close> for what is to be sent next, which it asks for with its last result.
\<close>

definition write_done :: "bool \<Rightarrow> int \<Rightarrow> ws_channel \<Rightarrow> (ws_channel \<times> bool \<times> bool) option" where
  "write_done synchronous result s =
     (if wc_state s = FRESHLY_CONSTRUCTED \<or> wc_state s = CONNECTING \<or> result = ERR_IO_PENDING then None
      else case data_being_sent s of
        None \<Rightarrow> None
      | Some frames \<Rightarrow>
          if result = net_OK then
            let s0 = s\<lparr>ws_sent := ws_sent s @ frames\<rparr> in
            case data_to_send_next s of
              Some next_frames \<Rightarrow>
                let s1 = s0\<lparr>data_being_sent := Some next_frames, data_to_send_next := None\<rparr> in
                if \<not> synchronous then Some (s1, True, True) else Some (run_ws_callback result s1, True, False)
            | None \<Rightarrow> Some (run_ws_callback result (s0\<lparr>data_being_sent := None\<rparr>), True, False)
          else if result > 0 then None
          else Option.bind (SetState CLOSED s) (\<lambda>s1. Some (DoDropChannel s1, False, False)))"

partial_function (option) WriteFrames :: "(nat \<Rightarrow> ws_frame list \<Rightarrow> int) \<Rightarrow> ws_channel \<Rightarrow> (ws_channel \<times> bool) option" where
  "WriteFrames Write s =
     (case data_being_sent s of
        None \<Rightarrow> None
      | Some frames \<Rightarrow>
          let result = Write (ws_writes s) frames; s1 = s\<lparr>ws_writes := ws_writes s + 1\<rparr> in
          if result = ERR_IO_PENDING then Some (s1, True)
          else case write_done True result s1 of
            None \<Rightarrow> None
          | Some (s2, alive, again) \<Rightarrow>
              if \<not> alive then Some (s2, False)
              else if result = net_OK \<and> data_being_sent s2 \<noteq> None then WriteFrames Write s2
              else Some (s2, True))"

declare WriteFrames.simps [code]

definition OnWriteDone :: "(nat \<Rightarrow> ws_frame list \<Rightarrow> int) \<Rightarrow> int \<Rightarrow> ws_channel \<Rightarrow> (ws_channel \<times> bool) option" where
  "OnWriteDone Write result s =
     Option.bind (write_done False result s) (\<lambda>(s1, alive, again). if again then WriteFrames Write s1 else Some (s1, alive))"

definition SendFrameInternal ::
    "(nat \<Rightarrow> ws_frame list \<Rightarrow> int) \<Rightarrow> ws_frame \<Rightarrow> ws_channel \<Rightarrow> (ws_channel \<times> bool) option" where
  "SendFrameInternal Write fr s =
     (if wc_state s \<noteq> CONNECTED \<and> wc_state s \<noteq> RECV_CLOSED then None
      else case data_being_sent s of
        Some _ \<Rightarrow>
          Some (s\<lparr>data_to_send_next := Some ((case data_to_send_next s of None \<Rightarrow> [] | Some fs \<Rightarrow> fs) @ [fr])\<rparr>, True)
      | None \<Rightarrow> WriteFrames Write (s\<lparr>data_being_sent := Some [fr]\<rparr>))"

definition SendFrame ::
    "(nat \<Rightarrow> ws_frame list \<Rightarrow> int) \<Rightarrow> bool \<Rightarrow> opcode \<Rightarrow> bytes \<Rightarrow> ws_channel \<Rightarrow> (ws_channel \<times> bool) option" where
  "SendFrame Write fin op_code buffer s =
     (if ws_write_callback s \<noteq> None \<or> op_code = kOpCodeText \<or> op_code = kOpCodeContinuation \<or> wc_state s = RECV_CLOSED then None
      else let i = ws_submitted s; s0 = s\<lparr>ws_submitted := i + 1\<rparr> in
        if InClosingState s then Some (s0\<lparr>ws_callbacks := ws_callbacks s @ [(i, ERR_CONNECTION_CLOSED)]\<rparr>, True)
        else if \<not> IsKnownDataOpCode op_code \<or> wc_state s \<noteq> CONNECTED then None
        else SendFrameInternal Write (plain_frame fin op_code buffer (Some i)) (s0\<lparr>ws_write_callback := Some i\<rparr>))"

subsection \<open>Closing\<close>

definition close_body :: "u16 \<Rightarrow> bytes \<Rightarrow> bytes" where
  "close_body code reason =
     (if code = kWebSocketErrorNoStatusReceived then [] else [ucast (drop_bit 8 code), ucast code] @ reason)"

definition SendClose :: "(nat \<Rightarrow> ws_frame list \<Rightarrow> int) \<Rightarrow> u16 \<Rightarrow> bytes \<Rightarrow> ws_channel \<Rightarrow> (ws_channel \<times> bool) option" where
  "SendClose Write code reason s =
     (if length reason > kMaximumCloseReasonLength \<or> (code = kWebSocketErrorNoStatusReceived \<and> reason \<noteq> []) then None
      else SendFrameInternal Write (plain_frame True kOpCodeClose (close_body code reason) None) s)"

text \<open>
  The check of the reason is commented out, so that what follows a status code is always taken for invalid.
  The results are whether the frame is well formed, the code and the reason.
\<close>

definition ParseClose :: "bytes \<Rightarrow> bool \<times> u16 \<times> string" where
  "ParseClose data =
     (if length data < kWebSocketCloseCodeLength then
        if data = [] then (True, kWebSocketErrorNoStatusReceived, []) else (False, kWebSocketErrorProtocolError, [])
      else
        let unchecked_code = push_bit 8 (ucast (data ! 0)) OR ucast (data ! 1) in
        if unchecked_code \<in> {kWebSocketErrorNoStatusReceived, kWebSocketErrorAbnormalClosure, kWebSocketErrorTlsHandshake}
        then (False, kWebSocketErrorProtocolError, [])
        else (False, kWebSocketErrorProtocolError, ''Invalid UTF-8 in Close frame''))"

definition string_bytes :: "string \<Rightarrow> bytes" where
  "string_bytes cs = map (\<lambda>c. word_of_nat (of_char c)) cs"

text \<open>The timer is left running.\<close>

definition FailChannel :: "(nat \<Rightarrow> ws_frame list \<Rightarrow> int) \<Rightarrow> u16 \<Rightarrow> string \<Rightarrow> ws_channel \<Rightarrow> ws_channel option" where
  "FailChannel Write code reason s =
     (if wc_state s \<in> {FRESHLY_CONSTRUCTED, CONNECTING, CLOSED} then None
      else Option.bind (if wc_state s = CONNECTED then SendClose Write code (string_bytes reason) s else Some (s, True))
        (\<lambda>(s1, alive). if \<not> alive then Some s1
           else Option.bind (SetState CLOSED s1) (\<lambda>s2. Some (run_ws_callback ERR_CONNECTION_RESET s2))))"

definition RespondToClosingHandshake :: "(nat \<Rightarrow> ws_frame list \<Rightarrow> int) \<Rightarrow> ws_channel \<Rightarrow> (ws_channel \<times> bool) option" where
  "RespondToClosingHandshake Write s =
     (if \<not> has_received_close_frame s \<or> wc_state s \<noteq> CONNECTED then None
      else Option.bind (SendClose Write (received_close_code s) (received_close_reason s) (s\<lparr>wc_state := RECV_CLOSED\<rparr>))
        (\<lambda>(s1, alive). if \<not> alive then Some (s1, False)
           else if wc_state s1 \<noteq> RECV_CLOSED \<or> close_timer s1 then None
           else Some (s1\<lparr>wc_state := CLOSE_WAIT, close_timer := True\<rparr>, True)))"

definition StartClosingHandshake ::
    "(nat \<Rightarrow> ws_frame list \<Rightarrow> int) \<Rightarrow> u16 \<Rightarrow> bytes \<Rightarrow> ws_channel \<Rightarrow> (ws_channel \<times> bool) option" where
  "StartClosingHandshake Write code reason s =
     (if InClosingState s then Some (s, True)
      else if has_received_close_frame s then RespondToClosingHandshake Write s
      else if wc_state s \<noteq> CONNECTED \<or> close_timer s then None
      else Option.bind
        (if \<not> IsStrictlyValidCloseStatusCode (uint code) \<or> length reason > kMaximumCloseReasonLength
         then SendClose Write kWebSocketErrorInternalServerError [] (s\<lparr>close_timer := True\<rparr>)
         else SendClose Write code reason (s\<lparr>close_timer := True\<rparr>))
        (\<lambda>(s1, alive). if \<not> alive then Some (s1, False)
           else if wc_state s1 \<noteq> CONNECTED then None
           else Some (s1\<lparr>wc_state := SEND_CLOSED\<rparr>, True)))"

definition CloseTimeout :: "ws_channel \<Rightarrow> ws_channel option" where
  "CloseTimeout s = Option.bind (SetState CLOSED (s\<lparr>close_timer := False\<rparr>)) (\<lambda>s1. Some (DoDropChannel s1))"

subsection \<open>Receiving\<close>

text \<open>No frame is ever put into \<open>pending_received_frames_\<close>, so it is empty when a close frame is received.\<close>

definition HandleCloseFrame ::
    "(nat \<Rightarrow> ws_frame list \<Rightarrow> int) \<Rightarrow> u16 \<Rightarrow> bytes \<Rightarrow> ws_channel \<Rightarrow> (ws_channel \<times> bool) option" where
  "HandleCloseFrame Write code reason s =
     (let s0 = s\<lparr>has_received_close_frame := True, received_close_code := code, received_close_reason := reason\<rparr> in
      case wc_state s of
        CONNECTED \<Rightarrow> RespondToClosingHandshake Write s0
      | SEND_CLOSED \<Rightarrow> if close_timer s then Some (s0\<lparr>wc_state := CLOSE_WAIT\<rparr>, True) else None
      | _ \<Rightarrow> None)"

definition HandleFrameByState ::
    "(nat \<Rightarrow> ws_frame list \<Rightarrow> int) \<Rightarrow> opcode \<Rightarrow> bytes \<Rightarrow> ws_channel \<Rightarrow> (ws_channel \<times> bool) option" where
  "HandleFrameByState Write opcode data s =
     (if wc_state s = RECV_CLOSED \<or> wc_state s = CLOSED then None
      else if wc_state s = CLOSE_WAIT
      then map_option (\<lambda>s1. (s1, False)) (FailChannel Write kWebSocketErrorProtocolError [] s)
      else case opcode of
        kOpCodeText \<Rightarrow> Some (s, True)
      | kOpCodeBinary \<Rightarrow> Some (s, True)
      | kOpCodeContinuation \<Rightarrow> Some (s, True)
      | kOpCodePing \<Rightarrow>
          if wc_state s = CONNECTED then SendFrameInternal Write (plain_frame True kOpCodePong data None) s else Some (s, True)
      | kOpCodePong \<Rightarrow> Some (s, True)
      | kOpCodeClose \<Rightarrow>
          (case ParseClose data of (ok, code, reason) \<Rightarrow>
             if \<not> ok then map_option (\<lambda>s1. (s1, False)) (FailChannel Write code reason s)
             else HandleCloseFrame Write code (string_bytes reason) s)
      | OpCodeUnknown n \<Rightarrow>
          map_option (\<lambda>s1. (s1, False)) (FailChannel Write kWebSocketErrorProtocolError ''Unknown opcode'' s))"

definition HandleFrame :: "(nat \<Rightarrow> ws_frame list \<Rightarrow> int) \<Rightarrow> ws_frame \<Rightarrow> ws_channel \<Rightarrow> (ws_channel \<times> bool) option" where
  "HandleFrame Write fr s =
     (if IsKnownControlOpCode (wf_opcode fr) \<and> \<not> wf_final fr then None
      else if wf_reserved1 fr \<or> wf_reserved2 fr \<or> wf_reserved3 fr
      then map_option (\<lambda>s1. (s1, False)) (FailChannel Write kWebSocketErrorProtocolError ''Invalid reserved bit'' s)
      else HandleFrameByState Write (wf_opcode fr) (wf_data fr) s)"

primrec handle_frames :: "(nat \<Rightarrow> ws_frame list \<Rightarrow> int) \<Rightarrow> ws_frame list \<Rightarrow> ws_channel \<Rightarrow> (ws_channel \<times> bool) option" where
  "handle_frames Write [] s = Some (s, True)"
| "handle_frames Write (f # fs) s =
     Option.bind (HandleFrame Write f s) (\<lambda>(s1, alive). if alive then handle_frames Write fs s1 else Some (s1, False))"

definition OnReadDone :: "(nat \<Rightarrow> ws_frame list \<Rightarrow> int) \<Rightarrow> int \<Rightarrow> ws_frame list \<Rightarrow> ws_channel \<Rightarrow> (ws_channel \<times> bool) option" where
  "OnReadDone Write result frames s =
     (if wc_state s = FRESHLY_CONSTRUCTED \<or> wc_state s = CONNECTING \<or> result = ERR_IO_PENDING then None
      else if result = net_OK then
        if frames = [] then None
        else Option.bind (handle_frames Write frames s)
          (\<lambda>(s1, alive). if alive \<and> wc_state s1 = CLOSED then None else Some (s1, alive))
      else if result = net_ERR_WS_PROTOCOL_ERROR
      then map_option (\<lambda>s1. (s1, False)) (FailChannel Write kWebSocketErrorProtocolError ''WebSocket Protocol Error'' s)
      else if result > 0 then None
      else Option.bind (SetState CLOSED s) (\<lambda>s1. Some (DoDropChannel s1, False)))"

section \<open>Events\<close>

text \<open>
  A closed stream completes nothing any more.  There is always a read of the stream, so that frames may come at any
  time before; what a read may give is what the stream promises.
\<close>

datatype wch_event = WcSend bool bytes | WcClose u16 bytes | WcWriteDone int | WcRead int "ws_frame list" | WcTimeout

fun wch_exec :: "(nat \<Rightarrow> ws_frame list \<Rightarrow> int) \<Rightarrow> wch_event \<Rightarrow> ws_channel \<Rightarrow> ws_channel option" where
  "wch_exec Write (WcSend fin buffer) s = map_option fst (SendFrame Write fin kOpCodeBinary buffer s)"
| "wch_exec Write (WcClose code reason) s = map_option fst (StartClosingHandshake Write code reason s)"
| "wch_exec Write (WcWriteDone result) s =
     (if wc_state s \<noteq> CLOSED \<and> data_being_sent s \<noteq> None then map_option fst (OnWriteDone Write result s) else Some s)"
| "wch_exec Write (WcRead result frames) s =
     (if wc_state s \<noteq> CLOSED then map_option fst (OnReadDone Write result frames s) else Some s)"
| "wch_exec Write WcTimeout s = (if close_timer s then CloseTimeout s else Some s)"

fun wch_permits :: "wch_event \<Rightarrow> ws_channel \<Rightarrow> bool" where
  "wch_permits (WcSend fin buffer) s \<longleftrightarrow> ws_write_callback s = None"
| "wch_permits (WcWriteDone result) s \<longleftrightarrow> result \<le> net_OK \<and> result \<noteq> ERR_IO_PENDING"
| "wch_permits (WcRead result frames) s \<longleftrightarrow> result \<le> net_OK \<and> result \<noteq> ERR_IO_PENDING \<and> (result = net_OK \<longrightarrow> frames \<noteq> []) \<and>
     (\<forall>f \<in> set frames. IsKnownControlOpCode (wf_opcode f) \<longrightarrow> wf_final f)"
| "wch_permits _ s \<longleftrightarrow> True"

inductive wch_step :: "(nat \<Rightarrow> ws_frame list \<Rightarrow> int) \<Rightarrow> ws_channel \<Rightarrow> ws_channel \<Rightarrow> bool" for Write where
  "wch_permits ev s \<Longrightarrow> wch_exec Write ev s = Some s' \<Longrightarrow> wch_step Write s s'"

inductive_cases wch_stepE: "wch_step Write s s'"

end
