(* ===== verification/Felicia_WebSocketStream.thy ===== *)
theory Felicia_WebSocketStream
  imports Felicia_WebSocket
begin

text \<open>
  \<open>core/channel/socket/web_socket_basic_stream.cc\<close>, which turns frames into bytes and back, with the frame format and the
  parser that it uses (\<open>third_party/chromium/net/websockets\<close>).  A socket's answers to writes are a parameter, given the number
  of the call and the bytes; the bytes read are given to the operations.  \<open>None\<close> is a broken \<open>CHECK\<close> or \<open>DCHECK\<close>.
\<close>

section \<open>The frame format\<close>

text \<open>\<open>base/big_endian.h\<close>: \<open>k\<close> bytes of an integer, the highest first.\<close>

fun WriteBigEndian :: "nat \<Rightarrow> int \<Rightarrow> bytes" where
  "WriteBigEndian 0 val = []"
| "WriteBigEndian (Suc k) val = WriteBigEndian k (val div 256) @ [word_of_int val]"

definition ReadBigEndian :: "bytes \<Rightarrow> int" where
  "ReadBigEndian buf = foldl (\<lambda>out b. out * 256 + uint b) 0 buf"

fun opcode_num :: "opcode \<Rightarrow> int" where
  "opcode_num kOpCodeContinuation = 0"
| "opcode_num kOpCodeText = 1"
| "opcode_num kOpCodeBinary = 2"
| "opcode_num kOpCodeClose = 8"
| "opcode_num kOpCodePing = 9"
| "opcode_num kOpCodePong = 10"
| "opcode_num (OpCodeUnknown n) = int n"

definition num_opcode :: "int \<Rightarrow> opcode" where
  "num_opcode n =
     (if n = 0 then kOpCodeContinuation else if n = 1 then kOpCodeText else if n = 2 then kOpCodeBinary
      else if n = 8 then kOpCodeClose else if n = 9 then kOpCodePing else if n = 10 then kOpCodePong else OpCodeUnknown (nat n))"

record ws_header =
  wh_final :: bool
  wh_reserved1 :: bool
  wh_reserved2 :: bool
  wh_reserved3 :: bool
  wh_opcode :: opcode
  wh_masked :: bool
  wh_payload_length :: int

definition kMaskingKeyLength :: nat where "kMaskingKeyLength = 4"

definition GetWebSocketFrameHeaderSize :: "ws_header \<Rightarrow> int" where
  "GetWebSocketFrameHeaderSize h =
     2 + (if wh_payload_length h > 125 \<and> wh_payload_length h \<le> 65535 then 2 else if wh_payload_length h > 65535 then 8 else 0) +
     (if wh_masked h then int kMaskingKeyLength else 0)"

definition first_byte :: "ws_header \<Rightarrow> 8 word" where
  "first_byte h = (if wh_final h then 0x80 else 0) OR (if wh_reserved1 h then 0x40 else 0) OR (if wh_reserved2 h then 0x20 else 0) OR
     (if wh_reserved3 h then 0x10 else 0) OR (word_of_int (opcode_num (wh_opcode h)) AND 0xF)"

definition second_byte :: "ws_header \<Rightarrow> 8 word" where
  "second_byte h = (if wh_masked h then 0x80 else 0) OR
     (if wh_payload_length h \<le> 125 then word_of_int (wh_payload_length h)
      else if wh_payload_length h \<le> 65535 then 126 else 127)"

definition extended_length :: "ws_header \<Rightarrow> bytes" where
  "extended_length h =
     (if wh_payload_length h \<le> 125 then [] else if wh_payload_length h \<le> 65535 then WriteBigEndian 2 (wh_payload_length h)
      else WriteBigEndian 8 (wh_payload_length h))"

definition header_bytes :: "ws_header \<Rightarrow> bytes option \<Rightarrow> bytes" where
  "header_bytes h masking_key = first_byte h # second_byte h # extended_length h @ (case masking_key of None \<Rightarrow> [] | Some key \<Rightarrow> key)"

text \<open>The result, and the bytes written to the buffer.\<close>

definition WriteWebSocketFrameHeader :: "ws_header \<Rightarrow> bytes option \<Rightarrow> int \<Rightarrow> (int \<times> bytes) option" where
  "WriteWebSocketFrameHeader h masking_key buffer_size =
     (if opcode_num (wh_opcode h) > 15 \<or> wh_payload_length h > 2 ^ 63 - 1 \<or> buffer_size < 0 \<or> wh_masked h \<noteq> (masking_key \<noteq> None)
      then None
      else if GetWebSocketFrameHeaderSize h > buffer_size then Some (ERR_INVALID_ARGUMENT, [])
      else Some (GetWebSocketFrameHeaderSize h, header_bytes h masking_key))"

subsection \<open>Masking\<close>

fun MaskWebSocketFramePayloadByBytes :: "bytes \<Rightarrow> nat \<Rightarrow> bytes \<Rightarrow> bytes" where
  "MaskWebSocketFramePayloadByBytes key i [] = []"
| "MaskWebSocketFramePayloadByBytes key i (b # bs) =
     (b XOR key ! (i mod kMaskingKeyLength)) # MaskWebSocketFramePayloadByBytes key (Suc i) bs"

definition kPackedMaskKeySize :: nat where "kPackedMaskKeySize = 16"

lemma kPackedMaskKeySize_pos: "0 < kPackedMaskKeySize"
  by (simp add: kPackedMaskKeySize_def)

function mask_packed :: "bytes \<Rightarrow> bytes \<Rightarrow> bytes" where
  "mask_packed packed_mask_key merged =
     (if merged = [] then []
      else map2 (XOR) (take kPackedMaskKeySize merged) packed_mask_key @ mask_packed packed_mask_key (drop kPackedMaskKeySize merged))"
  by auto
termination
  by (relation "measure (length \<circ> snd)") (auto simp: kPackedMaskKeySize_pos)

declare mask_packed.simps [simp del]

text \<open>\<open>address\<close> is where the data are: the middle of them is masked in aligned units of 16 bytes.\<close>

definition MaskWebSocketFramePayload :: "nat \<Rightarrow> bytes \<Rightarrow> nat \<Rightarrow> bytes \<Rightarrow> bytes" where
  "MaskWebSocketFramePayload address key frame_offset data =
     (if length data \<le> kPackedMaskKeySize * 2 then MaskWebSocketFramePayloadByBytes key (frame_offset mod kMaskingKeyLength) data
      else
        let data_modulus = address mod kPackedMaskKeySize;
            aligned_begin = (if data_modulus = 0 then 0 else kPackedMaskKeySize - data_modulus);
            end_modulus = (address + length data) mod kPackedMaskKeySize;
            aligned_end = length data - end_modulus;
            realigned_mask = MaskWebSocketFramePayloadByBytes key ((frame_offset + aligned_begin) mod kMaskingKeyLength)
              (replicate kMaskingKeyLength 0);
            packed_mask_key = concat (replicate (kPackedMaskKeySize div kMaskingKeyLength) realigned_mask) in
        MaskWebSocketFramePayloadByBytes key (frame_offset mod kMaskingKeyLength) (take aligned_begin data) @
        mask_packed packed_mask_key (take (aligned_end - aligned_begin) (drop aligned_begin data)) @
        MaskWebSocketFramePayloadByBytes key ((frame_offset + aligned_end) mod kMaskingKeyLength) (drop aligned_end data))"

section \<open>The parser\<close>

text \<open>
  The bytes of \<open>buffer_\<close> before \<open>current_read_pos_\<close> are never looked at again and are dropped at once.
\<close>

definition kWebSocketNormalClosure :: u16 where "kWebSocketNormalClosure = 1000"
definition kWebSocketErrorMessageTooBig :: u16 where "kWebSocketErrorMessageTooBig = 1009"

record ws_parser =
  ps_buffer :: bytes
  ps_header :: "ws_header option"
  ps_masking_key :: bytes
  ps_offset :: int
  ps_error :: u16

record ws_chunk =
  ch_header :: "ws_header option"
  ch_final :: bool
  ch_data :: "bytes option"

definition new_WebSocketFrameParser :: ws_parser where
  "new_WebSocketFrameParser = \<lparr>ps_buffer = [], ps_header = None, ps_masking_key = replicate kMaskingKeyLength 0, ps_offset = 0,
     ps_error = kWebSocketNormalClosure\<rparr>"

text \<open>The length of the payload, what follows it and the error found; \<open>None\<close> when bytes are missing.\<close>

definition decode_length :: "8 word \<Rightarrow> bytes \<Rightarrow> (int \<times> bytes \<times> u16) option" where
  "decode_length second current =
     (let payload_length = uint (second AND 0x7F) in
      if payload_length = 126 then
        if length current < 2 then None
        else let payload_length = ReadBigEndian (take 2 current) in
          Some (payload_length, drop 2 current,
            if payload_length \<le> 125 then kWebSocketErrorProtocolError else kWebSocketNormalClosure)
      else if payload_length = 127 then
        if length current < 8 then None
        else let payload_length = ReadBigEndian (take 8 current) in
          Some (payload_length, drop 8 current,
            if payload_length \<le> 65535 \<or> payload_length > 2 ^ 63 - 1 then kWebSocketErrorProtocolError
            else if payload_length > 2 ^ 31 - 1 then kWebSocketErrorMessageTooBig else kWebSocketNormalClosure)
      else Some (payload_length, current, kWebSocketNormalClosure))"

definition decoded_header :: "8 word \<Rightarrow> 8 word \<Rightarrow> int \<Rightarrow> ws_header" where
  "decoded_header first second payload_length =
     \<lparr>wh_final = (first AND 0x80 \<noteq> 0), wh_reserved1 = (first AND 0x40 \<noteq> 0), wh_reserved2 = (first AND 0x20 \<noteq> 0),
      wh_reserved3 = (first AND 0x10 \<noteq> 0), wh_opcode = num_opcode (uint (first AND 0xF)), wh_masked = (second AND 0x80 \<noteq> 0),
      wh_payload_length = payload_length\<rparr>"

definition DecodeFrameHeader :: "ws_parser \<Rightarrow> ws_parser" where
  "DecodeFrameHeader p =
     (case ps_buffer p of
        first # second # current \<Rightarrow>
          (case decode_length second current of
             None \<Rightarrow> p
           | Some (payload_length, current, error) \<Rightarrow>
               if error \<noteq> kWebSocketNormalClosure
               then p\<lparr>ps_error := error, ps_buffer := [], ps_header := None, ps_offset := 0\<rparr>
               else let h = decoded_header first second payload_length in
                 if wh_masked h then
                   if length current < kMaskingKeyLength then p
                   else p\<lparr>ps_header := Some h, ps_masking_key := take kMaskingKeyLength current, ps_buffer := drop kMaskingKeyLength current\<rparr>
                 else p\<lparr>ps_header := Some h, ps_masking_key := replicate kMaskingKeyLength 0, ps_buffer := current\<rparr>)
      | _ \<Rightarrow> p)"

text \<open>The data of a chunk are in memory just allocated, which is aligned.\<close>

definition DecodeFramePayload :: "bool \<Rightarrow> ws_parser \<Rightarrow> (ws_chunk \<times> ws_parser) option" where
  "DecodeFramePayload first_chunk p =
     (case ps_header p of
        None \<Rightarrow> None
      | Some h \<Rightarrow>
          let next_size = nat (min (int (length (ps_buffer p))) (wh_payload_length h - ps_offset p));
              payload = take next_size (ps_buffer p);
              data = (if wh_masked h then MaskWebSocketFramePayload 0 (ps_masking_key p) (nat (ps_offset p)) payload else payload);
              offset = ps_offset p + int next_size in
          if offset > wh_payload_length h then None
          else
            let is_final = (offset = wh_payload_length h) in
            Some (\<lparr>ch_header = (if first_chunk then Some h else None), ch_final = is_final,
                   ch_data = (if next_size = 0 then None else Some data)\<rparr>,
                  p\<lparr>ps_buffer := drop next_size (ps_buffer p), ps_header := (if is_final then None else Some h),
                    ps_offset := (if is_final then 0 else offset)\<rparr>))"

text \<open>The loop of \<open>Decode\<close>: whether it succeeds, the chunks and the new state.\<close>

definition payload_turn :: "ws_parser \<Rightarrow> ((ws_chunk \<times> ws_parser) option + (bool \<times> ws_parser))" where
  "payload_turn p =
     (case ps_header p of
        Some _ \<Rightarrow> Inl (DecodeFramePayload False p)
      | None \<Rightarrow>
          let p1 = DecodeFrameHeader p in
          if ps_error p1 \<noteq> kWebSocketNormalClosure then Inr (False, p1)
          else if ps_header p1 = None then Inr (True, p1)
          else Inl (DecodeFramePayload True p1))"

lemma decode_length_shorter: "decode_length second current = Some (n, current', error) \<Longrightarrow> length current' \<le> length current"
  by (auto simp: decode_length_def Let_def split: if_splits)

lemma DecodeFrameHeader_shorter: "length (ps_buffer (DecodeFrameHeader p)) \<le> length (ps_buffer p)"
  by (auto simp: DecodeFrameHeader_def Let_def dest!: decode_length_shorter split: list.splits option.splits)

lemma DecodeFrameHeader_progress:
  "ps_header p = None \<Longrightarrow> ps_header (DecodeFrameHeader p) \<noteq> None \<Longrightarrow> length (ps_buffer (DecodeFrameHeader p)) < length (ps_buffer p)"
  by (auto simp: DecodeFrameHeader_def Let_def dest!: decode_length_shorter split: list.splits option.splits if_splits)

lemma DecodeFramePayload_shorter: "DecodeFramePayload first p = Some (c, p') \<Longrightarrow> length (ps_buffer p') \<le> length (ps_buffer p)"
  by (auto simp: DecodeFramePayload_def Let_def split: option.splits if_splits)

lemma payload_turn_progress:
  assumes "payload_turn p = Inl (Some (c, p'))" "ps_header p' = None"
  shows "2 * length (ps_buffer p') + (if ps_header p' = None then 0 else 1) < 2 * length (ps_buffer p) + (if ps_header p = None then 0 else 1)"
proof (cases "ps_header p")
  case None
  let ?q = "DecodeFrameHeader p"
  have "ps_header ?q \<noteq> None" "DecodeFramePayload True ?q = Some (c, p')"
    using assms(1) None by (auto simp: payload_turn_def Let_def split: if_splits)
  with DecodeFrameHeader_progress [OF None] DecodeFramePayload_shorter show ?thesis using assms(2) None by fastforce
next
  case (Some h)
  with assms DecodeFramePayload_shorter [of False p c p'] show ?thesis by (auto simp: payload_turn_def)
qed

function decode_loop :: "ws_parser \<Rightarrow> (bool \<times> ws_chunk list \<times> ws_parser) option" where
  "decode_loop p =
     (if ps_buffer p = [] then Some (True, [], p)
      else case payload_turn p of
        Inr (ok, p1) \<Rightarrow> Some (ok, [], p1)
      | Inl None \<Rightarrow> None
      | Inl (Some (c, p1)) \<Rightarrow>
          if ps_header p1 \<noteq> None then if ps_buffer p1 \<noteq> [] then None else Some (True, [c], p1)
          else (case decode_loop p1 of None \<Rightarrow> None | Some (ok, cs, p2) \<Rightarrow> Some (ok, c # cs, p2)))"
  by auto
termination
  by (relation "measure (\<lambda>p. 2 * length (ps_buffer p) + (if ps_header p = None then 0 else 1))") (auto dest: payload_turn_progress)

declare decode_loop.simps [simp del]

definition Decode :: "bytes \<Rightarrow> ws_parser \<Rightarrow> (bool \<times> ws_chunk list \<times> ws_parser) option" where
  "Decode data p =
     (if ps_error p \<noteq> kWebSocketNormalClosure then Some (False, [], p)
      else if data = [] then Some (True, [], p)
      else case decode_loop (p\<lparr>ps_buffer := ps_buffer p @ data\<rparr>) of
        None \<Rightarrow> None
      | Some (ok, cs, p1) \<Rightarrow> if ok \<and> length (ps_buffer p1) \<ge> 14 then None else Some (ok, cs, p1))"

section \<open>The stream\<close>

definition kMaxControlFramePayload :: nat where "kMaxControlFramePayload = 125"

text \<open>
  \<open>bs_header\<close> is \<open>current_frame_header_\<close>, \<open>bs_control_body\<close> the bytes in \<open>incomplete_control_frame_body_\<close>, which has
  room for \<open>kMaxControlFramePayload\<close>.  \<open>bs_unwritten\<close> is what remains of the buffer being written; the last fields
  record the calls of the socket's \<open>Write\<close> and the bytes it took.
\<close>

record basic_stream =
  bs_parser :: ws_parser
  bs_header :: "ws_header option"
  bs_control_body :: "bytes option"
  bs_unwritten :: bytes
  bs_writes :: nat
  bs_wire :: bytes

definition new_WebSocketBasicStream :: basic_stream where
  "new_WebSocketBasicStream = \<lparr>bs_parser = new_WebSocketFrameParser, bs_header = None, bs_control_body = None, bs_unwritten = [],
     bs_writes = 0, bs_wire = []\<rparr>"

subsection \<open>Reading\<close>

definition opt_bytes :: "bytes option \<Rightarrow> bytes" where
  "opt_bytes data = (case data of None \<Rightarrow> [] | Some bs \<Rightarrow> bs)"

definition AddToIncompleteControlFrameBody :: "bytes option \<Rightarrow> bytes \<Rightarrow> bytes option" where
  "AddToIncompleteControlFrameBody data_buffer body =
     (case data_buffer of
        None \<Rightarrow> Some body
      | Some data \<Rightarrow> if length (body @ data) > kMaxControlFramePayload then None else Some (body @ data))"

text \<open>The frame made, if any, and the header for the chunks that follow.\<close>

definition CreateFrame :: "bool \<Rightarrow> bytes option \<Rightarrow> ws_header \<Rightarrow> ws_frame option \<times> ws_header option" where
  "CreateFrame is_final_chunk data h =
     (let is_final_chunk_in_message = is_final_chunk \<and> wh_final h; makes = (is_final_chunk_in_message \<or> opt_bytes data \<noteq> [] \<or>
            wh_opcode h \<noteq> kOpCodeContinuation) in
      (if makes then Some \<lparr>wf_opcode = wh_opcode h, wf_final = is_final_chunk_in_message, wf_reserved1 = wh_reserved1 h,
           wf_reserved2 = wh_reserved2 h, wf_reserved3 = wh_reserved3 h, wf_data = opt_bytes data, wf_tag = None\<rparr>
       else None,
       if is_final_chunk then None
       else if makes \<and> IsKnownDataOpCode (wh_opcode h)
       then Some (h\<lparr>wh_opcode := kOpCodeContinuation, wh_reserved1 := False, wh_reserved2 := False, wh_reserved3 := False\<rparr>)
       else Some h))"

definition whole_chunk :: "ws_chunk \<Rightarrow> ws_header \<Rightarrow> basic_stream \<Rightarrow> (int \<times> ws_frame option \<times> basic_stream) option" where
  "whole_chunk c h st =
     (let chunk_size = int (length (opt_bytes (ch_data c))) in
      if wh_payload_length h < chunk_size \<or> (ch_header c \<noteq> None \<and> ch_final c \<and> wh_payload_length h \<noteq> chunk_size) then None
      else case CreateFrame (ch_final c) (ch_data c) h of (f, h') \<Rightarrow> Some (net_OK, f, st\<lparr>bs_header := h'\<rparr>))"

definition ConvertChunkToFrame :: "ws_chunk \<Rightarrow> basic_stream \<Rightarrow> (int \<times> ws_frame option \<times> basic_stream) option" where
  "ConvertChunkToFrame c st0 =
     (if ch_header c \<noteq> None \<and> bs_header st0 \<noteq> None then None
      else let st = (if ch_header c \<noteq> None then st0\<lparr>bs_header := ch_header c\<rparr> else st0) in
        case bs_header st of
          None \<Rightarrow> None
        | Some h \<Rightarrow>
            if IsKnownControlOpCode (wh_opcode h) then
              if \<not> wh_final h \<or> wh_payload_length h > int kMaxControlFramePayload
              then Some (net_ERR_WS_PROTOCOL_ERROR, None, st\<lparr>bs_header := None\<rparr>)
              else if \<not> ch_final c then
                (case AddToIncompleteControlFrameBody (ch_data c) (opt_bytes (bs_control_body st)) of
                   None \<Rightarrow> None
                 | Some body \<Rightarrow> Some (net_OK, None, st\<lparr>bs_control_body := Some body\<rparr>))
              else (case bs_control_body st of
                  Some body0 \<Rightarrow>
                    (case AddToIncompleteControlFrameBody (ch_data c) body0 of
                       None \<Rightarrow> None
                     | Some body \<Rightarrow>
                         if int (length body) \<noteq> wh_payload_length h then None
                         else case CreateFrame True (Some body) h of
                           (f, h') \<Rightarrow> Some (net_OK, f, st\<lparr>bs_control_body := None, bs_header := h'\<rparr>))
                | None \<Rightarrow> whole_chunk c h st)
            else whole_chunk c h st)"

fun convert_chunks :: "ws_chunk list \<Rightarrow> basic_stream \<Rightarrow> (int \<times> ws_frame list \<times> basic_stream) option" where
  "convert_chunks [] st = Some (net_OK, [], st)"
| "convert_chunks (c # cs) st =
     (case ConvertChunkToFrame c st of
        None \<Rightarrow> None
      | Some (result, f, st1) \<Rightarrow>
          if result \<noteq> net_OK then Some (result, [], st1)
          else case convert_chunks cs st1 of
            None \<Rightarrow> None
          | Some (result, fs, st2) \<Rightarrow> Some (result, (case f of None \<Rightarrow> fs | Some fr \<Rightarrow> fr # fs), st2))"

definition ConvertChunksToFrames :: "ws_chunk list \<Rightarrow> basic_stream \<Rightarrow> (int \<times> ws_frame list \<times> basic_stream) option" where
  "ConvertChunksToFrames cs st =
     (case convert_chunks cs st of
        None \<Rightarrow> None
      | Some (result, fs, st1) \<Rightarrow> Some (if result = net_OK \<and> fs = [] then ERR_IO_PENDING else result, fs, st1))"

text \<open>The parser sets two errors only.\<close>

definition WebSocketErrorToNetError :: "u16 \<Rightarrow> int" where
  "WebSocketErrorToNetError error =
     (if error = kWebSocketNormalClosure then net_OK
      else if error \<in> {1001, kWebSocketErrorProtocolError, 1003, 1007, 1008, 1010, kWebSocketErrorInternalServerError} then net_ERR_WS_PROTOCOL_ERROR
      else if error \<in> {kWebSocketErrorNoStatusReceived, kWebSocketErrorAbnormalClosure} then ERR_CONNECTION_CLOSED
      else if error = kWebSocketErrorTlsHandshake then ERR_SSL_PROTOCOL_ERROR
      else if error = kWebSocketErrorMessageTooBig then ERR_MSG_TOO_BIG else ERR_UNEXPECTED)"

definition HandleReadResult :: "int \<Rightarrow> bytes \<Rightarrow> basic_stream \<Rightarrow> (int \<times> ws_frame list \<times> basic_stream) option" where
  "HandleReadResult result read_buffer st =
     (if result = ERR_IO_PENDING then None
      else if result < 0 then Some (result, [], st)
      else if result = 0 then Some (ERR_CONNECTION_CLOSED, [], st)
      else case Decode (take (nat result) read_buffer) (bs_parser st) of
        None \<Rightarrow> None
      | Some (ok, cs, p) \<Rightarrow>
          let st1 = st\<lparr>bs_parser := p\<rparr> in
          if \<not> ok then Some (WebSocketErrorToNetError (ps_error p), [], st1)
          else if cs = [] then Some (ERR_IO_PENDING, [], st1)
          else ConvertChunksToFrames cs st1)"

text \<open>The list holds what the socket has ready: results with the buffer.  What is not used is a result too.\<close>

fun ReadEverything :: "(int \<times> bytes) list \<Rightarrow> basic_stream \<Rightarrow> (int \<times> ws_frame list \<times> basic_stream \<times> (int \<times> bytes) list) option" where
  "ReadEverything [] st = Some (ERR_IO_PENDING, [], st, [])"
| "ReadEverything ((result, buf) # ready) st =
     (case HandleReadResult result buf st of
        None \<Rightarrow> None
      | Some (r, fs, st1) \<Rightarrow>
          if r \<noteq> ERR_IO_PENDING then Some (r, fs, st1, ready) else if fs \<noteq> [] then None else ReadEverything ready st1)"

definition OnReadComplete ::
    "int \<Rightarrow> bytes \<Rightarrow> (int \<times> bytes) list \<Rightarrow> basic_stream \<Rightarrow> (int \<times> ws_frame list \<times> basic_stream \<times> (int \<times> bytes) list) option" where
  "OnReadComplete result buf ready st =
     (case HandleReadResult result buf st of
        None \<Rightarrow> None
      | Some (r, fs, st1) \<Rightarrow> if r = ERR_IO_PENDING then ReadEverything ready st1 else Some (r, fs, st1, ready))"

subsection \<open>Writing\<close>

definition frame_header :: "ws_frame \<Rightarrow> ws_header" where
  "frame_header f = \<lparr>wh_final = wf_final f, wh_reserved1 = wf_reserved1 f, wh_reserved2 = wf_reserved2 f, wh_reserved3 = wf_reserved3 f,
     wh_opcode = wf_opcode f, wh_masked = False, wh_payload_length = int (length (wf_data f))\<rparr>"

fun calculate_size :: "int \<Rightarrow> ws_frame list \<Rightarrow> int option" where
  "calculate_size total_size [] = Some total_size"
| "calculate_size total_size (f # fs) =
     (let frame_size = wh_payload_length (frame_header f) + GetWebSocketFrameHeaderSize (frame_header f) in
      if frame_size > 2 ^ 31 - 1 - total_size then None else calculate_size (total_size + frame_size) fs)"

definition CalculateSerializedSize :: "ws_frame list \<Rightarrow> int option" where
  "CalculateSerializedSize frames = calculate_size 0 frames"

fun combine_frames :: "int \<Rightarrow> ws_frame list \<Rightarrow> bytes option" where
  "combine_frames remaining_size [] = (if remaining_size = 0 then Some [] else None)"
| "combine_frames remaining_size (f # fs) =
     (case WriteWebSocketFrameHeader (frame_header f) None remaining_size of
        None \<Rightarrow> None
      | Some (result, hb) \<Rightarrow>
          if result < 0 then None
          else
            let remaining = remaining_size - result; frame_size = int (length (wf_data f)) in
            if frame_size > remaining then None
            else map_option (\<lambda>rest. hb @ wf_data f @ rest) (combine_frames (remaining - frame_size) fs))"

function WriteEverything :: "(nat \<Rightarrow> bytes \<Rightarrow> int) \<Rightarrow> bytes \<Rightarrow> basic_stream \<Rightarrow> (int \<times> basic_stream) option" where
  "WriteEverything Write buffer st =
     (if buffer = [] then Some (net_OK, st\<lparr>bs_unwritten := []\<rparr>)
      else
        let result = Write (bs_writes st) buffer; st1 = st\<lparr>bs_writes := bs_writes st + 1\<rparr> in
        if result > 0 then
          if result > int (length buffer) then None
          else WriteEverything Write (drop (nat result) buffer) (st1\<lparr>bs_wire := bs_wire st @ take (nat result) buffer\<rparr>)
        else Some (result, st1\<lparr>bs_unwritten := buffer\<rparr>))"
  by auto
termination
  by (relation "measure (\<lambda>(Write, buffer, st). length buffer)") auto

declare WriteEverything.simps [simp del]

definition Stream_WriteFrames :: "(nat \<Rightarrow> bytes \<Rightarrow> int) \<Rightarrow> ws_frame list \<Rightarrow> basic_stream \<Rightarrow> (int \<times> basic_stream) option" where
  "Stream_WriteFrames Write frames st =
     (case CalculateSerializedSize frames of
        None \<Rightarrow> None
      | Some total_size \<Rightarrow>
          (case combine_frames total_size frames of None \<Rightarrow> None | Some combined_buffer \<Rightarrow> WriteEverything Write combined_buffer st))"

text \<open>The result given to the callback, \<open>ERR_IO_PENDING\<close> when it is not run yet.\<close>

definition OnWriteComplete :: "(nat \<Rightarrow> bytes \<Rightarrow> int) \<Rightarrow> int \<Rightarrow> basic_stream \<Rightarrow> (int \<times> basic_stream) option" where
  "OnWriteComplete Write result st =
     (if result = ERR_IO_PENDING \<or> result = 0 then None
      else if result < 0 then Some (result, st)
      else if result > int (length (bs_unwritten st)) then None
      else WriteEverything Write (drop (nat result) (bs_unwritten st))
        (st\<lparr>bs_wire := bs_wire st @ take (nat result) (bs_unwritten st)\<rparr>))"

end
