(* ===== verification/Felicia_WebSocketStreamProps.thy ===== *)
theory Felicia_WebSocketStreamProps
  imports Felicia_WebSocketStream
begin

text \<open>
  What the stream writes it reads again, however the bytes are cut into pieces on the way: the same messages and control
  frames in the same order.
\<close>

section \<open>Masking\<close>

lemma mask_length [simp]: "length (MaskWebSocketFramePayloadByBytes key i bs) = length bs"
  by (induction bs arbitrary: i) simp_all

lemma mask_mod: "MaskWebSocketFramePayloadByBytes key (i mod kMaskingKeyLength) bs = MaskWebSocketFramePayloadByBytes key i bs"
proof (induction bs arbitrary: i)
  case (Cons b bs)
  have "Suc (i mod kMaskingKeyLength) mod kMaskingKeyLength = Suc i mod kMaskingKeyLength" by (simp add: mod_Suc_eq)
  with Cons.IH [of "Suc (i mod kMaskingKeyLength)"] Cons.IH [of "Suc i"] show ?case by simp
qed simp

lemma mask_append: "MaskWebSocketFramePayloadByBytes key i (as @ bs) =
    MaskWebSocketFramePayloadByBytes key i as @ MaskWebSocketFramePayloadByBytes key (i + length as) bs"
  by (induction as arbitrary: i) simp_all

lemma mask_nth: "j < length bs \<Longrightarrow> MaskWebSocketFramePayloadByBytes key i bs ! j = bs ! j XOR key ! ((i + j) mod kMaskingKeyLength)"
  by (induction bs arbitrary: i j) (auto simp: nth_Cons split: nat.splits)

lemma mask_involutive: "MaskWebSocketFramePayloadByBytes key i (MaskWebSocketFramePayloadByBytes key i bs) = bs"
  by (induction bs arbitrary: i) (simp_all add: xor.assoc)

lemma mask_take: "take n (MaskWebSocketFramePayloadByBytes key i bs) = MaskWebSocketFramePayloadByBytes key i (take n bs)"
  by (induction bs arbitrary: i n) (simp_all add: take_Cons split: nat.splits)

lemma mask_drop: "drop n (MaskWebSocketFramePayloadByBytes key i bs) = MaskWebSocketFramePayloadByBytes key (i + n) (drop n bs)"
  by (induction bs arbitrary: i n) (auto simp: drop_Cons split: nat.splits)

lemma concat_replicate_nth: "j < n * length r \<Longrightarrow> concat (replicate n r) ! j = r ! (j mod length r)"
proof (induction n arbitrary: j)
  case (Suc n)
  show ?case
  proof (cases "j < length r")
    case False
    then have "concat (replicate n r) ! (j - length r) = r ! ((j - length r) mod length r)" using Suc.prems by (intro Suc.IH) simp
    with False show ?thesis by (simp add: nth_append le_mod_geq)
  qed (simp add: nth_append)
qed simp

lemma mask_packed_eq:
  assumes "length ds mod 16 = 0"
  shows "mask_packed (concat (replicate 4 (MaskWebSocketFramePayloadByBytes key i (replicate 4 0)))) ds = MaskWebSocketFramePayloadByBytes key i ds"
  using assms
proof (induction "length ds" arbitrary: ds rule: less_induct)
  case less
  let ?r = "MaskWebSocketFramePayloadByBytes key i (replicate 4 0)" and ?key = "MaskWebSocketFramePayloadByBytes key"
  let ?p = "concat (replicate 4 ?r)"
  have lp: "length ?p = 16" by (simp add: length_concat sum_list_replicate)
  show ?case
  proof (cases "ds = []")
    case True
    then show ?thesis by (simp add: mask_packed.simps)
  next
    case False
    then have len: "16 \<le> length ds" using less.prems by (metis dvd_imp_le length_greater_0_conv mod_0_imp_dvd)
    have "map2 (XOR) (take 16 ds) ?p = ?key i (take 16 ds)"
    proof (rule nth_equalityI)
      fix j assume "j < length (map2 (XOR) (take 16 ds) ?p)"
      then have j: "j < 16" using lp by simp
      have "?p ! j = key ! ((i + j) mod 4)"
        using concat_replicate_nth [of j 4 ?r] mask_nth [of "j mod 4" "replicate 4 0" key i] j by (simp add: kMaskingKeyLength_def mod_add_right_eq)
      then show "map2 (XOR) (take 16 ds) ?p ! j = ?key i (take 16 ds) ! j"
        using j len lp by (simp add: mask_nth kMaskingKeyLength_def)
    qed (use lp len in simp)
    moreover have "mask_packed ?p (drop 16 ds) = ?key i (drop 16 ds)"
      using less.hyps [of "drop 16 ds"] less.prems len False by (simp add: le_mod_geq)
    moreover have "?key (i + 16) (drop 16 ds) = ?key i (drop 16 ds)"
    proof -
      have "(i + 16) mod kMaskingKeyLength = i mod kMaskingKeyLength" unfolding kMaskingKeyLength_def by presburger
      then show ?thesis using mask_mod [of key "i + 16" "drop 16 ds"] mask_mod [of key i "drop 16 ds"] by metis
    qed
    moreover have "?key i ds = ?key i (take 16 ds) @ ?key (i + 16) (drop 16 ds)"
      using mask_append [of key i "take 16 ds" "drop 16 ds"] len by simp
    ultimately show ?thesis using False by (subst mask_packed.simps) (simp add: kPackedMaskKeySize_def)
  qed
qed

lemma packed_mask:
  "MaskWebSocketFramePayload address key frame_offset data = MaskWebSocketFramePayloadByBytes key frame_offset data"
proof (cases "length data \<le> 32")
  case True
  then show ?thesis using mask_mod [of key frame_offset] by (simp add: MaskWebSocketFramePayload_def kPackedMaskKeySize_def)
next
  case False
  let ?m = "address mod 16" and ?e = "(address + length data) mod 16" and ?key = "MaskWebSocketFramePayloadByBytes key"
  define a where "a = (if ?m = 0 then 0 else 16 - ?m)"
  define z where "z = length data - ?e"
  have az: "a \<le> z" "z \<le> length data" using False unfolding a_def z_def by auto
  have mid: "length (take (z - a) (drop a data)) mod 16 = 0"
  proof -
    have "length (take (z - a) (drop a data)) = z - a" using az by simp
    moreover have "(z - a) mod 16 = 0"
    proof -
      define q q' where "q = address div 16" and "q' = (address + length data) div 16"
      have "address = 16 * q + ?m" "address + length data = 16 * q' + ?e" by (simp_all add: q_def q'_def)
      then have "z - a = 16 * (if ?m = 0 then q' - q else q' - q - 1)" using False unfolding a_def z_def by auto
      then show ?thesis by simp
    qed
    ultimately show ?thesis by simp
  qed
  have "data = take a data @ take (z - a) (drop a data) @ drop z data"
    using az by (metis append_assoc append_take_drop_id le_add_diff_inverse take_add)
  then have "?key frame_offset data = ?key frame_offset (take a data) @ ?key (frame_offset + a) (take (z - a) (drop a data)) @
      ?key (frame_offset + z) (drop z data)"
    using az mask_append [of key frame_offset "take a data" "take (z - a) (drop a data) @ drop z data"]
      mask_append [of key "frame_offset + a" "take (z - a) (drop a data)" "drop z data"] by simp
  moreover have "MaskWebSocketFramePayload address key frame_offset data = ?key frame_offset (take a data) @
      mask_packed (concat (replicate 4 (?key (frame_offset + a) (replicate 4 0)))) (take (z - a) (drop a data)) @ ?key (frame_offset + z) (drop z data)"
    using False mask_mod [of key] unfolding MaskWebSocketFramePayload_def Let_def a_def z_def
    by (simp add: kPackedMaskKeySize_def kMaskingKeyLength_def)
  ultimately show ?thesis using mask_packed_eq [OF mid] by simp
qed

text \<open>
  C39.  The masking of a payload in aligned units of 16 bytes does the same as masking it byte by byte, wherever the data are in
  memory and wherever they are in the frame.
\<close>

theorem packed_masking_correct:
  "MaskWebSocketFramePayload address key frame_offset data = MaskWebSocketFramePayloadByBytes key frame_offset data"
  by (rule packed_mask)

section \<open>Headers\<close>

lemma WriteBigEndian_length [simp]: "length (WriteBigEndian k n) = k"
  by (induction k arbitrary: n) simp_all

lemma big_endian_roundtrip: "ReadBigEndian (WriteBigEndian k n) = n mod 256 ^ k"
proof (induction k arbitrary: n)
  case 0
  then show ?case by (simp add: ReadBigEndian_def)
next
  case (Suc k)
  have "n mod (256 * 256 ^ k) = 256 * ((n div 256) mod 256 ^ k) + n mod 256" by (rule zmod_zmult2_eq) simp
  moreover have "uint (word_of_int n :: 8 word) = n mod 256" by (simp add: unsigned_of_int take_bit_int_def)
  ultimately show ?case using Suc [of "n div 256"] by (simp add: ReadBigEndian_def)
qed

type_synonym wire_frame = "ws_frame \<times> bytes option"

text \<open>A frame on the wire, masked with a key or not.\<close>

definition wire_header :: "wire_frame \<Rightarrow> ws_header" where
  "wire_header it = (frame_header (fst it))\<lparr>wh_masked := (snd it \<noteq> None)\<rparr>"

definition masked_from :: "bytes option \<Rightarrow> nat \<Rightarrow> bytes \<Rightarrow> bytes" where
  "masked_from key i data = (case key of None \<Rightarrow> data | Some k \<Rightarrow> MaskWebSocketFramePayloadByBytes k i data)"

definition wire_bytes :: "wire_frame \<Rightarrow> bytes" where
  "wire_bytes it = header_bytes (wire_header it) (snd it) @ masked_from (snd it) 0 (wf_data (fst it))"

definition sendable_frame :: "ws_frame \<Rightarrow> bool" where
  "sendable_frame f \<longleftrightarrow> (IsKnownDataOpCode (wf_opcode f) \<or> IsKnownControlOpCode (wf_opcode f) \<and> wf_final f \<and> length (wf_data f) \<le> kMaxControlFramePayload) \<and>
     int (length (wf_data f)) \<le> 2 ^ 31 - 1"

definition wire_ok :: "wire_frame \<Rightarrow> bool" where
  "wire_ok it \<longleftrightarrow> sendable_frame (fst it) \<and> (case snd it of None \<Rightarrow> True | Some key \<Rightarrow> length key = kMaskingKeyLength)"

lemma masked_from_length [simp]: "length (masked_from key i data) = length data"
  by (simp add: masked_from_def split: option.splits)

lemma second_byte_length:
  assumes "0 \<le> wh_payload_length h"
  shows "uint (second_byte h AND 0x7F) = (if wh_payload_length h \<le> 125 then wh_payload_length h else if wh_payload_length h \<le> 65535 then 126 else 127)"
proof -
  have "uint ((b OR word_of_int n) AND (0x7F :: 8 word)) = n" if "b = 0 \<or> b = 0x80" "0 \<le> n" "n \<le> 127" for b :: "8 word" and n :: int
  proof -
    have m: "(0x7F :: 8 word) = mask 7" by (simp add: mask_eq_exp_minus_1)
    have "uint ((b OR word_of_int n) AND (0x7F :: 8 word)) = take_bit 7 (uint (b OR word_of_int n))"
      by (simp only: m take_bit_eq_mask [symmetric] unsigned_take_bit_eq)
    also have "\<dots> = take_bit 7 (uint b) OR take_bit 7 (take_bit 8 n)" by (simp add: unsigned_or_eq unsigned_of_int)
    also have "take_bit 7 (uint b) = 0" using that(1) by (auto simp: take_bit_int_def)
    also have "take_bit 7 (take_bit 8 n) = n" using that(2,3) by (simp add: take_bit_int_def)
    finally show ?thesis by simp
  qed
  from this [of "if wh_masked h then 0x80 else 0"] assms show ?thesis by (simp add: second_byte_def)
qed

lemma second_byte_masked:
  assumes "0 \<le> wh_payload_length h"
  shows "second_byte h AND 0x80 \<noteq> 0 \<longleftrightarrow> wh_masked h"
proof -
  have bit7: "w AND (0x80 :: 8 word) \<noteq> 0 \<longleftrightarrow> bit w 7" for w :: "8 word"
  proof -
    have "(0x80 :: 8 word) = push_bit 7 1" by simp
    then show ?thesis by (metis and_exp_eq_0_iff_not_bit push_bit_of_1)
  qed
  have "\<not> bit (word_of_int n :: 8 word) 7" if "0 \<le> n" "n \<le> 127" for n :: int
  proof -
    have "n = take_bit 7 n" using that by (simp add: take_bit_int_def)
    then have "\<not> bit n 7" by (metis bit_take_bit_iff less_irrefl)
    then show ?thesis by (simp add: bit_word_of_int_iff)
  qed
  from this [of "wh_payload_length h"] this [of 126] this [of 127] assms show ?thesis
    by (auto simp: second_byte_def bit7 bit_or_iff)
qed

lemma first_byte_decoded:
  assumes "IsKnownDataOpCode (wh_opcode h) \<or> IsKnownControlOpCode (wh_opcode h)"
  shows "first_byte h AND 0x80 \<noteq> 0 \<longleftrightarrow> wh_final h" "first_byte h AND 0x40 \<noteq> 0 \<longleftrightarrow> wh_reserved1 h"
    "first_byte h AND 0x20 \<noteq> 0 \<longleftrightarrow> wh_reserved2 h" "first_byte h AND 0x10 \<noteq> 0 \<longleftrightarrow> wh_reserved3 h"
    "num_opcode (uint (first_byte h AND 0xF)) = wh_opcode h"
  using assms
  by (cases "wh_final h"; cases "wh_reserved1 h"; cases "wh_reserved2 h"; cases "wh_reserved3 h"; cases "wh_opcode h";
      simp add: first_byte_def num_opcode_def IsKnownDataOpCode_def IsKnownControlOpCode_def)+

lemma decoded_header_eq:
  assumes "IsKnownDataOpCode (wh_opcode h) \<or> IsKnownControlOpCode (wh_opcode h)" "0 \<le> wh_payload_length h"
  shows "decoded_header (first_byte h) (second_byte h) (wh_payload_length h) = h"
  unfolding decoded_header_def first_byte_decoded [OF assms(1)] second_byte_masked [OF assms(2)] by simp

lemma decode_length_eq:
  assumes "0 \<le> wh_payload_length h" "wh_payload_length h \<le> 2 ^ 31 - 1"
  shows "decode_length (second_byte h) (extended_length h @ behind) = Some (wh_payload_length h, behind, kWebSocketNormalClosure)"
    "length current < length (extended_length h) \<Longrightarrow> decode_length (second_byte h) current = None"
proof -
  show "decode_length (second_byte h) (extended_length h @ behind) = Some (wh_payload_length h, behind, kWebSocketNormalClosure)"
    using assms unfolding decode_length_def second_byte_length [OF assms(1)]
    by (simp add: extended_length_def Let_def big_endian_roundtrip)
  show "decode_length (second_byte h) current = None" if "length current < length (extended_length h)"
    using that assms unfolding decode_length_def second_byte_length [OF assms(1)] by (simp add: extended_length_def Let_def split: if_splits)
qed

lemma wire_header_facts:
  assumes "wire_ok it"
  shows "IsKnownDataOpCode (wh_opcode (wire_header it)) \<or> IsKnownControlOpCode (wh_opcode (wire_header it))"
    "wh_payload_length (wire_header it) = int (length (wf_data (fst it)))" "wh_payload_length (wire_header it) \<le> 2 ^ 31 - 1"
    "wh_masked (wire_header it) \<longleftrightarrow> snd it \<noteq> None"
  using assms by (auto simp: wire_ok_def sendable_frame_def wire_header_def frame_header_def)

text \<open>The parser waits until the header is complete.\<close>

lemma DecodeFrameHeader_eq:
  assumes "wire_ok it" "ps_buffer p @ rest = wire_bytes it @ behind" "ps_header p = None"
  defines "hb \<equiv> header_bytes (wire_header it) (snd it)"
  shows "DecodeFrameHeader p = (if length (ps_buffer p) < length hb then p
    else p\<lparr>ps_header := Some (wire_header it), ps_masking_key := (case snd it of None \<Rightarrow> replicate kMaskingKeyLength 0 | Some key \<Rightarrow> key),
      ps_buffer := drop (length hb) (ps_buffer p)\<rparr>)"
proof -
  let ?h = "wire_header it" and ?k = "case snd it of None \<Rightarrow> [] | Some key \<Rightarrow> key"
  note facts = wire_header_facts [OF assms(1)]
  have len: "0 \<le> wh_payload_length ?h" using facts(2) by simp
  have hb: "hb = first_byte ?h # second_byte ?h # extended_length ?h @ ?k" by (simp add: hb_def header_bytes_def)
  have lk: "length ?k = (if wh_masked ?h then kMaskingKeyLength else 0)"
    using assms(1) facts(4) by (auto simp: wire_ok_def split: option.splits)
  define w where "w = masked_from (snd it) 0 (wf_data (fst it)) @ behind"
  have buf: "ps_buffer p @ rest = first_byte ?h # second_byte ?h # extended_length ?h @ ?k @ w"
    using assms(2) hb by (simp add: wire_bytes_def hb_def w_def)
  consider "ps_buffer p = []" | b where "ps_buffer p = [b]" | b1 b2 current where "ps_buffer p = b1 # b2 # current"
    by (metis list.exhaust)
  then show ?thesis
  proof cases
    case 3
    then have cur: "b1 = first_byte ?h" "b2 = second_byte ?h" "current @ rest = extended_length ?h @ ?k @ w" using buf by simp_all
    show ?thesis
    proof (cases "length current < length (extended_length ?h)")
      case True
      with decode_length_eq(2) [OF len facts(3) True] 3 cur hb show ?thesis by (simp add: DecodeFrameHeader_def)
    next
      case False
      then obtain cur' where c: "current = extended_length ?h @ cur'" "cur' @ rest = ?k @ w"
        using cur(3) append_eq_append_conv_if [of "extended_length ?h" "?k @ w" current rest] by (metis append_take_drop_id linorder_not_less)
      have dl: "decode_length b2 current = Some (wh_payload_length ?h, cur', kWebSocketNormalClosure)"
        using decode_length_eq(1) [OF len facts(3)] c(1) cur(2) by simp
      have eq: "DecodeFrameHeader p = (if wh_masked ?h then if length cur' < kMaskingKeyLength then p
          else p\<lparr>ps_header := Some ?h, ps_masking_key := take kMaskingKeyLength cur', ps_buffer := drop kMaskingKeyLength cur'\<rparr>
          else p\<lparr>ps_header := Some ?h, ps_masking_key := replicate kMaskingKeyLength 0, ps_buffer := cur'\<rparr>)"
        using 3 dl decoded_header_eq [OF facts(1) len] cur(1,2) by (simp add: DecodeFrameHeader_def Let_def)
      have tk: "take kMaskingKeyLength cur' = ?k" if "wh_masked ?h" "\<not> length cur' < kMaskingKeyLength"
        using c(2) lk that by (metis append_eq_append_conv_if append_take_drop_id le_eq_less_or_eq linorder_not_less take_append)
      show ?thesis
      proof (cases "wh_masked ?h")
        case True
        then obtain key where key: "snd it = Some key" using facts(4) by auto
        show ?thesis unfolding eq using True tk lk c(1) 3 hb key by (auto simp: drop_Cons')
      next
        case no: False
        then have "snd it = None" using facts(4) by simp
        with no eq c(1) 3 hb show ?thesis by simp
      qed
    qed
  qed (simp_all add: DecodeFrameHeader_def hb)
qed

section \<open>Chunks\<close>

definition chunk_bytes :: "ws_chunk \<Rightarrow> bytes" where
  "chunk_bytes c = opt_bytes (ch_data c)"

text \<open>The chunks of a frame whose data have begun to arrive, or have all arrived.\<close>

definition begun :: "ws_header \<Rightarrow> bytes \<Rightarrow> ws_chunk list \<Rightarrow> bool" where
  "begun h data cs \<longleftrightarrow> (\<exists>c ds. cs = c # ds \<and> ch_header c = Some h \<and> (\<forall>d \<in> set ds. ch_header d = None)) \<and>
     (\<forall>c \<in> set cs. \<not> ch_final c) \<and> concat (map chunk_bytes cs) = data"

definition complete :: "ws_header \<Rightarrow> bytes \<Rightarrow> ws_chunk list \<Rightarrow> bool" where
  "complete h data cs \<longleftrightarrow> (\<exists>bs c d. cs = bs @ [c] \<and> ch_final c \<and> data = d @ chunk_bytes c \<and>
     (if bs = [] then ch_header c = Some h \<and> d = [] else ch_header c = None \<and> begun h d bs))"

inductive chunked :: "wire_frame list \<Rightarrow> ws_chunk list \<Rightarrow> bool" where
  chunked_nil: "chunked [] []"
| chunked_snoc: "chunked its cs \<Longrightarrow> complete (wire_header it) (wf_data (fst it)) ds \<Longrightarrow> chunked (its @ [it]) (cs @ ds)"

definition masking_key :: "wire_frame \<Rightarrow> bytes" where
  "masking_key it = (case snd it of None \<Rightarrow> replicate kMaskingKeyLength 0 | Some key \<Rightarrow> key)"

text \<open>
  The parser in the middle of its input: \<open>out\<close> are the chunks it gave for \<open>its\<close>, \<open>rest\<close> the bytes that it did not get
  yet.
\<close>

definition parser_at :: "wire_frame list \<Rightarrow> ws_chunk list \<Rightarrow> ws_parser \<Rightarrow> bytes \<Rightarrow> bool" where
  "parser_at its out p rest \<longleftrightarrow> ps_error p = kWebSocketNormalClosure \<and>
     ((ps_header p = None \<and> ps_offset p = 0 \<and>
       (\<exists>ds ts. its = ds @ ts \<and> chunked ds out \<and> ps_buffer p @ rest = concat (map wire_bytes ts))) \<or>
      (\<exists>ds it ts out1 cs n. its = ds @ it # ts \<and> out = out1 @ cs \<and> chunked ds out1 \<and> ps_header p = Some (wire_header it) \<and>
         ps_masking_key p = masking_key it \<and> ps_offset p = int n \<and> n < length (wf_data (fst it)) \<and>
         begun (wire_header it) (take n (wf_data (fst it))) cs \<and>
         ps_buffer p @ rest = masked_from (snd it) n (drop n (wf_data (fst it))) @ concat (map wire_bytes ts)))"

lemma DecodeFramePayload_eq:
  assumes "wire_ok it" "ps_header p = Some (wire_header it)" "ps_masking_key p = masking_key it" "ps_offset p = int n"
    "n \<le> length (wf_data (fst it))" "ps_buffer p @ rest = masked_from (snd it) n (drop n (wf_data (fst it))) @ behind"
  defines "k \<equiv> min (length (ps_buffer p)) (length (wf_data (fst it)) - n)"
  defines "is_final \<equiv> n + k = length (wf_data (fst it))"
  shows "\<exists>c. DecodeFramePayload first p = Some (c, p\<lparr>ps_buffer := drop k (ps_buffer p),
      ps_header := (if is_final then None else Some (wire_header it)), ps_offset := (if is_final then 0 else int (n + k))\<rparr>) \<and>
    ch_header c = (if first then Some (wire_header it) else None) \<and> ch_final c = is_final \<and>
    chunk_bytes c = take k (drop n (wf_data (fst it)))"
proof -
  let ?h = "wire_header it" and ?data = "wf_data (fst it)"
  note facts = wire_header_facts [OF assms(1)]
  have size: "nat (min (int (length (ps_buffer p))) (wh_payload_length ?h - ps_offset p)) = k"
    using facts(2) assms(4,5) unfolding k_def by linarith
  have "take k (ps_buffer p) = take k (ps_buffer p @ rest)" unfolding k_def by simp
  also have "\<dots> = take k (masked_from (snd it) n (drop n ?data))" unfolding assms(6) k_def by simp
  finally have t: "take k (ps_buffer p) = masked_from (snd it) n (take k (drop n ?data))"
    by (simp add: masked_from_def mask_take split: option.splits)
  have data: "(if wh_masked ?h then MaskWebSocketFramePayload 0 (ps_masking_key p) (nat (ps_offset p)) (take k (ps_buffer p)) else take k (ps_buffer p)) =
      take k (drop n ?data)"
    unfolding t packed_mask using facts(4) assms(3,4) by (auto simp: masked_from_def masking_key_def mask_involutive split: option.splits)
  have kn: "n + k \<le> length ?data" using assms(5) unfolding k_def by simp
  have ck: "chunk_bytes \<lparr>ch_header = x, ch_final = y, ch_data = (if k = 0 then None else Some (take k (drop n ?data)))\<rparr> = take k (drop n ?data)" for x y
    by (simp add: chunk_bytes_def opt_bytes_def)
  have "\<not> ps_offset p + int k > wh_payload_length ?h" "ps_offset p + int k = wh_payload_length ?h \<longleftrightarrow> is_final" "ps_offset p + int k = int (n + k)"
    using kn facts(2) assms(4) unfolding is_final_def by auto
  then have "DecodeFramePayload first p = Some (\<lparr>ch_header = (if first then Some ?h else None), ch_final = is_final,
      ch_data = (if k = 0 then None else Some (take k (drop n ?data)))\<rparr>, p\<lparr>ps_buffer := drop k (ps_buffer p),
      ps_header := (if is_final then None else Some (wire_header it)), ps_offset := (if is_final then 0 else int (n + k))\<rparr>)"
    unfolding DecodeFramePayload_def assms(2) Let_def option.case size data by auto
  then show ?thesis using ck by simp
qed

lemma masked_from_drop: "drop k (masked_from key n data) = masked_from key (n + k) (drop k data)"
  by (simp add: masked_from_def mask_drop split: option.splits)

lemma payload_step:
  assumes "wire_ok it" "ps_error p = kWebSocketNormalClosure" "ps_header p = Some (wire_header it)" "ps_masking_key p = masking_key it"
    "ps_offset p = int n" "n \<le> length (wf_data (fst it))"
    "ps_buffer p @ rest = masked_from (snd it) n (drop n (wf_data (fst it))) @ concat (map wire_bytes ts)"
    "its = ds @ it # ts" "chunked ds out" "if first then cs = [] \<and> n = 0 else begun (wire_header it) (take n (wf_data (fst it))) cs"
  shows "\<exists>c p'. DecodeFramePayload first p = Some (c, p') \<and> parser_at its (out @ cs @ [c]) p' rest \<and>
    (ps_header p' \<noteq> None \<longrightarrow> ps_buffer p' = [])"
proof -
  let ?data = "wf_data (fst it)" and ?h = "wire_header it"
  define k where "k = min (length (ps_buffer p)) (length ?data - n)"
  define is_final where "is_final \<longleftrightarrow> n + k = length ?data"
  let ?p = "p\<lparr>ps_buffer := drop k (ps_buffer p), ps_header := (if is_final then None else Some ?h),
      ps_offset := (if is_final then 0 else int (n + k))\<rparr>"
  obtain c where c: "DecodeFramePayload first p = Some (c, ?p)" "ch_header c = (if first then Some ?h else None)" "ch_final c = is_final"
    "chunk_bytes c = take k (drop n ?data)"
    using DecodeFramePayload_eq [OF assms(1,3-7), of first] unfolding k_def is_final_def by blast
  have "drop k (ps_buffer p) @ rest = drop k (ps_buffer p @ rest)" unfolding k_def by simp
  also have "\<dots> = masked_from (snd it) (n + k) (drop (n + k) ?data) @ concat (map wire_bytes ts)"
    unfolding assms(7) by (simp add: masked_from_drop k_def add.commute)
  finally have buf: "drop k (ps_buffer p) @ rest = masked_from (snd it) (n + k) (drop (n + k) ?data) @ concat (map wire_bytes ts)" .
  have data: "take (n + k) ?data = take n ?data @ chunk_bytes c" using c(4) by (simp add: take_add)
  show ?thesis
  proof (cases is_final)
    case True
    then have all: "?data = take n ?data @ chunk_bytes c" using data by (simp add: is_final_def)
    have "complete ?h ?data (cs @ [c])" unfolding complete_def
      by (rule exI [of _ cs], rule exI [of _ c], rule exI [of _ "take n ?data"])
        (use True all c(2,3) assms(10) in \<open>auto simp: begun_def split: if_splits\<close>)
    from chunked_snoc [OF assms(9) this] have "chunked (ds @ [it]) (out @ cs @ [c])" .
    moreover have "drop k (ps_buffer p) @ rest = concat (map wire_bytes ts)"
      using buf True by (simp add: is_final_def masked_from_def split: option.splits)
    ultimately have "parser_at its (out @ cs @ [c]) ?p rest"
      unfolding parser_at_def using True assms(2,8) by (intro conjI disjI1 exI [of _ "ds @ [it]"] exI [of _ ts]) simp_all
    with c(1) True show ?thesis by auto
  next
    case False
    then have k: "k = length (ps_buffer p)" "n + k < length ?data" using assms(6) unfolding is_final_def k_def by auto
    have "begun ?h (take (n + k) ?data) (cs @ [c])"
      unfolding data begun_def using False c(2,3) assms(10) by (auto simp: begun_def split: if_splits)
    then have "parser_at its (out @ cs @ [c]) ?p rest"
      unfolding parser_at_def using False assms(2,4,8,9) k buf
      by (intro conjI disjI2 exI [of _ ds] exI [of _ it] exI [of _ ts] exI [of _ out] exI [of _ "cs @ [c]"] exI [of _ "n + k"]) simp_all
    with c(1) k(1) show ?thesis by auto
  qed
qed

lemma header_bytes_short: "wire_ok it \<Longrightarrow> length (header_bytes (wire_header it) (snd it)) \<le> 14"
  by (auto simp: wire_ok_def header_bytes_def extended_length_def kMaskingKeyLength_def split: option.splits)

lemma payload_turn_at:
  assumes "\<forall>it \<in> set its. wire_ok it" "parser_at its out p rest" "ps_buffer p \<noteq> []"
  shows "(payload_turn p = Inr (True, p) \<and> ps_header p = None \<and> length (ps_buffer p) < 14 \<and> rest \<noteq> []) \<or>
    (\<exists>c p'. payload_turn p = Inl (Some (c, p')) \<and> parser_at its (out @ [c]) p' rest \<and> (ps_header p' \<noteq> None \<longrightarrow> ps_buffer p' = []))"
proof -
  have normal: "ps_error p = kWebSocketNormalClosure" using assms(2) by (simp add: parser_at_def)
  from assms(2) consider (header) ds ts where "ps_header p = None" "ps_offset p = 0" "its = ds @ ts" "chunked ds out"
      "ps_buffer p @ rest = concat (map wire_bytes ts)"
    | (payload) ds it ts out1 cs n where "its = ds @ it # ts" "out = out1 @ cs" "chunked ds out1" "ps_header p = Some (wire_header it)"
      "ps_masking_key p = masking_key it" "ps_offset p = int n" "n < length (wf_data (fst it))"
      "begun (wire_header it) (take n (wf_data (fst it))) cs"
      "ps_buffer p @ rest = masked_from (snd it) n (drop n (wf_data (fst it))) @ concat (map wire_bytes ts)"
    unfolding parser_at_def by blast
  then show ?thesis
  proof cases
    case header
    then obtain it ts' where ts: "ts = it # ts'" using assms(3) by (cases ts) auto
    have ok: "wire_ok it" using assms(1) header(3) ts by simp
    let ?hb = "header_bytes (wire_header it) (snd it)"
    have buf: "ps_buffer p @ rest = wire_bytes it @ concat (map wire_bytes ts')" using header(5) ts by simp
    note dec = DecodeFrameHeader_eq [OF ok buf header(1)]
    show ?thesis
    proof (cases "length (ps_buffer p) < length ?hb")
      case True
      then have "payload_turn p = Inr (True, p)" using dec header(1) normal by (simp add: payload_turn_def)
      moreover have "rest \<noteq> []" using buf True by (auto simp: wire_bytes_def dest: arg_cong [of _ _ length])
      ultimately show ?thesis using True header_bytes_short [OF ok] header(1) by simp
    next
      case False
      let ?p = "DecodeFrameHeader p"
      have p: "ps_header ?p = Some (wire_header it)" "ps_masking_key ?p = masking_key it" "ps_error ?p = kWebSocketNormalClosure"
        "ps_offset ?p = int 0" "ps_buffer ?p = drop (length ?hb) (ps_buffer p)"
        using dec False normal header(2) by (simp_all add: masking_key_def)
      have "drop (length ?hb) (ps_buffer p) @ rest = drop (length ?hb) (ps_buffer p @ rest)" using False by simp
      then have "ps_buffer ?p @ rest = masked_from (snd it) 0 (drop 0 (wf_data (fst it))) @ concat (map wire_bytes ts')"
        unfolding p(5) buf wire_bytes_def by simp
      from payload_step [OF ok p(3,1,2,4) _ this _ header(4), of its True "[]"] header(3) ts
      show ?thesis using header(1) p(1,3) by (simp add: payload_turn_def)
    qed
  next
    case payload
    have ok: "wire_ok it" using assms(1) payload(1) by simp
    from payload_step [OF ok normal payload(4,5,6) _ payload(9,1,3), of False cs] payload(2,4,7,8)
    show ?thesis by (simp add: payload_turn_def)
  qed
qed

lemma decode_loop_at:
  assumes "\<forall>it \<in> set its. wire_ok it" "parser_at its out p rest"
  shows "\<exists>cs p'. decode_loop p = Some (True, cs, p') \<and> parser_at its (out @ cs) p' rest \<and> length (ps_buffer p') < 14 \<and>
    (rest = [] \<longrightarrow> ps_buffer p' = [])"
  using assms(2)
proof (induction p arbitrary: out rule: decode_loop.induct)
  case (1 p)
  show ?case
  proof (cases "ps_buffer p = []")
    case True
    then show ?thesis using "1.prems" by (simp add: decode_loop.simps)
  next
    case False
    from payload_turn_at [OF assms(1) "1.prems" False] show ?thesis
    proof (elim disjE exE conjE)
      assume "payload_turn p = Inr (True, p)" "ps_header p = None" "length (ps_buffer p) < 14" "rest \<noteq> []"
      then show ?thesis using False "1.prems" by (subst decode_loop.simps) simp
    next
      fix c p' assume t: "payload_turn p = Inl (Some (c, p'))" "parser_at its (out @ [c]) p' rest" "ps_header p' \<noteq> None \<longrightarrow> ps_buffer p' = []"
      show ?thesis
      proof (cases "ps_header p'")
        case None
        from "1.IH" [OF False t(1) refl refl _ t(2)] None obtain cs p'' where "decode_loop p' = Some (True, cs, p'')" "parser_at its (out @ c # cs) p'' rest"
          "length (ps_buffer p'') < 14" "rest = [] \<longrightarrow> ps_buffer p'' = []" by auto
        then show ?thesis using False t(1) None by (subst decode_loop.simps) simp
      next
        case (Some h)
        then show ?thesis using False t by (subst decode_loop.simps) simp
      qed
    qed
  qed
qed

lemma Decode_at:
  assumes "\<forall>it \<in> set its. wire_ok it" "parser_at its out p (data @ rest)" "data \<noteq> []"
  shows "\<exists>cs p'. Decode data p = Some (True, cs, p') \<and> parser_at its (out @ cs) p' rest \<and> (rest = [] \<longrightarrow> ps_buffer p' = [])"
proof -
  have "parser_at its out (p\<lparr>ps_buffer := ps_buffer p @ data\<rparr>) rest" using assms(2) unfolding parser_at_def by simp
  from decode_loop_at [OF assms(1) this] obtain cs p' where d: "decode_loop (p\<lparr>ps_buffer := ps_buffer p @ data\<rparr>) = Some (True, cs, p')"
    "parser_at its (out @ cs) p' rest" "length (ps_buffer p') < 14" "rest = [] \<longrightarrow> ps_buffer p' = []" by blast
  moreover have "ps_error p = kWebSocketNormalClosure" using assms(2) by (simp add: parser_at_def)
  ultimately show ?thesis using assms(3) by (simp add: Decode_def)
qed

lemma parser_at_end:
  assumes "parser_at its out p []" "ps_buffer p = []"
  shows "chunked its out"
proof -
  have "ts = []" if "[] = concat (map wire_bytes ts)" for ts using that by (cases ts) (simp_all add: wire_bytes_def header_bytes_def)
  moreover have "masked_from key n (drop n data) \<noteq> []" if "n < length data" for key n and data :: bytes
    using that masked_from_length [of key n "drop n data"] by (metis drop_eq_Nil length_0_conv linorder_not_less)
  ultimately show ?thesis using assms unfolding parser_at_def by fastforce
qed

primrec decode_pieces :: "bytes list \<Rightarrow> ws_parser \<Rightarrow> (ws_chunk list list \<times> ws_parser) option" where
  "decode_pieces [] p = Some ([], p)"
| "decode_pieces (b # bs) p =
     (case Decode b p of
        Some (True, cs, p1) \<Rightarrow> map_option (\<lambda>(css, p2). (cs # css, p2)) (decode_pieces bs p1)
      | _ \<Rightarrow> None)"

lemma decode_pieces_at:
  assumes "\<forall>it \<in> set its. wire_ok it"
  shows "parser_at its out p (concat pieces) \<Longrightarrow> [] \<notin> set pieces \<Longrightarrow> (pieces = [] \<longrightarrow> ps_buffer p = []) \<Longrightarrow>
    \<exists>css p'. decode_pieces pieces p = Some (css, p') \<and> chunked its (out @ concat css)"
proof (induction pieces arbitrary: out p)
  case Nil
  then show ?case using parser_at_end by simp
next
  case (Cons b bs)
  then obtain cs p1 where d: "Decode b p = Some (True, cs, p1)" "parser_at its (out @ cs) p1 (concat bs)" "concat bs = [] \<longrightarrow> ps_buffer p1 = []"
    using Decode_at [OF assms, of out p b "concat bs"] by auto
  from Cons.IH [OF d(2)] d(3) Cons.prems(2) obtain css p' where "decode_pieces bs p1 = Some (css, p')" "chunked its ((out @ cs) @ concat css)" by auto
  with d(1) show ?case by simp
qed

section \<open>Frames from chunks\<close>

text \<open>What a sequence of frames says: where messages begin and end, their bytes, and the control frames among them.\<close>

datatype flow_item = Begin opcode bool bool bool | Payload "8 word" | End | Control opcode bool bool bool bytes

definition frame_flow :: "ws_frame \<Rightarrow> flow_item list" where
  "frame_flow f =
     (if IsKnownControlOpCode (wf_opcode f) then [Control (wf_opcode f) (wf_reserved1 f) (wf_reserved2 f) (wf_reserved3 f) (wf_data f)]
      else (if wf_opcode f = kOpCodeContinuation then [] else [Begin (wf_opcode f) (wf_reserved1 f) (wf_reserved2 f) (wf_reserved3 f)]) @
        map Payload (wf_data f) @ (if wf_final f then [End] else []))"

definition flow :: "ws_frame list \<Rightarrow> flow_item list" where
  "flow fs = concat (map frame_flow fs)"

lemma flow_simps [simp]: "flow [] = []" "flow (f # fs) = frame_flow f @ flow fs" "flow (fs @ gs) = flow fs @ flow gs"
  by (simp_all add: flow_def)

lemma convert_append:
  "convert_chunks (xs @ ys) st =
     (case convert_chunks xs st of
        None \<Rightarrow> None
      | Some (r, fs, st1) \<Rightarrow> if r \<noteq> net_OK then Some (r, fs, st1)
          else (case convert_chunks ys st1 of None \<Rightarrow> None | Some (r2, fs2, st2) \<Rightarrow> Some (r2, fs @ fs2, st2)))"
  by (induction xs arbitrary: st) (auto split: option.splits)

lemma convert_parser_one:
  "ConvertChunkToFrame c (st\<lparr>bs_parser := q\<rparr>) = map_option (\<lambda>(r, f, st1). (r, f, st1\<lparr>bs_parser := q\<rparr>)) (ConvertChunkToFrame c st)"
proof -
  have whole: "whole_chunk c h (st\<lparr>bs_parser := q\<rparr>) = map_option (\<lambda>(r, f, st1). (r, f, st1\<lparr>bs_parser := q\<rparr>)) (whole_chunk c h st)" for h st
    by (simp add: whole_chunk_def Let_def split: prod.splits)
  have "whole_chunk c h (st\<lparr>bs_parser := q, bs_header := x\<rparr>) =
      map_option (\<lambda>(r, f, st1). (r, f, st1\<lparr>bs_parser := q\<rparr>)) (whole_chunk c h (st\<lparr>bs_header := x\<rparr>))" for h x
    by (simp add: whole_chunk_def Let_def split: prod.splits)
  then show ?thesis using whole [of _ st] by (simp add: ConvertChunkToFrame_def Let_def split: option.splits prod.splits)
qed

lemma convert_parser:
  "convert_chunks cs (st\<lparr>bs_parser := q\<rparr>) = map_option (\<lambda>(r, fs, st1). (r, fs, st1\<lparr>bs_parser := q\<rparr>)) (convert_chunks cs st)"
  by (induction cs arbitrary: st) (auto simp: convert_parser_one split: option.splits)

definition between_frames :: "basic_stream \<Rightarrow> bool" where
  "between_frames st \<longleftrightarrow> bs_header st = None \<and> bs_control_body st = None"

text \<open>Control frames are put together.\<close>

lemma added_body:
  "length (body @ chunk_bytes c) \<le> kMaxControlFramePayload \<Longrightarrow> AddToIncompleteControlFrameBody (ch_data c) body = Some (body @ chunk_bytes c)"
  by (auto simp: AddToIncompleteControlFrameBody_def chunk_bytes_def opt_bytes_def split: option.splits)

lemma control_more:
  assumes "bs_header st = Some h" "IsKnownControlOpCode (wh_opcode h)" "wh_final h" "wh_payload_length h \<le> int kMaxControlFramePayload"
    "bs_control_body st = Some body" "\<forall>c \<in> set cs. ch_header c = None \<and> \<not> ch_final c"
    "length (body @ concat (map chunk_bytes cs)) \<le> kMaxControlFramePayload"
  shows "convert_chunks cs st = Some (net_OK, [], st\<lparr>bs_control_body := Some (body @ concat (map chunk_bytes cs))\<rparr>)"
  using assms
proof (induction cs arbitrary: st body)
  case (Cons c cs)
  let ?st = "st\<lparr>bs_control_body := Some (body @ chunk_bytes c)\<rparr>"
  have "ConvertChunkToFrame c st = Some (net_OK, None, ?st)"
    using Cons.prems added_body [of body c] by (simp add: ConvertChunkToFrame_def opt_bytes_def)
  moreover have "convert_chunks cs ?st = Some (net_OK, [], ?st\<lparr>bs_control_body := Some ((body @ chunk_bytes c) @ concat (map chunk_bytes cs))\<rparr>)"
    using Cons.prems by (intro Cons.IH) simp_all
  ultimately show ?case by simp
qed simp

lemma control_begun:
  assumes "begun h data cs" "between_frames st" "IsKnownControlOpCode (wh_opcode h)" "wh_final h"
    "wh_payload_length h \<le> int kMaxControlFramePayload" "length data \<le> kMaxControlFramePayload"
  shows "convert_chunks cs st = Some (net_OK, [], st\<lparr>bs_header := Some h, bs_control_body := Some data\<rparr>)"
proof -
  obtain c ds where cs: "cs = c # ds" "ch_header c = Some h" "\<forall>d \<in> set ds. ch_header d = None"
    using assms(1) unfolding begun_def by blast
  then have c: "cs = c # ds" "ch_header c = Some h" "\<not> ch_final c" "\<forall>d \<in> set ds. ch_header d = None \<and> \<not> ch_final d"
    "data = chunk_bytes c @ concat (map chunk_bytes ds)" using assms(1) unfolding begun_def by simp_all
  let ?st = "st\<lparr>bs_header := Some h, bs_control_body := Some (chunk_bytes c)\<rparr>"
  have "ConvertChunkToFrame c st = Some (net_OK, None, ?st)"
    using c assms(2-6) added_body [of "[]" c] by (simp add: ConvertChunkToFrame_def opt_bytes_def between_frames_def)
  moreover have "convert_chunks ds ?st = Some (net_OK, [], ?st\<lparr>bs_control_body := Some (chunk_bytes c @ concat (map chunk_bytes ds))\<rparr>)"
    using c assms(3-6) by (intro control_more [of _ h]) simp_all
  ultimately show ?thesis using c(1,5) by simp
qed

lemma control_complete:
  assumes "complete h data cs" "between_frames st" "IsKnownControlOpCode (wh_opcode h)" "wh_final h"
    "wh_payload_length h = int (length data)" "length data \<le> kMaxControlFramePayload"
  shows "convert_chunks cs st = Some (net_OK, [\<lparr>wf_opcode = wh_opcode h, wf_final = True, wf_reserved1 = wh_reserved1 h,
    wf_reserved2 = wh_reserved2 h, wf_reserved3 = wh_reserved3 h, wf_data = data, wf_tag = None\<rparr>], st)"
proof -
  obtain bs c d where c: "cs = bs @ [c]" "ch_final c" "data = d @ chunk_bytes c"
    "if bs = [] then ch_header c = Some h \<and> d = [] else ch_header c = None \<and> begun h d bs" using assms(1) by (auto simp: complete_def)
  have st: "st\<lparr>bs_header := None\<rparr> = st" "st\<lparr>bs_header := None, bs_control_body := None\<rparr> = st"
    "st\<lparr>bs_control_body := None, bs_header := None\<rparr> = st"
    using assms(2) by (simp_all add: between_frames_def)
  show ?thesis
  proof (cases "bs = []")
    case True
    with c assms st show ?thesis
      by (auto simp: ConvertChunkToFrame_def whole_chunk_def CreateFrame_def chunk_bytes_def between_frames_def Let_def)
  next
    case False
    let ?st = "st\<lparr>bs_header := Some h, bs_control_body := Some d\<rparr>"
    have "convert_chunks bs st = Some (net_OK, [], ?st)" using c False assms by (intro control_begun) simp_all
    moreover have "AddToIncompleteControlFrameBody (ch_data c) d = Some data"
      using c(3) assms(6) added_body by simp
    then have "ConvertChunkToFrame c ?st = Some (net_OK, Some \<lparr>wf_opcode = wh_opcode h, wf_final = True, wf_reserved1 = wh_reserved1 h,
        wf_reserved2 = wh_reserved2 h, wf_reserved3 = wh_reserved3 h, wf_data = data, wf_tag = None\<rparr>, st)"
      using c False assms(3-6) st by (simp add: ConvertChunkToFrame_def CreateFrame_def opt_bytes_def Let_def)
    ultimately show ?thesis unfolding c(1) convert_append by simp
  qed
qed

text \<open>Data frames are handed on in pieces.\<close>

definition continues :: "ws_header \<Rightarrow> ws_header \<Rightarrow> bool" where
  "continues h h' \<longleftrightarrow> wh_opcode h' = kOpCodeContinuation \<and> wh_final h' = wh_final h \<and> wh_payload_length h' = wh_payload_length h"

lemma data_piece:
  assumes "bs_header st = Some h" "wh_opcode h = kOpCodeContinuation" "ch_header c = None" "int (length (chunk_bytes c)) \<le> wh_payload_length h"
  shows "\<exists>f h'. ConvertChunkToFrame c st = Some (net_OK, f, st\<lparr>bs_header := (if ch_final c then None else Some h')\<rparr>) \<and> continues h h' \<and>
    flow (case f of None \<Rightarrow> [] | Some fr \<Rightarrow> [fr]) = map Payload (chunk_bytes c) @ (if ch_final c \<and> wh_final h then [End] else [])"
proof -
  have "\<not> IsKnownControlOpCode kOpCodeContinuation" "IsKnownDataOpCode kOpCodeContinuation"
    by (simp_all add: IsKnownControlOpCode_def IsKnownDataOpCode_def)
  then show ?thesis using assms
    by (auto simp: ConvertChunkToFrame_def whole_chunk_def CreateFrame_def chunk_bytes_def Let_def continues_def frame_flow_def)
qed

lemma data_more:
  assumes "bs_header st = Some h" "wh_opcode h = kOpCodeContinuation" "\<forall>c \<in> set cs. ch_header c = None \<and> \<not> ch_final c"
    "int (length (concat (map chunk_bytes cs))) \<le> wh_payload_length h"
  shows "\<exists>fs h'. convert_chunks cs st = Some (net_OK, fs, st\<lparr>bs_header := Some h'\<rparr>) \<and> continues h h' \<and>
    flow fs = map Payload (concat (map chunk_bytes cs))"
  using assms
proof (induction cs arbitrary: st h)
  case Nil
  then show ?case by (intro exI [of _ "[]"] exI [of _ h]) (simp add: continues_def)
next
  case (Cons c cs)
  obtain f h' where f: "ConvertChunkToFrame c st = Some (net_OK, f, st\<lparr>bs_header := Some h'\<rparr>)" "continues h h'"
    "flow (case f of None \<Rightarrow> [] | Some fr \<Rightarrow> [fr]) = map Payload (chunk_bytes c)"
    using data_piece [OF Cons.prems(1,2), of c] Cons.prems(3,4) by auto
  obtain fs h'' where "convert_chunks cs (st\<lparr>bs_header := Some h'\<rparr>) = Some (net_OK, fs, st\<lparr>bs_header := Some h''\<rparr>)" "continues h' h''"
    "flow fs = map Payload (concat (map chunk_bytes cs))"
  proof -
    have "wh_opcode h' = kOpCodeContinuation" "int (length (concat (map chunk_bytes cs))) \<le> wh_payload_length h'"
      using f(2) Cons.prems(4) by (simp_all add: continues_def)
    moreover have "bs_header (st\<lparr>bs_header := Some h'\<rparr>) = Some h'" "\<forall>c \<in> set cs. ch_header c = None \<and> \<not> ch_final c" using Cons.prems(3) by simp_all
    ultimately have "\<exists>fs h''. convert_chunks cs (st\<lparr>bs_header := Some h'\<rparr>) = Some (net_OK, fs, st\<lparr>bs_header := Some h', bs_header := Some h''\<rparr>) \<and>
        continues h' h'' \<and> flow fs = map Payload (concat (map chunk_bytes cs))" by (intro Cons.IH)
    with that show thesis by auto
  qed
  moreover from this(2) f(2) have "continues h h''" by (simp add: continues_def)
  ultimately show ?case using f(1,3) by (intro exI [of _ "(case f of None \<Rightarrow> [] | Some fr \<Rightarrow> [fr]) @ fs"] exI [of _ h'']) (cases f; simp)
qed

lemma data_first:
  assumes "between_frames st" "ch_header c = Some h" "IsKnownDataOpCode (wh_opcode h)" "int (length (chunk_bytes c)) \<le> wh_payload_length h"
    "ch_final c \<Longrightarrow> wh_payload_length h = int (length (chunk_bytes c))"
  shows "\<exists>f h'. ConvertChunkToFrame c st = Some (net_OK, f, st\<lparr>bs_header := (if ch_final c then None else Some h')\<rparr>) \<and> (\<not> ch_final c \<longrightarrow> continues h h') \<and>
    flow (case f of None \<Rightarrow> [] | Some fr \<Rightarrow> [fr]) =
      (if wh_opcode h = kOpCodeContinuation then [] else [Begin (wh_opcode h) (wh_reserved1 h) (wh_reserved2 h) (wh_reserved3 h)]) @
      map Payload (chunk_bytes c) @ (if ch_final c \<and> wh_final h then [End] else [])"
proof -
  have "\<not> IsKnownControlOpCode (wh_opcode h)" using assms(3) by (auto simp: IsKnownControlOpCode_def IsKnownDataOpCode_def)
  then show ?thesis using assms
    by (auto simp: ConvertChunkToFrame_def whole_chunk_def CreateFrame_def chunk_bytes_def Let_def continues_def frame_flow_def between_frames_def
        IsKnownControlOpCode_def)
qed

lemma data_complete:
  assumes "complete h data cs" "between_frames st" "IsKnownDataOpCode (wh_opcode h)" "wh_payload_length h = int (length data)"
  shows "\<exists>fs. convert_chunks cs st = Some (net_OK, fs, st) \<and> flow fs =
    (if wh_opcode h = kOpCodeContinuation then [] else [Begin (wh_opcode h) (wh_reserved1 h) (wh_reserved2 h) (wh_reserved3 h)]) @
    map Payload data @ (if wh_final h then [End] else [])"
proof -
  obtain bs c d where c: "cs = bs @ [c]" "ch_final c" "data = d @ chunk_bytes c"
    "if bs = [] then ch_header c = Some h \<and> d = [] else ch_header c = None \<and> begun h d bs" using assms(1) unfolding complete_def by blast
  have st: "st\<lparr>bs_header := None\<rparr> = st" using assms(2) by (simp add: between_frames_def)
  show ?thesis
  proof (cases bs)
    case Nil
    then obtain f where "ConvertChunkToFrame c st = Some (net_OK, f, st)" "flow (case f of None \<Rightarrow> [] | Some fr \<Rightarrow> [fr]) =
        (if wh_opcode h = kOpCodeContinuation then [] else [Begin (wh_opcode h) (wh_reserved1 h) (wh_reserved2 h) (wh_reserved3 h)]) @
        map Payload data @ (if wh_final h then [End] else [])"
      using data_first [OF assms(2) _ assms(3), of c] c assms(4) st by auto
    then show ?thesis using Nil c(1) by (cases f) simp_all
  next
    case (Cons b ds)
    then have b: "ch_header b = Some h" "\<not> ch_final b" "\<forall>d \<in> set ds. ch_header d = None \<and> \<not> ch_final d" "ch_header c = None"
      "d = chunk_bytes b @ concat (map chunk_bytes ds)" using c(4) by (auto simp: begun_def)
    have len: "int (length (chunk_bytes b)) \<le> wh_payload_length h" "int (length (concat (map chunk_bytes ds))) \<le> wh_payload_length h"
      "int (length (chunk_bytes c)) \<le> wh_payload_length h" using c(3) b(5) assms(4) by simp_all
    obtain f h1 where f: "ConvertChunkToFrame b st = Some (net_OK, f, st\<lparr>bs_header := Some h1\<rparr>)" "continues h h1"
      "flow (case f of None \<Rightarrow> [] | Some fr \<Rightarrow> [fr]) = (if wh_opcode h = kOpCodeContinuation then [] else [Begin (wh_opcode h) (wh_reserved1 h)
        (wh_reserved2 h) (wh_reserved3 h)]) @ map Payload (chunk_bytes b)"
      using data_first [OF assms(2) b(1) assms(3) len(1)] b(2) by auto
    let ?st1 = "st\<lparr>bs_header := Some h1\<rparr>"
    have h1: "bs_header ?st1 = Some h1" "wh_opcode h1 = kOpCodeContinuation" "int (length (concat (map chunk_bytes ds))) \<le> wh_payload_length h1"
      "wh_final h1 = wh_final h" "wh_payload_length h1 = wh_payload_length h" using f(2) len(2) by (simp_all add: continues_def)
    obtain fs h2 where fs: "convert_chunks ds ?st1 = Some (net_OK, fs, st\<lparr>bs_header := Some h2\<rparr>)" "continues h1 h2"
      "flow fs = map Payload (concat (map chunk_bytes ds))" using data_more [OF h1(1,2) b(3) h1(3)] by auto
    let ?st2 = "st\<lparr>bs_header := Some h2\<rparr>"
    have h2: "bs_header ?st2 = Some h2" "wh_opcode h2 = kOpCodeContinuation" "int (length (chunk_bytes c)) \<le> wh_payload_length h2"
      "wh_final h2 = wh_final h" using fs(2) h1(4,5) len(3) by (simp_all add: continues_def)
    obtain g where g: "ConvertChunkToFrame c ?st2 = Some (net_OK, g, st)"
      "flow (case g of None \<Rightarrow> [] | Some fr \<Rightarrow> [fr]) = map Payload (chunk_bytes c) @ (if wh_final h then [End] else [])"
      using data_piece [OF h2(1,2) b(4) h2(3)] c(2) h2(4) st by auto
    have "convert_chunks cs st = Some (net_OK, (case f of None \<Rightarrow> [] | Some fr \<Rightarrow> [fr]) @ fs @ (case g of None \<Rightarrow> [] | Some fr \<Rightarrow> [fr]), st)"
      unfolding c(1) Cons using f(1) fs(1) g(1) by (cases f; cases g) (simp_all add: convert_append)
    moreover have "flow ((case f of None \<Rightarrow> [] | Some fr \<Rightarrow> [fr]) @ fs @ (case g of None \<Rightarrow> [] | Some fr \<Rightarrow> [fr])) =
        (if wh_opcode h = kOpCodeContinuation then [] else [Begin (wh_opcode h) (wh_reserved1 h) (wh_reserved2 h) (wh_reserved3 h)]) @
        map Payload data @ (if wh_final h then [End] else [])"
      unfolding flow_simps(3) f(3) fs(3) g(2) c(3) b(5) by simp
    ultimately show ?thesis by blast
  qed
qed

lemma frame_converted:
  assumes "wire_ok it" "complete (wire_header it) (wf_data (fst it)) cs" "between_frames st"
  shows "\<exists>fs. convert_chunks cs st = Some (net_OK, fs, st) \<and> flow fs = frame_flow (fst it)"
proof -
  have h: "wh_opcode (wire_header it) = wf_opcode (fst it)" "wh_final (wire_header it) = wf_final (fst it)"
    "wh_reserved1 (wire_header it) = wf_reserved1 (fst it)" "wh_reserved2 (wire_header it) = wf_reserved2 (fst it)"
    "wh_reserved3 (wire_header it) = wf_reserved3 (fst it)" "wh_payload_length (wire_header it) = int (length (wf_data (fst it)))"
    by (simp_all add: wire_header_def frame_header_def)
  show ?thesis
  proof (cases "IsKnownControlOpCode (wf_opcode (fst it))")
    case True
    then have "\<not> IsKnownDataOpCode (wf_opcode (fst it))" by (auto simp: IsKnownControlOpCode_def IsKnownDataOpCode_def)
    then have "wf_final (fst it)" "length (wf_data (fst it)) \<le> kMaxControlFramePayload" using assms(1) by (auto simp: wire_ok_def sendable_frame_def)
    then show ?thesis using control_complete [OF assms(2,3)] True h by (simp add: frame_flow_def)
  next
    case False
    then have "IsKnownDataOpCode (wf_opcode (fst it))" using assms(1) by (simp add: wire_ok_def sendable_frame_def)
    then show ?thesis using data_complete [OF assms(2,3), unfolded h] False by (simp only: frame_flow_def if_False)
  qed
qed

lemma chunks_converted:
  "chunked its cs \<Longrightarrow> \<forall>it \<in> set its. wire_ok it \<Longrightarrow> between_frames st \<Longrightarrow>
   \<exists>fs. convert_chunks cs st = Some (net_OK, fs, st) \<and> flow fs = flow (map fst its)"
proof (induction rule: chunked.induct)
  case (chunked_snoc its cs it ds)
  then obtain fs where fs: "convert_chunks cs st = Some (net_OK, fs, st)" "flow fs = flow (map fst its)" by auto
  obtain gs where "convert_chunks ds st = Some (net_OK, gs, st)" "flow gs = frame_flow (fst it)"
    using frame_converted [OF _ chunked_snoc.hyps(2) chunked_snoc.prems(2)] chunked_snoc.prems(1) by auto
  with fs show ?case by (simp add: convert_append)
qed simp

section \<open>Claims\<close>

text \<open>The reads of a socket one after the other, with all frames that come out of them; \<open>None\<close> if one fails.\<close>

primrec read_pieces :: "bytes list \<Rightarrow> basic_stream \<Rightarrow> (ws_frame list \<times> basic_stream) option" where
  "read_pieces [] st = Some ([], st)"
| "read_pieces (b # bs) st =
     (case HandleReadResult (int (length b)) b st of
        None \<Rightarrow> None
      | Some (result, fs, st1) \<Rightarrow>
          if result = net_OK \<or> result = ERR_IO_PENDING then map_option (\<lambda>(gs, st2). (fs @ gs, st2)) (read_pieces bs st1) else None)"

lemma pieces_read:
  "decode_pieces pieces (bs_parser st) = Some (css, p') \<Longrightarrow> [] \<notin> set pieces \<Longrightarrow> convert_chunks (concat css) st = Some (net_OK, fs, st') \<Longrightarrow>
   read_pieces pieces st = Some (fs, st'\<lparr>bs_parser := p'\<rparr>)"
proof (induction pieces arbitrary: st css fs st')
  case Nil
  then show ?case by auto
next
  case (Cons b bs)
  from Cons.prems(1) obtain cs p1 css' where d: "Decode b (bs_parser st) = Some (True, cs, p1)" "decode_pieces bs p1 = Some (css', p')" "css = cs # css'"
    by (auto split: option.splits prod.splits bool.splits)
  from Cons.prems(3) d(3) obtain fs1 st1 fs2 where c: "convert_chunks cs st = Some (net_OK, fs1, st1)"
      "convert_chunks (concat css') st1 = Some (net_OK, fs2, st')" "fs = fs1 @ fs2"
    by (auto simp: convert_append split: option.splits if_splits)
  have "b \<noteq> []" using Cons.prems(2) by auto
  let ?st = "st\<lparr>bs_parser := p1\<rparr>" and ?st1 = "st1\<lparr>bs_parser := p1\<rparr>"
  have "HandleReadResult (int (length b)) b st = Some (if fs1 = [] then ERR_IO_PENDING else net_OK, fs1, ?st1)"
  proof (cases "cs = []")
    case True
    then have "fs1 = []" "st1 = st" using c(1) by simp_all
    with True d(1) \<open>b \<noteq> []\<close> show ?thesis by (simp add: HandleReadResult_def net_errors)
  next
    case False
    have "convert_chunks cs ?st = Some (net_OK, fs1, ?st1)" using c(1) by (simp add: convert_parser)
    with False d(1) \<open>b \<noteq> []\<close> show ?thesis by (simp add: HandleReadResult_def ConvertChunksToFrames_def net_errors)
  qed
  moreover have "convert_chunks (concat css') ?st1 = Some (net_OK, fs2, st'\<lparr>bs_parser := p1\<rparr>)" using c(2) by (simp add: convert_parser)
  then have "read_pieces bs ?st1 = Some (fs2, st'\<lparr>bs_parser := p'\<rparr>)" using Cons.IH [of ?st1 css' fs2 "st'\<lparr>bs_parser := p1\<rparr>"] d(2) Cons.prems(2) by simp
  ultimately show ?case using c(3) by simp
qed

lemma wire_frames_read:
  assumes "\<forall>it \<in> set its. wire_ok it" "concat pieces = concat (map wire_bytes its)" "[] \<notin> set pieces"
  shows "\<exists>fs st. read_pieces pieces new_WebSocketBasicStream = Some (fs, st) \<and> flow fs = flow (map fst its)"
proof -
  let ?st = new_WebSocketBasicStream
  have "parser_at its [] (bs_parser ?st) (concat pieces)"
    using assms(2) by (auto simp: parser_at_def new_WebSocketBasicStream_def new_WebSocketFrameParser_def intro: chunked_nil)
  moreover have "ps_buffer (bs_parser ?st) = []" by (simp add: new_WebSocketBasicStream_def new_WebSocketFrameParser_def)
  ultimately obtain css p' where css: "decode_pieces pieces (bs_parser ?st) = Some (css, p')" "chunked its (concat css)"
    using decode_pieces_at [OF assms(1) _ assms(3), of "[]" "bs_parser ?st"] by auto
  have "between_frames ?st" by (simp add: between_frames_def new_WebSocketBasicStream_def)
  with chunks_converted [OF css(2) assms(1)] obtain fs where fs: "convert_chunks (concat css) ?st = Some (net_OK, fs, ?st)" "flow fs = flow (map fst its)"
    by blast
  with pieces_read [OF css(1) assms(3) fs(1)] show ?thesis by blast
qed

subsection \<open>What is written\<close>

lemma header_bytes_length: "int (length (header_bytes (frame_header f) None)) = GetWebSocketFrameHeaderSize (frame_header f)"
  by (simp add: header_bytes_def extended_length_def GetWebSocketFrameHeaderSize_def frame_header_def)

lemma plain_wire_bytes: "wire_bytes (f, None) = header_bytes (frame_header f) None @ wf_data f"
proof -
  have "wire_header (f, None) = frame_header f" by (simp add: wire_header_def frame_header_def)
  then show ?thesis by (simp add: wire_bytes_def masked_from_def)
qed

lemma calculated_size: "calculate_size t fs = Some n \<Longrightarrow> n = t + int (length (concat (map (\<lambda>f. wire_bytes (f, None)) fs)))"
proof (induction fs arbitrary: t)
  case (Cons f fs)
  then have "n = t + (int (length (wf_data f)) + GetWebSocketFrameHeaderSize (frame_header f)) + int (length (concat (map (\<lambda>f. wire_bytes (f, None)) fs)))"
    by (auto simp: Let_def frame_header_def split: if_splits)
  then show ?case using header_bytes_length [of f] by (simp add: plain_wire_bytes)
qed simp

lemma opcode_num_small: "IsKnownDataOpCode op \<or> IsKnownControlOpCode op \<Longrightarrow> opcode_num op \<le> 15"
  by (auto simp: IsKnownDataOpCode_def IsKnownControlOpCode_def)

lemma combined_frames:
  "\<forall>f \<in> set fs. sendable_frame f \<Longrightarrow> combine_frames (int (length (concat (map (\<lambda>f. wire_bytes (f, None)) fs)))) fs =
     Some (concat (map (\<lambda>f. wire_bytes (f, None)) fs))"
proof (induction fs)
  case (Cons f fs)
  let ?rest = "concat (map (\<lambda>f. wire_bytes (f, None)) fs)" and ?h = "frame_header f"
  have f: "opcode_num (wh_opcode ?h) \<le> 15" "wh_payload_length ?h \<le> 2 ^ 63 - 1" "\<not> wh_masked ?h"
    using Cons.prems opcode_num_small [of "wf_opcode f"] by (auto simp: sendable_frame_def frame_header_def)
  have size: "0 \<le> GetWebSocketFrameHeaderSize ?h" using header_bytes_length [of f] by linarith
  have total: "int (length (wire_bytes (f, None) @ ?rest)) = GetWebSocketFrameHeaderSize ?h + int (length (wf_data f)) + int (length ?rest)"
    using header_bytes_length [of f] by (simp add: plain_wire_bytes)
  have "WriteWebSocketFrameHeader ?h None (int (length (wire_bytes (f, None) @ ?rest))) = Some (GetWebSocketFrameHeaderSize ?h, header_bytes ?h None)"
    unfolding WriteWebSocketFrameHeader_def total using f size by simp
  then show ?case using Cons size total by (simp add: Let_def plain_wire_bytes)
qed simp

lemma WriteEverything_wire:
  "WriteEverything Write buffer st = Some (r, st') \<Longrightarrow> bs_wire st' @ bs_unwritten st' = bs_wire st @ buffer \<and>
   ((\<forall>n bs. Write n bs \<noteq> 0) \<longrightarrow> r = net_OK \<longrightarrow> bs_unwritten st' = [])"
proof (induction Write buffer st rule: WriteEverything.induct)
  case (1 Write buffer st)
  let ?r = "Write (bs_writes st) buffer"
  show ?case
  proof (cases "buffer = []")
    case True
    then show ?thesis using "1.prems" by (auto simp: WriteEverything.simps)
  next
    case False
    show ?thesis
    proof (cases "?r > 0")
      case True
      let ?st = "st\<lparr>bs_writes := bs_writes st + 1, bs_wire := bs_wire st @ take (nat ?r) buffer\<rparr>"
      have le: "\<not> ?r > int (length buffer)" and rec: "WriteEverything Write (drop (nat ?r) buffer) ?st = Some (r, st')"
        using "1.prems" False True by (subst (asm) WriteEverything.simps, simp add: Let_def split: if_splits)+
      from "1.IH" [OF False refl refl True le] rec show ?thesis by simp
    next
      case no: False
      then show ?thesis using "1.prems" False by (subst (asm) WriteEverything.simps) (auto simp: Let_def net_errors)
    qed
  qed
qed

text \<open>
  C8.  Frames survive the wire: if the stream of one end says that it wrote frames, then the stream at the other end,
  which may get the bytes cut into any pieces, reads without an error, and what it hands on says the same: the
  same messages with the same types, bytes and ends, and the same control frames at the same places among them.
\<close>

theorem web_socket_frames_survive:
  assumes "\<forall>f \<in> set sent. sendable_frame f" "\<forall>n bs. Write n bs \<noteq> 0" "Stream_WriteFrames Write sent st0 = Some (net_OK, st1)"
    "bs_wire st1 = bs_wire st0 @ concat pieces" "[] \<notin> set pieces"
  shows "\<exists>fs st. read_pieces pieces new_WebSocketBasicStream = Some (fs, st) \<and> flow fs = flow sent"
proof -
  let ?its = "map (\<lambda>f. (f, None)) sent"
  obtain n buffer where n: "calculate_size 0 sent = Some n" "combine_frames n sent = Some buffer" "WriteEverything Write buffer st0 = Some (net_OK, st1)"
    using assms(3) by (auto simp: Stream_WriteFrames_def CalculateSerializedSize_def split: option.splits)
  have buf: "buffer = concat (map wire_bytes ?its)"
    using combined_frames [OF assms(1)] calculated_size [OF n(1)] n(2) by (simp add: comp_def)
  have "concat pieces = concat (map wire_bytes ?its)" using WriteEverything_wire [OF n(3)] assms(2,4) buf by auto
  moreover have "\<forall>it \<in> set ?its. wire_ok it" using assms(1) by (simp add: wire_ok_def)
  ultimately show ?thesis using wire_frames_read [of ?its pieces] assms(5) by (simp add: comp_def)
qed

definition ws_wire_demo :: "ws_frame list" where
  "ws_wire_demo = [plain_frame False kOpCodeText [1, 2, 3] None, plain_frame True kOpCodePing [9] None, plain_frame True kOpCodeContinuation [4] None]"

text \<open>The bytes arrive one after the other, and the first message in five frames.\<close>

theorem web_socket_frames_survive_witness:
  "\<exists>fs st. read_pieces (map (\<lambda>b. [b]) (bs_wire (snd (the (Stream_WriteFrames (\<lambda>n bs. 1) ws_wire_demo new_WebSocketBasicStream)))))
      new_WebSocketBasicStream = Some (fs, st) \<and>
   flow fs = [Begin kOpCodeText False False False, Payload 1, Payload 2, Payload 3, Control kOpCodePing False False False [9], Payload 4, End]"
proof -
  let ?w = "Stream_WriteFrames (\<lambda>n bs. 1) ws_wire_demo new_WebSocketBasicStream"
  have 1: "?w \<noteq> None" "fst (the ?w) = net_OK" "bs_wire new_WebSocketBasicStream = []" by code_simp+
  then obtain st1 where w: "?w = Some (net_OK, st1)" by (metis option.collapse prod.collapse)
  have 2: "\<forall>f \<in> set ws_wire_demo. sendable_frame f" by code_simp
  have 3: "flow ws_wire_demo = [Begin kOpCodeText False False False, Payload 1, Payload 2, Payload 3, Control kOpCodePing False False False [9], Payload 4, End]"
    by code_simp
  have 4: "bs_wire st1 = bs_wire new_WebSocketBasicStream @ concat (map (\<lambda>b. [b]) (bs_wire st1))" "[] \<notin> set (map (\<lambda>b. [b]) (bs_wire st1))"
    using 1(3) by auto
  from web_socket_frames_survive [OF 2 _ w 4] show ?thesis unfolding w 3 by simp
qed

end
