(* ===== verification/Felicia_WebSocketProps.thy ===== *)
theory Felicia_WebSocketProps
  imports Felicia_WebSocket
begin

text \<open>
  A web socket sends nothing after its close frame, answers every frame of its user exactly once, and says OK only for
  frames that were written; the checks it can break are that of a timer that outlives a failed channel, and that of a reason given without a code.
\<close>

section \<open>Frames on their way\<close>

definition opt_list :: "'a list option \<Rightarrow> 'a list" where
  "opt_list x = (case x of None \<Rightarrow> [] | Some xs \<Rightarrow> xs)"

lemma opt_list_simps [simp]: "opt_list None = []" "opt_list (Some xs) = xs"
  by (simp_all add: opt_list_def)

definition wch_frames :: "ws_channel \<Rightarrow> ws_frame list" where
  "wch_frames s = ws_sent s @ opt_list (data_being_sent s) @ opt_list (data_to_send_next s)"

definition no_close :: "ws_frame list \<Rightarrow> bool" where
  "no_close fs \<longleftrightarrow> (\<forall>f \<in> set fs. wf_opcode f \<noteq> kOpCodeClose)"

text \<open>Every call of the user is answered or waits; \<open>extra\<close> are frames about to be sent.\<close>

definition wch_core :: "ws_frame list \<Rightarrow> ws_channel \<Rightarrow> bool" where
  "wch_core extra s \<longleftrightarrow> (data_to_send_next s \<noteq> None \<longrightarrow> data_being_sent s \<noteq> None) \<and>
     (\<forall>i. ws_write_callback s = Some i \<longrightarrow> (\<exists>f \<in> set (wch_frames s @ extra). wf_tag f = Some i)) \<and>
     (\<forall>i. (i, net_OK) \<in> set (ws_callbacks s) \<longrightarrow> (\<exists>f \<in> set (ws_sent s). wf_tag f = Some i)) \<and>
     map fst (ws_callbacks s) @ opt_list (map_option (\<lambda>i. [i]) (ws_write_callback s)) = [0..<ws_submitted s]"

lemma wch_core_weaken: "wch_core [] s \<Longrightarrow> wch_core extra s"
  unfolding wch_core_def by (simp, blast)

text \<open>How a write leaves the channel: as it was, or closed.\<close>

definition leaves :: "ws_channel \<Rightarrow> ws_channel \<Rightarrow> bool \<Rightarrow> bool" where
  "leaves s s' alive \<longleftrightarrow> has_received_close_frame s' = has_received_close_frame s \<and> received_close_code s' = received_close_code s \<and>
     received_close_reason s' = received_close_reason s \<and>
     (if alive then wc_state s' = wc_state s \<and> close_timer s' = close_timer s
      else wc_state s' = CLOSED \<and> \<not> close_timer s' \<and> ws_write_callback s' = None)"

lemma run_callback_core:
  assumes "wch_core extra s" "result \<noteq> net_OK \<or> wch_frames s @ extra = ws_sent s"
  shows "wch_core extra (run_ws_callback result s)" "ws_write_callback (run_ws_callback result s) = None"
    "wch_frames (run_ws_callback result s) = wch_frames s"
  using assms by (auto simp: run_ws_callback_def wch_core_def wch_frames_def split: option.splits)

text \<open>The stream below the channel: a write is done, waits or fails.\<close>

locale frame_stream =
  fixes Write :: "nat \<Rightarrow> ws_frame list \<Rightarrow> int"
  assumes write_result: "Write n fs \<le> net_OK"
begin

lemma WriteFrames_core:
  assumes "wch_core [] s" "data_to_send_next s = None" "data_being_sent s = Some fs" "wc_state s \<notin> {FRESHLY_CONSTRUCTED, CONNECTING, CLOSED}"
  shows "\<exists>s' alive. WriteFrames Write s = Some (s', alive) \<and> wch_core [] s' \<and> wch_frames s' = wch_frames s \<and> leaves s s' alive"
proof -
  let ?r = "Write (ws_writes s) fs" and ?s1 = "s\<lparr>ws_writes := ws_writes s + 1\<rparr>"
  have core1: "wch_core [] ?s1" "wch_frames ?s1 = wch_frames s" using assms(1) by (simp_all add: wch_core_def wch_frames_def)
  consider "?r = ERR_IO_PENDING" | "?r = net_OK" | "?r \<noteq> ERR_IO_PENDING" "?r \<noteq> net_OK" by blast
  then show ?thesis
  proof cases
    case 1
    then have "WriteFrames Write s = Some (?s1, True)" using assms(3) by (subst WriteFrames.simps) simp
    with core1 show ?thesis by (simp add: leaves_def ex_bool_eq)
  next
    case 2
    let ?t = "?s1\<lparr>ws_sent := ws_sent s @ fs, data_being_sent := None\<rparr>"
    have t: "wch_core [] ?t" "wch_frames ?t = wch_frames s" "wch_frames ?t = ws_sent ?t"
      using core1(1) assms(2,3) by (auto simp: wch_core_def wch_frames_def)
    have "WriteFrames Write s = Some (run_ws_callback net_OK ?t, True)"
      using 2 assms(2-4) by (subst WriteFrames.simps) (simp add: write_done_def net_errors run_ws_callback_def ex_bool_eq split: option.splits)
    moreover have "leaves s (run_ws_callback net_OK ?t) True" by (simp add: leaves_def run_ws_callback_def split: option.splits)
    ultimately show ?thesis using run_callback_core [OF t(1), of net_OK] t(2,3) by auto
  next
    case 3
    let ?t = "?s1\<lparr>wc_state := CLOSED\<rparr>"
    have t: "wch_core [] ?t" "wch_frames ?t = wch_frames s" using core1 by (simp_all add: wch_core_def wch_frames_def)
    have "WriteFrames Write s = Some (DoDropChannel ?t, False)"
      using 3 assms(3,4) write_result [of "ws_writes s" fs] by (subst WriteFrames.simps) (simp add: write_done_def SetState_def net_errors)
    moreover have "leaves s (DoDropChannel ?t) False"
      by (simp add: leaves_def DoDropChannel_def run_ws_callback_def split: option.splits)
    moreover have "wch_core [] (DoDropChannel ?t)" "wch_frames (DoDropChannel ?t) = wch_frames s"
      using run_callback_core [OF t(1), of ERR_CONNECTION_RESET] t(2) by (simp_all add: DoDropChannel_def net_errors wch_core_def wch_frames_def)
    ultimately show ?thesis by blast
  qed
qed

lemma SendFrameInternal_core:
  assumes "wch_core [f] s" "wc_state s = CONNECTED \<or> wc_state s = RECV_CLOSED"
  shows "\<exists>s' alive. SendFrameInternal Write f s = Some (s', alive) \<and> wch_core [] s' \<and> wch_frames s' = wch_frames s @ [f] \<and> leaves s s' alive"
proof (cases "data_being_sent s")
  case None
  let ?t = "s\<lparr>data_being_sent := Some [f]\<rparr>"
  have "data_to_send_next s = None" using assms(1) None by (auto simp: wch_core_def)
  then have "wch_frames ?t = wch_frames s @ [f]" using None by (simp add: wch_frames_def)
  then have "wch_core [] ?t" using assms(1) None by (simp add: wch_core_def)
  moreover have "wc_state ?t \<notin> {FRESHLY_CONSTRUCTED, CONNECTING, CLOSED}" using assms(2) by auto
  ultimately obtain s' alive where "WriteFrames Write ?t = Some (s', alive)" "wch_core [] s'" "wch_frames s' = wch_frames ?t" "leaves ?t s' alive"
    using WriteFrames_core [of ?t "[f]"] \<open>data_to_send_next s = None\<close> by auto
  with None assms(2) \<open>wch_frames ?t = wch_frames s @ [f]\<close> show ?thesis by (auto simp: SendFrameInternal_def leaves_def)
next
  case (Some fs)
  let ?t = "s\<lparr>data_to_send_next := Some (opt_list (data_to_send_next s) @ [f])\<rparr>"
  have "SendFrameInternal Write f s = Some (?t, True)" using Some assms(2) by (auto simp: SendFrameInternal_def opt_list_def)
  moreover have "wch_frames ?t = wch_frames s @ [f]" by (simp add: wch_frames_def)
  moreover from this have "wch_core [] ?t" using assms(1) Some by (simp add: wch_core_def)
  ultimately show ?thesis by (simp add: leaves_def ex_bool_eq)
qed

lemma OnWriteDone_core:
  assumes "wch_core [] s" "data_being_sent s = Some fs" "wc_state s \<notin> {FRESHLY_CONSTRUCTED, CONNECTING, CLOSED}"
    "result \<le> net_OK" "result \<noteq> ERR_IO_PENDING"
  shows "\<exists>s' alive. OnWriteDone Write result s = Some (s', alive) \<and> wch_core [] s' \<and> wch_frames s' = wch_frames s \<and> leaves s s' alive"
proof (cases "result = net_OK")
  case ok: True
  show ?thesis
  proof (cases "data_to_send_next s")
    case None
    let ?t = "s\<lparr>ws_sent := ws_sent s @ fs, data_being_sent := None\<rparr>"
    have t: "wch_core [] ?t" "wch_frames ?t = wch_frames s" "wch_frames ?t = ws_sent ?t"
      using assms(1,2) None by (auto simp: wch_core_def wch_frames_def)
    have "OnWriteDone Write result s = Some (run_ws_callback net_OK ?t, True)"
      using ok assms(2,3,5) None by (simp add: OnWriteDone_def write_done_def)
    moreover have "leaves s (run_ws_callback net_OK ?t) True" by (simp add: leaves_def run_ws_callback_def split: option.splits)
    ultimately show ?thesis using run_callback_core [OF t(1), of net_OK] t(2,3) by auto
  next
    case (Some nfs)
    let ?t = "s\<lparr>ws_sent := ws_sent s @ fs, data_being_sent := Some nfs, data_to_send_next := None\<rparr>"
    have t: "wch_core [] ?t" "wch_frames ?t = wch_frames s" using assms(1,2) Some by (auto simp: wch_core_def wch_frames_def)
    have "OnWriteDone Write result s = WriteFrames Write ?t" using ok assms(2,3,5) Some by (simp add: OnWriteDone_def write_done_def)
    moreover obtain s' alive where "WriteFrames Write ?t = Some (s', alive)" "wch_core [] s'" "wch_frames s' = wch_frames ?t" "leaves ?t s' alive"
      using WriteFrames_core [OF t(1), of nfs] assms(3) by auto
    moreover from this(4) have "leaves s s' alive" by (simp add: leaves_def)
    ultimately show ?thesis using t(2) by simp
  qed
next
  case False
  let ?t = "s\<lparr>wc_state := CLOSED\<rparr>"
  have t: "wch_core [] ?t" "wch_frames ?t = wch_frames s" using assms(1) by (simp_all add: wch_core_def wch_frames_def)
  have "OnWriteDone Write result s = Some (DoDropChannel ?t, False)"
    using False assms(2-5) by (simp add: OnWriteDone_def write_done_def SetState_def net_errors)
  moreover have "leaves s (DoDropChannel ?t) False"
    by (simp add: leaves_def DoDropChannel_def run_ws_callback_def split: option.splits)
  moreover have "wch_core [] (DoDropChannel ?t)" "wch_frames (DoDropChannel ?t) = wch_frames s"
    using run_callback_core [OF t(1), of ERR_CONNECTION_RESET] t(2) by (simp_all add: DoDropChannel_def net_errors wch_core_def wch_frames_def)
  ultimately show ?thesis by blast
qed

end

section \<open>The invariant\<close>

definition wch_ok :: "ws_channel \<Rightarrow> bool" where
  "wch_ok s \<longleftrightarrow> wch_core [] s \<and> no_close (butlast (wch_frames s)) \<and>
     (case wc_state s of
        CONNECTED \<Rightarrow> no_close (wch_frames s) \<and> \<not> close_timer s \<and> \<not> has_received_close_frame s
      | SEND_CLOSED \<Rightarrow> close_timer s
      | CLOSE_WAIT \<Rightarrow> close_timer s
      | CLOSED \<Rightarrow> ws_write_callback s = None
      | _ \<Rightarrow> False)"

lemma no_close_butlast: "no_close fs \<Longrightarrow> no_close (butlast fs)"
  by (auto simp: no_close_def dest: in_set_butlastD)

lemma left_closed: "leaves s s' False \<Longrightarrow> wch_core [] s' \<Longrightarrow> no_close (butlast (wch_frames s')) \<Longrightarrow> wch_ok s'"
  by (simp add: leaves_def wch_ok_def)

lemma wch_ok_states: "wch_ok s \<Longrightarrow> wc_state s \<in> {CONNECTED, SEND_CLOSED, CLOSE_WAIT, CLOSED}"
  by (auto simp: wch_ok_def split: ws_state.splits)

lemma wch_core_state: "wch_core extra s \<Longrightarrow> wch_core extra (s\<lparr>wc_state := st\<rparr>)" "wch_frames (s\<lparr>wc_state := st\<rparr>) = wch_frames s"
  "wch_core extra s \<Longrightarrow> wch_core extra (s\<lparr>close_timer := t\<rparr>)" "wch_frames (s\<lparr>close_timer := t\<rparr>) = wch_frames s"
  "wch_core extra s \<Longrightarrow> wch_core extra (s\<lparr>has_received_close_frame := h, received_close_code := c, received_close_reason := r\<rparr>)"
  "wch_frames (s\<lparr>has_received_close_frame := h, received_close_code := c, received_close_reason := r\<rparr>) = wch_frames s"
  by (simp_all add: wch_core_def wch_frames_def)

text \<open>What the checks of \<open>SendClose\<close> ask for.\<close>

definition close_fits :: "u16 \<Rightarrow> bytes \<Rightarrow> bool" where
  "close_fits code reason \<longleftrightarrow> length reason \<le> kMaximumCloseReasonLength \<and> (code = kWebSocketErrorNoStatusReceived \<longrightarrow> reason = [])"

lemma protocol_error_fits:
  "length reason \<le> 123 \<Longrightarrow> close_fits kWebSocketErrorProtocolError (string_bytes reason)"
  by (simp add: close_fits_def kMaximumCloseReasonLength_def kWebSocketCloseCodeLength_def string_bytes_def
      kWebSocketErrorProtocolError_def kWebSocketErrorNoStatusReceived_def)

text \<open>The two ways to break a check.\<close>

definition wch_breaks :: "wch_event \<Rightarrow> ws_channel \<Rightarrow> bool" where
  "wch_breaks ev s \<longleftrightarrow> (ev = WcTimeout \<and> wc_state s = CLOSED \<and> close_timer s) \<or>
     (wc_state s = CONNECTED \<and> (\<exists>reason. ev = WcClose kWebSocketErrorNoStatusReceived reason \<and> reason \<noteq> [] \<and>
        length reason \<le> kMaximumCloseReasonLength))"

context frame_stream
begin

text \<open>A frame other than a close frame is sent, or a close frame.\<close>

lemma frame_sent:
  assumes "wch_ok s" "wc_state s = CONNECTED" "wch_core [f] s0" "wc_state s0 = CONNECTED" "wch_frames s0 = wch_frames s"
    "close_timer s0 = close_timer s" "has_received_close_frame s0 = has_received_close_frame s" "wf_opcode f \<noteq> kOpCodeClose"
  shows "\<exists>s' alive. SendFrameInternal Write f s0 = Some (s', alive) \<and> wch_ok s' \<and> (alive \<longrightarrow> wc_state s' \<noteq> CLOSED)"
proof -
  obtain s' alive where s': "SendFrameInternal Write f s0 = Some (s', alive)" "wch_core [] s'" "wch_frames s' = wch_frames s @ [f]" "leaves s0 s' alive"
    using SendFrameInternal_core [OF assms(3)] assms(4,5) by auto
  have "no_close (wch_frames s')" using assms(1,2,8) s'(3) by (auto simp: wch_ok_def no_close_def)
  with s' assms left_closed [of s0 s'] no_close_butlast have "wch_ok s'"
    by (cases alive) (auto simp: wch_ok_def leaves_def)
  moreover have "alive \<longrightarrow> wc_state s' \<noteq> CLOSED" using s'(4) assms(4) by (simp add: leaves_def)
  ultimately show ?thesis using s'(1) by blast
qed

lemma close_sent:
  assumes "wch_core [] s" "no_close (wch_frames s)" "wc_state s = CONNECTED \<or> wc_state s = RECV_CLOSED" "close_fits code reason"
  shows "\<exists>s' alive. SendClose Write code reason s = Some (s', alive) \<and> wch_core [] s' \<and> no_close (butlast (wch_frames s')) \<and> leaves s s' alive"
proof -
  have "SendClose Write code reason s = SendFrameInternal Write (plain_frame True kOpCodeClose (close_body code reason) None) s"
    using assms(4) by (auto simp: SendClose_def close_fits_def)
  then obtain s' alive where "SendClose Write code reason s = Some (s', alive)" "wch_core [] s'"
    "wch_frames s' = wch_frames s @ [plain_frame True kOpCodeClose (close_body code reason) None]" "leaves s s' alive"
    using SendFrameInternal_core [OF wch_core_weaken [OF assms(1)] assms(3)] by metis
  with assms(2) show ?thesis by simp
qed

lemma FailChannel_ok:
  assumes "wch_ok s" "wc_state s \<noteq> CLOSED" "close_fits code (string_bytes reason)"
  shows "\<exists>s'. FailChannel Write code reason s = Some s' \<and> wch_ok s' \<and> wc_state s' = CLOSED"
proof -
  have core: "wch_core [] s" "no_close (butlast (wch_frames s))" using assms(1) by (simp_all add: wch_ok_def)
  have "\<exists>s1 alive. (if wc_state s = CONNECTED then SendClose Write code (string_bytes reason) s else Some (s, True)) = Some (s1, alive) \<and>
      wch_core [] s1 \<and> no_close (butlast (wch_frames s1)) \<and> leaves s s1 alive"
  proof (cases "wc_state s = CONNECTED")
    case True
    then have "no_close (wch_frames s)" using assms(1) by (simp add: wch_ok_def)
    with True close_sent [OF core(1) _ _ assms(3)] show ?thesis by simp
  next
    case False
    with core show ?thesis by (simp add: leaves_def ex_bool_eq)
  qed
  then obtain s1 alive where s1: "(if wc_state s = CONNECTED then SendClose Write code (string_bytes reason) s else Some (s, True)) = Some (s1, alive)"
    "wch_core [] s1" "no_close (butlast (wch_frames s1))" "leaves s s1 alive" by blast
  have st: "wc_state s \<notin> {FRESHLY_CONSTRUCTED, CONNECTING, CLOSED}" using wch_ok_states [OF assms(1)] assms(2) by auto
  show ?thesis
  proof (cases alive)
    case True
    then have "wc_state s1 \<noteq> CLOSED" using s1(4) assms(2) by (simp add: leaves_def)
    then have "FailChannel Write code reason s = Some (run_ws_callback ERR_CONNECTION_RESET (s1\<lparr>wc_state := CLOSED\<rparr>))"
      using True s1(1) st by (simp add: FailChannel_def SetState_def)
    moreover have "wch_ok (run_ws_callback ERR_CONNECTION_RESET (s1\<lparr>wc_state := CLOSED\<rparr>))"
      using run_callback_core [OF wch_core_state(1) [OF s1(2)], of ERR_CONNECTION_RESET CLOSED] s1(3)
      by (simp add: wch_ok_def wch_core_state net_errors) (simp add: run_ws_callback_def split: option.splits)
    moreover have "wc_state (run_ws_callback ERR_CONNECTION_RESET (s1\<lparr>wc_state := CLOSED\<rparr>)) = CLOSED"
      by (simp add: run_ws_callback_def split: option.splits)
    ultimately show ?thesis by blast
  next
    case False
    with s1 left_closed [of s s1] st show ?thesis by (simp add: FailChannel_def leaves_def)
  qed
qed

lemma Respond_ok:
  assumes "wch_core [] s" "no_close (wch_frames s)" "wc_state s = CONNECTED" "\<not> close_timer s" "has_received_close_frame s"
    "close_fits (received_close_code s) (received_close_reason s)"
  shows "\<exists>s' alive. RespondToClosingHandshake Write s = Some (s', alive) \<and> wch_ok s' \<and> (alive \<longrightarrow> wc_state s' \<noteq> CLOSED)"
proof -
  let ?s = "s\<lparr>wc_state := RECV_CLOSED\<rparr>"
  obtain s1 alive where s1: "SendClose Write (received_close_code s) (received_close_reason s) ?s = Some (s1, alive)" "wch_core [] s1"
    "no_close (butlast (wch_frames s1))" "leaves ?s s1 alive"
    using close_sent [of ?s "received_close_code s" "received_close_reason s"] assms(1,2,6) by (auto simp: wch_core_state)
  show ?thesis
  proof (cases alive)
    case True
    then have "wc_state s1 = RECV_CLOSED" "\<not> close_timer s1" using s1(4) assms(4) by (simp_all add: leaves_def)
    with True s1 assms(3,5) show ?thesis
      by (simp add: RespondToClosingHandshake_def wch_ok_def wch_core_def wch_frames_def ex_bool_eq)
  next
    case False
    with s1 assms(3,5) left_closed [of ?s s1] show ?thesis by (simp add: RespondToClosingHandshake_def ex_bool_eq)
  qed
qed

lemma StartClosingHandshake_ok:
  assumes "wch_ok s"
    "wc_state s = CONNECTED \<Longrightarrow> code = kWebSocketErrorNoStatusReceived \<Longrightarrow> reason \<noteq> [] \<Longrightarrow> length reason > kMaximumCloseReasonLength"
  shows "\<exists>s' alive. StartClosingHandshake Write code reason s = Some (s', alive) \<and> wch_ok s'"
proof (cases "wc_state s = CONNECTED")
  case True
  let ?s = "s\<lparr>close_timer := True\<rparr>"
  let ?bad = "\<not> IsStrictlyValidCloseStatusCode (uint code) \<or> length reason > kMaximumCloseReasonLength"
  let ?code = "if ?bad then kWebSocketErrorInternalServerError else code" and ?reason = "if ?bad then [] else reason"
  have ok: "wch_core [] s" "no_close (wch_frames s)" "\<not> close_timer s" "\<not> has_received_close_frame s" using assms True by (simp_all add: wch_ok_def)
  have fits: "close_fits ?code ?reason"
    using assms(2) [OF True] by (auto simp: close_fits_def kMaximumCloseReasonLength_def kWebSocketErrorInternalServerError_def kWebSocketErrorNoStatusReceived_def)
  obtain s1 alive where s1: "SendClose Write ?code ?reason ?s = Some (s1, alive)" "wch_core [] s1" "no_close (butlast (wch_frames s1))"
    "leaves ?s s1 alive"
    using close_sent [of ?s ?code ?reason] ok True fits by (auto simp: wch_core_state)
  have eq: "StartClosingHandshake Write code reason s = (if \<not> alive then Some (s1, False)
      else if wc_state s1 \<noteq> CONNECTED then None else Some (s1\<lparr>wc_state := SEND_CLOSED\<rparr>, True))"
    using True ok(3,4) s1(1) by (cases ?bad) (simp_all add: StartClosingHandshake_def InClosingState_def)
  show ?thesis
  proof (cases alive)
    case alive: True
    then have "wc_state s1 = CONNECTED" "close_timer s1" using s1(4) True by (simp_all add: leaves_def)
    with alive eq s1(2,3) show ?thesis by (simp add: wch_ok_def wch_core_state ex_bool_eq)
  next
    case False
    with s1 eq left_closed [of ?s s1] show ?thesis by (simp add: ex_bool_eq)
  qed
next
  case False
  then have "InClosingState s" using wch_ok_states [OF assms(1)] by (auto simp: InClosingState_def)
  with assms(1) show ?thesis by (simp add: StartClosingHandshake_def ex_bool_eq)
qed

lemma drop_ok:
  assumes "wch_core [] s" "no_close (butlast (wch_frames s))" "wc_state s \<noteq> CLOSED"
  shows "\<exists>s'. Option.bind (SetState CLOSED s) (\<lambda>s1. Some (DoDropChannel s1)) = Some s' \<and> wch_ok s'"
proof -
  from run_callback_core [OF wch_core_state(1) [OF assms(1)], of ERR_CONNECTION_RESET CLOSED] assms(2)
  have "wch_ok (DoDropChannel (s\<lparr>wc_state := CLOSED\<rparr>))"
    by (simp add: wch_ok_def DoDropChannel_def wch_core_state net_errors) (simp add: run_ws_callback_def split: option.splits)
  with assms(3) show ?thesis by (simp add: SetState_def)
qed

lemma HandleCloseFrame_ok:
  assumes "wch_ok s" "wc_state s = CONNECTED \<or> wc_state s = SEND_CLOSED" "close_fits code reason"
  shows "\<exists>s' alive. HandleCloseFrame Write code reason s = Some (s', alive) \<and> wch_ok s' \<and> (alive \<longrightarrow> wc_state s' \<noteq> CLOSED)"
proof -
  let ?s = "s\<lparr>has_received_close_frame := True, received_close_code := code, received_close_reason := reason\<rparr>"
  have core: "wch_core [] ?s" "wch_frames ?s = wch_frames s" using assms(1) by (simp_all add: wch_ok_def wch_core_state)
  show ?thesis
  proof (cases "wc_state s = CONNECTED")
    case True
    with assms(1,3) core Respond_ok [of ?s] show ?thesis by (simp add: HandleCloseFrame_def wch_ok_def)
  next
    case False
    then have "wc_state s = SEND_CLOSED" using assms(2) by simp
    moreover have "wch_core [] (?s\<lparr>wc_state := CLOSE_WAIT\<rparr>)" "wch_frames (?s\<lparr>wc_state := CLOSE_WAIT\<rparr>) = wch_frames s"
      using wch_core_state(1,2) core by auto
    ultimately show ?thesis using assms(1) by (simp add: HandleCloseFrame_def wch_ok_def ex_bool_eq)
  qed
qed

lemma failed_ok:
  assumes "wch_ok s" "wc_state s \<noteq> CLOSED" "length reason \<le> 123"
  shows "\<exists>s' alive. map_option (\<lambda>s1. (s1, False)) (FailChannel Write kWebSocketErrorProtocolError reason s) = Some (s', alive) \<and>
    wch_ok s' \<and> (alive \<longrightarrow> wc_state s' \<noteq> CLOSED)"
  using FailChannel_ok [OF assms(1,2) protocol_error_fits [OF assms(3)]] by (auto simp: ex_bool_eq)

lemma HandleFrameByState_ok:
  assumes "wch_ok s" "wc_state s \<noteq> CLOSED"
  shows "\<exists>s' alive. HandleFrameByState Write op data s = Some (s', alive) \<and> wch_ok s' \<and> (alive \<longrightarrow> wc_state s' \<noteq> CLOSED)"
proof (cases "wc_state s = CLOSE_WAIT")
  case True
  then show ?thesis using failed_ok [OF assms, of "[]"] by (simp add: HandleFrameByState_def)
next
  case False
  then have st: "wc_state s = CONNECTED \<or> wc_state s = SEND_CLOSED" using assms wch_ok_states [OF assms(1)] by auto
  then have st': "\<not> (wc_state s = RECV_CLOSED \<or> wc_state s = CLOSED)" by auto
  show ?thesis
  proof (cases op)
    case kOpCodePing
    have pong: "wc_state s = CONNECTED \<Longrightarrow> ?thesis"
      using frame_sent [OF assms(1) _ wch_core_weaken, of s "plain_frame True kOpCodePong data None"] assms(1) kOpCodePing
      by (simp add: HandleFrameByState_def wch_ok_def plain_frame_def)
    show ?thesis
    proof (cases "wc_state s = CONNECTED")
      case True
      then show ?thesis by (rule pong)
    next
      case no: False
      with st assms(1) kOpCodePing show ?thesis by (auto simp: HandleFrameByState_def ex_bool_eq)
    qed
  next
    case kOpCodeClose
    obtain good code reason where p: "ParseClose data = (good, code, reason)" by (metis prod_cases3)
    show ?thesis
    proof (cases good)
      case True
      then have "close_fits code (string_bytes reason)"
        using p by (auto simp: ParseClose_def close_fits_def string_bytes_def Let_def split: if_splits)
      with True kOpCodeClose p st' False HandleCloseFrame_ok [OF assms(1) st] show ?thesis by (simp add: HandleFrameByState_def)
    next
      case bad: False
      then have "code = kWebSocketErrorProtocolError" "length reason \<le> 123"
        using p by (auto simp: ParseClose_def Let_def split: if_splits)
      with bad kOpCodeClose p st' False failed_ok [OF assms] show ?thesis by (simp add: HandleFrameByState_def)
    qed
  next
    case (OpCodeUnknown n)
    with st' False failed_ok [OF assms, of "''Unknown opcode''"] show ?thesis by (simp add: HandleFrameByState_def)
  qed (use st' False assms in \<open>simp_all add: HandleFrameByState_def ex_bool_eq\<close>)
qed

lemma HandleFrame_ok:
  assumes "wch_ok s" "wc_state s \<noteq> CLOSED" "IsKnownControlOpCode (wf_opcode fr) \<Longrightarrow> wf_final fr"
  shows "\<exists>s' alive. HandleFrame Write fr s = Some (s', alive) \<and> wch_ok s' \<and> (alive \<longrightarrow> wc_state s' \<noteq> CLOSED)"
  using failed_ok [OF assms(1,2), of "''Invalid reserved bit''"] HandleFrameByState_ok [OF assms(1,2), of "wf_opcode fr" "wf_data fr"] assms(3)
  by (auto simp: HandleFrame_def)

lemma handle_frames_ok:
  "wch_ok s \<Longrightarrow> wc_state s \<noteq> CLOSED \<Longrightarrow> \<forall>f \<in> set fs. IsKnownControlOpCode (wf_opcode f) \<longrightarrow> wf_final f \<Longrightarrow>
   \<exists>s' alive. handle_frames Write fs s = Some (s', alive) \<and> wch_ok s' \<and> (alive \<longrightarrow> wc_state s' \<noteq> CLOSED)"
proof (induction fs arbitrary: s)
  case (Cons f fs)
  obtain s' alive where s': "HandleFrame Write f s = Some (s', alive)" "wch_ok s'" "alive \<longrightarrow> wc_state s' \<noteq> CLOSED"
    using HandleFrame_ok [OF Cons.prems(1,2), of f] Cons.prems(3) by auto
  show ?case using s' Cons.IH [of s'] Cons.prems(3) by (cases alive) (simp_all add: ex_bool_eq)
qed (simp add: ex_bool_eq)

lemma OnReadDone_ok:
  assumes "wch_ok s" "wc_state s \<noteq> CLOSED" "result = net_OK \<longrightarrow> fs \<noteq> []"
    "result \<le> net_OK" "result \<noteq> ERR_IO_PENDING" "\<forall>f \<in> set fs. IsKnownControlOpCode (wf_opcode f) \<longrightarrow> wf_final f"
  shows "\<exists>s' alive. OnReadDone Write result fs s = Some (s', alive) \<and> wch_ok s'"
proof -
  obtain s' where "Option.bind (SetState CLOSED s) (\<lambda>s1. Some (DoDropChannel s1)) = Some s'" "wch_ok s'" using drop_ok [OF _ _ assms(2)] assms(1) by (auto simp: wch_ok_def)
  then have "\<exists>s' alive. Option.bind (SetState CLOSED s) (\<lambda>s1. Some (DoDropChannel s1, False)) = Some (s', alive) \<and> wch_ok s'"
    by (cases "SetState CLOSED s") (auto simp: ex_bool_eq)
  moreover have "\<exists>s' alive. Option.bind (handle_frames Write fs s)
      (\<lambda>(s1, alive). if alive \<and> wc_state s1 = CLOSED then None else Some (s1, alive)) = Some (s', alive) \<and> wch_ok s'"
    using handle_frames_ok [OF assms(1,2,6)] by auto
  moreover have "\<not> (wc_state s = FRESHLY_CONSTRUCTED \<or> wc_state s = CONNECTING \<or> result = ERR_IO_PENDING)"
    using wch_ok_states [OF assms(1)] assms(5) by auto
  ultimately show ?thesis
    using assms(3,4) failed_ok [OF assms(1,2), of "''WebSocket Protocol Error''"] unfolding OnReadDone_def net_errors by auto
qed

lemma SendFrame_ok:
  assumes "wch_ok s" "ws_write_callback s = None"
  shows "\<exists>s' alive. SendFrame Write fin kOpCodeBinary buffer s = Some (s', alive) \<and> wch_ok s'"
proof (cases "wc_state s = CONNECTED")
  case True
  let ?i = "ws_submitted s"
  let ?f = "plain_frame fin kOpCodeBinary buffer (Some ?i)" and ?s = "s\<lparr>ws_submitted := ?i + 1, ws_write_callback := Some ?i\<rparr>"
  have "wch_core [?f] ?s" using assms by (simp add: wch_ok_def wch_core_def wch_frames_def plain_frame_def)
  moreover have "wch_frames ?s = wch_frames s" by (simp add: wch_frames_def)
  ultimately obtain s' alive where "SendFrameInternal Write ?f ?s = Some (s', alive)" "wch_ok s'"
    using frame_sent [OF assms(1) True, of ?f ?s] True by (auto simp: plain_frame_def)
  with True assms(2) show ?thesis by (simp add: SendFrame_def InClosingState_def IsKnownDataOpCode_def)
next
  case False
  let ?t = "s\<lparr>ws_submitted := ws_submitted s + 1, ws_callbacks := ws_callbacks s @ [(ws_submitted s, ERR_CONNECTION_CLOSED)]\<rparr>"
  have st: "InClosingState s" "wc_state s \<noteq> RECV_CLOSED" using False wch_ok_states [OF assms(1)] by (auto simp: InClosingState_def)
  have "wch_core [] ?t" "wch_frames ?t = wch_frames s"
    using assms unfolding wch_ok_def by (simp_all add: wch_core_def wch_frames_def net_errors)
  then have "wch_ok ?t" using assms(1) False by (simp add: wch_ok_def split: ws_state.splits)
  with st assms(2) show ?thesis by (simp add: SendFrame_def Let_def ex_bool_eq)
qed

lemma wch_exec_ok:
  assumes "wch_ok s" "wch_permits ev s" "\<not> wch_breaks ev s"
  shows "\<exists>s'. wch_exec Write ev s = Some s' \<and> wch_ok s'"
proof (cases ev)
  case (WcSend fin buffer)
  with SendFrame_ok [OF assms(1), of fin buffer] assms(2) show ?thesis by fastforce
next
  case (WcClose code reason)
  with StartClosingHandshake_ok [OF assms(1), of code reason] assms(3) show ?thesis unfolding wch_breaks_def by fastforce
next
  case (WcWriteDone result)
  show ?thesis
  proof (cases "wc_state s \<noteq> CLOSED \<and> data_being_sent s \<noteq> None")
    case True
    then obtain fs where fs: "data_being_sent s = Some fs" by blast
    have "wc_state s \<notin> {FRESHLY_CONSTRUCTED, CONNECTING, CLOSED}" using wch_ok_states [OF assms(1)] True by auto
    then obtain s' alive where s': "OnWriteDone Write result s = Some (s', alive)" "wch_core [] s'" "wch_frames s' = wch_frames s" "leaves s s' alive"
      using OnWriteDone_core [OF _ fs, of result] assms(1,2) True WcWriteDone by (auto simp: wch_ok_def)
    have "wch_ok s'"
    proof (cases alive)
      case alive: True
      with s' assms(1) True show ?thesis by (simp add: wch_ok_def leaves_def split: ws_state.splits)
    next
      case False
      with s' assms(1) left_closed [of s s'] show ?thesis by (simp add: wch_ok_def)
    qed
    with s'(1) True WcWriteDone show ?thesis by simp
  next
    case False
    with WcWriteDone assms(1) show ?thesis by auto
  qed
next
  case (WcRead result fs)
  with OnReadDone_ok [OF assms(1), of result fs] assms(1,2) show ?thesis by fastforce
next
  case WcTimeout
  show ?thesis
  proof (cases "close_timer s")
    case True
    let ?t = "s\<lparr>close_timer := False\<rparr>"
    have t: "wch_core [] ?t" "no_close (butlast (wch_frames ?t))" "wc_state ?t \<noteq> CLOSED"
      using assms(1,3) True WcTimeout by (simp_all add: wch_ok_def wch_core_state wch_breaks_def)
    from drop_ok [OF t] WcTimeout True show ?thesis by (simp add: CloseTimeout_def)
  next
    case False
    with WcTimeout assms(1) show ?thesis by simp
  qed
qed

lemma wch_breaks_undefined:
  assumes "wch_ok s" "wch_breaks ev s"
  shows "wch_exec Write ev s = None"
proof (cases "wc_state s = CONNECTED")
  case True
  then obtain reason where "ev = WcClose kWebSocketErrorNoStatusReceived reason" "reason \<noteq> []" "length reason \<le> kMaximumCloseReasonLength"
    using assms(2) by (auto simp: wch_breaks_def)
  moreover have "IsStrictlyValidCloseStatusCode (uint kWebSocketErrorNoStatusReceived)" by code_simp
  ultimately show ?thesis using True assms(1) by (simp add: StartClosingHandshake_def InClosingState_def SendClose_def wch_ok_def)
next
  case False
  with assms(2) show ?thesis by (auto simp: wch_breaks_def CloseTimeout_def SetState_def)
qed

lemma wch_step_ok: "wch_ok s \<Longrightarrow> wch_step Write s t \<Longrightarrow> wch_ok t"
  by (erule wch_stepE) (metis wch_exec_ok wch_breaks_undefined option.inject option.distinct(1))

end

lemma new_channel_ok: "wch_ok new_WebSocketChannel"
  by (simp add: wch_ok_def wch_core_def wch_frames_def no_close_def new_WebSocketChannel_def)

sublocale frame_stream \<subseteq> web_socket: inductive_invariant "\<lambda>s. s = new_WebSocketChannel" "wch_step Write" wch_ok
  by unfold_locales (use new_channel_ok wch_step_ok in blast)+

context frame_stream
begin

lemma channel_ok: "reachable (\<lambda>s. s = new_WebSocketChannel) (wch_step Write) s \<Longrightarrow> wch_ok s"
  by (rule web_socket.inv_reachable)

end

section \<open>Claims\<close>

text \<open>A run of the channel, for the witnesses.\<close>

primrec wch_run :: "(nat \<Rightarrow> ws_frame list \<Rightarrow> int) \<Rightarrow> wch_event list \<Rightarrow> ws_channel \<Rightarrow> ws_channel option" where
  "wch_run Write [] s = Some s"
| "wch_run Write (ev # evs) s = (if wch_permits ev s then Option.bind (wch_exec Write ev s) (wch_run Write evs) else None)"

lemma wch_run_reachable:
  "wch_run Write evs s = Some s' \<Longrightarrow> reachable init (wch_step Write) s \<Longrightarrow> reachable init (wch_step Write) s'"
proof (induction evs arbitrary: s)
  case (Cons ev evs)
  then obtain s1 where "wch_permits ev s" "wch_exec Write ev s = Some s1" "wch_run Write evs s1 = Some s'"
    by (auto split: if_splits bind_splits)
  then show ?case using Cons.IH Cons.prems(2) by (blast intro: reachable.move wch_step.intros)
qed simp

definition ws_demo_write :: "nat \<Rightarrow> ws_frame list \<Rightarrow> int" where
  "ws_demo_write n fs = (if n = 0 then ERR_IO_PENDING else net_OK)"

text \<open>The user sends a frame, which waits, and closes; a ping that arrives is not answered any more.\<close>

definition ws_demo_events :: "wch_event list" where
  "ws_demo_events = [WcSend True [7], WcRead 0 [plain_frame True kOpCodePing [1] None], WcClose 1000 [104],
     WcRead 0 [plain_frame True kOpCodePing [2] None]]"

definition ws_demo :: ws_channel where
  "ws_demo = the (wch_run ws_demo_write ws_demo_events new_WebSocketChannel)"

lemma ws_demo_honest: "\<forall>n fs. ws_demo_write n fs \<le> net_OK"
  by (simp add: ws_demo_write_def net_errors)

lemma ws_demo_reachable: "reachable (\<lambda>s. s = new_WebSocketChannel) (wch_step ws_demo_write) ws_demo"
proof -
  have "wch_run ws_demo_write ws_demo_events new_WebSocketChannel \<noteq> None" by code_simp
  then have "wch_run ws_demo_write ws_demo_events new_WebSocketChannel = Some ws_demo" by (simp add: ws_demo_def)
  then show ?thesis by (rule wch_run_reachable) (simp add: reachable.start)
qed

text \<open>
  C21.  Whatever the peer and the stream do, a web socket puts nothing on the wire after its close frame: of the frames
  that it wrote, is writing and will write only the last can be a close frame, and while it is connected none is one.
  A channel in the closing handshake has a timer running.
\<close>

theorem web_socket_closes_last:
  assumes "\<forall>n fs. Write n fs \<le> net_OK" "reachable (\<lambda>s. s = new_WebSocketChannel) (wch_step Write) s"
  shows "no_close (butlast (wch_frames s)) \<and> (wc_state s = CONNECTED \<longrightarrow> no_close (wch_frames s)) \<and>
    (wc_state s = SEND_CLOSED \<or> wc_state s = CLOSE_WAIT \<longrightarrow> close_timer s)"
  using frame_stream.channel_ok [OF frame_stream.intro assms(2)] assms(1) by (auto simp: wch_ok_def)

theorem web_socket_closes_last_witness:
  "map wf_opcode (wch_frames ws_demo) = [kOpCodeBinary, kOpCodePong, kOpCodeClose] \<and> no_close (butlast (wch_frames ws_demo)) \<and> close_timer ws_demo"
proof -
  have "map wf_opcode (wch_frames ws_demo) = [kOpCodeBinary, kOpCodePong, kOpCodeClose]" "wc_state ws_demo = SEND_CLOSED" by code_simp+
  with web_socket_closes_last [OF ws_demo_honest ws_demo_reachable] show ?thesis by simp
qed

text \<open>
  The frames of the user are answered in order and each exactly once, the one being sent excepted, for which its
  frame is on the way; OK is answered only for a frame that was written; and a closed channel has answered all.
\<close>

theorem web_socket_answers_once:
  assumes "\<forall>n fs. Write n fs \<le> net_OK" "reachable (\<lambda>s. s = new_WebSocketChannel) (wch_step Write) s"
  shows "map fst (ws_callbacks s) @ opt_list (map_option (\<lambda>i. [i]) (ws_write_callback s)) = [0..<ws_submitted s] \<and>
    (\<forall>i. (i, net_OK) \<in> set (ws_callbacks s) \<longrightarrow> (\<exists>f \<in> set (ws_sent s). wf_tag f = Some i)) \<and>
    (\<forall>i. ws_write_callback s = Some i \<longrightarrow> (\<exists>f \<in> set (wch_frames s). wf_tag f = Some i)) \<and>
    (wc_state s = CLOSED \<longrightarrow> map fst (ws_callbacks s) = [0..<ws_submitted s])"
  using frame_stream.channel_ok [OF frame_stream.intro assms(2)] assms(1) by (auto simp: wch_ok_def wch_core_def)

theorem web_socket_answers_once_witness:
  "ws_submitted ws_demo = 1 \<and> ws_callbacks ws_demo = [] \<and> (\<exists>f \<in> set (wch_frames ws_demo). wf_tag f = Some 0)"
proof -
  have "ws_write_callback ws_demo = Some 0" "ws_submitted ws_demo = 1" "ws_callbacks ws_demo = []" by code_simp+
  with web_socket_answers_once [OF ws_demo_honest ws_demo_reachable] show ?thesis by blast
qed

text \<open>
  C22.  Whatever arrives, every operation of the channel returns and breaks none of its checks, with two exceptions: the
  timer of the closing handshake, which a failed channel leaves running, and a caller who closes with the code for
  no status and gives a reason.
\<close>

theorem web_socket_defined:
  assumes "\<forall>n fs. Write n fs \<le> net_OK" "reachable (\<lambda>s. s = new_WebSocketChannel) (wch_step Write) s" "wch_permits ev s"
  shows "wch_exec Write ev s = None \<longleftrightarrow> (ev = WcTimeout \<and> wc_state s = CLOSED \<and> close_timer s) \<or>
     (wc_state s = CONNECTED \<and> (\<exists>reason. ev = WcClose kWebSocketErrorNoStatusReceived reason \<and> reason \<noteq> [] \<and>
        length reason \<le> kMaximumCloseReasonLength))"
proof -
  have stream: "frame_stream Write" using assms(1) by (simp add: frame_stream_def)
  note ok = frame_stream.channel_ok [OF stream assms(2)]
  have "wch_exec Write ev s = None \<longleftrightarrow> wch_breaks ev s"
    using frame_stream.wch_exec_ok [OF stream ok assms(3)] frame_stream.wch_breaks_undefined [OF stream ok] by fastforce
  then show ?thesis by (simp add: wch_breaks_def)
qed

theorem web_socket_defined_witness: "\<exists>s'. wch_exec ws_demo_write (WcWriteDone 0) ws_demo = Some s'"
proof -
  have "wch_permits (WcWriteDone 0) ws_demo" by code_simp
  from web_socket_defined [OF ws_demo_honest ws_demo_reachable this] show ?thesis by auto
qed

text \<open>The first exception happens: a peer that answers the close frame with a reserved bit leaves the timer behind.\<close>

lemma timer_outlives_channel:
  "\<exists>s. reachable (\<lambda>s. s = new_WebSocketChannel) (wch_step (\<lambda>n fs. net_OK)) s \<and> wch_exec (\<lambda>n fs. net_OK) WcTimeout s = None"
proof -
  let ?evs = "[WcClose 1000 [], WcRead 0 [(plain_frame True kOpCodeText [] None)\<lparr>wf_reserved1 := True\<rparr>]]"
  let ?s = "wch_run (\<lambda>n fs. net_OK) ?evs new_WebSocketChannel"
  have 1: "?s \<noteq> None" "wch_exec (\<lambda>n fs. net_OK) WcTimeout (the ?s) = None" by code_simp+
  then obtain s where s: "?s = Some s" by blast
  have "wch_exec (\<lambda>n fs. net_OK) WcTimeout s = None" using 1(2) unfolding s option.sel .
  moreover have "reachable (\<lambda>s. s = new_WebSocketChannel) (wch_step (\<lambda>n fs. net_OK)) s"
    using s by (rule wch_run_reachable) (simp add: reachable.start)
  ultimately show ?thesis by blast
qed

text \<open>
  Of the close frames that can arrive only the empty one is accepted.  One that carries a status code,
  as those that this program itself sends do, fails the channel as a protocol error, whatever the code.
\<close>

theorem coded_close_fails_channel:
  "(fst (ParseClose data) \<longleftrightarrow> data = []) \<and>
   (fst (ParseClose (close_body code reason)) \<longleftrightarrow> code = kWebSocketErrorNoStatusReceived)"
  by (auto simp: ParseClose_def close_body_def kWebSocketCloseCodeLength_def Let_def)

text \<open>
  The binary search in the table of ranges decides membership: a code may be sent in a close frame if it is from 1000 to 1005, from 1007 to 1013 or from 3000 to 4999.
\<close>

theorem strictly_valid_codes:
  assumes "0 \<le> code" "code < 65536"
  shows "IsStrictlyValidCloseStatusCode code \<longleftrightarrow>
    code \<in> {1000..1005} \<or> code \<in> {1007..1013} \<or> code \<in> {3000..4999}"
  using assms by (auto simp: IsStrictlyValidCloseStatusCode_def upper_bound_def kInvalidRanges_def)

theorem strictly_valid_codes_witness:
  "IsStrictlyValidCloseStatusCode 1005 \<and> \<not> IsStrictlyValidCloseStatusCode 1006"
  using strictly_valid_codes [of 1005] strictly_valid_codes [of 1006] by simp

end
