(* ===== verification/Felicia_WebSocketInput.thy ===== *)
theory Felicia_WebSocketInput
  imports Felicia_WebSocketStreamProps Felicia_WebSocketProps
begin

text \<open>
  The input of a web socket is whatever a peer sends: no bytes break a check of the parser, of the stream or of the channel
  on top of them.
\<close>

section \<open>Whatever arrives\<close>

text \<open>The chunks that a parser gives, from a frame in progress to a frame in progress.\<close>

fun chunk_turn :: "(ws_header \<times> int) option \<Rightarrow> ws_chunk \<Rightarrow> (ws_header \<times> int) option \<Rightarrow> bool" where
  "chunk_turn cur c cur' \<longleftrightarrow> (\<exists>h n. (case cur of None \<Rightarrow> ch_header c = Some h \<and> n = 0 | Some (g, m) \<Rightarrow> ch_header c = None \<and> h = g \<and> n = m) \<and>
     n + int (length (chunk_bytes c)) \<le> wh_payload_length h \<and> (ch_final c \<longleftrightarrow> n + int (length (chunk_bytes c)) = wh_payload_length h) \<and>
     cur' = (if ch_final c then None else Some (h, n + int (length (chunk_bytes c)))))"

declare chunk_turn.simps [simp del]

inductive chunk_run :: "(ws_header \<times> int) option \<Rightarrow> ws_chunk list \<Rightarrow> (ws_header \<times> int) option \<Rightarrow> bool" where
  run_nil: "chunk_run cur [] cur"
| run_cons: "chunk_turn cur c mid \<Longrightarrow> chunk_run mid cs cur' \<Longrightarrow> chunk_run cur (c # cs) cur'"

definition in_progress_frame :: "ws_parser \<Rightarrow> (ws_header \<times> int) option" where
  "in_progress_frame p = map_option (\<lambda>h. (h, ps_offset p)) (ps_header p)"

definition parser_ok :: "ws_parser \<Rightarrow> bool" where
  "parser_ok p \<longleftrightarrow> (case ps_header p of None \<Rightarrow> ps_offset p = 0 | Some h \<Rightarrow> 0 \<le> ps_offset p \<and> ps_offset p \<le> wh_payload_length h)"

lemma ReadBigEndian_nonneg: "0 \<le> ReadBigEndian bs"
proof -
  have "0 \<le> a \<Longrightarrow> 0 \<le> foldl (\<lambda>out b. out * 256 + uint b) a bs" for a by (induction bs arbitrary: a) simp_all
  then show ?thesis by (simp add: ReadBigEndian_def)
qed

lemma decode_length_nonneg: "decode_length second current = Some (n, current', error) \<Longrightarrow> 0 \<le> n"
  using ReadBigEndian_nonneg by (auto simp: decode_length_def Let_def split: if_splits)

lemma DecodeFrameHeader_ok:
  assumes "parser_ok p" "ps_header p = None"
  shows "parser_ok (DecodeFrameHeader p) \<and> ps_offset (DecodeFrameHeader p) = 0 \<and>
    (ps_error (DecodeFrameHeader p) = kWebSocketNormalClosure \<and> ps_header (DecodeFrameHeader p) = None \<longrightarrow> DecodeFrameHeader p = p) \<and>
    (ps_error p = kWebSocketNormalClosure \<and> ps_error (DecodeFrameHeader p) \<noteq> kWebSocketNormalClosure \<longrightarrow> ps_header (DecodeFrameHeader p) = None)"
  using assms decode_length_nonneg unfolding parser_ok_def DecodeFrameHeader_def Let_def decoded_header_def
  by (auto split: list.splits option.splits)

lemma DecodeFramePayload_ok:
  assumes "parser_ok p" "ps_header p = Some h" "first \<Longrightarrow> ps_offset p = 0"
  shows "\<exists>c p'. DecodeFramePayload first p = Some (c, p') \<and> parser_ok p' \<and> ps_error p' = ps_error p \<and>
    chunk_turn (if first then None else in_progress_frame p) c (in_progress_frame p') \<and> (ps_header p' \<noteq> None \<longrightarrow> ps_buffer p' = [])"
proof -
  define k where "k = nat (min (int (length (ps_buffer p))) (wh_payload_length h - ps_offset p))"
  have off: "0 \<le> ps_offset p" "ps_offset p \<le> wh_payload_length h" using assms(1,2) by (simp_all add: parser_ok_def)
  have k: "k \<le> length (ps_buffer p)" "int k \<le> wh_payload_length h - ps_offset p" "k = length (ps_buffer p) \<or> ps_offset p + int k = wh_payload_length h"
    using off unfolding k_def by linarith+
  let ?data = "if wh_masked h then MaskWebSocketFramePayload 0 (ps_masking_key p) (nat (ps_offset p)) (take k (ps_buffer p)) else take k (ps_buffer p)"
  let ?final = "ps_offset p + int k = wh_payload_length h"
  let ?c = "\<lparr>ch_header = (if first then Some h else None), ch_final = ?final, ch_data = (if k = 0 then None else Some ?data)\<rparr>"
  let ?p = "p\<lparr>ps_buffer := drop k (ps_buffer p), ps_header := (if ?final then None else Some h),
     ps_offset := (if ?final then 0 else ps_offset p + int k)\<rparr>"
  have "DecodeFramePayload first p = Some (?c, ?p)"
    unfolding DecodeFramePayload_def assms(2) Let_def option.case k_def [symmetric] using k(2) by simp
  moreover have size: "length (chunk_bytes ?c) = k" using k(1) by (simp add: chunk_bytes_def opt_bytes_def packed_mask)
  have "chunk_turn (if first then None else in_progress_frame p) ?c (in_progress_frame ?p)"
    unfolding chunk_turn.simps size using assms(2,3) k(2) by (intro exI [of _ h] exI [of _ "ps_offset p"]) (auto simp: in_progress_frame_def)
  moreover have "parser_ok ?p" using off k(2) by (simp add: parser_ok_def)
  moreover have "ps_header ?p \<noteq> None \<longrightarrow> ps_buffer ?p = []" using k(3) by auto
  ultimately show ?thesis by (intro exI [of _ ?c] exI [of _ ?p]) simp
qed

lemma payload_turn_ok:
  assumes "parser_ok p" "ps_error p = kWebSocketNormalClosure"
  shows "(\<exists>ok p'. payload_turn p = Inr (ok, p') \<and> parser_ok p' \<and> (ok \<longrightarrow> p' = p) \<and> in_progress_frame p' = in_progress_frame p \<and>
      (ps_error p' = kWebSocketNormalClosure \<longleftrightarrow> ok)) \<or>
    (\<exists>c p'. payload_turn p = Inl (Some (c, p')) \<and> parser_ok p' \<and> ps_error p' = kWebSocketNormalClosure \<and>
       chunk_turn (in_progress_frame p) c (in_progress_frame p') \<and> (ps_header p' \<noteq> None \<longrightarrow> ps_buffer p' = []))"
proof (cases "ps_header p")
  case None
  let ?p = "DecodeFrameHeader p"
  note hd = DecodeFrameHeader_ok [OF assms(1) None]
  show ?thesis
  proof (cases "ps_error ?p = kWebSocketNormalClosure \<and> ps_header ?p \<noteq> None")
    case True
    then obtain h where h: "ps_header ?p = Some h" by blast
    then have "payload_turn p = Inl (DecodeFramePayload True ?p)" using True None by (simp add: payload_turn_def Let_def)
    with DecodeFramePayload_ok [OF _ h, of True] hd True None show ?thesis by (simp add: in_progress_frame_def)
  next
    case False
    then show ?thesis using hd None assms(2) by (auto simp: payload_turn_def in_progress_frame_def Let_def)
  qed
next
  case (Some h)
  from DecodeFramePayload_ok [OF assms(1) Some, of False] assms(2) Some show ?thesis by (simp add: payload_turn_def)
qed

text \<open>Bytes that the parser keeps for the next round are the beginning of a header.\<close>

lemma decode_length_drops: "decode_length second current = Some (n, current', error) \<Longrightarrow> length current \<le> length current' + 8"
  by (auto simp: decode_length_def Let_def split: if_splits)

lemma decode_length_waits: "decode_length second current = None \<Longrightarrow> length current < 8"
  by (auto simp: decode_length_def Let_def split: if_splits)

lemma waiting_short:
  assumes "payload_turn p = Inr (True, p)"
  shows "length (ps_buffer p) < 14"
proof -
  have p: "DecodeFrameHeader p = p" "ps_header p = None" "ps_error p = kWebSocketNormalClosure"
    using assms by (auto simp: payload_turn_def Let_def split: option.splits if_splits)
  show ?thesis
  proof (rule ccontr)
    assume "\<not> ?thesis"
    then obtain b1 b2 current where b: "ps_buffer p = b1 # b2 # current" "length current \<ge> 12"
      by (cases "ps_buffer p"; cases "tl (ps_buffer p)") auto
    then obtain n current' err where d: "decode_length b2 current = Some (n, current', err)"
      using decode_length_waits [of b2 current] by (cases "decode_length b2 current") auto
    have "length current' \<ge> 4" using decode_length_drops [OF d] b(2) by simp
    then have "ps_error (DecodeFrameHeader p) \<noteq> kWebSocketNormalClosure \<or> ps_header (DecodeFrameHeader p) \<noteq> None"
      using b(1) d by (simp add: DecodeFrameHeader_def Let_def kMaskingKeyLength_def)
    then show False using p by simp
  qed
qed

lemma decode_loop_ok:
  "parser_ok p \<Longrightarrow> ps_error p = kWebSocketNormalClosure \<Longrightarrow>
   \<exists>ok cs p'. decode_loop p = Some (ok, cs, p') \<and> parser_ok p' \<and> chunk_run (in_progress_frame p) cs (in_progress_frame p') \<and>
     (ps_error p' = kWebSocketNormalClosure \<longleftrightarrow> ok) \<and> (ok \<longrightarrow> length (ps_buffer p') < 14)"
proof (induction p rule: decode_loop.induct)
  case (1 p)
  show ?case
  proof (cases "ps_buffer p = []")
    case True
    then show ?thesis using "1.prems" by (simp add: decode_loop.simps run_nil ex_bool_eq)
  next
    case False
    from payload_turn_ok [OF "1.prems"] show ?thesis
    proof (elim disjE exE conjE)
      fix ok p' assume t: "payload_turn p = Inr (ok, p')" "parser_ok p'" "ok \<longrightarrow> p' = p" "in_progress_frame p' = in_progress_frame p"
        "ps_error p' = kWebSocketNormalClosure \<longleftrightarrow> ok"
      then have "ok \<longrightarrow> length (ps_buffer p') < 14" using waiting_short [of p] by auto
      then show ?thesis using False t by (subst decode_loop.simps) (simp add: run_nil)
    next
      fix c p' assume t: "payload_turn p = Inl (Some (c, p'))" "parser_ok p'" "ps_error p' = kWebSocketNormalClosure"
        "chunk_turn (in_progress_frame p) c (in_progress_frame p')" "ps_header p' \<noteq> None \<longrightarrow> ps_buffer p' = []"
      show ?thesis
      proof (cases "ps_header p'")
        case None
        from "1.IH" [OF False t(1) refl refl _ t(2,3)] None obtain ok cs p'' where d: "decode_loop p' = Some (ok, cs, p'')" "parser_ok p''"
          "chunk_run (in_progress_frame p') cs (in_progress_frame p'')" "ps_error p'' = kWebSocketNormalClosure \<longleftrightarrow> ok"
          "ok \<longrightarrow> length (ps_buffer p'') < 14" by auto
        have "decode_loop p = Some (ok, c # cs, p'')" using False t(1) None d(1) by (subst decode_loop.simps) simp
        with d run_cons [OF t(4) d(3)] show ?thesis by auto
      next
        case (Some h)
        have "decode_loop p = Some (True, [c], p')" using False t(1,5) Some by (subst decode_loop.simps) simp
        with t Some run_cons [OF t(4) run_nil] show ?thesis by auto
      qed
    qed
  qed
qed

lemma Decode_ok:
  assumes "parser_ok p" "ps_error p = kWebSocketNormalClosure"
  shows "\<exists>ok cs p'. Decode data p = Some (ok, cs, p') \<and> parser_ok p' \<and> chunk_run (in_progress_frame p) cs (in_progress_frame p') \<and>
    (ps_error p' = kWebSocketNormalClosure \<longleftrightarrow> ok)"
proof (cases "data = []")
  case True
  then show ?thesis using assms by (simp add: Decode_def run_nil ex_bool_eq)
next
  case False
  let ?p = "p\<lparr>ps_buffer := ps_buffer p @ data\<rparr>"
  have "parser_ok ?p" "in_progress_frame ?p = in_progress_frame p" using assms(1)
    by (simp_all add: parser_ok_def in_progress_frame_def cong: option.case_cong)
  with decode_loop_ok [of ?p] assms(2) obtain ok cs p' where "decode_loop ?p = Some (ok, cs, p')" "parser_ok p'"
    "chunk_run (in_progress_frame p) cs (in_progress_frame p')" "ps_error p' = kWebSocketNormalClosure \<longleftrightarrow> ok" "ok \<longrightarrow> length (ps_buffer p') < 14" by auto
  with False assms(2) show ?thesis by (auto simp: Decode_def)
qed

text \<open>The stream has the header of the frame in progress, as far as it matters, and what there is of a control frame.\<close>

definition stream_follows :: "(ws_header \<times> int) option \<Rightarrow> basic_stream \<Rightarrow> bool" where
  "stream_follows cur st \<longleftrightarrow> (case cur of
       None \<Rightarrow> between_frames st
     | Some (h, n) \<Rightarrow> (\<exists>h'. bs_header st = Some h' \<and> wh_payload_length h' = wh_payload_length h \<and>
         (if IsKnownControlOpCode (wh_opcode h') then wh_final h' \<and> wh_payload_length h' \<le> int kMaxControlFramePayload \<and>
            (\<exists>body. bs_control_body st = Some body \<and> int (length body) = n)
          else bs_control_body st = None)) \<and> 0 \<le> n)"

definition frame_promise :: "ws_frame \<Rightarrow> bool" where
  "frame_promise f \<longleftrightarrow> (IsKnownControlOpCode (wf_opcode f) \<longrightarrow> wf_final f \<and> length (wf_data f) \<le> kMaxControlFramePayload)"

lemma whole_chunk_data:
  assumes "\<not> IsKnownControlOpCode (wh_opcode h)" "int (length (chunk_bytes c)) \<le> wh_payload_length h"
    "ch_header c \<noteq> None \<and> ch_final c \<longrightarrow> wh_payload_length h = int (length (chunk_bytes c))"
  shows "\<exists>f h'. whole_chunk c h st = Some (net_OK, f, st\<lparr>bs_header := (if ch_final c then None else Some h')\<rparr>) \<and>
    wh_payload_length h' = wh_payload_length h \<and> \<not> IsKnownControlOpCode (wh_opcode h') \<and> (\<forall>fr. f = Some fr \<longrightarrow> frame_promise fr)"
proof -
  have "\<not> IsKnownControlOpCode kOpCodeContinuation" by (simp add: IsKnownControlOpCode_def)
  then show ?thesis using assms
    by (auto simp: whole_chunk_def CreateFrame_def Let_def chunk_bytes_def frame_promise_def)
qed

lemma whole_chunk_control:
  assumes "IsKnownControlOpCode (wh_opcode h)" "wh_final h" "wh_payload_length h \<le> int kMaxControlFramePayload" "ch_final c"
    "wh_payload_length h = int (length (chunk_bytes c))"
  shows "\<exists>f. whole_chunk c h st = Some (net_OK, f, st\<lparr>bs_header := None\<rparr>) \<and> (\<forall>fr. f = Some fr \<longrightarrow> frame_promise fr)"
  using assms by (auto simp: whole_chunk_def CreateFrame_def Let_def chunk_bytes_def frame_promise_def)

text \<open>The first chunk of a frame, and one that goes on with a frame.\<close>

lemma convert_first:
  assumes "between_frames st" "chunk_turn None c cur'"
  shows "\<exists>r f st'. ConvertChunkToFrame c st = Some (r, f, st') \<and> (r = net_OK \<and> stream_follows cur' st' \<and> (\<forall>fr. f = Some fr \<longrightarrow> frame_promise fr) \<or>
    r = net_ERR_WS_PROTOCOL_ERROR)"
proof -
  obtain h where h: "ch_header c = Some h" "int (length (chunk_bytes c)) \<le> wh_payload_length h"
    "ch_final c \<longleftrightarrow> int (length (chunk_bytes c)) = wh_payload_length h" "cur' = (if ch_final c then None else Some (h, int (length (chunk_bytes c))))"
    using assms(2) by (auto simp: chunk_turn.simps)
  let ?st = "st\<lparr>bs_header := Some h\<rparr>"
  have st: "bs_header st = None" "bs_control_body st = None" using assms(1) by (simp_all add: between_frames_def)
  consider (bad) "IsKnownControlOpCode (wh_opcode h)" "\<not> wh_final h \<or> wh_payload_length h > int kMaxControlFramePayload"
    | (part) "IsKnownControlOpCode (wh_opcode h)" "wh_final h" "wh_payload_length h \<le> int kMaxControlFramePayload" "\<not> ch_final c"
    | (whole) "IsKnownControlOpCode (wh_opcode h)" "wh_final h" "wh_payload_length h \<le> int kMaxControlFramePayload" "ch_final c"
    | (data) "\<not> IsKnownControlOpCode (wh_opcode h)" by linarith
  then show ?thesis
  proof cases
    case bad
    then show ?thesis using h(1) st by (simp add: ConvertChunkToFrame_def)
  next
    case part
    have "length ([] @ chunk_bytes c) \<le> kMaxControlFramePayload" using h(2) part(3) by simp
    from added_body [OF this] part h(1) st
    have "ConvertChunkToFrame c st = Some (net_OK, None, ?st\<lparr>bs_control_body := Some (chunk_bytes c)\<rparr>)"
      by (simp add: ConvertChunkToFrame_def opt_bytes_def)
    with part h(4) show ?thesis by (simp add: stream_follows_def)
  next
    case whole
    have "ConvertChunkToFrame c st = whole_chunk c h ?st" using whole h(1) st by (simp add: ConvertChunkToFrame_def)
    with whole_chunk_control [OF whole, of ?st] h(3,4) whole(4) st show ?thesis by (auto simp: stream_follows_def between_frames_def)
  next
    case data
    have eq: "ConvertChunkToFrame c st = whole_chunk c h ?st" using data h(1) st by (simp add: ConvertChunkToFrame_def)
    obtain f h' where w: "whole_chunk c h ?st = Some (net_OK, f, ?st\<lparr>bs_header := (if ch_final c then None else Some h')\<rparr>)"
      "wh_payload_length h' = wh_payload_length h" "\<not> IsKnownControlOpCode (wh_opcode h')" "\<forall>fr. f = Some fr \<longrightarrow> frame_promise fr"
      using whole_chunk_data [OF data h(2), of ?st] h(3) by auto
    have "stream_follows cur' (?st\<lparr>bs_header := (if ch_final c then None else Some h')\<rparr>)"
      using h(4) w(2,3) st by (simp add: stream_follows_def between_frames_def)
    with eq w(1,4) show ?thesis by auto
  qed
qed

lemma convert_next:
  assumes "stream_follows (Some (h, n)) st" "chunk_turn (Some (h, n)) c cur'"
  shows "\<exists>r f st'. ConvertChunkToFrame c st = Some (r, f, st') \<and> r = net_OK \<and> stream_follows cur' st' \<and> (\<forall>fr. f = Some fr \<longrightarrow> frame_promise fr)"
proof -
  have c: "ch_header c = None" "n + int (length (chunk_bytes c)) \<le> wh_payload_length h"
    "ch_final c \<longleftrightarrow> n + int (length (chunk_bytes c)) = wh_payload_length h" "cur' = (if ch_final c then None else Some (h, n + int (length (chunk_bytes c))))"
    using assms(2) by (auto simp: chunk_turn.simps)
  obtain g where g: "bs_header st = Some g" "wh_payload_length g = wh_payload_length h" "0 \<le> n"
    "if IsKnownControlOpCode (wh_opcode g) then wh_final g \<and> wh_payload_length g \<le> int kMaxControlFramePayload \<and>
       (\<exists>body. bs_control_body st = Some body \<and> int (length body) = n) else bs_control_body st = None"
    using assms(1) by (auto simp: stream_follows_def)
  show ?thesis
  proof (cases "IsKnownControlOpCode (wh_opcode g)")
    case True
    then obtain body where b: "wh_final g" "wh_payload_length g \<le> int kMaxControlFramePayload" "bs_control_body st = Some body" "int (length body) = n"
      using g(4) by auto
    have len: "length (body @ chunk_bytes c) \<le> kMaxControlFramePayload" using c(2) b(2,4) g(2) by simp
    note add = added_body [OF len]
    show ?thesis
    proof (cases "ch_final c")
      case final: True
      then have "int (length (body @ chunk_bytes c)) = wh_payload_length g" using c(3) b(4) g(2) by simp
      then have "\<exists>f. ConvertChunkToFrame c st = Some (net_OK, Some f, st\<lparr>bs_control_body := None, bs_header := None\<rparr>) \<and> frame_promise f"
        using final True b g(1) c(1) add len by (simp add: ConvertChunkToFrame_def CreateFrame_def opt_bytes_def Let_def frame_promise_def)
      with c(4) final show ?thesis by (auto simp: stream_follows_def between_frames_def)
    next
      case part: False
      then have "ConvertChunkToFrame c st = Some (net_OK, None, st\<lparr>bs_control_body := Some (body @ chunk_bytes c)\<rparr>)"
        using True b g(1) c(1) add by (simp add: ConvertChunkToFrame_def opt_bytes_def)
      with c(4) part True b g show ?thesis by (simp add: stream_follows_def)
    qed
  next
    case False
    have eq: "ConvertChunkToFrame c st = whole_chunk c g st" using False g(1) c(1) by (simp add: ConvertChunkToFrame_def)
    have size: "int (length (chunk_bytes c)) \<le> wh_payload_length g" using c(2) g(2,3) by simp
    obtain f h' where w: "whole_chunk c g st = Some (net_OK, f, st\<lparr>bs_header := (if ch_final c then None else Some h')\<rparr>)"
      "wh_payload_length h' = wh_payload_length g" "\<not> IsKnownControlOpCode (wh_opcode h')" "\<forall>fr. f = Some fr \<longrightarrow> frame_promise fr"
      using whole_chunk_data [OF False size, of st] c(1) by auto
    have "stream_follows cur' (st\<lparr>bs_header := (if ch_final c then None else Some h')\<rparr>)"
      using c(4) w(2,3) g False by (simp add: stream_follows_def between_frames_def)
    with eq w(1,4) show ?thesis by auto
  qed
qed

lemma convert_turn:
  assumes "stream_follows cur st" "chunk_turn cur c cur'"
  shows "\<exists>r f st'. ConvertChunkToFrame c st = Some (r, f, st') \<and> (r = net_OK \<and> stream_follows cur' st' \<and> (\<forall>fr. f = Some fr \<longrightarrow> frame_promise fr) \<or>
    r = net_ERR_WS_PROTOCOL_ERROR)"
proof (cases cur)
  case None
  with assms convert_first show ?thesis by (simp add: stream_follows_def)
next
  case (Some a)
  then show ?thesis using assms convert_next [of "fst a" "snd a" st c cur'] by fastforce
qed

lemma convert_run:
  "chunk_run cur cs cur' \<Longrightarrow> stream_follows cur st \<Longrightarrow>
   \<exists>r fs st'. convert_chunks cs st = Some (r, fs, st') \<and> (\<forall>f \<in> set fs. frame_promise f) \<and>
     (r = net_OK \<and> stream_follows cur' st' \<or> r = net_ERR_WS_PROTOCOL_ERROR)"
proof (induction arbitrary: st rule: chunk_run.induct)
  case (run_nil cur)
  then show ?case by simp
next
  case (run_cons cur c mid cs cur')
  from convert_turn [OF run_cons.prems run_cons.hyps(1)] obtain r f st1 where c: "ConvertChunkToFrame c st = Some (r, f, st1)"
    "r = net_OK \<and> stream_follows mid st1 \<and> (\<forall>fr. f = Some fr \<longrightarrow> frame_promise fr) \<or> r = net_ERR_WS_PROTOCOL_ERROR" by blast
  show ?case
  proof (cases "r = net_OK")
    case True
    then have "stream_follows mid st1" "\<forall>fr. f = Some fr \<longrightarrow> frame_promise fr" using c(2) by (auto simp: net_errors)
    with run_cons.IH [of st1] c(1) True show ?thesis by (cases f) auto
  next
    case False
    with c show ?thesis by simp
  qed
qed

definition stream_ok :: "basic_stream \<Rightarrow> bool" where
  "stream_ok st \<longleftrightarrow> parser_ok (bs_parser st) \<and> ps_error (bs_parser st) = kWebSocketNormalClosure \<and>
     stream_follows (in_progress_frame (bs_parser st)) st"

lemma convert_keeps_parser: "convert_chunks cs st = Some (r, fs, st') \<Longrightarrow> bs_parser st' = bs_parser st"
proof -
  assume "convert_chunks cs st = Some (r, fs, st')"
  then have "convert_chunks cs (st\<lparr>bs_parser := bs_parser st\<rparr>) = Some (r, fs, st'\<lparr>bs_parser := bs_parser st\<rparr>)" by (simp only: convert_parser) simp
  with \<open>convert_chunks cs st = Some (r, fs, st')\<close> have "st' = st'\<lparr>bs_parser := bs_parser st\<rparr>" by simp
  then show ?thesis by (metis basic_stream.select_convs(1) basic_stream.surjective basic_stream.update_convs(1))
qed

lemma WebSocketErrorToNetError_negative:
  "e \<noteq> kWebSocketNormalClosure \<Longrightarrow> WebSocketErrorToNetError e < 0 \<and> WebSocketErrorToNetError e \<noteq> ERR_IO_PENDING"
  by (simp add: WebSocketErrorToNetError_def net_errors)

lemma HandleReadResult_ok:
  assumes "stream_ok st" "result \<noteq> ERR_IO_PENDING"
  shows "\<exists>r fs st'. HandleReadResult result buf st = Some (r, fs, st') \<and> (\<forall>f \<in> set fs. frame_promise f) \<and>
    (r = net_OK \<and> fs \<noteq> [] \<and> stream_ok st' \<or> r = ERR_IO_PENDING \<and> stream_ok st' \<or> r < 0 \<and> r \<noteq> ERR_IO_PENDING)"
proof (cases "result > 0")
  case True
  let ?p = "bs_parser st" and ?data = "take (nat result) buf"
  have ok: "parser_ok ?p" "ps_error ?p = kWebSocketNormalClosure" "stream_follows (in_progress_frame ?p) st" using assms(1) by (simp_all add: stream_ok_def)
  obtain good cs p' where d: "Decode ?data ?p = Some (good, cs, p')" "parser_ok p'" "chunk_run (in_progress_frame ?p) cs (in_progress_frame p')"
    "ps_error p' = kWebSocketNormalClosure \<longleftrightarrow> good" using Decode_ok [OF ok(1,2)] by blast
  let ?st = "st\<lparr>bs_parser := p'\<rparr>"
  have follows: "stream_follows cur (s\<lparr>bs_parser := q\<rparr>) = stream_follows cur s" for cur s q
    by (simp add: stream_follows_def between_frames_def split: option.splits)
  show ?thesis
  proof (cases good)
    case False
    then show ?thesis using True d(1,4) assms(2) WebSocketErrorToNetError_negative by (auto simp: HandleReadResult_def)
  next
    case good: True
    obtain r fs st' where c: "convert_chunks cs ?st = Some (r, fs, st')" "\<forall>f \<in> set fs. frame_promise f"
      "r = net_OK \<and> stream_follows (in_progress_frame p') st' \<or> r = net_ERR_WS_PROTOCOL_ERROR"
      using convert_run [OF d(3), of ?st] ok(3) follows by blast
    have "bs_parser st' = p'" using convert_keeps_parser [OF c(1)] by simp
    then have "r = net_OK \<Longrightarrow> stream_ok st'" using c(3) d(2,4) good by (auto simp: stream_ok_def net_errors)
    moreover have "cs = [] \<Longrightarrow> st' = ?st \<and> fs = [] \<and> r = net_OK" using c(1) by auto
    moreover have "HandleReadResult result buf st = Some (if cs = [] \<or> r = net_OK \<and> fs = [] then ERR_IO_PENDING else r, fs, st')"
      using True d(1) good assms(2) c(1) by (cases cs) (auto simp: HandleReadResult_def ConvertChunksToFrames_def Let_def net_errors)
    ultimately show ?thesis using c(2,3) by (auto simp: net_errors)
  qed
next
  case False
  then show ?thesis using assms by (auto simp: HandleReadResult_def net_errors)
qed

text \<open>Reads until one fails, with what each hands to the channel; \<open>None\<close> if a check breaks.\<close>

fun stream_reads :: "(int \<times> bytes) list \<Rightarrow> basic_stream \<Rightarrow> (int \<times> ws_frame list) list option" where
  "stream_reads [] st = Some []"
| "stream_reads ((result, buf) # rs) st =
     (case HandleReadResult result buf st of
        None \<Rightarrow> None
      | Some (r, fs, st1) \<Rightarrow>
          if r = ERR_IO_PENDING then stream_reads rs st1
          else if r = net_OK then map_option (Cons (r, fs)) (stream_reads rs st1)
          else Some [(r, fs)])"

lemma stream_reads_ok:
  "stream_ok st \<Longrightarrow> \<forall>x \<in> set reads. fst x \<noteq> ERR_IO_PENDING \<Longrightarrow>
   \<exists>outs. stream_reads reads st = Some outs \<and> (\<forall>x \<in> set outs. wch_permits (WcRead (fst x) (snd x)) s)"
proof (induction reads arbitrary: st)
  case (Cons a reads)
  obtain result buf where a: "a = (result, buf)" by fastforce
  obtain r fs st' where h: "HandleReadResult result buf st = Some (r, fs, st')" "\<forall>f \<in> set fs. frame_promise f"
    "r = net_OK \<and> fs \<noteq> [] \<and> stream_ok st' \<or> r = ERR_IO_PENDING \<and> stream_ok st' \<or> r < 0 \<and> r \<noteq> ERR_IO_PENDING"
    using HandleReadResult_ok [OF Cons.prems(1), of result buf] Cons.prems(2) a by auto
  have permits: "r \<noteq> ERR_IO_PENDING \<Longrightarrow> wch_permits (WcRead r fs) s" using h(2,3) by (auto simp: frame_promise_def net_errors)
  from h(3) show ?case
  proof (elim disjE conjE)
    assume ok: "r = net_OK" "stream_ok st'"
    with Cons.IH [of st'] Cons.prems(2) obtain outs where "stream_reads reads st' = Some outs" "\<forall>x \<in> set outs. wch_permits (WcRead (fst x) (snd x)) s" by auto
    moreover have "r \<noteq> ERR_IO_PENDING" using ok(1) by (simp add: net_errors)
    ultimately show ?thesis using a h(1) ok(1) permits by simp
  next
    assume "r = ERR_IO_PENDING" "stream_ok st'"
    with Cons.IH [of st'] Cons.prems(2) a h(1) show ?thesis by simp
  next
    assume "r < 0" "r \<noteq> ERR_IO_PENDING"
    with a h(1) permits show ?thesis by (simp add: net_errors)
  qed
qed simp

lemma WriteEverything_result: "WriteEverything Write buffer st = Some (r, st') \<Longrightarrow> r \<le> net_OK"
proof (induction Write buffer st rule: WriteEverything.induct)
  case (1 Write buffer st)
  show ?case
  proof (cases "buffer = [] \<or> Write (bs_writes st) buffer \<le> 0")
    case True
    then show ?thesis using "1.prems" by (subst (asm) WriteEverything.simps) (auto simp: Let_def net_errors split: if_splits)
  next
    case False
    then have le: "\<not> Write (bs_writes st) buffer > int (length buffer)" using "1.prems" by (subst (asm) WriteEverything.simps) (auto simp: Let_def)
    from "1.IH" [OF _ refl refl _ this] "1.prems" False le show ?thesis by (subst (asm) (2) WriteEverything.simps) (auto simp: Let_def)
  qed
qed

lemma WriteEverything_returns:
  "\<forall>n bs. Write n bs \<le> int (length bs) \<Longrightarrow> \<exists>r st'. WriteEverything Write buffer st = Some (r, st')"
proof (induction Write buffer st rule: WriteEverything.induct)
  case (1 Write buffer st)
  let ?r = "Write (bs_writes st) buffer"
  have le: "\<not> ?r > int (length buffer)" using "1.prems" by (simp add: not_less)
  show ?case
  proof (cases "buffer = [] \<or> ?r \<le> 0")
    case True
    then show ?thesis by (subst WriteEverything.simps) (auto simp: Let_def)
  next
    case False
    with "1.IH" [OF _ refl refl _ le "1.prems"] le show ?thesis by (subst WriteEverything.simps) (simp add: Let_def)
  qed
qed

text \<open>The bytes of frames on the wire; \<open>CalculateSerializedSize\<close> checks that they are not too many for an \<open>int\<close>.\<close>

definition serialized_frames :: "ws_frame list \<Rightarrow> bytes" where
  "serialized_frames fs = concat (map (\<lambda>f. wire_bytes (f, None)) fs)"

lemma calculate_size_None:
  "t \<le> 2 ^ 31 - 1 \<Longrightarrow> calculate_size t fs = None \<longleftrightarrow> 2 ^ 31 - 1 < t + int (length (serialized_frames fs))"
proof (induction fs arbitrary: t)
  case (Cons f fs)
  let ?n = "wh_payload_length (frame_header f) + GetWebSocketFrameHeaderSize (frame_header f)"
  have n: "int (length (serialized_frames (f # fs))) = ?n + int (length (serialized_frames fs))"
    using header_bytes_length [of f] by (simp add: serialized_frames_def plain_wire_bytes frame_header_def)
  show ?case
  proof (cases "?n > 2 ^ 31 - 1 - t")
    case True
    then show ?thesis using n by (simp add: Let_def)
  next
    case False
    with Cons.IH [of "t + ?n"] n show ?thesis by (simp add: Let_def add.assoc)
  qed
qed (simp add: serialized_frames_def)

lemma Stream_WriteFrames_fitting:
  assumes "\<forall>f \<in> set fs. sendable_frame f" "int (length (serialized_frames fs)) \<le> 2 ^ 31 - 1"
  shows "Stream_WriteFrames Write fs st = WriteEverything Write (serialized_frames fs) st"
proof -
  obtain n where n: "calculate_size 0 fs = Some n" using calculate_size_None [of 0 fs] assms(2) by (cases "calculate_size 0 fs") auto
  then have "n = int (length (serialized_frames fs))" using calculated_size [OF n] by (simp add: serialized_frames_def)
  then have "combine_frames n fs = Some (serialized_frames fs)" using combined_frames [OF assms(1)] by (simp add: serialized_frames_def)
  with n show ?thesis by (simp add: Stream_WriteFrames_def CalculateSerializedSize_def)
qed

lemma Stream_WriteFrames_None:
  assumes "\<forall>f \<in> set fs. sendable_frame f" "\<forall>n bs. Write n bs \<le> int (length bs)"
  shows "Stream_WriteFrames Write fs st = None \<longleftrightarrow> 2 ^ 31 - 1 < int (length (serialized_frames fs))"
proof (cases "2 ^ 31 - 1 < int (length (serialized_frames fs))")
  case True
  with calculate_size_None [of 0 fs] show ?thesis by (simp add: Stream_WriteFrames_def CalculateSerializedSize_def)
next
  case False
  with Stream_WriteFrames_fitting [OF assms(1), of Write st] WriteEverything_returns [OF assms(2), of "serialized_frames fs" st]
  show ?thesis by auto
qed

text \<open>
  The stream under a channel: what its writes answer as long as the frames are not too long, given the answers of a
  socket that takes no more than it is offered.
\<close>

definition clipped_socket :: "(nat \<Rightarrow> bytes \<Rightarrow> int) \<Rightarrow> nat \<Rightarrow> bytes \<Rightarrow> int" where
  "clipped_socket answers n bs = min (answers n bs) (int (length bs))"

definition stream_result :: "(nat \<Rightarrow> nat \<Rightarrow> bytes \<Rightarrow> int) \<Rightarrow> nat \<Rightarrow> ws_frame list \<Rightarrow> int" where
  "stream_result answers n fs =
     fst (the (WriteEverything (clipped_socket (answers n)) (serialized_frames fs) new_WebSocketBasicStream))"

lemma clipped_socket_returns: "\<exists>r st'. WriteEverything (clipped_socket f) buffer st = Some (r, st')"
  by (rule WriteEverything_returns) (simp add: clipped_socket_def)

lemma stream_result_WriteFrames:
  assumes "\<forall>f \<in> set fs. sendable_frame f" "int (length (serialized_frames fs)) \<le> 2 ^ 31 - 1"
  shows "map_option fst (Stream_WriteFrames (clipped_socket (answers n)) fs new_WebSocketBasicStream) = Some (stream_result answers n fs)"
  using Stream_WriteFrames_fitting [OF assms] clipped_socket_returns [of "answers n" "serialized_frames fs"]
  by (fastforce simp: stream_result_def)

interpretation basic: frame_stream "stream_result answers"
  for answers
proof
  show "stream_result answers n fs \<le> net_OK" for n fs
    using clipped_socket_returns [of "answers n" "serialized_frames fs" new_WebSocketBasicStream] WriteEverything_result
    by (fastforce simp: stream_result_def)
qed

text \<open>
  C10.  No input breaks a check of the parser, of the reads of the stream or of the channel on top: whatever bytes arrive,
  and whatever errors the socket reports, the parser and the reads return, and their results, which end with the first
  error, are such that the channel can take them in every state that it can be in, if the writes of the stream, whose
  answers are arbitrary, return.  A write of frames that may be sent, to a socket that takes no more than it is offered, breaks a check
  exactly when the frames together are longer than \<open>INT_MAX\<close> bytes.
\<close>

theorem web_socket_input_defined:
  assumes "\<forall>x \<in> set reads. fst x \<noteq> ERR_IO_PENDING" "\<forall>n fs. Write n fs \<le> net_OK"
  shows "(\<exists>outs. stream_reads reads new_WebSocketBasicStream = Some outs \<and>
      (\<forall>x \<in> set outs. \<forall>s. reachable (\<lambda>s. s = new_WebSocketChannel) (wch_step Write) s \<longrightarrow>
         wch_exec Write (WcRead (fst x) (snd x)) s \<noteq> None)) \<and>
    (\<forall>fs Socket st. (\<forall>f \<in> set fs. sendable_frame f) \<and> (\<forall>n bs. Socket n bs \<le> int (length bs)) \<longrightarrow>
      (Stream_WriteFrames Socket fs st = None \<longleftrightarrow> 2 ^ 31 - 1 < int (length (serialized_frames fs))))"
proof -
  have stream: "frame_stream Write" using assms(2) by (simp add: frame_stream_def)
  have "stream_ok new_WebSocketBasicStream"
    by (simp add: stream_ok_def new_WebSocketBasicStream_def new_WebSocketFrameParser_def parser_ok_def stream_follows_def in_progress_frame_def between_frames_def)
  then obtain outs where outs: "stream_reads reads new_WebSocketBasicStream = Some outs" "\<forall>x \<in> set outs. wch_permits (WcRead (fst x) (snd x)) new_WebSocketChannel"
    using stream_reads_ok [OF _ assms(1)] by blast
  have "wch_exec Write (WcRead r fs) s \<noteq> None"
    if "wch_permits (WcRead r fs) new_WebSocketChannel" "reachable (\<lambda>s. s = new_WebSocketChannel) (wch_step Write) s" for r fs s
  proof -
    have "wch_permits (WcRead r fs) s" "\<not> wch_breaks (WcRead r fs) s" using that(1) by (auto simp: wch_breaks_def)
    with frame_stream.wch_exec_ok [OF stream frame_stream.channel_ok [OF stream that(2)]] show ?thesis by blast
  qed
  with outs Stream_WriteFrames_None show ?thesis by blast
qed

theorem web_socket_input_defined_witness:
  "(\<exists>outs. stream_reads [(2, [0x8F, 0x7F]), (8, [0, 0, 0, 0, 0, 0, 0, 0])] new_WebSocketBasicStream = Some outs) \<and>
   Stream_WriteFrames (\<lambda>n bs. int (length bs)) ws_wire_demo new_WebSocketBasicStream \<noteq> None"
proof -
  have "\<forall>f \<in> set ws_wire_demo. sendable_frame f" "length (serialized_frames ws_wire_demo) = 11" by code_simp+
  with web_socket_input_defined [of "[(2, [0x8F, 0x7F]), (8, [0, 0, 0, 0, 0, 0, 0, 0])]" "stream_result (\<lambda>_ _ _. 0)"] basic.write_result
  show ?thesis by (auto simp: net_errors)
qed

end
