(* ===== verification/Felicia_File.thy ===== *)
theory Felicia_File
  imports Felicia_Status "HOL-Library.Monad_Syntax"
begin

text \<open>
  \<open>core/lib/file\<close>: the buffered writer and reader of lines and the CSV writer and reader on top of them.
  Reads of an open file do not fail; whether a write succeeds is a parameter, given what is in the file
  and what is written.  \<open>None\<close> is undefined behaviour, a failed \<open>CHECK\<close>, or a loop that does not end.
\<close>

abbreviation LF :: char where "LF \<equiv> CHR 0x0A"
abbreviation CR :: char where "CR \<equiv> CHR 0x0D"

section \<open>The writer\<close>

type_synonym disk = "string \<Rightarrow> string \<Rightarrow> bool"

record buffered_writer =
  wr_newline_cr_lf :: bool
  wr_IsValid :: bool
  wr_file :: string
  wr_has_buffer :: bool
  wr_buffer :: string
  wr_buffer_capacity :: nat

definition kDefaultBufferCapacity :: nat where
  "kDefaultBufferCapacity = 256"

definition new_BufferedWriter :: "bool \<Rightarrow> buffered_writer" where
  "new_BufferedWriter cr_lf = \<lparr>wr_newline_cr_lf = cr_lf, wr_IsValid = False, wr_file = [], wr_has_buffer = False, wr_buffer = [],
     wr_buffer_capacity = kDefaultBufferCapacity\<rparr>"

definition wr_capacity :: "buffered_writer \<Rightarrow> nat" where
  "wr_capacity w = wr_buffer_capacity w - length (wr_buffer w)"

definition Flush :: "disk \<Rightarrow> buffered_writer \<Rightarrow> int \<times> buffered_writer" where
  "Flush disk w =
     (if wr_IsValid w \<and> disk (wr_file w) (wr_buffer w)
      then (int (length (wr_buffer w)), w\<lparr>wr_file := wr_file w @ wr_buffer w, wr_buffer := []\<rparr>)
      else (-1, w))"

definition Writer_Close :: "disk \<Rightarrow> buffered_writer \<Rightarrow> buffered_writer" where
  "Writer_Close disk w = (snd (Flush disk w))\<lparr>wr_IsValid := False\<rparr>"

text \<open>
  Opening makes a new buffer, but does not forget how much of the old one was not flushed: what is
  in the new one then is indeterminate.
\<close>

definition Writer_Open :: "disk \<Rightarrow> bool \<Rightarrow> buffered_writer \<Rightarrow> (status \<times> buffered_writer) option" where
  "Writer_Open disk opens w =
     (let w1 = Writer_Close disk w in
      if \<not> opens then Some (InvalidArgument [], w1)
      else if wr_buffer w1 \<noteq> [] then None
      else Some (Status_OK, w1\<lparr>wr_IsValid := True, wr_file := [], wr_has_buffer := True\<rparr>))"

definition Writer_SetBufferCapacityForTesting :: "nat \<Rightarrow> buffered_writer \<Rightarrow> buffered_writer" where
  "Writer_SetBufferCapacityForTesting n w = w\<lparr>wr_buffer_capacity := n, wr_has_buffer := True\<rparr>"

definition AppendToBuffer :: "string \<Rightarrow> buffered_writer \<Rightarrow> buffered_writer option" where
  "AppendToBuffer data w =
     (if length data \<le> wr_capacity w \<and> (wr_has_buffer w \<or> data = []) then Some (w\<lparr>wr_buffer := wr_buffer w @ data\<rparr>) else None)"

definition AppendToBufferOrFlush :: "disk \<Rightarrow> string \<Rightarrow> buffered_writer \<Rightarrow> (int \<times> buffered_writer) option" where
  "AppendToBufferOrFlush disk data w =
     do {
       let n = min (length data) (wr_capacity w);
       w1 \<leftarrow> AppendToBuffer (take n data) w;
       if wr_capacity w1 = 0
       then (case Flush disk w1 of (result2, w2) \<Rightarrow> Some (if result2 < 0 then result2 else int n, w2))
       else Some (int n, w1)
     }"

partial_function (option) write_loop :: "disk \<Rightarrow> string \<Rightarrow> buffered_writer \<Rightarrow> (bool \<times> buffered_writer) option" where
  "write_loop disk data w =
     (if data = [] then Some (True, w)
      else Option.bind (AppendToBufferOrFlush disk data w)
        (\<lambda>r. if fst r < 0 then Some (False, snd r) else write_loop disk (drop (nat (fst r)) data) (snd r)))"

declare write_loop.simps [code]

text \<open>The end of the line is appended once; how much of it was taken is not looked at.\<close>

definition WriteLine :: "disk \<Rightarrow> string \<Rightarrow> buffered_writer \<Rightarrow> (bool \<times> buffered_writer) option" where
  "WriteLine disk line w =
     do {
       (ok, w1) \<leftarrow> write_loop disk line w;
       if \<not> ok then Some (False, w1)
       else do {
         (result, w2) \<leftarrow> AppendToBufferOrFlush disk (if wr_newline_cr_lf w1 then [CR, LF] else [LF]) w1;
         Some (0 \<le> result, w2)
       }
     }"

section \<open>The reader\<close>

record buffered_reader =
  rd_remove_cr_or_lf :: bool
  rd_rest :: string
  rd_buffer :: string
  rd_read :: nat
  rd_buffer_capacity :: nat

text \<open>What of the file is not in the buffer yet is in \<open>rd_rest\<close>.\<close>

definition ReadInAdvance :: "buffered_reader \<Rightarrow> buffered_reader" where
  "ReadInAdvance r = r\<lparr>rd_read := 0, rd_buffer := take (rd_buffer_capacity r) (rd_rest r),
     rd_rest := drop (rd_buffer_capacity r) (rd_rest r)\<rparr>"

definition Reader_Open :: "bool \<Rightarrow> nat \<Rightarrow> string \<Rightarrow> buffered_reader" where
  "Reader_Open remove buffer_capacity content =
     ReadInAdvance \<lparr>rd_remove_cr_or_lf = remove, rd_rest = content, rd_buffer = [], rd_read = 0,
       rd_buffer_capacity = buffer_capacity\<rparr>"

definition eof :: "buffered_reader \<Rightarrow> bool" where
  "eof r \<longleftrightarrow> length (rd_buffer r) = rd_read r"

fun scan_line :: "string \<Rightarrow> nat \<Rightarrow> bool \<times> nat" where
  "scan_line [] read = (False, read)"
| "scan_line (c # cs) read = (if c = LF then (True, read + 1) else scan_line cs (read + 1))"

text \<open>The part of the line in the buffer, appended to what was read of it before; whether the line feed was met.\<close>

definition line_part :: "buffered_reader \<Rightarrow> string \<Rightarrow> bool \<times> string \<times> buffered_reader" where
  "line_part r line =
     (let begin = rd_read r;
          (met_linefeed, read) = scan_line (drop begin (rd_buffer r)) begin;
          len = read - begin;
          strip = met_linefeed \<and> rd_remove_cr_or_lf r;
          len' = (if strip then if len \<ge> 2 \<and> rd_buffer r ! (read - 2) = CR then len - 2 else len - 1 else len);
          line' = (if strip \<and> line \<noteq> [] \<and> last line = CR then butlast line else line) in
      (met_linefeed, line' @ take len' (drop begin (rd_buffer r)), r\<lparr>rd_read := read\<rparr>))"

function read_loop :: "buffered_reader \<Rightarrow> string \<Rightarrow> string \<times> buffered_reader" where
  "read_loop r line =
     (let (met_linefeed, line', r1) = line_part r line in
      if \<not> met_linefeed \<or> eof r1 then
        let r2 = ReadInAdvance r1 in
        if met_linefeed \<or> eof r2 then (line', r2) else read_loop r2 line'
      else (line', r1))"
  by pat_completeness auto
termination
  by (relation "measure (\<lambda>(r, line). length (rd_rest r))")
    (auto simp: line_part_def eof_def ReadInAdvance_def Let_def split: prod.splits)

declare read_loop.simps [simp del]

definition ReadLine :: "buffered_reader \<Rightarrow> (string \<times> buffered_reader) option" where
  "ReadLine r = (if eof r then None else Some (read_loop r []))"

section \<open>CSV\<close>

definition JoinString :: "string list \<Rightarrow> string \<Rightarrow> string" where
  "JoinString parts separator = (case parts of [] \<Rightarrow> [] | p # ps \<Rightarrow> p @ concat (map (\<lambda>q. separator @ q) ps))"

text \<open>\<open>base::StringTokenizer\<close>: the delimiters are a set of characters, and empty tokens are skipped.\<close>

function tokens :: "string \<Rightarrow> string \<Rightarrow> string list" where
  "tokens delims s =
     (case dropWhile (\<lambda>c. c \<in> set delims) s of
        [] \<Rightarrow> []
      | t \<Rightarrow> takeWhile (\<lambda>c. c \<notin> set delims) t # tokens delims (dropWhile (\<lambda>c. c \<notin> set delims) t))"
  by pat_completeness auto
termination
proof (relation "measure (\<lambda>(delims, s). length s)", goal_cases)
  case (2 delims s c t)
  from 2 have "c \<notin> set delims" using hd_dropWhile [of "\<lambda>c. c \<in> set delims" s] by (metis list.distinct(1) list.sel(1))
  then have "length (dropWhile (\<lambda>c. c \<notin> set delims) (c # t)) \<le> length t" by (simp add: length_dropWhile_le)
  also have "length t < length s" using 2 length_dropWhile_le [of "\<lambda>c. c \<in> set delims" s] by (metis Suc_le_eq length_Cons)
  finally show ?case by simp
qed simp

declare tokens.simps [simp del]

definition WriteRows :: "disk \<Rightarrow> string \<Rightarrow> string list \<Rightarrow> buffered_writer \<Rightarrow> (bool \<times> buffered_writer) option" where
  "WriteRows disk delimiter rows w = WriteLine disk (JoinString rows delimiter) w"

text \<open>Reading rows reports success at the end of the file too, with no rows.\<close>

definition ReadRows :: "string \<Rightarrow> string list \<Rightarrow> buffered_reader \<Rightarrow> bool \<times> string list \<times> buffered_reader" where
  "ReadRows delimiter rows r =
     (if rows \<noteq> [] then (False, rows, r)
      else case ReadLine r of
        None \<Rightarrow> (True, tokens delimiter [], r)
      | Some (line, r') \<Rightarrow> (True, tokens delimiter line, r'))"

primrec skip_lines :: "nat \<Rightarrow> buffered_reader \<Rightarrow> buffered_reader" where
  "skip_lines 0 r = r"
| "skip_lines (Suc n) r = skip_lines n (case ReadLine r of None \<Rightarrow> r | Some (_, r') \<Rightarrow> r')"

definition CsvReader_Open :: "int \<Rightarrow> string \<Rightarrow> buffered_reader" where
  "CsvReader_Open skip_head content = skip_lines (nat skip_head) (Reader_Open True kDefaultBufferCapacity content)"

end
