(* ===== verification/Felicia_WebSocketServer.thy ===== *)
theory Felicia_WebSocketServer
  imports Felicia_Net Felicia_File
begin

text \<open>
  How a connection becomes a web socket: \<open>core/channel/socket/web_socket.cc\<close>, which reads the request and answers it,
  \<open>web_socket_extension.cc\<close> and \<open>permessage_deflate.cc\<close>, which agree on compression, and \<open>web_socket_server.cc\<close>, which
  accepts.  The hash of the key (SHA-1 in base 64), \<open>base::StringToInt\<close> and what a socket answers to writes are
  parameters.  \<open>None\<close> is undefined behaviour or a broken \<open>DCHECK\<close>.
\<close>

section \<open>Strings\<close>

definition CRLF :: string where "CRLF = [CR, LF]"

definition IsWhitespaceASCII :: "char \<Rightarrow> bool" where
  "IsWhitespaceASCII c \<longleftrightarrow> c \<in> {CHR 0x09, CHR 0x0A, CHR 0x0B, CHR 0x0C, CHR 0x0D, CHR '' ''}"

definition TrimWhitespaceASCII :: "string \<Rightarrow> string" where
  "TrimWhitespaceASCII s = rev (dropWhile IsWhitespaceASCII (rev (dropWhile IsWhitespaceASCII s)))"

definition lower_char :: "char \<Rightarrow> char" where
  "lower_char c = (let n = of_char c :: int in if 65 \<le> n \<and> n \<le> 90 then char_of (n + 32) else c)"

definition ToLowerASCII :: "string \<Rightarrow> string" where
  "ToLowerASCII s = map lower_char s"

definition EqualsCaseInsensitiveASCII :: "string \<Rightarrow> string \<Rightarrow> bool" where
  "EqualsCaseInsensitiveASCII a b \<longleftrightarrow> ToLowerASCII a = ToLowerASCII b"

fun dec_str :: "nat \<Rightarrow> string" where
  "dec_str n = (if n < 10 then [] else dec_str (n div 10)) @ [char_of (48 + n mod 10)]"

declare dec_str.simps [simp del]

section \<open>Extensions\<close>

record ws_settings =
  permessage_deflate_enabled :: bool
  server_max_window_bits :: u8

record permessage_deflate =
  pd_client_take_over :: bool
  pd_server_take_over :: bool
  pd_client_max_window_bits :: int
  pd_server_max_window_bits :: int

definition kMinWindowBits :: int where "kMinWindowBits = 8"
definition kMaxWindowBits :: int where "kMaxWindowBits = 15"
definition kPermessageDeflate :: string where "kPermessageDeflate = ''permessage-deflate''"

text \<open>The key and the value of a parameter, \<open>None\<close> when a quoted value does not end with a quote.\<close>

definition param_parts :: "string \<Rightarrow> (string \<times> string) option" where
  "param_parts param =
     (let key = takeWhile (\<lambda>c. c \<noteq> CHR ''='') param in
      if length key = length param then Some (TrimWhitespaceASCII key, [])
      else
        let value = TrimWhitespaceASCII (drop (length key + 1) param) in
        case ConsumePrefix value [CHR 0x22] of
          (False, v) \<Rightarrow> Some (TrimWhitespaceASCII key, v)
        | (True, v) \<Rightarrow>
            (case ConsumeSuffix v [CHR 0x22] of (True, w) \<Rightarrow> Some (TrimWhitespaceASCII key, w) | (False, w) \<Rightarrow> None))"

text \<open>\<open>VALIDATE_IF_HAVE_VALUE\<close>: the value stored, \<open>None\<close> when the parameter is refused.\<close>

definition validated :: "(string \<Rightarrow> int option) \<Rightarrow> string \<Rightarrow> int \<Rightarrow> int option" where
  "validated StringToInt value old =
     (if value = [] then Some old
      else case StringToInt value of
        None \<Rightarrow> None
      | Some n \<Rightarrow> if n < kMinWindowBits \<or> n > kMaxWindowBits then None else Some n)"

definition negotiate_param :: "(string \<Rightarrow> int option) \<Rightarrow> string \<Rightarrow> permessage_deflate \<Rightarrow> permessage_deflate option" where
  "negotiate_param StringToInt param pd =
     (case param_parts param of
        None \<Rightarrow> None
      | Some (key, value) \<Rightarrow>
          if key = ''client_no_context_takeover'' then if value \<noteq> [] then None else Some pd
          else if key = ''server_no_context_takeover'' then if value \<noteq> [] then None else Some pd
          else if key = ''client_max_window_bits''
          then map_option (\<lambda>n. pd\<lparr>pd_client_max_window_bits := n\<rparr>) (validated StringToInt value (pd_client_max_window_bits pd))
          else if key = ''server_max_window_bits'' then map_option (\<lambda>n. pd) (validated StringToInt value 0)
          else None)"

fun negotiate_params :: "(string \<Rightarrow> int option) \<Rightarrow> string list \<Rightarrow> permessage_deflate \<Rightarrow> permessage_deflate option" where
  "negotiate_params StringToInt [] pd = Some pd"
| "negotiate_params StringToInt (param # params) pd =
     Option.bind (negotiate_param StringToInt param pd) (negotiate_params StringToInt params)"

definition AppendResponse :: "permessage_deflate \<Rightarrow> string" where
  "AppendResponse pd = kPermessageDeflate @
     (if pd_client_take_over pd then [] else ''; client_no_context_takeover'') @
     (if pd_server_take_over pd then [] else ''; server_no_context_takeover'') @
     ''; server_max_window_bits='' @ dec_str (nat (pd_server_max_window_bits pd))"

definition PermessageDeflate_Negotiate ::
    "(string \<Rightarrow> int option) \<Rightarrow> string list \<Rightarrow> ws_settings \<Rightarrow> permessage_deflate option" where
  "PermessageDeflate_Negotiate StringToInt params settings =
     negotiate_params StringToInt params
       \<lparr>pd_client_take_over = False, pd_server_take_over = False, pd_client_max_window_bits = kMaxWindowBits,
        pd_server_max_window_bits = uint (server_max_window_bits settings)\<rparr>"

text \<open>The extension agreed on with the response for it, \<open>None\<close> when it returns false.\<close>

fun negotiate_extensions :: "(string \<Rightarrow> int option) \<Rightarrow> ws_settings \<Rightarrow> string list \<Rightarrow> (permessage_deflate \<times> string) option" where
  "negotiate_extensions StringToInt settings [] = None"
| "negotiate_extensions StringToInt settings (ext # exts) =
     (case tokens '';'' ext of
        [] \<Rightarrow> None
      | key # params \<Rightarrow>
          if TrimWhitespaceASCII key \<noteq> kPermessageDeflate then None
          else case PermessageDeflate_Negotiate StringToInt params settings of
            Some pd \<Rightarrow> Some (pd, AppendResponse pd)
          | None \<Rightarrow> negotiate_extensions StringToInt settings exts)"

definition WebSocketExtension_Negotiate ::
    "(string \<Rightarrow> int option) \<Rightarrow> string \<Rightarrow> ws_settings \<Rightarrow> (permessage_deflate \<times> string) option" where
  "WebSocketExtension_Negotiate StringToInt extensions settings = negotiate_extensions StringToInt settings (tokens '','' extensions)"

section \<open>The request\<close>

type_synonym request_headers = "(string, string) flat_map"

definition parse_header_line :: "request_headers \<Rightarrow> string \<Rightarrow> request_headers" where
  "parse_header_line headers line =
     (let key = takeWhile (\<lambda>c. c \<noteq> CHR '':'') line in
      if length key = length line then headers
      else fm_insert_or_assign (ToLowerASCII (TrimWhitespaceASCII key)) (TrimWhitespaceASCII (drop (length key + 1) line)) headers)"

text \<open>The result and \<open>headers_\<close>.  The version is a string that ends at the end of the line, where it may not start behind it.\<close>

definition Handshake_Parse :: "string \<Rightarrow> request_headers \<Rightarrow> (bool \<times> request_headers) option" where
  "Handshake_Parse header headers =
     (let first_status_line = length (takeWhile (\<lambda>c. c \<notin> set CRLF) header) in
      if first_status_line = length header then Some (False, headers)
      else
        let end_method = length (takeWhile (\<lambda>c. c \<noteq> CHR '' '') header) in
        if end_method = length header then Some (False, headers)
        else if \<not> EqualsCaseInsensitiveASCII (take end_method header) ''GET'' then Some (False, headers)
        else
          let end_uri = end_method + 1 + length (takeWhile (\<lambda>c. c \<noteq> CHR '' '') (drop (end_method + 1) header)) in
          if end_uri = length header then Some (False, headers)
          else if end_uri + 1 > first_status_line then None
          else if \<not> EqualsCaseInsensitiveASCII (take (first_status_line - (end_uri + 1)) (drop (end_uri + 1) header)) ''HTTP/1.1''
          then Some (False, headers)
          else Some (True, foldl parse_header_line [] (tokens CRLF (drop (first_status_line + 1) header))))"

text \<open>\<open>headers_[key]\<close>, which is empty when the key is not there.\<close>

definition header_value :: "request_headers \<Rightarrow> string \<Rightarrow> string" where
  "header_value headers key = (case fm_find headers key of None \<Rightarrow> [] | Some v \<Rightarrow> v)"

definition Handshake_Validate :: "request_headers \<Rightarrow> bool" where
  "Handshake_Validate headers \<longleftrightarrow>
     (\<exists>t \<in> set (tokens '','' (header_value headers ''connection'')). EqualsCaseInsensitiveASCII (TrimWhitespaceASCII t) ''upgrade'') \<and>
     EqualsCaseInsensitiveASCII (header_value headers ''upgrade'') ''websocket'' \<and>
     EqualsCaseInsensitiveASCII (header_value headers ''sec-websocket-version'') ''13'' \<and>
     header_value headers ''sec-websocket-key'' \<noteq> []"

section \<open>The answer\<close>

datatype http_status = HTTP_SWITCHING_PROTOCOLS | HTTP_BAD_REQUEST | HTTP_REQUEST_TIMEOUT | HTTP_INTERNAL_SERVER_ERROR

fun http_code :: "http_status \<Rightarrow> nat" where
  "http_code HTTP_SWITCHING_PROTOCOLS = 101"
| "http_code HTTP_BAD_REQUEST = 400"
| "http_code HTTP_REQUEST_TIMEOUT = 408"
| "http_code HTTP_INTERNAL_SERVER_ERROR = 500"

fun GetHttpReasonPhrase :: "http_status \<Rightarrow> string" where
  "GetHttpReasonPhrase HTTP_SWITCHING_PROTOCOLS = ''Switching Protocols''"
| "GetHttpReasonPhrase HTTP_BAD_REQUEST = ''Bad Request''"
| "GetHttpReasonPhrase HTTP_REQUEST_TIMEOUT = ''Request Timeout''"
| "GetHttpReasonPhrase HTTP_INTERNAL_SERVER_ERROR = ''Internal Server Error''"

definition kHandshakeGuid :: string where "kHandshakeGuid = ''258EAFA5-E914-47DA-95CA-C5AB0DC85B11''"

definition ok_response :: "string \<Rightarrow> string \<Rightarrow> string" where
  "ok_response key extension =
     ''HTTP/1.1 '' @ dec_str (http_code HTTP_SWITCHING_PROTOCOLS) @ '' '' @ GetHttpReasonPhrase HTTP_SWITCHING_PROTOCOLS @ CRLF @
     ''Connection: Upgrade'' @ CRLF @ ''Upgrade: websocket'' @ CRLF @ ''Sec-WebSocket-Accept: '' @ key @ CRLF @
     (if extension = [] then [] else ''Sec-WebSocket-Extensions: '' @ extension @ CRLF) @ CRLF"

definition error_response :: "http_status \<Rightarrow> string" where
  "error_response code =
     ''HTTP/1.1 '' @ dec_str (http_code code) @ '' '' @ GetHttpReasonPhrase code @ CRLF @ ''Connection: close'' @ CRLF @
     ''Content-Type: text/plain'' @ CRLF @ ''Content-Length: '' @ dec_str (length (GetHttpReasonPhrase code)) @ CRLF @ CRLF @ GetHttpReasonPhrase code"

definition error_status :: "http_status \<Rightarrow> status" where
  "error_status code =
     (if code = HTTP_BAD_REQUEST then make_error INVALID_ARGUMENT (GetHttpReasonPhrase code)
      else if code = HTTP_REQUEST_TIMEOUT then make_error RESOURCE_EXHAUSTED (GetHttpReasonPhrase code)
      else make_error UNKNOWN (GetHttpReasonPhrase code))"

section \<open>The server\<close>

text \<open>
  The server with its one handler.  \<open>wss_waiting\<close>: an accept is pending; \<open>wss_socket\<close>: the handler has a connection, of which a
  read or a write may be pending, and \<open>wss_timeout\<close>: its timer runs.  The other fields record the calls of \<open>Write\<close>, the bytes
  written, how many connections were accepted and accepts failed, and what the accept callback was told.
\<close>

record ws_server =
  wss_settings :: ws_settings
  wss_waiting :: bool
  wss_socket :: bool
  wss_reading :: bool
  wss_writing :: bool
  wss_timeout :: bool
  wss_buffer :: string
  wss_status :: status
  wss_headers :: request_headers
  wss_accepted :: "permessage_deflate list"
  wss_channels :: "permessage_deflate option list"
  wss_writes :: nat
  wss_wire :: string
  wss_connections :: nat
  wss_failed :: nat
  wss_told :: "status list"

definition new_WebSocketServer :: "ws_settings \<Rightarrow> ws_server" where
  "new_WebSocketServer settings = \<lparr>wss_settings = settings, wss_waiting = False, wss_socket = False, wss_reading = False, wss_writing = False,
     wss_timeout = False, wss_buffer = [], wss_status = Status_OK, wss_headers = [], wss_accepted = [], wss_channels = [], wss_writes = 0, wss_wire = [],
     wss_connections = 0, wss_failed = 0, wss_told = []\<rparr>"

definition DoAcceptOnce :: "ws_server \<Rightarrow> ws_server option" where
  "DoAcceptOnce s = (if wss_waiting s then None else Some (s\<lparr>wss_waiting := True\<rparr>))"

definition WebSocketServer_AcceptLoop :: "ws_server \<Rightarrow> ws_server option" where
  "WebSocketServer_AcceptLoop s = DoAcceptOnce s"

text \<open>
  A compressed stream is created for an agreed extension; \<open>WebSocketDeflater::Initialize\<close> and \<open>WebSocketInflater::Initialize\<close> check
  that its windows are of 8 to 15 bits.
\<close>

definition deflate_initializes :: "permessage_deflate \<Rightarrow> bool" where
  "deflate_initializes pd \<longleftrightarrow> 8 \<le> pd_server_max_window_bits pd \<and> pd_server_max_window_bits pd \<le> 15 \<and>
     8 \<le> pd_client_max_window_bits pd \<and> pd_client_max_window_bits pd \<le> 15"

definition OnHandshaked :: "status \<Rightarrow> ws_server \<Rightarrow> ws_server option" where
  "OnHandshaked st s =
     (if Status_ok st then
        if length (wss_accepted s) > 1 \<or> \<not> list_all deflate_initializes (wss_accepted s) then None
        else DoAcceptOnce (s\<lparr>wss_channels := wss_channels s @ [if wss_accepted s = [] then None else Some (hd (wss_accepted s))],
          wss_told := wss_told s @ [Status_OK]\<rparr>)
      else DoAcceptOnce (s\<lparr>wss_told := wss_told s @ [st]\<rparr>))"

text \<open>The socket is handed on or closed, and with it a read that is pending.\<close>

definition OnWriteResponse :: "ws_server \<Rightarrow> ws_server option" where
  "OnWriteResponse s = OnHandshaked (wss_status s) (s\<lparr>wss_socket := False, wss_reading := False, wss_writing := False\<rparr>)"

function write_response :: "(nat \<Rightarrow> string \<Rightarrow> int) \<Rightarrow> string \<Rightarrow> ws_server \<Rightarrow> ws_server option" where
  "write_response Write response s =
     (if response = [] then Some s
      else
        let rv = Write (wss_writes s) response; s1 = s\<lparr>wss_writes := wss_writes s + 1\<rparr> in
        if rv = ERR_IO_PENDING then Some (s1\<lparr>wss_writing := True\<rparr>)
        else if rv > int (length response) then None
        else if rv \<le> 0 then OnWriteResponse s1
        else
          let s2 = s1\<lparr>wss_wire := wss_wire s1 @ take (nat rv) response\<rparr>; rest = drop (nat rv) response in
          if rest = [] then OnWriteResponse s2 else write_response Write rest s2)"
  by auto
termination
  by (relation "measure (\<lambda>(Write, response, s). length response)") auto

declare write_response.simps [simp del]

text \<open>A socket takes one write at a time.\<close>

definition WriteResponse :: "(nat \<Rightarrow> string \<Rightarrow> int) \<Rightarrow> string \<Rightarrow> ws_server \<Rightarrow> ws_server option" where
  "WriteResponse Write response s = (if wss_writing s then None else write_response Write response s)"

definition SendOK :: "(nat \<Rightarrow> string \<Rightarrow> int) \<Rightarrow> string \<Rightarrow> string \<Rightarrow> ws_server \<Rightarrow> ws_server option" where
  "SendOK Write key extension s =
     WriteResponse Write (ok_response key extension) (s\<lparr>wss_timeout := False, wss_status := Status_OK\<rparr>)"

definition SendError :: "(nat \<Rightarrow> string \<Rightarrow> int) \<Rightarrow> http_status \<Rightarrow> ws_server \<Rightarrow> ws_server option" where
  "SendError Write code s = WriteResponse Write (error_response code) (s\<lparr>wss_timeout := False, wss_status := error_status code\<rparr>)"

definition OnReadHeader ::
    "(nat \<Rightarrow> string \<Rightarrow> int) \<Rightarrow> (string \<Rightarrow> string) \<Rightarrow> (string \<Rightarrow> int option) \<Rightarrow> int \<Rightarrow> string \<Rightarrow> ws_server \<Rightarrow> ws_server option" where
  "OnReadHeader Write hash StringToInt result data s0 =
     (if result \<ge> 0 then
        let s1 = s0\<lparr>wss_buffer := wss_buffer s0 @ take (nat result) data\<rparr> in
        case Handshake_Parse (wss_buffer s1) (wss_headers s1) of
          None \<Rightarrow> None
        | Some (ok, headers) \<Rightarrow>
            let s = s1\<lparr>wss_headers := headers\<rparr> in
            if \<not> (ok \<and> Handshake_Validate headers) then SendError Write HTTP_BAD_REQUEST s
            else
              let key = hash (header_value headers ''sec-websocket-key'' @ kHandshakeGuid);
                  extension = header_value headers ''sec-websocket-extensions'' in
              if permessage_deflate_enabled (wss_settings s) \<and> extension \<noteq> [] then
                case WebSocketExtension_Negotiate StringToInt extension (wss_settings s) of
                  Some (pd, response) \<Rightarrow> SendOK Write key response (s\<lparr>wss_accepted := wss_accepted s @ [pd]\<rparr>)
                | None \<Rightarrow> SendError Write HTTP_BAD_REQUEST s
              else SendOK Write key [] s
      else SendError Write HTTP_INTERNAL_SERVER_ERROR s0)"

text \<open>
  \<open>Handle\<close> and \<open>ReadHeader\<close>, with what the socket answers to the read.  Only one read is made, into an empty buffer of
  1000 bytes; a result at once is added to the offset before \<open>OnReadHeader\<close> is called with 0, whatever it is.
\<close>

definition Handle ::
    "(nat \<Rightarrow> string \<Rightarrow> int) \<Rightarrow> (string \<Rightarrow> string) \<Rightarrow> (string \<Rightarrow> int option) \<Rightarrow> int \<Rightarrow> string \<Rightarrow> ws_server \<Rightarrow> ws_server option" where
  "Handle Write hash StringToInt rv data s =
     (if wss_socket s then None
      else
        let s1 = s\<lparr>wss_timeout := True, wss_socket := True, wss_buffer := [], wss_accepted := []\<rparr> in
        if rv = ERR_IO_PENDING then Some (s1\<lparr>wss_reading := True\<rparr>)
        else OnReadHeader Write hash StringToInt 0 [] (s1\<lparr>wss_buffer := (if rv > 0 then take (nat rv) data else [])\<rparr>))"

definition WebSocketServer_OnAccept ::
    "(nat \<Rightarrow> string \<Rightarrow> int) \<Rightarrow> (string \<Rightarrow> string) \<Rightarrow> (string \<Rightarrow> int option) \<Rightarrow> status + (int \<times> string) \<Rightarrow> ws_server \<Rightarrow> ws_server option" where
  "WebSocketServer_OnAccept Write hash StringToInt r s0 =
     (let s = s0\<lparr>wss_waiting := False\<rparr> in
      case r of
        Inr (rv, data) \<Rightarrow> Handle Write hash StringToInt rv data (s\<lparr>wss_connections := wss_connections s + 1\<rparr>)
      | Inl err \<Rightarrow> DoAcceptOnce (s\<lparr>wss_failed := wss_failed s + 1, wss_told := wss_told s @ [err]\<rparr>))"

text \<open>
  Events: a connection, with what its socket answers to the first read, or a failed accept; the completion of a read or
  of a write; the timer.  The accept is taken to complete with an event of its own.
\<close>

datatype wss_event = WssAccept "status + (int \<times> string)" | WssRead int string | WssWritten int | WssTimer

fun wss_exec ::
    "(nat \<Rightarrow> string \<Rightarrow> int) \<Rightarrow> (string \<Rightarrow> string) \<Rightarrow> (string \<Rightarrow> int option) \<Rightarrow> wss_event \<Rightarrow> ws_server \<Rightarrow> ws_server option" where
  "wss_exec Write hash StringToInt (WssAccept r) s =
     (if wss_waiting s then WebSocketServer_OnAccept Write hash StringToInt r s else Some s)"
| "wss_exec Write hash StringToInt (WssRead result data) s =
     (if wss_reading s then OnReadHeader Write hash StringToInt result data (s\<lparr>wss_reading := False\<rparr>) else Some s)"
| "wss_exec Write hash StringToInt (WssWritten result) s = (if wss_writing s then OnWriteResponse s else Some s)"
| "wss_exec Write hash StringToInt WssTimer s = (if wss_timeout s then SendError Write HTTP_REQUEST_TIMEOUT s else Some s)"

inductive wss_step :: "(nat \<Rightarrow> string \<Rightarrow> int) \<Rightarrow> (string \<Rightarrow> string) \<Rightarrow> (string \<Rightarrow> int option) \<Rightarrow> ws_server \<Rightarrow> ws_server \<Rightarrow> bool"
  for Write hash StringToInt where
  "wss_exec Write hash StringToInt ev s = Some s' \<Longrightarrow> wss_step Write hash StringToInt s s'"

inductive_cases wss_stepE: "wss_step Write hash StringToInt s s'"

end
