(* ===== verification/Felicia_WebSocketServerProps.thy ===== *)
theory Felicia_WebSocketServerProps
  imports Felicia_WebSocketServer
begin

text \<open>
  A web socket server answers every connection once and then accepts the next, reads what a well-formed request says, and
  agrees only on windows that the compression allows.
\<close>

section \<open>The server\<close>

definition handshake_done :: "ws_server \<Rightarrow> ws_server" where
  "handshake_done s = s\<lparr>wss_socket := False, wss_reading := False, wss_writing := False,
     wss_channels := (if Status_ok (wss_status s) then wss_channels s @ [if wss_accepted s = [] then None else Some (hd (wss_accepted s))]
        else wss_channels s),
     wss_told := wss_told s @ [if Status_ok (wss_status s) then Status_OK else wss_status s], wss_waiting := True\<rparr>"

lemma OnWriteResponse_eq:
  "\<not> wss_waiting s \<Longrightarrow> length (wss_accepted s) \<le> 1 \<Longrightarrow> list_all deflate_initializes (wss_accepted s) \<Longrightarrow>
   OnWriteResponse s = Some (handshake_done s)"
  by (simp add: OnWriteResponse_def OnHandshaked_def DoAcceptOnce_def handshake_done_def)

lemma OnWriteResponse_cases:
  "\<not> wss_waiting s \<Longrightarrow> length (wss_accepted s) \<le> 1 \<Longrightarrow> OnWriteResponse s = Some (handshake_done s) \<or>
   OnWriteResponse s = None \<and> \<not> list_all deflate_initializes (wss_accepted s)"
  by (cases "list_all deflate_initializes (wss_accepted s)"; cases "Status_ok (wss_status s)")
    (simp_all add: OnWriteResponse_def OnHandshaked_def DoAcceptOnce_def handshake_done_def)

definition honest_socket :: "(nat \<Rightarrow> string \<Rightarrow> int) \<Rightarrow> bool" where
  "honest_socket Write \<longleftrightarrow> (\<forall>n bs. Write n bs \<le> int (length bs))"

lemma write_response_result:
  "honest_socket Write \<Longrightarrow> response \<noteq> [] \<Longrightarrow> \<not> wss_waiting s \<Longrightarrow> length (wss_accepted s) \<le> 1 \<Longrightarrow>
   (\<exists>n w. write_response Write response s = Some (s\<lparr>wss_writes := n, wss_wire := w, wss_writing := True\<rparr>) \<or>
     write_response Write response s = Some (handshake_done (s\<lparr>wss_writes := n, wss_wire := w\<rparr>))) \<or>
   write_response Write response s = None \<and> \<not> list_all deflate_initializes (wss_accepted s)"
proof (induction Write response s rule: write_response.induct)
  case (1 Write response s)
  let ?rv = "Write (wss_writes s) response" and ?s1 = "s\<lparr>wss_writes := wss_writes s + 1\<rparr>"
  have le: "\<not> ?rv > int (length response)" using "1.prems"(1) by (auto simp: honest_socket_def not_less)
  consider "?rv = ERR_IO_PENDING" | "?rv \<noteq> ERR_IO_PENDING" "?rv \<le> 0" | "?rv \<noteq> ERR_IO_PENDING" "?rv > 0" by linarith
  then show ?case
  proof cases
    case 1
    then have "write_response Write response s = Some (s\<lparr>wss_writes := wss_writes s + 1, wss_wire := wss_wire s, wss_writing := True\<rparr>)"
      using "1.prems"(2) by (subst write_response.simps) simp
    then show ?thesis by blast
  next
    case 2
    let ?t = "s\<lparr>wss_writes := wss_writes s + 1, wss_wire := wss_wire s\<rparr>"
    from 2 have eq: "write_response Write response s = OnWriteResponse ?t"
      using "1.prems"(2) le by (subst write_response.simps) (simp add: Let_def)
    have "OnWriteResponse ?t = Some (handshake_done ?t) \<or> OnWriteResponse ?t = None \<and> \<not> list_all deflate_initializes (wss_accepted s)"
      using OnWriteResponse_cases [of ?t] "1.prems"(3,4) by simp
    with eq show ?thesis by metis
  next
    case 3
    let ?s2 = "?s1\<lparr>wss_wire := wss_wire ?s1 @ take (nat ?rv) response\<rparr>" and ?rest = "drop (nat ?rv) response"
    have eq: "write_response Write response s = (if ?rest = [] then OnWriteResponse ?s2 else write_response Write ?rest ?s2)"
      using "1.prems"(2) le 3 by (subst write_response.simps) (simp add: Let_def)
    show ?thesis
    proof (cases "?rest = []")
      case True
      moreover have "OnWriteResponse ?s2 = Some (handshake_done ?s2) \<or> OnWriteResponse ?s2 = None \<and> \<not> list_all deflate_initializes (wss_accepted s)"
        using OnWriteResponse_cases [of ?s2] "1.prems"(3,4) by simp
      ultimately show ?thesis using eq by auto
    next
      case False
      then have "(\<exists>n w. write_response Write ?rest ?s2 = Some (?s2\<lparr>wss_writes := n, wss_wire := w, wss_writing := True\<rparr>) \<or>
          write_response Write ?rest ?s2 = Some (handshake_done (?s2\<lparr>wss_writes := n, wss_wire := w\<rparr>))) \<or>
          write_response Write ?rest ?s2 = None \<and> \<not> list_all deflate_initializes (wss_accepted s)"
        using "1.IH" [OF "1.prems"(2) refl refl 3(1) le _ refl refl False "1.prems"(1) False] 3(2) "1.prems"(3,4) by simp
      then show ?thesis using eq False by simp
    qed
  qed
qed

section \<open>Compression\<close>

definition window_fits :: "permessage_deflate \<Rightarrow> bool" where
  "window_fits pd \<longleftrightarrow> kMinWindowBits \<le> pd_client_max_window_bits pd \<and> pd_client_max_window_bits pd \<le> kMaxWindowBits"

lemma negotiate_param_fits:
  assumes "negotiate_param StringToInt param pd = Some pd'" "window_fits pd"
  shows "window_fits pd' \<and> pd' = pd\<lparr>pd_client_max_window_bits := pd_client_max_window_bits pd'\<rparr>"
proof (cases "param_parts param")
  case (Some kv)
  obtain key v where "kv = (key, v)" by (cases kv)
  then show ?thesis using assms Some
    by (auto simp: negotiate_param_def validated_def window_fits_def split: if_splits option.splits)
qed (use assms in \<open>simp add: negotiate_param_def\<close>)

lemma negotiate_params_fits:
  "negotiate_params StringToInt params pd = Some pd' \<Longrightarrow> window_fits pd \<Longrightarrow>
   window_fits pd' \<and> pd' = pd\<lparr>pd_client_max_window_bits := pd_client_max_window_bits pd'\<rparr>"
proof (induction params arbitrary: pd)
  case (Cons param params)
  from Cons.prems(1) obtain p where p: "negotiate_param StringToInt param pd = Some p" "negotiate_params StringToInt params p = Some pd'"
    by (auto simp: bind_eq_Some_conv)
  from negotiate_param_fits [OF p(1) Cons.prems(2)] have q: "window_fits p" "p = pd\<lparr>pd_client_max_window_bits := pd_client_max_window_bits p\<rparr>"
    by simp_all
  from Cons.IH [OF p(2) q(1)] have r: "window_fits pd'" "pd' = p\<lparr>pd_client_max_window_bits := pd_client_max_window_bits pd'\<rparr>" by simp_all
  have "pd' = pd\<lparr>pd_client_max_window_bits := pd_client_max_window_bits pd'\<rparr>"
    by (subst r(2), subst q(2)) simp
  with r(1) show ?case by blast
qed simp

lemma Negotiate_fits:
  assumes "PermessageDeflate_Negotiate StringToInt params settings = Some pd"
  shows "window_fits pd \<and> \<not> pd_client_take_over pd \<and> \<not> pd_server_take_over pd \<and>
    pd_server_max_window_bits pd = uint (server_max_window_bits settings)"
proof -
  let ?pd0 = "\<lparr>pd_client_take_over = False, pd_server_take_over = False, pd_client_max_window_bits = kMaxWindowBits,
        pd_server_max_window_bits = uint (server_max_window_bits settings)\<rparr>"
  have "window_fits ?pd0" by (simp add: window_fits_def kMinWindowBits_def kMaxWindowBits_def)
  from negotiate_params_fits [OF assms [unfolded PermessageDeflate_Negotiate_def] this]
  have *: "window_fits pd" "pd = ?pd0\<lparr>pd_client_max_window_bits := pd_client_max_window_bits pd\<rparr>" by simp_all
  show ?thesis using *(1) by (subst *(2), subst *(2), subst *(2)) simp
qed

lemma negotiate_extensions_fits:
  "negotiate_extensions StringToInt settings exts = Some (pd, response) \<Longrightarrow>
   window_fits pd \<and> \<not> pd_client_take_over pd \<and> \<not> pd_server_take_over pd \<and>
   pd_server_max_window_bits pd = uint (server_max_window_bits settings) \<and> response = AppendResponse pd"
  by (induction exts) (auto split: list.splits if_splits option.splits dest: Negotiate_fits)

section \<open>Where the server is\<close>

text \<open>
  The settings under which every window agreed on can be used: compression is off, or the window of the server is of 8 to
  15 bits.
\<close>

definition usable_settings :: "ws_settings \<Rightarrow> bool" where
  "usable_settings settings \<longleftrightarrow>
     (permessage_deflate_enabled settings \<longrightarrow> 8 \<le> uint (server_max_window_bits settings) \<and> uint (server_max_window_bits settings) \<le> 15)"

definition agreed :: "ws_server \<Rightarrow> bool" where
  "agreed s \<longleftrightarrow> list_all window_fits (wss_accepted s) \<and>
     (usable_settings (wss_settings s) \<longrightarrow> list_all deflate_initializes (wss_accepted s))"

lemma agreed_Nil: "wss_accepted s = [] \<Longrightarrow> agreed s"
  by (simp add: agreed_def)

text \<open>
  Between two events the server waits for a connection, for a request with the timer running, or for its answer to be
  written.
\<close>

definition wss_ok :: "ws_server \<Rightarrow> bool" where
  "wss_ok s \<longleftrightarrow> (if wss_waiting s then \<not> wss_socket s \<and> \<not> wss_reading s \<and> \<not> wss_writing s \<and> \<not> wss_timeout s
       else wss_socket s \<and> (if wss_writing s then \<not> wss_timeout s else wss_reading s \<and> wss_timeout s)) \<and>
     length (wss_accepted s) \<le> 1 \<and> (wss_reading s \<longrightarrow> wss_accepted s = [] \<and> wss_buffer s = []) \<and>
     wss_connections s + wss_failed s = length (wss_told s) + (if wss_socket s then 1 else 0) \<and>
     agreed s \<and> list_all (pred_option window_fits) (wss_channels s)"

text \<open>A connection that is about to be answered.\<close>

definition wss_ready :: "ws_server \<Rightarrow> bool" where
  "wss_ready s \<longleftrightarrow> \<not> wss_waiting s \<and> wss_socket s \<and> \<not> wss_writing s \<and> length (wss_accepted s) \<le> 1 \<and> (wss_reading s \<longrightarrow> wss_accepted s = [] \<and> wss_buffer s = []) \<and>
     wss_connections s + wss_failed s = length (wss_told s) + 1 \<and>
     agreed s \<and> list_all (pred_option window_fits) (wss_channels s)"

text \<open>
  The outcome of an operation: the invariant with the settings unchanged, or, with settings that are not usable, a check that
  breaks.
\<close>

definition fine :: "ws_settings \<Rightarrow> ws_server option \<Rightarrow> bool" where
  "fine settings r = (case r of None \<Rightarrow> \<not> usable_settings settings | Some s \<Rightarrow> wss_ok s \<and> wss_settings s = settings)"

lemma handshake_done_ok:
  assumes "wss_connections s + wss_failed s = length (wss_told s) + 1" "\<not> wss_timeout s" "length (wss_accepted s) \<le> 1"
    "agreed s" "list_all (pred_option window_fits) (wss_channels s)"
  shows "wss_ok (handshake_done s)"
  using assms by (cases "wss_accepted s") (auto simp: wss_ok_def handshake_done_def agreed_def)

lemma WriteResponse_ok:
  assumes "honest_socket Write" "response \<noteq> []" "wss_ready s" "\<not> wss_timeout s"
  shows "fine (wss_settings s) (WriteResponse Write response s)"
proof -
  have "\<not> wss_waiting s" "length (wss_accepted s) \<le> 1" "\<not> wss_writing s" "agreed s" using assms(3) by (auto simp: wss_ready_def)
  from write_response_result [OF assms(1,2) this(1,2)] this(3,4)
  consider n w where "WriteResponse Write response s = Some (s\<lparr>wss_writes := n, wss_wire := w, wss_writing := True\<rparr>)"
    | n w where "WriteResponse Write response s = Some (handshake_done (s\<lparr>wss_writes := n, wss_wire := w\<rparr>))"
    | "WriteResponse Write response s = None" "\<not> usable_settings (wss_settings s)" unfolding WriteResponse_def agreed_def by auto
  then show ?thesis
  proof cases
    case 1
    then show ?thesis using assms(3,4) by (auto simp: fine_def wss_ready_def wss_ok_def agreed_def)
  next
    case (2 n w)
    have "wss_ok (handshake_done (s\<lparr>wss_writes := n, wss_wire := w\<rparr>))"
      by (rule handshake_done_ok) (use assms(3,4) in \<open>auto simp: wss_ready_def agreed_def\<close>)
    with 2 show ?thesis by (simp add: fine_def handshake_done_def)
  qed (simp add: fine_def)
qed

lemma responses_nonempty: "ok_response key extension \<noteq> []" "error_response code \<noteq> []"
  by (simp_all add: ok_response_def error_response_def)

lemma SendOK_ok: "honest_socket Write \<Longrightarrow> wss_ready s \<Longrightarrow> fine (wss_settings s) (SendOK Write key extension s)"
  using WriteResponse_ok [of Write "ok_response key extension" "s\<lparr>wss_timeout := False, wss_status := Status_OK\<rparr>"]
  by (simp add: SendOK_def responses_nonempty wss_ready_def agreed_def)

lemma SendError_ok: "honest_socket Write \<Longrightarrow> wss_ready s \<Longrightarrow> fine (wss_settings s) (SendError Write code s)"
  using WriteResponse_ok [of Write "error_response code" "s\<lparr>wss_timeout := False, wss_status := error_status code\<rparr>"]
  by (simp add: SendError_def responses_nonempty wss_ready_def agreed_def)

text \<open>Whether a request breaks the parser does not depend on the headers of the one before.\<close>

definition breaks_parser :: "string \<Rightarrow> bool" where
  "breaks_parser request \<longleftrightarrow> Handshake_Parse request [] = None"

lemma Parse_None: "Handshake_Parse request headers = None \<longleftrightarrow> breaks_parser request"
  by (simp add: breaks_parser_def Handshake_Parse_def Let_def)

lemma OnReadHeader_ok:
  assumes "honest_socket Write" "wss_ready s" "\<not> wss_reading s" "wss_accepted s = []"
  shows "if result \<ge> 0 \<and> breaks_parser (wss_buffer s @ take (nat result) data) then OnReadHeader Write hash StringToInt result data s = None
    else fine (wss_settings s) (OnReadHeader Write hash StringToInt result data s)"
proof (cases "result \<ge> 0")
  case True
  let ?s = "\<lambda>h. s\<lparr>wss_buffer := wss_buffer s @ take (nat result) data, wss_headers := h\<rparr>"
  have ready: "wss_ready (?s h)" "wss_settings (?s h) = wss_settings s" for h
    using assms(2,3) by (simp_all add: wss_ready_def agreed_def)
  note ok = SendOK_ok [OF assms(1) ready(1), unfolded ready(2)] and error = SendError_ok [OF assms(1) ready(1), unfolded ready(2)]
  show ?thesis
  proof (cases "Handshake_Parse (wss_buffer s @ take (nat result) data) (wss_headers s)")
    case None
    then show ?thesis using True by (simp add: OnReadHeader_def Parse_None [symmetric, of _ "wss_headers s"])
  next
    case (Some r)
    obtain parsed h where r: "r = (parsed, h)" by (cases r)
    have nb: "\<not> breaks_parser (wss_buffer s @ take (nat result) data)" using Some Parse_None by (metis option.distinct(1))
    show ?thesis
    proof (cases "WebSocketExtension_Negotiate StringToInt (header_value h ''sec-websocket-extensions'') (wss_settings s)")
      case None
      then show ?thesis using Some r True nb ok error by (auto simp: OnReadHeader_def Let_def)
    next
      case (Some e)
      obtain pd response where e: "e = (pd, response)" by (cases e)
      have pd: "window_fits pd" "pd_server_max_window_bits pd = uint (server_max_window_bits (wss_settings s))"
        using Some e negotiate_extensions_fits unfolding WebSocketExtension_Negotiate_def by blast+
      have "fine (wss_settings s) (SendOK Write key response (?s h\<lparr>wss_accepted := [pd]\<rparr>))"
        if "permessage_deflate_enabled (wss_settings s)" for key
      proof -
        have "deflate_initializes pd" if "usable_settings (wss_settings s)"
          using that \<open>permessage_deflate_enabled _\<close> pd
          by (simp add: usable_settings_def deflate_initializes_def window_fits_def kMinWindowBits_def kMaxWindowBits_def)
        then have "wss_ready (?s h\<lparr>wss_accepted := [pd]\<rparr>)" using assms(2,3) pd(1) by (simp add: wss_ready_def agreed_def)
        from SendOK_ok [OF assms(1) this] show ?thesis by simp
      qed
      then show ?thesis
        using Some e \<open>Handshake_Parse _ _ = Some r\<close> r True nb ok error assms(4) by (auto simp: OnReadHeader_def Let_def)
    qed
  qed
qed (use SendError_ok [OF assms(1,2)] in \<open>simp add: OnReadHeader_def\<close>)

lemma OnReadHeader_writing: "wss_writing s \<Longrightarrow> OnReadHeader Write hash StringToInt result data s = None"
  by (simp add: OnReadHeader_def SendOK_def SendError_def WriteResponse_def Let_def split: option.split)

definition wss_breaks :: "wss_event \<Rightarrow> ws_server \<Rightarrow> bool" where
  "wss_breaks ev s = (case ev of
      WssAccept (Inr (rv, data)) \<Rightarrow> wss_waiting s \<and> rv \<noteq> ERR_IO_PENDING \<and> breaks_parser (if rv > 0 then take (nat rv) data else [])
    | WssRead result data \<Rightarrow> wss_reading s \<and> (wss_writing s \<or> result \<ge> 0 \<and> breaks_parser (take (nat result) data))
    | _ \<Rightarrow> False)"

lemma wss_exec_result:
  assumes "honest_socket Write" "wss_ok s"
  shows "if wss_breaks ev s then wss_exec Write hash StringToInt ev s = None
    else fine (wss_settings s) (wss_exec Write hash StringToInt ev s)"
proof (cases ev)
  case (WssAccept r)
  show ?thesis
  proof (cases "wss_waiting s")
    case True
    show ?thesis
    proof (cases r)
      case (Inl err)
      then show ?thesis using True assms(2) WssAccept
        by (simp add: wss_breaks_def WebSocketServer_OnAccept_def DoAcceptOnce_def fine_def wss_ok_def agreed_def)
    next
      case (Inr c)
      obtain rv data where c: "c = (rv, data)" by (cases c)
      define request where "request = (if rv > 0 then take (nat rv) data else [])"
      let ?s = "s\<lparr>wss_waiting := False, wss_connections := wss_connections s + 1, wss_timeout := True, wss_socket := True,
          wss_accepted := [], wss_buffer := request\<rparr>"
      have ready: "wss_ready ?s" "\<not> wss_reading ?s" "wss_accepted ?s = []" using assms(2) True by (simp_all add: wss_ok_def wss_ready_def agreed_Nil)
      show ?thesis
      proof (cases "rv = ERR_IO_PENDING")
        case pending: True
        then show ?thesis using True Inr c assms(2) WssAccept
          by (auto simp: wss_breaks_def WebSocketServer_OnAccept_def Handle_def fine_def wss_ok_def agreed_def Let_def)
      next
        case False
        then have "wss_exec Write hash StringToInt ev s = OnReadHeader Write hash StringToInt 0 [] ?s"
          using True Inr c assms(2) WssAccept by (simp add: WebSocketServer_OnAccept_def Handle_def wss_ok_def request_def Let_def)
        moreover have "wss_breaks ev s = breaks_parser request"
          using False True Inr c WssAccept by (simp add: wss_breaks_def request_def)
        moreover note OnReadHeader_ok [OF assms(1) ready, of 0 "[]" hash StringToInt]
        ultimately show ?thesis by (cases "breaks_parser request") simp_all
      qed
    qed
  qed (use assms(2) WssAccept in \<open>auto simp: wss_breaks_def fine_def split: sum.split\<close>)
next
  case (WssRead result data)
  let ?s = "s\<lparr>wss_reading := False\<rparr>"
  show ?thesis
  proof (cases "wss_reading s \<and> \<not> wss_writing s")
    case True
    then have "wss_ready ?s" "\<not> wss_reading ?s" "wss_accepted ?s = []" "wss_buffer s = []"
      using assms(2) by (auto simp: wss_ok_def wss_ready_def agreed_def split: if_splits)
    with OnReadHeader_ok [OF assms(1) this(1-3), of result data hash StringToInt] True show ?thesis
      using WssRead by (simp add: wss_breaks_def split: if_splits)
  qed (use assms(2) WssRead OnReadHeader_writing [of ?s] in \<open>auto simp: wss_breaks_def fine_def\<close>)
next
  case (WssWritten result)
  show ?thesis
  proof (cases "wss_writing s")
    case True
    then have "\<not> wss_waiting s" "length (wss_accepted s) \<le> 1" "agreed s" using assms(2) by (auto simp: wss_ok_def split: if_splits)
    moreover have "wss_ok (handshake_done s)"
      by (rule handshake_done_ok) (use assms(2) True in \<open>auto simp: wss_ok_def split: if_splits\<close>)
    moreover have "wss_settings (handshake_done s) = wss_settings s" by (simp add: handshake_done_def)
    ultimately have "fine (wss_settings s) (OnWriteResponse s)"
      using OnWriteResponse_cases [of s] by (auto simp: fine_def agreed_def)
    then show ?thesis using True WssWritten by (simp add: wss_breaks_def)
  qed (use assms(2) WssWritten in \<open>simp add: wss_breaks_def fine_def\<close>)
next
  case WssTimer
  show ?thesis
  proof (cases "wss_timeout s")
    case True
    then have "wss_ready s" using assms(2) by (auto simp: wss_ok_def wss_ready_def split: if_splits)
    from SendError_ok [OF assms(1) this] True show ?thesis using WssTimer by (simp add: wss_breaks_def)
  qed (use assms(2) WssTimer in \<open>simp add: wss_breaks_def fine_def\<close>)
qed

interpretation wss: inductive_invariant "\<lambda>s. WebSocketServer_AcceptLoop (new_WebSocketServer settings) = Some s"
  "wss_step Write hash StringToInt" "\<lambda>s. honest_socket Write \<longrightarrow> wss_ok s \<and> wss_settings s = settings"
  for settings Write hash StringToInt
proof
  show "WebSocketServer_AcceptLoop (new_WebSocketServer settings) = Some s \<Longrightarrow>
      honest_socket Write \<longrightarrow> wss_ok s \<and> wss_settings s = settings" for s
    by (auto simp: WebSocketServer_AcceptLoop_def DoAcceptOnce_def new_WebSocketServer_def wss_ok_def agreed_def)
  show "honest_socket Write \<longrightarrow> wss_ok t \<and> wss_settings t = settings"
    if "honest_socket Write \<longrightarrow> wss_ok s \<and> wss_settings s = settings" "wss_step Write hash StringToInt s t" for s t
    using that(2)
  proof (cases rule: wss_step.cases)
    case (1 ev)
    with that(1) wss_exec_result [of Write s ev hash StringToInt] show ?thesis by (auto simp: fine_def split: if_splits)
  qed
qed

text \<open>A request that is sent in full with the first read, and answered at once.\<close>

definition demo_request :: string where
  "demo_request = ''GET /chat HTTP/1.1'' @ CRLF @ ''Connection: Upgrade'' @ CRLF @ ''Upgrade: websocket'' @ CRLF @
     ''Sec-WebSocket-Version: 13'' @ CRLF @ ''Sec-WebSocket-Key: x'' @ CRLF @ CRLF"

definition demo_settings :: ws_settings where
  "demo_settings = \<lparr>permessage_deflate_enabled = True, server_max_window_bits = 15\<rparr>"

definition demo_server :: "wss_event list \<Rightarrow> ws_server option" where
  "demo_server evs = foldl (\<lambda>s ev. Option.bind s (wss_exec (\<lambda>n bs. int (length bs)) id (\<lambda>s. None) ev))
     (WebSocketServer_AcceptLoop (new_WebSocketServer demo_settings)) evs"

lemma demo_server_reachable:
  "demo_server evs = Some s \<Longrightarrow> reachable (\<lambda>s. WebSocketServer_AcceptLoop (new_WebSocketServer demo_settings) = Some s)
     (wss_step (\<lambda>n bs. int (length bs)) id (\<lambda>s. None)) s"
proof (induction evs arbitrary: s rule: rev_induct)
  case Nil
  then show ?case by (simp add: demo_server_def reachable.start)
next
  case (snoc ev evs)
  then obtain t where "demo_server evs = Some t" "wss_exec (\<lambda>n bs. int (length bs)) id (\<lambda>s. None) ev t = Some s"
    by (auto simp: demo_server_def bind_eq_Some_conv)
  with snoc.IH show ?case by (blast intro: reachable.move wss_step.intros)
qed

lemma demo_honest: "honest_socket (\<lambda>n bs. int (length bs))"
  by (simp add: honest_socket_def)

text \<open>
  C25.  A web socket server whose socket takes no more than it is given is always at work on exactly one thing: it waits for a
  connection, or it has one and waits for its request with the timer running, or for its answer to be written.  Of every
  connection taken and every accept that failed the accept callback is told once, except for the connection at hand, and what
  channels are created with has a window for the client of 8 to 15 bits.
\<close>

theorem web_socket_server_accounts:
  assumes "reachable (\<lambda>s. WebSocketServer_AcceptLoop (new_WebSocketServer settings) = Some s) (wss_step Write hash StringToInt) s"
    and "\<forall>n bs. Write n bs \<le> int (length bs)"
  shows "wss_connections s + wss_failed s = length (wss_told s) + (if wss_socket s then 1 else 0) \<and>
    wss_waiting s = (\<not> wss_socket s) \<and> (wss_socket s \<longrightarrow> wss_writing s \<or> wss_reading s \<and> wss_timeout s) \<and>
    (wss_timeout s \<longrightarrow> wss_reading s \<and> \<not> wss_writing s) \<and>
    (\<forall>pd. Some pd \<in> set (wss_channels s) \<longrightarrow> 8 \<le> pd_client_max_window_bits pd \<and> pd_client_max_window_bits pd \<le> 15)"
proof -
  have "wss_ok s" using wss.inv_reachable [OF assms(1)] assms(2) unfolding honest_socket_def by blast
  then show ?thesis
    by (auto simp: wss_ok_def agreed_def window_fits_def kMinWindowBits_def kMaxWindowBits_def list_all_iff split: if_splits)
qed

theorem web_socket_server_accounts_witness:
  "\<exists>s. demo_server [WssAccept (Inr (ERR_IO_PENDING, [])), WssRead 200 demo_request, WssAccept (Inr (ERR_IO_PENDING, []))] = Some s \<and>
     wss_connections s = 2 \<and> wss_told s = [Status_OK] \<and> wss_socket s \<and> wss_reading s \<and> \<not> wss_waiting s"
proof -
  let ?evs = "[WssAccept (Inr (ERR_IO_PENDING, [])), WssRead 200 demo_request, WssAccept (Inr (ERR_IO_PENDING, []))]"
  have "case demo_server ?evs of None \<Rightarrow> False | Some s \<Rightarrow> wss_connections s = 2 \<and> wss_told s = [Status_OK] \<and> wss_reading s \<and> wss_failed s = 0"
    by code_simp
  then obtain s where s: "demo_server ?evs = Some s" "wss_connections s = 2" "wss_told s = [Status_OK]" "wss_reading s" "wss_failed s = 0"
    by (auto split: option.splits)
  from web_socket_server_accounts [OF demo_server_reachable [OF s(1)]] s show ?thesis by (auto split: if_splits)
qed

section \<open>Requests that break the parser\<close>

text \<open>The method is \<open>GET\<close>, and the space behind it is the last one of the first line but not of the request.\<close>

definition space_past_line :: "string \<Rightarrow> bool" where
  "space_past_line request \<longleftrightarrow> (\<exists>m uri c rest. request = m @ CHR '' '' # uri @ c # rest \<and> EqualsCaseInsensitiveASCII m ''GET'' \<and>
     CHR '' '' \<notin> set uri \<and> set uri \<inter> set CRLF = {} \<and> c \<in> set CRLF \<and> CHR '' '' \<in> set rest)"

lemma takeWhile_stop: "\<forall>x \<in> set xs. P x \<Longrightarrow> \<not> P y \<Longrightarrow> takeWhile P (xs @ y # zs) = xs"
  by (simp add: takeWhile_append2)

lemma takeWhile_stop': "zs = xs @ y # ys \<Longrightarrow> \<forall>x \<in> set xs. P x \<Longrightarrow> \<not> P y \<Longrightarrow> takeWhile P zs = xs"
  by (simp add: takeWhile_stop)

lemma takeWhile_split:
  "length (takeWhile (\<lambda>c. c \<noteq> x) xs) \<noteq> length xs \<Longrightarrow>
   xs = takeWhile (\<lambda>c. c \<noteq> x) xs @ x # drop (length (takeWhile (\<lambda>c. c \<noteq> x) xs) + 1) xs"
  by (induction xs) auto

lemma drop_after: "drop (length xs + 1) (xs @ y # ys) = ys"
  by simp

lemma ToLowerASCII_get: "ToLowerASCII ''GET'' = ''get''"
  by code_simp

lemma ToLowerASCII_GET:
  assumes "EqualsCaseInsensitiveASCII m ''GET''"
  shows "\<forall>c \<in> set m. c \<noteq> CHR '' '' \<and> c \<notin> set CRLF"
proof
  fix c assume "c \<in> set m"
  then have "lower_char c \<in> set (ToLowerASCII m)" by (simp add: ToLowerASCII_def)
  then have "lower_char c \<in> {CHR ''g'', CHR ''e'', CHR ''t''}"
    using assms by (simp add: EqualsCaseInsensitiveASCII_def ToLowerASCII_get)
  then show "c \<noteq> CHR '' '' \<and> c \<notin> set CRLF"
    by (auto simp: lower_char_def CRLF_def)
qed

text \<open>The parser on a first line that is split at its spaces.\<close>

lemma Parse_request_line:
  assumes "EqualsCaseInsensitiveASCII m ''GET''" "CHR '' '' \<notin> set uri" "set uri \<inter> set CRLF = {}" "set version \<inter> set CRLF = {}" "c \<in> set CRLF"
  shows "Handshake_Parse (m @ CHR '' '' # uri @ CHR '' '' # version @ c # rest) headers =
    (if EqualsCaseInsensitiveASCII version ''HTTP/1.1'' then Some (True, foldl parse_header_line [] (tokens CRLF rest)) else Some (False, headers))"
proof -
  let ?r = "m @ CHR '' '' # uri @ CHR '' '' # version @ c # rest"
  note m = ToLowerASCII_GET [OF assms(1)]
  have sp: "CHR '' '' \<notin> set CRLF" by (simp add: CRLF_def)
  have line: "takeWhile (\<lambda>c. c \<notin> set CRLF) ?r = m @ CHR '' '' # uri @ CHR '' '' # version"
    by (rule takeWhile_stop' [where ys = rest and y = c]) (use m assms(3-5) sp in auto)
  have verb: "takeWhile (\<lambda>c. c \<noteq> CHR '' '') ?r = m" using m by (intro takeWhile_stop) auto
  have uri: "takeWhile (\<lambda>c. c \<noteq> CHR '' '') (uri @ CHR '' '' # version @ c # rest) = uri" using assms(2) by (intro takeWhile_stop) auto
  have parts: "take (length m) ?r = m" "drop (length m + 1) ?r = uri @ CHR '' '' # version @ c # rest"
    "drop (length m + 1 + length uri + 1) ?r = version @ c # rest"
    "take (length (m @ CHR '' '' # uri @ CHR '' '' # version) - (length m + 1 + length uri + 1)) (version @ c # rest) = version"
    "length (m @ CHR '' '' # uri @ CHR '' '' # version) \<noteq> length ?r" "length m \<noteq> length ?r" "length m + 1 + length uri \<noteq> length ?r"
    "\<not> length m + 1 + length uri + 1 > length (m @ CHR '' '' # uri @ CHR '' '' # version)" by simp_all
  have rest: "drop (length (m @ CHR '' '' # uri @ CHR '' '' # version) + 1) ?r = rest"
    using drop_after [of "m @ CHR '' '' # uri @ CHR '' '' # version" c rest] by (simp only: append.simps append_assoc)
  show ?thesis unfolding Handshake_Parse_def line verb Let_def parts rest uri using assms(1) parts(5-8) 
    by (cases "EqualsCaseInsensitiveASCII version ''HTTP/1.1''") (simp_all only: if_False if_True simp_thms)
qed

lemma trans_append: "r = m @ c # d \<Longrightarrow> d = e \<Longrightarrow> r = m @ c # e"
  by simp

lemma space_past_lineI:
  "request = m @ CHR '' '' # uri @ CHR '' '' # rest \<Longrightarrow> EqualsCaseInsensitiveASCII m ''GET'' \<Longrightarrow> uri = us @ c # vs \<Longrightarrow>
   c \<in> set CRLF \<Longrightarrow> \<forall>u \<in> set us. u \<notin> set CRLF \<Longrightarrow> CHR '' '' \<notin> set us \<Longrightarrow> space_past_line request"
  unfolding space_past_line_def
  by (intro exI [of _ m] exI [of _ us] exI [of _ c] exI [of _ "vs @ CHR '' '' # rest"]) auto

lemma breaks_parser_iff: "breaks_parser request \<longleftrightarrow> space_past_line request"
proof
  assume "space_past_line request"
  then obtain m uri c rest where r: "request = m @ CHR '' '' # uri @ c # rest" "EqualsCaseInsensitiveASCII m ''GET''"
    "CHR '' '' \<notin> set uri" "set uri \<inter> set CRLF = {}" "c \<in> set CRLF" "CHR '' '' \<in> set rest" unfolding space_past_line_def by blast
  note m = ToLowerASCII_GET [OF r(2)]
  have sp: "CHR '' '' \<notin> set CRLF" by (simp add: CRLF_def)
  from split_list_first [OF r(6)] obtain us vs where rest: "rest = us @ CHR '' '' # vs" "CHR '' '' \<notin> set us" by blast
  have line: "takeWhile (\<lambda>c. c \<notin> set CRLF) request = m @ CHR '' '' # uri"
    by (rule takeWhile_stop' [where ys = rest and y = c]) (use m r sp in auto)
  have verb: "takeWhile (\<lambda>c. c \<noteq> CHR '' '') request = m" using m unfolding r(1) by (intro takeWhile_stop) auto
  have "takeWhile (\<lambda>c. c \<noteq> CHR '' '') ((uri @ c # us) @ CHR '' '' # vs) = uri @ c # us"
    using r(3,5) rest(2) sp by (intro takeWhile_stop) auto
  then have uri: "takeWhile (\<lambda>c. c \<noteq> CHR '' '') (drop (length m + 1) request) = uri @ c # us" by (simp add: r(1) rest(1))
  have parts: "take (length m) request = m" "length (m @ CHR '' '' # uri) \<noteq> length request" "length m \<noteq> length request"
    "length m + 1 + length (uri @ c # us) \<noteq> length request" "length m + 1 + length (uri @ c # us) + 1 > length (m @ CHR '' '' # uri)"
    by (simp_all add: r(1) rest(1))
  show "breaks_parser request"
    unfolding breaks_parser_def Handshake_Parse_def line verb Let_def uri parts using r(2) parts(2-5) by (simp only: if_False if_True simp_thms)
next
  assume "breaks_parser request"
  let ?m = "takeWhile (\<lambda>c. c \<noteq> CHR '' '') request"
  define uri where "uri = takeWhile (\<lambda>c. c \<noteq> CHR '' '') (drop (length ?m + 1) request)"
  have none: "length (takeWhile (\<lambda>c. c \<notin> set CRLF) request) \<noteq> length request" "length ?m \<noteq> length request"
    "EqualsCaseInsensitiveASCII (take (length ?m) request) ''GET''" "length ?m + 1 + length uri \<noteq> length request"
    "length ?m + 1 + length uri + 1 > length (takeWhile (\<lambda>c. c \<notin> set CRLF) request)"
    using \<open>breaks_parser request\<close> unfolding breaks_parser_def Handshake_Parse_def Let_def uri_def by (auto split: if_splits)
  have m: "request = ?m @ CHR '' '' # drop (length ?m + 1) request" by (rule takeWhile_split) (use none(2) in simp)
  have d: "drop (length ?m + 1) request = uri @ CHR '' '' # drop (length uri + 1) (drop (length ?m + 1) request)"
    unfolding uri_def by (rule takeWhile_split) (use none(4) arg_cong [OF m, of length] in \<open>unfold uri_def length_append list.size, linarith\<close>)
  have get: "EqualsCaseInsensitiveASCII ?m ''GET''" using none(3) by (simp add: takeWhile_eq_take [symmetric])
  have "set uri \<inter> set CRLF \<noteq> {}"
  proof
    assume "set uri \<inter> set CRLF = {}"
    then have "takeWhile (\<lambda>c. c \<notin> set CRLF) ((?m @ CHR '' '' # uri @ [CHR '' '']) @ drop (length uri + 1) (drop (length ?m + 1) request)) =
        (?m @ CHR '' '' # uri @ [CHR '' '']) @ takeWhile (\<lambda>c. c \<notin> set CRLF) (drop (length uri + 1) (drop (length ?m + 1) request))"
      using ToLowerASCII_GET [OF get] by (intro takeWhile_append2) (auto simp: CRLF_def)
    moreover have "request = (?m @ CHR '' '' # uri @ [CHR '' '']) @ drop (length uri + 1) (drop (length ?m + 1) request)"
      using m d by simp
    ultimately have "length (takeWhile (\<lambda>c. c \<notin> set CRLF) request) \<ge> length ?m + length uri + 2" by simp
    with none(5) show False by simp
  qed
  then obtain us c vs where uri: "uri = us @ c # vs" "c \<in> set CRLF" "\<forall>u \<in> set us. u \<notin> set CRLF"
    using split_list_first_prop [of uri "\<lambda>c. c \<in> set CRLF"] by (metis disjoint_iff)
  have "CHR '' '' \<notin> set uri" unfolding uri_def by (auto dest: set_takeWhileD)
  with uri(1) have "CHR '' '' \<notin> set us" by simp
  from space_past_lineI [OF trans_append [OF m d] get uri this] show "space_past_line request" .
qed

text \<open>The request that an event brings, when it is the first thing that happens on the connection.\<close>

definition request_brought :: "wss_event \<Rightarrow> ws_server \<Rightarrow> string option" where
  "request_brought ev s = (case ev of
      WssAccept (Inr (rv, data)) \<Rightarrow>
        if wss_waiting s \<and> rv \<noteq> ERR_IO_PENDING then Some (if rv > 0 then take (nat rv) data else []) else None
    | WssRead result data \<Rightarrow> if wss_reading s \<and> result \<ge> 0 then Some (take (nat result) data) else None
    | _ \<Rightarrow> None)"

lemma wss_breaks_iff:
  "wss_breaks ev s \<longleftrightarrow> (\<exists>result data. ev = WssRead result data \<and> wss_reading s \<and> wss_writing s) \<or>
     (\<exists>request. request_brought ev s = Some request \<and> breaks_parser request)"
  by (auto simp: wss_breaks_def request_brought_def split: wss_event.splits sum.splits prod.splits if_splits)

lemma brought_past_line:
  "(\<exists>request. r = Some request \<and> space_past_line request) \<longleftrightarrow>
   (\<exists>m uri c rest. r = Some (m @ CHR '' '' # uri @ c # rest) \<and> EqualsCaseInsensitiveASCII m ''GET'' \<and>
      CHR '' '' \<notin> set uri \<and> set uri \<inter> set CRLF = {} \<and> c \<in> set CRLF \<and> CHR '' '' \<in> set rest)"
  by (cases r) (simp_all add: space_past_line_def)

text \<open>
  C24.  With compression off, or with settings whose window for the server is of 8 to 15 bits, which the code does not check,
  what comes over the network has a defined outcome for the web socket server in all but two cases.  One is a request
  \<open>GET\<close> whose second space is not on its first line, for which the version is a string that ends before it starts; the other is a
  request that arrives while the answer that it is late is still being written.
\<close>

theorem web_socket_server_undefined:
  assumes "reachable (\<lambda>s. WebSocketServer_AcceptLoop (new_WebSocketServer settings) = Some s) (wss_step Write hash StringToInt) s"
    and "\<forall>n bs. Write n bs \<le> int (length bs)"
    and "permessage_deflate_enabled settings \<longrightarrow> 8 \<le> uint (server_max_window_bits settings) \<and> uint (server_max_window_bits settings) \<le> 15"
  shows "wss_exec Write hash StringToInt ev s = None \<longleftrightarrow>
    (\<exists>result data. ev = WssRead result data \<and> wss_reading s \<and> wss_writing s) \<or>
    (\<exists>m uri c rest. request_brought ev s = Some (m @ CHR '' '' # uri @ c # rest) \<and> EqualsCaseInsensitiveASCII m ''GET'' \<and>
       CHR '' '' \<notin> set uri \<and> set uri \<inter> set CRLF = {} \<and> c \<in> set CRLF \<and> CHR '' '' \<in> set rest)"
proof -
  have honest: "honest_socket Write" using assms(2) by (simp add: honest_socket_def)
  then have s: "wss_ok s" "usable_settings (wss_settings s)"
    using wss.inv_reachable [OF assms(1)] assms(3) by (auto simp: usable_settings_def)
  from wss_exec_result [OF honest s(1), of ev hash StringToInt] s(2)
  have "wss_exec Write hash StringToInt ev s = None \<longleftrightarrow> wss_breaks ev s" by (auto simp: fine_def split: if_splits option.splits)
  also have "\<dots> \<longleftrightarrow> (\<exists>result data. ev = WssRead result data \<and> wss_reading s \<and> wss_writing s) \<or>
     (\<exists>request. request_brought ev s = Some request \<and> space_past_line request)" by (simp add: wss_breaks_iff breaks_parser_iff)
  finally show ?thesis by (simp only: brought_past_line)
qed

theorem web_socket_server_undefined_witness:
  "demo_server [WssAccept (Inr (23, ''GET /'' @ CRLF @ ''Host: localhost''))] = None"
proof -
  obtain s where s: "demo_server [] = Some s" "wss_waiting s"
    by (simp add: demo_server_def WebSocketServer_AcceptLoop_def DoAcceptOnce_def new_WebSocketServer_def)
  have fits: "permessage_deflate_enabled demo_settings \<longrightarrow>
      8 \<le> uint (server_max_window_bits demo_settings) \<and> uint (server_max_window_bits demo_settings) \<le> 15"
    "\<forall>n bs. int (length bs) \<le> int (length bs)" by (simp_all add: demo_settings_def)
  let ?ev = "WssAccept (Inr (23, ''GET /'' @ CRLF @ ''Host: localhost''))"
  have "request_brought ?ev s = Some (''GET'' @ CHR '' '' # ''/'' @ CR # (LF # ''Host: localhost''))"
    using s(2) by (simp add: request_brought_def ERR_IO_PENDING_def CRLF_def)
  moreover have "EqualsCaseInsensitiveASCII ''GET'' ''GET''" "CHR '' '' \<notin> set ''/''" "set ''/'' \<inter> set CRLF = {}" "CR \<in> set CRLF"
    "CHR '' '' \<in> set (LF # ''Host: localhost'')" by (simp_all add: EqualsCaseInsensitiveASCII_def CRLF_def)
  ultimately have "wss_exec (\<lambda>n bs. int (length bs)) id (\<lambda>s. None) ?ev s = None"
    using web_socket_server_undefined [OF demo_server_reachable [OF s(1)], of ?ev] fits by blast
  with s(1) show ?thesis by (simp add: demo_server_def)
qed

section \<open>Requests that are understood\<close>

lemma tokens_skip: "d \<in> set delims \<Longrightarrow> tokens delims (d # s) = tokens delims s"
  by (subst (1 2) tokens.simps) simp

lemma tokens_line:
  assumes "line \<noteq> []" "set line \<inter> set delims = {}" "d \<in> set delims"
  shows "tokens delims (line @ d # s) = line # tokens delims s"
proof -
  from assms(1) obtain c cs where line: "line = c # cs" by (cases line) auto
  have tw: "takeWhile (\<lambda>c. c \<notin> set delims) (line @ d # s) = line" using assms by (intro takeWhile_stop) auto
  then have dw: "dropWhile (\<lambda>c. c \<notin> set delims) (line @ d # s) = d # s"
    by (metis append_same_eq same_append_eq takeWhile_dropWhile_id)
  have "tokens delims (line @ d # s) = line # tokens delims (d # s)"
    using assms line tw dw by (subst tokens.simps) simp
  then show ?thesis by (simp add: tokens_skip assms(3))
qed

definition render_header :: "string \<times> string \<Rightarrow> string" where
  "render_header h = fst h @ '': '' @ snd h @ CRLF"

definition render_request :: "string \<Rightarrow> (string \<times> string) list \<Rightarrow> string" where
  "render_request uri headers = ''GET '' @ uri @ '' HTTP/1.1'' @ CRLF @ concat (map render_header headers) @ CRLF"

definition plain_header :: "string \<times> string \<Rightarrow> bool" where
  "plain_header h \<longleftrightarrow> CHR '':'' \<notin> set (fst h) \<and> set (fst h) \<inter> set CRLF = {} \<and> set (snd h) \<inter> set CRLF = {} \<and>
     TrimWhitespaceASCII (fst h) = fst h \<and> TrimWhitespaceASCII (snd h) = snd h"

definition last_header :: "(string \<times> string) list \<Rightarrow> string \<Rightarrow> string" where
  "last_header headers key = (case find (\<lambda>h. ToLowerASCII (fst h) = key) (rev headers) of None \<Rightarrow> [] | Some h \<Rightarrow> snd h)"

lemma Trim_space: "TrimWhitespaceASCII (CHR '' '' # s) = TrimWhitespaceASCII s"
  by (simp add: TrimWhitespaceASCII_def IsWhitespaceASCII_def)

lemma header_tokens:
  "\<forall>h \<in> set headers. plain_header h \<Longrightarrow>
   tokens CRLF (concat (map render_header headers) @ CRLF) = map (\<lambda>h. fst h @ '': '' @ snd h) headers"
proof (induction headers)
  case Nil
  then show ?case by (simp add: CRLF_def tokens_skip) (simp add: tokens.simps)
next
  case (Cons h headers)
  let ?line = "fst h @ '': '' @ snd h" and ?rest = "concat (map render_header headers) @ CRLF"
  have "set ?line \<inter> set CRLF = {}" using Cons.prems by (auto simp: plain_header_def CRLF_def)
  then have "tokens CRLF (?line @ CR # LF # ?rest) = ?line # tokens CRLF (LF # ?rest)"
    by (intro tokens_line) (auto simp: CRLF_def)
  moreover have "tokens CRLF (LF # ?rest) = tokens CRLF ?rest" by (rule tokens_skip) (simp add: CRLF_def)
  moreover have "concat (map render_header (h # headers)) @ CRLF = ?line @ CR # LF # ?rest"
    by (simp add: render_header_def CRLF_def)
  ultimately show ?case using Cons by simp
qed

lemma parse_rendered_line:
  assumes "plain_header h"
  shows "parse_header_line m (fst h @ '': '' @ snd h) = fm_insert_or_assign (ToLowerASCII (fst h)) (snd h) m"
proof -
  have "takeWhile (\<lambda>c. c \<noteq> CHR '':'') (fst h @ '': '' @ snd h) = fst h"
    using assms by (intro takeWhile_stop' [where y = "CHR '':''"]) (auto simp: plain_header_def)
  then show ?thesis using assms by (simp add: parse_header_line_def Let_def plain_header_def Trim_space)
qed

lemma parse_rendered_lines:
  assumes "\<forall>h \<in> set headers. plain_header h" and m: "m = foldl parse_header_line [] (map (\<lambda>h. fst h @ '': '' @ snd h) headers)"
  shows "fm_ok m \<and> header_value m key = last_header headers key"
  using assms
proof (induction headers arbitrary: m key rule: rev_induct)
  case Nil
  then show ?case by (simp add: header_value_def last_header_def)
next
  case (snoc h headers)
  let ?m = "foldl parse_header_line [] (map (\<lambda>h. fst h @ '': '' @ snd h) headers)"
  have "m = fm_insert_or_assign (ToLowerASCII (fst h)) (snd h) ?m" using snoc.prems parse_rendered_line [of h ?m] by simp
  moreover have "fm_ok ?m" "header_value ?m key = last_header headers key" using snoc by auto
  ultimately show ?case by (auto simp: fm_insert_ok fm_insert_find header_value_def last_header_def)
qed

lemma Parse_rendered:
  assumes "CHR '' '' \<notin> set uri" "set uri \<inter> set CRLF = {}" "\<forall>h \<in> set headers. plain_header h"
  shows "Handshake_Parse (render_request uri headers) old =
    Some (True, foldl parse_header_line [] (map (\<lambda>h. fst h @ '': '' @ snd h) headers))"
proof -
  let ?rest = "LF # concat (map render_header headers) @ CRLF"
  have "render_request uri headers = ''GET'' @ CHR '' '' # uri @ CHR '' '' # ''HTTP/1.1'' @ CR # ?rest"
    by (simp add: render_request_def CRLF_def)
  moreover have "tokens CRLF ?rest = map (\<lambda>h. fst h @ '': '' @ snd h) headers"
    using header_tokens [OF assms(3)] by (subst tokens_skip) (simp_all add: CRLF_def)
  moreover have "Handshake_Parse (''GET'' @ CHR '' '' # uri @ CHR '' '' # ''HTTP/1.1'' @ CR # ?rest) old =
      Some (True, foldl parse_header_line [] (tokens CRLF ?rest))"
    by (subst Parse_request_line) (use assms in \<open>auto simp: EqualsCaseInsensitiveASCII_def CRLF_def\<close>)
  ultimately show ?thesis by (simp only:)
qed

lemma SendOK_at_once:
  assumes "\<forall>n bs. Write n bs = int (length bs)" "\<not> wss_writing s" "\<not> wss_waiting s" "wss_accepted s = []"
  shows "SendOK Write key extension s = Some (handshake_done (s\<lparr>wss_timeout := False, wss_status := Status_OK, wss_writes := wss_writes s + 1,
    wss_wire := wss_wire s @ ok_response key extension\<rparr>))"
proof -
  have "int (length (ok_response key extension)) > 0" using responses_nonempty(1) [of key extension] by simp
  then show ?thesis using assms responses_nonempty(1) [of key extension]
    by (simp add: SendOK_def WriteResponse_def write_response.simps Let_def ERR_IO_PENDING_def OnWriteResponse_eq)
qed

lemma lower_constants: "ToLowerASCII ''upgrade'' = ''upgrade''" "ToLowerASCII ''websocket'' = ''websocket''" "ToLowerASCII ''13'' = ''13''"
  by code_simp+

lemma OnReadHeader_accepts:
  assumes "Handshake_Parse (wss_buffer s @ take (nat result) data) (wss_headers s) = Some (True, m)" "result \<ge> 0" "Handshake_Validate m"
    and "\<not> permessage_deflate_enabled (wss_settings s) \<or> header_value m ''sec-websocket-extensions'' = []"
  shows "OnReadHeader Write hash StringToInt result data s =
    SendOK Write (hash (header_value m ''sec-websocket-key'' @ kHandshakeGuid)) []
      (s\<lparr>wss_buffer := wss_buffer s @ take (nat result) data, wss_headers := m\<rparr>)"
  using assms by (auto simp: OnReadHeader_def Let_def)

text \<open>
  C23.  A request that a client writes as a line \<open>GET uri HTTP/1.1\<close> and one line for each header, and that arrives in full with
  the read that is pending, is answered with the accept key for its key when its headers ask for version 13 of the protocol.  Names
  are compared in any case, the last of several headers with one name counts, and the server goes on to accept.  The conditions
  are that no extension is negotiated, because compression is off or none is asked for, and that the socket takes every answer
  as a whole at once.
\<close>

theorem web_socket_request_accepted:
  assumes "reachable (\<lambda>s. WebSocketServer_AcceptLoop (new_WebSocketServer settings) = Some s) (wss_step Write hash StringToInt) s"
    and Write: "\<forall>n bs. Write n bs = int (length bs)" and "wss_timeout s"
    and plain: "CHR '' '' \<notin> set uri" "set uri \<inter> set CRLF = {}" "\<forall>h \<in> set headers. plain_header h"
    and valid: "\<exists>t \<in> set (tokens '','' (last_header headers ''connection'')). ToLowerASCII (TrimWhitespaceASCII t) = ''upgrade''"
      "ToLowerASCII (last_header headers ''upgrade'') = ''websocket''" "last_header headers ''sec-websocket-version'' = ''13''"
      "last_header headers ''sec-websocket-key'' \<noteq> []"
    and extension: "\<not> permessage_deflate_enabled (wss_settings s) \<or> last_header headers ''sec-websocket-extensions'' = []"
  shows "\<exists>s'. wss_exec Write hash StringToInt (WssRead (int (length (render_request uri headers))) (render_request uri headers)) s = Some s' \<and>
    wss_wire s' = wss_wire s @ ok_response (hash (last_header headers ''sec-websocket-key'' @ kHandshakeGuid)) [] \<and>
    wss_told s' = wss_told s @ [Status_OK] \<and> wss_channels s' = wss_channels s @ [None] \<and> wss_waiting s'"
proof -
  have "honest_socket Write" using Write by (simp add: honest_socket_def)
  then have "wss_ok s" using wss.inv_reachable [OF assms(1)] by blast
  then have s: "wss_reading s" "\<not> wss_writing s" "\<not> wss_waiting s" "wss_accepted s = []" "wss_buffer s = []"
    using assms(3) by (auto simp: wss_ok_def split: if_splits)
  let ?r = "render_request uri headers" and ?s = "s\<lparr>wss_reading := False\<rparr>"
  define m where "m = foldl parse_header_line [] (map (\<lambda>h. fst h @ '': '' @ snd h) headers)"
  have looked_up: "header_value m key = last_header headers key" for key using parse_rendered_lines [OF plain(3) m_def] by simp
  have "Handshake_Validate m" using valid unfolding Handshake_Validate_def looked_up EqualsCaseInsensitiveASCII_def lower_constants by (simp add: lower_constants)
  moreover have "Handshake_Parse (wss_buffer ?s @ take (nat (int (length ?r))) ?r) (wss_headers ?s) = Some (True, m)"
    using Parse_rendered [OF plain] s(5) by (simp add: m_def)
  ultimately have "wss_exec Write hash StringToInt (WssRead (int (length ?r)) ?r) s =
      SendOK Write (hash (header_value m ''sec-websocket-key'' @ kHandshakeGuid)) [] (?s\<lparr>wss_buffer := wss_buffer ?s @ take (nat (int (length ?r))) ?r, wss_headers := m\<rparr>)"
    using s(1) extension OnReadHeader_accepts [of ?s "int (length ?r)" ?r m] by (simp add: looked_up)
  then show ?thesis using s SendOK_at_once [OF Write] by (simp add: looked_up handshake_done_def)
qed

definition demo_headers :: "(string \<times> string) list" where
  "demo_headers = [(''Host'', ''localhost''), (''Connection'', ''keep-alive, Upgrade''), (''Upgrade'', ''websocket''),
     (''Sec-WebSocket-Version'', ''13''), (''Sec-WebSocket-Key'', ''x'')]"

theorem web_socket_request_accepted_witness:
  "\<exists>s. demo_server [WssAccept (Inr (ERR_IO_PENDING, [])), WssRead (int (length (render_request ''/'' demo_headers))) (render_request ''/'' demo_headers)] = Some s \<and>
     wss_wire s = ok_response (''x'' @ kHandshakeGuid) [] \<and> wss_channels s = [None]"
proof -
  have "case demo_server [WssAccept (Inr (ERR_IO_PENDING, []))] of None \<Rightarrow> False | Some s \<Rightarrow> wss_timeout s \<and> wss_wire s = [] \<and> wss_channels s = []"
    by code_simp
  then obtain s where s: "demo_server [WssAccept (Inr (ERR_IO_PENDING, []))] = Some s" "wss_timeout s" "wss_wire s = []" "wss_channels s = []"
    by (auto split: option.splits)
  have "\<exists>t \<in> set (tokens '','' (last_header demo_headers ''connection'')). ToLowerASCII (TrimWhitespaceASCII t) = ''upgrade''"
    "ToLowerASCII (last_header demo_headers ''upgrade'') = ''websocket''" "last_header demo_headers ''sec-websocket-version'' = ''13''"
    "last_header demo_headers ''sec-websocket-key'' = ''x''" "last_header demo_headers ''sec-websocket-extensions'' = []"
    "\<forall>h \<in> set demo_headers. plain_header h" by code_simp+
  from web_socket_request_accepted [OF demo_server_reachable [OF s(1)] _ s(2), of "''/''" demo_headers] this s show ?thesis
    by (auto simp: demo_server_def CRLF_def simp del: wss_exec.simps)
qed

text \<open>Settings with another window break the check when a client agrees to compression.\<close>

lemma unusable_window_breaks_check:
  "case WebSocketServer_AcceptLoop (new_WebSocketServer \<lparr>permessage_deflate_enabled = True, server_max_window_bits = 16\<rparr>) of
     None \<Rightarrow> False
   | Some s \<Rightarrow> wss_exec (\<lambda>n bs. int (length bs)) id (\<lambda>s. None) (WssAccept (Inr (300, render_request ''/''
       (demo_headers @ [(''Sec-WebSocket-Extensions'', ''permessage-deflate'')])))) s = None"
  by code_simp

text \<open>A request that arrives in two pieces is refused after the first.\<close>

lemma split_request_refused:
  "case demo_server [WssAccept (Inr (ERR_IO_PENDING, [])), WssRead 20 (take 20 demo_request), WssRead 200 (drop 20 demo_request)] of
     None \<Rightarrow> False | Some s \<Rightarrow> wss_told s = [error_status HTTP_BAD_REQUEST] \<and> wss_wire s = error_response HTTP_BAD_REQUEST"
  by code_simp

end
