(* ===== verification/Felicia_WebSocketDeflate.thy ===== *)
theory Felicia_WebSocketDeflate
  imports Felicia_WebSocket
begin

text \<open>
  \<open>core/channel/socket/web_socket_deflate_stream.cc\<close>: the stream that compresses the messages of a web socket.  The
  deflater and the inflater, which are zlib, are a parameter: their operations as functions of a state, that fail with \<open>None\<close>.
  So is the stream below.  \<open>None\<close> as a result of the operations here is a broken \<open>DCHECK\<close> or a loop that does not end.
\<close>

section \<open>The codec\<close>

record ('d, 'i) codec =
  deflate_add :: "'d \<Rightarrow> bytes \<Rightarrow> 'd option"
  deflate_finish :: "'d \<Rightarrow> 'd option"
  deflate_size :: "'d \<Rightarrow> nat"
  deflate_get :: "'d \<Rightarrow> nat \<Rightarrow> (bytes \<times> 'd) option"
  inflate_add :: "'i \<Rightarrow> bytes \<Rightarrow> 'i option"
  inflate_finish :: "'i \<Rightarrow> 'i option"
  inflate_size :: "'i \<Rightarrow> nat"
  inflate_get :: "'i \<Rightarrow> nat \<Rightarrow> (bytes \<times> 'i) option"

definition kChunkSize :: nat where "kChunkSize = 4 * 1024"

section \<open>The stream\<close>

datatype reading_state = READING_COMPRESSED_MESSAGE | READING_UNCOMPRESSED_MESSAGE | NOT_READING

datatype writing_state =
    WRITING_COMPRESSED_MESSAGE | WRITING_UNCOMPRESSED_MESSAGE | WRITING_POSSIBLY_COMPRESSED_MESSAGE | NOT_WRITING

record ('d, 'i) deflate_stream =
  ds_deflater :: 'd
  ds_inflater :: 'i
  ds_reading :: reading_state
  ds_writing :: writing_state
  ds_reading_opcode :: opcode
  ds_writing_opcode :: opcode

definition new_WebSocketDeflateStream :: "'d \<Rightarrow> 'i \<Rightarrow> ('d, 'i) deflate_stream" where
  "new_WebSocketDeflateStream d i = \<lparr>ds_deflater = d, ds_inflater = i, ds_reading = NOT_READING, ds_writing = NOT_WRITING,
     ds_reading_opcode = kOpCodeText, ds_writing_opcode = kOpCodeText\<rparr>"

section \<open>Writing\<close>

definition OnMessageStart :: "ws_frame \<Rightarrow> ('d, 'i) deflate_stream \<Rightarrow> ('d, 'i) deflate_stream option" where
  "OnMessageStart f s =
     (if wf_opcode f \<noteq> kOpCodeText \<and> wf_opcode f \<noteq> kOpCodeBinary then None
      else Some (s\<lparr>ds_writing_opcode := wf_opcode f, ds_writing := WRITING_COMPRESSED_MESSAGE\<rparr>))"

text \<open>The result, the stream, and the frames to write.\<close>

type_synonym ('d, 'i) written = "int \<times> ('d, 'i) deflate_stream \<times> ws_frame list"

definition AppendCompressedFrame ::
    "('d, 'i) codec \<Rightarrow> ws_frame \<Rightarrow> ('d, 'i) deflate_stream \<Rightarrow> ws_frame list \<Rightarrow> ('d, 'i) written" where
  "AppendCompressedFrame c f s frames_to_write =
     (case deflate_get c (ds_deflater s) (deflate_size c (ds_deflater s)) of
        None \<Rightarrow> (net_ERR_WS_PROTOCOL_ERROR, s, frames_to_write)
      | Some (payload, d) \<Rightarrow>
          (net_OK, s\<lparr>ds_deflater := d, ds_writing_opcode := kOpCodeContinuation\<rparr>,
           frames_to_write @ [f\<lparr>wf_opcode := ds_writing_opcode s, wf_reserved1 := (ds_writing_opcode s \<noteq> kOpCodeContinuation), wf_data := payload\<rparr>]))"

definition one_message :: "ws_frame list \<Rightarrow> bool" where
  "one_message frames \<longleftrightarrow> frames \<noteq> [] \<and> (\<forall>i < length frames. IsKnownDataOpCode (wf_opcode (frames ! i)) \<and>
     (i = 0) = (wf_opcode (frames ! i) \<noteq> kOpCodeContinuation) \<and> (i = length frames - 1) = wf_final (frames ! i))"

definition AppendPossiblyCompressedMessage ::
    "('d, 'i) codec \<Rightarrow> ws_frame list \<Rightarrow> ('d, 'i) deflate_stream \<Rightarrow> ws_frame list \<Rightarrow> ('d, 'i) written option" where
  "AppendPossiblyCompressedMessage c frames s frames_to_write =
     (if frames = [] then None
      else case deflate_get c (ds_deflater s) (deflate_size c (ds_deflater s)) of
        None \<Rightarrow> Some (net_ERR_WS_PROTOCOL_ERROR, s, frames_to_write)
      | Some (payload, d) \<Rightarrow>
          if \<not> one_message frames then None
          else if (\<Sum>f \<leftarrow> frames. length (wf_data f)) \<le> length payload
          then Some (net_OK, s\<lparr>ds_deflater := d\<rparr>, frames_to_write @ frames)
          else Some (net_OK, s\<lparr>ds_deflater := d\<rparr>,
            frames_to_write @ [(hd frames)\<lparr>wf_opcode := ds_writing_opcode s, wf_final := True, wf_reserved1 := True, wf_data := payload\<rparr>]))"

text \<open>The bytes of a frame go to the deflater, which is finished with the last frame of the message.\<close>

definition deflate_bytes :: "('d, 'i) codec \<Rightarrow> ws_frame \<Rightarrow> 'd \<Rightarrow> 'd option" where
  "deflate_bytes c f d =
     (case if wf_data f = [] then Some d else deflate_add c d (wf_data f) of
        None \<Rightarrow> None
      | Some d1 \<Rightarrow> if wf_final f then deflate_finish c d1 else Some d1)"

fun deflate_loop ::
    "('d, 'i) codec \<Rightarrow> ws_frame list \<Rightarrow> ws_frame list \<Rightarrow> ('d, 'i) deflate_stream \<Rightarrow> ws_frame list \<Rightarrow> ('d, 'i) written option" where
  "deflate_loop c [] frames_of_message s frames_to_write =
     (if ds_writing s = WRITING_POSSIBLY_COMPRESSED_MESSAGE then None else Some (net_OK, s, frames_to_write))"
| "deflate_loop c (f # frames) frames_of_message s frames_to_write =
     (if wf_reserved1 f then None
      else if \<not> IsKnownDataOpCode (wf_opcode f) then deflate_loop c frames frames_of_message s (frames_to_write @ [f])
      else
        (case (if ds_writing s = NOT_WRITING then OnMessageStart f s else Some s) of
           None \<Rightarrow> None
         | Some s1 \<Rightarrow>
             if ds_writing s1 = WRITING_UNCOMPRESSED_MESSAGE
             then deflate_loop c frames frames_of_message
               (s1\<lparr>ds_writing := (if wf_final f then NOT_WRITING else ds_writing s1), ds_writing_opcode := kOpCodeContinuation\<rparr>) (frames_to_write @ [f])
             else
               (case deflate_bytes c f (ds_deflater s1) of
                  None \<Rightarrow> Some (net_ERR_WS_PROTOCOL_ERROR, s1, frames_to_write)
                | Some d \<Rightarrow>
                    let s2 = s1\<lparr>ds_deflater := d\<rparr> in
                    if ds_writing s2 = WRITING_COMPRESSED_MESSAGE then
                      (case (if deflate_size c d \<ge> kChunkSize \<or> wf_final f then AppendCompressedFrame c f s2 frames_to_write else (net_OK, s2, frames_to_write)) of
                         (result, s3, out) \<Rightarrow>
                           if result \<noteq> net_OK then Some (result, s3, out)
                           else deflate_loop c frames frames_of_message (if wf_final f then s3\<lparr>ds_writing := NOT_WRITING\<rparr> else s3) out)
                    else if wf_final f then
                      (case AppendPossiblyCompressedMessage c (frames_of_message @ [f]) s2 frames_to_write of
                         None \<Rightarrow> None
                       | Some (result, s3, out) \<Rightarrow>
                           if result \<noteq> net_OK then Some (result, s3, out) else deflate_loop c frames [] (s3\<lparr>ds_writing := NOT_WRITING\<rparr>) out)
                    else deflate_loop c frames (frames_of_message @ [f]) s2 frames_to_write)))"

definition Deflate :: "('d, 'i) codec \<Rightarrow> ws_frame list \<Rightarrow> ('d, 'i) deflate_stream \<Rightarrow> ('d, 'i) written option" where
  "Deflate c frames s = deflate_loop c frames [] s []"

text \<open>The write, given what the stream below answers; with the frames that it was given, if any.\<close>

definition DeflateStream_WriteFrames ::
    "('d, 'i) codec \<Rightarrow> (ws_frame list \<Rightarrow> int) \<Rightarrow> ws_frame list \<Rightarrow> ('d, 'i) deflate_stream \<Rightarrow> ('d, 'i) written option" where
  "DeflateStream_WriteFrames c Write frames s =
     (case Deflate c frames s of
        None \<Rightarrow> None
      | Some (result, s1, out) \<Rightarrow>
          if result \<noteq> net_OK then Some (result, s1, [])
          else if out = [] then Some (net_OK, s1, [])
          else Some (Write out, s1, out))"

section \<open>Reading\<close>

partial_function (option) inflate_chunks ::
    "('d, 'i) codec \<Rightarrow> ws_frame \<Rightarrow> ('d, 'i) deflate_stream \<Rightarrow> ws_frame list \<Rightarrow> ('d, 'i) written option" where
  "inflate_chunks c f s out =
     (if inflate_size c (ds_inflater s) \<ge> kChunkSize \<or> wf_final f then
        case inflate_get c (ds_inflater s) (min kChunkSize (inflate_size c (ds_inflater s))) of
          None \<Rightarrow> Some (net_ERR_WS_PROTOCOL_ERROR, s, out)
        | Some (data, i) \<Rightarrow>
            let is_final = (inflate_size c i = 0 \<and> wf_final f);
                out1 = out @ [f\<lparr>wf_opcode := ds_reading_opcode s, wf_final := is_final, wf_reserved1 := False, wf_data := data\<rparr>];
                s1 = s\<lparr>ds_inflater := i, ds_reading_opcode := kOpCodeContinuation\<rparr> in
            if is_final then Some (net_OK, s1, out1) else inflate_chunks c f s1 out1
      else Some (net_OK, s, out))"

definition inflate_bytes :: "('d, 'i) codec \<Rightarrow> ws_frame \<Rightarrow> 'i \<Rightarrow> 'i option" where
  "inflate_bytes c f i =
     (case if wf_data f = [] then Some i else inflate_add c i (wf_data f) of
        None \<Rightarrow> None
      | Some i1 \<Rightarrow> if wf_final f then inflate_finish c i1 else Some i1)"

text \<open>Which message a data frame belongs to; \<open>None\<close> is the error that the compression bit is set inside a message.\<close>

definition enter_message :: "ws_frame \<Rightarrow> ('d, 'i) deflate_stream \<Rightarrow> ('d, 'i) deflate_stream option" where
  "enter_message f s =
     (if ds_reading s = NOT_READING
      then Some (s\<lparr>ds_reading := (if wf_reserved1 f then READING_COMPRESSED_MESSAGE else READING_UNCOMPRESSED_MESSAGE), ds_reading_opcode := wf_opcode f\<rparr>)
      else if wf_reserved1 f then None else Some s)"

fun inflate_loop ::
    "('d, 'i) codec \<Rightarrow> ws_frame list \<Rightarrow> ('d, 'i) deflate_stream \<Rightarrow> ws_frame list \<Rightarrow> ('d, 'i) written option" where
  "inflate_loop c [] s out = Some (if out = [] then ERR_IO_PENDING else net_OK, s, out)"
| "inflate_loop c (f # frames) s out =
     (if \<not> IsKnownDataOpCode (wf_opcode f) then inflate_loop c frames s (out @ [f])
      else
        (case enter_message f s of
           None \<Rightarrow> Some (net_ERR_WS_PROTOCOL_ERROR, s, [])
         | Some s1 \<Rightarrow>
             if ds_reading s1 = READING_UNCOMPRESSED_MESSAGE
             then inflate_loop c frames
               (s1\<lparr>ds_reading := (if wf_final f then NOT_READING else ds_reading s1), ds_reading_opcode := kOpCodeContinuation\<rparr>) (out @ [f])
             else
               (case inflate_bytes c f (ds_inflater s1) of
                  None \<Rightarrow> Some (net_ERR_WS_PROTOCOL_ERROR, s1, [])
                | Some i \<Rightarrow>
                    (case inflate_chunks c f (s1\<lparr>ds_inflater := i\<rparr>) out of
                       None \<Rightarrow> None
                     | Some (result, s2, out1) \<Rightarrow>
                         if result \<noteq> net_OK then Some (result, s2, [])
                         else inflate_loop c frames (if wf_final f then s2\<lparr>ds_reading := NOT_READING\<rparr> else s2) out1))))"

definition Inflate :: "('d, 'i) codec \<Rightarrow> ws_frame list \<Rightarrow> ('d, 'i) deflate_stream \<Rightarrow> ('d, 'i) written option" where
  "Inflate c frames s = inflate_loop c frames s []"

text \<open>
  More frames are read as long as none comes out.  \<open>Read\<close> answers the n-th read: a result and the frames read.
\<close>

partial_function (option) InflateAndReadIfNecessary ::
    "('d, 'i) codec \<Rightarrow> (nat \<Rightarrow> int \<times> ws_frame list) \<Rightarrow> nat \<Rightarrow> ws_frame list \<Rightarrow> ('d, 'i) deflate_stream \<Rightarrow> (nat \<times> ('d, 'i) written) option" where
  "InflateAndReadIfNecessary c Read n frames s =
     (case Inflate c frames s of
        None \<Rightarrow> None
      | Some (result, s1, out) \<Rightarrow>
          if result \<noteq> ERR_IO_PENDING then Some (n, result, s1, if result < 0 then [] else out)
          else case Read n of (r, fs) \<Rightarrow>
            if r < 0 then Some (n + 1, r, s1, [])
            else if r \<noteq> net_OK \<or> fs = [] then None
            else InflateAndReadIfNecessary c Read (n + 1) fs s1)"

definition DeflateStream_ReadFrames ::
    "('d, 'i) codec \<Rightarrow> (nat \<Rightarrow> int \<times> ws_frame list) \<Rightarrow> nat \<Rightarrow> ('d, 'i) deflate_stream \<Rightarrow> (nat \<times> ('d, 'i) written) option" where
  "DeflateStream_ReadFrames c Read n s =
     (case Read n of (r, fs) \<Rightarrow>
        if r < 0 then Some (n + 1, r, s, [])
        else if r \<noteq> net_OK \<or> fs = [] then None
        else InflateAndReadIfNecessary c Read (n + 1) fs s)"

text \<open>A read that was pending completes; the callback is run unless the read is pending again.\<close>

definition DeflateStream_OnReadComplete ::
    "('d, 'i) codec \<Rightarrow> (nat \<Rightarrow> int \<times> ws_frame list) \<Rightarrow> nat \<Rightarrow> int \<Rightarrow> ws_frame list \<Rightarrow> ('d, 'i) deflate_stream \<Rightarrow> (nat \<times> ('d, 'i) written) option" where
  "DeflateStream_OnReadComplete c Read n result frames s =
     (if result \<noteq> net_OK then Some (n, result, s, []) else InflateAndReadIfNecessary c Read n frames s)"

end
