(* ===== verification/Felicia_WebSocketDeflateProps.thy ===== *)
theory Felicia_WebSocketDeflateProps
  imports Felicia_WebSocketDeflate
begin

text \<open>
  Messages survive compression: what one end of a web socket gives to its deflating stream comes out of the inflating stream of the other,
  wherever the frames are cut, if the codec does what zlib documents.
\<close>

section \<open>Messages\<close>

text \<open>
  What a sequence of frames amounts to: the message begun with its opcode, whether it is compressed and its bytes, the control
  frames and messages in the order in which they are complete, and whether the frames follow each other as they should.
\<close>

datatype ws_item = ControlItem ws_frame | MessageItem opcode bool bytes

type_synonym gathered = "(opcode \<times> bool \<times> bytes) option \<times> ws_item list \<times> bool"

fun gather_frame :: "gathered \<Rightarrow> ws_frame \<Rightarrow> gathered" where
  "gather_frame (begun, items, ok) f =
     (if \<not> IsKnownDataOpCode (wf_opcode f) then (begun, items @ [ControlItem f], ok)
      else
        let (opc, compressed, bs) = (case begun of None \<Rightarrow> (wf_opcode f, wf_reserved1 f, wf_data f) | Some (opc, compressed, bs) \<Rightarrow> (opc, compressed, bs @ wf_data f));
            follows = (if begun = None then wf_opcode f \<noteq> kOpCodeContinuation else wf_opcode f = kOpCodeContinuation \<and> \<not> wf_reserved1 f) in
        if wf_final f then (None, items @ [MessageItem opc compressed bs], ok \<and> follows) else (Some (opc, compressed, bs), items, ok \<and> follows))"

declare gather_frame.simps [simp del]

definition gather :: "ws_frame list \<Rightarrow> gathered" where
  "gather fs = foldl gather_frame (None, [], True) fs"

lemma gather_simps [simp]: "gather [] = (None, [], True)" "gather (fs @ [f]) = gather_frame (gather fs) f"
  by (simp_all add: gather_def)

lemma gather_ok_prefix: "snd (snd (gather (xs @ ys))) \<Longrightarrow> snd (snd (gather xs))"
proof (induction ys rule: rev_induct)
  case (snoc f ys)
  obtain b items ok where g: "gather (xs @ ys) = (b, items, ok)" by (metis prod_cases3)
  have "gather (xs @ ys @ [f]) = gather_frame (b, items, ok) f" using g by (metis append_assoc gather_simps(2))
  with snoc.prems have ok by (auto simp: gather_frame.simps Let_def split: if_splits option.splits)
  with snoc.IH g show ?case by simp
qed simp

text \<open>A message that is begun is part of one that is complete in the end.\<close>

lemma begun_completed:
  assumes "gather xs = (Some (opc, compressed, bs), items, ok)"
  shows "(\<exists>more. fst (gather (xs @ ys)) = Some (opc, compressed, bs @ more)) \<or>
    (\<exists>more. MessageItem opc compressed (bs @ more) \<in> set (fst (snd (gather (xs @ ys)))))"
proof (induction ys rule: rev_induct)
  case Nil
  then show ?case using assms by (simp add: exI [of _ "[]"])
next
  case (snoc f ys)
  obtain b items' ok' where g: "gather (xs @ ys) = (b, items', ok')" by (metis prod_cases3)
  have "gather (xs @ ys @ [f]) = gather_frame (b, items', ok') f" using g by (metis append_assoc gather_simps(2))
  with snoc.IH g show ?case by (auto simp: gather_frame.simps Let_def split: option.splits)
qed

section \<open>The codec\<close>

text \<open>
  \<open>D d xs ys finished\<close>: the deflater has taken the bytes \<open>xs\<close> of the current message and given out \<open>ys\<close>, and \<open>I i ys xs finished\<close> the
  other way round for the inflater.  All that was given out for a finished message decodes to what was taken, and with it the state is
  as for a new message, since no context is taken over.  An inflater takes what can still be decoded, gives out as much as it has
  when asked, and has something as long as there is more.
\<close>

definition deflater_laws :: "('d, 'i) codec \<Rightarrow> (bytes \<Rightarrow> bytes option) \<Rightarrow> ('d \<Rightarrow> bytes \<Rightarrow> bytes \<Rightarrow> bool \<Rightarrow> bool) \<Rightarrow> bool" where
  "deflater_laws c decode D \<longleftrightarrow>
     (\<forall>d xs ys bs d'. D d xs ys False \<longrightarrow> deflate_add c d bs = Some d' \<longrightarrow> D d' (xs @ bs) ys False) \<and>
     (\<forall>d xs ys d'. D d xs ys False \<longrightarrow> deflate_finish c d = Some d' \<longrightarrow> D d' xs ys True) \<and>
     (\<forall>d xs ys out d'. D d xs ys False \<longrightarrow> deflate_get c d (deflate_size c d) = Some (out, d') \<longrightarrow> D d' xs (ys @ out) False) \<and>
     (\<forall>d xs ys out d'. D d xs ys True \<longrightarrow> deflate_get c d (deflate_size c d) = Some (out, d') \<longrightarrow>
        decode (ys @ out) = Some xs \<and> D d' [] [] False)"

definition inflater_laws :: "('d, 'i) codec \<Rightarrow> (bytes \<Rightarrow> bytes option) \<Rightarrow> ('i \<Rightarrow> bytes \<Rightarrow> bytes \<Rightarrow> bool \<Rightarrow> bool) \<Rightarrow> bool" where
  "inflater_laws c decode I \<longleftrightarrow>
     (\<forall>i ys xs bs more zs. I i ys xs False \<longrightarrow> decode (ys @ bs @ more) = Some zs \<longrightarrow> (\<exists>i'. inflate_add c i bs = Some i' \<and> I i' (ys @ bs) xs False)) \<and>
     (\<forall>i ys xs zs. I i ys xs False \<longrightarrow> decode ys = Some zs \<longrightarrow> (\<exists>i'. inflate_finish c i = Some i' \<and> I i' ys xs True)) \<and>
     (\<forall>i ys xs more zs n. I i ys xs False \<longrightarrow> decode (ys @ more) = Some zs \<longrightarrow> n \<le> inflate_size c i \<longrightarrow>
        (\<exists>out i'. inflate_get c i n = Some (out, i') \<and> length out = n \<and> length (xs @ out) \<le> length zs \<and> I i' ys (xs @ out) False)) \<and>
     (\<forall>i ys xs zs. I i ys xs True \<longrightarrow> decode ys = Some zs \<longrightarrow>
        (\<exists>rest. zs = xs @ rest \<and> inflate_size c i \<le> length rest \<and> (inflate_size c i = 0 \<longrightarrow> rest = []) \<and>
           (\<forall>n \<le> inflate_size c i. \<exists>i'. inflate_get c i n = Some (take n rest, i') \<and>
              (if n = length rest then I i' [] [] False else I i' ys (xs @ take n rest) True)))) \<and>
     (\<forall>i. I i [] [] False \<longrightarrow> inflate_size c i = 0)"

lemma inflater_laws_add:
  "inflater_laws c decode I \<Longrightarrow> I i ys xs False \<Longrightarrow> decode (ys @ bs @ later) = Some zs \<Longrightarrow>
   \<exists>i'. inflate_add c i bs = Some i' \<and> I i' (ys @ bs) xs False"
  unfolding inflater_laws_def by (elim conjE) metis

lemma inflater_laws_finish:
  "inflater_laws c decode I \<Longrightarrow> I i ys xs False \<Longrightarrow> decode ys = Some zs \<Longrightarrow> \<exists>i'. inflate_finish c i = Some i' \<and> I i' ys xs True"
  unfolding inflater_laws_def by (elim conjE) metis

lemma inflater_laws_get:
  "inflater_laws c decode I \<Longrightarrow> I i ys xs False \<Longrightarrow> decode (ys @ later) = Some zs \<Longrightarrow> n \<le> inflate_size c i \<Longrightarrow>
   \<exists>out i'. inflate_get c i n = Some (out, i') \<and> length out = n \<and> length (xs @ out) \<le> length zs \<and> I i' ys (xs @ out) False"
  unfolding inflater_laws_def by (elim conjE) simp

lemma inflater_laws_rest:
  "inflater_laws c decode I \<Longrightarrow> I i ys xs True \<Longrightarrow> decode ys = Some zs \<Longrightarrow>
   \<exists>rest. zs = xs @ rest \<and> inflate_size c i \<le> length rest \<and> (inflate_size c i = 0 \<longrightarrow> rest = []) \<and>
     (\<forall>n \<le> inflate_size c i. \<exists>i'. inflate_get c i n = Some (take n rest, i') \<and>
        (if n = length rest then I i' [] [] False else I i' ys (xs @ take n rest) True))"
  unfolding inflater_laws_def by simp

lemma inflater_laws_fresh: "inflater_laws c decode I \<Longrightarrow> I i [] [] False \<Longrightarrow> inflate_size c i = 0"
  unfolding inflater_laws_def by simp

section \<open>Writing\<close>

text \<open>A frame or message and what goes over the wire for it.\<close>

fun encodes :: "(bytes \<Rightarrow> bytes option) \<Rightarrow> ws_item \<Rightarrow> ws_item \<Rightarrow> bool" where
  "encodes decode (ControlItem f) i = (i = ControlItem f)"
| "encodes decode (MessageItem opc compressed xs) i = (\<exists>ys. i = MessageItem opc True ys \<and> decode ys = Some xs)"

definition sent_so_far :: "('d, 'i) deflate_stream \<Rightarrow> opcode \<Rightarrow> bytes \<Rightarrow> (opcode \<times> bool \<times> bytes) option \<Rightarrow> bool" where
  "sent_so_far s opc ys b \<longleftrightarrow>
     (if ds_writing_opcode s = kOpCodeContinuation then b = Some (opc, True, ys) else ds_writing_opcode s = opc \<and> b = None \<and> ys = [])"

lemma sent_so_far_deflater [simp]: "sent_so_far (s\<lparr>ds_deflater := d\<rparr>) = sent_so_far s"
  by (simp add: sent_so_far_def fun_eq_iff)

definition deflating :: "(bytes \<Rightarrow> bytes option) \<Rightarrow> ('d \<Rightarrow> bytes \<Rightarrow> bytes \<Rightarrow> bool \<Rightarrow> bool) \<Rightarrow>
    ws_frame list \<Rightarrow> ws_frame list \<Rightarrow> ('d, 'i) deflate_stream \<Rightarrow> bool" where
  "deflating decode D fs wire s \<longleftrightarrow> (\<exists>a items b wits. gather fs = (a, items, True) \<and> gather wire = (b, wits, True) \<and>
     list_all2 (encodes decode) items wits \<and>
     (case a of
        None \<Rightarrow> b = None \<and> ds_writing s = NOT_WRITING \<and> D (ds_deflater s) [] [] False
      | Some (opc, compressed, xs) \<Rightarrow> \<not> compressed \<and> opc \<noteq> kOpCodeContinuation \<and> IsKnownDataOpCode opc \<and> ds_writing s = WRITING_COMPRESSED_MESSAGE \<and>
          (\<exists>ys. D (ds_deflater s) xs ys False \<and>
             sent_so_far s opc ys b)))"

lemma deflate_bytes_law:
  assumes "deflater_laws c decode D" "D d xs ys False" "deflate_bytes c f d = Some d'"
  shows "D d' (xs @ wf_data f) ys (wf_final f)"
proof -
  from assms(3) obtain d1 where d1: "(if wf_data f = [] then Some d else deflate_add c d (wf_data f)) = Some d1"
    "(if wf_final f then deflate_finish c d1 else Some d1) = Some d'" by (auto simp: deflate_bytes_def split: option.splits)
  have "D d1 (xs @ wf_data f) ys False"
    using assms(1,2) d1(1) unfolding deflater_laws_def by (cases "wf_data f = []") auto
  with assms(1) d1(2) show ?thesis unfolding deflater_laws_def by (cases "wf_final f") auto
qed

text \<open>The frame written out for a chunk of a message that is begun.\<close>

lemma AppendCompressedFrame_deflating:
  assumes laws: "deflater_laws c decode D" and g: "gather wire = (b, wits, True)" "list_all2 (encodes decode) items wits"
    and begun: "opc \<noteq> kOpCodeContinuation" "IsKnownDataOpCode opc" "D (ds_deflater s) xs ys (wf_final f)" "ds_writing s = WRITING_COMPRESSED_MESSAGE"
      "sent_so_far s opc ys b"
    and fs: "gather fs = (if wf_final f then None else Some (opc, False, xs), if wf_final f then items @ [MessageItem opc False xs] else items, True)"
    and res: "AppendCompressedFrame c f s wire = (net_OK, s', wire')"
  shows "deflating decode D fs wire' (if wf_final f then s'\<lparr>ds_writing := NOT_WRITING\<rparr> else s')"
proof -
  from res obtain out d where get: "deflate_get c (ds_deflater s) (deflate_size c (ds_deflater s)) = Some (out, d)"
    and s': "s' = s\<lparr>ds_deflater := d, ds_writing_opcode := kOpCodeContinuation\<rparr>"
    and wire': "wire' = wire @ [f\<lparr>wf_opcode := ds_writing_opcode s, wf_reserved1 := (ds_writing_opcode s \<noteq> kOpCodeContinuation), wf_data := out\<rparr>]"
    by (auto simp: AppendCompressedFrame_def net_errors split: option.splits)
  have known: "IsKnownDataOpCode kOpCodeContinuation" by (simp add: IsKnownDataOpCode_def)
  have w: "gather wire' = (if wf_final f then None else Some (opc, True, ys @ out), if wf_final f then wits @ [MessageItem opc True (ys @ out)] else wits, True)"
    using begun(1,2,5) g(1) known unfolding wire' by (auto simp: gather_frame.simps sent_so_far_def Let_def split: if_splits)
  show ?thesis
  proof (cases "wf_final f")
    case True
    then have "decode (ys @ out) = Some xs" "D d [] [] False" using laws begun(3) get unfolding deflater_laws_def by auto
    with True w fs g(2) show ?thesis by (simp add: deflating_def s' list_all2_appendI)
  next
    case False
    then have "D d xs (ys @ out) False" using laws begun(3) get unfolding deflater_laws_def by auto
    with False w fs g(2) begun show ?thesis by (simp add: deflating_def sent_so_far_def s')
  qed
qed

text \<open>A data frame continues the message that is begun, or begins one.\<close>

lemma data_frame_begun:
  assumes "deflating decode D fs wire s" "snd (snd (gather (fs @ [f])))" "\<not> wf_reserved1 f" "IsKnownDataOpCode (wf_opcode f)"
  shows "\<exists>s1 opc xs ys items b wits. (if ds_writing s = NOT_WRITING then OnMessageStart f s else Some s) = Some s1 \<and>
    ds_writing s1 = WRITING_COMPRESSED_MESSAGE \<and> gather wire = (b, wits, True) \<and> list_all2 (encodes decode) items wits \<and>
    opc \<noteq> kOpCodeContinuation \<and> IsKnownDataOpCode opc \<and> D (ds_deflater s1) xs ys False \<and>
    sent_so_far s1 opc ys b \<and>
    gather (fs @ [f]) = (if wf_final f then None else Some (opc, False, xs @ wf_data f),
      if wf_final f then items @ [MessageItem opc False (xs @ wf_data f)] else items, True)"
proof -
  from assms(1) obtain a items b wits where d: "gather fs = (a, items, True)" "gather wire = (b, wits, True)"
    "list_all2 (encodes decode) items wits"
    "case a of
        None \<Rightarrow> b = None \<and> ds_writing s = NOT_WRITING \<and> D (ds_deflater s) [] [] False
      | Some (opc, compressed, xs) \<Rightarrow> \<not> compressed \<and> opc \<noteq> kOpCodeContinuation \<and> IsKnownDataOpCode opc \<and> ds_writing s = WRITING_COMPRESSED_MESSAGE \<and>
          (\<exists>ys. D (ds_deflater s) xs ys False \<and>
             sent_so_far s opc ys b)"
    unfolding deflating_def by blast
  show ?thesis
  proof (cases a)
    case None
    then have op: "wf_opcode f \<noteq> kOpCodeContinuation" using assms(2,4) d(1) by (auto simp: gather_frame.simps Let_def split: if_splits)
    then have "OnMessageStart f s = Some (s\<lparr>ds_writing_opcode := wf_opcode f, ds_writing := WRITING_COMPRESSED_MESSAGE\<rparr>)"
      using assms(4) by (auto simp: OnMessageStart_def IsKnownDataOpCode_def)
    moreover have "gather (fs @ [f]) = (if wf_final f then None else Some (wf_opcode f, False, wf_data f),
        if wf_final f then items @ [MessageItem (wf_opcode f) False (wf_data f)] else items, True)"
      using None d(1) op assms(3,4) by (simp add: gather_frame.simps)
    ultimately show ?thesis using None d(2-4) op assms(4)
      by (intro exI [of _ "s\<lparr>ds_writing_opcode := wf_opcode f, ds_writing := WRITING_COMPRESSED_MESSAGE\<rparr>"] exI [of _ "wf_opcode f"]
          exI [of _ "[]"] exI [of _ items] exI [of _ b] exI [of _ wits]) (simp add: sent_so_far_def)
  next
    case (Some m)
    obtain opc compressed xs where m: "m = (opc, compressed, xs)" by (cases m)
    from d(4) Some m obtain ys where ys: "D (ds_deflater s) xs ys False"
      "sent_so_far s opc ys b" by auto
    have "gather (fs @ [f]) = (if wf_final f then None else Some (opc, False, xs @ wf_data f),
        if wf_final f then items @ [MessageItem opc False (xs @ wf_data f)] else items, True)"
      using Some m d(1,4) assms(2,4) by (auto simp: gather_frame.simps Let_def split: if_splits)
    then show ?thesis using Some m d(2-4) ys
      by (intro exI [of _ s] exI [of _ opc] exI [of _ xs] exI [of _ ys] exI [of _ items] exI [of _ b] exI [of _ wits]) simp
  qed
qed

lemma control_frame_deflating:
  "deflating decode D fs wire s \<Longrightarrow> \<not> IsKnownDataOpCode (wf_opcode f) \<Longrightarrow> deflating decode D (fs @ [f]) (wire @ [f]) s"
  unfolding deflating_def
  by (elim exE conjE, intro exI conjI) (assumption | simp add: gather_frame.simps list_all2_appendI)+

lemma deflate_loop_deflating:
  assumes "deflater_laws c decode D" "deflating decode D done_fs wire s" "snd (snd (gather (done_fs @ fs)))" "\<forall>f \<in> set fs. \<not> wf_reserved1 f"
  shows "\<exists>r s' wire'. deflate_loop c fs [] s wire = Some (r, s', wire') \<and> r \<le> net_OK \<and> (r = net_OK \<longrightarrow> deflating decode D (done_fs @ fs) wire' s')"
  using assms(2-)
proof (induction fs arbitrary: done_fs s wire)
  case Nil
  then have "ds_writing s \<noteq> WRITING_POSSIBLY_COMPRESSED_MESSAGE" by (auto simp: deflating_def split: option.splits)
  with Nil show ?case by simp
next
  case (Cons f fs)
  have ok: "snd (snd (gather (done_fs @ [f])))" using gather_ok_prefix [of "done_fs @ [f]" fs] Cons.prems(2) by simp
  note IH = Cons.IH [of "done_fs @ [f]", simplified, OF _ Cons.prems(2)]
  have rest: "\<forall>f \<in> set fs. \<not> wf_reserved1 f" "\<not> wf_reserved1 f" using Cons.prems(3) by auto
  show ?case
  proof (cases "IsKnownDataOpCode (wf_opcode f)")
    case False
    from IH [OF control_frame_deflating [OF Cons.prems(1) False] rest(1)] False rest(2) show ?thesis by simp
  next
    case True
    from data_frame_begun [OF Cons.prems(1) ok rest(2) True] obtain s1 opc xs ys items b wits where
      s1: "(if ds_writing s = NOT_WRITING then OnMessageStart f s else Some s) = Some s1" "ds_writing s1 = WRITING_COMPRESSED_MESSAGE"
      and w: "gather wire = (b, wits, True)" "list_all2 (encodes decode) items wits"
      and opc: "opc \<noteq> kOpCodeContinuation" "IsKnownDataOpCode opc" and D: "D (ds_deflater s1) xs ys False"
      and b: "sent_so_far s1 opc ys b"
      and g: "gather (done_fs @ [f]) = (if wf_final f then None else Some (opc, False, xs @ wf_data f),
        if wf_final f then items @ [MessageItem opc False (xs @ wf_data f)] else items, True)" by blast
    show ?thesis
    proof (cases "deflate_bytes c f (ds_deflater s1)")
      case None
      then show ?thesis using True rest(2) s1 by (simp add: net_errors)
    next
      case (Some d)
      let ?s2 = "s1\<lparr>ds_deflater := d\<rparr>"
      have D2: "D (ds_deflater ?s2) (xs @ wf_data f) ys (wf_final f)" using deflate_bytes_law [OF assms(1) D Some] by simp
      show ?thesis
      proof (cases "deflate_size c d \<ge> kChunkSize \<or> wf_final f")
        case False
        have "deflating decode D (done_fs @ [f]) wire ?s2" unfolding deflating_def using w opc s1(2) b g D2 False by auto
        from IH [OF this rest(1)] show ?thesis using True rest(2) s1 Some False by simp
      next
        case app: True
        obtain r s3 out where a: "AppendCompressedFrame c f ?s2 wire = (r, s3, out)" by (metis prod_cases3)
        have eq: "deflate_loop c (f # fs) [] s wire =
            (if r \<noteq> net_OK then Some (r, s3, out) else deflate_loop c fs [] (if wf_final f then s3\<lparr>ds_writing := NOT_WRITING\<rparr> else s3) out)"
          using True rest(2) s1 Some app a by simp
        show ?thesis
        proof (cases "r = net_OK")
          case r: True
          have "deflating decode D (done_fs @ [f]) out (if wf_final f then s3\<lparr>ds_writing := NOT_WRITING\<rparr> else s3)"
            by (rule AppendCompressedFrame_deflating [OF assms(1) w opc D2 _ _ g]) (use s1(2) b a r in simp_all)
          from IH [OF this rest(1)] eq r show ?thesis by simp
        next
          case False
          with a have "r \<le> net_OK" by (auto simp: AppendCompressedFrame_def net_errors split: option.splits)
          with eq False show ?thesis by simp
        qed
      qed
    qed
  qed
qed

section \<open>Reading\<close>

fun decodes :: "(bytes \<Rightarrow> bytes option) \<Rightarrow> ws_item \<Rightarrow> ws_item \<Rightarrow> bool" where
  "decodes decode (ControlItem f) i = (i = ControlItem f)"
| "decodes decode (MessageItem opc compressed ys) i =
     (if compressed then \<exists>xs. i = MessageItem opc False xs \<and> decode ys = Some xs else i = MessageItem opc False ys)"

definition given_so_far :: "('d, 'i) deflate_stream \<Rightarrow> opcode \<Rightarrow> bytes \<Rightarrow> (opcode \<times> bool \<times> bytes) option \<Rightarrow> bool" where
  "given_so_far s opc xs a \<longleftrightarrow>
     (if ds_reading_opcode s = kOpCodeContinuation then a = Some (opc, False, xs) else ds_reading_opcode s = opc \<and> a = None \<and> xs = [])"

lemma given_so_far_inflater [simp]: "given_so_far (s\<lparr>ds_inflater := i\<rparr>) = given_so_far s"
  by (simp add: given_so_far_def fun_eq_iff)

definition inflating :: "(bytes \<Rightarrow> bytes option) \<Rightarrow> ('i \<Rightarrow> bytes \<Rightarrow> bytes \<Rightarrow> bool \<Rightarrow> bool) \<Rightarrow>
    ws_frame list \<Rightarrow> ws_frame list \<Rightarrow> ('d, 'i) deflate_stream \<Rightarrow> bool" where
  "inflating decode I wire out s \<longleftrightarrow> (\<exists>b wits a items. gather wire = (b, wits, True) \<and> gather out = (a, items, True) \<and>
     list_all2 (decodes decode) wits items \<and>
     (case b of
        None \<Rightarrow> a = None \<and> ds_reading s = NOT_READING \<and> I (ds_inflater s) [] [] False
      | Some (opc, compressed, ys) \<Rightarrow> opc \<noteq> kOpCodeContinuation \<and> IsKnownDataOpCode opc \<and>
          (if compressed then ds_reading s = READING_COMPRESSED_MESSAGE \<and> (\<exists>xs. I (ds_inflater s) ys xs False \<and> given_so_far s opc xs a)
           else ds_reading s = READING_UNCOMPRESSED_MESSAGE \<and> a = Some (opc, False, ys) \<and> I (ds_inflater s) [] [] False)))"

lemma control_frame_inflating:
  "inflating decode I wire out s \<Longrightarrow> \<not> IsKnownDataOpCode (wf_opcode f) \<Longrightarrow> inflating decode I (wire @ [f]) (out @ [f]) s"
  unfolding inflating_def
  by (elim exE conjE, intro exI conjI) (assumption | simp add: gather_frame.simps list_all2_appendI)+

text \<open>A frame of inflated bytes.\<close>

lemma gather_chunk:
  assumes "gather (pre @ out) = (a, items, True)" "given_so_far s opc xs a" "opc \<noteq> kOpCodeContinuation" "IsKnownDataOpCode opc"
  shows "gather (pre @ out @ [f\<lparr>wf_opcode := ds_reading_opcode s, wf_final := fin, wf_reserved1 := False, wf_data := bs\<rparr>]) =
    (if fin then None else Some (opc, False, xs @ bs), if fin then items @ [MessageItem opc False (xs @ bs)] else items, True)"
proof -
  have "IsKnownDataOpCode kOpCodeContinuation" by (simp add: IsKnownDataOpCode_def)
  with assms(2-) show ?thesis unfolding append_assoc [symmetric] gather_simps assms(1)
    by (auto simp: gather_frame.simps given_so_far_def Let_def split: if_splits)
qed

text \<open>Inside a message the chunks that are full are given out.\<close>

lemma inflate_chunks_more:
  assumes laws: "inflater_laws c decode I" and fin: "\<not> wf_final f" and opc: "opc \<noteq> kOpCodeContinuation" "IsKnownDataOpCode opc"
    and dec: "decode (ys @ later) = Some zs"
  shows "I (ds_inflater s) ys xs False \<Longrightarrow> given_so_far s opc xs a \<Longrightarrow> gather (pre @ out) = (a, items, True) \<Longrightarrow>
    \<exists>s' out' xs' a'. inflate_chunks c f s out = Some (net_OK, s', out') \<and> I (ds_inflater s') ys xs' False \<and> given_so_far s' opc xs' a' \<and>
      gather (pre @ out') = (a', items, True) \<and> ds_reading s' = ds_reading s"
proof (induction "length zs - length xs" arbitrary: s xs a out rule: less_induct)
  case less
  show ?case
  proof (cases "inflate_size c (ds_inflater s) \<ge> kChunkSize")
    case True
    then have n: "min kChunkSize (inflate_size c (ds_inflater s)) = kChunkSize" "kChunkSize \<le> inflate_size c (ds_inflater s)" by simp_all
    from inflater_laws_get [OF laws less.prems(1) dec n(2)] obtain bs i where get: "inflate_get c (ds_inflater s) kChunkSize = Some (bs, i)"
      "length bs = kChunkSize" "length (xs @ bs) \<le> length zs" "I i ys (xs @ bs) False" by blast
    let ?s1 = "s\<lparr>ds_inflater := i, ds_reading_opcode := kOpCodeContinuation\<rparr>"
    let ?out1 = "out @ [f\<lparr>wf_opcode := ds_reading_opcode s, wf_final := False, wf_reserved1 := False, wf_data := bs\<rparr>]"
    have eq: "inflate_chunks c f s out = inflate_chunks c f ?s1 ?out1"
      using True get(1) n(1) fin by (subst inflate_chunks.simps) simp
    have g: "gather (pre @ ?out1) = (Some (opc, False, xs @ bs), items, True)" using gather_chunk [OF less.prems(3,2) opc, where f = f and fin = False and bs = bs] by simp
    have "length zs - length (xs @ bs) < length zs - length xs" using get(2,3) by (simp add: kChunkSize_def)
    from less.hyps [OF this, of ?s1 "Some (opc, False, xs @ bs)" ?out1] get(4) g eq show ?thesis by (simp add: given_so_far_def)
  next
    case False
    then have "inflate_chunks c f s out = Some (net_OK, s, out)" using fin by (subst inflate_chunks.simps) simp
    with less.prems show ?thesis by blast
  qed
qed

text \<open>With the last frame of a message all of it is.\<close>

lemma inflate_chunks_last:
  assumes laws: "inflater_laws c decode I" and fin: "wf_final f" and opc: "opc \<noteq> kOpCodeContinuation" "IsKnownDataOpCode opc"
    and dec: "decode ys = Some zs"
  shows "I (ds_inflater s) ys xs True \<Longrightarrow> given_so_far s opc xs a \<Longrightarrow> gather (pre @ out) = (a, items, True) \<Longrightarrow>
    \<exists>s' out'. inflate_chunks c f s out = Some (net_OK, s', out') \<and> I (ds_inflater s') [] [] False \<and>
      gather (pre @ out') = (None, items @ [MessageItem opc False zs], True)"
proof (induction "length zs - length xs" arbitrary: s xs a out rule: less_induct)
  case less
  let ?n = "min kChunkSize (inflate_size c (ds_inflater s))"
  from inflater_laws_rest [OF laws less.prems(1) dec] obtain rest where r:
    "zs = xs @ rest \<and> inflate_size c (ds_inflater s) \<le> length rest \<and> (inflate_size c (ds_inflater s) = 0 \<longrightarrow> rest = []) \<and>
     (\<forall>n \<le> inflate_size c (ds_inflater s). \<exists>i'. inflate_get c (ds_inflater s) n = Some (take n rest, i') \<and>
        (if n = length rest then I i' [] [] False else I i' ys (xs @ take n rest) True))" by (rule exE)
  note rest = r [THEN conjunct1] r [THEN conjunct2, THEN conjunct1] r [THEN conjunct2, THEN conjunct2, THEN conjunct1]
    and next_chunk = r [THEN conjunct2, THEN conjunct2, THEN conjunct2, rule_format, of ?n]
  from next_chunk obtain i where get: "inflate_get c (ds_inflater s) ?n = Some (take ?n rest, i)"
    "if ?n = length rest then I i [] [] False else I i ys (xs @ take ?n rest) True" by auto
  let ?out1 = "\<lambda>is_final. out @ [f\<lparr>wf_opcode := ds_reading_opcode s, wf_final := is_final, wf_reserved1 := False, wf_data := take ?n rest\<rparr>]"
  let ?s1 = "s\<lparr>ds_inflater := i, ds_reading_opcode := kOpCodeContinuation\<rparr>"
  note g = gather_chunk [OF less.prems(3,2) opc, where f = f and bs = "take ?n rest"]
  show ?case
  proof (cases "?n = length rest")
    case True
    then have i: "I i [] [] False" "inflate_size c i = 0" using get(2) inflater_laws_fresh [OF laws] by auto
    then have "inflate_chunks c f s out = Some (net_OK, ?s1, ?out1 True)" using fin get(1) by (subst inflate_chunks.simps) simp
    with i(1) g [of True] True rest(1) show ?thesis by simp
  next
    case False
    then have i: "I i ys (xs @ take ?n rest) True" using get(2) by simp
    have n: "0 < ?n" "?n < length rest" using False rest(2,3) by (auto simp: kChunkSize_def)
    have "inflate_size c i \<noteq> 0"
    proof
      assume zero: "inflate_size c i = 0"
      from inflater_laws_rest [OF laws i dec] obtain rest' where r': "zs = (xs @ take ?n rest) @ rest' \<and> inflate_size c i \<le> length rest' \<and>
          (inflate_size c i = 0 \<longrightarrow> rest' = []) \<and> (\<forall>n \<le> inflate_size c i. \<exists>i'. inflate_get c i n = Some (take n rest', i') \<and>
            (if n = length rest' then I i' [] [] False else I i' ys ((xs @ take ?n rest) @ take n rest') True))" by (rule exE)
      note r' [THEN conjunct1] r' [THEN conjunct2, THEN conjunct2, THEN conjunct1]
      with zero rest(1) n(2) show False by (auto simp: min_less_iff_disj)
    qed
    then have eq: "inflate_chunks c f s out = inflate_chunks c f ?s1 (?out1 False)" using fin get(1) by (subst inflate_chunks.simps) simp
    have "length zs - length (xs @ take ?n rest) < length zs - length xs" using n unfolding rest(1) length_append length_take by linarith
    from less.hyps [OF this, of ?s1 "Some (opc, False, xs @ take ?n rest)" "?out1 False"] i g [of False] eq show ?thesis by (simp add: given_so_far_def)
  qed
qed

text \<open>A data frame continues the message that is begun, or begins one.\<close>

lemma enter_message_begun:
  assumes "inflating decode I wire out s" "snd (snd (gather (wire @ [f])))" "IsKnownDataOpCode (wf_opcode f)"
  shows "\<exists>s1 opc ys items wits. enter_message f s = Some s1 \<and> opc \<noteq> kOpCodeContinuation \<and> IsKnownDataOpCode opc \<and>
    list_all2 (decodes decode) wits items \<and>
    gather (wire @ [f]) = (if wf_final f then None else Some (opc, ds_reading s1 = READING_COMPRESSED_MESSAGE, ys @ wf_data f),
      if wf_final f then wits @ [MessageItem opc (ds_reading s1 = READING_COMPRESSED_MESSAGE) (ys @ wf_data f)] else wits, True) \<and>
    (ds_reading s1 = READING_COMPRESSED_MESSAGE \<and> (\<exists>xs a. I (ds_inflater s1) ys xs False \<and> given_so_far s1 opc xs a \<and> gather out = (a, items, True)) \<or>
     ds_reading s1 = READING_UNCOMPRESSED_MESSAGE \<and> I (ds_inflater s1) [] [] False \<and>
       gather (out @ [f]) = (if wf_final f then None else Some (opc, False, ys @ wf_data f),
         if wf_final f then items @ [MessageItem opc False (ys @ wf_data f)] else items, True))"
proof -
  from assms(1) obtain b wits a items where d: "gather wire = (b, wits, True)" "gather out = (a, items, True)" "list_all2 (decodes decode) wits items"
    "case b of
        None \<Rightarrow> a = None \<and> ds_reading s = NOT_READING \<and> I (ds_inflater s) [] [] False
      | Some (opc, compressed, ys) \<Rightarrow> opc \<noteq> kOpCodeContinuation \<and> IsKnownDataOpCode opc \<and>
          (if compressed then ds_reading s = READING_COMPRESSED_MESSAGE \<and> (\<exists>xs. I (ds_inflater s) ys xs False \<and> given_so_far s opc xs a)
           else ds_reading s = READING_UNCOMPRESSED_MESSAGE \<and> a = Some (opc, False, ys) \<and> I (ds_inflater s) [] [] False)"
    unfolding inflating_def by blast
  show ?thesis
  proof (cases b)
    case None
    let ?s1 = "s\<lparr>ds_reading := (if wf_reserved1 f then READING_COMPRESSED_MESSAGE else READING_UNCOMPRESSED_MESSAGE), ds_reading_opcode := wf_opcode f\<rparr>"
    have op: "wf_opcode f \<noteq> kOpCodeContinuation" using None assms(2,3) d(1) by (auto simp: gather_frame.simps Let_def split: if_splits)
    have "enter_message f s = Some ?s1" using None d(4) by (simp add: enter_message_def)
    then show ?thesis using None d op assms(3)
      by (intro exI [of _ ?s1] exI [of _ "wf_opcode f"] exI [of _ "[]"] exI [of _ items] exI [of _ wits])
        (simp add: gather_frame.simps given_so_far_def)
  next
    case (Some m)
    obtain opc compressed ys where m: "m = (opc, compressed, ys)" by (cases m)
    have f: "wf_opcode f = kOpCodeContinuation" "\<not> wf_reserved1 f"
      using Some assms(2,3) d(1) by (auto simp: gather_frame.simps Let_def split: if_splits prod.splits)
    have "ds_reading s \<noteq> NOT_READING" using Some m d(4) by (auto split: if_splits)
    then have "enter_message f s = Some s" using f(2) by (simp add: enter_message_def)
    moreover have "gather (wire @ [f]) = (if wf_final f then None else Some (opc, compressed, ys @ wf_data f),
        if wf_final f then wits @ [MessageItem opc compressed (ys @ wf_data f)] else wits, True)"
      using Some m d(1) f assms(3) by (simp add: gather_frame.simps)
    moreover have "gather (out @ [f]) = (if wf_final f then None else Some (opc, False, ys @ wf_data f),
        if wf_final f then items @ [MessageItem opc False (ys @ wf_data f)] else items, True)" if "\<not> compressed"
      using Some m d(2,4) f assms(3) that by (simp add: gather_frame.simps)
    ultimately show ?thesis using Some m d(2-4)
      by (intro exI [of _ s] exI [of _ opc] exI [of _ ys] exI [of _ items] exI [of _ wits]) (cases compressed; auto)
  qed
qed

lemma inflate_bytes_law:
  assumes "inflater_laws c decode I" "I i ys xs False" "decode ((ys @ wf_data f) @ later) = Some zs" "wf_final f \<Longrightarrow> later = []"
  shows "\<exists>i'. inflate_bytes c f i = Some i' \<and> I i' (ys @ wf_data f) xs (wf_final f)"
proof -
  have "\<exists>i1. (if wf_data f = [] then Some i else inflate_add c i (wf_data f)) = Some i1 \<and> I i1 (ys @ wf_data f) xs False"
    using inflater_laws_add [OF assms(1,2), of "wf_data f" later zs] assms(2,3) by (cases "wf_data f = []") auto
  then obtain i1 where i1: "(if wf_data f = [] then Some i else inflate_add c i (wf_data f)) = Some i1" "I i1 (ys @ wf_data f) xs False" by blast
  show ?thesis
  proof (cases "wf_final f")
    case True
    then have "decode (ys @ wf_data f) = Some zs" using assms(3,4) by simp
    from inflater_laws_finish [OF assms(1) i1(2) this] i1(1) True show ?thesis by (auto simp: inflate_bytes_def)
  qed (use i1 in \<open>auto simp: inflate_bytes_def\<close>)
qed

text \<open>The bytes of a compressed message that is begun or complete can be decoded, as far as they go.\<close>

definition decodable :: "(bytes \<Rightarrow> bytes option) \<Rightarrow> ws_frame list \<Rightarrow> bool" where
  "decodable decode wire \<longleftrightarrow> fst (gather wire) = None \<and> (\<forall>opc ys. MessageItem opc True ys \<in> set (fst (snd (gather wire))) \<longrightarrow> decode ys \<noteq> None)"

lemma completed_kept: "i \<in> set (fst (snd (gather xs))) \<Longrightarrow> i \<in> set (fst (snd (gather (xs @ ys))))"
proof (induction ys rule: rev_induct)
  case (snoc f ys)
  obtain b items ok where g: "gather (xs @ ys) = (b, items, ok)" by (metis prod_cases3)
  have "gather (xs @ ys @ [f]) = gather_frame (b, items, ok) f" using g by (metis append_assoc gather_simps(2))
  with snoc g show ?case by (auto simp: gather_frame.simps Let_def split: option.splits)
qed simp

lemma decodable_message:
  assumes "decodable decode (wire @ rest)" "gather wire = (if fin then None else Some (opc, True, ys), if fin then wits @ [MessageItem opc True ys] else wits, True)"
  shows "\<exists>later zs. decode (ys @ later) = Some zs \<and> (fin \<longrightarrow> later = [])"
proof (cases fin)
  case True
  then have "MessageItem opc True ys \<in> set (fst (snd (gather wire)))" using assms(2) by simp
  from completed_kept [OF this] assms(1) have "decode ys \<noteq> None" unfolding decodable_def by blast
  then show ?thesis by (auto simp: exI [of _ "[]"])
next
  case False
  from begun_completed [of wire opc True ys wits True rest] assms False obtain later where
    "MessageItem opc True (ys @ later) \<in> set (fst (snd (gather (wire @ rest))))" unfolding decodable_def by auto
  with assms(1) False show ?thesis unfolding decodable_def by blast
qed

text \<open>A frame is inflated, or passed on when its message is not compressed.\<close>

lemma compressed_frame_inflating:
  assumes laws: "inflater_laws c decode I" and wire: "decodable decode (wire @ [f] @ rest)"
    and g: "gather (wire @ [f]) = (if wf_final f then None else Some (opc, True, ys @ wf_data f),
      if wf_final f then wits @ [MessageItem opc True (ys @ wf_data f)] else wits, True)" "list_all2 (decodes decode) wits items"
    and s1: "opc \<noteq> kOpCodeContinuation" "IsKnownDataOpCode opc" "ds_reading s1 = READING_COMPRESSED_MESSAGE"
      "I (ds_inflater s1) ys xs False" "given_so_far s1 opc xs a" "gather (pre @ out) = (a, items, True)"
  shows "\<exists>i s2 out'. inflate_bytes c f (ds_inflater s1) = Some i \<and> inflate_chunks c f (s1\<lparr>ds_inflater := i\<rparr>) out = Some (net_OK, s2, out') \<and>
    inflating decode I (wire @ [f]) (pre @ out') (if wf_final f then s2\<lparr>ds_reading := NOT_READING\<rparr> else s2)"
proof -
  from decodable_message [OF _ g(1)] wire obtain later zs where z: "decode ((ys @ wf_data f) @ later) = Some zs" "wf_final f \<longrightarrow> later = []"
    by (metis append_assoc)
  from inflate_bytes_law [OF laws s1(4) z(1)] z(2) obtain i where
    i: "inflate_bytes c f (ds_inflater s1) = Some i" "I i (ys @ wf_data f) xs (wf_final f)" by blast
  let ?s = "s1\<lparr>ds_inflater := i\<rparr>"
  have given: "given_so_far ?s opc xs a" using s1(5) by simp
  show ?thesis
  proof (cases "wf_final f")
    case True
    then have "decode (ys @ wf_data f) = Some zs" using z by simp
    from inflate_chunks_last [OF laws True s1(1,2) this _ given s1(6)] i(2) True obtain s2 out' where
      r: "inflate_chunks c f ?s out = Some (net_OK, s2, out')" "I (ds_inflater s2) [] [] False"
      "gather (pre @ out') = (None, items @ [MessageItem opc False zs], True)" by auto
    have "inflating decode I (wire @ [f]) (pre @ out') (s2\<lparr>ds_reading := NOT_READING\<rparr>)"
      unfolding inflating_def using g r(2,3) True \<open>decode (ys @ wf_data f) = Some zs\<close> by (simp add: list_all2_appendI)
    with i(1) r(1) True show ?thesis by auto
  next
    case False
    from inflate_chunks_more [OF laws False s1(1,2) z(1) _ given s1(6)] i(2) False obtain s2 out' xs' a' where
      r: "inflate_chunks c f ?s out = Some (net_OK, s2, out')" "I (ds_inflater s2) (ys @ wf_data f) xs' False" "given_so_far s2 opc xs' a'"
      "gather (pre @ out') = (a', items, True)" "ds_reading s2 = READING_COMPRESSED_MESSAGE" using s1(3) by auto
    have "inflating decode I (wire @ [f]) (pre @ out') s2"
      unfolding inflating_def using g r(2-5) s1(1,2) False by auto
    with i(1) r(1) False show ?thesis by auto
  qed
qed

lemma inflate_loop_inflating:
  assumes laws: "inflater_laws c decode I" and "inflating decode I wire (pre @ out) s" "decodable decode (wire @ fs @ rest)" "snd (snd (gather (wire @ fs)))"
  shows "\<exists>r s' out'. inflate_loop c fs s out = Some (r, s', out') \<and> r = (if out' = [] then ERR_IO_PENDING else net_OK) \<and>
    inflating decode I (wire @ fs) (pre @ out') s'"
  using assms(2-)
proof (induction fs arbitrary: wire out s)
  case (Cons f fs)
  have ok: "snd (snd (gather (wire @ [f])))" using gather_ok_prefix [of "wire @ [f]" fs] Cons.prems(3) by simp
  note IH = Cons.IH [of "wire @ [f]", simplified, OF _ Cons.prems(2) [simplified] Cons.prems(3)]
  show ?case
  proof (cases "IsKnownDataOpCode (wf_opcode f)")
    case False
    from IH [of "out @ [f]" s] control_frame_inflating [OF Cons.prems(1) False] False show ?thesis by simp
  next
    case True
    from enter_message_begun [OF Cons.prems(1) ok True] obtain s1 opc ys items wits where
      s1: "enter_message f s = Some s1" "opc \<noteq> kOpCodeContinuation" "IsKnownDataOpCode opc" "list_all2 (decodes decode) wits items"
      and g: "gather (wire @ [f]) = (if wf_final f then None else Some (opc, ds_reading s1 = READING_COMPRESSED_MESSAGE, ys @ wf_data f),
        if wf_final f then wits @ [MessageItem opc (ds_reading s1 = READING_COMPRESSED_MESSAGE) (ys @ wf_data f)] else wits, True)"
      and c: "ds_reading s1 = READING_COMPRESSED_MESSAGE \<and> (\<exists>xs a. I (ds_inflater s1) ys xs False \<and> given_so_far s1 opc xs a \<and> gather (pre @ out) = (a, items, True)) \<or>
        ds_reading s1 = READING_UNCOMPRESSED_MESSAGE \<and> I (ds_inflater s1) [] [] False \<and>
         gather ((pre @ out) @ [f]) = (if wf_final f then None else Some (opc, False, ys @ wf_data f),
           if wf_final f then items @ [MessageItem opc False (ys @ wf_data f)] else items, True)" by blast
    from c show ?thesis
    proof (elim disjE conjE exE)
      fix xs a assume a: "ds_reading s1 = READING_COMPRESSED_MESSAGE" "I (ds_inflater s1) ys xs False" "given_so_far s1 opc xs a" "gather (pre @ out) = (a, items, True)"
      have "decodable decode (wire @ [f] @ fs @ rest)" using Cons.prems(2) by simp
      moreover have "gather (wire @ [f]) = (if wf_final f then None else Some (opc, True, ys @ wf_data f),
          if wf_final f then wits @ [MessageItem opc True (ys @ wf_data f)] else wits, True)" using g a(1) by simp
      ultimately obtain i s2 out' where
        r: "inflate_bytes c f (ds_inflater s1) = Some i" "inflate_chunks c f (s1\<lparr>ds_inflater := i\<rparr>) out = Some (net_OK, s2, out')"
        "inflating decode I (wire @ [f]) (pre @ out') (if wf_final f then s2\<lparr>ds_reading := NOT_READING\<rparr> else s2)"
        using compressed_frame_inflating [OF laws _ _ s1(4) s1(2,3) a] by blast
      from IH [OF r(3)] True s1(1) a(1) r(1,2) show ?thesis by simp
    next
      assume a: "ds_reading s1 = READING_UNCOMPRESSED_MESSAGE" "I (ds_inflater s1) [] [] False"
        "gather ((pre @ out) @ [f]) = (if wf_final f then None else Some (opc, False, ys @ wf_data f),
           if wf_final f then items @ [MessageItem opc False (ys @ wf_data f)] else items, True)"
      let ?s2 = "s1\<lparr>ds_reading := (if wf_final f then NOT_READING else ds_reading s1), ds_reading_opcode := kOpCodeContinuation\<rparr>"
      have "inflating decode I (wire @ [f]) ((pre @ out) @ [f]) ?s2"
        unfolding inflating_def using g a s1(2-4) by (simp del: gather_simps add: list_all2_appendI)
      then have "inflating decode I (wire @ [f]) (pre @ out @ [f]) ?s2" by simp
      from IH [OF this] True s1(1) a(1) show ?thesis by simp
    qed
  qed
qed simp

section \<open>Both ends\<close>

text \<open>The frames that arrive are given to the inflating stream in pieces.\<close>

primrec inflate_pieces ::
    "('d, 'i) codec \<Rightarrow> ws_frame list list \<Rightarrow> ('d, 'i) deflate_stream \<Rightarrow> ws_frame list \<Rightarrow> (('d, 'i) deflate_stream \<times> ws_frame list) option" where
  "inflate_pieces c [] s out = Some (s, out)"
| "inflate_pieces c (fs # pieces) s out =
     (case Inflate c fs s of
        None \<Rightarrow> None
      | Some (r, s1, fs1) \<Rightarrow> if r = net_OK \<or> r = ERR_IO_PENDING then inflate_pieces c pieces s1 (out @ fs1) else None)"

lemma inflate_pieces_inflating:
  assumes "inflater_laws c decode I" "inflating decode I wire out s" "decodable decode (wire @ concat pieces)" "snd (snd (gather (wire @ concat pieces)))"
  shows "\<exists>s' out'. inflate_pieces c pieces s out = Some (s', out') \<and> inflating decode I (wire @ concat pieces) out' s'"
  using assms(2-)
proof (induction pieces arbitrary: wire out s)
  case (Cons fs pieces)
  have "snd (snd (gather (wire @ fs)))" using gather_ok_prefix [of "wire @ fs" "concat pieces"] Cons.prems(3) by simp
  with inflate_loop_inflating [OF assms(1), of wire out "[]" s fs "concat pieces"] Cons.prems(1,2) obtain r s1 out1 where
    r: "Inflate c fs s = Some (r, s1, out1)" "r = (if out1 = [] then ERR_IO_PENDING else net_OK)" "inflating decode I (wire @ fs) (out @ out1) s1"
    unfolding Inflate_def by auto
  with Cons.IH [of "wire @ fs" "out @ out1" s1] Cons.prems(2,3) show ?case by auto
qed simp

lemma encodes_decodes: "encodes decode i w \<Longrightarrow> decodes decode w j \<Longrightarrow> (\<And>opc compressed xs. i = MessageItem opc compressed xs \<Longrightarrow> \<not> compressed) \<Longrightarrow> j = i"
  by (cases i) auto

lemma list_encodes_decodes:
  "list_all2 (encodes decode) items ws \<Longrightarrow> list_all2 (decodes decode) ws js \<Longrightarrow>
   (\<forall>opc xs. MessageItem opc True xs \<notin> set items) \<Longrightarrow> js = items"
proof (induction items arbitrary: ws js)
  case (Cons i items)
  then obtain w ws' j js' where "ws = w # ws'" "js = j # js'" "encodes decode i w" "decodes decode w j"
    "list_all2 (encodes decode) items ws'" "list_all2 (decodes decode) ws' js'" by (auto simp: list_all2_Cons1)
  with Cons encodes_decodes [of decode i w j] show ?case by auto
qed simp

text \<open>Frames that are not marked as compressed make no compressed message.\<close>

lemma plain_frames_gather:
  "\<forall>f \<in> set fs. \<not> wf_reserved1 f \<Longrightarrow> gather fs = (b, items, ok) \<Longrightarrow>
   (\<forall>opc xs. MessageItem opc True xs \<notin> set items) \<and> (\<forall>opc xs. b \<noteq> Some (opc, True, xs))"
proof (induction fs arbitrary: b items ok rule: rev_induct)
  case (snoc f fs)
  obtain b0 items0 ok0 where g: "gather fs = (b0, items0, ok0)" by (metis prod_cases3)
  from snoc.IH [OF _ this] snoc.prems g show ?case
    by (auto simp: gather_frame.simps Let_def split: if_splits option.splits)
qed simp

lemma encoded_decodable: "list_all2 (encodes decode) items wits \<Longrightarrow> MessageItem opc True ys \<in> set wits \<Longrightarrow> decode ys \<noteq> None"
proof (induction items wits rule: list_all2_induct)
  case (Cons i items w wits)
  then show ?case by (cases i) auto
qed simp

text \<open>
  C9.  Messages survive compression.  The frames of whole messages, in pieces and with control frames in between, that are given to a
  new deflating stream are taken, unless the deflater fails; what is then written can be given in any pieces to a new inflating stream, which
  takes them all and gives out the same control frames and messages in the same order.  Of the codec it is assumed that what it gives out
  for a message decodes to it, that it takes what can be decoded and gives out what it has, and that no context is kept from message to message.
\<close>

theorem compressed_messages_survive:
  assumes "deflater_laws c decode D" "inflater_laws c decode I" "D d [] [] False" "I i [] [] False"
    and fs: "gather fs = (None, items, True)" "\<forall>f \<in> set fs. \<not> wf_reserved1 f"
  shows "\<exists>r s' wire. Deflate c fs (new_WebSocketDeflateStream d i') = Some (r, s', wire) \<and> r \<le> net_OK \<and>
    (r = net_OK \<longrightarrow> (\<forall>pieces. concat pieces = wire \<longrightarrow>
       (\<exists>s'' out. inflate_pieces c pieces (new_WebSocketDeflateStream d' i) [] = Some (s'', out) \<and> gather out = (None, items, True))))"
proof -
  have "deflating decode D [] [] (new_WebSocketDeflateStream d i')"
    using assms(3) by (simp add: deflating_def new_WebSocketDeflateStream_def)
  from deflate_loop_deflating [OF assms(1) this _ fs(2)] fs(1) obtain r s' wire where
    w: "Deflate c fs (new_WebSocketDeflateStream d i') = Some (r, s', wire)" "r \<le> net_OK" "r = net_OK \<longrightarrow> deflating decode D fs wire s'"
    unfolding Deflate_def by auto
  have "\<exists>s'' out. inflate_pieces c pieces (new_WebSocketDeflateStream d' i) [] = Some (s'', out) \<and> gather out = (None, items, True)"
    if r: "r = net_OK" and p: "concat pieces = wire" for pieces
  proof -
    from w(3) r fs(1) obtain wits where g: "gather wire = (None, wits, True)" "list_all2 (encodes decode) items wits"
      by (auto simp: deflating_def)
    have dec: "decodable decode ([] @ concat pieces)" using g encoded_decodable [OF g(2)] by (auto simp: decodable_def p)
    have "inflating decode I [] [] (new_WebSocketDeflateStream d' i)"
      using assms(4) by (simp add: inflating_def new_WebSocketDeflateStream_def)
    from inflate_pieces_inflating [OF assms(2) this dec] g(1) p obtain s'' out where
      o: "inflate_pieces c pieces (new_WebSocketDeflateStream d' i) [] = Some (s'', out)" "inflating decode I wire out s''" by auto
    from o(2) g(1) obtain items' where "gather out = (None, items', True)" "list_all2 (decodes decode) wits items'" by (auto simp: inflating_def)
    moreover from list_encodes_decodes [OF g(2) this(2)] plain_frames_gather [OF fs(2,1)] have "items' = items" by blast
    ultimately show ?thesis using o(1) by blast
  qed
  with w(1,2) show ?thesis by blast
qed

text \<open>A codec that copies, for a run of both ends.\<close>

definition copy_add :: "bytes \<times> bytes \<times> bool \<Rightarrow> bytes \<Rightarrow> (bytes \<times> bytes \<times> bool) option" where
  "copy_add st bs = (case st of (xs, ys, fin) \<Rightarrow> Some (xs @ bs, ys, fin))"

definition copy_finish :: "bytes \<times> bytes \<times> bool \<Rightarrow> (bytes \<times> bytes \<times> bool) option" where
  "copy_finish st = (case st of (xs, ys, fin) \<Rightarrow> Some (xs, ys, True))"

definition copy_size :: "bytes \<times> bytes \<times> bool \<Rightarrow> nat" where
  "copy_size st = (case st of (xs, ys, fin) \<Rightarrow> length xs - length ys)"

definition copy_get :: "bytes \<times> bytes \<times> bool \<Rightarrow> nat \<Rightarrow> (bytes \<times> bytes \<times> bytes \<times> bool) option" where
  "copy_get st n = (case st of (xs, ys, fin) \<Rightarrow>
     (let out = take n (drop (length ys) xs) in
      Some (out, if fin \<and> length ys + length out = length xs then ([], [], False) else (xs, ys @ out, fin))))"

definition copy_codec :: "(bytes \<times> bytes \<times> bool, bytes \<times> bytes \<times> bool) codec" where
  "copy_codec = \<lparr>deflate_add = copy_add, deflate_finish = copy_finish, deflate_size = copy_size, deflate_get = copy_get,
     inflate_add = copy_add, inflate_finish = copy_finish, inflate_size = copy_size, inflate_get = copy_get\<rparr>"

definition copying :: "bytes \<times> bytes \<times> bool \<Rightarrow> bytes \<Rightarrow> bytes \<Rightarrow> bool \<Rightarrow> bool" where
  "copying st xs ys fin \<longleftrightarrow> st = (xs, ys, fin) \<and> (\<exists>rest. xs = ys @ rest)"

lemmas copy_defs = copy_codec_def copy_add_def copy_finish_def copy_size_def copy_get_def copying_def

lemma copy_deflater: "deflater_laws copy_codec Some copying"
  unfolding deflater_laws_def by (auto simp: copy_defs Let_def)

lemma copy_inflater: "inflater_laws copy_codec Some copying"
  unfolding inflater_laws_def
proof (intro conjI allI impI)
  fix i ys xs zs
  assume i: "copying i ys xs True" "Some ys = Some zs"
  then obtain rest where rest: "i = (xs @ rest, xs, True)" "ys = xs @ rest" "zs = xs @ rest" by (auto simp: copying_def)
  have "\<exists>i'. inflate_get copy_codec i n = Some (take n rest, i') \<and>
      (if n = length rest then copying i' [] [] False else copying i' ys (xs @ take n rest) True)" if "n \<le> length rest" for n
  proof (cases "n = length rest")
    case False
    have "\<exists>later. xs @ rest = (xs @ take n rest) @ later" by (rule exI [of _ "drop n rest"]) simp
    with False that show ?thesis by (simp add: rest copy_defs Let_def)
  qed (simp add: rest copy_defs Let_def)
  then show "\<exists>rest. zs = xs @ rest \<and> inflate_size copy_codec i \<le> length rest \<and> (inflate_size copy_codec i = 0 \<longrightarrow> rest = []) \<and>
      (\<forall>n \<le> inflate_size copy_codec i. \<exists>i'. inflate_get copy_codec i n = Some (take n rest, i') \<and>
        (if n = length rest then copying i' [] [] False else copying i' ys (xs @ take n rest) True))"
    using rest by (intro exI [of _ rest]) (simp add: copy_codec_def copy_size_def)
next
  fix i ys xs later zs n
  assume i: "copying i ys xs False" "Some (ys @ later) = Some zs" "n \<le> inflate_size copy_codec i"
  then obtain rest where rest: "i = (xs @ rest, xs, False)" "ys = xs @ rest" "n \<le> length rest" by (auto simp: copy_defs)
  show "\<exists>out i'. inflate_get copy_codec i n = Some (out, i') \<and> length out = n \<and> length (xs @ out) \<le> length zs \<and> copying i' ys (xs @ out) False"
  proof -
    have "\<exists>later. xs @ rest = (xs @ take n rest) @ later" by (rule exI [of _ "drop n rest"]) simp
    then have "copying (xs @ rest, xs @ take n rest, False) ys (xs @ take n rest) False" by (simp add: copying_def rest(2))
    moreover have "inflate_get copy_codec i n = Some (take n rest, xs @ rest, xs @ take n rest, False)"
      by (simp add: rest(1) copy_codec_def copy_get_def Let_def)
    moreover have "length (take n rest) = n" "length (xs @ take n rest) \<le> length zs" using rest(2,3) i(2) by auto
    ultimately show ?thesis by blast
  qed
qed (auto simp: copy_codec_def copy_add_def copy_finish_def copy_size_def copying_def)

definition demo_frames :: "ws_frame list" where
  "demo_frames = [plain_frame False kOpCodeText [1, 2] None, plain_frame True kOpCodePing [9] None, plain_frame True kOpCodeContinuation [3] None]"

definition demo_end :: "(bytes \<times> bytes \<times> bool, bytes \<times> bytes \<times> bool) deflate_stream" where
  "demo_end = new_WebSocketDeflateStream ([], [], False) ([], [], False)"

definition demo_items :: "ws_item list" where
  "demo_items = [ControlItem (plain_frame True kOpCodePing [9] None), MessageItem kOpCodeText False [1, 2, 3]]"

theorem compressed_messages_survive_witness:
  "\<exists>s' wire s'' out. Deflate copy_codec demo_frames demo_end = Some (net_OK, s', wire) \<and>
     inflate_pieces copy_codec (map (\<lambda>f. [f]) wire) demo_end [] = Some (s'', out) \<and> gather out = (None, demo_items, True)"
proof -
  have g: "gather demo_frames = (None, demo_items, True)"
    by (simp add: gather_def demo_frames_def demo_items_def plain_frame_def gather_frame.simps IsKnownDataOpCode_def)
  have plain: "\<forall>f \<in> set demo_frames. \<not> wf_reserved1 f" by (simp add: demo_frames_def plain_frame_def)
  have fresh: "copying ([], [], False) [] [] False" by (simp add: copying_def)
  obtain r s' wire where w: "Deflate copy_codec demo_frames demo_end = Some (r, s', wire)"
    "r = net_OK \<longrightarrow> (\<forall>pieces. concat pieces = wire \<longrightarrow>
       (\<exists>s'' out. inflate_pieces copy_codec pieces demo_end [] = Some (s'', out) \<and> gather out = (None, demo_items, True)))"
    unfolding demo_end_def using compressed_messages_survive [where D = copying and I = copying, OF copy_deflater copy_inflater fresh fresh g plain] by blast
  have "fst (the (Deflate copy_codec demo_frames demo_end)) = net_OK"
    by (simp add: Deflate_def demo_frames_def demo_end_def plain_frame_def new_WebSocketDeflateStream_def IsKnownDataOpCode_def OnMessageStart_def
        deflate_bytes_def copy_codec_def copy_add_def copy_finish_def copy_size_def copy_get_def AppendCompressedFrame_def kChunkSize_def)
  with w(1) have r: "r = net_OK" by simp
  have "concat (map (\<lambda>f. [f]) wire) = wire" by simp
  with w r show ?thesis by blast
qed

end
