(* ===== verification/Felicia_FileProps.thy ===== *)
theory Felicia_FileProps
  imports Felicia_File
begin

text \<open>
  What holds of files of lines: a reader splits a file at its line feeds whatever the size of its buffer, and
  what a CSV writer wrote a CSV reader reads back.
\<close>

section \<open>Writing\<close>

definition wr_ok :: "buffered_writer \<Rightarrow> bool" where
  "wr_ok w \<longleftrightarrow> wr_IsValid w \<and> wr_has_buffer w \<and> length (wr_buffer w) < wr_buffer_capacity w"

text \<open>All that was written: in the file, and in the buffer.\<close>

definition wr_total :: "buffered_writer \<Rightarrow> string" where
  "wr_total w = wr_file w @ wr_buffer w"

lemma AppendToBufferOrFlush_takes:
  assumes "\<forall>c d. disk c d" "wr_ok w"
  obtains w' where "AppendToBufferOrFlush disk data w = Some (int (min (length data) (wr_capacity w)), w')"
    "wr_ok w'" "wr_total w' = wr_total w @ take (wr_capacity w) data" "wr_newline_cr_lf w' = wr_newline_cr_lf w"
proof -
  let ?n = "min (length data) (wr_capacity w)"
  let ?w = "w\<lparr>wr_buffer := wr_buffer w @ take ?n data\<rparr>"
  have t: "take ?n data = take (wr_capacity w) data" by (simp add: min_def)
  have app: "AppendToBuffer (take ?n data) w = Some ?w"
    using assms(2) by (simp add: AppendToBuffer_def wr_ok_def)
  show thesis
  proof (cases "wr_capacity ?w = 0")
    case True
    with app assms t show thesis
      by (intro that [of "snd (Flush disk ?w)"])
        (simp_all add: AppendToBufferOrFlush_def Flush_def wr_ok_def wr_total_def Let_def)
  next
    case False
    then have "AppendToBufferOrFlush disk data w = Some (int ?n, ?w)"
      using app unfolding AppendToBufferOrFlush_def Let_def by (simp del: take_take)
    moreover have "wr_ok ?w" using assms(2) False by (simp add: wr_ok_def wr_capacity_def)
    moreover have "wr_total ?w = wr_total w @ take (wr_capacity w) data" unfolding t by (simp add: wr_total_def)
    ultimately show thesis using that [of ?w] by simp
  qed
qed

lemma wr_ok_capacity: "wr_ok w \<Longrightarrow> 0 < wr_capacity w"
  by (simp add: wr_ok_def wr_capacity_def)

lemma write_loop_takes_all:
  assumes "\<forall>c d. disk c d" "wr_ok w"
  shows "\<exists>w'. write_loop disk data w = Some (True, w') \<and> wr_ok w' \<and> wr_total w' = wr_total w @ data \<and>
    wr_newline_cr_lf w' = wr_newline_cr_lf w"
  using assms(2)
proof (induction "length data" arbitrary: data w rule: less_induct)
  case less
  show ?case
  proof (cases "data = []")
    case True
    with less.prems show ?thesis by (subst write_loop.simps) simp
  next
    case False
    let ?n = "min (length data) (wr_capacity w)"
    obtain w1 where w1: "AppendToBufferOrFlush disk data w = Some (int ?n, w1)" "wr_ok w1"
        "wr_total w1 = wr_total w @ take (wr_capacity w) data" "wr_newline_cr_lf w1 = wr_newline_cr_lf w"
      using AppendToBufferOrFlush_takes [OF assms(1) less.prems] by blast
    have "0 < ?n" using False wr_ok_capacity [OF less.prems] by simp
    then have "length (drop ?n data) < length data" using False by simp
    from less.hyps [OF this w1(2)] obtain w2 where w2: "write_loop disk (drop ?n data) w1 = Some (True, w2)" "wr_ok w2"
        "wr_total w2 = wr_total w1 @ drop ?n data" "wr_newline_cr_lf w2 = wr_newline_cr_lf w1" by blast
    have "take (wr_capacity w) data @ drop ?n data = data" by (cases "length data \<le> wr_capacity w") (simp_all add: min_def)
    moreover have "write_loop disk data w = write_loop disk (drop ?n data) w1"
      using False w1(1) by (subst write_loop.simps) simp
    ultimately have "write_loop disk data w = Some (True, w2)" "wr_total w2 = wr_total w @ data"
      using w1(3) w2(1,3) by (simp_all only: append_assoc)
    with w1(4) w2(2,4) show ?thesis by auto
  qed
qed

lemma WriteLine_writes:
  assumes "\<forall>c d. disk c d" "wr_ok w" "\<not> wr_newline_cr_lf w"
  shows "\<exists>w'. WriteLine disk line w = Some (True, w') \<and> wr_ok w' \<and> wr_total w' = wr_total w @ line @ [LF] \<and> \<not> wr_newline_cr_lf w'"
proof -
  obtain w1 where w1: "write_loop disk line w = Some (True, w1)" "wr_ok w1" "wr_total w1 = wr_total w @ line"
      "\<not> wr_newline_cr_lf w1"
    using write_loop_takes_all [OF assms(1,2), where data = line] assms(3) by auto
  obtain w2 where w2: "AppendToBufferOrFlush disk [LF] w1 = Some (int (min (length [LF]) (wr_capacity w1)), w2)" "wr_ok w2"
      "wr_total w2 = wr_total w1 @ take (wr_capacity w1) [LF]" "wr_newline_cr_lf w2 = wr_newline_cr_lf w1"
    by (rule AppendToBufferOrFlush_takes [OF assms(1) w1(2), of "[LF]"])
  have "take (wr_capacity w1) [LF] = [LF]" using wr_ok_capacity [OF w1(2)] by (cases "wr_capacity w1") simp_all
  with w1 w2 show ?thesis by (simp add: WriteLine_def)
qed

section \<open>Reading\<close>

definition remaining :: "buffered_reader \<Rightarrow> string" where
  "remaining r = drop (rd_read r) (rd_buffer r) @ rd_rest r"

definition rd_ok :: "buffered_reader \<Rightarrow> bool" where
  "rd_ok r \<longleftrightarrow> 0 < rd_buffer_capacity r \<and> rd_read r \<le> length (rd_buffer r) \<and> (eof r \<longrightarrow> rd_rest r = [])"

text \<open>What a line is: up to the first line feed, or to the end.\<close>

definition first_line :: "string \<Rightarrow> string" where
  "first_line xs = takeWhile (\<lambda>c. c \<noteq> LF) xs @ (if LF \<in> set xs then [LF] else [])"

definition line_text :: "bool \<Rightarrow> string \<Rightarrow> string" where
  "line_text remove xs = (if remove then takeWhile (\<lambda>c. c \<noteq> LF) xs else first_line xs)"

lemma scan_line_finds: "scan_line xs n = (LF \<in> set xs, n + length (first_line xs))"
  by (induction xs arbitrary: n) (auto simp: first_line_def)

lemma first_line_append: "first_line (xs @ ys) = (if LF \<in> set xs then first_line xs else xs @ first_line ys)"
  by (auto simp: first_line_def takeWhile_append)

lemma line_text_append: "line_text remove (xs @ ys) = (if LF \<in> set xs then line_text remove xs else xs @ line_text remove ys)"
  by (auto simp: line_text_def first_line_append takeWhile_append)

lemma first_line_prefix: "take (length (first_line xs)) xs = first_line xs"
proof (cases "LF \<in> set xs")
  case True
  then obtain ys zs where "xs = ys @ LF # zs" "LF \<notin> set ys" by (meson split_list_first)
  then show ?thesis by (simp add: first_line_def takeWhile_append)
next
  case False
  then show ?thesis by (simp add: first_line_def) (metis takeWhile_eq_take)
qed

lemma eof_remaining: "rd_ok r \<Longrightarrow> eof r \<longleftrightarrow> remaining r = []"
  by (auto simp: rd_ok_def eof_def remaining_def)

lemma ReadInAdvance_ok:
  "0 < rd_buffer_capacity r \<Longrightarrow> rd_ok (ReadInAdvance r) \<and> remaining (ReadInAdvance r) = rd_rest r \<and>
     rd_remove_cr_or_lf (ReadInAdvance r) = rd_remove_cr_or_lf r"
  by (auto simp: rd_ok_def ReadInAdvance_def remaining_def eof_def)

lemma line_part_correct:
  fixes r line
  defines "xs \<equiv> drop (rd_read r) (rd_buffer r)"
  assumes "rd_ok r" "rd_remove_cr_or_lf r \<longrightarrow> CR \<notin> set xs \<and> CR \<notin> set line"
  shows "line_part r line = (LF \<in> set xs, line @ line_text (rd_remove_cr_or_lf r) xs, r\<lparr>rd_read := rd_read r + length (first_line xs)\<rparr>)"
proof (cases "LF \<in> set xs \<and> rd_remove_cr_or_lf r")
  case True
  then have len: "length (first_line xs) = length (takeWhile (\<lambda>c. c \<noteq> LF) xs) + 1" by (simp add: first_line_def)
  have "rd_buffer r ! (rd_read r + length (first_line xs) - 2) \<noteq> CR" if "length (first_line xs) \<ge> 2"
  proof -
    let ?k = "length (first_line xs) - 2"
    have "?k < length xs" using that len length_takeWhile_le [of "\<lambda>c. c \<noteq> LF" xs] by linarith
    then have "xs ! ?k \<in> set xs" by simp
    moreover have "rd_read r + length (first_line xs) - 2 = rd_read r + ?k" using that by simp
    moreover have "xs ! ?k = rd_buffer r ! (rd_read r + ?k)" using assms(2) by (simp add: xs_def rd_ok_def)
    ultimately show ?thesis using assms(3) True by metis
  qed
  moreover have "\<not> (line \<noteq> [] \<and> last line = CR)" using assms(3) True last_in_set by metis
  moreover have "take (length (takeWhile (\<lambda>c. c \<noteq> LF) xs)) xs = takeWhile (\<lambda>c. c \<noteq> LF) xs" by (metis takeWhile_eq_take)
  ultimately show ?thesis using True len
    by (auto simp: line_part_def scan_line_finds Let_def line_text_def xs_def [symmetric])
next
  case False
  moreover have "first_line xs = takeWhile (\<lambda>c. c \<noteq> LF) xs" if "LF \<notin> set xs" using that by (simp add: first_line_def)
  ultimately show ?thesis
    using first_line_prefix [of xs] by (auto simp: line_part_def scan_line_finds Let_def line_text_def xs_def [symmetric])
qed

lemma read_loop_correct:
  assumes "rd_ok r" "remaining r \<noteq> []" "rd_remove_cr_or_lf r \<longrightarrow> CR \<notin> set (remaining r) \<and> CR \<notin> set line"
  shows "\<exists>r'. read_loop r line = (line @ line_text (rd_remove_cr_or_lf r) (remaining r), r') \<and> rd_ok r' \<and>
    remaining r' = drop (length (first_line (remaining r))) (remaining r) \<and> rd_remove_cr_or_lf r' = rd_remove_cr_or_lf r"
  using assms
proof (induction r line rule: read_loop.induct)
  case (1 r line)
  let ?xs = "drop (rd_read r) (rd_buffer r)" and ?rm = "rd_remove_cr_or_lf r"
  let ?r1 = "r\<lparr>rd_read := rd_read r + length (first_line ?xs)\<rparr>"
  have part: "line_part r line = (LF \<in> set ?xs, line @ line_text ?rm ?xs, ?r1)"
    using 1 by (intro line_part_correct) (auto simp: remaining_def)
  have cap: "0 < rd_buffer_capacity ?r1" using 1 by (simp add: rd_ok_def)
  note adv = ReadInAdvance_ok [OF cap]
  show ?case
  proof (cases "LF \<in> set ?xs")
    case True
    have fl: "first_line (remaining r) = first_line ?xs" "line_text ?rm (remaining r) = line_text ?rm ?xs"
      using True by (simp_all add: remaining_def first_line_append line_text_append)
    have le: "length (first_line ?xs) \<le> length ?xs" using first_line_prefix [of ?xs] by (metis length_take min.cobounded1)
    then have rem1: "remaining ?r1 = drop (length (first_line (remaining r))) (remaining r)"
      unfolding fl by (simp add: remaining_def add.commute)
    show ?thesis
    proof (cases "eof ?r1")
      case eof: True
      then have "rd_rest ?r1 = remaining ?r1" by (simp add: remaining_def eof_def)
      with adv rem1 fl part True eof show ?thesis by (subst read_loop.simps) simp
    next
      case False
      with le 1 have "rd_ok ?r1" by (auto simp: rd_ok_def)
      with False part rem1 fl True show ?thesis by (subst read_loop.simps) simp
    qed
  next
    case False
    have fl: "first_line ?xs = ?xs" "line_text ?rm ?xs = ?xs" using False
      by (auto simp: first_line_def line_text_def takeWhile_eq_all_conv)
    have rest: "first_line (remaining r) = ?xs @ first_line (rd_rest r)" "line_text ?rm (remaining r) = ?xs @ line_text ?rm (rd_rest r)"
      using False by (simp_all add: remaining_def first_line_append line_text_append)
    have drop: "drop (length (first_line (remaining r))) (remaining r) = drop (length (first_line (rd_rest r))) (rd_rest r)"
      unfolding rest by (simp add: remaining_def)
    let ?r2 = "ReadInAdvance ?r1"
    have r2: "rd_ok ?r2" "remaining ?r2 = rd_rest r" "rd_remove_cr_or_lf ?r2 = ?rm" using adv by simp_all
    show ?thesis
    proof (cases "eof ?r2")
      case True
      with r2 have "rd_rest r = []" using eof_remaining by simp
      moreover have "read_loop r line = (line @ ?xs, ?r2)" using part False True fl by (subst read_loop.simps) simp
      ultimately show ?thesis using r2 rest drop by (simp add: first_line_def line_text_def)
    next
      case more: False
      have run: "read_loop r line = read_loop ?r2 (line @ ?xs)" using part False more fl by (subst read_loop.simps) simp
      have "remaining ?r2 \<noteq> []" using more r2 eof_remaining by blast
      moreover have "rd_remove_cr_or_lf ?r2 \<longrightarrow> CR \<notin> set (remaining ?r2) \<and> CR \<notin> set (line @ ?xs)"
        using 1 r2 by (simp add: remaining_def)
      ultimately obtain r' where "read_loop ?r2 (line @ ?xs) = ((line @ ?xs) @ line_text ?rm (rd_rest r), r')" "rd_ok r'"
          "remaining r' = drop (length (first_line (rd_rest r))) (rd_rest r)" "rd_remove_cr_or_lf r' = ?rm"
        using "1.IH" [OF part [symmetric] refl refl _ refl] False more fl r2 by auto
      with run rest drop show ?thesis by simp
    qed
  qed
qed

text \<open>A file as its lines.\<close>

function split_lines :: "string \<Rightarrow> string list" where
  "split_lines xs = (if xs = [] then [] else first_line xs # split_lines (drop (length (first_line xs)) xs))"
  by pat_completeness auto
termination
  by (relation "measure length") (auto simp: first_line_def neq_Nil_conv)

declare split_lines.simps [simp del]

primrec read_lines :: "nat \<Rightarrow> buffered_reader \<Rightarrow> (string list \<times> buffered_reader) option" where
  "read_lines 0 r = Some ([], r)"
| "read_lines (Suc n) r = do { (line, r1) \<leftarrow> ReadLine r; (lines, r2) \<leftarrow> read_lines n r1; Some (line # lines, r2) }"

lemma ReadLine_correct:
  assumes "rd_ok r" "remaining r \<noteq> []" "rd_remove_cr_or_lf r \<longrightarrow> CR \<notin> set (remaining r)"
  shows "\<exists>r'. ReadLine r = Some (line_text (rd_remove_cr_or_lf r) (remaining r), r') \<and> rd_ok r' \<and>
    remaining r' = drop (length (first_line (remaining r))) (remaining r) \<and> rd_remove_cr_or_lf r' = rd_remove_cr_or_lf r"
  using read_loop_correct [OF assms(1,2), of "[]"] assms eof_remaining [OF assms(1)] by (auto simp: ReadLine_def)

lemma read_lines_split:
  "rd_ok r \<Longrightarrow> \<not> rd_remove_cr_or_lf r \<Longrightarrow>
     \<exists>r'. read_lines (length (split_lines (remaining r))) r = Some (split_lines (remaining r), r') \<and> eof r'"
proof (induction "remaining r" arbitrary: r rule: split_lines.induct)
  case 1
  show ?case
  proof (cases "remaining r = []")
    case True
    with 1 eof_remaining [of r] show ?thesis by (simp add: split_lines.simps)
  next
    case False
    then obtain r1 where r1: "ReadLine r = Some (first_line (remaining r), r1)" "rd_ok r1"
        "remaining r1 = drop (length (first_line (remaining r))) (remaining r)" "\<not> rd_remove_cr_or_lf r1"
      using ReadLine_correct [OF 1(2) False] 1(3) by (auto simp: line_text_def)
    from 1(1) [OF False r1(3) [symmetric] r1(2,4)] obtain r' where
      "read_lines (length (split_lines (remaining r1))) r1 = Some (split_lines (remaining r1), r')" "eof r'" by blast
    with False r1 show ?thesis by (simp add: split_lines.simps [of "remaining r"])
  qed
qed

lemma Reader_Open_ok:
  "0 < cap \<Longrightarrow> rd_ok (Reader_Open remove cap content) \<and> remaining (Reader_Open remove cap content) = content \<and>
     rd_remove_cr_or_lf (Reader_Open remove cap content) = remove"
  using ReadInAdvance_ok [of "\<lparr>rd_remove_cr_or_lf = remove, rd_rest = content, rd_buffer = [], rd_read = 0, rd_buffer_capacity = cap\<rparr>"]
  by (simp add: Reader_Open_def)

section \<open>CSV\<close>

definition plain_field :: "char \<Rightarrow> string \<Rightarrow> bool" where
  "plain_field c f \<longleftrightarrow> f \<noteq> [] \<and> c \<notin> set f \<and> LF \<notin> set f \<and> CR \<notin> set f"

lemma tokens_field:
  assumes "f \<noteq> []" "c \<notin> set f" "rest = [] \<or> hd rest = c"
  shows "tokens [c] (f @ rest) = f # tokens [c] rest"
proof -
  obtain x xs where f: "f = x # xs" using assms(1) by (cases f) auto
  then have "dropWhile (\<lambda>d. d = c) (f @ rest) = x # xs @ rest" using assms(2) by auto
  moreover have "takeWhile (\<lambda>d. d \<noteq> c) (f @ rest) = f" "dropWhile (\<lambda>d. d \<noteq> c) (f @ rest) = rest"
    using assms(2,3) by (cases rest; auto simp: takeWhile_append dropWhile_append)+
  ultimately show ?thesis using f by (subst tokens.simps) simp
qed

lemma tokens_delimiter: "tokens [c] (c # s) = tokens [c] s"
  by (subst tokens.simps, subst (2) tokens.simps) simp

lemma append_single: "(@) [c] = (#) c"
  by (rule ext) simp

lemma tokens_fields: "\<forall>f \<in> set fs. plain_field c f \<Longrightarrow> tokens [c] (concat (map ((#) c) fs)) = fs"
proof (induction fs)
  case Nil
  show ?case by (simp add: tokens.simps)
next
  case (Cons f fs)
  have "concat (map ((#) c) fs) = [] \<or> hd (concat (map ((#) c) fs)) = c" by (cases fs) auto
  with tokens_field [of f c "concat (map ((#) c) fs)"] Cons show ?case
    by (simp add: tokens_delimiter plain_field_def)
qed

lemma tokens_JoinString: "\<forall>f \<in> set fs. plain_field c f \<Longrightarrow> tokens [c] (JoinString fs [c]) = fs"
proof (cases fs)
  case (Cons f gs)
  assume fs: "\<forall>f \<in> set fs. plain_field c f"
  have "tokens [c] (JoinString fs [c]) = tokens [c] (concat (map ((#) c) fs))"
    using tokens_delimiter [of c "JoinString fs [c]"] by (simp add: Cons JoinString_def append_single)
  with tokens_fields [OF fs] show ?thesis by simp
qed (simp add: JoinString_def tokens.simps)

lemma JoinString_plain:
  "\<forall>f \<in> set fs. plain_field c f \<Longrightarrow> c \<noteq> LF \<Longrightarrow> c \<noteq> CR \<Longrightarrow> LF \<notin> set (JoinString fs [c]) \<and> CR \<notin> set (JoinString fs [c])"
  by (cases fs) (auto simp: JoinString_def plain_field_def)

primrec write_all_rows :: "disk \<Rightarrow> string \<Rightarrow> string list list \<Rightarrow> buffered_writer \<Rightarrow> (bool \<times> buffered_writer) option" where
  "write_all_rows disk delimiter [] w = Some (True, w)"
| "write_all_rows disk delimiter (rows # rest) w =
     do { (ok, w1) \<leftarrow> WriteRows disk delimiter rows w; (oks, w2) \<leftarrow> write_all_rows disk delimiter rest w1; Some (ok \<and> oks, w2) }"

primrec read_all_rows :: "string \<Rightarrow> nat \<Rightarrow> buffered_reader \<Rightarrow> string list list \<times> buffered_reader" where
  "read_all_rows delimiter 0 r = ([], r)"
| "read_all_rows delimiter (Suc n) r =
     (let (ok, rows, r1) = ReadRows delimiter [] r; (rest, r2) = read_all_rows delimiter n r1 in (rows # rest, r2))"

definition csv_text :: "string \<Rightarrow> string list list \<Rightarrow> string" where
  "csv_text delimiter rowss = concat (map (\<lambda>rows. JoinString rows delimiter @ [LF]) rowss)"

lemma write_all_rows_text:
  assumes "\<forall>c d. disk c d"
  shows "wr_ok w \<Longrightarrow> \<not> wr_newline_cr_lf w \<Longrightarrow>
    \<exists>w'. write_all_rows disk delimiter rowss w = Some (True, w') \<and> wr_ok w' \<and> wr_total w' = wr_total w @ csv_text delimiter rowss"
proof (induction rowss arbitrary: w)
  case (Cons rows rowss)
  obtain w1 where w1: "WriteRows disk delimiter rows w = Some (True, w1)" "wr_ok w1"
      "wr_total w1 = wr_total w @ JoinString rows delimiter @ [LF]" "\<not> wr_newline_cr_lf w1"
    using WriteLine_writes [OF assms Cons.prems, of "JoinString rows delimiter"] by (auto simp: WriteRows_def)
  with Cons.IH [OF w1(2,4)] show ?case by (auto simp: csv_text_def)
qed (simp add: csv_text_def)

lemma read_all_rows_text:
  assumes "c \<noteq> LF" "c \<noteq> CR"
  shows "\<forall>rows \<in> set rowss. \<forall>f \<in> set rows. plain_field c f \<Longrightarrow> rd_ok r \<Longrightarrow> rd_remove_cr_or_lf r \<Longrightarrow>
    remaining r = csv_text [c] rowss \<Longrightarrow> \<exists>r'. read_all_rows [c] (length rowss) r = (rowss, r') \<and> eof r'"
proof (induction rowss arbitrary: r)
  case Nil
  with eof_remaining [of r] show ?case by (simp add: csv_text_def)
next
  case (Cons rows rowss)
  let ?l = "JoinString rows [c]"
  have rem: "remaining r = ?l @ LF # csv_text [c] rowss" using Cons.prems(4) by (simp add: csv_text_def)
  have plain: "LF \<notin> set ?l" using JoinString_plain [of rows c] assms Cons.prems(1) by simp
  have "CR \<notin> set (remaining r)"
    unfolding Cons.prems(4) csv_text_def using JoinString_plain [OF _ assms] Cons.prems(1) by auto
  moreover have "first_line (remaining r) = ?l @ [LF]" "line_text True (remaining r) = ?l"
    using plain unfolding rem by (simp_all add: first_line_def line_text_def takeWhile_append)
  ultimately obtain r1 where r1: "ReadLine r = Some (?l, r1)" "rd_ok r1" "remaining r1 = csv_text [c] rowss" "rd_remove_cr_or_lf r1"
    using ReadLine_correct [OF Cons.prems(2)] Cons.prems(3) rem by auto
  then have "ReadRows [c] [] r = (True, rows, r1)" using tokens_JoinString [of rows c] Cons.prems(1) by (simp add: ReadRows_def)
  with Cons.IH [OF _ r1(2,4,3)] Cons.prems(1) show ?case by auto
qed

section \<open>Properties\<close>

text \<open>
  A reader splits a file at its line feeds and nowhere else, whatever the capacity of its buffer:
  its lines are those of the reference definition, none is cut at the end of a buffer, and after them it is at the end.
\<close>

theorem reader_splits_at_line_feeds:
  assumes "0 < cap"
  shows "\<exists>r. read_lines (length (split_lines content)) (Reader_Open False cap content) = Some (split_lines content, r) \<and> eof r"
  using read_lines_split [of "Reader_Open False cap content"] Reader_Open_ok [OF assms, of False content] by simp

theorem reader_splits_at_line_feeds_witness:
  "\<exists>r. read_lines 2 (Reader_Open False 3 (''ab'' @ [LF] @ ''cdef'')) = Some ([''ab'' @ [LF], ''cdef''], r) \<and> eof r"
proof -
  have "split_lines (''ab'' @ [LF] @ ''cdef'') = [''ab'' @ [LF], ''cdef'']" by code_simp
  with reader_splits_at_line_feeds [of 3 "''ab'' @ [LF] @ ''cdef''"] show ?thesis by (simp add: numeral_2_eq_2)
qed

text \<open>
  C38.  On a disk that takes every write, with line feeds as line ends and a delimiter of one character that is no line end,
  what a CSV writer wrote a CSV reader reads back: rows of fields that are not empty and contain neither the delimiter
  nor a line end come back as they were and in order, and then the file is at its end.
\<close>

theorem csv_file_roundtrip:
  assumes "\<forall>c d. disk c d" "c \<noteq> LF" "c \<noteq> CR" "\<forall>rows \<in> set rowss. \<forall>f \<in> set rows. plain_field c f"
  shows "\<exists>w0 w r. Writer_Open disk True (new_BufferedWriter False) = Some (Status_OK, w0) \<and>
    write_all_rows disk [c] rowss w0 = Some (True, w) \<and>
    read_all_rows [c] (length rowss) (CsvReader_Open 0 (wr_file (Writer_Close disk w))) = (rowss, r) \<and> eof r"
proof -
  obtain w0 where w0: "Writer_Open disk True (new_BufferedWriter False) = Some (Status_OK, w0)" "wr_ok w0"
      "\<not> wr_newline_cr_lf w0" "wr_total w0 = []"
    by (simp add: Writer_Open_def Writer_Close_def Flush_def new_BufferedWriter_def wr_ok_def wr_total_def kDefaultBufferCapacity_def)
  from write_all_rows_text [OF assms(1) w0(2,3)] obtain w where
    w: "write_all_rows disk [c] rowss w0 = Some (True, w)" "wr_ok w" "wr_total w = csv_text [c] rowss"
    using w0(4) by fastforce
  have written: "wr_file (Writer_Close disk w) = csv_text [c] rowss"
    using w(2,3) assms(1) by (simp add: Writer_Close_def Flush_def wr_ok_def wr_total_def)
  have "rd_ok (CsvReader_Open 0 x) \<and> remaining (CsvReader_Open 0 x) = x \<and> rd_remove_cr_or_lf (CsvReader_Open 0 x)" for x
    using Reader_Open_ok [of kDefaultBufferCapacity True x] by (simp add: CsvReader_Open_def kDefaultBufferCapacity_def)
  with read_all_rows_text [OF assms(2-4)] written w0(1) w(1) show ?thesis by metis
qed

theorem csv_file_roundtrip_witness:
  "\<exists>w0 w r. Writer_Open (\<lambda>_ _. True) True (new_BufferedWriter False) = Some (Status_OK, w0) \<and>
    write_all_rows (\<lambda>_ _. True) '','' [[''x'', ''yz''], [''1'']] w0 = Some (True, w) \<and>
    read_all_rows '','' 2 (CsvReader_Open 0 (wr_file (Writer_Close (\<lambda>_ _. True) w))) = ([[''x'', ''yz''], [''1'']], r) \<and> eof r"
  using csv_file_roundtrip [of "\<lambda>_ _. True" "CHR '',''" "[[''x'', ''yz''], [''1'']]"] by (simp add: plain_field_def numeral_2_eq_2)

text \<open>
  With the longer line end the writer can lose the line feed: when one character of its buffer is free
  only the carriage return is written.
\<close>

lemma longer_line_end_lost:
  "map_option (\<lambda>(ok, w). (ok, wr_file (Writer_Close (\<lambda>_ _. True) w)))
     (Option.bind (Writer_Open (\<lambda>_ _. True) True (new_BufferedWriter True))
       (\<lambda>(_, w). WriteLine (\<lambda>_ _. True) (replicate 255 CHR ''x'') w)) =
   Some (True, replicate 255 CHR ''x'' @ [CR])"
  by code_simp

text \<open>A carriage return inside a line is lost when it is the last character of the buffer.\<close>

lemma inner_carriage_return_lost:
  "map_option fst (ReadLine (Reader_Open True 2 ([CHR ''a'', CR, CHR ''b'', LF]))) = Some ''ab'' \<and>
   map_option fst (ReadLine (Reader_Open True 8 ([CHR ''a'', CR, CHR ''b'', LF]))) = Some [CHR ''a'', CR, CHR ''b'']"
  by code_simp

end
