(* ===== verification/Felicia_Data.thy ===== *)
theory Felicia_Data
  imports Felicia_MessageIO
begin

text \<open>
  \<open>core/lib/containers/data.h\<close>, \<open>data.cc\<close> and \<open>data_internal.h\<close>: a string of bytes that is used as a vector of
  elements of some type.  An element is its bytes, and the size of the type a parameter.  An exception and a
  failed \<open>CHECK\<close> are \<open>None\<close>.
\<close>

section \<open>Types of data\<close>

datatype element_type =
    ELEMENT_TYPE_CUSTOM | ELEMENT_TYPE_8U | ELEMENT_TYPE_8S | ELEMENT_TYPE_16U | ELEMENT_TYPE_16S | ELEMENT_TYPE_32U
  | ELEMENT_TYPE_32S | ELEMENT_TYPE_64U | ELEMENT_TYPE_64S | ELEMENT_TYPE_32F | ELEMENT_TYPE_64F

text \<open>The numbers of the enumeration, in the order of the constructors.\<close>

definition element_types :: "element_type list" where
  "element_types = [ELEMENT_TYPE_CUSTOM, ELEMENT_TYPE_8U, ELEMENT_TYPE_8S, ELEMENT_TYPE_16U, ELEMENT_TYPE_16S, ELEMENT_TYPE_32U,
     ELEMENT_TYPE_32S, ELEMENT_TYPE_64U, ELEMENT_TYPE_64S, ELEMENT_TYPE_32F, ELEMENT_TYPE_64F]"

datatype data_channel_type =
    CHANNEL_TYPE_CUSTOM | CHANNEL_TYPE_C1 | CHANNEL_TYPE_C2 | CHANNEL_TYPE_C3 | CHANNEL_TYPE_C4

definition data_channel_types :: "data_channel_type list" where
  "data_channel_types = [CHANNEL_TYPE_CUSTOM, CHANNEL_TYPE_C1, CHANNEL_TYPE_C2, CHANNEL_TYPE_C3, CHANNEL_TYPE_C4]"

fun index_of :: "'a \<Rightarrow> 'a list \<Rightarrow> nat" where
  "index_of x [] = 0"
| "index_of x (y # ys) = (if x = y then 0 else Suc (index_of x ys))"

definition MakeDataMessageType :: "element_type \<Rightarrow> data_channel_type \<Rightarrow> u32" where
  "MakeDataMessageType e c =
     push_bit 16 (word_of_nat (index_of e element_types)) OR word_of_nat (index_of c data_channel_types)"

text \<open>A number outside of the enumerations is \<open>None\<close>.\<close>

definition of_number :: "'a list \<Rightarrow> u16 \<Rightarrow> 'a option" where
  "of_number xs n = (if unat n < length xs then Some (xs ! unat n) else None)"

definition GetElementaAndChannelType :: "u32 \<Rightarrow> element_type option \<times> data_channel_type option" where
  "GetElementaAndChannelType ty = (of_number element_types (ucast (drop_bit 16 ty)), of_number data_channel_types (ucast ty))"

definition GetElement1Size :: "element_type \<Rightarrow> u64" where
  "GetElement1Size e =
     (if e \<in> {ELEMENT_TYPE_8U, ELEMENT_TYPE_8S} then 1
      else if e \<in> {ELEMENT_TYPE_16U, ELEMENT_TYPE_16S} then 2
      else if e \<in> {ELEMENT_TYPE_32U, ELEMENT_TYPE_32S, ELEMENT_TYPE_32F} then 4
      else if e \<in> {ELEMENT_TYPE_64U, ELEMENT_TYPE_64S, ELEMENT_TYPE_64F} then 8
      else - 1)"

definition GetChannelSize :: "data_channel_type \<Rightarrow> u64" where
  "GetChannelSize c =
     (case c of CHANNEL_TYPE_C1 \<Rightarrow> 1 | CHANNEL_TYPE_C2 \<Rightarrow> 2 | CHANNEL_TYPE_C3 \<Rightarrow> 3 | CHANNEL_TYPE_C4 \<Rightarrow> 4 | _ \<Rightarrow> - 1)"

section \<open>Data\<close>

record data =
  data_bytes :: bytes
  data_type :: u32

definition new_Data :: data where
  "new_Data = \<lparr>data_bytes = [], data_type = MakeDataMessageType ELEMENT_TYPE_CUSTOM CHANNEL_TYPE_C1\<rparr>"

text \<open>The constructor from an array takes as many bytes as there are elements.\<close>

definition Data_of_array :: "bytes \<Rightarrow> nat \<Rightarrow> u32 \<Rightarrow> data" where
  "Data_of_array s n ty = \<lparr>data_bytes = take n s, data_type = ty\<rparr>"

definition Data_resize :: "nat \<Rightarrow> data \<Rightarrow> data" where
  "Data_resize n d = d\<lparr>data_bytes := take n (data_bytes d) @ replicate (n - length (data_bytes d)) 0\<rparr>"

definition Data_clear :: "data \<Rightarrow> data" where
  "Data_clear d = d\<lparr>data_bytes := []\<rparr>"

text \<open>The types are not exchanged.\<close>

definition Data_swap :: "data \<Rightarrow> data \<Rightarrow> data \<times> data" where
  "Data_swap d e = (d\<lparr>data_bytes := data_bytes e\<rparr>, e\<lparr>data_bytes := data_bytes d\<rparr>)"

record data_message =
  dm_type :: u32
  dm_data :: bytes

definition ToDataMessage :: "bool \<Rightarrow> data \<Rightarrow> data_message \<times> data" where
  "ToDataMessage copy d = (\<lparr>dm_type = data_type d, dm_data = data_bytes d\<rparr>, if copy then d else Data_clear d)"

definition FromDataMessage :: "data_message \<Rightarrow> status \<times> data" where
  "FromDataMessage message = (Status_OK, \<lparr>data_bytes = dm_data message, data_type = dm_type message\<rparr>)"

section \<open>Views\<close>

definition view_size :: "nat \<Rightarrow> data \<Rightarrow> nat" where
  "view_size k d = length (data_bytes d) div k"

definition view_empty :: "data \<Rightarrow> bool" where
  "view_empty d \<longleftrightarrow> data_bytes d = []"

definition view_index :: "nat \<Rightarrow> nat \<Rightarrow> data \<Rightarrow> bytes option" where
  "view_index k idx d = (if idx < view_size k d then Some (take k (drop (idx * k) (data_bytes d))) else None)"

definition view_at :: "nat \<Rightarrow> nat \<Rightarrow> data \<Rightarrow> bytes option" where
  "view_at k idx d = (if idx \<ge> view_size k d then None else view_index k idx d)"

definition view_front :: "nat \<Rightarrow> data \<Rightarrow> bytes option" where
  "view_front k d = view_index k 0 d"

definition view_back :: "nat \<Rightarrow> data \<Rightarrow> bytes option" where
  "view_back k d = (if view_size k d = 0 then None else view_index k (view_size k d - 1) d)"

definition AddOneElementToBack :: "nat \<Rightarrow> data \<Rightarrow> data" where
  "AddOneElementToBack k d = Data_resize (length (data_bytes d) + k) d"

definition put_at :: "nat \<Rightarrow> bytes \<Rightarrow> data \<Rightarrow> data" where
  "put_at i v d = d\<lparr>data_bytes := take i (data_bytes d) @ v @ drop (i + length v) (data_bytes d)\<rparr>"

definition view_push_back :: "nat \<Rightarrow> bytes \<Rightarrow> data \<Rightarrow> data" where
  "view_push_back k v d = put_at (length (data_bytes d)) v (AddOneElementToBack k d)"

text \<open>The size is unsigned: taking an element from less than one asks for a string that is too long.\<close>

definition view_pop_back :: "nat \<Rightarrow> data \<Rightarrow> data option" where
  "view_pop_back k d = (if k \<le> length (data_bytes d) then Some (Data_resize (length (data_bytes d) - k) d) else None)"

definition AddElements :: "nat \<Rightarrow> nat \<Rightarrow> nat \<Rightarrow> data \<Rightarrow> data option" where
  "AddElements k position n d =
     (if position * k \<le> length (data_bytes d)
      then Some (d\<lparr>data_bytes := take (position * k) (data_bytes d) @ replicate (k * n) 0 @ drop (position * k) (data_bytes d)\<rparr>)
      else None)"

primrec put_copies :: "nat \<Rightarrow> nat \<Rightarrow> bytes \<Rightarrow> nat \<Rightarrow> data \<Rightarrow> data" where
  "put_copies k position v 0 d = d"
| "put_copies k position v (Suc n) d = put_copies k (position + 1) v n (put_at (position * k) v d)"

definition view_insert :: "nat \<Rightarrow> nat \<Rightarrow> nat \<Rightarrow> bytes \<Rightarrow> data \<Rightarrow> data option" where
  "view_insert k position n v d = map_option (put_copies k position v n) (AddElements k position n d)"

definition view_erase :: "nat \<Rightarrow> nat \<Rightarrow> nat \<Rightarrow> data \<Rightarrow> data option" where
  "view_erase k first lst d =
     (if first * k \<le> length (data_bytes d)
      then Some (d\<lparr>data_bytes := take (first * k) (data_bytes d) @ drop (first * k + (lst - first) * k) (data_bytes d)\<rparr>)
      else None)"

definition view_resize :: "nat \<Rightarrow> nat \<Rightarrow> data \<Rightarrow> data" where
  "view_resize k n d = Data_resize (n * k) d"

section \<open>A view as a vector\<close>

text \<open>The data holds these elements of \<open>k\<close> bytes each.\<close>

definition holds :: "nat \<Rightarrow> data \<Rightarrow> bytes list \<Rightarrow> bool" where
  "holds k d es \<longleftrightarrow> 0 < k \<and> (\<forall>e \<in> set es. length e = k) \<and> data_bytes d = concat es"

lemma length_concat_k: "\<forall>e \<in> set es. length e = k \<Longrightarrow> length (concat es) = length es * k"
  by (induction es) auto

lemma take_concat_k: "\<forall>e \<in> set es. length e = k \<Longrightarrow> take (i * k) (concat es) = concat (take i es)"
  by (induction es arbitrary: i) (auto simp: take_Cons' algebra_simps split: nat_diff_split)

lemma drop_concat_k: "\<forall>e \<in> set es. length e = k \<Longrightarrow> drop (i * k) (concat es) = concat (drop i es)"
  by (induction es arbitrary: i) (auto simp: drop_Cons' algebra_simps split: nat_diff_split)

lemma holds_size: "holds k d es \<Longrightarrow> view_size k d = length es"
  using length_concat_k [of es k] by (auto simp: holds_def view_size_def)

lemma holds_index: "holds k d es \<Longrightarrow> view_index k i d = (if i < length es then Some (es ! i) else None)"
  using holds_size [of k d es]
  by (auto simp: holds_def view_index_def drop_concat_k Cons_nth_drop_Suc [symmetric])

lemma put_copies_at:
  assumes "length v = k" "\<forall>e \<in> set pre. length e = k" "\<forall>e \<in> set mid. length e = k" "length mid = n"
  shows "data_bytes d = concat pre @ concat mid @ rest \<Longrightarrow>
    data_bytes (put_copies k (length pre) v n d) = concat pre @ concat (replicate n v) @ rest"
  using assms(2-)
proof (induction n arbitrary: pre mid d)
  case (Suc n)
  obtain e mid' where mid: "mid = e # mid'" "length e = k" using Suc.prems by (cases mid) auto
  have "data_bytes (put_at (length pre * k) v d) = concat (pre @ [v]) @ concat mid' @ rest"
    using Suc.prems(1,2) mid assms(1) length_concat_k [OF Suc.prems(2)] by (simp add: put_at_def)
  with Suc.IH [of "put_at (length pre * k) v d" "pre @ [v]" mid'] Suc.prems mid assms(1) show ?case by simp
qed simp

section \<open>Properties\<close>

text \<open>
  A view behaves as a vector: on data that holds elements of the size of the type, size, access, the
  ends, adding and removing at the back, inserting copies, erasing a range and resizing do what they do on the list of
  elements, and what has no result there has none on the data.
\<close>

theorem data_view_is_vector:
  assumes "holds k d es" "length v = k" "i \<le> length es" "i \<le> j" "j \<le> length es"
  shows "view_size k d = length es \<and> view_at k idx d = (if idx < length es then Some (es ! idx) else None) \<and>
    view_back k d = (if es = [] then None else Some (last es)) \<and>
    holds k (view_push_back k v d) (es @ [v]) \<and>
    (if es = [] then view_pop_back k d = None else \<exists>d'. view_pop_back k d = Some d' \<and> holds k d' (butlast es)) \<and>
    (\<exists>d'. view_insert k i n v d = Some d' \<and> holds k d' (take i es @ replicate n v @ drop i es)) \<and>
    (\<exists>d'. view_erase k i j d = Some d' \<and> holds k d' (take i es @ drop j es))"
proof (intro conjI)
  note h = assms(1) [unfolded holds_def]
  have len: "length (data_bytes d) = length es * k" using h length_concat_k [of es k] by simp
  show "view_size k d = length es" using holds_size [OF assms(1)] .
  show "view_at k idx d = (if idx < length es then Some (es ! idx) else None)"
    using assms(1) by (simp add: view_at_def holds_size holds_index)
  show "view_back k d = (if es = [] then None else Some (last es))"
    using assms(1) by (auto simp: view_back_def holds_size holds_index last_conv_nth)
  show "holds k (view_push_back k v d) (es @ [v])"
    using h assms(2) by (simp add: holds_def view_push_back_def AddOneElementToBack_def Data_resize_def put_at_def)
  show "if es = [] then view_pop_back k d = None else \<exists>d'. view_pop_back k d = Some d' \<and> holds k d' (butlast es)"
  proof (cases "es = []")
    case True
    with h show ?thesis by (simp add: view_pop_back_def)
  next
    case False
    then have "length es * k - k = (length es - 1) * k" by (simp add: diff_mult_distrib)
    moreover have "k \<le> length es * k" using False by (cases es) simp_all
    ultimately show ?thesis
      using False h len take_concat_k [of es k "length es - 1"]
      by (auto simp: view_pop_back_def Data_resize_def holds_def butlast_conv_take dest: in_set_takeD)
  qed
  show "\<exists>d'. view_insert k i n v d = Some d' \<and> holds k d' (take i es @ replicate n v @ drop i es)"
  proof -
    let ?d = "d\<lparr>data_bytes := concat (take i es) @ concat (replicate n (replicate k 0)) @ concat (drop i es)\<rparr>"
    have "i * k \<le> length es * k" using assms(3) by simp
    moreover have "concat (replicate n (replicate k (0 :: u8))) = replicate (k * n) 0"
      by (induction n) (simp_all add: replicate_add [symmetric])
    ultimately have "AddElements k i n d = Some ?d"
      using h len by (simp add: AddElements_def take_concat_k drop_concat_k)
    moreover have "data_bytes (put_copies k (length (take i es)) v n ?d) =
        concat (take i es) @ concat (replicate n v) @ concat (drop i es)"
      using assms(2) h by (intro put_copies_at [where mid = "replicate n (replicate k 0)"]) (auto dest: in_set_takeD)
    ultimately show ?thesis
      using h assms(2,3) by (auto simp: view_insert_def holds_def dest: in_set_takeD in_set_dropD)
  qed
  show "\<exists>d'. view_erase k i j d = Some d' \<and> holds k d' (take i es @ drop j es)"
  proof -
    have "i * k + (j - i) * k = j * k" using assms(4) by (simp flip: add_mult_distrib)
    moreover have "i * k \<le> length es * k" using assms(3) by simp
    ultimately show ?thesis
      using h len by (auto simp: view_erase_def holds_def take_concat_k drop_concat_k dest: in_set_takeD in_set_dropD)
  qed
qed

theorem data_view_is_vector_witness:
  "holds 2 (view_push_back 2 [5, 6] \<lparr>data_bytes = [1, 2, 3, 4], data_type = 0\<rparr>) [[1, 2], [3, 4], [5, 6]] \<and>
   (\<exists>d'. view_insert 2 1 2 [5, 6] \<lparr>data_bytes = [1, 2, 3, 4], data_type = 0\<rparr> = Some d' \<and> holds 2 d' [[1, 2], [5, 6], [5, 6], [3, 4]])"
proof -
  have "holds 2 \<lparr>data_bytes = [1, 2, 3, 4], data_type = 0\<rparr> [[1, 2], [3, 4]]" by (simp add: holds_def)
  from data_view_is_vector [OF this, of "[5, 6]" 1 1 0 2] show ?thesis by (simp add: numeral_2_eq_2)
qed

text \<open>
  The type of data keeps its two parts: the element type and the channel type that a type was made from
  are read back from it, for all of them.
\<close>

theorem data_message_type_roundtrip: "GetElementaAndChannelType (MakeDataMessageType e c) = (Some e, Some c)"
  by (cases e; cases c; hypsubst; code_simp)

end
