(* ===== verification/Felicia_Flag.thy ===== *)
theory Felicia_Flag
  imports Felicia_ChannelDef "HOL-Library.Sublist"
begin

text \<open>
  \<open>core/util/command_line_interface\<close>: flags (\<open>flag.h\<close>, \<open>flag.cc\<close>, \<open>flag_value_traits.h\<close>), the
  parser that reads a command line into them (\<open>flag_parser.h\<close>, \<open>flag_parser.cc\<close>), and the sets a
  value may come from (\<open>core/lib/base/range.h\<close>, \<open>choices.h\<close>).  The value types of the template are
  \<open>bool\<close>, \<open>int\<close> and \<open>string\<close> here; \<open>base::StringToInt\<close> is a parameter.  A failing \<open>CHECK\<close> is \<open>None\<close>.
\<close>

section \<open>Values\<close>

datatype flag_value = BoolValue bool | IntValue int | StringValue string

datatype flag_type = TBool | TInt | TString

fun string_le :: "string \<Rightarrow> string \<Rightarrow> bool" where
  "string_le [] t = True"
| "string_le (c # s) [] = False"
| "string_le (c # s) (d # t) = (if c = d then string_le s t else (of_char c :: nat) < of_char d)"

fun value_le :: "flag_value \<Rightarrow> flag_value \<Rightarrow> bool" where
  "value_le (IntValue a) (IntValue b) = (a \<le> b)"
| "value_le (StringValue s) (StringValue t) = string_le s t"
| "value_le _ _ = False"

datatype value_limit = NoLimit | RangeLimit flag_value flag_value | ChoicesLimit "flag_value list"

definition Range_In :: "flag_value \<Rightarrow> flag_value \<Rightarrow> flag_value \<Rightarrow> bool" where
  "Range_In from to v \<longleftrightarrow> value_le from v \<and> value_le v to"

definition Choices_In :: "flag_value list \<Rightarrow> flag_value \<Rightarrow> bool" where
  "Choices_In values v \<longleftrightarrow> List.find (\<lambda>w. v = w) values \<noteq> None"

fun limit_admits :: "value_limit \<Rightarrow> flag_value \<Rightarrow> bool" where
  "limit_admits NoLimit v \<longleftrightarrow> True"
| "limit_admits (RangeLimit from to) v \<longleftrightarrow> Range_In from to v"
| "limit_admits (ChoicesLimit values) v \<longleftrightarrow> Choices_In values v"

text \<open>A store with a default value counts as set from the start; the default is not checked.\<close>

record value_store =
  vs_value :: flag_value
  vs_is_set :: bool
  vs_limit :: value_limit

fun init_value :: "flag_type \<Rightarrow> flag_value" where
  "init_value TBool = BoolValue False"
| "init_value TInt = IntValue 0"
| "init_value TString = StringValue []"

definition MakeValueStore :: "flag_type \<Rightarrow> value_store" where
  "MakeValueStore ty = \<lparr>vs_value = init_value ty, vs_is_set = False, vs_limit = NoLimit\<rparr>"

definition MakeDefaultValueStore :: "flag_value \<Rightarrow> value_limit \<Rightarrow> value_store" where
  "MakeDefaultValueStore v limit = \<lparr>vs_value = v, vs_is_set = True, vs_limit = limit\<rparr>"

definition ValueStore_set_value :: "flag_value \<Rightarrow> value_store \<Rightarrow> value_store option" where
  "ValueStore_set_value v st =
     (if limit_admits (vs_limit st) v then Some (st\<lparr>vs_value := v, vs_is_set := True\<rparr>) else None)"

section \<open>Flags\<close>

record flag =
  fl_short :: string
  fl_long :: string
  fl_name :: string
  fl_help :: string
  fl_type :: flag_type
  fl_store :: value_store

definition new_Flag :: "flag_type \<Rightarrow> value_store \<Rightarrow> flag" where
  "new_Flag ty st = \<lparr>fl_short = [], fl_long = [], fl_name = [], fl_help = [], fl_type = ty, fl_store = st\<rparr>"

definition IsAsciiAlphaOrDigitOrUnderscore :: "char \<Rightarrow> bool" where
  "IsAsciiAlphaOrDigitOrUnderscore c \<longleftrightarrow>
     (let n = (of_char c :: nat) in (65 \<le> n \<and> n \<le> 90) \<or> (97 \<le> n \<and> n \<le> 122) \<or> (48 \<le> n \<and> n \<le> 57) \<or> n = 95)"

definition ContainsOnlyAsciiAlphaOrDigitOrUndderscore :: "string \<Rightarrow> bool" where
  "ContainsOnlyAsciiAlphaOrDigitOrUndderscore text \<longleftrightarrow> list_all IsAsciiAlphaOrDigitOrUnderscore text"

definition SetShortName :: "string \<Rightarrow> flag \<Rightarrow> flag option" where
  "SetShortName short_name f =
     (let (hit, text) = ConsumePrefix short_name ''-'' in
      if hit \<and> ContainsOnlyAsciiAlphaOrDigitOrUndderscore text then Some (f\<lparr>fl_short := short_name\<rparr>) else None)"

definition SetLongName :: "string \<Rightarrow> flag \<Rightarrow> flag option" where
  "SetLongName long_name f =
     (let (hit, text) = ConsumePrefix long_name ''--'' in
      if hit \<and> text \<noteq> ''help'' \<and> ContainsOnlyAsciiAlphaOrDigitOrUndderscore text
      then Some (f\<lparr>fl_long := long_name\<rparr>) else None)"

definition SetName :: "string \<Rightarrow> flag \<Rightarrow> flag option" where
  "SetName nm f = (if ContainsOnlyAsciiAlphaOrDigitOrUndderscore nm then Some (f\<lparr>fl_name := nm\<rparr>) else None)"

definition Builder_Build :: "flag \<Rightarrow> flag option" where
  "Builder_Build f =
     (if fl_short f = [] \<and> fl_long f = [] \<and> fl_name f = [] then None
      else if fl_name f \<noteq> [] \<and> \<not> (fl_long f = [] \<and> fl_short f = []) then None
      else if fl_name f \<noteq> [] \<and> fl_type f = TBool then None
      else Some f)"

definition display_name :: "flag \<Rightarrow> string" where
  "display_name f = (if fl_name f \<noteq> [] then fl_name f else if fl_long f \<noteq> [] then fl_long f else fl_short f)"

definition is_positional :: "flag \<Rightarrow> bool" where
  "is_positional f \<longleftrightarrow> fl_name f \<noteq> []"

definition ALIGN_AT_INDEX_AND_APPEND :: "string \<Rightarrow> string \<Rightarrow> int \<Rightarrow> int \<Rightarrow> string" where
  "ALIGN_AT_INDEX_AND_APPEND ss text len index =
     (if len \<le> 0 then ss @ [CHR 0x0A] @ replicate (nat index) CHR '' '' @ text
      else ss @ replicate (nat len) CHR '' '' @ text)"

definition Flag_help :: "int \<Rightarrow> flag \<Rightarrow> string" where
  "Flag_help help_start f =
     (let names = (if is_positional f then fl_name f
                   else fl_short f @
                     (if fl_long f \<noteq> [] then (if fl_short f \<noteq> [] then '', '' else ''    '') @ fl_long f else [])) in
      ALIGN_AT_INDEX_AND_APPEND names (fl_help f) (help_start - int (length names)) help_start)"

section \<open>Parsing\<close>

record flag_parser =
  argv :: "string list"
  current_idx :: nat

text \<open>Past the last argument there is the null pointer, which is read as the empty string.\<close>

definition current :: "flag_parser \<Rightarrow> string" where
  "current p = (if current_idx p < length (argv p) then argv p ! current_idx p else [])"

definition Proceed :: "flag_parser \<Rightarrow> flag_parser" where
  "Proceed p = (if current_idx p < length (argv p) then p\<lparr>current_idx := current_idx p + 1\<rparr> else p)"

type_synonym string_to_int = "string \<Rightarrow> int option"

fun ValueParser_ParseValue :: "string_to_int \<Rightarrow> flag_type \<Rightarrow> string \<Rightarrow> flag_value option" where
  "ValueParser_ParseValue StringToInt TBool arg = Some (BoolValue True)"
| "ValueParser_ParseValue StringToInt TInt arg = map_option IntValue (StringToInt arg)"
| "ValueParser_ParseValue StringToInt TString arg = (if arg = [] then None else Some (StringValue arg))"

definition Flag_ParseValue :: "string_to_int \<Rightarrow> flag \<Rightarrow> string \<Rightarrow> flag option" where
  "Flag_ParseValue StringToInt f arg =
     (case ValueParser_ParseValue StringToInt (fl_type f) arg of
        None \<Rightarrow> None
      | Some v \<Rightarrow> map_option (\<lambda>st. f\<lparr>fl_store := st\<rparr>) (ValueStore_set_value v (fl_store f)))"

definition ConsumeEqualOrProceed :: "flag_parser \<Rightarrow> string \<Rightarrow> bool \<times> flag_parser \<times> string" where
  "ConsumeEqualOrProceed p arg =
     (let (hit, rest) = ConsumePrefix arg ''='' in
      if hit then (True, p, rest)
      else if arg \<noteq> [] then (False, p, arg)
      else let p' = Proceed p in (True, p', current p'))"

datatype attempt = Return bool flag flag_parser | Continue flag_parser string

definition try_name :: "string_to_int \<Rightarrow> string \<Rightarrow> flag \<Rightarrow> flag_parser \<Rightarrow> string \<Rightarrow> attempt" where
  "try_name StringToInt nm f p arg =
     (if nm = [] then Continue p arg
      else let (hit, rest) = ConsumePrefix arg nm in
        if \<not> hit then Continue p arg
        else let (ok, p', arg') = (if fl_type f = TBool then (True, p, rest) else ConsumeEqualOrProceed p rest) in
          if \<not> ok then Return False f p'
          else (case Flag_ParseValue StringToInt f arg' of
                  Some f' \<Rightarrow> Return True f' p' | None \<Rightarrow> Continue p' arg'))"

definition Flag_Parse :: "string_to_int \<Rightarrow> flag \<Rightarrow> flag_parser \<Rightarrow> bool \<times> flag \<times> flag_parser" where
  "Flag_Parse StringToInt f p =
     (case try_name StringToInt (fl_long f) f p (current p) of
        Return r f' p' \<Rightarrow> (r, f', p')
      | Continue p1 arg1 \<Rightarrow>
          (case try_name StringToInt (fl_short f) f p1 arg1 of
             Return r f' p' \<Rightarrow> (r, f', p')
           | Continue p2 arg2 \<Rightarrow>
               if fl_name f \<noteq> [] then
                 (case Flag_ParseValue StringToInt f arg2 of Some f' \<Rightarrow> (True, f', p2) | None \<Rightarrow> (False, f, p2))
               else (False, f, p2)))"

text \<open>
  A delegate with positional flags, each with its turn, and optional ones, tried in order.  An
  attempt that fails may have moved the parser.
\<close>

record flag_delegate =
  positional_flags :: "flag list"
  optional_flags :: "flag list"
  parser_index :: nat

fun ParsePositionalFlag ::
    "string_to_int \<Rightarrow> nat \<Rightarrow> nat \<Rightarrow> flag list \<Rightarrow> flag_parser \<Rightarrow> bool \<times> flag list \<times> flag_parser" where
  "ParsePositionalFlag StringToInt idx N [] p = (False, [], p)"
| "ParsePositionalFlag StringToInt idx N [f] p =
     (case Flag_Parse StringToInt f p of (r, f', p') \<Rightarrow> (r, [f'], p'))"
| "ParsePositionalFlag StringToInt idx N (f # g # fs) p =
     (if idx = N then (case Flag_Parse StringToInt f p of (r, f', p') \<Rightarrow> (r, f' # g # fs, p'))
      else (case ParsePositionalFlag StringToInt idx (N + 1) (g # fs) p of (r, fs', p') \<Rightarrow> (r, f # fs', p')))"

fun ParseOptionalFlag ::
    "string_to_int \<Rightarrow> flag list \<Rightarrow> flag_parser \<Rightarrow> bool \<times> flag list \<times> flag_parser" where
  "ParseOptionalFlag StringToInt [] p = (False, [], p)"
| "ParseOptionalFlag StringToInt (f # fs) p =
     (case Flag_Parse StringToInt f p of
        (True, f', p') \<Rightarrow> (True, f' # fs, p')
      | (False, f', p') \<Rightarrow> (case ParseOptionalFlag StringToInt fs p' of (r, fs', p'') \<Rightarrow> (r, f' # fs', p'')))"

definition Delegate_Parse :: "string_to_int \<Rightarrow> flag_delegate \<Rightarrow> flag_parser \<Rightarrow> bool \<times> flag_delegate \<times> flag_parser" where
  "Delegate_Parse StringToInt d p =
     (let idx = parser_index d + 1; d1 = d\<lparr>parser_index := idx\<rparr> in
      if idx \<le> length (positional_flags d)
      then (case ParsePositionalFlag StringToInt idx 1 (positional_flags d) p of
              (r, fs, p') \<Rightarrow> (r, d1\<lparr>positional_flags := fs\<rparr>, p'))
      else (case ParseOptionalFlag StringToInt (optional_flags d) p of
              (r, fs, p') \<Rightarrow> (r, d1\<lparr>optional_flags := fs\<rparr>, p')))"

section \<open>The parser only moves forward\<close>

definition forward :: "flag_parser \<Rightarrow> flag_parser \<Rightarrow> bool" where
  "forward p p' \<longleftrightarrow> argv p' = argv p \<and> current_idx p \<le> current_idx p'"

lemma forward_refl [simp]: "forward p p"
  by (simp add: forward_def)

lemma forward_trans: "forward p q \<Longrightarrow> forward q r \<Longrightarrow> forward p r"
  by (auto simp: forward_def)

lemma forward_consume: "ConsumeEqualOrProceed p arg = (ok, p', arg') \<Longrightarrow> forward p p'"
  by (auto simp: ConsumeEqualOrProceed_def ConsumePrefix_def Proceed_def forward_def Let_def split: if_splits)

lemma forward_try:
  "try_name StringToInt nm f p arg = Return r f' p' \<Longrightarrow> forward p p'"
  "try_name StringToInt nm f p arg = Continue p' arg' \<Longrightarrow> forward p p'"
  by (auto simp: try_name_def Let_def split: if_splits prod.splits option.splits dest: forward_consume)

lemma forward_Parse: "Flag_Parse StringToInt f p = (r, f', p') \<Longrightarrow> forward p p'"
  by (auto simp: Flag_Parse_def split: attempt.splits if_splits option.splits dest: forward_try intro: forward_trans)

lemma forward_positional: "ParsePositionalFlag StringToInt idx N fs p = (r, fs', p') \<Longrightarrow> forward p p'"
  by (induction StringToInt idx N fs p arbitrary: fs' rule: ParsePositionalFlag.induct)
    (auto split: prod.splits if_splits dest: forward_Parse)

lemma forward_optional: "ParseOptionalFlag StringToInt fs p = (r, fs', p') \<Longrightarrow> forward p p'"
proof (induction fs arbitrary: fs' p)
  case (Cons f fs)
  obtain b f1 p1 where p1: "Flag_Parse StringToInt f p = (b, f1, p1)" by (cases "Flag_Parse StringToInt f p") auto
  with Cons forward_Parse [OF p1] show ?case by (cases b) (auto split: prod.splits intro: forward_trans)
qed simp

lemma forward_delegate: "Delegate_Parse StringToInt d p = (r, d', p') \<Longrightarrow> forward p p'"
  by (auto simp: Delegate_Parse_def Let_def split: if_splits prod.splits dest: forward_positional forward_optional)

section \<open>The command line\<close>

text \<open>\<open>FlagParser::Parse\<close>; the texts printed on the way are left out.\<close>

function parse_loop ::
    "string_to_int \<Rightarrow> (flag_delegate \<Rightarrow> bool) \<Rightarrow> flag_delegate \<Rightarrow> flag_parser \<Rightarrow> bool \<times> flag_delegate" where
  "parse_loop StringToInt Validate d p =
     (if current_idx p < length (argv p) then
        if current p = ''--help'' then (False, d)
        else (case Delegate_Parse StringToInt d p of
                (False, d', p') \<Rightarrow> (False, d')
              | (True, d', p') \<Rightarrow> parse_loop StringToInt Validate d' (Proceed p'))
      else (Validate d, d))"
  by pat_completeness auto
termination
  by (relation "measure (\<lambda>(_, _, _, p). length (argv p) - current_idx p)")
    (auto dest!: sym [THEN forward_delegate] simp: forward_def Proceed_def)

declare parse_loop.simps [simp del]

definition FlagParser_Parse ::
    "string_to_int \<Rightarrow> (flag_delegate \<Rightarrow> bool) \<Rightarrow> string list \<Rightarrow> flag_delegate \<Rightarrow> bool \<times> flag_delegate" where
  "FlagParser_Parse StringToInt Validate args d = parse_loop StringToInt Validate d \<lparr>argv = args, current_idx = 1\<rparr>"

section \<open>Assignments\<close>

text \<open>
  A command line of assignments to flags by their long names, each written with an equal sign or as
  two arguments.
\<close>

record assignment =
  as_flag :: nat
  as_text :: string
  as_joined :: bool

definition render :: "flag list \<Rightarrow> assignment \<Rightarrow> string list" where
  "render fs a = (let long_name = fl_long (fs ! as_flag a) in
     if as_joined a then [long_name @ ''='' @ as_text a] else [long_name, as_text a])"

definition assign :: "string_to_int \<Rightarrow> assignment \<Rightarrow> flag list \<Rightarrow> flag list" where
  "assign StringToInt a fs = fs[as_flag a := the (Flag_ParseValue StringToInt (fs ! as_flag a) (as_text a))]"

text \<open>Names that the parser can tell apart: no name of another flag starts a long name.\<close>

definition tells_apart :: "flag list \<Rightarrow> bool" where
  "tells_apart fs \<longleftrightarrow> (\<forall>i < length fs. fl_long (fs ! i) \<noteq> [] \<and> fl_name (fs ! i) = [] \<and> fl_long (fs ! i) \<noteq> ''--help'' \<and>
     CHR ''='' \<notin> set (fl_long (fs ! i)) \<and> CHR ''='' \<notin> set (fl_short (fs ! i)) \<and>
     (\<forall>j < length fs. i \<noteq> j \<longrightarrow>
        \<not> prefix (fl_long (fs ! j)) (fl_long (fs ! i)) \<and>
        (fl_short (fs ! j) \<noteq> [] \<longrightarrow> \<not> prefix (fl_short (fs ! j)) (fl_long (fs ! i)))))"

definition assignable :: "string_to_int \<Rightarrow> flag list \<Rightarrow> assignment \<Rightarrow> bool" where
  "assignable StringToInt fs a \<longleftrightarrow> as_flag a < length fs \<and> fl_type (fs ! as_flag a) \<noteq> TBool \<and>
     Flag_ParseValue StringToInt (fs ! as_flag a) (as_text a) \<noteq> None"

text \<open>What an assignment keeps: everything but the value.\<close>

definition same_flag :: "flag \<Rightarrow> flag \<Rightarrow> bool" where
  "same_flag f g \<longleftrightarrow> fl_short g = fl_short f \<and> fl_long g = fl_long f \<and> fl_name g = fl_name f \<and> fl_type g = fl_type f \<and>
     vs_limit (fl_store g) = vs_limit (fl_store f)"

definition same_flags :: "flag list \<Rightarrow> flag list \<Rightarrow> bool" where
  "same_flags fs gs \<longleftrightarrow> length gs = length fs \<and> (\<forall>i < length fs. same_flag (fs ! i) (gs ! i))"

lemma ParseValue_same: "Flag_ParseValue StringToInt f arg = Some f' \<Longrightarrow> same_flag f f'"
  by (auto simp: Flag_ParseValue_def ValueStore_set_value_def same_flag_def split: option.splits if_splits)

lemma same_assign: "assignable StringToInt fs a \<Longrightarrow> same_flags fs (assign StringToInt a fs)"
  by (auto simp: assignable_def assign_def same_flags_def nth_list_update dest: ParseValue_same)
    (auto simp: same_flag_def)

lemma same_ParseValue:
  "same_flag f g \<Longrightarrow> Flag_ParseValue StringToInt g arg = None \<longleftrightarrow> Flag_ParseValue StringToInt f arg = None"
  by (auto simp: same_flag_def Flag_ParseValue_def ValueStore_set_value_def split: option.splits)

lemma same_assignable: "same_flags fs gs \<Longrightarrow> assignable StringToInt fs a \<Longrightarrow> assignable StringToInt gs a"
  using same_ParseValue [of "fs ! as_flag a" "gs ! as_flag a"] by (auto simp: assignable_def same_flags_def) (auto simp: same_flag_def)

lemma same_tells_apart: "same_flags fs gs \<Longrightarrow> tells_apart fs \<Longrightarrow> tells_apart gs"
  by (simp add: tells_apart_def same_flags_def same_flag_def)

lemma same_render: "same_flags fs gs \<Longrightarrow> as_flag a < length fs \<Longrightarrow> render gs a = render fs a"
  by (simp add: render_def same_flags_def same_flag_def)

lemma prefix_before_equal: "CHR ''='' \<notin> set nm \<Longrightarrow> prefix nm (xs @ ''='' @ ys) \<Longrightarrow> prefix nm xs"
  by (auto simp: prefix_append prefix_Cons)

text \<open>A flag with other names leaves the argument alone.\<close>

lemma other_flag_fails:
  assumes "fl_long g \<noteq> []" "fl_name g = []" "\<not> prefix (fl_long g) (current p)"
    "fl_short g \<noteq> [] \<longrightarrow> \<not> prefix (fl_short g) (current p)"
  shows "Flag_Parse StringToInt g p = (False, g, p)"
  using assms by (auto simp: Flag_Parse_def try_name_def ConsumePrefix_def StartsWith_iff prefix_def Let_def)

lemma own_flag_joined:
  assumes "fl_long f \<noteq> []" "fl_type f \<noteq> TBool" "current p = fl_long f @ ''='' @ text"
    "Flag_ParseValue StringToInt f text = Some f'"
  shows "Flag_Parse StringToInt f p = (True, f', p)"
  using assms by (simp add: Flag_Parse_def try_name_def ConsumePrefix_def StartsWith_iff ConsumeEqualOrProceed_def Let_def)

lemma own_flag_split:
  assumes "fl_long f \<noteq> []" "fl_type f \<noteq> TBool" "current p = fl_long f" "current (Proceed p) = text"
    "Flag_ParseValue StringToInt f text = Some f'"
  shows "Flag_Parse StringToInt f p = (True, f', Proceed p)"
  using assms by (simp add: Flag_Parse_def try_name_def ConsumePrefix_def StartsWith_iff ConsumeEqualOrProceed_def Let_def)

lemma optional_skips:
  "(\<forall>g \<in> set gs. Flag_Parse StringToInt g p = (False, g, p)) \<Longrightarrow> Flag_Parse StringToInt f p = (True, f', p') \<Longrightarrow>
     ParseOptionalFlag StringToInt (gs @ f # fs) p = (True, gs @ f' # fs, p')"
  by (induction gs) auto

lemma current_at: "argv p = pre @ x # post \<Longrightarrow> current_idx p = length pre \<Longrightarrow> current p = x"
  by (simp add: current_def)

lemma read_assignment:
  assumes fs: "tells_apart fs" "assignable StringToInt fs a"
    and p: "argv p = pre @ render fs a @ post" "current_idx p = length pre"
  shows "\<exists>p'. ParseOptionalFlag StringToInt fs p = (True, assign StringToInt a fs, p') \<and> argv p' = argv p \<and>
    Suc (current_idx p') = length pre + length (render fs a)"
proof -
  let ?i = "as_flag a" and ?f = "fs ! as_flag a"
  have i: "?i < length fs" and ty: "fl_type ?f \<noteq> TBool" using fs(2) by (simp_all add: assignable_def)
  obtain f' where f': "Flag_ParseValue StringToInt ?f (as_text a) = Some f'" using fs(2) by (auto simp: assignable_def)
  have name: "fl_long ?f \<noteq> []" using fs(1) i by (simp add: tells_apart_def)
  have cur: "current p = fl_long ?f @ (if as_joined a then ''='' @ as_text a else [])"
    using p current_at by (simp add: render_def Let_def split: if_splits)
  have others: "Flag_Parse StringToInt g p = (False, g, p)" if "g \<in> set (take ?i fs)" for g
  proof -
    obtain j where j: "j < ?i" "g = fs ! j" using \<open>g \<in> set (take ?i fs)\<close> i by (auto simp: in_set_conv_nth)
    then have g: "fl_long g \<noteq> []" "fl_name g = []" "CHR ''='' \<notin> set (fl_long g)" "CHR ''='' \<notin> set (fl_short g)"
        "\<not> prefix (fl_long g) (fl_long ?f)" "fl_short g \<noteq> [] \<longrightarrow> \<not> prefix (fl_short g) (fl_long ?f)"
      using fs(1) i by (auto simp: tells_apart_def)
    have cut: "prefix nm (fl_long ?f)" if "CHR ''='' \<notin> set nm" "prefix nm (current p)" for nm
      using that prefix_before_equal [of nm "fl_long ?f" "as_text a"] by (cases "as_joined a") (simp_all add: cur)
    show ?thesis by (rule other_flag_fails) (use g cut in auto)
  qed
  have split: "fs = take ?i fs @ ?f # drop (Suc ?i) fs" using id_take_nth_drop [OF i] .
  have res: "assign StringToInt a fs = take ?i fs @ f' # drop (Suc ?i) fs"
    using f' i by (simp add: assign_def upd_conv_take_nth_drop)
  show ?thesis
  proof (cases "as_joined a")
    case True
    then have "Flag_Parse StringToInt ?f p = (True, f', p)" using own_flag_joined [OF name ty] f' cur by simp
    from optional_skips [OF _ this, of "take ?i fs" "drop (Suc ?i) fs"] others split res p(2) True
    show ?thesis by (simp add: render_def Let_def)
  next
    case False
    have next_arg: "current (Proceed p) = as_text a" "argv (Proceed p) = argv p" "current_idx (Proceed p) = Suc (length pre)"
      using p False by (simp_all add: render_def Let_def Proceed_def current_def nth_append)
    have "current p = fl_long ?f" using cur False by simp
    from own_flag_split [OF name ty this next_arg(1)] f'
    have "Flag_Parse StringToInt ?f p = (True, f', Proceed p)" by simp
    from optional_skips [OF _ this, of "take ?i fs" "drop (Suc ?i) fs"] others split res next_arg False
    show ?thesis by (simp add: render_def Let_def)
  qed
qed

lemma read_assignments:
  "tells_apart (optional_flags d) \<Longrightarrow> list_all (assignable StringToInt (optional_flags d)) as \<Longrightarrow> positional_flags d = [] \<Longrightarrow>
     argv p = pre @ concat (map (render (optional_flags d)) as) \<Longrightarrow> current_idx p = length pre \<Longrightarrow>
     \<exists>d'. parse_loop StringToInt (\<lambda>_. True) d p = (True, d') \<and> optional_flags d' = fold (assign StringToInt) as (optional_flags d)"
proof (induction as arbitrary: d p pre)
  case Nil
  then show ?case by (simp add: parse_loop.simps [of _ _ d p])
next
  case (Cons a as)
  let ?fs = "optional_flags d" and ?gs = "assign StringToInt a (optional_flags d)"
  have a: "assignable StringToInt ?fs a" using Cons.prems(2) by simp
  have argv: "argv p = pre @ render ?fs a @ concat (map (render ?fs) as)" using Cons.prems(4) by simp
  obtain p' where p': "ParseOptionalFlag StringToInt ?fs p = (True, ?gs, p')" "argv p' = argv p"
      "Suc (current_idx p') = length pre + length (render ?fs a)"
    using read_assignment [OF Cons.prems(1) a argv Cons.prems(5)] by blast
  note same = same_assign [OF a]
  let ?d = "d\<lparr>parser_index := parser_index d + 1, optional_flags := ?gs\<rparr>"
  have "Delegate_Parse StringToInt d p = (True, ?d, p')" using p'(1) Cons.prems(3) by (simp add: Delegate_Parse_def Let_def)
  moreover have "current_idx p < length (argv p)" "current p \<noteq> ''--help''"
  proof -
    obtain x xs where x: "render ?fs a = x # xs" "x = fl_long (?fs ! as_flag a) @ (if as_joined a then ''='' @ as_text a else [])"
      by (cases "as_joined a") (auto simp: render_def Let_def)
    show "current_idx p < length (argv p)" using argv x(1) Cons.prems(5) by simp
    have "fl_long (?fs ! as_flag a) \<noteq> ''--help''" using Cons.prems(1) a by (simp add: tells_apart_def assignable_def)
    moreover have "x \<noteq> ''--help''" if "as_joined a"
    proof
      assume "x = ''--help''"
      then have "set x = set ''--help''" by simp
      moreover have "CHR ''='' \<in> set x" using x(2) that by simp
      ultimately show False by simp
    qed
    ultimately have "x \<noteq> ''--help''" using x(2) by (cases "as_joined a") simp_all
    then show "current p \<noteq> ''--help''" using current_at [of p pre x] argv x(1) Cons.prems(5) by simp
  qed
  ultimately have loop: "parse_loop StringToInt (\<lambda>_. True) d p = parse_loop StringToInt (\<lambda>_. True) ?d (Proceed p')"
    by (subst parse_loop.simps) simp
  have "current_idx p' < length (argv p')" using p'(2,3) argv by simp
  then have pr: "argv (Proceed p') = (pre @ render ?fs a) @ concat (map (render ?gs) as)"
      "current_idx (Proceed p') = length (pre @ render ?fs a)"
    using p'(2,3) argv Cons.prems(2) same_render [OF same]
    by (auto simp: Proceed_def list_all_iff assignable_def intro!: arg_cong [where f = concat])
  have "list_all (assignable StringToInt ?gs) as" using Cons.prems(2) same_assignable [OF same] by (auto simp: list_all_iff)
  moreover have "tells_apart ?gs" using same_tells_apart [OF same Cons.prems(1)] .
  ultimately have "\<exists>d'. parse_loop StringToInt (\<lambda>_. True) ?d (Proceed p') = (True, d') \<and>
      optional_flags d' = fold (assign StringToInt) as ?gs"
    using Cons.IH [of ?d "Proceed p'" "pre @ render ?fs a"] pr Cons.prems(3) by simp
  with loop show ?case by simp
qed

section \<open>Properties\<close>

text \<open>
  C37.  A parser with optional flags only, whose delegate accepts every result, reads a command line of assignments.  Every
  flag has a long name other than \<open>--help\<close>, names have no equal sign, and no long or short name is the beginning of the long
  name of another flag; the flags assigned to are not of type bool, and each takes its value.  Then every flag that is given a
  value by its long name, with an equal sign or in the next argument, gets that value, later assignments replace earlier
  ones, and the other flags keep theirs.
\<close>

theorem flag_parser_reads_assignments:
  assumes "tells_apart fs" "list_all (assignable StringToInt fs) as"
  shows "\<exists>d. FlagParser_Parse StringToInt (\<lambda>_. True) (program # concat (map (render fs) as))
      \<lparr>positional_flags = [], optional_flags = fs, parser_index = 0\<rparr> = (True, d) \<and>
    optional_flags d = fold (assign StringToInt) as fs"
  using read_assignments [of "\<lparr>positional_flags = [], optional_flags = fs, parser_index = 0\<rparr>" StringToInt as
      "\<lparr>argv = program # concat (map (render fs) as), current_idx = 1\<rparr>" "[program]"] assms
  by (simp add: FlagParser_Parse_def)

definition demo_flags :: "flag list" where
  "demo_flags = [(new_Flag TString (MakeValueStore TString))\<lparr>fl_long := ''--topic'', fl_short := ''-t''\<rparr>,
     (new_Flag TString (MakeDefaultValueStore (StringValue ''UDP'') (ChoicesLimit [StringValue ''UDP'', StringValue ''TCP''])))
       \<lparr>fl_long := ''--protocol''\<rparr>]"

theorem flag_parser_reads_assignments_witness:
  "\<exists>d. FlagParser_Parse (\<lambda>_. None) (\<lambda>_. True) [''run'', ''--topic'', ''news'', ''--protocol=TCP'']
      \<lparr>positional_flags = [], optional_flags = demo_flags, parser_index = 0\<rparr> = (True, d) \<and>
     map (\<lambda>f. vs_value (fl_store f)) (optional_flags d) = [StringValue ''news'', StringValue ''TCP'']"
proof -
  let ?as = "[\<lparr>as_flag = 0, as_text = ''news'', as_joined = False\<rparr>, \<lparr>as_flag = 1, as_text = ''TCP'', as_joined = True\<rparr>]"
  have "tells_apart demo_flags" unfolding tells_apart_def by code_simp
  moreover have "list_all (assignable (\<lambda>_. None) demo_flags) ?as" unfolding assignable_def by code_simp
  moreover have "concat (map (render demo_flags) ?as) = [''--topic'', ''news'', ''--protocol=TCP'']" by code_simp
  moreover have "map (\<lambda>f. vs_value (fl_store f)) (fold (assign (\<lambda>_. None)) ?as demo_flags) = [StringValue ''news'', StringValue ''TCP'']"
    by code_simp
  ultimately show ?thesis using flag_parser_reads_assignments [of demo_flags "\<lambda>_. None" ?as "''run''"] by auto
qed

text \<open>
  A boolean flag is also set by every argument that only starts with its name: a program with
  the flags \<open>--all\<close> and \<open>--all_nodes\<close>, given the second, sets the first.
\<close>

theorem bool_flag_set_by_longer_name:
  "\<exists>d. FlagParser_Parse StringToInt (\<lambda>_. True) [''run'', ''--all_nodes'']
      \<lparr>positional_flags = [], optional_flags = [(new_Flag TBool (MakeValueStore TBool))\<lparr>fl_long := ''--all''\<rparr>,
         (new_Flag TBool (MakeValueStore TBool))\<lparr>fl_long := ''--all_nodes''\<rparr>], parser_index = 0\<rparr> = (True, d) \<and>
     map (\<lambda>f. vs_value (fl_store f)) (optional_flags d) = [BoolValue True, BoolValue False]"
  by (simp add: FlagParser_Parse_def parse_loop.simps Delegate_Parse_def Flag_Parse_def try_name_def ConsumePrefix_def
      StartsWith_def current_def Proceed_def Flag_ParseValue_def ValueStore_set_value_def new_Flag_def MakeValueStore_def Let_def)

end
