(* ===== verification/Spec2Isabelle.thy ===== *)
theory Spec2Isabelle
  imports Felicia_MasterProps Felicia_MasterProxyProps Felicia_HeartBeat Felicia_PublisherProps Felicia_SubscriberClaims Felicia_TimeSync
    Felicia_Service Felicia_RosProps Felicia_RosServiceProps Felicia_ServerProps Felicia_BroadcastProps Felicia_BioProps
    Felicia_WebSocketInput Felicia_WebSocketServerProps Felicia_WebSocketDeflateProps
    Felicia_FileProps Felicia_Data Felicia_Flag
begin

text \<open>
  A verification of the core of felicia, a framework in which the processes of a robot exchange
  messages on topics and call services.  All paths below are relative to \<open>src/felicia/core\<close>.

  \<^bold>\<open>The program.\<close>  A \<^emph>\<open>master\<close> (\<open>master/master.cc\<close>) keeps a registry: clients (processes), their nodes, and the
  topics and services of each node.  A node that publishes a topic registers it with the master and
  opens channels; the master tells the subscribing nodes where they are.  A \<^emph>\<open>publisher\<close>
  (\<open>communication/publisher.h\<close>) queues messages in a ring buffer and sends them, framed with a header,
  on its channels; a \<^emph>\<open>subscriber\<close> (\<open>communication/subscriber.h\<close>) picks a channel, connects,
  receives, queues, and calls its user in a message loop.  A service is registered in the same way, and
  called through gRPC, or over a ROS connection.  Channels are TCP, UDP or UNIX sockets, web sockets, or shared memory;
  a ROS channel begins with a handshake of headers.  The master learns from a \<^emph>\<open>heart beat\<close> that a client is gone.

  \<^bold>\<open>The theories.\<close>
  \<^item> \<open>Felicia_Prelude\<close>: ordered maps (\<open>base::flat_map\<close>), reachable states of a step relation, and the
    locale \<open>inductive_invariant\<close>, through which every machine below gets its invariant.
  \<^item> \<open>Felicia_Status\<close>, \<open>Felicia_MasterErrors\<close>: \<open>lib/error\<close>, \<open>message/message_io_error.cc\<close>, \<open>master/errors.h\<close>.
  \<^item> \<open>Felicia_Generator\<close>: \<open>util/uuid/generator.h\<close>, the draw of a value not in use, with the trials bounded as
    in the code and the random numbers a parameter.
  \<^item> \<open>Felicia_Messages\<close>, \<open>Felicia_ChannelDef\<close>: the protobuf messages of the registry as records; the
    validity and equality of channel definitions (\<open>channel/channel.cc\<close>), ROS name prefixes.
  \<^item> \<open>Felicia_Node\<close>, \<open>Felicia_Client\<close>, \<open>Felicia_Master\<close>, \<open>Felicia_MasterOps\<close>, \<open>Felicia_RosMasterProxy\<close>: the
    registry.  A call is a \<open>handle\<close> on arrival and a task that runs later on the master's thread, as in
    the code; \<open>Felicia_MasterMachine\<close> makes the two a step relation with a queue of tasks.
    \<open>Felicia_MasterInv\<close> and \<open>Felicia_MasterTasks\<close> prove the invariant, \<open>Felicia_MasterSpec\<close> states the
    abstract registry and \<open>Felicia_MasterProps\<close> proves that in a build without ROS every task refines it, that ids and names are
    unique, that a topic with a name has one publisher, and that each call is answered exactly once.
  \<^item> \<open>Felicia_MasterProxy\<close>, \<open>Felicia_MasterProxyProps\<close>: \<open>master/master_proxy.cc\<close>, \<open>master/master_notification_watcher.cc\<close> and
    \<open>node/topic_info_watcher_node.cc\<close>, the master as a client process sees it; what it delivers refines an account of the events.
  \<^item> \<open>Felicia_HeartBeat\<close>: \<open>master/heart_beat_listener.cc\<close> and \<open>heart_beat_signaller.cc\<close> as a machine with a clock and delayed
    tasks: the listener gives up only after five silent periods, and tells the master once.
  \<^item> \<open>Felicia_Pool\<close>: \<open>lib/containers/pool.h\<close>, the ring buffer, with its indices at their width, shown to be a
    bounded queue.
  \<^item> \<open>Felicia_MessageIO\<close>: headers, buffers, the read and write loops of a socket, sender and receiver
    (\<open>message/header.cc\<close>, \<open>channel/channel_buffer.cc\<close>, \<open>channel/socket/socket.cc\<close>, \<open>channel/message_sender.h\<close>,
    \<open>channel/message_receiver.h\<close>): messages survive a socket that cuts the bytes anywhere, if its reads that had to wait
    complete with all the bytes asked for.
  \<^item> \<open>Felicia_Communication\<close>, \<open>Felicia_Publisher\<close>, \<open>Felicia_PublisherProps\<close>, \<open>Felicia_Subscriber\<close>,
    \<open>Felicia_SubscriberProps\<close>, \<open>Felicia_SubscriberSafe\<close>, \<open>Felicia_SubscriberClaims\<close>: the two ends as machines
    whose posted tasks, requests to the master and sends in flight are explicit; order, whole frames as long as no send is
    cut short, the one case of undefined behaviour, draining, the choice of a channel.
  \<^item> \<open>Felicia_MessageFilter\<close>, \<open>Felicia_MessageFilterProps\<close>, \<open>Felicia_TimeSync\<close>: \<open>message/message_filter.h\<close>, several
    queues that are filtered together, and the filter that lets messages with close timestamps through, which is right
    for queues of one message.
  \<^item> \<open>Felicia_Service\<close>: \<open>communication/service_client.h\<close>, \<open>service_server.h\<close> with \<open>rpc/grpc_client_impl.h\<close> and
    \<open>grpc_server_impl.h\<close>; both ends keep the registration protocol.
  \<^item> \<open>Felicia_RosHeader\<close>, \<open>Felicia_RosProps\<close>: \<open>message/ros_header.cc\<close> and the handshakes of \<open>channel/ros_topic_request.cc\<close>,
    \<open>ros_topic_response.cc\<close>, \<open>ros_service_request.cc\<close> and \<open>ros_service_response.cc\<close>; headers survive, and what the two
    ends conclude from a handshake.
  \<^item> \<open>Felicia_RosService\<close>, \<open>Felicia_RosServiceProps\<close>: \<open>message/ros_rpc_header.cc\<close>, \<open>rpc/ros_server_impl.h\<close>,
    \<open>ros_service_manager.h\<close>, \<open>ros_service_handler.h\<close> and \<open>ros_client_impl.h\<close>; answers survive and are given at most once.
  \<^item> \<open>Felicia_Net\<close>, \<open>Felicia_ServerSocket\<close>, \<open>Felicia_ServerProps\<close>: \<open>channel/socket/tcp_server_socket.cc\<close>,
    \<open>unix_domain_server_socket.cc\<close> and \<open>channel/tcp_channel.cc\<close>; every connection is accounted for.
  \<^item> \<open>Felicia_Broadcast\<close>, \<open>Felicia_BroadcastProps\<close>: \<open>channel/socket/stream_socket_broadcaster.cc\<close> and
    \<open>web_socket_channel_broadcaster.cc\<close>; a broadcast reaches all sockets and is answered once; a callback that broadcasts
    again inside the loop over the stream sockets may invalidate its iterator.
  \<^item> \<open>Felicia_BioAdapter\<close>, \<open>Felicia_BioProps\<close>: \<open>channel/socket/socket_bio_adapter.cc\<close>, the ring buffer between SSL and a
    socket; no byte is lost, no caller waits for ever.
  \<^item> \<open>Felicia_WebSocket\<close>, \<open>Felicia_WebSocketProps\<close>: \<open>channel/socket/web_socket_channel.cc\<close> as a machine over the locale
    \<open>frame_stream\<close>; nothing follows the close frame, every frame of the user is answered once.
    \<open>Felicia_WebSocketStream\<close>, \<open>Felicia_WebSocketStreamProps\<close>, \<open>Felicia_WebSocketInput\<close>: \<open>channel/socket/web_socket_basic_stream.cc\<close>
    with the frame format and the parser of \<open>third_party/chromium/net/websockets\<close>; frames survive bytes cut anywhere, no
    input breaks a check, and the stream is an instance of the locale.
    \<open>Felicia_WebSocketServer\<close>, \<open>Felicia_WebSocketServerProps\<close>: \<open>channel/socket/web_socket.cc\<close>, \<open>web_socket_server.cc\<close>,
    \<open>web_socket_extension.cc\<close> and \<open>permessage_deflate.cc\<close>; a well-formed upgrade request is accepted, every connection is accounted
    for, and the exact requests that break the server.
    \<open>Felicia_WebSocketDeflate\<close>, \<open>Felicia_WebSocketDeflateProps\<close>: \<open>channel/socket/web_socket_deflate_stream.cc\<close> over a codec that
    is a parameter; messages survive compression.
  \<^item> \<open>Felicia_File\<close>, \<open>Felicia_FileProps\<close>: \<open>lib/file\<close>, the readers and writers of lines and of CSV rows.
  \<^item> \<open>Felicia_Data\<close>: \<open>lib/containers/data.h\<close>, bytes used as a vector of elements.
  \<^item> \<open>Felicia_Flag\<close>: \<open>util/command_line_interface\<close>, flags and their parser.
  \<^item> this theory: what holds from the publisher through the socket to the subscriber's user.

  \<^bold>\<open>Conventions.\<close>  A function that may leave C++'s defined behaviour (a null pointer, a use after
  free, an index out of range) or fail a \<open>CHECK\<close> returns an option, and \<open>None\<close> stands for that; errors the code
  reports are values of \<open>status\<close>.  Integers whose wrap-around matters are words.  A callback or a posted task is
  a constructor of a datatype that is kept in a list and run by a later event.  What lies outside the
  sources (protobuf serialization, sockets, zlib, gRPC, ROS serialization, random numbers, number parsing) is a parameter, and what is used of
  it is a hypothesis.

  \<^bold>\<open>Conditions.\<close>  Where the code relies on its callers or on the network without checking, or checks too late, the theorems
  say so.  A read or a write of a socket that had to wait and completes short is not gone on with, so the round trips assume
  that waiting reads complete in full, and speak of sends that were not cut short.  The master checks that a watcher and a
  heart beat signaller are on one TCP channel only when it connects to them, a running subscriber that it hears of a
  publisher on UDP only, a ROS client that it connects once at a time, and a web socket server that its window is of 8 to 15
  bits when it compresses: these checks are part of the definitions, and the theorems on definedness name the events that
  break them or assume the settings that do not.

  \<^bold>\<open>Termination.\<close>  No definition uses fuel.  The loops of the pool, the synchronizer, the accept loop, the line reader and the
  writes of the SSL adapter and of a web socket, which need not end for arbitrary states or answers of a socket, are
  partial functions into options, and are proved to return on the states that occur; the read, write and parse loops
  have a measure.

  \<^bold>\<open>Not modelled.\<close>  The wrappers of operating system sockets (\<open>channel/socket/tcp_socket.cc\<close>, \<open>udp_socket.cc\<close>, the client sockets
  beyond their read and write loops), of SSL (\<open>ssl_client_socket.cc\<close>, \<open>ssl_server_socket.cc\<close>: calls of BoringSSL), of shared
  memory (\<open>channel/shared_memory\<close>) and of gRPC: system calls and third party code;
  \<open>thread/main_thread.cc\<close>, a Chromium message loop; the numerics of \<open>lib/unit\<close>, \<open>slam\<close> and \<open>map\<close>, which are floating point; the drivers;
  the bindings for JavaScript, Python and WebAssembly; the command line tools.
\<close>

section \<open>From the publisher to the subscriber\<close>

lemma frames_serializable:
  "frames Serialize ms = map (frame Serialize) (filter (\<lambda>m. \<not> isl (Serialize m)) ms)"
  by (induction ms) (auto simp: frames_def frame_def split: sum.splits)

lemma subseq_map_preimage: "subseq ys (map f xs) \<Longrightarrow> \<exists>zs. ys = map f zs \<and> subseq zs xs"
  by (auto simp: subseq_conv_nths nths_map)

lemma wire_of_published:
  assumes "lone_ok Serialize m" "c \<in> set (channels (pub m))" "\<not> cut_short c"
  shows "\<exists>ms. wire c = map (frame Serialize) ms \<and> subseq ms (published m) \<and>
    (\<forall>msg \<in> set ms. \<exists>content. Serialize msg = Inr content \<and> fits content)"
proof -
  let ?good = "\<lambda>msg. \<not> isl (Serialize msg)"
  from assms have "subseq (wire c) (map (frame Serialize) (filter ?good (taken m)))"
    by (auto simp: lone_ok_def frames_serializable channel_wire_def dest!: bspec channel_ok_wire)
  then obtain ms where ms: "wire c = map (frame Serialize) ms" "subseq ms (filter ?good (taken m))"
    by (blast dest: subseq_map_preimage)
  have fit: "message_fits Serialize msg" if "msg \<in> set (published m)" for msg using assms(1) that by (simp add: lone_ok_def)
  have taken: "subseq (taken m) (published m)"
    using assms(1) by (auto simp: lone_ok_def intro: subseq_order.trans list_emb_prefix)
  have "subseq ms (taken m)" using ms(2) subseq_filter_left subseq_order.trans by blast
  then have sub: "subseq ms (published m)" using taken by (rule subseq_order.trans)
  have "\<exists>content. Serialize msg = Inr content \<and> fits content" if "msg \<in> set ms" for msg
  proof -
    have "?good msg" using that ms(2) by (auto dest!: set_nths_subset [THEN subsetD] simp: subseq_conv_nths)
    moreover have "message_fits Serialize msg" using that sub fit by (auto dest!: set_nths_subset [THEN subsetD] simp: subseq_conv_nths)
    ultimately show ?thesis by (cases "Serialize msg") (auto simp: message_fits_def)
  qed
  with ms(1) sub show ?thesis by blast
qed

text \<open>
  C5.  From the publisher to the user of the subscriber: what has completed on the one channel
  of a publisher, none of whose sends was cut short, is read by a receiver with a dynamic buffer, from
  a socket that cuts the bytes into pieces of any size, as published messages in the order of
  publishing; and a subscriber that was given these, or the first of them, hands its user, and keeps
  in its queue, published messages in this order only.  A read that had to wait must complete with all
  the bytes asked for, and no completed send may have left only a part of its bytes: the code resumes
  neither a short read nor a short write that had to wait.
\<close>

theorem published_messages_reach_the_user:
  assumes "reachable (\<lambda>m. m = new_pub_machine) (lone_step Serialize cls) m" and "c \<in> set (channels (pub m))"
    and "\<not> cut_short c" and "delivers Read incoming" and "\<And>msg bs. Serialize msg = Inr bs \<Longrightarrow> Deserialize bs = Inr msg"
    and "\<not> ShouldReceiveMessageWithHeader receiver" and "cb_is_dynamic (receive_buffer receiver)"
    and "incoming link = concat (wire c)"
  shows "\<exists>ms receiver' link'.
    receive_all (socket_ReadAsync err_text Read) Deserialize (length (wire c)) receiver link = Some (ms, receiver', link') \<and>
    subseq ms (published m) \<and>
    (\<forall>env s. sub_reachable env s \<and> prefix (received s) ms \<longrightarrow>
       subseq (map snd (delivered s) @ Pool_contents (sub_queue s)) (published m))"
proof -
  obtain ms where ms: "wire c = map (frame Serialize) ms" "subseq ms (published m)"
      "\<forall>msg \<in> set ms. \<exists>content. Serialize msg = Inr content \<and> fits content"
    using wire_of_published [OF single.inv_reachable [OF assms(1)] assms(2,3)] by blast
  have "message_link Read incoming Serialize Deserialize"
    by (intro message_link.intro stream_socket.intro message_codec.intro assms(4,5))
  from message_link.receive_all_frames [OF this assms(6), of ms link "[]" err_text] obtain receiver' link' where
    "receive_all (socket_ReadAsync err_text Read) Deserialize (length ms) receiver link = Some (ms, receiver', link')"
    using ms(1,3) assms(7,8) by (fastforce simp: room_def)
  moreover have "subseq (map snd (delivered s) @ Pool_contents (sub_queue s)) (published m)"
    if "sub_reachable env s" "prefix (received s) ms" for env s
  proof -
    have "subseq (map snd (delivered s) @ Pool_contents (sub_queue s)) (received s)"
      using subscriber.inv_reachable [OF that(1)] by (simp add: sub_ok_def order_ok_def)
    also have "subseq (received s) ms" using that(2) by (rule prefix_imp_subseq)
    also note ms(2)
    finally show ?thesis .
  qed
  ultimately show ?thesis using ms(1,2) by auto
qed

definition demo_listen :: "serialized_message sub_event list" where
  "demo_listen = [CallSubscribe 8 demo_sub_settings 1 (Some 2) None, MasterAnswers Status_OK, PublisherFound demo_news,
     ConnectDone Status_OK [Received (demo_text 1)]]"

theorem published_messages_reach_the_user_witness:
  "\<exists>m c ms receiver' link' s. lone_run SerializedMessage_Serialize demo_class demo_sends new_pub_machine = Some m \<and>
     channels (pub m) = [c] \<and>
     receive_all (socket_ReadAsync (\<lambda>_. []) pieces_Read) SerializedMessage_Deserialize 1 demo_channel ([2, 3], concat (wire c)) =
       Some (ms, receiver', link') \<and> subseq ms (published m) \<and>
     sub_run demo_env demo_listen new_Subscriber = Some s \<and> received s = ms \<and>
     subseq (map snd (delivered s) @ Pool_contents (sub_queue s)) (published m)"
proof -
  have "map_option (\<lambda>m. map (\<lambda>c. (wire c, cut_short c)) (channels (pub m)))
      (lone_run SerializedMessage_Serialize demo_class demo_sends new_pub_machine) =
      Some [([[3, 0, 0, 0, 1, 1, 1]], False)]" by code_simp
  then obtain m c where m: "lone_run SerializedMessage_Serialize demo_class demo_sends new_pub_machine = Some m"
      "channels (pub m) = [c]" "wire c = [[3, 0, 0, 0, 1, 1, 1]]" "\<not> cut_short c" by (auto simp: map_eq_Cons_conv)
  have "map_option received (sub_run demo_env demo_listen new_Subscriber) = Some [demo_text 1]" by code_simp
  then obtain s where s: "sub_run demo_env demo_listen new_Subscriber = Some s" "received s = [demo_text 1]" by auto
  have sub: "sub_reachable demo_env s" using s(1) by (rule sub_run_reachable) (auto intro: reachable.start)
  have got: "map_option fst (receive_all (socket_ReadAsync (\<lambda>_. []) pieces_Read) SerializedMessage_Deserialize 1 demo_channel
      ([2, 3], [3, 0, 0, 0, 1, 1, 1])) = Some [demo_text 1]" by code_simp
  have "\<not> ShouldReceiveMessageWithHeader demo_channel" "cb_is_dynamic (receive_buffer demo_channel)"
    by (simp_all add: demo_channel_defs)
  from published_messages_reach_the_user [OF lone_run_reachable [OF m(1) demo_sound reachable.start] _ m(4) pieces_delivers
      _ this, where Deserialize = SerializedMessage_Deserialize and link = "([2, 3], concat (wire c))" and err_text = "\<lambda>_. []"]
  obtain ms receiver' link' where r: "receive_all (socket_ReadAsync (\<lambda>_. []) pieces_Read) SerializedMessage_Deserialize 1
        demo_channel ([2, 3], concat (wire c)) = Some (ms, receiver', link')" "subseq ms (published m)"
      "\<forall>env s. sub_reachable env s \<and> prefix (received s) ms \<longrightarrow>
         subseq (map snd (delivered s) @ Pool_contents (sub_queue s)) (published m)"
    using serialized.codec m(2,3) by auto
  with got m(3) have "ms = [demo_text 1]" by simp
  with m(1,2) r s sub show ?thesis by fastforce
qed

end
